(* ===== verification/Prelude.thy ===== *)
theory Prelude
  imports Complex_Main "HOL-Library.AList" "HOL-Library.Multiset"
begin

text \<open>
  What every component shares: the model's conventions (results, tables, dictionaries), the lemma
  collections its proofs use, and the generic reachability argument.

  \<^item> A Python function that may raise returns \<open>'e + 'a\<close>: \<open>Inl\<close> the exception, \<open>Inr\<close> the value.
  \<^item> A Python dictionary is an association list with its keys in insertion order: an update in place
    for an old key and at the end for a new one (\<open>AList.update\<close>), as the language defines it.
  \<^item> An SQL table is the list of its rows. \<open>sql_update\<close>, \<open>sql_delete\<close> and \<open>sql_select\<close> are the
    statements' effect: the WHERE clause is the predicate and SET is the row function.
  \<^item> Python floats and SQL numerics are exact rationals (\<open>rat\<close>): rounding is not modelled.
\<close>

named_theorems op_defs \<open>definitions of operations, unfolded to compute a step\<close>
named_theorems inv_rules \<open>preservation of a component's invariant by one operation\<close>

type_synonym time = rat \<comment> \<open>seconds\<close>

section \<open>Results\<close>

definition is_ok :: "'e + 'a \<Rightarrow> bool" where
  "is_ok r = (case r of Inl _ \<Rightarrow> False | Inr _ \<Rightarrow> True)"

lemma is_ok_simps [simp]: "is_ok (Inr x)" "\<not> is_ok (Inl e)"
  by (simp_all add: is_ok_def)

lemma is_ok_iff: "is_ok r \<longleftrightarrow> (\<exists>x. r = Inr x)"
  by (cases r) auto

section \<open>SQL tables\<close>

definition sql_update :: "('r \<Rightarrow> bool) \<Rightarrow> ('r \<Rightarrow> 'r) \<Rightarrow> 'r list \<Rightarrow> 'r list" where
  "sql_update p f rows = map (\<lambda>r. if p r then f r else r) rows"

definition sql_delete :: "('r \<Rightarrow> bool) \<Rightarrow> 'r list \<Rightarrow> 'r list" where
  "sql_delete p rows = filter (\<lambda>r. \<not> p r) rows"

definition sql_select :: "('r \<Rightarrow> bool) \<Rightarrow> 'r list \<Rightarrow> 'r list" where
  "sql_select p rows = filter p rows"

text \<open>\<open>fetchrow\<close> gives the first row of a result, or \<open>None\<close>.\<close>

definition fetchrow :: "('r \<Rightarrow> bool) \<Rightarrow> 'r list \<Rightarrow> 'r option" where
  "fetchrow p rows = find p rows"

lemma sql_update_simps [simp]:
  "sql_update p f [] = []"
  "sql_update p f (r # rs) = (if p r then f r else r) # sql_update p f rs"
  by (simp_all add: sql_update_def)

lemma sql_delete_simps [simp]:
  "sql_delete p [] = []"
  "sql_delete p (r # rs) = (if p r then sql_delete p rs else r # sql_delete p rs)"
  by (simp_all add: sql_delete_def)

lemma set_sql_update: "set (sql_update p f rs) = (\<lambda>r. if p r then f r else r) ` set rs"
  by (simp add: sql_update_def)

lemma set_sql_delete [simp]: "set (sql_delete p rs) = {r \<in> set rs. \<not> p r}"
  by (simp add: sql_delete_def)

lemma set_sql_select [simp]: "set (sql_select p rs) = {r \<in> set rs. p r}"
  by (simp add: sql_select_def)

lemma sql_update_append [simp]: "sql_update p f (xs @ ys) = sql_update p f xs @ sql_update p f ys"
  by (simp add: sql_update_def)

lemma length_sql_update [simp]: "length (sql_update p f rs) = length rs"
  by (simp add: sql_update_def)

lemma sql_update_none: "\<forall>r \<in> set rs. \<not> p r \<Longrightarrow> sql_update p f rs = rs"
  by (induction rs) auto

lemma map_sql_update:
  assumes "\<And>r. p r \<Longrightarrow> k (f r) = k r"
  shows "map k (sql_update p f rs) = map k rs"
  using assms by (simp add: sql_update_def)

lemma set_sql_update_one:
  assumes "r \<in> set rs" "p r" "\<And>x. x \<in> set rs \<Longrightarrow> p x \<Longrightarrow> x = r"
  shows "set (sql_update p f rs) = insert (f r) (set rs - {r})"
proof -
  let ?g = "\<lambda>x. if p x then f x else x"
  have g: "?g x = x" if "x \<in> set rs - {r}" for x
    using assms(3) [of x] that by (simp split: if_split) blast
  have rest: "?g ` (set rs - {r}) = set rs - {r}"
    using image_cong [of "set rs - {r}" "set rs - {r}" ?g "\<lambda>x. x", OF refl g] by (simp only: image_ident)
  have i: "insert r (set rs - {r}) = set rs" using assms(1) by (rule insert_Diff)
  have "?g ` set rs = ?g ` insert r (set rs - {r})" by (simp only: i)
  also have "\<dots> = insert (?g r) (?g ` (set rs - {r}))" by (rule image_insert)
  finally show ?thesis unfolding rest using assms(2) by (simp only: set_sql_update if_True)
qed

lemma fetchrow_SomeD: "fetchrow p rs = Some r \<Longrightarrow> r \<in> set rs \<and> p r"
  by (auto simp: fetchrow_def find_Some_iff)

lemma fetchrow_None: "fetchrow p rs = None \<longleftrightarrow> (\<forall>r \<in> set rs. \<not> p r)"
  by (auto simp: fetchrow_def find_None_iff)

lemma fetchrow_simps [simp]:
  "fetchrow p [] = None"
  "fetchrow p (r # rs) = (if p r then Some r else fetchrow p rs)"
  by (simp_all add: fetchrow_def)

lemma fetchrow_append:
  "fetchrow p (xs @ ys) = (case fetchrow p xs of None \<Rightarrow> fetchrow p ys | Some r \<Rightarrow> Some r)"
  by (induction xs) auto

lemma find_SomeD: "find p xs = Some x \<Longrightarrow> x \<in> set xs \<and> p x"
  by (induction xs) (auto split: if_splits)

lemma fetch_same_update: "(\<And>r. p r \<Longrightarrow> p (f r)) \<Longrightarrow> fetchrow p (sql_update p f rows) = map_option f (fetchrow p rows)"
  by (induction rows) auto

lemma fetch_other_update: "(\<And>r. p r \<Longrightarrow> \<not> q r \<and> \<not> q (f r)) \<Longrightarrow> fetchrow q (sql_update p f rows) = fetchrow q rows"
  by (induction rows) auto

lemma fetch_same_delete: "fetchrow p (sql_delete p rows) = None"
  by (induction rows) auto

lemma fetch_other_delete: "(\<And>r. p r \<Longrightarrow> \<not> q r) \<Longrightarrow> fetchrow q (sql_delete p rows) = fetchrow q rows"
  by (induction rows) auto

text \<open>
  A table with a primary key: what an operation may assume of the key column, and what follows for
  reading back a row.  Each component's tables are instances.
\<close>

locale keyed_table =
  fixes key :: "'r \<Rightarrow> 'k"
    and upd :: "'u \<Rightarrow> 'r \<Rightarrow> 'r"
  assumes key_upd: "key (upd u r) = key r"
begin

lemma keys_update: "map key (sql_update p (upd u) rs) = map key rs"
  by (rule map_sql_update) (rule key_upd)

lemma keys_delete: "distinct (map key rs) \<Longrightarrow> distinct (map key (sql_delete p rs))"
  by (induction rs) auto

lemma unique_row:
  assumes "distinct (map key rs)" and "r \<in> set rs" and "r' \<in> set rs" and "key r = key r'"
  shows "r = r'"
  using assms by (meson eq_key_imp_eq_value distinct_map inj_onD)

lemma fetch_by_key:
  assumes "distinct (map key rs)" and "r \<in> set rs" and "p r"
    and "\<And>x. p x \<Longrightarrow> key x = key r"
  shows "fetchrow p rs = Some r"
proof (cases "fetchrow p rs")
  case None
  with assms(2,3) show ?thesis by (auto simp: fetchrow_None)
next
  case (Some x)
  with unique_row [OF assms(1) _ assms(2)] assms(4) show ?thesis
    by (metis fetchrow_SomeD)
qed

lemma fetch_updated:
  assumes d: "distinct (map key rs)" and r: "r \<in> set rs" "p r"
    and q: "q (upd u r)" and only: "\<And>x. q x \<Longrightarrow> key x = key r"
  shows "fetchrow q (sql_update p (upd u) rs) = Some (upd u r)"
proof (rule fetch_by_key)
  show "distinct (map key (sql_update p (upd u) rs))" using d by (simp add: keys_update)
  show "upd u r \<in> set (sql_update p (upd u) rs)" using r by (force simp: set_sql_update)
  show "q (upd u r)" by (rule q)
  show "\<And>x. q x \<Longrightarrow> key x = key (upd u r)" using only by (simp add: key_upd)
qed

end

section \<open>Dictionaries\<close>

lemma map_of_update [simp]: "map_of (AList.update k v d) = (map_of d)(k \<mapsto> v)"
  by (simp add: update_conv')

lemma map_of_delete [simp]: "map_of (AList.delete k d) = (map_of d)(k := None)"
  by (simp add: delete_conv')

lemma keys_update_subset: "fst ` set (AList.update k v d) = insert k (fst ` set d)"
  by (simp add: dom_update)

lemma dict_key_iff: "k \<in> fst ` set d \<longleftrightarrow> map_of d k \<noteq> None"
  by (simp add: dom_map_of_conv_image_fst [symmetric] dom_def)

section \<open>Rounding\<close>

text \<open>\<open>round(x)\<close> and \<open>round(x, 2)\<close>: to the nearest, ties to the even neighbour.\<close>

definition round_even :: "rat \<Rightarrow> int" where
  "round_even x = (let f = \<lfloor>x\<rfloor>; d = x - of_int f in
     if d < 1 / 2 then f else if 1 / 2 < d then f + 1 else if even f then f else f + 1)"

definition round2 :: "rat \<Rightarrow> rat" where
  "round2 x = of_int (round_even (x * 100)) / 100"

lemma round_even_bounds: "of_int a \<le> x \<Longrightarrow> x \<le> of_int b \<Longrightarrow> a \<le> round_even x \<and> round_even x \<le> b"
  unfolding round_even_def Let_def by (auto simp: le_floor_iff) linarith+

lemma round2_bounds:
  assumes "of_int a \<le> x" "x \<le> of_int b"
  shows "of_int a \<le> round2 x \<and> round2 x \<le> of_int b"
proof -
  have "of_int (a * 100) \<le> x * 100" "x * 100 \<le> of_int (b * 100)" using assms by simp_all
  from round_even_bounds [OF this]
  have "(of_int (a * 100) :: rat) \<le> of_int (round_even (x * 100))" "of_int (round_even (x * 100)) \<le> (of_int (b * 100) :: rat)"
    by (simp_all only: of_int_le_iff)
  then show ?thesis by (simp add: round2_def divide_le_eq le_divide_eq)
qed

lemma round_even_near: "\<bar>of_int (round_even x) - x\<bar> \<le> 1 / 2"
  using floor_correct [of x] unfolding round_even_def Let_def
  by (cases "x - of_int \<lfloor>x\<rfloor> < 1 / 2"; cases "1 / 2 < x - of_int \<lfloor>x\<rfloor>"; cases "even \<lfloor>x\<rfloor>")
    (simp_all add: abs_le_iff)

section \<open>Reachability\<close>

text \<open>The states a component reaches from its initial ones by its steps.\<close>

inductive reach :: "('s \<Rightarrow> bool) \<Rightarrow> ('s \<Rightarrow> 's \<Rightarrow> bool) \<Rightarrow> 's \<Rightarrow> bool"
  for init :: "'s \<Rightarrow> bool" and step :: "'s \<Rightarrow> 's \<Rightarrow> bool" where
  reach_init: "init s \<Longrightarrow> reach init step s"
| reach_step: "reach init step s \<Longrightarrow> step s t \<Longrightarrow> reach init step t"

locale invariant_system =
  fixes init :: "'s \<Rightarrow> bool" and step :: "'s \<Rightarrow> 's \<Rightarrow> bool" and inv :: "'s \<Rightarrow> bool"
  assumes init_inv: "init s \<Longrightarrow> inv s"
    and step_inv: "inv s \<Longrightarrow> step s t \<Longrightarrow> inv t"
begin

lemma reach_inv: "reach init step s \<Longrightarrow> inv s"
  by (induction rule: reach.induct) (auto intro: init_inv step_inv)

lemma steps_inv: "rtranclp step s t \<Longrightarrow> inv s \<Longrightarrow> inv t"
  by (induction rule: rtranclp_induct) (auto intro: step_inv)

end

section \<open>Sums\<close>

lemma sum_list_le_length: "\<forall>x \<in> set xs. x \<le> b \<Longrightarrow> sum_list xs \<le> of_nat (length xs) * (b :: rat)"
  by (induction xs) (auto simp: algebra_simps)

section \<open>Sorting as Python does it\<close>

text \<open>
  \<open>list.sort(key, reverse=True)\<close> is stable: equal keys keep their order.  \<open>sort_key\<close> is Isabelle's
  stable insertion sort, so a descending stable sort is \<open>sort_key\<close> on the negated key.
\<close>

definition sort_desc :: "('a \<Rightarrow> rat) \<Rightarrow> 'a list \<Rightarrow> 'a list" where
  "sort_desc f xs = sort_key (\<lambda>x. - f x) xs"

lemma mset_sort_desc [simp]: "mset (sort_desc f xs) = mset xs"
  by (simp add: sort_desc_def)

lemma set_sort_desc [simp]: "set (sort_desc f xs) = set xs"
  by (simp add: sort_desc_def)

lemma length_sort_desc [simp]: "length (sort_desc f xs) = length xs"
  by (simp add: sort_desc_def)

lemma sorted_sort_desc: "sorted_wrt (\<lambda>x y. f y \<le> f x) (sort_desc f xs)"
proof -
  have "sorted (map (\<lambda>x. - f x) (sort_key (\<lambda>x. - f x) xs))" by simp
  then show ?thesis by (simp add: sort_desc_def sorted_map)
qed

text \<open>\<open>xs[-n:]\<close> for a positive \<open>n\<close>: the last \<open>n\<close> elements, all of them when there are fewer.\<close>

definition last_n :: "nat \<Rightarrow> 'a list \<Rightarrow> 'a list" where
  "last_n n xs = drop (length xs - n) xs"

lemma length_last_n [simp]: "length (last_n n xs) = min n (length xs)"
  by (simp add: last_n_def)

lemma set_last_n: "set (last_n n xs) \<subseteq> set xs"
  by (simp add: last_n_def set_drop_subset)

end
