(* ===== verification/PyStd.thy ===== *)
theory PyStd
  imports Prelude
begin

text \<open>
  The parts of Python's standard library the components call: string searching, splitting, joining
  and stripping (on lists of any character type, so that the same functions serve byte-sized
  \<open>string\<close>s and lists of Unicode code points), \<open>int(s, 16)\<close>, \<open>uuid.UUID(s)\<close>, and the regular
  expressions of \<open>re\<close> that the sources use.
\<close>

section \<open>Sequences of characters\<close>

type_synonym ucs = "nat list" \<comment> \<open>a \<open>str\<close> as its code points\<close>

definition ucs_of :: "string \<Rightarrow> ucs" where
  "ucs_of s = map of_char s"

definition starts_with :: "'a list \<Rightarrow> 'a list \<Rightarrow> bool" where
  "starts_with x s = (take (length x) s = x)"

lemma starts_with_iff: "starts_with x s \<longleftrightarrow> (\<exists>b. s = x @ b)"
  unfolding starts_with_def by (metis append_eq_conv_conj)

fun sub_in :: "'a list \<Rightarrow> 'a list \<Rightarrow> bool" where \<comment> \<open>\<open>x in s\<close>\<close>
  "sub_in x [] = (x = [])"
| "sub_in x (c # cs) = (starts_with x (c # cs) \<or> sub_in x cs)"

lemma sub_in_iff: "sub_in x s \<longleftrightarrow> (\<exists>a b. s = a @ x @ b)"
proof (induction s)
  case Nil
  then show ?case by simp
next
  case (Cons c cs)
  have "starts_with x (c # cs) \<longleftrightarrow> (\<exists>b. c # cs = x @ b)"
    by (rule starts_with_iff)
  with Cons show ?case by (auto simp: Cons_eq_append_conv)
qed

function split_aux :: "'a list \<Rightarrow> 'a list \<Rightarrow> 'a list \<Rightarrow> 'a list list" where
  "split_aux sep cur s =
     (case s of [] \<Rightarrow> [cur]
      | c # cs \<Rightarrow> if sep \<noteq> [] \<and> starts_with sep s
                 then cur # split_aux sep [] (drop (length sep) s)
                 else split_aux sep (cur @ [c]) cs)"
  by pat_completeness auto
termination
  by (relation "measure (\<lambda>(sep, cur, s). length s)") auto

declare split_aux.simps [simp del]

definition py_split :: "'a list \<Rightarrow> 'a list \<Rightarrow> 'a list list" where \<comment> \<open>\<open>s.split(sep)\<close>\<close>
  "py_split sep s = split_aux sep [] s"

fun py_join :: "'a list \<Rightarrow> 'a list list \<Rightarrow> 'a list" where \<comment> \<open>\<open>sep.join(parts)\<close>\<close>
  "py_join sep [] = []"
| "py_join sep [x] = x"
| "py_join sep (x # y # ys) = x @ sep @ py_join sep (y # ys)"

definition py_replace :: "'a list \<Rightarrow> 'a list \<Rightarrow> 'a list \<Rightarrow> 'a list" where \<comment> \<open>\<open>s.replace(old, new)\<close>\<close>
  "py_replace old new s = py_join new (py_split old s)"

lemma split_aux_ne [simp]: "split_aux sep cur s \<noteq> []"
proof (induction sep cur s rule: split_aux.induct)
  case (1 sep cur s)
  show ?case
  proof (cases s)
    case Nil
    then show ?thesis by (simp add: split_aux.simps)
  next
    case (Cons c cs)
    with "1.IH"(2) show ?thesis by (subst split_aux.simps) auto
  qed
qed

lemma py_join_Cons: "xs \<noteq> [] \<Longrightarrow> py_join sep (x # xs) = x @ sep @ py_join sep xs"
  by (cases xs) auto

lemma join_split_aux: "py_join sep (split_aux sep cur s) = cur @ s"
proof (induction sep cur s rule: split_aux.induct)
  case (1 sep cur s)
  show ?case
  proof (cases s)
    case Nil
    then show ?thesis by (simp add: split_aux.simps)
  next
    case (Cons c cs)
    show ?thesis
    proof (cases "sep \<noteq> [] \<and> starts_with sep s")
      case True
      then have s: "s = sep @ drop (length sep) s"
        by (metis append_take_drop_id starts_with_def)
      with True "1.IH"(1)[OF Cons True] Cons show ?thesis
        by (subst split_aux.simps) (simp add: py_join_Cons)
    next
      case False
      with Cons have "split_aux sep cur s = split_aux sep (cur @ [c]) cs"
        by (subst split_aux.simps) auto
      with "1.IH"(2)[OF Cons False] Cons show ?thesis by simp
    qed
  qed
qed

lemma join_split: "py_join sep (py_split sep s) = s"
  by (simp add: py_split_def join_split_aux)

lemma split_nonempty [simp]: "py_split sep s \<noteq> []"
  by (simp add: py_split_def)

text \<open>Whitespace, by the code points for which \<open>str.isspace\<close> holds.\<close>

definition is_ws :: "nat \<Rightarrow> bool" where
  "is_ws c \<longleftrightarrow> c \<in> {9, 10, 11, 12, 13, 28, 29, 30, 31, 32, 133, 160, 5760, 8232, 8233, 8239, 8287, 12288}
     \<or> (8192 \<le> c \<and> c \<le> 8202)"

definition strip_by :: "('a \<Rightarrow> bool) \<Rightarrow> 'a list \<Rightarrow> 'a list" where
  "strip_by p s = rev (dropWhile p (rev (dropWhile p s)))"

definition strip :: "ucs \<Rightarrow> ucs" where
  "strip = strip_by is_ws"

definition str_strip :: "string \<Rightarrow> string" where
  "str_strip = strip_by (\<lambda>c. is_ws (of_char c))"

lemma strip_by_infix: "\<exists>a b. s = a @ strip_by p s @ b \<and> (\<forall>c \<in> set a \<union> set b. p c)"
proof -
  let ?d = "dropWhile p s"
  have "s = takeWhile p s @ ?d" by simp
  moreover have "rev ?d = takeWhile p (rev ?d) @ dropWhile p (rev ?d)" by simp
  then have "?d = strip_by p s @ rev (takeWhile p (rev ?d))"
    unfolding strip_by_def by (metis rev_append rev_rev_ident)
  ultimately have "s = takeWhile p s @ strip_by p s @ rev (takeWhile p (rev ?d))" by simp
  then show ?thesis by (metis Un_iff set_rev set_takeWhileD)
qed

lemma strip_by_Nil_iff: "strip_by p s = [] \<longleftrightarrow> (\<forall>c \<in> set s. p c)"
proof -
  obtain a b where s: "s = a @ strip_by p s @ b" and ab: "\<forall>c \<in> set a \<union> set b. p c"
    using strip_by_infix [of s p] by (elim exE conjE)
  show ?thesis
  proof
    assume "strip_by p s = []"
    with arg_cong [OF s, of set] have "set s = set a \<union> set b"
      by (simp only: set_append list.set(1) Un_empty_left)
    with ab show "\<forall>c \<in> set s. p c" by simp
  next
    assume "\<forall>c \<in> set s. p c"
    then show "strip_by p s = []" by (auto simp: strip_by_def dest: set_dropWhileD)
  qed
qed

lemma length_strip_by: "length (strip_by p s) \<le> length s"
  unfolding strip_by_def length_rev
  by (rule order_trans [OF length_dropWhile_le]) (simp add: length_dropWhile_le)

lemma strip_by_keeps: "c \<in> set s \<Longrightarrow> \<not> p c \<Longrightarrow> c \<in> set (strip_by p s)"
proof -
  assume c: "c \<in> set s" and np: "\<not> p c"
  obtain a b where e: "s = a @ strip_by p s @ b" and ab: "\<forall>c \<in> set a \<union> set b. p c"
    using strip_by_infix [of s p] by (elim exE conjE)
  have "set s = set a \<union> (set (strip_by p s) \<union> set b)"
    using arg_cong [OF e, of set] by (simp only: set_append)
  with c ab np show ?thesis by blast
qed

text \<open>
  \<open>str.lower\<close>, as far as searching it for words of ASCII letters or ideographs can tell: the ASCII
  capitals, and the Kelvin sign, the only other code point whose lower case is one ASCII letter.
\<close>

definition lower_ucs :: "nat \<Rightarrow> nat" where
  "lower_ucs c = (if 65 \<le> c \<and> c \<le> 90 then c + 32 else if c = 8490 then 107 else c)"

section \<open>\<open>int(s, 16)\<close> and \<open>uuid.UUID(s)\<close>\<close>

definition hex_val :: "char \<Rightarrow> nat option" where
  "hex_val ch = (let c = of_char ch :: nat in
     if 48 \<le> c \<and> c \<le> 57 then Some (c - 48)
     else if 65 \<le> c \<and> c \<le> 70 then Some (c - 55)
     else if 97 \<le> c \<and> c \<le> 102 then Some (c - 87) else None)"

text \<open>The digits, with single underscores between them; \<open>prev\<close> tells whether a digit came last.\<close>

fun hex_digits :: "bool \<Rightarrow> nat \<Rightarrow> string \<Rightarrow> nat option" where
  "hex_digits prev acc [] = (if prev then Some acc else None)"
| "hex_digits prev acc (c # cs) =
     (if c = CHR ''_'' then (if prev then hex_digits False acc cs else None)
      else case hex_val c of None \<Rightarrow> None | Some d \<Rightarrow> hex_digits True (16 * acc + d) cs)"

definition hex_body :: "string \<Rightarrow> nat option" where
  "hex_body s =
     (if starts_with ''0x'' s \<or> starts_with ''0X'' s
      then (let t = drop 2 s in hex_digits False 0 (if starts_with ''_'' t then tl t else t))
      else hex_digits False 0 s)"

definition int_hex :: "string \<Rightarrow> int option" where
  "int_hex s0 = (let s = str_strip s0 in
     if starts_with ''-'' s then map_option (\<lambda>n. - int n) (hex_body (tl s))
     else if starts_with ''+'' s then map_option int (hex_body (tl s))
     else map_option int (hex_body s))"

text \<open>\<open>s.replace(old, '')\<close>\<close>

definition remove_all :: "'a list \<Rightarrow> 'a list \<Rightarrow> 'a list" where
  "remove_all old s = concat (py_split old s)"

definition uuid_parse :: "string \<Rightarrow> nat option" where
  "uuid_parse s =
     (let h = remove_all ''-'' (strip_by (\<lambda>c. c = CHR ''{'' \<or> c = CHR ''}'')
                (remove_all ''uuid:'' (remove_all ''urn:'' s)))
      in if length h \<noteq> 32 then None
         else case int_hex h of None \<Rightarrow> None
              | Some i \<Rightarrow> if 0 \<le> i \<and> i < 2 ^ 128 then Some (nat i) else None)"

lemma uuid_parse_Nil: "uuid_parse [] = None"
  by (simp add: uuid_parse_def remove_all_def py_split_def split_aux.simps strip_by_def)

lemma uuid_parse_bound: "uuid_parse s = Some u \<Longrightarrow> u < 2 ^ 128"
  by (auto simp: uuid_parse_def Let_def split: if_splits option.splits)

section \<open>Regular expressions\<close>

text \<open>
  The fragment of \<open>re\<close> that the patterns of the sources are written in, over any character type.
  \<open>rx_ends r s\<close> lists what may remain of \<open>s\<close> after a match of \<open>r\<close> at its start; a pattern is found
  in a text (\<open>search\<close>) when it matches at some position.
\<close>

datatype 'c rx =
    Chr "'c \<Rightarrow> bool"
  | Eps
  | Cat "'c rx" "'c rx"
  | Alt "'c rx" "'c rx"
  | UpTo nat "'c \<Rightarrow> bool"   \<comment> \<open>\<open>c{0,n}\<close>\<close>
  | Many "'c \<Rightarrow> bool"       \<comment> \<open>\<open>c*\<close>\<close>

fun many_ends :: "('c \<Rightarrow> bool) \<Rightarrow> 'c list \<Rightarrow> 'c list list" where
  "many_ends p [] = [[]]"
| "many_ends p (c # cs) = (c # cs) # (if p c then many_ends p cs else [])"

fun upto_ends :: "nat \<Rightarrow> ('c \<Rightarrow> bool) \<Rightarrow> 'c list \<Rightarrow> 'c list list" where
  "upto_ends 0 p s = [s]"
| "upto_ends (Suc n) p [] = [[]]"
| "upto_ends (Suc n) p (c # cs) = (c # cs) # (if p c then upto_ends n p cs else [])"

fun rx_ends :: "'c rx \<Rightarrow> 'c list \<Rightarrow> 'c list list" where
  "rx_ends (Chr p) s = (case s of [] \<Rightarrow> [] | c # cs \<Rightarrow> if p c then [cs] else [])"
| "rx_ends Eps s = [s]"
| "rx_ends (Cat a b) s = concat (map (rx_ends b) (rx_ends a s))"
| "rx_ends (Alt a b) s = rx_ends a s @ rx_ends b s"
| "rx_ends (UpTo n p) s = upto_ends n p s"
| "rx_ends (Many p) s = many_ends p s"

fun rx_search :: "'c rx \<Rightarrow> 'c list \<Rightarrow> bool" where
  "rx_search r [] = (rx_ends r [] \<noteq> [])"
| "rx_search r (c # cs) = (rx_ends r (c # cs) \<noteq> [] \<or> rx_search r cs)"

text \<open>What an expression means: the texts it matches as a whole.\<close>

fun rx_matches :: "'c rx \<Rightarrow> 'c list \<Rightarrow> bool" where
  "rx_matches (Chr p) u = (\<exists>c. u = [c] \<and> p c)"
| "rx_matches Eps u = (u = [])"
| "rx_matches (Cat a b) u = (\<exists>x y. u = x @ y \<and> rx_matches a x \<and> rx_matches b y)"
| "rx_matches (Alt a b) u = (rx_matches a u \<or> rx_matches b u)"
| "rx_matches (UpTo n p) u = (length u \<le> n \<and> (\<forall>c \<in> set u. p c))"
| "rx_matches (Many p) u = (\<forall>c \<in> set u. p c)"

lemma many_ends_iff: "t \<in> set (many_ends p s) \<longleftrightarrow> (\<exists>u. s = u @ t \<and> (\<forall>c \<in> set u. p c))"
  by (induction s) (auto simp: Cons_eq_append_conv)

lemma upto_ends_iff: "t \<in> set (upto_ends n p s) \<longleftrightarrow> (\<exists>u. s = u @ t \<and> length u \<le> n \<and> (\<forall>c \<in> set u. p c))"
  by (induction n p s rule: upto_ends.induct) (auto simp: Cons_eq_append_conv)

text \<open>The matcher finds exactly the matches of the expression.\<close>

lemma rx_ends_correct: "t \<in> set (rx_ends r s) \<longleftrightarrow> (\<exists>u. s = u @ t \<and> rx_matches r u)"
proof (induction r arbitrary: s t)
  case (Chr p)
  show ?case by (cases s) (auto simp: Cons_eq_append_conv)
next
  case (Cat a b)
  have "t \<in> set (rx_ends (Cat a b) s) \<longleftrightarrow> (\<exists>m. m \<in> set (rx_ends a s) \<and> t \<in> set (rx_ends b m))" by auto
  also have "\<dots> \<longleftrightarrow> (\<exists>m x. s = x @ m \<and> rx_matches a x \<and> (\<exists>y. m = y @ t \<and> rx_matches b y))"
    unfolding Cat by blast
  also have "\<dots> \<longleftrightarrow> (\<exists>u. s = u @ t \<and> rx_matches (Cat a b) u)"
    by (simp only: rx_matches.simps) (metis append_assoc)
  finally show ?case .
qed (auto simp: upto_ends_iff many_ends_iff)

lemma rx_ends_some: "rx_ends r s \<noteq> [] \<longleftrightarrow> (\<exists>u b. s = u @ b \<and> rx_matches r u)"
proof -
  have "rx_ends r s \<noteq> [] \<longleftrightarrow> (\<exists>t. t \<in> set (rx_ends r s))" by (cases "rx_ends r s") auto
  then show ?thesis unfolding rx_ends_correct by blast
qed

lemma rx_search_suffix: "rx_search r s \<longleftrightarrow> (\<exists>a s'. s = a @ s' \<and> rx_ends r s' \<noteq> [])"
  by (induction s) (auto simp: Cons_eq_append_conv)

lemma rx_search_correct: "rx_search r s \<longleftrightarrow> (\<exists>a u b. s = a @ u @ b \<and> rx_matches r u)"
  unfolding rx_search_suffix rx_ends_some by blast

text \<open>A literal word, one character after the other.\<close>

fun rx_word :: "('c \<Rightarrow> 'c \<Rightarrow> bool) \<Rightarrow> 'c list \<Rightarrow> 'c rx" where
  "rx_word eq [] = Eps"
| "rx_word eq (c # cs) = Cat (Chr (eq c)) (rx_word eq cs)"

lemma rx_ends_word: "rx_ends (rx_word (=) w) s = (if starts_with w s then [drop (length w) s] else [])"
proof (induction w arbitrary: s)
  case Nil
  then show ?case by (simp add: starts_with_def)
next
  case (Cons a w)
  show ?case by (cases s) (auto simp: Cons starts_with_def)
qed

lemma rx_matches_Chr_Cat: "rx_matches (Cat (Chr p) r) u \<longleftrightarrow> (\<exists>c cs. u = c # cs \<and> p c \<and> rx_matches r cs)"
  by (simp only: rx_matches.simps) (metis append_Cons append_Nil)

lemma rx_matches_word: "rx_matches (rx_word eq w) u \<longleftrightarrow> list_all2 eq w u"
proof (induction w arbitrary: u)
  case (Cons p w)
  show ?case unfolding rx_word.simps rx_matches_Chr_Cat Cons list_all2_Cons1 by blast
qed simp

lemma rx_search_word: "rx_search (rx_word (=) w) s = sub_in w s"
  by (induction s) (auto simp: rx_ends_word starts_with_def split: if_splits)

text \<open>An expression read through a function of the characters, as ignoring the case is.\<close>

fun rx_comap :: "('d \<Rightarrow> 'c) \<Rightarrow> 'c rx \<Rightarrow> 'd rx" where
  "rx_comap f (Chr p) = Chr (\<lambda>c. p (f c))"
| "rx_comap f Eps = Eps"
| "rx_comap f (Cat a b) = Cat (rx_comap f a) (rx_comap f b)"
| "rx_comap f (Alt a b) = Alt (rx_comap f a) (rx_comap f b)"
| "rx_comap f (UpTo n p) = UpTo n (\<lambda>c. p (f c))"
| "rx_comap f (Many p) = Many (\<lambda>c. p (f c))"

lemma rx_matches_comap: "rx_matches (rx_comap f r) u = rx_matches r (map f u)"
proof (induction r arbitrary: u)
  case (Chr p)
  show ?case by (cases u rule: remdups_adj.cases) auto
next
  case (Cat a b)
  have "rx_matches (rx_comap f (Cat a b)) u \<longleftrightarrow> (\<exists>x y. u = x @ y \<and> rx_matches a (map f x) \<and> rx_matches b (map f y))"
    by (simp add: Cat)
  also have "\<dots> \<longleftrightarrow> (\<exists>x y. map f u = x @ y \<and> rx_matches a x \<and> rx_matches b y)"
    by (metis map_append map_eq_append_conv)
  finally show ?case by simp
qed auto

lemma rx_search_comap: "rx_search (rx_comap f r) s = rx_search r (map f s)"
proof -
  have "(\<exists>a u b. s = a @ u @ b \<and> rx_matches r (map f u)) \<longleftrightarrow> (\<exists>a u b. map f s = a @ u @ b \<and> rx_matches r u)"
  proof
    assume "\<exists>a u b. s = a @ u @ b \<and> rx_matches r (map f u)"
    then show "\<exists>a u b. map f s = a @ u @ b \<and> rx_matches r u" by (metis map_append)
  next
    assume "\<exists>a u b. map f s = a @ u @ b \<and> rx_matches r u"
    then obtain a u b where s: "map f s = a @ u @ b" and u: "rx_matches r u" by blast
    from s obtain a' u' b' where "s = a' @ u' @ b'" "map f u' = u"
      unfolding map_eq_append_conv append_eq_map_conv by blast
    with u show "\<exists>a u b. s = a @ u @ b \<and> rx_matches r (map f u)" by blast
  qed
  then show ?thesis unfolding rx_search_correct rx_matches_comap .
qed

section \<open>\<open>str\<close> of a number\<close>

fun dec_digits :: "nat \<Rightarrow> string" where
  "dec_digits n = (if n < 10 then [char_of (48 + n)] else dec_digits (n div 10) @ [char_of (48 + n mod 10)])"

declare dec_digits.simps [simp del]

lemma digit_value: "d < 10 \<Longrightarrow> (of_char (char_of (48 + d)) :: nat) = 48 + d"
  by simp

lemma dec_digits_value: "foldl (\<lambda>acc c. acc * 10 + (of_char c - 48)) 0 (dec_digits n) = (n :: nat)"
proof (induction n rule: dec_digits.induct)
  case (1 n)
  show ?case
  proof (cases "n < 10")
    case True
    then show ?thesis by (subst dec_digits.simps) (simp add: digit_value)
  next
    case False
    have "n mod 10 < 10" by simp
    with False 1 show ?thesis by (subst dec_digits.simps) (simp add: digit_value del: mod_less_divisor)
  qed
qed

lemma dec_digits_inj: "dec_digits m = dec_digits n \<longleftrightarrow> m = n"
  by (metis dec_digits_value)

definition show_int :: "int \<Rightarrow> string" where
  "show_int i = (if i < 0 then CHR ''-'' # dec_digits (nat (- i)) else dec_digits (nat i))"

end
