(* ===== verification/Db.thy ===== *)
theory Db
  imports PyStd
begin

text \<open>
  How the handlers fail, and the tenant context of \<^verbatim>\<open>shared/db.py\<close> in which they run their
  statements.  A handler that raises inside \<^verbatim>\<open>async with conn.transaction()\<close> rolls back: the models
  return the old database with the exception.
\<close>

datatype db_error =
    UniqueViolation | ForeignKeyViolation | NotNullViolation | CheckViolation
  | UndefinedColumn string | UndefinedTable string | UnsetParameter
  | OutOfRange     \<comment> \<open>a value that does not fit the column's integer type\<close>
  | BadArgument    \<comment> \<open>a statement argument the driver cannot encode\<close>

datatype exn =
    HTTPException nat      \<comment> \<open>a response with this status code; the detail text is not modelled\<close>
  | DbExn db_error         \<comment> \<open>raised by the driver, with nothing committed\<close>
  | ValueError
  | TypeError
  | KeyError
  | ValidationError      \<comment> \<open>of a Pydantic model\<close>
  | IndexError
  | ParseError           \<comment> \<open>of the document parser\<close>
  | OSError              \<comment> \<open>of the file system\<close>
  | ConnectionError      \<comment> \<open>a failed call to Redis or another service\<close>
  | ImportError          \<comment> \<open>of a name that a module does not have\<close>
  | RuntimeError
  | AttributeError
  | PatternError         \<comment> \<open>of the module \<open>re\<close>\<close>

section \<open>Keys and the tenant context\<close>

definition lock_key :: "string \<Rightarrow> string" where
  "lock_key thread_id = ''cuckoo:lock:'' @ thread_id"

definition ratelimit_key :: "string \<Rightarrow> string \<Rightarrow> string" where
  "ratelimit_key tenant_id user_id = ''cuckoo:ratelimit:'' @ tenant_id @ '':'' @ user_id"

lemma lock_key_inj [simp]: "lock_key a = lock_key b \<longleftrightarrow> a = b"
  by (simp add: lock_key_def)

lemma lock_key_not_ratelimit: "lock_key a \<noteq> ratelimit_key t u"
  by (simp add: lock_key_def ratelimit_key_def)

text \<open>
  \<open>tenant_db_context\<close> runs the body with \<open>app.current_tenant\<close> set to the validated tenant, or
  raises \<open>ValueError\<close> before the body when the tenant is no UUID.
\<close>

definition tenant_db_context :: "string \<Rightarrow> (nat \<Rightarrow> 'db \<Rightarrow> (exn + 'a) \<times> 'db) \<Rightarrow> 'db \<Rightarrow> (exn + 'a) \<times> 'db" where
  "tenant_db_context tenant_id body db =
     (case uuid_parse tenant_id of
        None \<Rightarrow> (Inl ValueError, db)
      | Some t \<Rightarrow> (case body t db of (Inl e, _) \<Rightarrow> (Inl e, db) | (Inr x, db') \<Rightarrow> (Inr x, db')))"

lemma tenant_context_ok:
  "tenant_db_context tid body db = (Inr x, db') \<longleftrightarrow>
     (\<exists>t. uuid_parse tid = Some t \<and> body t db = (Inr x, db'))"
  by (auto simp: tenant_db_context_def split: option.splits prod.splits sum.splits)

lemma tenant_context_rollback: "tenant_db_context tid body db = (Inl e, db') \<Longrightarrow> db' = db"
  by (auto simp: tenant_db_context_def split: option.splits prod.splits sum.splits)

text \<open>
  Row-level security, from the policies of the migrations: where the database role is subject to it
  (\<open>rls\<close>), a statement sees the rows of the current tenant only.  A role that owns the tables or is
  a superuser is not subject to it.
\<close>

definition rls_visible :: "bool \<Rightarrow> nat \<Rightarrow> nat \<Rightarrow> bool" where
  "rls_visible rls cur row_tenant \<longleftrightarrow> \<not> rls \<or> row_tenant = cur"

text \<open>Three UUIDs to run the operations on.\<close>

definition uuid1 :: string where "uuid1 = ''00000000000000000000000000000001''"
definition uuid2 :: string where "uuid2 = ''00000000000000000000000000000002''"
definition uuid3 :: string where "uuid3 = ''00000000000000000000000000000003''"

lemma uuid_demo [simp]: "uuid_parse uuid1 = Some 1" "uuid_parse uuid2 = Some 2" "uuid_parse uuid3 = Some 3"
  by (simp_all add: uuid1_def uuid2_def uuid3_def uuid_parse_def remove_all_def py_split_def split_aux.simps
      starts_with_def strip_by_def int_hex_def str_strip_def is_ws_def hex_body_def hex_val_def Let_def)

lemma uuid_nonempty [simp]: "uuid1 \<noteq> []" "uuid2 \<noteq> []" "uuid3 \<noteq> []"
  by (simp_all add: uuid1_def uuid2_def uuid3_def)

lemma uuid_no_colon [simp]: "CHR '':'' \<notin> set uuid1" "CHR '':'' \<notin> set uuid2" "CHR '':'' \<notin> set uuid3"
  by (simp_all add: uuid1_def uuid2_def uuid3_def)

lemma uuid_anonymous: "uuid_parse ''anonymous'' = None"
  by code_simp

end
