(* ===== verification/Hitl.thy ===== *)
theory Hitl
  imports Db
begin

text \<open>
  Human-in-the-loop sessions: \<^verbatim>\<open>admin_service/routes/hitl.py\<close> over the tables of
  \<^verbatim>\<open>migrations/alembic/versions/001\<close>, \<open>002\<close> and \<open>005\<close>.  A session is opened by
  \<open>notify_hitl_request\<close> with an escalation task due 60 seconds later; an admin takes it and ends it,
  or the poller escalates it to a ticket.  Each handler is one transaction, split into its read and its
  writes, since the read locks no session; \<open>hitl_step\<close> interleaves the handlers under way.
\<close>

section \<open>Tables\<close>

datatype sess_status = Pending | Active | Resolved | AutoEscalated
datatype thread_status = ThActive | ThHuman | ThClosed
datatype ticket_status = TkOpen | TkInProgress | TkResolved | TkClosed

record hitl_session =
  hs_id :: nat
  hs_tenant :: nat
  hs_thread :: nat
  hs_admin :: "nat option"
  hs_started :: time
  hs_ended :: "time option"
  hs_status :: sess_status

record thread_row =
  th_id :: nat
  th_tenant :: nat
  th_status :: thread_status
  th_updated :: time

record esc_task =
  et_id :: nat
  et_session :: nat
  et_tenant :: nat
  et_thread :: nat
  et_execute_at :: time

record ticket =
  tk_id :: nat
  tk_tenant :: nat
  tk_thread :: nat
  tk_session :: nat
  tk_status :: ticket_status

record hitl_db =
  rls :: bool \<comment> \<open>whether the role is subject to the row-level policies\<close>
  tenants :: "nat list"
  sessions :: "hitl_session list"
  threads :: "thread_row list"
  tasks :: "esc_task list"
  tickets :: "ticket list"

definition hitl_session_columns :: "string list" where
  "hitl_session_columns =
     [''id'', ''tenant_id'', ''thread_id'', ''admin_user_id'', ''started_at'', ''ended_at'', ''status'']"

definition sees :: "hitl_db \<Rightarrow> nat \<Rightarrow> nat \<Rightarrow> hitl_session \<Rightarrow> bool" where
  "sees db cur sid s \<longleftrightarrow> hs_id s = sid \<and> rls_visible (rls db) cur (hs_tenant s)"

section \<open>WebSocket registry\<close>

text \<open>
  \<open>_ws_connections\<close>: the admin sockets of each tenant.  The tenant a socket registers for is the one
  its first message names.
\<close>

type_synonym ws_registry = "(string \<times> nat list) list"

definition conns :: "ws_registry \<Rightarrow> string \<Rightarrow> nat list" where
  "conns reg t = (case map_of reg t of None \<Rightarrow> [] | Some ws \<Rightarrow> ws)"

definition hitl_ws_register :: "ws_registry \<Rightarrow> nat \<Rightarrow> string option \<Rightarrow> (nat + unit) \<times> ws_registry" where
  "hitl_ws_register reg ws named =
     (case named of
        None \<Rightarrow> (Inl 4001, reg)
      | Some t \<Rightarrow> if t = [] then (Inl 4001, reg)
                  else (Inr (), AList.update t (conns reg t @ [ws]) reg))"

definition hitl_ws_disconnect :: "ws_registry \<Rightarrow> nat \<Rightarrow> string option \<Rightarrow> ws_registry" where
  "hitl_ws_disconnect reg ws named =
     (case named of
        None \<Rightarrow> reg
      | Some t \<Rightarrow> if t \<noteq> [] \<and> ws \<in> set (conns reg t)
                  then AList.update t (remove1 ws (conns reg t)) reg else reg)"

text \<open>\<open>alive ws\<close>: whether sending to the socket succeeds.  Gives the sockets reached.\<close>

definition broadcast_to_tenant :: "(nat \<Rightarrow> bool) \<Rightarrow> ws_registry \<Rightarrow> string \<Rightarrow> nat list \<times> ws_registry" where
  "broadcast_to_tenant alive reg t =
     (let dead = filter (\<lambda>ws. \<not> alive ws) (conns reg t)
      in (filter alive (conns reg t),
          fold (\<lambda>ws r. AList.update t (remove1 ws (conns r t)) r) dead reg))"

section \<open>Handlers\<close>

definition notify_hitl_request :: "nat \<Rightarrow> nat \<Rightarrow> nat \<Rightarrow> nat \<Rightarrow> time \<Rightarrow> hitl_db \<Rightarrow> (exn + nat) \<times> hitl_db" where
  [op_defs]: "notify_hitl_request tenant thread session_id task_id now db =
     (if session_id \<in> hs_id ` set (sessions db) \<or> task_id \<in> et_id ` set (tasks db)
      then (Inl (DbExn UniqueViolation), db)
      else if tenant \<notin> set (tenants db) then (Inl (DbExn ForeignKeyViolation), db)
      else (Inr session_id,
            db\<lparr>sessions := sessions db @
                 [\<lparr>hs_id = session_id, hs_tenant = tenant, hs_thread = thread, hs_admin = None,
                   hs_started = now, hs_ended = None, hs_status = Pending\<rparr>],
               tasks := tasks db @
                 [\<lparr>et_id = task_id, et_session = session_id, et_tenant = tenant,
                   et_thread = thread, et_execute_at = now + 60\<rparr>]\<rparr>))"

text \<open>\<open>GET /hitl/sessions\<close>: the statement's column list is resolved against the table first.\<close>

definition list_sessions_query :: "string list" where
  "list_sessions_query =
     [''id'', ''thread_id'', ''status'', ''admin_user_id'', ''created_at'', ''ended_at'', ''tenant_id'']"

definition list_sessions :: "nat \<Rightarrow> hitl_db \<Rightarrow> exn + hitl_session list" where
  "list_sessions tenant db =
     (case find (\<lambda>c. c \<notin> set hitl_session_columns) list_sessions_query of
        Some c \<Rightarrow> Inl (DbExn (UndefinedColumn c))
      | None \<Rightarrow> Inr (take 50 (sort_desc hs_started
                  (sql_select (\<lambda>s. hs_tenant s = tenant \<and> rls_visible (rls db) tenant (hs_tenant s))
                     (sessions db)))))"

text \<open>\<open>take_session\<close>: the read and its checks, then the two updates.\<close>

definition take_check :: "nat \<Rightarrow> nat \<Rightarrow> hitl_db \<Rightarrow> exn + nat" where
  [op_defs]: "take_check cur sid db =
     (case fetchrow (sees db cur sid) (sessions db) of
        None \<Rightarrow> Inl (HTTPException 404)
      | Some row \<Rightarrow> if hs_status row \<noteq> Pending then Inl (HTTPException 409) else Inr (hs_thread row))"

definition take_write :: "nat \<Rightarrow> nat \<Rightarrow> nat \<Rightarrow> nat \<Rightarrow> time \<Rightarrow> hitl_db \<Rightarrow> hitl_db" where
  [op_defs]: "take_write cur sid admin thread now db =
     db\<lparr>threads := sql_update (\<lambda>t. th_id t = thread \<and> rls_visible (rls db) cur (th_tenant t))
                     (\<lambda>t. t\<lparr>th_status := ThHuman, th_updated := now\<rparr>) (threads db),
        sessions := sql_update (sees db cur sid)
                     (\<lambda>s. s\<lparr>hs_admin := Some admin, hs_status := Active\<rparr>) (sessions db)\<rparr>"

definition take_session :: "nat \<Rightarrow> nat \<Rightarrow> nat \<Rightarrow> time \<Rightarrow> hitl_db \<Rightarrow> (exn + nat) \<times> hitl_db" where
  [op_defs]: "take_session cur sid admin now db =
     (case take_check cur sid db of
        Inl e \<Rightarrow> (Inl e, db)
      | Inr thread \<Rightarrow> (Inr thread, take_write cur sid admin thread now db))"

text \<open>\<open>end_session\<close> likewise.\<close>

definition end_check :: "nat \<Rightarrow> nat \<Rightarrow> hitl_db \<Rightarrow> exn + nat" where
  [op_defs]: "end_check cur sid db =
     (case fetchrow (sees db cur sid) (sessions db) of
        None \<Rightarrow> Inl (HTTPException 404)
      | Some row \<Rightarrow> if hs_status row \<noteq> Active then Inl (HTTPException 409) else Inr (hs_thread row))"

definition end_write :: "nat \<Rightarrow> nat \<Rightarrow> nat \<Rightarrow> time \<Rightarrow> hitl_db \<Rightarrow> hitl_db" where
  [op_defs]: "end_write cur sid thread now db =
     db\<lparr>threads := sql_update (\<lambda>t. th_id t = thread \<and> rls_visible (rls db) cur (th_tenant t))
                     (\<lambda>t. t\<lparr>th_status := ThActive, th_updated := now\<rparr>) (threads db),
        sessions := sql_update (sees db cur sid)
                     (\<lambda>s. s\<lparr>hs_ended := Some now, hs_status := Resolved\<rparr>) (sessions db)\<rparr>"

definition end_session :: "nat \<Rightarrow> nat \<Rightarrow> time \<Rightarrow> hitl_db \<Rightarrow> (exn + nat) \<times> hitl_db" where
  [op_defs]: "end_session cur sid now db =
     (case end_check cur sid db of
        Inl e \<Rightarrow> (Inl e, db)
      | Inr thread \<Rightarrow> (Inr thread, end_write cur sid thread now db))"

text \<open>
  \<open>send_hitl_message\<close>.  The column list of its INSERT leaves out \<open>messages.tenant_id\<close>, which is
  NOT NULL without a default; \<open>insert_message\<close> is the INSERT, with the columns it was given.
\<close>

record message_row =
  mr_id :: nat
  mr_tenant :: nat
  mr_thread :: nat
  mr_role :: string
  mr_content :: string
  mr_created :: time

definition insert_message ::
  "nat \<Rightarrow> nat option \<Rightarrow> nat \<Rightarrow> string \<Rightarrow> string \<Rightarrow> time \<Rightarrow> message_row list \<Rightarrow> exn + message_row list" where
  "insert_message mid tenant thread role content now ms =
     (case tenant of
        None \<Rightarrow> Inl (DbExn NotNullViolation)
      | Some t \<Rightarrow>
          if role \<notin> {''user'', ''assistant'', ''tool'', ''system'', ''admin''} then Inl (DbExn CheckViolation)
          else if mid \<in> mr_id ` set ms then Inl (DbExn UniqueViolation)
          else Inr (ms @ [\<lparr>mr_id = mid, mr_tenant = t, mr_thread = thread, mr_role = role,
                           mr_content = content, mr_created = now\<rparr>]))"

definition send_hitl_message ::
  "nat \<Rightarrow> nat \<Rightarrow> string \<Rightarrow> nat \<Rightarrow> time \<Rightarrow> hitl_db \<Rightarrow> message_row list \<Rightarrow> (exn + message_row) \<times> message_row list" where
  "send_hitl_message cur sid body_content mid now db ms =
     (let content = str_strip body_content in
      if content = [] then (Inl (HTTPException 400), ms)
      else case fetchrow (sees db cur sid) (sessions db) of
        None \<Rightarrow> (Inl (HTTPException 404), ms)
      | Some row \<Rightarrow>
          if hs_status row \<noteq> Active then (Inl (HTTPException 409), ms)
          else case insert_message mid None (hs_thread row) ''admin'' content now ms of
            Inl e \<Rightarrow> (Inl e, ms)
          | Inr ms' \<Rightarrow> (Inr (last ms'), ms'))"

text \<open>
  One batch of the escalation poller.  It runs outside every tenant context, so under row-level
  security the read of the session fails for want of \<open>app.current_tenant\<close>.  \<open>locked\<close> holds the
  tasks that other workers have locked.
\<close>

definition due_tasks :: "time \<Rightarrow> nat list \<Rightarrow> hitl_db \<Rightarrow> esc_task list" where
  "due_tasks now locked db =
     sort_key et_execute_at (filter (\<lambda>t. et_execute_at t \<le> now \<and> et_id t \<notin> set locked) (tasks db))"

definition escalate :: "nat \<Rightarrow> esc_task \<Rightarrow> hitl_db \<Rightarrow> hitl_db" where
  [op_defs]: "escalate ticket_id t db =
     db\<lparr>sessions := sql_update (\<lambda>s. hs_id s = et_session t) (\<lambda>s. s\<lparr>hs_status := AutoEscalated\<rparr>) (sessions db),
        tickets := tickets db @
          [\<lparr>tk_id = ticket_id, tk_tenant = et_tenant t, tk_thread = et_thread t,
            tk_session = et_session t, tk_status = TkOpen\<rparr>]\<rparr>"

definition drop_task :: "esc_task \<Rightarrow> hitl_db \<Rightarrow> hitl_db" where
  [op_defs]: "drop_task t db = db\<lparr>tasks := sql_delete (\<lambda>x. et_id x = et_id t) (tasks db)\<rparr>"

text \<open>
  A ticket's row refers to its tenant and to a row of \<open>threads\<close>: migration 005 drops the second
  reference of the sessions and of the tasks but not that of the tickets.
\<close>

definition ticket_refs :: "esc_task \<Rightarrow> hitl_db \<Rightarrow> bool" where
  "ticket_refs t db \<longleftrightarrow> et_tenant t \<in> set (tenants db) \<and> et_thread t \<in> th_id ` set (threads db)"

text \<open>
  A batch locks the task it selects, reads the session's status without locking it, and writes.
  \<open>poll_read\<close> gives the task and whether the session was pending.
\<close>

definition poll_read :: "time \<Rightarrow> nat list \<Rightarrow> hitl_db \<Rightarrow> exn + (esc_task \<times> bool) option" where
  "poll_read now locked db =
     (case due_tasks now locked db of
        [] \<Rightarrow> Inr None
      | t # _ \<Rightarrow>
          if rls db \<and> et_session t \<in> hs_id ` set (sessions db) then Inl (DbExn UnsetParameter)
          else Inr (Some (t, case fetchrow (\<lambda>s. hs_id s = et_session t) (sessions db) of
              None \<Rightarrow> False | Some s \<Rightarrow> hs_status s = Pending)))"

definition poll_write :: "nat \<Rightarrow> esc_task \<Rightarrow> bool \<Rightarrow> hitl_db \<Rightarrow> (exn + unit) \<times> hitl_db" where
  "poll_write ticket_id t pending db =
     (if pending
      then (if ticket_id \<in> tk_id ` set (tickets db) then (Inl (DbExn UniqueViolation), db)
            else if \<not> ticket_refs t db then (Inl (DbExn ForeignKeyViolation), db)
            else (Inr (), drop_task t (escalate ticket_id t db)))
      else (Inr (), drop_task t db))"

definition poll_escalation_tasks :: "time \<Rightarrow> nat list \<Rightarrow> nat \<Rightarrow> hitl_db \<Rightarrow> (exn + unit) \<times> hitl_db" where
  "poll_escalation_tasks now locked ticket_id db =
     (case poll_read now locked db of
        Inl e \<Rightarrow> (Inl e, db)
      | Inr None \<Rightarrow> (Inr (), db)
      | Inr (Some (t, pending)) \<Rightarrow> poll_write ticket_id t pending db)"

text \<open>
  \<open>run_escalation_poller\<close>, one entry per iteration: the time, the tasks locked by other workers and
  the new ticket's id.  An exception of an iteration is logged and the loop goes on.
\<close>

fun run_escalation_poller :: "(time \<times> nat list \<times> nat) list \<Rightarrow> hitl_db \<Rightarrow> hitl_db" where
  "run_escalation_poller [] db = db"
| "run_escalation_poller ((now, locked, kid) # its) db =
     run_escalation_poller its (snd (poll_escalation_tasks now locked kid db))"

section \<open>Handlers under way\<close>

text \<open>
  No handler locks the session it reads, so between a read and its commit others may commit.  A
  handler under way is what it has read; the poller alone locks, its task, which other pollers skip.
  Every commit is one step, as is a handler that is given up.
\<close>

datatype intent =
    Taking nat nat nat nat    \<comment> \<open>the current tenant, the session, the admin, the thread\<close>
  | Ending nat nat nat
  | Polling esc_task bool

record hitl_sys =
  hy_db :: hitl_db
  hy_flight :: "intent list"

fun polled :: "intent list \<Rightarrow> (esc_task \<times> bool) list" where
  "polled [] = []"
| "polled (Polling t p # xs) = (t, p) # polled xs"
| "polled (_ # xs) = polled xs"

definition locked_tasks :: "hitl_sys \<Rightarrow> nat list" where
  "locked_tasks y = map (et_id \<circ> fst) (polled (hy_flight y))"

inductive hitl_step :: "hitl_sys \<Rightarrow> hitl_sys \<Rightarrow> bool" where
  notify: "notify_hitl_request tenant thread sid tid now (hy_db y) = (r, db) \<Longrightarrow> hitl_step y (y\<lparr>hy_db := db\<rparr>)"
| take_read: "take_check cur sid (hy_db y) = Inr thread \<Longrightarrow>
    hitl_step y (y\<lparr>hy_flight := hy_flight y @ [Taking cur sid admin thread]\<rparr>)"
| take_commit: "Taking cur sid admin thread \<in> set (hy_flight y) \<Longrightarrow>
    hitl_step y \<lparr>hy_db = take_write cur sid admin thread now (hy_db y),
      hy_flight = remove1 (Taking cur sid admin thread) (hy_flight y)\<rparr>"
| end_read: "end_check cur sid (hy_db y) = Inr thread \<Longrightarrow>
    hitl_step y (y\<lparr>hy_flight := hy_flight y @ [Ending cur sid thread]\<rparr>)"
| end_commit: "Ending cur sid thread \<in> set (hy_flight y) \<Longrightarrow>
    hitl_step y \<lparr>hy_db = end_write cur sid thread now (hy_db y),
      hy_flight = remove1 (Ending cur sid thread) (hy_flight y)\<rparr>"
| poll_select: "poll_read now (locked_tasks y) (hy_db y) = Inr (Some (t, p)) \<Longrightarrow>
    hitl_step y (y\<lparr>hy_flight := hy_flight y @ [Polling t p]\<rparr>)"
| poll_commit: "Polling t p \<in> set (hy_flight y) \<Longrightarrow> poll_write kid t p (hy_db y) = (r', db) \<Longrightarrow>
    hitl_step y \<lparr>hy_db = db, hy_flight = remove1 (Polling t p) (hy_flight y)\<rparr>"
| given_up: "hitl_step y (y\<lparr>hy_flight := remove1 x (hy_flight y)\<rparr>)"

inductive_cases hitl_step_cases: "hitl_step y y'"

definition hitl_init :: "hitl_sys \<Rightarrow> bool" where
  "hitl_init y \<longleftrightarrow> sessions (hy_db y) = [] \<and> tasks (hy_db y) = [] \<and> tickets (hy_db y) = [] \<and> hy_flight y = []"

section \<open>The invariant\<close>

definition hitl_inv :: "hitl_db \<Rightarrow> bool" where
  "hitl_inv db \<longleftrightarrow>
     distinct (map hs_id (sessions db)) \<and> distinct (map et_id (tasks db)) \<and>
     distinct (map et_session (tasks db)) \<and> distinct (map tk_session (tickets db)) \<and>
     (\<forall>s \<in> set (sessions db). hs_status s = Pending \<longrightarrow> hs_id s \<in> et_session ` set (tasks db)) \<and>
     et_session ` set (tasks db) \<subseteq> hs_id ` set (sessions db) \<and>
     et_tenant ` set (tasks db) \<subseteq> set (tenants db) \<and>
     tk_session ` set (tickets db) \<subseteq> hs_id ` set (sessions db) \<and>
     et_session ` set (tasks db) \<inter> tk_session ` set (tickets db) = {} \<and>
     (\<forall>s \<in> set (sessions db). hs_status s = AutoEscalated \<longrightarrow> hs_id s \<in> tk_session ` set (tickets db))"

interpretation session_table: keyed_table hs_id "\<lambda>f s. s\<lparr>hs_admin := fst f, hs_ended := fst (snd f), hs_status := snd (snd f)\<rparr>"
  by unfold_locales simp

lemma hitl_invD:
  assumes "hitl_inv db"
  shows "distinct (map hs_id (sessions db))" "distinct (map et_id (tasks db))"
    "distinct (map et_session (tasks db))" "distinct (map tk_session (tickets db))"
    "s \<in> set (sessions db) \<Longrightarrow> hs_status s = Pending \<Longrightarrow> hs_id s \<in> et_session ` set (tasks db)"
    "et_session ` set (tasks db) \<subseteq> hs_id ` set (sessions db)"
    "et_tenant ` set (tasks db) \<subseteq> set (tenants db)"
    "tk_session ` set (tickets db) \<subseteq> hs_id ` set (sessions db)"
    "et_session ` set (tasks db) \<inter> tk_session ` set (tickets db) = {}"
    "s \<in> set (sessions db) \<Longrightarrow> hs_status s = AutoEscalated \<Longrightarrow> hs_id s \<in> tk_session ` set (tickets db)"
  using assms unfolding hitl_inv_def by simp_all

lemma hitl_invI:
  assumes "distinct (map hs_id (sessions db))" "distinct (map et_id (tasks db))"
    "distinct (map et_session (tasks db))" "distinct (map tk_session (tickets db))"
    "\<And>s. s \<in> set (sessions db) \<Longrightarrow> hs_status s = Pending \<Longrightarrow> hs_id s \<in> et_session ` set (tasks db)"
    "et_session ` set (tasks db) \<subseteq> hs_id ` set (sessions db)"
    "et_tenant ` set (tasks db) \<subseteq> set (tenants db)"
    "tk_session ` set (tickets db) \<subseteq> hs_id ` set (sessions db)"
    "et_session ` set (tasks db) \<inter> tk_session ` set (tickets db) = {}"
    "\<And>s. s \<in> set (sessions db) \<Longrightarrow> hs_status s = AutoEscalated \<Longrightarrow> hs_id s \<in> tk_session ` set (tickets db)"
  shows "hitl_inv db"
  using assms unfolding hitl_inv_def by simp

lemma session_unique:
  "hitl_inv db \<Longrightarrow> s \<in> set (sessions db) \<Longrightarrow> s' \<in> set (sessions db) \<Longrightarrow> hs_id s = hs_id s' \<Longrightarrow> s = s'"
  using session_table.unique_row hitl_invD(1) by blast

lemma hitl_inv_notify [inv_rules]:
  assumes inv: "hitl_inv db" and n: "notify_hitl_request tenant thread sid tid now db = (r, db')"
  shows "hitl_inv db'"
proof (cases "db' = db")
  case True
  with inv show ?thesis by simp
next
  case False
  define s where "s = \<lparr>hs_id = sid, hs_tenant = tenant, hs_thread = thread, hs_admin = None,
    hs_started = now, hs_ended = None, hs_status = Pending\<rparr>"
  define t where "t = \<lparr>et_id = tid, et_session = sid, et_tenant = tenant, et_thread = thread,
    et_execute_at = now + 60\<rparr>"
  from n False have fresh: "sid \<notin> hs_id ` set (sessions db)" "tid \<notin> et_id ` set (tasks db)"
    and s': "sessions db' = sessions db @ [s]" "tasks db' = tasks db @ [t]" "tickets db' = tickets db" "tenants db' = tenants db"
    and ten: "tenant \<in> set (tenants db)"
    by (auto simp: notify_hitl_request_def s_def t_def split: if_splits)
  have s: "hs_id s = sid" "hs_status s = Pending" by (simp_all add: s_def)
  have t: "et_id t = tid" "et_session t = sid" "et_tenant t = tenant" by (simp_all add: t_def)
  have new: "sid \<notin> et_session ` set (tasks db)" "sid \<notin> tk_session ` set (tickets db)"
    using fresh(1) hitl_invD(6,8) [OF inv] by blast+
  show ?thesis
    by (rule hitl_invI) (use hitl_invD [OF inv] fresh s t ten new in \<open>auto simp: s'\<close>)
qed

lemma sees_id: "sees db cur sid s \<Longrightarrow> hs_id s = sid"
  by (simp add: sees_def)

text \<open>
  An update of sessions that keeps their ids and makes none pending or escalated keeps the invariant.
\<close>

lemma hitl_inv_update:
  assumes inv: "hitl_inv db"
    and db': "sessions db' = sql_update p f (sessions db)" "tasks db' = tasks db" "tickets db' = tickets db" "tenants db' = tenants db"
    and f: "\<And>s. hs_id (f s) = hs_id s" "\<And>s. hs_status (f s) \<noteq> Pending" "\<And>s. hs_status (f s) \<noteq> AutoEscalated"
  shows "hitl_inv db'"
proof -
  have ids: "map hs_id (sessions db') = map hs_id (sessions db)"
    using f(1) by (simp add: db' map_sql_update)
  have idset: "hs_id ` set (sessions db') = hs_id ` set (sessions db)"
    using ids by (metis set_map)
  have old: "s \<in> set (sessions db)" if "s \<in> set (sessions db')" "hs_status s \<in> {Pending, AutoEscalated}" for s
    using that f(2,3) by (auto simp: db' set_sql_update split: if_splits)
  show ?thesis
  proof (rule hitl_invI)
    fix s assume "s \<in> set (sessions db')" "hs_status s = Pending"
    with hitl_invD(5) [OF inv old] show "hs_id s \<in> et_session ` set (tasks db')" by (simp add: db')
  next
    fix s assume "s \<in> set (sessions db')" "hs_status s = AutoEscalated"
    with hitl_invD(10) [OF inv old] show "hs_id s \<in> tk_session ` set (tickets db')" by (simp add: db')
  qed (use hitl_invD [OF inv] in \<open>simp_all only: ids idset db'(2-4)\<close>)
qed

lemma hitl_inv_take [inv_rules]: "hitl_inv db \<Longrightarrow> hitl_inv (take_write cur sid admin thread now db)"
  by (erule hitl_inv_update [where p = "sees db cur sid" and f = "\<lambda>s. s\<lparr>hs_admin := Some admin, hs_status := Active\<rparr>"])
    (simp_all add: take_write_def)

lemma hitl_inv_end [inv_rules]: "hitl_inv db \<Longrightarrow> hitl_inv (end_write cur sid thread now db)"
  by (erule hitl_inv_update [where p = "sees db cur sid" and f = "\<lambda>s. s\<lparr>hs_ended := Some now, hs_status := Resolved\<rparr>"])
    (simp_all add: end_write_def)

lemma due_tasks_set: "set (due_tasks now locked db) = {t \<in> set (tasks db). et_execute_at t \<le> now \<and> et_id t \<notin> set locked}"
  by (auto simp: due_tasks_def)

lemma drop_task_set:
  assumes "hitl_inv db" and "t \<in> set (tasks db)"
  shows "set (tasks (drop_task t db)) = set (tasks db) - {t}"
  using hitl_invD(2) [OF assms(1)] assms(2) by (auto simp: drop_task_def distinct_map inj_on_def)

lemma drop_task_simps [simp]:
  "sessions (drop_task t db) = sessions db" "tickets (drop_task t db) = tickets db"
  "tenants (drop_task t db) = tenants db" "threads (drop_task t db) = threads db" "rls (drop_task t db) = rls db"
  by (simp_all add: drop_task_def)

lemma escalate_simps [simp]:
  "tasks (escalate kid t db) = tasks db" "tenants (escalate kid t db) = tenants db"
  "threads (escalate kid t db) = threads db" "rls (escalate kid t db) = rls db"
  "tk_session ` set (tickets (escalate kid t db)) = insert (et_session t) (tk_session ` set (tickets db))"
  "tk_id ` set (tickets (escalate kid t db)) = insert kid (tk_id ` set (tickets db))"
  by (auto simp: escalate_def)

lemma distinct_sql_delete: "distinct (map k xs) \<Longrightarrow> distinct (map k (sql_delete p xs))"
  by (induction xs) auto

lemma drop_keys:
  assumes "hitl_inv db"
  shows "distinct (map et_id (tasks (drop_task t db)))" "distinct (map et_session (tasks (drop_task t db)))"
  using hitl_invD(2,3) [OF assms] by (simp_all add: drop_task_def distinct_sql_delete)

lemma other_session:
  assumes "hitl_inv db" and "t \<in> set (tasks db)" "u \<in> set (tasks db)" "u \<noteq> t"
  shows "et_session u \<noteq> et_session t"
  using hitl_invD(3) [OF assms(1)] assms(2-4) by (auto simp: distinct_map inj_on_def)

lemma hitl_inv_drop:
  assumes inv: "hitl_inv db" and t: "t \<in> set (tasks db)"
    and np: "\<And>s. s \<in> set (sessions db) \<Longrightarrow> hs_id s = et_session t \<Longrightarrow> hs_status s \<noteq> Pending"
  shows "hitl_inv (drop_task t db)"
proof (rule hitl_invI)
  note ts = drop_task_set [OF inv t]
  show "et_session ` set (tasks (drop_task t db)) \<inter> tk_session ` set (tickets (drop_task t db)) = {}"
    "et_session ` set (tasks (drop_task t db)) \<subseteq> hs_id ` set (sessions (drop_task t db))"
    "et_tenant ` set (tasks (drop_task t db)) \<subseteq> set (tenants (drop_task t db))"
    using hitl_invD(6,7,9) [OF inv] unfolding ts drop_task_simps by blast+
  fix s assume "s \<in> set (sessions (drop_task t db))" "hs_status s = Pending"
  then show "hs_id s \<in> et_session ` set (tasks (drop_task t db))"
    using hitl_invD(5) [OF inv, of s] np [of s] unfolding ts by auto
qed (use hitl_invD [OF inv] drop_keys [OF inv] in auto)

lemma hitl_inv_escalate:
  assumes inv: "hitl_inv db" and t: "t \<in> set (tasks db)"
  shows "hitl_inv (drop_task t (escalate kid t db))"
proof (rule hitl_invI)
  let ?db = "drop_task t (escalate kid t db)"
  have ts: "set (tasks ?db) = set (tasks db) - {t}" "tasks ?db = tasks (drop_task t db)"
    using drop_task_set [OF inv t] by (simp_all add: drop_task_def)
  have ss: "set (sessions ?db) = (\<lambda>s. if hs_id s = et_session t then s\<lparr>hs_status := AutoEscalated\<rparr> else s) ` set (sessions db)"
    by (simp add: escalate_def set_sql_update)
  have ids: "map hs_id (sessions ?db) = map hs_id (sessions db)" by (simp add: escalate_def map_sql_update)
  have idset: "hs_id ` set (sessions ?db) = hs_id ` set (sessions db)" using ids by (metis set_map)
  have tk: "tk_session ` set (tickets ?db) = insert (et_session t) (tk_session ` set (tickets db))" by simp
  have tin: "et_session t \<in> hs_id ` set (sessions db)" "et_session t \<notin> tk_session ` set (tickets db)"
    using t hitl_invD(6,9) [OF inv] by blast+
  show "distinct (map hs_id (sessions ?db))" unfolding ids by (rule hitl_invD(1) [OF inv])
  show "distinct (map et_id (tasks ?db))" "distinct (map et_session (tasks ?db))"
    unfolding ts(2) by (rule drop_keys [OF inv])+
  show "distinct (map tk_session (tickets ?db))"
    using hitl_invD(4) [OF inv] tin(2) by (simp add: escalate_def image_iff)
  show "et_session ` set (tasks ?db) \<subseteq> hs_id ` set (sessions ?db)" "et_tenant ` set (tasks ?db) \<subseteq> set (tenants ?db)"
    using hitl_invD(6,7) [OF inv] unfolding ts(1) idset by auto
  show "tk_session ` set (tickets ?db) \<subseteq> hs_id ` set (sessions ?db)"
    using hitl_invD(8) [OF inv] tin(1) unfolding tk idset by blast
  show "et_session ` set (tasks ?db) \<inter> tk_session ` set (tickets ?db) = {}"
    using hitl_invD(9) [OF inv] other_session [OF inv t] unfolding ts(1) tk by blast
  show "hs_id s \<in> et_session ` set (tasks ?db)" if s: "s \<in> set (sessions ?db)" "hs_status s = Pending" for s
  proof -
    have "s \<in> set (sessions db)" "hs_id s \<noteq> et_session t" using s unfolding ss by (auto split: if_splits)
    with hitl_invD(5) [OF inv _ s(2)] show ?thesis unfolding ts(1) by blast
  qed
  show "hs_id s \<in> tk_session ` set (tickets ?db)" if s: "s \<in> set (sessions ?db)" "hs_status s = AutoEscalated" for s
    using s hitl_invD(10) [OF inv, of s] unfolding ss tk by (auto split: if_splits)
qed

lemma poll_write_cases:
  assumes "poll_write kid t p db = (r, db')"
  obtains "db' = db" "p"
  | "\<not> p" "db' = drop_task t db"
  | "p" "kid \<notin> tk_id ` set (tickets db)" "ticket_refs t db" "db' = drop_task t (escalate kid t db)"
  using assms unfolding poll_write_def by (cases p) (auto split: if_splits)

lemma hitl_inv_poll_write:
  assumes inv: "hitl_inv db" and t: "t \<in> set (tasks db)"
    and np: "\<And>s. \<not> p \<Longrightarrow> s \<in> set (sessions db) \<Longrightarrow> hs_id s = et_session t \<Longrightarrow> hs_status s \<noteq> Pending"
    and w: "poll_write kid t p db = (r, db')"
  shows "hitl_inv db'"
  using w
proof (cases rule: poll_write_cases)
  case 1
  with inv show ?thesis by simp
next
  case 2
  then show ?thesis using hitl_inv_drop [OF inv t] np by blast
next
  case 3
  then show ?thesis using hitl_inv_escalate [OF inv t] by simp
qed

lemma poll_read_task:
  assumes "hitl_inv db" and "poll_read now locked db = Inr (Some (t, p))"
  shows "t \<in> set (tasks db)" "et_id t \<notin> set locked"
    "s \<in> set (sessions db) \<Longrightarrow> hs_id s = et_session t \<Longrightarrow> p \<longleftrightarrow> hs_status s = Pending"
proof -
  obtain ts where due: "due_tasks now locked db = t # ts"
    and p: "p = (case fetchrow (\<lambda>s. hs_id s = et_session t) (sessions db) of None \<Rightarrow> False | Some s \<Rightarrow> hs_status s = Pending)"
    using assms(2) unfolding poll_read_def by (auto split: list.splits if_splits)
  show "t \<in> set (tasks db)" "et_id t \<notin> set locked" using due_tasks_set [of now locked db] due by auto
  assume s: "s \<in> set (sessions db)" "hs_id s = et_session t"
  then obtain x where x: "fetchrow (\<lambda>s. hs_id s = et_session t) (sessions db) = Some x"
    by (cases "fetchrow (\<lambda>s. hs_id s = et_session t) (sessions db)") (auto simp: fetchrow_None)
  then have "x = s" using fetchrow_SomeD [OF x] session_unique [OF assms(1) _ s(1)] s(2) by simp
  with p x show "p \<longleftrightarrow> hs_status s = Pending" by simp
qed

lemma hitl_inv_poll [inv_rules]:
  assumes inv: "hitl_inv db" and p: "poll_escalation_tasks now locked kid db = (r, db')"
  shows "hitl_inv db'"
proof (cases "poll_read now locked db")
  case (Inr x)
  show ?thesis
  proof (cases x)
    case None
    with Inr p inv show ?thesis by (simp add: poll_escalation_tasks_def)
  next
    case (Some y)
    obtain t q where y: "y = (t, q)" by (cases y)
    with Inr Some p have w: "poll_write kid t q db = (r, db')" by (simp add: poll_escalation_tasks_def)
    note rd = poll_read_task [OF inv Inr [unfolded Some y]]
    show ?thesis by (rule hitl_inv_poll_write [OF inv rd(1) _ w]) (use rd(3) in blast)
  qed
qed (use p inv in \<open>simp add: poll_escalation_tasks_def\<close>)

text \<open>Of a handler under way: its session, what it read of it, and what its commit makes of it.\<close>

fun intent_session :: "intent \<Rightarrow> nat" where
  "intent_session (Taking cur sid admin thread) = sid"
| "intent_session (Ending cur sid thread) = sid"
| "intent_session (Polling t p) = et_session t"

fun as_read :: "intent \<Rightarrow> sess_status \<Rightarrow> bool" where
  "as_read (Taking cur sid admin thread) st = (st = Pending)"
| "as_read (Ending cur sid thread) st = (st = Active)"
| "as_read (Polling t p) st = (p \<longleftrightarrow> st = Pending)"

fun target :: "intent \<Rightarrow> sess_status option" where
  "target (Taking cur sid admin thread) = Some Active"
| "target (Ending cur sid thread) = Some Resolved"
| "target (Polling t p) = (if p then Some AutoEscalated else None)"

lemma target_not_pending: "target x \<noteq> Some Pending"
  by (cases x) auto

lemma in_polled: "(t, p) \<in> set (polled xs) \<longleftrightarrow> Polling t p \<in> set xs"
  by (induction xs rule: polled.induct) auto

lemma polled_append [simp]: "polled (xs @ ys) = polled xs @ polled ys"
  by (induction xs rule: polled.induct) auto

lemma polled_remove: "polled (remove1 x xs) = (case x of Polling t p \<Rightarrow> remove1 (t, p) (polled xs) | _ \<Rightarrow> polled xs)"
  by (induction xs rule: polled.induct) (auto split: intent.split)

text \<open>
  The invariant of the handlers under way: they are about stored sessions, two pollers never hold the
  same task, a poller's task is still there, and a session that was not pending still is not.
\<close>

definition flight_ok :: "hitl_db \<Rightarrow> intent list \<Rightarrow> bool" where
  "flight_ok db xs \<longleftrightarrow>
     distinct (map (et_id \<circ> fst) (polled xs)) \<and>
     (\<forall>x \<in> set xs. intent_session x \<in> hs_id ` set (sessions db)) \<and>
     (\<forall>t p. Polling t p \<in> set xs \<longrightarrow> t \<in> set (tasks db)) \<and>
     (\<forall>t. Polling t False \<in> set xs \<longrightarrow> (\<forall>s \<in> set (sessions db). hs_id s = et_session t \<longrightarrow> hs_status s \<noteq> Pending))"

definition sys_inv :: "hitl_sys \<Rightarrow> bool" where
  "sys_inv y \<longleftrightarrow> hitl_inv (hy_db y) \<and> flight_ok (hy_db y) (hy_flight y)"

lemma distinct_remove1_key: "distinct (map k xs) \<Longrightarrow> distinct (map k (remove1 x xs))"
  by (induction xs) (auto dest: in_set_remove1 [THEN iffD1, rotated] notin_set_remove1 intro: imageI dest!: set_remove1_subset [THEN subsetD])

lemma flight_ok_drop:
  assumes "flight_ok db xs"
  shows "flight_ok db (remove1 x xs)"
proof -
  have sub: "set (remove1 x xs) \<subseteq> set xs" by (rule set_remove1_subset)
  have "distinct (map (et_id \<circ> fst) (polled (remove1 x xs)))"
    using assms unfolding polled_remove flight_ok_def
    by (auto split: intent.split intro: distinct_remove1_key simp del: map_map)
  with sub assms show ?thesis unfolding flight_ok_def by blast
qed

text \<open>What a commit leaves of a handler under way: sessions keep their ids and none becomes pending.\<close>

lemma flight_ok_mono:
  assumes "flight_ok db xs"
    and "hs_id ` set (sessions db) \<subseteq> hs_id ` set (sessions db')"
    and "\<And>t p. Polling t p \<in> set xs \<Longrightarrow> t \<in> set (tasks db) \<Longrightarrow> t \<in> set (tasks db')"
    and "\<And>s. s \<in> set (sessions db') \<Longrightarrow> hs_status s = Pending \<Longrightarrow> s \<in> set (sessions db) \<or> hs_id s \<notin> hs_id ` set (sessions db)"
  shows "flight_ok db' xs"
proof -
  have "hs_status s \<noteq> Pending" if "Polling t False \<in> set xs" "s \<in> set (sessions db')" "hs_id s = et_session t" for s t
  proof
    assume p: "hs_status s = Pending"
    have "et_session t \<in> hs_id ` set (sessions db)" using assms(1) that(1) unfolding flight_ok_def by force
    with assms(4) [OF that(2) p] that(3) have "s \<in> set (sessions db)" by auto
    with assms(1) that(1,3) p show False unfolding flight_ok_def by blast
  qed
  moreover have "intent_session x \<in> hs_id ` set (sessions db')" if "x \<in> set xs" for x
    using assms(1,2) that unfolding flight_ok_def by blast
  moreover have "distinct (map (et_id \<circ> fst) (polled xs))" using assms(1) by (simp add: flight_ok_def)
  moreover have "t \<in> set (tasks db')" if "Polling t p \<in> set xs" for t p
    using assms(1,3) that unfolding flight_ok_def by blast
  ultimately show ?thesis unfolding flight_ok_def by blast
qed

lemma distinct_key_remove:
  "distinct (map k ys) \<Longrightarrow> y \<in> set ys \<Longrightarrow> z \<in> set (remove1 y ys) \<Longrightarrow> k z \<noteq> k y"
  by (auto simp: distinct_map inj_on_def set_remove1_eq)

lemma polled_once:
  assumes "flight_ok db xs" and "Polling t p \<in> set xs" and "Polling u q \<in> set (remove1 (Polling t p) xs)"
  shows "u \<noteq> t"
proof
  assume "u = t"
  have "(t, p) \<in> set (polled xs)" "(u, q) \<in> set (remove1 (t, p) (polled xs))"
    using assms(2) in_polled [of u q "remove1 (Polling t p) xs"] assms(3) by (simp_all add: in_polled polled_remove)
  moreover have d: "distinct (map (et_id \<circ> fst) (polled xs))" using assms(1) by (simp add: flight_ok_def)
  ultimately have "(et_id \<circ> fst) (u, q) \<noteq> (et_id \<circ> fst) (t, p)"
    using distinct_key_remove [of "et_id \<circ> fst" "polled xs" "(t, p)" "(u, q)"] by blast
  then show False using \<open>u = t\<close> by simp
qed

lemma notify_sessions:
  assumes "notify_hitl_request tenant thread sid tid now db = (r, db')"
  shows "db' = db \<or> (\<exists>s t. sessions db' = sessions db @ [s] \<and> hs_id s \<notin> hs_id ` set (sessions db) \<and>
    hs_status s = Pending \<and> tasks db' = tasks db @ [t] \<and> tickets db' = tickets db \<and> threads db' = threads db)"
  using assms by (auto simp: notify_hitl_request_def split: if_splits)

lemma check_row:
  assumes "take_check cur sid db = Inr thread \<or> end_check cur sid db = Inr thread"
  obtains row where "row \<in> set (sessions db)" "hs_id row = sid"
    "hs_status row = (if take_check cur sid db = Inr thread then Pending else Active)"
proof -
  obtain row where r: "fetchrow (sees db cur sid) (sessions db) = Some row"
    and st: "hs_status row = (if take_check cur sid db = Inr thread then Pending else Active)"
    using assms by (auto simp: take_check_def end_check_def split: option.splits if_splits)
  from fetchrow_SomeD [OF r] st that show thesis by (auto simp: sees_def)
qed

lemma ids_kept: "(\<And>s. hs_id (f s) = hs_id s) \<Longrightarrow> hs_id ` set (sql_update p f ss) = hs_id ` set ss"
  by (metis map_sql_update set_map)

lemma escalated_ids: "hs_id ` set (sessions (escalate kid t db)) = hs_id ` set (sessions db)"
  by (simp add: escalate_def ids_kept)

lemma write_ids:
  "hs_id ` set (sessions (take_write cur sid admin thread now db)) = hs_id ` set (sessions db)"
  "hs_id ` set (sessions (end_write cur sid thread now db)) = hs_id ` set (sessions db)"
  by (simp_all add: take_write_def end_write_def ids_kept)

lemma flight_ok_after:
  assumes f: "flight_ok db xs"
  shows "flight_ok (take_write cur sid admin thread now db) xs"
    and "flight_ok (end_write cur sid thread now db) xs"
proof -
  show "flight_ok (take_write cur sid admin thread now db) xs"
    by (rule flight_ok_mono [OF f]) (simp add: write_ids, simp add: take_write_def, auto simp: take_write_def set_sql_update split: if_splits)
  show "flight_ok (end_write cur sid thread now db) xs"
    by (rule flight_ok_mono [OF f]) (simp add: write_ids, simp add: end_write_def, auto simp: end_write_def set_sql_update split: if_splits)
qed

lemma flight_ok_poll:
  assumes inv: "hitl_inv db" and f: "flight_ok db xs" and t: "Polling t p \<in> set xs"
    and w: "poll_write kid t p db = (r, db')"
  shows "flight_ok db' (remove1 (Polling t p) xs)"
proof -
  have tin: "t \<in> set (tasks db)" using f t unfolding flight_ok_def by blast
  note f' = flight_ok_drop [OF f, of "Polling t p"]
  have ts: "u \<in> set (tasks (drop_task t x))" if "Polling u q \<in> set (remove1 (Polling t p) xs)" "u \<in> set (tasks db)" "tasks x = tasks db" for u q x
    using polled_once [OF f t that(1)] drop_task_set [OF inv tin] that(2,3) by (simp add: drop_task_def)
  from w show ?thesis
  proof (cases rule: poll_write_cases)
    case 1
    with f' show ?thesis by simp
  next
    case 2
    show ?thesis unfolding 2(2) by (rule flight_ok_mono [OF f']) (use ts in auto)
  next
    case 3
    show ?thesis unfolding 3(4)
    proof (rule flight_ok_mono [OF f'])
      fix s assume "s \<in> set (sessions (drop_task t (escalate kid t db)))" "hs_status s = Pending"
      then show "s \<in> set (sessions db) \<or> hs_id s \<notin> hs_id ` set (sessions db)"
        by (auto simp: escalate_def set_sql_update split: if_splits)
    qed (use ts in \<open>simp_all add: escalated_ids\<close>)
  qed
qed

lemma sys_inv_step:
  assumes inv: "sys_inv y" and st: "hitl_step y y'"
  shows "sys_inv y'"
proof -
  have db: "hitl_inv (hy_db y)" and f: "flight_ok (hy_db y) (hy_flight y)" using inv by (simp_all add: sys_inv_def)
  from st show ?thesis
  proof cases
    case (notify tenant thread sid tid now r db')
    have "flight_ok db' (hy_flight y)"
      by (rule flight_ok_mono [OF f]) (use notify_sessions [OF notify(2)] in auto)
    with hitl_inv_notify [OF db notify(2)] show ?thesis by (simp add: notify(1) sys_inv_def)
  next
    case (take_read cur sid thread admin)
    from check_row [of cur sid "hy_db y" thread] take_read(2) have "sid \<in> hs_id ` set (sessions (hy_db y))" by blast
    with f db show ?thesis by (auto simp: take_read(1) sys_inv_def flight_ok_def)
  next
    case (take_commit cur sid admin thread now)
    show ?thesis unfolding take_commit(1) sys_inv_def
      using hitl_inv_take [OF db] flight_ok_drop [OF flight_ok_after(1) [OF f]] by simp
  next
    case (end_read cur sid thread)
    from check_row [of cur sid "hy_db y" thread] end_read(2) have "sid \<in> hs_id ` set (sessions (hy_db y))" by blast
    with f db show ?thesis by (auto simp: end_read(1) sys_inv_def flight_ok_def)
  next
    case (end_commit cur sid thread now)
    show ?thesis unfolding end_commit(1) sys_inv_def
      using hitl_inv_end [OF db] flight_ok_drop [OF flight_ok_after(2) [OF f]] by simp
  next
    case (poll_select now t p)
    note rd = poll_read_task [OF db poll_select(2)]
    have "et_session t \<in> hs_id ` set (sessions (hy_db y))" using hitl_invD(6) [OF db] rd(1) by blast
    moreover have "hs_status s \<noteq> Pending" if "\<not> p" "s \<in> set (sessions (hy_db y))" "hs_id s = et_session t" for s
      using rd(3) [OF that(2,3)] that(1) by simp
    ultimately show ?thesis using f db rd(1,2)
      by (auto simp: poll_select(1) sys_inv_def flight_ok_def locked_tasks_def)
  next
    case (poll_commit t p kid r' db')
    have "hitl_inv db'"
      by (rule hitl_inv_poll_write [OF db _ _ poll_commit(3)]) (use f poll_commit(2) in \<open>auto simp: flight_ok_def\<close>)
    with flight_ok_poll [OF db f poll_commit(2,3)] show ?thesis by (simp add: poll_commit(1) sys_inv_def)
  next
    case (given_up x)
    with db flight_ok_drop [OF f] show ?thesis by (simp add: sys_inv_def)
  qed
qed

interpretation hitl: invariant_system hitl_init hitl_step sys_inv
proof unfold_locales
  show "sys_inv y" if "hitl_init y" for y
    using that by (simp add: hitl_init_def sys_inv_def hitl_inv_def flight_ok_def)
qed (rule sys_inv_step)

lemma reach_hitl_inv: "reach hitl_init hitl_step y \<Longrightarrow> hitl_inv (hy_db y)"
  using hitl.reach_inv by (simp add: sys_inv_def)

section \<open>What a session's life can be\<close>

fun sess_next :: "sess_status \<Rightarrow> sess_status \<Rightarrow> bool" where
  "sess_next Pending Active = True"
| "sess_next Pending AutoEscalated = True"
| "sess_next Active Resolved = True"
| "sess_next _ _ = False"

lemma read_next: "as_read x st \<Longrightarrow> target x = Some st' \<Longrightarrow> sess_next st st'"
  by (cases x) (auto split: if_splits)

definition same_session :: "hitl_session \<Rightarrow> hitl_session \<Rightarrow> bool" where
  "same_session s s' \<longleftrightarrow> hs_id s' = hs_id s \<and> hs_tenant s' = hs_tenant s \<and> hs_thread s' = hs_thread s"

text \<open>
  A step keeps every session, and moves it, if at all, to where a handler under way that is about it
  moves it.
\<close>

lemma step_session:
  assumes inv: "sys_inv y" and st: "hitl_step y y'" and s: "s \<in> set (sessions (hy_db y))"
  shows "\<exists>s' \<in> set (sessions (hy_db y')). same_session s s' \<and>
    (hs_status s' = hs_status s \<or>
     (\<exists>x \<in> set (hy_flight y). intent_session x = hs_id s \<and> target x = Some (hs_status s') \<and> hy_flight y' = remove1 x (hy_flight y)))"
  using st
proof cases
  case (notify tenant thread sid tid now r db')
  then show ?thesis using notify_sessions [OF notify(2)] s by (auto simp: same_session_def intro!: bexI [of _ s])
next
  case (take_commit cur sid admin thread now)
  let ?f = "\<lambda>s. if sees (hy_db y) cur sid s then s\<lparr>hs_admin := Some admin, hs_status := Active\<rparr> else s"
  have "?f s \<in> set (sessions (hy_db y'))" using s by (simp add: take_commit(1) take_write_def set_sql_update)
  moreover have "same_session s (?f s)" by (simp add: same_session_def)
  moreover have "hs_status (?f s) = hs_status s \<or> (\<exists>x \<in> set (hy_flight y). intent_session x = hs_id s \<and>
      target x = Some (hs_status (?f s)) \<and> hy_flight y' = remove1 x (hy_flight y))"
    using take_commit(2) by (cases "sees (hy_db y) cur sid s") (simp_all add: take_commit(1) sees_id bexI [of _ "Taking cur sid admin thread"])
  ultimately show ?thesis by blast
next
  case (end_commit cur sid thread now)
  let ?f = "\<lambda>s. if sees (hy_db y) cur sid s then s\<lparr>hs_ended := Some now, hs_status := Resolved\<rparr> else s"
  have "?f s \<in> set (sessions (hy_db y'))" using s by (simp add: end_commit(1) end_write_def set_sql_update)
  moreover have "same_session s (?f s)" by (simp add: same_session_def)
  moreover have "hs_status (?f s) = hs_status s \<or> (\<exists>x \<in> set (hy_flight y). intent_session x = hs_id s \<and>
      target x = Some (hs_status (?f s)) \<and> hy_flight y' = remove1 x (hy_flight y))"
    using end_commit(2) by (cases "sees (hy_db y) cur sid s") (simp_all add: end_commit(1) sees_id bexI [of _ "Ending cur sid thread"])
  ultimately show ?thesis by blast
next
  case (poll_commit t p kid r' db')
  let ?f = "\<lambda>s. if hs_id s = et_session t then s\<lparr>hs_status := AutoEscalated\<rparr> else s"
  from poll_commit(3) show ?thesis
  proof (cases rule: poll_write_cases)
    case 3
    have "?f s \<in> set (sessions (hy_db y'))" using s by (simp add: poll_commit(1) 3(4) escalate_def set_sql_update)
    moreover have "same_session s (?f s)" by (simp add: same_session_def)
    moreover have "hs_status (?f s) = hs_status s \<or> (\<exists>x \<in> set (hy_flight y). intent_session x = hs_id s \<and>
        target x = Some (hs_status (?f s)) \<and> hy_flight y' = remove1 x (hy_flight y))"
      using poll_commit(2) 3(1) by (cases "hs_id s = et_session t") (simp_all add: poll_commit(1) bexI [of _ "Polling t p"])
    ultimately show ?thesis by blast
  qed (use s in \<open>auto simp: poll_commit(1) same_session_def intro!: bexI [of _ s]\<close>)
qed (use s in \<open>auto simp: same_session_def intro!: bexI [of _ s]\<close>)

text \<open>Runs in which no session has two handlers under way at once.\<close>

inductive solo_step :: "hitl_sys \<Rightarrow> hitl_sys \<Rightarrow> bool" where
  solo: "hitl_step y y' \<Longrightarrow> distinct (map intent_session (hy_flight y')) \<Longrightarrow> solo_step y y'"

definition reads_hold :: "hitl_sys \<Rightarrow> bool" where
  "reads_hold y \<longleftrightarrow> distinct (map intent_session (hy_flight y)) \<and>
     (\<forall>x \<in> set (hy_flight y). \<forall>s \<in> set (sessions (hy_db y)). hs_id s = intent_session x \<longrightarrow> as_read x (hs_status s))"

lemma solo_inv_step:
  assumes inv: "sys_inv y \<and> reads_hold y" and st: "solo_step y y'"
  shows "sys_inv y' \<and> reads_hold y'"
proof
  from st have h: "hitl_step y y'" and d: "distinct (map intent_session (hy_flight y'))" by (auto elim: solo_step.cases)
  have sys: "sys_inv y" and hold: "reads_hold y" using inv by simp_all
  have hi: "hitl_inv (hy_db y)" and fl: "flight_ok (hy_db y) (hy_flight y)" using sys by (simp_all add: sys_inv_def)
  show sys': "sys_inv y'" by (rule sys_inv_step [OF sys h])
  have "as_read x (hs_status s')"
    if x: "x \<in> set (hy_flight y')" and s': "s' \<in> set (sessions (hy_db y'))" "hs_id s' = intent_session x" for x s'
  proof (cases "x \<in> set (hy_flight y)")
    case True
    then obtain s where s: "s \<in> set (sessions (hy_db y))" "hs_id s = intent_session x"
      using fl unfolding flight_ok_def by force
    obtain s'' where s'': "s'' \<in> set (sessions (hy_db y'))" "same_session s s''" and
      m: "hs_status s'' = hs_status s \<or> (\<exists>z \<in> set (hy_flight y). intent_session z = hs_id s \<and>
        hy_flight y' = remove1 z (hy_flight y))"
      using step_session [OF sys h s(1)] by blast
    have "s'' = s'" using session_unique [of "hy_db y'" s'' s'] sys' s'' s' s(2) by (simp add: sys_inv_def same_session_def)
    moreover have False if "z \<in> set (hy_flight y)" "intent_session z = hs_id s" "hy_flight y' = remove1 z (hy_flight y)" for z
      using distinct_key_remove [of intent_session "hy_flight y" z x] hold that x s(2) by (simp add: reads_hold_def)
    ultimately have "hs_status s' = hs_status s" using m by blast
    with hold True s show ?thesis by (auto simp: reads_hold_def)
  next
    case False
    from h x False s' show ?thesis
    proof cases
      case (take_read cur sid thread admin)
      obtain row where r: "row \<in> set (sessions (hy_db y))" "hs_id row = sid" "hs_status row = Pending"
        using check_row [of cur sid "hy_db y" thread] take_read(2) by auto
      have "s' = row" using session_unique [OF hi _ r(1), of s'] s' r(2) x False by (auto simp: take_read(1))
      with r(3) x False show ?thesis by (auto simp: take_read(1))
    next
      case (end_read cur sid thread)
      obtain row where r: "row \<in> set (sessions (hy_db y))" "hs_id row = sid" "hs_status row = Active"
      proof (rule check_row [of cur sid "hy_db y" thread])
        show "take_check cur sid (hy_db y) = Inr thread \<or> end_check cur sid (hy_db y) = Inr thread" using end_read(2) by simp
        fix row assume row: "row \<in> set (sessions (hy_db y))" "hs_id row = sid"
        obtain r where "fetchrow (sees (hy_db y) cur sid) (sessions (hy_db y)) = Some r" "hs_status r = Active"
          using end_read(2) by (auto simp: end_check_def split: option.splits if_splits)
        then show thesis using that [of r] fetchrow_SomeD by (fastforce simp: sees_def)
      qed
      have "s' = row" using session_unique [OF hi _ r(1), of s'] s' r(2) x False by (auto simp: end_read(1))
      with r(3) x False show ?thesis by (auto simp: end_read(1))
    next
      case (poll_select now t p)
      with x False poll_read_task(3) [OF hi poll_select(2)] s' show ?thesis by (auto simp: poll_select(1))
    qed (use x False set_remove1_subset in \<open>auto dest: notin_set_remove1 set_remove1_subset [THEN subsetD]\<close>)
  qed
  with d show "reads_hold y'" by (auto simp: reads_hold_def)
qed

interpretation apart: invariant_system hitl_init solo_step "\<lambda>y. sys_inv y \<and> reads_hold y"
proof unfold_locales
  show "sys_inv y \<and> reads_hold y" if "hitl_init y" for y
    using that hitl.init_inv [OF that] by (simp add: reads_hold_def hitl_init_def)
qed (rule solo_inv_step)

lemma solo_session:
  assumes inv: "sys_inv y" "reads_hold y" and st: "solo_step y y'" and s: "s \<in> set (sessions (hy_db y))"
  shows "\<exists>s' \<in> set (sessions (hy_db y')). same_session s s' \<and>
    (hs_status s' = hs_status s \<or> sess_next (hs_status s) (hs_status s'))"
proof -
  have h: "hitl_step y y'" using st by (auto elim: solo_step.cases)
  obtain s' where s': "s' \<in> set (sessions (hy_db y'))" "same_session s s'" and
    m: "hs_status s' = hs_status s \<or> (\<exists>x \<in> set (hy_flight y). intent_session x = hs_id s \<and> target x = Some (hs_status s'))"
    using step_session [OF inv(1) h s] by blast
  have "sess_next (hs_status s) (hs_status s')"
    if "x \<in> set (hy_flight y)" "intent_session x = hs_id s" "target x = Some (hs_status s')" for x
    using inv(2) that s by (intro read_next [OF _ that(3)]) (simp add: reads_hold_def)
  with s' m show ?thesis by blast
qed

text \<open>In such runs a ticket's session is escalated and stays so.\<close>

definition tickets_match :: "hitl_db \<Rightarrow> bool" where
  "tickets_match db \<longleftrightarrow>
     (\<forall>s \<in> set (sessions db). hs_id s \<in> tk_session ` set (tickets db) \<longrightarrow> hs_status s = AutoEscalated)"

lemma step_tickets:
  assumes inv: "sys_inv y" and st: "hitl_step y y'" and k: "k \<in> tk_session ` set (tickets (hy_db y'))"
  shows "k \<in> tk_session ` set (tickets (hy_db y)) \<or>
    (\<forall>s' \<in> set (sessions (hy_db y')). hs_id s' = k \<longrightarrow> hs_status s' = AutoEscalated)"
  using st
proof cases
  case (notify tenant thread sid tid now r db')
  with k notify_sessions [OF notify(2)] show ?thesis by auto
next
  case (poll_commit t p kid r' db')
  from poll_commit(3) show ?thesis
  proof (cases rule: poll_write_cases)
    case 3
    have "hs_status s' = AutoEscalated" if "s' \<in> set (sessions db')" "hs_id s' = et_session t" for s'
      using that by (auto simp: 3(4) escalate_def set_sql_update split: if_splits)
    with k show ?thesis by (auto simp: poll_commit(1) 3(4))
  qed (use k in \<open>simp_all add: poll_commit(1)\<close>)
qed (use k in \<open>auto simp: take_write_def end_write_def\<close>)

lemma tickets_match_step:
  assumes inv: "sys_inv y" "reads_hold y" and m: "tickets_match (hy_db y)" and st: "solo_step y y'"
  shows "tickets_match (hy_db y')"
  unfolding tickets_match_def
proof (intro ballI impI)
  fix s' assume s': "s' \<in> set (sessions (hy_db y'))" "hs_id s' \<in> tk_session ` set (tickets (hy_db y'))"
  have h: "hitl_step y y'" using st by (auto elim: solo_step.cases)
  have sys': "sys_inv y'" by (rule sys_inv_step [OF inv(1) h])
  from step_tickets [OF inv(1) h s'(2)] show "hs_status s' = AutoEscalated"
  proof
    assume k: "hs_id s' \<in> tk_session ` set (tickets (hy_db y))"
    then have "hs_id s' \<in> hs_id ` set (sessions (hy_db y))" using inv(1) hitl_invD(8) by (auto simp: sys_inv_def)
    then obtain s where s: "s \<in> set (sessions (hy_db y))" "hs_id s = hs_id s'" by force
    obtain s'' where s'': "s'' \<in> set (sessions (hy_db y'))" "same_session s s''"
      "hs_status s'' = hs_status s \<or> sess_next (hs_status s) (hs_status s'')"
      using solo_session [OF inv st s(1)] by blast
    have "hs_status s = AutoEscalated" using m s k by (simp add: tickets_match_def)
    moreover have "s'' = s'"
      using session_unique [of "hy_db y'" s'' s'] sys' s'' s'(1) s(2) by (simp add: sys_inv_def same_session_def)
    ultimately show ?thesis using s''(3) by auto
  qed (use s' in blast)
qed

interpretation matched: invariant_system hitl_init solo_step "\<lambda>y. (sys_inv y \<and> reads_hold y) \<and> tickets_match (hy_db y)"
proof unfold_locales
  show "(sys_inv y \<and> reads_hold y) \<and> tickets_match (hy_db y)" if "hitl_init y" for y
    using that apart.init_inv [OF that] by (simp add: hitl_init_def tickets_match_def)
  show "(sys_inv y' \<and> reads_hold y') \<and> tickets_match (hy_db y')"
    if "(sys_inv y \<and> reads_hold y) \<and> tickets_match (hy_db y)" "solo_step y y'" for y y'
    using solo_inv_step [OF _ that(2)] tickets_match_step [OF _ _ _ that(2)] that(1) by blast
qed

section \<open>Handlers one after the other\<close>

definition at_rest :: "hitl_db \<Rightarrow> hitl_sys" where
  "at_rest db = \<lparr>hy_db = db, hy_flight = []\<rparr>"

lemma at_rest_simps [simp]: "hy_db (at_rest db) = db" "hy_flight (at_rest db) = []" "locked_tasks (at_rest db) = []"
  by (simp_all add: at_rest_def locked_tasks_def)

lemma reach_rest_notify:
  "reach i hitl_step (at_rest db) \<Longrightarrow> reach i hitl_step (at_rest (snd (notify_hitl_request tenant thread sid tid now db)))"
  by (erule reach_step) (use hitl_step.notify [of tenant thread sid tid now "at_rest db"] in \<open>simp add: at_rest_def prod_eq_iff\<close>)

lemma reach_rest_poll:
  assumes r: "reach i hitl_step (at_rest db)"
  shows "reach i hitl_step (at_rest (snd (poll_escalation_tasks now [] kid db)))"
proof (cases "poll_read now [] db")
  case (Inr x)
  show ?thesis
  proof (cases x)
    case None
    with Inr r show ?thesis by (simp add: poll_escalation_tasks_def)
  next
    case (Some u)
    obtain t p where u: "u = (t, p)" by (cases u)
    have "hitl_step (at_rest db) ((at_rest db)\<lparr>hy_flight := [Polling t p]\<rparr>)"
      using hitl_step.poll_select [of now "at_rest db" t p] Inr Some u by simp
    from reach_step [OF r this]
    have "reach i hitl_step ((at_rest db)\<lparr>hy_flight := [Polling t p]\<rparr>)" .
    moreover have "hitl_step ((at_rest db)\<lparr>hy_flight := [Polling t p]\<rparr>) (at_rest (snd (poll_write kid t p db)))"
      using hitl_step.poll_commit [of t p "(at_rest db)\<lparr>hy_flight := [Polling t p]\<rparr>" kid] by (simp add: at_rest_def prod_eq_iff)
    ultimately show ?thesis using reach_step Inr Some u by (simp add: poll_escalation_tasks_def)
  qed
qed (use r in \<open>simp add: poll_escalation_tasks_def\<close>)

section \<open>The poller's progress\<close>

text \<open>
  Whether a task's session is still pending, and whether the poller can finish the task: the ticket of
  a pending one needs the thread's row.
\<close>

definition session_pending :: "hitl_db \<Rightarrow> esc_task \<Rightarrow> bool" where
  "session_pending db t \<longleftrightarrow> (\<exists>s \<in> set (sessions db). hs_id s = et_session t \<and> hs_status s = Pending)"

definition can_finish :: "hitl_db \<Rightarrow> esc_task \<Rightarrow> bool" where
  "can_finish db t \<longleftrightarrow> (session_pending db t \<longrightarrow> et_thread t \<in> th_id ` set (threads db))"

definition mark_escalated :: "nat set \<Rightarrow> hitl_session \<Rightarrow> hitl_session" where
  "mark_escalated A s = (if hs_status s = Pending \<and> hs_id s \<in> A then s\<lparr>hs_status := AutoEscalated\<rparr> else s)"

lemma mark_simps [simp]: "hs_id (mark_escalated A s) = hs_id s" "mark_escalated {} s = s"
  "mark_escalated A (mark_escalated B s) = mark_escalated (A \<union> B) s"
  by (auto simp: mark_escalated_def)

lemma poll_read_pending:
  assumes inv: "hitl_inv db" and off: "\<not> rls db" and due: "due_tasks now locked db = t # ts"
  shows "poll_read now locked db = Inr (Some (t, session_pending db t))"
proof -
  obtain p where p: "poll_read now locked db = Inr (Some (t, p))"
    using off due unfolding poll_read_def by fastforce
  have "t \<in> set (tasks db)" by (rule poll_read_task(1) [OF inv p])
  then have "et_session t \<in> hs_id ` set (sessions db)" using hitl_invD(6) [OF inv] by blast
  then obtain s where s: "s \<in> set (sessions db)" "hs_id s = et_session t" by force
  have "s' = s" if "s' \<in> set (sessions db)" "hs_id s' = et_session t" for s'
    by (rule session_unique [OF inv that(1) s(1)]) (simp add: that s)
  then have "session_pending db t \<longleftrightarrow> hs_status s = Pending" using s unfolding session_pending_def by blast
  then have "p = session_pending db t" using poll_read_task(3) [OF inv p s] by blast
  with p show ?thesis by (simp only:)
qed

lemma poll_stuck:
  assumes inv: "hitl_inv db" and due: "due_tasks now locked db = t # ts" and no: "\<not> can_finish db t"
  shows "snd (poll_escalation_tasks now locked kid db) = db"
proof (cases "rls db")
  case True
  have "t \<in> set (tasks db)" using due_tasks_set [of now locked db] due by auto
  then have "et_session t \<in> hs_id ` set (sessions db)" using hitl_invD(6) [OF inv] by blast
  with True due show ?thesis by (simp add: poll_escalation_tasks_def poll_read_def)
next
  case False
  from poll_read_pending [OF inv False due] no show ?thesis
    by (simp add: poll_escalation_tasks_def poll_write_def can_finish_def ticket_refs_def)
qed

lemma poll_finishes:
  assumes inv: "hitl_inv db" and off: "\<not> rls db" and due: "due_tasks now [] db = t # ts"
    and fresh: "kid \<notin> tk_id ` set (tickets db)" and can: "can_finish db t"
  shows "snd (poll_escalation_tasks now [] kid db) =
    (if session_pending db t then drop_task t (escalate kid t db) else drop_task t db)"
proof -
  have "t \<in> set (tasks db)" using due_tasks_set [of now "[]" db] due by auto
  then have "et_tenant t \<in> set (tenants db)" using hitl_invD(7) [OF inv] by blast
  with poll_read_pending [OF inv off due] fresh can show ?thesis
    by (simp add: poll_escalation_tasks_def poll_write_def can_finish_def ticket_refs_def)
qed


lemma poll_progress:
  assumes inv: "hitl_inv db" and off: "\<not> rls db" and due: "due_tasks now [] db = t # ts"
    and fresh: "kid \<notin> tk_id ` set (tickets db)" and can: "can_finish db t"
  defines "db1 \<equiv> snd (poll_escalation_tasks now [] kid db)"
  shows "hitl_inv db1" "\<not> rls db1" "threads db1 = threads db"
    "tk_id ` set (tickets db1) \<subseteq> insert kid (tk_id ` set (tickets db))"
    "sessions db1 = map (mark_escalated {et_session t}) (sessions db)"
    "tasks db1 = filter (\<lambda>x. x \<noteq> t) (tasks db)"
    "map tk_session (tickets db1) = map tk_session (tickets db) @ (if session_pending db t then [et_session t] else [])"
proof -
  have t: "t \<in> set (tasks db)" using due_tasks_set [of now "[]" db] due by auto
  have db1: "db1 = (if session_pending db t then drop_task t (escalate kid t db) else drop_task t db)"
    unfolding db1_def by (rule poll_finishes [OF inv off due fresh can])
  show "hitl_inv db1" unfolding db1_def by (rule hitl_inv_poll [OF inv prod.collapse [symmetric]])
  show "\<not> rls db1" "threads db1 = threads db" using off by (simp_all add: db1)
  show "tk_id ` set (tickets db1) \<subseteq> insert kid (tk_id ` set (tickets db))" by (auto simp: db1)
  show "map tk_session (tickets db1) = map tk_session (tickets db) @ (if session_pending db t then [et_session t] else [])"
    by (simp add: db1 escalate_def)
  have "tasks (drop_task t x) = filter (\<lambda>x. x \<noteq> t) (tasks db)" if "tasks x = tasks db" for x
    using hitl_invD(2) [OF inv] t that by (auto simp: drop_task_def sql_delete_def distinct_map inj_on_def intro!: filter_cong)
  then show "tasks db1 = filter (\<lambda>x. x \<noteq> t) (tasks db)" by (simp add: db1)
  show "sessions db1 = map (mark_escalated {et_session t}) (sessions db)"
  proof (cases "session_pending db t")
    case True
    then obtain s where s: "s \<in> set (sessions db)" "hs_id s = et_session t" "hs_status s = Pending"
      by (auto simp: session_pending_def)
    have "hs_status s' = Pending" if "s' \<in> set (sessions db)" "hs_id s' = et_session t" for s'
      using session_unique [OF inv that(1) s(1)] that(2) s(2,3) by simp
    then show ?thesis using True by (auto simp: db1 escalate_def sql_update_def mark_escalated_def)
  next
    case False
    then have "map (mark_escalated {et_session t}) (sessions db) = sessions db"
      by (intro map_idI) (auto simp: session_pending_def mark_escalated_def)
    with False show ?thesis by (simp add: db1)
  qed
qed

lemma due_after_poll:
  assumes inv: "hitl_inv db" and due: "due_tasks now [] db = t # ts"
    and tasks: "tasks db1 = filter (\<lambda>x. x \<noteq> t) (tasks db)"
  shows "due_tasks now [] db1 = ts"
proof -
  have "due_tasks now [] db1 = filter (\<lambda>x. x \<noteq> t) (due_tasks now [] db)"
    by (simp add: due_tasks_def tasks filter_sort conj_commute)
  moreover have "distinct (due_tasks now [] db)"
    using hitl_invD(2) [OF inv] by (auto simp: due_tasks_def distinct_map)
  ultimately show ?thesis using due by (auto intro: filter_True)
qed

lemma pending_after_poll:
  assumes inv: "hitl_inv db" and t: "t \<in> set (tasks db)" "u \<in> set (tasks db)" "u \<noteq> t"
    and ss: "sessions db1 = map (mark_escalated {et_session t}) (sessions db)"
  shows "session_pending db1 u = session_pending db u"
  using other_session [OF inv t] by (auto simp: session_pending_def ss mark_escalated_def split: if_splits)

definition ready_tasks :: "time \<Rightarrow> hitl_db \<Rightarrow> esc_task list" where
  "ready_tasks now db = takeWhile (can_finish db) (due_tasks now [] db)"

lemma ready_subset: "set (ready_tasks now db) \<subseteq> set (tasks db)"
  using set_takeWhileD due_tasks_set [of now "[]" db] by (fastforce simp: ready_tasks_def)

text \<open>
  \<open>n\<close> iterations of the only poller process the first \<open>n\<close> ready tasks.  Those are the overdue ones, the
  earliest first, up to the first that the poller cannot finish.
\<close>

lemma poller_run:
  assumes "hitl_inv db" and "\<not> rls db" and "distinct ks" and "set ks \<inter> tk_id ` set (tickets db) = {}"
    and "fin = take (length ks) (ready_tasks now db)"
    and "db' = run_escalation_poller (map (\<lambda>k. (now, [], k)) ks) db"
  shows "sessions db' = map (mark_escalated (et_session ` set fin)) (sessions db) \<and>
    tasks db' = filter (\<lambda>t. t \<notin> set fin) (tasks db) \<and>
    map tk_session (tickets db') = map tk_session (tickets db) @ map et_session (filter (session_pending db) fin)"
  using assms
proof (induction ks arbitrary: db fin)
  case Nil
  then show ?case by simp
next
  case (Cons k ks)
  let ?db1 = "snd (poll_escalation_tasks now [] k db)"
  show ?case
  proof (cases "ready_tasks now db")
    case Nil
    have stay: "snd (poll_escalation_tasks now [] kid db) = db" for kid
    proof (cases "due_tasks now [] db")
      case (Cons t ts)
      with Nil poll_stuck [OF Cons.prems(1) Cons] show ?thesis by (auto simp: ready_tasks_def split: if_splits)
    qed (simp add: poll_escalation_tasks_def poll_read_def)
    have "run_escalation_poller (map (\<lambda>k. (now, [], k)) js) db = db" for js by (induction js) (simp_all add: stay)
    with Cons.prems(5,6) Nil stay show ?thesis by simp
  next
    case (Cons t rs)
    then obtain ts where due: "due_tasks now [] db = t # ts" and can: "can_finish db t"
      and rs: "rs = takeWhile (can_finish db) ts"
      by (cases "due_tasks now [] db") (auto simp: ready_tasks_def split: if_splits)
    note pr = poll_progress [OF Cons.prems(1,2) due _ can, of k]
    have k: "k \<notin> tk_id ` set (tickets db)" using Cons.prems(4) by auto
    note pr = pr [OF k]
    have due1: "due_tasks now [] ?db1 = ts" by (rule due_after_poll [OF Cons.prems(1) due pr(6)])
    have tin: "t \<in> set (tasks db)" using due_tasks_set [of now "[]" db] due by auto
    have tsin: "u \<in> set (tasks db) \<and> u \<noteq> t" if "u \<in> set ts" for u
      using due_tasks_set [of now "[]" ?db1] due1 pr(6) that by auto
    have sp: "session_pending ?db1 u = session_pending db u" if "u \<in> set ts" for u
      using pending_after_poll [OF Cons.prems(1) tin _ _ pr(5)] tsin [OF that] by blast
    then have "can_finish ?db1 u = can_finish db u" if "u \<in> set ts" for u
      using that pr(3) by (simp add: can_finish_def)
    then have ready1: "ready_tasks now ?db1 = rs" unfolding ready_tasks_def due1 rs by (auto intro: takeWhile_cong)
    have don: "fin = t # take (length ks) rs" using Cons.prems(5) Cons by simp
    have sub: "set (take (length ks) rs) \<subseteq> set ts"
      unfolding rs by (auto dest: in_set_takeD set_takeWhileD)
    have IH: "sessions db' = map (mark_escalated (et_session ` set (take (length ks) rs))) (sessions ?db1) \<and>
      tasks db' = filter (\<lambda>t. t \<notin> set (take (length ks) rs)) (tasks ?db1) \<and>
      map tk_session (tickets db') = map tk_session (tickets ?db1) @
        map et_session (filter (session_pending ?db1) (take (length ks) rs))"
      by (rule Cons.IH) (use Cons.prems pr ready1 in auto)
    have "filter (session_pending ?db1) (take (length ks) rs) = filter (session_pending db) (take (length ks) rs)"
      using sp sub by (intro filter_cong) auto
    with IH pr(5-7) show ?thesis unfolding don by (auto simp: conj_commute)
  qed
qed


text \<open>
  The earliest task stays at the head of the queue as time passes: what falls due later comes after
  it, and no task that another worker has locked comes before it.
\<close>

lemma due_head_stays:
  assumes "due_tasks now [] db = t # ts" and "now \<le> later" and "et_id t \<notin> set locked"
  shows "\<exists>us. due_tasks later locked db = t # us"
proof -
  define q where "q = sort_key et_execute_at (tasks db)"
  have due: "due_tasks n l db = filter (\<lambda>x. et_execute_at x \<le> n \<and> et_id x \<notin> set l) q" for n l
    by (simp add: due_tasks_def q_def filter_sort)
  obtain y ys where y: "q = y # ys" using assms(1) due [of now "[]"] by (cases q) auto
  have "sorted (map et_execute_at q)" by (simp add: q_def)
  then have "et_execute_at y \<le> et_execute_at x" if "x \<in> set q" for x using that y by auto
  moreover have "t \<in> set q" "et_execute_at t \<le> now"
    using assms(1) arg_cong [OF due [of now "[]"], of set] by auto
  ultimately have le: "et_execute_at y \<le> now" by fastforce
  then have "y = t" using assms(1) due [of now "[]"] y by simp
  then show ?thesis using le assms(2,3) due [of later locked] y by simp
qed

text \<open>
  No module of the program inserts a row into \<open>threads\<close>.  A database that starts without threads
  stays without them and without tickets.
\<close>

interpretation threadless: invariant_system "\<lambda>y. hitl_init y \<and> threads (hy_db y) = []" hitl_step
    "\<lambda>y. sys_inv y \<and> threads (hy_db y) = [] \<and> tickets (hy_db y) = []"
proof unfold_locales
  fix y y' assume inv: "sys_inv y \<and> threads (hy_db y) = [] \<and> tickets (hy_db y) = []" and st: "hitl_step y y'"
  from st have "threads (hy_db y') = [] \<and> tickets (hy_db y') = []"
  proof cases
    case (notify tenant thread sid tid now r db')
    then show ?thesis using inv notify_sessions [OF notify(2)] by auto
  next
    case (poll_commit t p kid r' db')
    then show ?thesis using inv by (cases rule: poll_write_cases [OF poll_commit(3)]) (auto simp: ticket_refs_def)
  qed (use inv in \<open>simp_all add: take_write_def end_write_def\<close>)
  then show "sys_inv y' \<and> threads (hy_db y') = [] \<and> tickets (hy_db y') = []" using sys_inv_step [OF _ st] inv by blast
qed (use hitl.init_inv in \<open>auto simp: hitl_init_def\<close>)

section \<open>Properties\<close>

text \<open>C1: in every state the handlers reach, however their reads and commits interleave, a session that
  is still pending has an escalation task: no request for a human is forgotten.\<close>

theorem hitl_pending_watched:
  assumes "reach hitl_init hitl_step y" and "s \<in> set (sessions (hy_db y))" and "hs_status s = Pending"
  shows "\<exists>t \<in> set (tasks (hy_db y)). et_session t = hs_id s"
  using hitl_invD(5) [OF reach_hitl_inv [OF assms(1)] assms(2,3)] by force

definition hitl_demo :: hitl_db where
  "hitl_demo = \<lparr>rls = False, tenants = [1, 2], sessions = [],
     threads = [\<lparr>th_id = 30, th_tenant = 1, th_status = ThActive, th_updated = 0\<rparr>], tasks = [], tickets = []\<rparr>"

definition hitl_demo1 :: hitl_db where
  "hitl_demo1 = snd (notify_hitl_request 1 30 5 8 0 hitl_demo)"

lemma hitl_demo1_eq:
  "hitl_demo1 = \<lparr>rls = False, tenants = [1, 2],
     sessions = [\<lparr>hs_id = 5, hs_tenant = 1, hs_thread = 30, hs_admin = None, hs_started = 0,
                  hs_ended = None, hs_status = Pending\<rparr>],
     threads = [\<lparr>th_id = 30, th_tenant = 1, th_status = ThActive, th_updated = 0\<rparr>],
     tasks = [\<lparr>et_id = 8, et_session = 5, et_tenant = 1, et_thread = 30, et_execute_at = 60\<rparr>],
     tickets = []\<rparr>"
  by (simp add: hitl_demo1_def hitl_demo_def notify_hitl_request_def)

lemma reach_demo: "reach hitl_init hitl_step (at_rest hitl_demo)"
  by (rule reach_init) (simp add: hitl_init_def hitl_demo_def)

lemma reach_demo1: "reach hitl_init hitl_step (at_rest hitl_demo1)"
  unfolding hitl_demo1_def by (rule reach_rest_notify [OF reach_demo])

theorem hitl_pending_watched_witness:
  "\<exists>t \<in> set (tasks hitl_demo1). et_session t = 5"
  using hitl_pending_watched [OF reach_demo1, of "hd (sessions hitl_demo1)"] by (simp add: hitl_demo1_eq)

text \<open>C21: as long as no session has two handlers under way at once, a step moves a session only from
  pending to active, from pending to escalated, or from active to resolved, and never loses it or
  changes its tenant or thread.\<close>

theorem hitl_status_moves:
  assumes "reach hitl_init solo_step y" and "solo_step y y'" and "s \<in> set (sessions (hy_db y))"
  shows "\<exists>s' \<in> set (sessions (hy_db y')). hs_id s' = hs_id s \<and> hs_tenant s' = hs_tenant s \<and> hs_thread s' = hs_thread s \<and>
     (hs_status s' = hs_status s \<or> sess_next (hs_status s) (hs_status s'))"
  using solo_session [OF _ _ assms(2,3)] apart.reach_inv [OF assms(1)] by (simp add: same_session_def)

text \<open>A session that an admin has read and is about to take, and the state after the take.\<close>

definition hitl_taking :: hitl_sys where
  "hitl_taking = \<lparr>hy_db = hitl_demo1, hy_flight = [Taking 1 5 9 30]\<rparr>"

lemma take_check_demo1: "take_check 1 5 hitl_demo1 = Inr 30"
  by (simp add: hitl_demo1_eq take_check_def sees_def rls_visible_def)

lemma step_taking: "hitl_step (at_rest hitl_demo1) hitl_taking"
  using hitl_step.take_read [of 1 5 "at_rest hitl_demo1" 30 9] take_check_demo1 by (simp add: at_rest_def hitl_taking_def)

lemma solo_demo1: "reach hitl_init solo_step (at_rest hitl_demo1)"
proof (rule reach_step)
  show "reach hitl_init solo_step (at_rest hitl_demo)" by (rule reach_init) (simp add: hitl_init_def hitl_demo_def)
  show "solo_step (at_rest hitl_demo) (at_rest hitl_demo1)"
    by (rule solo_step.solo)
      (use hitl_step.notify [of 1 30 5 8 0 "at_rest hitl_demo"] in \<open>simp_all add: at_rest_def hitl_demo1_def prod_eq_iff\<close>)
qed

lemma solo_taking: "reach hitl_init solo_step hitl_taking"
  by (rule reach_step [OF solo_demo1 solo_step.solo [OF step_taking]]) (simp add: hitl_taking_def)

theorem hitl_status_moves_witness:
  "\<exists>s' \<in> set (sessions (take_write 1 5 9 30 7 hitl_demo1)). hs_id s' = 5 \<and>
     (hs_status s' = Pending \<or> sess_next Pending (hs_status s'))"
proof -
  have "solo_step hitl_taking (at_rest (take_write 1 5 9 30 7 hitl_demo1))"
    by (rule solo_step.solo)
      (use hitl_step.take_commit [of 1 5 9 30 hitl_taking 7] in \<open>simp_all add: at_rest_def hitl_taking_def\<close>)
  from hitl_status_moves [OF solo_taking this, of "hd (sessions hitl_demo1)"]
  show ?thesis by (auto simp: hitl_taking_def hitl_demo1_eq)
qed

text \<open>However the handlers interleave, a session is never lost, keeps its tenant and thread, and once it
  is no longer pending it is never pending again.\<close>

theorem hitl_session_kept:
  assumes "reach hitl_init hitl_step y" and "hitl_step y y'" and "s \<in> set (sessions (hy_db y))"
  shows "\<exists>s' \<in> set (sessions (hy_db y')). hs_id s' = hs_id s \<and> hs_tenant s' = hs_tenant s \<and> hs_thread s' = hs_thread s \<and>
     (hs_status s' = Pending \<longrightarrow> hs_status s = Pending)"
proof -
  have "sys_inv y" by (rule hitl.reach_inv [OF assms(1)])
  from step_session [OF this assms(2,3)] show ?thesis
    using target_not_pending by (fastforce simp: same_session_def)
qed

theorem hitl_session_kept_witness:
  "\<exists>s' \<in> set (sessions hitl_demo1). hs_id s' = 5 \<and> hs_tenant s' = 1"
  using hitl_session_kept [OF reach_demo1 step_taking, of "hd (sessions hitl_demo1)"]
  by (auto simp: hitl_taking_def hitl_demo1_eq)

text \<open>As long as no session has two handlers under way at once, the tickets are exactly the escalated
  sessions, one each.\<close>

theorem hitl_ticket_per_escalation:
  assumes "reach hitl_init solo_step y"
  shows "distinct (map tk_session (tickets (hy_db y))) \<and>
    tk_session ` set (tickets (hy_db y)) = hs_id ` {s \<in> set (sessions (hy_db y)). hs_status s = AutoEscalated}"
proof -
  have inv: "hitl_inv (hy_db y)" "tickets_match (hy_db y)"
    using matched.reach_inv [OF assms] by (simp_all add: sys_inv_def)
  have "tk_session ` set (tickets (hy_db y)) \<subseteq> hs_id ` {s \<in> set (sessions (hy_db y)). hs_status s = AutoEscalated}"
  proof
    fix k assume k: "k \<in> tk_session ` set (tickets (hy_db y))"
    then have "k \<in> hs_id ` set (sessions (hy_db y))" by (rule subsetD [OF hitl_invD(8) [OF inv(1)]])
    then obtain s where s: "s \<in> set (sessions (hy_db y))" "k = hs_id s" by (rule imageE)
    from k have "hs_status s = AutoEscalated"
      by (intro mp [OF bspec [OF inv(2) [unfolded tickets_match_def] s(1)]]) (simp only: s(2))
    with s show "k \<in> hs_id ` {s \<in> set (sessions (hy_db y)). hs_status s = AutoEscalated}" by simp
  qed
  moreover have "hs_id ` {s \<in> set (sessions (hy_db y)). hs_status s = AutoEscalated} \<subseteq> tk_session ` set (tickets (hy_db y))"
    by (auto intro: hitl_invD(10) [OF inv(1)])
  ultimately show ?thesis using hitl_invD(4) [OF inv(1)] by (simp only: subset_antisym simp_thms)
qed

theorem hitl_ticket_per_escalation_witness:
  "distinct (map tk_session (tickets hitl_demo1))"
  using hitl_ticket_per_escalation [OF solo_demo1] by simp

text \<open>C23: the read of \<open>take_session\<close> locks no row.  When a poller escalates the session between an admin's
  read and the admin's updates, the session ends up active with an open ticket; when handlers are not
  under way together for one session, that never happens.\<close>

theorem hitl_take_races_poller:
  "(\<exists>y s. reach hitl_init hitl_step y \<and> s \<in> set (sessions (hy_db y)) \<and> hs_status s = Active \<and>
      hs_id s \<in> tk_session ` set (tickets (hy_db y))) \<and>
   \<not> (\<exists>y s. reach hitl_init solo_step y \<and> s \<in> set (sessions (hy_db y)) \<and> hs_status s = Active \<and>
      hs_id s \<in> tk_session ` set (tickets (hy_db y)))"
proof
  let ?t = "\<lparr>et_id = 8, et_session = 5, et_tenant = 1, et_thread = 30, et_execute_at = 60\<rparr>"
  let ?db = "drop_task ?t (escalate 77 ?t hitl_demo1)"
  let ?e = "take_write 1 5 9 30 61 ?db"
  have "reach hitl_init hitl_step hitl_taking" by (rule reach_step [OF reach_demo1 step_taking])
  moreover have "hitl_step hitl_taking (hitl_taking\<lparr>hy_flight := [Taking 1 5 9 30, Polling ?t True]\<rparr>)"
    using hitl_step.poll_select [of 60 hitl_taking ?t True]
    by (simp add: hitl_taking_def locked_tasks_def hitl_demo1_eq poll_read_def due_tasks_def)
  ultimately have "reach hitl_init hitl_step (hitl_taking\<lparr>hy_flight := [Taking 1 5 9 30, Polling ?t True]\<rparr>)"
    by (rule reach_step)
  moreover have "hitl_step (hitl_taking\<lparr>hy_flight := [Taking 1 5 9 30, Polling ?t True]\<rparr>)
      \<lparr>hy_db = ?db, hy_flight = [Taking 1 5 9 30]\<rparr>"
    using hitl_step.poll_commit [of ?t True "hitl_taking\<lparr>hy_flight := [Taking 1 5 9 30, Polling ?t True]\<rparr>" 77 "Inr ()" ?db]
    by (simp add: hitl_taking_def hitl_demo1_eq poll_write_def ticket_refs_def)
  ultimately have "reach hitl_init hitl_step \<lparr>hy_db = ?db, hy_flight = [Taking 1 5 9 30]\<rparr>" by (rule reach_step)
  moreover have "hitl_step \<lparr>hy_db = ?db, hy_flight = [Taking 1 5 9 30]\<rparr> (at_rest ?e)"
    using hitl_step.take_commit [of 1 5 9 30 "\<lparr>hy_db = ?db, hy_flight = [Taking 1 5 9 30]\<rparr>" 61] by (simp add: at_rest_def)
  ultimately have r: "reach hitl_init hitl_step (at_rest ?e)" by (rule reach_step)
  have "hd (sessions ?e) \<in> set (sessions ?e)" "hs_status (hd (sessions ?e)) = Active"
    "hs_id (hd (sessions ?e)) \<in> tk_session ` set (tickets ?e)"
    by (simp_all add: hitl_demo1_eq drop_task_def escalate_def take_write_def sees_def rls_visible_def)
  with r show "\<exists>y s. reach hitl_init hitl_step y \<and> s \<in> set (sessions (hy_db y)) \<and> hs_status s = Active \<and>
      hs_id s \<in> tk_session ` set (tickets (hy_db y))" by (metis at_rest_simps(1))
  show "\<not> (\<exists>y s. reach hitl_init solo_step y \<and> s \<in> set (sessions (hy_db y)) \<and> hs_status s = Active \<and>
      hs_id s \<in> tk_session ` set (tickets (hy_db y)))"
    using matched.reach_inv by (fastforce simp: tickets_match_def)
qed

text \<open>C10: where row-level security does not stop it and it is the only worker, \<open>n\<close> iterations of the
  poller process exactly the first \<open>n\<close> ready tasks, which are the overdue ones, the earliest first, up
  to the first whose session is pending for a thread that is not stored: they are deleted, those of
  their sessions that are still pending are escalated with one ticket each, and nothing else changes.\<close>

theorem hitl_poller_drains:
  assumes "reach hitl_init hitl_step y" and "\<not> rls (hy_db y)"
    and "distinct ks" and "set ks \<inter> tk_id ` set (tickets (hy_db y)) = {}"
    and "fin = take (length ks) (takeWhile (can_finish (hy_db y)) (due_tasks now [] (hy_db y)))"
    and "db' = run_escalation_poller (map (\<lambda>k. (now, [], k)) ks) (hy_db y)"
  shows "sessions db' = map (mark_escalated (et_session ` set fin)) (sessions (hy_db y)) \<and>
    tasks db' = filter (\<lambda>t. t \<notin> set fin) (tasks (hy_db y)) \<and>
    map tk_session (tickets db') =
      map tk_session (tickets (hy_db y)) @ map et_session (filter (session_pending (hy_db y)) fin)"
  by (rule poller_run [OF reach_hitl_inv [OF assms(1)] assms(2-4) _ assms(6)]) (unfold ready_tasks_def, rule assms(5))

definition hitl_demo2 :: hitl_db where
  "hitl_demo2 = snd (notify_hitl_request 2 30 6 9 1 (snd (notify_hitl_request 1 31 5 8 0 hitl_demo)))"

definition hitl_demo3 :: hitl_db where
  "hitl_demo3 = snd (notify_hitl_request 1 31 7 10 2 (snd (notify_hitl_request 2 30 6 9 1 hitl_demo1)))"

lemma reach_demo23: "reach hitl_init hitl_step (at_rest hitl_demo2)" "reach hitl_init hitl_step (at_rest hitl_demo3)"
  unfolding hitl_demo2_def hitl_demo3_def by (intro reach_rest_notify reach_demo reach_demo1)+

theorem hitl_poller_drains_witness:
  "let db' = run_escalation_poller [(70, [], 77), (70, [], 78), (70, [], 79)] hitl_demo3 in
     map (\<lambda>s. (hs_id s, hs_status s)) (sessions db') = [(5, AutoEscalated), (6, AutoEscalated), (7, Pending)] \<and>
     map et_id (tasks db') = [10] \<and> map tk_session (tickets db') = [5, 6]"
proof -
  have d: "hitl_demo3 = hitl_demo\<lparr>sessions :=
      [\<lparr>hs_id = 5, hs_tenant = 1, hs_thread = 30, hs_admin = None, hs_started = 0, hs_ended = None, hs_status = Pending\<rparr>,
       \<lparr>hs_id = 6, hs_tenant = 2, hs_thread = 30, hs_admin = None, hs_started = 1, hs_ended = None, hs_status = Pending\<rparr>,
       \<lparr>hs_id = 7, hs_tenant = 1, hs_thread = 31, hs_admin = None, hs_started = 2, hs_ended = None, hs_status = Pending\<rparr>],
     tasks := [\<lparr>et_id = 8, et_session = 5, et_tenant = 1, et_thread = 30, et_execute_at = 60\<rparr>,
       \<lparr>et_id = 9, et_session = 6, et_tenant = 2, et_thread = 30, et_execute_at = 61\<rparr>,
       \<lparr>et_id = 10, et_session = 7, et_tenant = 1, et_thread = 31, et_execute_at = 62\<rparr>]\<rparr>"
    by (simp add: hitl_demo3_def hitl_demo1_eq hitl_demo_def notify_hitl_request_def)
  have "take (length [77, 78, 79 :: nat]) (takeWhile (can_finish hitl_demo3) (due_tasks 70 [] hitl_demo3)) = take 2 (tasks hitl_demo3)"
    by (simp add: d hitl_demo_def due_tasks_def can_finish_def session_pending_def)
  with hitl_poller_drains [OF reach_demo23(2), of "[77, 78, 79]" "take 2 (tasks hitl_demo3)" 70]
  show ?thesis by (simp add: Let_def d hitl_demo_def mark_escalated_def session_pending_def)
qed

text \<open>C13: the poller takes the earliest overdue task only.  While that task's session stays pending for
  a thread that \<open>threads\<close> does not hold, which migration 005 allows, and no other worker holds the task,
  an iteration changes nothing: the ticket violates the reference that the tickets keep, the batch is
  undone, and the next one meets the same task, whatever else is overdue.\<close>

theorem hitl_poller_starved:
  assumes "due_tasks now [] (hy_db y) = t # ts" and "s \<in> set (sessions (hy_db y))" and "hs_id s = et_session t"
    and "hs_status s = Pending" and "et_thread t \<notin> th_id ` set (threads (hy_db y))"
    and "reach hitl_init hitl_step y" and "list_all (\<lambda>(n, locked, k). now \<le> n \<and> et_id t \<notin> set locked) its"
  shows "run_escalation_poller its (hy_db y) = hy_db y"
  using assms(7)
proof (induction its)
  case (Cons it its)
  obtain n l k where it: "it = (n, l, k)" "now \<le> n" "et_id t \<notin> set l" using Cons.prems by (cases it) auto
  obtain us where due: "due_tasks n l (hy_db y) = t # us" using due_head_stays [OF assms(1) it(2,3)] by blast
  have "\<not> can_finish (hy_db y) t" using assms(2-5) by (auto simp: can_finish_def session_pending_def)
  from poll_stuck [OF reach_hitl_inv [OF assms(6)] due this] Cons it(1) show ?case by simp
qed simp

theorem hitl_poller_starved_witness:
  "run_escalation_poller [(60, [], 77), (600, [9], 78)] hitl_demo2 = hitl_demo2 \<and>
   map et_session (due_tasks 600 [] hitl_demo2) = [5, 6] \<and> map hs_status (sessions hitl_demo2) = [Pending, Pending]"
proof -
  have d: "hitl_demo2 = hitl_demo\<lparr>sessions :=
      [\<lparr>hs_id = 5, hs_tenant = 1, hs_thread = 31, hs_admin = None, hs_started = 0, hs_ended = None, hs_status = Pending\<rparr>,
       \<lparr>hs_id = 6, hs_tenant = 2, hs_thread = 30, hs_admin = None, hs_started = 1, hs_ended = None, hs_status = Pending\<rparr>],
     tasks := [\<lparr>et_id = 8, et_session = 5, et_tenant = 1, et_thread = 31, et_execute_at = 60\<rparr>,
       \<lparr>et_id = 9, et_session = 6, et_tenant = 2, et_thread = 30, et_execute_at = 61\<rparr>]\<rparr>"
    by (simp add: hitl_demo2_def hitl_demo_def notify_hitl_request_def)
  have "run_escalation_poller [(60, [], 77), (600, [9], 78)] (hy_db (at_rest hitl_demo2)) = hy_db (at_rest hitl_demo2)"
    by (rule hitl_poller_starved [OF _ _ _ _ _ reach_demo23(1), of 60 "hd (tasks hitl_demo2)" "[]" "hd (sessions hitl_demo2)"])
      (simp_all add: d hitl_demo_def due_tasks_def)
  then show ?thesis by (simp add: d hitl_demo_def due_tasks_def)
qed

text \<open>C14: the escalation never happens: with the threads the program stores, none, no interleaving of
  requests, takes, ends and poller batches escalates a session or opens a ticket.\<close>

theorem hitl_never_escalates:
  assumes "reach (\<lambda>y. hitl_init y \<and> threads (hy_db y) = []) hitl_step y"
  shows "tickets (hy_db y) = [] \<and> (\<forall>s \<in> set (sessions (hy_db y)). hs_status s \<noteq> AutoEscalated)"
proof -
  have inv: "hitl_inv (hy_db y)" "tickets (hy_db y) = []" using threadless.reach_inv [OF assms] by (simp_all add: sys_inv_def)
  with hitl_invD(10) [OF inv(1)] show ?thesis by auto
qed

theorem hitl_never_escalates_witness:
  "tickets (run_escalation_poller [(60, [], 77)] (snd (notify_hitl_request 1 30 5 8 0 (hitl_demo\<lparr>threads := []\<rparr>)))) = []"
proof -
  have "reach (\<lambda>y. hitl_init y \<and> threads (hy_db y) = []) hitl_step (at_rest (hitl_demo\<lparr>threads := []\<rparr>))"
    by (rule reach_init) (simp add: hitl_init_def hitl_demo_def)
  from hitl_never_escalates [OF reach_rest_poll [OF reach_rest_notify [OF this]], of 60 77 1 30 5 8 0]
  show ?thesis by simp
qed

text \<open>Under row-level security an admin's take or end changes no session and no thread of another
  tenant, whatever session id the request names.\<close>

theorem hitl_tenant_isolation:
  assumes "rls db" and "db' = snd (take_session cur sid admin now db) \<or> db' = snd (end_session cur sid now db)"
  shows "filter (\<lambda>s. hs_tenant s \<noteq> cur) (sessions db') = filter (\<lambda>s. hs_tenant s \<noteq> cur) (sessions db)
    \<and> filter (\<lambda>t. th_tenant t \<noteq> cur) (threads db') = filter (\<lambda>t. th_tenant t \<noteq> cur) (threads db)"
proof -
  have keep: "filter q (sql_update p f xs) = filter q xs"
    if "\<And>x. p x \<Longrightarrow> \<not> q x \<and> \<not> q (f x)" for p q :: "'x \<Rightarrow> bool" and f xs
    using that by (induction xs) auto
  show ?thesis
    using assms by (auto simp: take_session_def take_write_def end_session_def end_write_def sees_def rls_visible_def
        intro!: keep split: option.splits sum.splits if_splits)
qed

theorem hitl_tenant_isolation_witness:
  "filter (\<lambda>s. hs_tenant s \<noteq> 2) (sessions (snd (take_session 2 5 9 7 (hitl_demo1\<lparr>rls := True\<rparr>)))) = sessions hitl_demo1"
  using hitl_tenant_isolation [of "hitl_demo1\<lparr>rls := True\<rparr>" "snd (take_session 2 5 9 7 (hitl_demo1\<lparr>rls := True\<rparr>))" 2 5 9 7]
  by (simp add: hitl_demo1_eq)

text \<open>Without row-level security (the compose files connect as the superuser) the statements
  select sessions by id alone, so an admin of one tenant takes over a session of another.\<close>

theorem hitl_cross_tenant_take:
  "\<exists>y s. reach hitl_init hitl_step y \<and> \<not> rls (hy_db y) \<and> s \<in> set (sessions (hy_db y)) \<and> hs_tenant s = 1 \<and>
     (\<exists>s' \<in> set (sessions (snd (take_session 2 (hs_id s) 9 7 (hy_db y)))).
        hs_id s' = hs_id s \<and> hs_status s' = Active \<and> hs_admin s' = Some 9)"
  by (rule exI [of _ "at_rest hitl_demo1"], rule exI [of _ "hd (sessions hitl_demo1)"])
    (simp add: reach_demo1, simp add: hitl_demo1_eq take_session_def take_check_def take_write_def
      sees_def rls_visible_def)

text \<open>Under row-level security the poller, which sets no tenant, can never escalate: with an
  overdue task its batch fails and leaves the database as it was.\<close>

theorem hitl_poller_blocked_by_rls:
  assumes "reach hitl_init hitl_step y" and "rls (hy_db y)" and "due_tasks now locked (hy_db y) \<noteq> []"
  shows "poll_escalation_tasks now locked kid (hy_db y) = (Inl (DbExn UnsetParameter), hy_db y)"
proof -
  obtain t ts where t: "due_tasks now locked (hy_db y) = t # ts" using assms(3) by (cases "due_tasks now locked (hy_db y)") auto
  then have "t \<in> set (tasks (hy_db y))" using due_tasks_set [of now locked "hy_db y"] by auto
  then have "et_session t \<in> hs_id ` set (sessions (hy_db y))"
    using hitl_invD(6) [OF reach_hitl_inv [OF assms(1)]] by auto
  with t assms(2) show ?thesis by (simp add: poll_escalation_tasks_def poll_read_def)
qed

theorem hitl_poller_blocked_by_rls_witness:
  "fst (poll_escalation_tasks 60 [] 77 (snd (notify_hitl_request 1 30 5 8 0 (hitl_demo\<lparr>rls := True\<rparr>))))
    = Inl (DbExn UnsetParameter)"
proof -
  let ?db = "snd (notify_hitl_request 1 30 5 8 0 (hitl_demo\<lparr>rls := True\<rparr>))"
  have "reach hitl_init hitl_step (at_rest (hitl_demo\<lparr>rls := True\<rparr>))" by (rule reach_init) (simp add: hitl_init_def hitl_demo_def)
  then have "reach hitl_init hitl_step (at_rest ?db)" by (rule reach_rest_notify)
  then show ?thesis
    using hitl_poller_blocked_by_rls [of "at_rest ?db" 60 "[]" 77]
    by (simp add: hitl_demo_def notify_hitl_request_def due_tasks_def)
qed

text \<open>An admin's message is never stored: the INSERT of \<open>send_hitl_message\<close> omits the tenant
  column, so even in an active session the request fails and the table keeps its rows.\<close>

theorem hitl_message_never_stored:
  "\<not> is_ok (fst (send_hitl_message cur sid content mid now db ms)) \<and>
   snd (send_hitl_message cur sid content mid now db ms) = ms"
  by (simp add: send_hitl_message_def insert_message_def Let_def split: option.split)

text \<open>The list of sessions is never returned: its statement names a column the table lacks.\<close>

theorem hitl_list_undefined_column:
  "list_sessions tenant db = Inl (DbExn (UndefinedColumn ''created_at''))"
  by (simp add: list_sessions_def list_sessions_query_def hitl_session_columns_def)

end
