(* ===== verification/Floats.thy ===== *)
theory Floats
  imports Prelude
begin

text \<open>
  What Python's floats make of a number: the double next to it, ties to the even mantissa, for numbers
  in the range of the normal doubles.  \<open>/\<close> of two integers is the double next to the exact quotient.
\<close>

fun bit_length :: "nat \<Rightarrow> nat" where
  "bit_length n = (if n = 0 then 0 else Suc (bit_length (n div 2)))"

declare bit_length.simps [simp del]

lemma bit_length_bounds: "0 < n \<Longrightarrow> 2 ^ (bit_length n - 1) \<le> n \<and> n < 2 ^ bit_length n \<and> 0 < bit_length n"
proof (induction n rule: bit_length.induct)
  case (1 n)
  show ?case
  proof (cases "n div 2 = 0")
    case True
    with 1(2) have "n = 1" by simp
    then show ?thesis by (simp add: bit_length.simps [of "Suc 0"] bit_length.simps [of 0])
  next
    case False
    with 1 have h: "2 ^ (bit_length (n div 2) - 1) \<le> n div 2" "n div 2 < 2 ^ bit_length (n div 2)" "0 < bit_length (n div 2)"
      by simp_all
    have b: "bit_length n = Suc (bit_length (n div 2))" using 1(2) by (subst bit_length.simps) simp
    have "2 ^ bit_length (n div 2) = 2 * (2 :: nat) ^ (bit_length (n div 2) - 1)" using h(3) by (cases "bit_length (n div 2)") simp_all
    then have "2 ^ bit_length (n div 2) \<le> n" using h(1) by linarith
    moreover have "n < 2 * 2 ^ bit_length (n div 2)" using h(2) by linarith
    ultimately show ?thesis by (simp add: b)
  qed
qed

text \<open>The binary exponent of a positive number: \<open>n / d\<close> lies within a factor of two of the quotient of the lengths.\<close>

definition exponent_of :: "rat \<Rightarrow> int" where
  "exponent_of x =
     (let (n, d) = quotient_of x; e = int (bit_length (nat n)) - int (bit_length (nat d))
      in if x < 2 powi e then e - 1 else e)"

definition to_float :: "rat \<Rightarrow> rat" where
  "to_float x =
     (if x = 0 then 0 else let s = 52 - exponent_of \<bar>x\<bar> in of_int (round_even (x * 2 powi s)) / 2 powi s)"

lemma exponent_below:
  assumes "0 < x"
  shows "2 powi exponent_of x \<le> x"
proof -
  obtain n d where q: "quotient_of x = (n, d)" by (cases "quotient_of x")
  have d: "0 < d" using quotient_of_denom_pos [OF q] .
  have x: "x = of_int n / of_int d" by (rule quotient_of_div [OF q])
  have n: "0 < n" using assms d by (simp add: x zero_less_divide_iff)
  let ?a = "bit_length (nat n)" and ?b = "bit_length (nat d)"
  have "0 < nat n" "0 < nat d" using n d by simp_all
  from bit_length_bounds [OF this(1)] bit_length_bounds [OF this(2)]
  have na: "2 ^ (?a - 1) \<le> nat n" and nb: "nat d < 2 ^ ?b" and a: "0 < ?a" by simp_all
  have "int (2 ^ (?a - 1)) \<le> n" using na n by (metis le_nat_iff less_imp_le)
  then have fn: "(2 :: rat) ^ (?a - 1) \<le> of_int n" by (metis of_int_le_iff of_int_of_nat_eq of_nat_numeral of_nat_power)
  have "d < int (2 ^ ?b)" using nb d by (metis nat_less_iff less_imp_le)
  then have fd: "of_int d < (2 :: rat) ^ ?b" by (metis of_int_less_iff of_int_of_nat_eq of_nat_numeral of_nat_power)
  have "(2 :: rat) powi (int ?a - int ?b - 1) = 2 ^ (?a - 1) / 2 ^ ?b"
  proof -
    have "int ?a - int ?b - 1 = int (?a - 1) - int ?b" using a by simp
    moreover have "(2 :: rat) powi (int (?a - 1) - int ?b) = 2 powi int (?a - 1) / 2 powi int ?b"
      by (rule power_int_diff) simp
    ultimately show ?thesis by (simp only: power_int_of_nat)
  qed
  also have "\<dots> \<le> of_int n / of_int d"
    using fn fd d n by (intro frac_le) simp_all
  finally have "(2 :: rat) powi (int ?a - int ?b - 1) \<le> x" by (simp only: x)
  then show ?thesis by (auto simp: exponent_of_def q Let_def)
qed

text \<open>Rounding to the nearest double does not cross an integer of the exact range.\<close>

lemma to_float_le:
  assumes "0 \<le> x" and "x \<le> of_nat m" and "m < 2 ^ 52"
  shows "0 \<le> to_float x \<and> to_float x \<le> of_nat m"
proof (cases "x = 0")
  case False
  define s where "s = 52 - exponent_of x"
  have "(2 :: rat) powi exponent_of x \<le> x" using assms(1) False by (intro exponent_below) simp
  also have "x < 2 powi 52" using assms(2,3) by (simp add: le_less_trans of_nat_less_numeral_iff)
  finally have "(2 :: rat) powi exponent_of x < 2 powi 52" .
  then have "\<not> 52 \<le> exponent_of x" using power_int_increasing [of 52 "exponent_of x" "2 :: rat"] by auto
  then have s: "0 \<le> s" by (simp add: s_def)
  then obtain k where k: "s = int k" by (metis nonneg_int_cases)
  have p: "(2 :: rat) powi s = of_int (2 ^ k)" by (simp add: k)
  have "of_int 0 \<le> x * 2 powi s" "x * 2 powi s \<le> of_int (int m * 2 ^ k)"
    using assms(1,2) by (simp_all add: p mult_right_mono)
  from round_even_bounds [OF this] have r: "0 \<le> round_even (x * 2 powi s)" "round_even (x * 2 powi s) \<le> int m * 2 ^ k" by simp_all
  have "(of_int (round_even (x * 2 powi s)) :: rat) \<le> of_int (int m * 2 ^ k)" using r(2) by (simp only: of_int_le_iff)
  then have "of_int (round_even (x * 2 powi s)) / 2 powi s \<le> (of_nat m :: rat)" by (simp add: p divide_le_eq)
  moreover have "to_float x = of_int (round_even (x * 2 powi s)) / 2 powi s" using False assms(1) by (simp add: to_float_def Let_def s_def)
  ultimately show ?thesis using r(1) by (simp add: p)
qed (simp add: to_float_def)

text \<open>\<open>a / b * 100\<close>: the quotient is a float, and the product again.\<close>

definition percent :: "nat \<Rightarrow> nat \<Rightarrow> rat" where
  "percent a b = to_float (to_float (of_nat a / of_nat b) * 100)"

lemma percent_bounds:
  assumes "a \<le> b" and "0 < b"
  shows "0 \<le> percent a b \<and> percent a b \<le> 100"
proof -
  have "0 \<le> to_float (of_nat a / of_nat b)" "to_float (of_nat a / of_nat b) \<le> 1"
    using to_float_le [of "of_nat a / of_nat b" 1] assms by simp_all
  then show ?thesis using to_float_le [of "to_float (of_nat a / of_nat b) * 100" 100] by (simp add: percent_def)
qed

text \<open>One in 160 is not a double: rounded to four places it is 0.0063, not the tie's 0.0062.\<close>

lemma float_examples: "of_int (round_even (to_float (1 / 160) * 10000)) / 10000 = (63 / 10000 :: rat)" "round_even (1 / 160 * 10000) = 62"
  by code_simp+

end
