(* ===== verification/Feedback.thy ===== *)
theory Feedback
  imports Db Floats
begin

text \<open>
  Thumbs up and down: \<^verbatim>\<open>chat_service/services/feedback.py\<close>, its routes in
  \<^verbatim>\<open>chat_service/routes/feedback.py\<close>, and the table of \<^verbatim>\<open>migrations/005_feedback_table.sql\<close>.
  The state holds the table and the Redis cache of the statistics, whose entries expire.
\<close>

section \<open>State\<close>

record feedback_row =
  fb_id :: nat
  fb_thread :: nat
  fb_message :: nat
  fb_user :: nat
  fb_tenant :: nat
  fb_type :: string
  fb_partition :: string
  fb_created :: time
  fb_updated :: time
  fb_trace :: "nat option"
  fb_span :: "nat option"

record fb_stats =
  st_total :: nat
  st_up :: nat
  st_down :: nat
  st_up_pct :: "rat option"
  st_down_pct :: "rat option"

text \<open>A cache entry: the decoded statistics, or \<open>None\<close> for text that is no JSON, and its expiry.\<close>

record fb_db =
  fb_tenants :: "nat list"
  fb_rows :: "feedback_row list"
  fb_cache :: "(string \<times> fb_stats option \<times> time) list"
  fb_redis_up :: bool

type_synonym fb_key = "nat \<times> nat \<times> nat \<times> nat"

definition key_of :: "feedback_row \<Rightarrow> fb_key" where
  "key_of r = (fb_thread r, fb_message r, fb_user r, fb_tenant r)"

section \<open>Cache keys and the cache\<close>

definition truthy :: "string option \<Rightarrow> bool" where \<comment> \<open>\<open>if s:\<close>\<close>
  "truthy s = (s \<noteq> None \<and> s \<noteq> Some [])"

definition build_cache_key :: "string \<Rightarrow> string option \<Rightarrow> string option \<Rightarrow> string" where
  "build_cache_key tenant_id thread_id message_id =
     (if truthy thread_id \<and> truthy message_id
      then ''feedback:stats:'' @ tenant_id @ '':'' @ the thread_id @ '':'' @ the message_id
      else if truthy thread_id then ''feedback:stats:'' @ tenant_id @ '':'' @ the thread_id
      else ''feedback:stats:'' @ tenant_id)"

definition cache_get :: "time \<Rightarrow> string \<Rightarrow> fb_db \<Rightarrow> fb_stats option option" where
  "cache_get now k db =
     (case map_of (fb_cache db) k of
        None \<Rightarrow> None
      | Some (v, expires) \<Rightarrow> if now < expires then Some v else None)"

definition invalidate_feedback_cache :: "string \<Rightarrow> string option \<Rightarrow> string option \<Rightarrow> fb_db \<Rightarrow> fb_db" where
  "invalidate_feedback_cache tenant_id thread_id message_id db =
     (if fb_redis_up db
      then db\<lparr>fb_cache := AList.delete (build_cache_key tenant_id thread_id message_id) (fb_cache db)\<rparr>
      else db)"

section \<open>Operations\<close>

definition insert_feedback :: "nat \<Rightarrow> fb_key \<Rightarrow> string \<Rightarrow> string \<Rightarrow> time \<Rightarrow> fb_db \<Rightarrow> (exn + unit) \<times> fb_db" where
  "insert_feedback new_id k ft part now db =
     (if ft \<notin> {''thumbs_up'', ''thumbs_down''} then (Inl (DbExn CheckViolation), db)
      else if new_id \<in> fb_id ` set (fb_rows db) \<or> k \<in> key_of ` set (fb_rows db)
        then (Inl (DbExn UniqueViolation), db)
      else if snd (snd (snd k)) \<notin> set (fb_tenants db) then (Inl (DbExn ForeignKeyViolation), db)
      else (Inr (), db\<lparr>fb_rows := fb_rows db @
        [\<lparr>fb_id = new_id, fb_thread = fst k, fb_message = fst (snd k), fb_user = fst (snd (snd k)),
          fb_tenant = snd (snd (snd k)), fb_type = ft, fb_partition = part, fb_created = now,
          fb_updated = now, fb_trace = None, fb_span = None\<rparr>]\<rparr>))"

definition set_thumb :: "string \<times> time \<Rightarrow> feedback_row \<Rightarrow> feedback_row" where
  "set_thumb u r = r\<lparr>fb_type := fst u, fb_updated := snd u, fb_trace := None, fb_span := None\<rparr>"

definition update_feedback :: "nat \<Rightarrow> string \<Rightarrow> time \<Rightarrow> fb_db \<Rightarrow> (exn + unit) \<times> fb_db" where
  "update_feedback rid ft now db =
     (if ft \<notin> {''thumbs_up'', ''thumbs_down''} then (Inl (DbExn CheckViolation), db)
      else (Inr (), db\<lparr>fb_rows := sql_update (\<lambda>r. fb_id r = rid) (set_thumb (ft, now)) (fb_rows db)\<rparr>))"

definition delete_feedback :: "nat \<Rightarrow> fb_db \<Rightarrow> fb_db" where
  "delete_feedback rid db = db\<lparr>fb_rows := sql_delete (\<lambda>r. fb_id r = rid) (fb_rows db)\<rparr>"

text \<open>The four ids of a request, as \<open>uuid.UUID\<close> reads them.\<close>

definition parse_key :: "string \<Rightarrow> string \<Rightarrow> string \<Rightarrow> nat \<Rightarrow> fb_key option" where
  "parse_key thread_id message_id user_id t =
     (case (uuid_parse thread_id, uuid_parse message_id, uuid_parse user_id) of
        (Some a, Some b, Some c) \<Rightarrow> Some (a, b, c, t)
      | _ \<Rightarrow> None)"

definition store_body ::
  "string \<Rightarrow> string \<Rightarrow> string \<Rightarrow> string \<Rightarrow> string \<Rightarrow> nat \<Rightarrow> time \<Rightarrow> nat \<Rightarrow> fb_db \<Rightarrow> (exn + string option) \<times> fb_db" where
  "store_body thread_id message_id user_id tenant_id ft new_id now t db =
     (case parse_key thread_id message_id user_id t of
        None \<Rightarrow> (Inl ValueError, db)
      | Some k \<Rightarrow>
        (case fetchrow (\<lambda>r. key_of r = k) (fb_rows db) of
           Some r \<Rightarrow>
             if fb_type r = ft
             then (Inr None, invalidate_feedback_cache tenant_id (Some thread_id) (Some message_id)
                               (delete_feedback (fb_id r) db))
             else (case update_feedback (fb_id r) ft now db of
                     (Inl e, _) \<Rightarrow> (Inl e, db) | (Inr _, db') \<Rightarrow> (Inr (Some ft), db'))
         | None \<Rightarrow>
             (case insert_feedback new_id k ft (''tenant_'' @ tenant_id) now db of
                (Inl e, _) \<Rightarrow> (Inl e, db) | (Inr _, db') \<Rightarrow> (Inr (Some ft), db'))))"

definition store_feedback ::
  "string \<Rightarrow> string \<Rightarrow> string \<Rightarrow> string \<Rightarrow> string \<Rightarrow> nat \<Rightarrow> time \<Rightarrow> fb_db \<Rightarrow> (exn + string option) \<times> fb_db" where
  "store_feedback thread_id message_id user_id tenant_id ft new_id now db =
     (case tenant_db_context tenant_id (store_body thread_id message_id user_id tenant_id ft new_id now) db of
        (Inl e, db') \<Rightarrow> (Inl e, db')
      | (Inr None, db') \<Rightarrow> (Inr None, db')
      | (Inr (Some s), db') \<Rightarrow>
          (Inr (Some s), invalidate_feedback_cache tenant_id (Some thread_id) (Some message_id) db'))"

definition get_feedback_state ::
  "string \<Rightarrow> string \<Rightarrow> string \<Rightarrow> string \<Rightarrow> fb_db \<Rightarrow> exn + string option" where
  "get_feedback_state thread_id message_id user_id tenant_id db =
     (case uuid_parse tenant_id of
        None \<Rightarrow> Inl ValueError
      | Some t \<Rightarrow>
        (case parse_key thread_id message_id user_id t of
           None \<Rightarrow> Inl ValueError
         | Some k \<Rightarrow> Inr (map_option fb_type (fetchrow (\<lambda>r. key_of r = k) (fb_rows db)))))"

text \<open>The WHERE clause that \<open>get_feedback_stats\<close> builds, and its counts.\<close>

definition stats_rows :: "nat \<Rightarrow> nat option \<Rightarrow> nat option \<Rightarrow> fb_db \<Rightarrow> feedback_row list" where
  "stats_rows t th m db = sql_select (\<lambda>r. fb_tenant r = t \<and> (th = None \<or> th = Some (fb_thread r))
     \<and> (m = None \<or> m = Some (fb_message r))) (fb_rows db)"

definition percentage :: "nat \<Rightarrow> nat \<Rightarrow> rat option" where
  "percentage n tot = (if tot > 0 then Some (round2 (percent n tot)) else None)"

definition count_stats :: "feedback_row list \<Rightarrow> fb_stats" where
  "count_stats rows =
     (let total = length rows;
          up = length (filter (\<lambda>r. fb_type r = ''thumbs_up'') rows);
          down = length (filter (\<lambda>r. fb_type r = ''thumbs_down'') rows)
      in \<lparr>st_total = total, st_up = up, st_down = down,
          st_up_pct = percentage up total, st_down_pct = percentage down total\<rparr>)"

definition opt_uuid :: "string option \<Rightarrow> nat option option" where \<comment> \<open>\<open>None\<close> when \<open>uuid.UUID\<close> raises\<close>
  "opt_uuid s = (if truthy s then map_option Some (uuid_parse (the s)) else Some None)"

definition query_stats :: "string \<Rightarrow> string option \<Rightarrow> string option \<Rightarrow> fb_db \<Rightarrow> exn + fb_stats" where
  "query_stats tenant_id thread_id message_id db =
     (case (uuid_parse tenant_id, opt_uuid thread_id, opt_uuid message_id) of
        (Some t, Some th, Some m) \<Rightarrow> Inr (count_stats (stats_rows t th m db))
      | _ \<Rightarrow> Inl ValueError)"

definition get_feedback_stats ::
  "string \<Rightarrow> string option \<Rightarrow> string option \<Rightarrow> time \<Rightarrow> fb_db \<Rightarrow> (exn + fb_stats) \<times> fb_db" where
  "get_feedback_stats tenant_id thread_id message_id now db =
     (if \<not> fb_redis_up db then (Inl ConnectionError, db)
      else case cache_get now (build_cache_key tenant_id thread_id message_id) db of
        Some (Some s) \<Rightarrow> (Inr s, db)
      | _ \<Rightarrow>
        (case query_stats tenant_id thread_id message_id db of
           Inl e \<Rightarrow> (Inl e, db)
         | Inr s \<Rightarrow> (Inr s, db\<lparr>fb_cache := AList.update (build_cache_key tenant_id thread_id message_id)
                                              (Some s, now + 60) (fb_cache db)\<rparr>)))"

section \<open>Routes\<close>

text \<open>
  A field of the JSON body: absent or null, a string, or something else, of which only the truth
  value matters: \<open>uuid.UUID\<close> raises \<open>AttributeError\<close> on it.
\<close>

datatype jfield = JNull | JStr string | JOther bool

fun jtrue :: "jfield \<Rightarrow> bool" where
  "jtrue JNull = False"
| "jtrue (JStr s) = (s \<noteq> [])"
| "jtrue (JOther b) = b"

fun juuid :: "jfield \<Rightarrow> string option" where
  "juuid (JStr s) = (if uuid_parse s = None then None else Some s)"
| "juuid _ = None"

record identity = \<comment> \<open>what the middleware left in \<open>request.state\<close>\<close>
  rq_tenant :: "string option"
  rq_user :: "string option"

definition record_feedback ::
  "identity \<Rightarrow> jfield \<Rightarrow> jfield \<Rightarrow> jfield \<Rightarrow> bool \<Rightarrow> nat \<Rightarrow> time \<Rightarrow> fb_db \<Rightarrow> (exn + string option) \<times> fb_db" where
  "record_feedback rq thread_id message_id ft service_up new_id now db =
     (if \<not> jtrue thread_id then (Inl (HTTPException 400), db)
      else if \<not> jtrue message_id then (Inl (HTTPException 400), db)
      else if \<not> jtrue ft then (Inl (HTTPException 400), db)
      else if ft \<notin> {JStr ''thumbs_up'', JStr ''thumbs_down''} then (Inl (HTTPException 400), db)
      else case (juuid thread_id, juuid message_id, ft) of
        (Some th, Some m, JStr f) \<Rightarrow>
          if \<not> truthy (rq_tenant rq) then (Inl (HTTPException 401), db)
          else (let user = (if truthy (rq_user rq) then the (rq_user rq) else ''anonymous'') in
            if \<not> service_up then (Inl (HTTPException 500), db)
            else case store_feedback th m user (the (rq_tenant rq)) f new_id now db of
              (Inl _, db') \<Rightarrow> (Inl (HTTPException 500), db')
            | (Inr s, db') \<Rightarrow> (Inr s, db'))
      | _ \<Rightarrow> (Inl (HTTPException 400), db))"

definition feedback_stats_route ::
  "identity \<Rightarrow> string option \<Rightarrow> string option \<Rightarrow> bool \<Rightarrow> time \<Rightarrow> fb_db \<Rightarrow> (exn + fb_stats) \<times> fb_db" where
  "feedback_stats_route rq thread_id message_id service_up now db =
     (if opt_uuid thread_id = None then (Inl (HTTPException 400), db)
      else if opt_uuid message_id = None then (Inl (HTTPException 400), db)
      else if \<not> truthy (rq_tenant rq) then (Inl (HTTPException 401), db)
      else if \<not> service_up then (Inl (HTTPException 500), db)
      else case get_feedback_stats (the (rq_tenant rq)) thread_id message_id now db of
        (Inl _, db') \<Rightarrow> (Inl (HTTPException 500), db')
      | (Inr s, db') \<Rightarrow> (Inr s, db'))"

section \<open>The table invariant and its abstraction\<close>

definition fb_inv :: "fb_db \<Rightarrow> bool" where
  "fb_inv db \<longleftrightarrow> distinct (map fb_id (fb_rows db)) \<and> distinct (map key_of (fb_rows db)) \<and>
     (\<forall>r \<in> set (fb_rows db). fb_type r \<in> {''thumbs_up'', ''thumbs_down''})"

text \<open>What a feedback table means: for each user and message, at most one thumb.\<close>

definition fb_abs :: "fb_db \<Rightarrow> fb_key \<Rightarrow> string option" where
  "fb_abs db k = map_option fb_type (fetchrow (\<lambda>r. key_of r = k) (fb_rows db))"

definition toggle :: "string \<Rightarrow> string option \<Rightarrow> string option" where
  "toggle ft old = (if old = Some ft then None else Some ft)"

interpretation feedback_table: keyed_table key_of set_thumb
  by unfold_locales (simp add: key_of_def set_thumb_def)

interpretation feedback_ids: keyed_table fb_id set_thumb
  by unfold_locales (simp add: set_thumb_def)

lemma fb_abs_Some: "fb_inv db \<Longrightarrow> r \<in> set (fb_rows db) \<Longrightarrow> fb_abs db (key_of r) = Some (fb_type r)"
  unfolding fb_abs_def fb_inv_def by (subst feedback_table.fetch_by_key [of _ r]) auto

lemma fb_abs_None: "fb_abs db k = None \<longleftrightarrow> k \<notin> key_of ` set (fb_rows db)"
  by (auto simp: fb_abs_def fetchrow_None)

lemma fb_abs_iff:
  "fb_inv db \<Longrightarrow> fb_abs db k = Some ft \<longleftrightarrow> (\<exists>r \<in> set (fb_rows db). key_of r = k \<and> fb_type r = ft)"
  using fb_abs_Some [of db] by (auto simp: fb_abs_def dest!: fetchrow_SomeD)

text \<open>The table alone decides \<open>fb_inv\<close> and \<open>fb_abs\<close>: the cache does not.\<close>

lemma fb_invalidate [simp]:
  "fb_inv (invalidate_feedback_cache t th m db) = fb_inv db"
  "fb_abs (invalidate_feedback_cache t th m db) = fb_abs db"
  "fb_rows (invalidate_feedback_cache t th m db) = fb_rows db"
  by (simp_all add: invalidate_feedback_cache_def fb_inv_def fb_abs_def fun_eq_iff)

lemma fb_delete:
  assumes inv: "fb_inv db" and r: "r \<in> set (fb_rows db)"
  shows "fb_inv (delete_feedback (fb_id r) db)"
    and "fb_abs (delete_feedback (fb_id r) db) = (fb_abs db)(key_of r := None)"
proof -
  have same: "fb_id x = fb_id r \<longleftrightarrow> key_of x = key_of r" if "x \<in> set (fb_rows db)" for x
    using inv that r feedback_table.unique_row [of "fb_rows db" x r] feedback_ids.unique_row [of "fb_rows db" x r]
    unfolding fb_inv_def by metis
  show i: "fb_inv (delete_feedback (fb_id r) db)"
    using inv unfolding fb_inv_def delete_feedback_def
    by (auto intro: feedback_table.keys_delete feedback_ids.keys_delete)
  show "fb_abs (delete_feedback (fb_id r) db) = (fb_abs db)(key_of r := None)"
  proof
    fix k
    have "fb_abs (delete_feedback (fb_id r) db) k = Some ft \<longleftrightarrow> ((fb_abs db)(key_of r := None)) k = Some ft" for ft
      unfolding fb_abs_iff [OF i] using same by (auto simp: fb_abs_iff [OF inv] delete_feedback_def)
    then show "fb_abs (delete_feedback (fb_id r) db) k = ((fb_abs db)(key_of r := None)) k"
      by (metis option.exhaust)
  qed
qed

lemma fb_update:
  assumes inv: "fb_inv db" and r: "r \<in> set (fb_rows db)" and u: "update_feedback (fb_id r) ft now db = (Inr (), db')"
  shows "fb_inv db'" and "fb_abs db' = (fb_abs db)(key_of r \<mapsto> ft)"
proof -
  have db': "db' = db\<lparr>fb_rows := sql_update (\<lambda>x. fb_id x = fb_id r) (set_thumb (ft, now)) (fb_rows db)\<rparr>"
    and ft: "ft \<in> {''thumbs_up'', ''thumbs_down''}"
    using u by (auto simp: update_feedback_def split: if_splits)
  have only: "x = r" if "x \<in> set (fb_rows db)" "fb_id x = fb_id r" for x
    using feedback_ids.unique_row [OF _ that(1) r that(2)] inv by (simp add: fb_inv_def)
  have rows: "set (fb_rows db') = insert (set_thumb (ft, now) r) (set (fb_rows db) - {r})"
    unfolding db' using set_sql_update_one [OF r, of "\<lambda>x. fb_id x = fb_id r"] only by simp
  show i: "fb_inv db'"
    using inv ft rows unfolding fb_inv_def db'
    by (auto simp: feedback_table.keys_update feedback_ids.keys_update set_thumb_def)
  have key: "key_of (set_thumb (ft, now) r) = key_of r" by (rule feedback_table.key_upd)
  have uniq: "x = r" if "x \<in> set (fb_rows db)" "key_of x = key_of r" for x
    using feedback_table.unique_row [OF _ that(1) r that(2)] inv by (simp add: fb_inv_def)
  show "fb_abs db' = (fb_abs db)(key_of r \<mapsto> ft)"
  proof
    fix k
    have "fb_abs db' k = Some f \<longleftrightarrow> ((fb_abs db)(key_of r \<mapsto> ft)) k = Some f" for f
      using uniq key by (auto simp: fb_abs_iff [OF i] fb_abs_iff [OF inv] rows set_thumb_def)
    then show "fb_abs db' k = ((fb_abs db)(key_of r \<mapsto> ft)) k" by (metis option.exhaust)
  qed
qed

lemma fb_insert:
  assumes inv: "fb_inv db" and u: "insert_feedback new_id k ft part now db = (Inr (), db')"
  shows "fb_inv db'" and "fb_abs db' = (fb_abs db)(k \<mapsto> ft)"
proof -
  have new: "k \<notin> key_of ` set (fb_rows db)" "new_id \<notin> fb_id ` set (fb_rows db)"
    "ft \<in> {''thumbs_up'', ''thumbs_down''}"
    using u by (auto simp: insert_feedback_def split: if_splits)
  obtain x where x: "fb_rows db' = fb_rows db @ [x]" "key_of x = k" "fb_id x = new_id" "fb_type x = ft"
    using u by (auto simp: insert_feedback_def key_of_def split: if_splits)
  then show i: "fb_inv db'" using inv new by (auto simp: fb_inv_def)
  show "fb_abs db' = (fb_abs db)(k \<mapsto> ft)"
  proof
    fix j
    have "fb_abs db' j = Some f \<longleftrightarrow> ((fb_abs db)(k \<mapsto> ft)) j = Some f" for f
      using new x by (auto simp: fb_abs_iff [OF i] fb_abs_iff [OF inv] image_iff)
    then show "fb_abs db' j = ((fb_abs db)(k \<mapsto> ft)) j" by (metis option.exhaust)
  qed
qed

section \<open>Every branch of the upsert\<close>

text \<open>On the abstraction, storing a thumb toggles the entry of its key.\<close>

lemma store_refines_toggle:
  assumes inv: "fb_inv db" and t: "uuid_parse tenant_id = Some t" "t \<in> set (fb_tenants db)"
    and k: "parse_key thread_id message_id user_id t = Some k"
    and ft: "ft \<in> {''thumbs_up'', ''thumbs_down''}" and new: "new_id \<notin> fb_id ` set (fb_rows db)"
  shows "\<exists>db'. store_feedback thread_id message_id user_id tenant_id ft new_id now db
           = (Inr (toggle ft (fb_abs db k)), db')
         \<and> fb_inv db' \<and> fb_abs db' = (fb_abs db)(k := toggle ft (fb_abs db k))"
proof (cases "fetchrow (\<lambda>r. key_of r = k) (fb_rows db)")
  case None
  then have abs: "fb_abs db k = None" and fresh: "k \<notin> key_of ` set (fb_rows db)"
    by (auto simp: fb_abs_def fetchrow_None)
  have tk: "snd (snd (snd k)) = t" using k by (auto simp: parse_key_def split: option.splits)
  obtain db' where ins: "insert_feedback new_id k ft (''tenant_'' @ tenant_id) now db = (Inr (), db')"
    using new ft fresh t tk by (auto simp: insert_feedback_def)
  show ?thesis using None k t ins fb_insert [OF inv ins] abs
    by (auto simp: store_feedback_def tenant_db_context_def store_body_def toggle_def)
next
  case (Some r)
  then have r: "r \<in> set (fb_rows db)" "key_of r = k" by (auto dest!: fetchrow_SomeD)
  have abs: "fb_abs db k = Some (fb_type r)" using Some by (simp add: fb_abs_def)
  show ?thesis
  proof (cases "fb_type r = ft")
    case True
    then show ?thesis using Some k t r abs fb_delete [OF inv r(1)]
      by (auto simp: store_feedback_def tenant_db_context_def store_body_def toggle_def)
  next
    case False
    obtain db' where u: "update_feedback (fb_id r) ft now db = (Inr (), db')"
      using ft by (auto simp: update_feedback_def)
    show ?thesis using Some k t r abs u False fb_update [OF inv r(1) u]
      by (auto simp: store_feedback_def tenant_db_context_def store_body_def toggle_def)
  qed
qed

lemma store_failure: "store_feedback th m u tid ft new_id now db = (Inl e, db') \<Longrightarrow> db' = db"
proof -
  assume s: "store_feedback th m u tid ft new_id now db = (Inl e, db')"
  obtain r d where c: "tenant_db_context tid (store_body th m u tid ft new_id now) db = (r, d)" by fastforce
  show "db' = db"
  proof (cases r)
    case (Inl x)
    with s c tenant_context_rollback [OF c [unfolded Inl]] show ?thesis by (simp add: store_feedback_def)
  next
    case (Inr res)
    with s c show ?thesis by (cases res) (simp_all add: store_feedback_def)
  qed
qed

lemma stats_table: "get_feedback_stats tid th m now db = (r, db') \<Longrightarrow> fb_rows db' = fb_rows db"
  by (auto simp: get_feedback_stats_def split: if_splits option.splits sum.splits)

section \<open>The system over time\<close>

text \<open>
  A state: the clock, the table with its cache, and the states the clock has passed, each with its
  time.  The clock moves between requests.
\<close>

type_synonym fb_sys = "time \<times> fb_db \<times> (time \<times> fb_db) list"

inductive fb_step :: "fb_sys \<Rightarrow> fb_sys \<Rightarrow> bool" where
  store: "clock \<le> now \<Longrightarrow> store_feedback th m u tid ft new_id now db = (r, db') \<Longrightarrow>
    fb_step (clock, db, hist) (now, db', hist @ [(now, db')])"
| stats: "clock \<le> now \<Longrightarrow> get_feedback_stats tid th' m' now db = (r', db') \<Longrightarrow>
    fb_step (clock, db, hist) (now, db', hist @ [(now, db')])"

inductive_cases fb_step_cases: "fb_step s t"

definition fb_init :: "fb_sys \<Rightarrow> bool" where
  "fb_init s = (case s of (clock, db, hist) \<Rightarrow> fb_rows db = [] \<and> fb_cache db = [] \<and> hist = [])"

text \<open>A cache entry is what some request with its key counted, 60 seconds before it expires.\<close>

definition entry_ok :: "(time \<times> fb_db) list \<Rightarrow> time \<Rightarrow> string \<Rightarrow> fb_stats \<Rightarrow> time \<Rightarrow> bool" where
  "entry_ok hist clock k s expires \<longleftrightarrow>
     (\<exists>w d tid th m. (w, d) \<in> set hist \<and> w \<le> clock \<and> expires = w + 60 \<and>
        k = build_cache_key tid th m \<and> query_stats tid th m d = Inr s)"

definition fb_cached_ok :: "fb_sys \<Rightarrow> bool" where
  "fb_cached_ok sys = (case sys of (clock, db, hist) \<Rightarrow>
     \<forall>k s expires. map_of (fb_cache db) k = Some (Some s, expires) \<longrightarrow> entry_ok hist clock k s expires)"

lemma entry_ok_mono: "entry_ok hist c k s e \<Longrightarrow> c \<le> c' \<Longrightarrow> entry_ok (hist @ xs) c' k s e"
  unfolding entry_ok_def by (force intro: order_trans)

definition cache_shrinks :: "fb_db \<Rightarrow> fb_db \<Rightarrow> bool" where
  "cache_shrinks db db' \<longleftrightarrow> (\<forall>k v. map_of (fb_cache db') k = Some v \<longrightarrow> map_of (fb_cache db) k = Some v)"

lemma cache_shrinks_simps [simp]:
  "cache_shrinks db db"
  "cache_shrinks db (delete_feedback i db)"
  by (auto simp: cache_shrinks_def delete_feedback_def)

lemma cache_shrinks_invalidate: "cache_shrinks db d \<Longrightarrow> cache_shrinks db (invalidate_feedback_cache t th m d)"
  by (auto simp: cache_shrinks_def invalidate_feedback_cache_def split: if_splits)

lemma cache_shrinks_insert: "insert_feedback i k ft part now db = (r, d) \<Longrightarrow> cache_shrinks db d"
  by (auto simp: cache_shrinks_def insert_feedback_def split: if_splits)

lemma cache_shrinks_update: "update_feedback i ft now db = (r, d) \<Longrightarrow> cache_shrinks db d"
  by (auto simp: cache_shrinks_def update_feedback_def split: if_splits)

lemma store_body_cache:
  assumes "store_body th m u tid ft new_id now t db = (r, d)"
  shows "cache_shrinks db d"
proof (cases "parse_key th m u t")
  case None
  with assms show ?thesis by (simp add: store_body_def)
next
  case (Some k)
  show ?thesis
  proof (cases "fetchrow (\<lambda>r. key_of r = k) (fb_rows db)")
    case None
    obtain x y where i: "insert_feedback new_id k ft (''tenant_'' @ tid) now db = (x, y)" by fastforce
    with assms Some None cache_shrinks_insert [OF i] show ?thesis by (cases x) (auto simp: store_body_def)
  next
    case (Some row)
    obtain x y where i: "update_feedback (fb_id row) ft now db = (x, y)" by fastforce
    with assms Some \<open>parse_key th m u t = Some k\<close> cache_shrinks_update [OF i] show ?thesis
      by (cases x; cases "fb_type row = ft") (auto simp: store_body_def intro: cache_shrinks_invalidate)
  qed
qed

lemma store_cache:
  assumes "store_feedback th m u tid ft new_id now db = (r, db')"
  shows "cache_shrinks db db'"
proof (cases "uuid_parse tid")
  case None
  with assms show ?thesis by (simp add: store_feedback_def tenant_db_context_def)
next
  case (Some t)
  obtain x d where b: "store_body th m u tid ft new_id now t db = (x, d)" by fastforce
  show ?thesis
  proof (cases x)
    case (Inl e)
    with assms b Some show ?thesis by (simp add: store_feedback_def tenant_db_context_def)
  next
    case (Inr res)
    with assms b Some store_body_cache [OF b] show ?thesis
      by (cases res) (auto simp: store_feedback_def tenant_db_context_def intro: cache_shrinks_invalidate)
  qed
qed

lemma query_stats_cong: "fb_rows d = fb_rows db \<Longrightarrow> query_stats tid th m d = query_stats tid th m db"
  unfolding query_stats_def stats_rows_def by (simp only:)

lemma stats_cache:
  assumes "get_feedback_stats tid th m now db = (r, db')" and "map_of (fb_cache db') k = Some (Some s, e)"
  shows "map_of (fb_cache db) k = Some (Some s, e) \<or>
    e = now + 60 \<and> k = build_cache_key tid th m \<and> query_stats tid th m db' = Inr s"
proof -
  have q: "query_stats tid th m db' = query_stats tid th m db"
    by (rule query_stats_cong) (rule stats_table [OF assms(1)])
  show ?thesis using assms unfolding q
    by (auto simp: get_feedback_stats_def split: if_splits option.splits sum.splits)
qed

interpretation feedback: invariant_system fb_init fb_step fb_cached_ok
proof
  show "fb_init s \<Longrightarrow> fb_cached_ok s" for s
    by (auto simp: fb_init_def fb_cached_ok_def)
  show "fb_cached_ok t" if ok: "fb_cached_ok s" and st: "fb_step s t" for s t
    using st
  proof (rule fb_step_cases)
    fix clock now th m u tid ft new_id db r db' hist
    assume h: "s = (clock, db, hist)" "t = (now, db', hist @ [(now, db')])" "clock \<le> now"
      and c: "store_feedback th m u tid ft new_id now db = (r, db')"
    show "fb_cached_ok t"
      using ok h store_cache [OF c] by (simp add: fb_cached_ok_def cache_shrinks_def) (blast intro: entry_ok_mono)
  next
    fix clock now tid th m db r db' hist
    assume h: "s = (clock, db, hist)" "t = (now, db', hist @ [(now, db')])" "clock \<le> now"
      and c: "get_feedback_stats tid th m now db = (r, db')"
    have "entry_ok (hist @ [(now, db')]) now k s' e" if k: "map_of (fb_cache db') k = Some (Some s', e)" for k s' e
      using stats_cache [OF c k]
    proof
      assume "map_of (fb_cache db) k = Some (Some s', e)"
      with ok h(1,3) show ?thesis by (auto simp: fb_cached_ok_def intro: entry_ok_mono)
    next
      assume "e = now + 60 \<and> k = build_cache_key tid th m \<and> query_stats tid th m db' = Inr s'"
      then show ?thesis unfolding entry_ok_def by fastforce
    qed
    then show "fb_cached_ok t" by (simp add: fb_cached_ok_def h(2))
  qed
qed

section \<open>Counts\<close>

lemma count_split:
  assumes "\<forall>r \<in> set rows. fb_type r \<in> {''thumbs_up'', ''thumbs_down''}"
  shows "st_up (count_stats rows) + st_down (count_stats rows) = length rows"
  using assms by (induction rows) (auto simp: count_stats_def Let_def)

lemma percentage_bounds: "n \<le> tot \<Longrightarrow> percentage n tot = Some p \<Longrightarrow> 0 \<le> p \<and> p \<le> 100"
  unfolding percentage_def using round2_bounds [of 0 "percent n tot" 100] percent_bounds [of n tot]
  by (auto split: if_splits)

section \<open>Properties\<close>

text \<open>C17: storing a thumb refines the toggle.  With a valid request, the table afterwards means the old
  table with the entry of this user and message toggled: absent becomes the thumb, the same thumb
  is removed, the other thumb is replaced; the answer is the new entry, and no key gets a second row.\<close>

theorem feedback_store_toggles:
  assumes "fb_inv db" and "uuid_parse tenant_id = Some t" and "t \<in> set (fb_tenants db)"
    and "parse_key thread_id message_id user_id t = Some k"
    and "ft \<in> {''thumbs_up'', ''thumbs_down''}" and "new_id \<notin> fb_id ` set (fb_rows db)"
  shows "\<exists>db'. store_feedback thread_id message_id user_id tenant_id ft new_id now db
           = (Inr (toggle ft (fb_abs db k)), db')
         \<and> fb_inv db' \<and> fb_abs db' = (fb_abs db)(k := toggle ft (fb_abs db k))
         \<and> get_feedback_state thread_id message_id user_id tenant_id db' = Inr (toggle ft (fb_abs db k))"
proof -
  obtain db' where s: "store_feedback thread_id message_id user_id tenant_id ft new_id now db
      = (Inr (toggle ft (fb_abs db k)), db')" "fb_inv db'" "fb_abs db' = (fb_abs db)(k := toggle ft (fb_abs db k))"
    using store_refines_toggle [OF assms] by blast
  moreover have "get_feedback_state thread_id message_id user_id tenant_id db' = Inr (fb_abs db' k)"
    using assms(2,4) by (simp add: get_feedback_state_def fb_abs_def)
  ultimately show ?thesis by simp
qed

definition fb_demo :: fb_db where
  "fb_demo = \<lparr>fb_tenants = [1], fb_rows = [], fb_cache = [], fb_redis_up = True\<rparr>"

theorem feedback_store_toggles_witness:
  "\<exists>db'. store_feedback uuid2 uuid3 uuid2 uuid1 ''thumbs_up'' 7 5 fb_demo = (Inr (Some ''thumbs_up''), db')
     \<and> get_feedback_state uuid2 uuid3 uuid2 uuid1 db' = Inr (Some ''thumbs_up'')"
  using feedback_store_toggles [of fb_demo uuid1 1 uuid2 uuid3 uuid2 "(2, 3, 2, 1)" "''thumbs_up''" 7 5]
  by (auto simp: fb_demo_def fb_inv_def parse_key_def fb_abs_def toggle_def)

text \<open>The statistics the table yields are consistent: every row counts as exactly one thumb, and the
  percentages, present when there is a row, are between 0 and 100.\<close>

theorem feedback_stats_consistent:
  assumes "fb_inv db" and "query_stats tenant_id thread_id message_id db = Inr s"
  shows "st_up s + st_down s = st_total s \<and> (st_up_pct s = None \<longleftrightarrow> st_total s = 0)
    \<and> (\<forall>p. st_up_pct s = Some p \<or> st_down_pct s = Some p \<longrightarrow> 0 \<le> p \<and> p \<le> 100)"
proof -
  obtain rows where s: "s = count_stats rows" and rows: "set rows \<subseteq> set (fb_rows db)"
    using assms(2) by (auto simp: query_stats_def stats_rows_def split: option.splits)
  have "\<forall>r \<in> set rows. fb_type r \<in> {''thumbs_up'', ''thumbs_down''}"
    using rows assms(1) unfolding fb_inv_def by blast
  from count_split [OF this]
  have c: "st_up s + st_down s = length rows" by (simp add: s)
  have tot: "st_total s = length rows" "st_up_pct s = percentage (st_up s) (length rows)"
    "st_down_pct s = percentage (st_down s) (length rows)"
    by (simp_all add: s count_stats_def Let_def)
  have "percentage (st_up s) (length rows) = None \<longleftrightarrow> length rows = 0"
    by (simp add: percentage_def)
  moreover have "0 \<le> p \<and> p \<le> 100"
    if "percentage (st_up s) (length rows) = Some p \<or> percentage (st_down s) (length rows) = Some p" for p
    using that percentage_bounds [of "st_up s" "length rows" p] percentage_bounds [of "st_down s" "length rows" p] c
    by auto
  ultimately show ?thesis using c unfolding tot by simp
qed

theorem feedback_stats_consistent_witness:
  "st_up (count_stats []) + st_down (count_stats []) = st_total (count_stats [])"
  using feedback_stats_consistent [of fb_demo uuid1 None None "count_stats []"]
  by (auto simp: fb_demo_def fb_inv_def query_stats_def stats_rows_def opt_uuid_def truthy_def sql_select_def)

text \<open>Statistics are at most a minute old.  Whatever was stored and asked before, an answer is what a
  request with the same cache key counted in the table as it stood less than 60 seconds ago.\<close>

theorem feedback_stats_fresh:
  assumes "reach fb_init fb_step (clock, db, hist)" and "clock \<le> now"
    and "get_feedback_stats tenant_id thread_id message_id now db = (Inr s, db')"
  shows "\<exists>w d tid th m. ((w, d) \<in> set hist \<or> (w, d) = (now, db)) \<and> w \<le> now \<and> now < w + 60 \<and>
    build_cache_key tid th m = build_cache_key tenant_id thread_id message_id \<and> query_stats tid th m d = Inr s"
proof (cases "query_stats tenant_id thread_id message_id db = Inr s")
  case True
  then show ?thesis by (intro exI [of _ now] exI [of _ db] exI [of _ tenant_id] exI [of _ thread_id] exI [of _ message_id]) simp
next
  case False
  let ?k = "build_cache_key tenant_id thread_id message_id"
  have "cache_get now ?k db = Some (Some s)"
    using assms(3) False by (auto simp: get_feedback_stats_def split: if_splits option.splits sum.splits)
  then obtain e where e: "map_of (fb_cache db) ?k = Some (Some s, e)" "now < e"
    by (auto simp: cache_get_def split: option.splits if_splits)
  have "fb_cached_ok (clock, db, hist)" by (rule feedback.reach_inv [OF assms(1)])
  then have "entry_ok hist clock ?k s e" using e(1) unfolding fb_cached_ok_def by blast
  then obtain w d tid th m where "(w, d) \<in> set hist" "w \<le> clock" "e = w + 60"
    "?k = build_cache_key tid th m" "query_stats tid th m d = Inr s"
    unfolding entry_ok_def by blast
  with assms(2) e(2) show ?thesis
    by (intro exI [of _ w] exI [of _ d] exI [of _ tid] exI [of _ th] exI [of _ m]) simp
qed

definition fb_demo1 :: fb_db where \<comment> \<open>after a request for the tenant's statistics at time 0\<close>
  "fb_demo1 = snd (get_feedback_stats uuid1 None None 0 fb_demo)"

definition fb_demo2 :: fb_db where \<comment> \<open>and a thumb stored at time 1\<close>
  "fb_demo2 = snd (store_feedback uuid2 uuid3 uuid2 uuid1 ''thumbs_up'' 7 1 fb_demo1)"

lemmas fb_eval = fb_demo_def fb_demo1_def fb_demo2_def get_feedback_stats_def query_stats_def stats_rows_def
  opt_uuid_def truthy_def sql_select_def cache_get_def count_stats_def percentage_def build_cache_key_def
  store_feedback_def tenant_db_context_def store_body_def parse_key_def insert_feedback_def key_of_def
  invalidate_feedback_cache_def uuid1_def [symmetric]

lemma reach_fb_demo2: "reach fb_init fb_step (1, fb_demo2, [(0, fb_demo1), (1, fb_demo2)])"
proof -
  have "reach fb_init fb_step (0, fb_demo, [])"
    by (rule reach_init) (simp add: fb_init_def fb_demo_def)
  moreover have "fb_step (0, fb_demo, []) (0, fb_demo1, [] @ [(0, fb_demo1)])"
    unfolding fb_demo1_def by (rule fb_step.stats [OF order_refl prod.collapse [symmetric]])
  ultimately have "reach fb_init fb_step (0, fb_demo1, [] @ [(0, fb_demo1)])" by (rule reach_step)
  moreover have "fb_step (0, fb_demo1, [] @ [(0, fb_demo1)]) (1, fb_demo2, ([] @ [(0, fb_demo1)]) @ [(1, fb_demo2)])"
    unfolding fb_demo2_def by (rule fb_step.store [OF _ prod.collapse [symmetric]]) simp
  ultimately show ?thesis using reach_step by fastforce
qed

lemma fb_demo2_stats: "get_feedback_stats uuid1 None None 10 fb_demo2 = (Inr (count_stats []), fb_demo2)"
  by (simp add: fb_eval)

theorem feedback_stats_fresh_witness:
  "\<exists>w d tid th m. ((w, d) \<in> set [(0, fb_demo1), (1, fb_demo2)] \<or> (w, d) = (10 :: time, fb_demo2)) \<and> w \<le> 10 \<and> 10 < w + 60
     \<and> build_cache_key tid th m = build_cache_key uuid1 None None \<and> query_stats tid th m d = Inr (count_stats [])"
  by (rule feedback_stats_fresh [OF reach_fb_demo2 _ fb_demo2_stats]) simp

text \<open>Storing a thumb does not refresh the statistics of its thread or tenant: only the key of the
  message is dropped, so a tenant's statistics can miss a stored thumb until they expire.\<close>

theorem feedback_stats_stale:
  "\<exists>clock db hist s. reach fb_init fb_step (clock, db, hist) \<and>
     get_feedback_stats uuid1 None None 10 db = (Inr s, db) \<and> clock \<le> 10 \<and>
     query_stats uuid1 None None db \<noteq> Inr s"
  using reach_fb_demo2 fb_demo2_stats
  by (intro exI [of _ 1] exI [of _ fb_demo2] exI [of _ "[(0, fb_demo1), (1, fb_demo2)]"]
      exI [of _ "count_stats []"]) (simp add: fb_eval)

text \<open>The cache key leaves a message id out when no thread is given, so a request for one message's
  statistics is answered with the whole tenant's when these are cached.\<close>

theorem feedback_message_filter_ignored:
  assumes "fb_redis_up db" and "cache_get now (build_cache_key tenant_id None None) db = Some (Some s)"
  shows "get_feedback_stats tenant_id None (Some message_id) now db = (Inr s, db)"
  using assms by (simp add: get_feedback_stats_def build_cache_key_def truthy_def)

theorem feedback_message_filter_ignored_witness:
  "fst (get_feedback_stats uuid1 None (Some uuid2) 10 fb_demo2) = Inr (count_stats [])"
  using feedback_message_filter_ignored [of fb_demo2 10 uuid1 "count_stats []" uuid2] by (simp add: fb_eval)

text \<open>The authentication middleware sets no user, so the route stores as the user \<open>anonymous\<close>, which is
  no UUID: every well-formed request fails with status 500 and stores nothing.\<close>

theorem feedback_route_anonymous_fails:
  "rq_user rq = None \<Longrightarrow> \<not> is_ok (fst (record_feedback rq th m ft up new_id now db))
     \<and> snd (record_feedback rq th m ft up new_id now db) = db"
proof -
  assume u: "rq_user rq = None"
  have s: "store_feedback a b ''anonymous'' t f new_id now db = (Inl ValueError, db)" for a b t f
    by (simp add: store_feedback_def tenant_db_context_def store_body_def parse_key_def uuid_anonymous split: option.split)
  show ?thesis using u
    by (simp add: record_feedback_def truthy_def s split: option.split jfield.split)
qed

theorem feedback_route_anonymous_fails_witness:
  "\<not> is_ok (fst (record_feedback \<lparr>rq_tenant = Some uuid1, rq_user = None\<rparr> (JStr uuid2) (JStr uuid3)
      (JStr ''thumbs_up'') True 7 1 fb_demo))"
  using feedback_route_anonymous_fails [of "\<lparr>rq_tenant = Some uuid1, rq_user = None\<rparr>"] by simp

end
