(* ===== verification/Digest.thy ===== *)
theory Digest
  imports PyStd "HOL-Library.Word"
begin

unbundle bit_operations_syntax

text \<open>
  \<open>hashlib.md5\<close> and \<open>hashlib.sha256\<close> on bytes, as the standards define them, and \<open>hexdigest\<close>.  A
  \<open>string\<close> is the byte sequence that \<open>str.encode()\<close> gives.  The tables of constants are in decimal.
\<close>

type_synonym w32 = "32 word"

definition w_bytes_le :: "w32 \<Rightarrow> nat list" where
  "w_bytes_le w = map (\<lambda>i. unat (drop_bit (8 * i) w AND 255)) [0, 1, 2, 3]"

definition w_of_le :: "nat list \<Rightarrow> w32" where
  "w_of_le bs = of_nat (fold (\<lambda>b acc. acc * 256 + b) (rev bs) 0)"

definition w_of_be :: "nat list \<Rightarrow> w32" where
  "w_of_be bs = of_nat (fold (\<lambda>b acc. acc * 256 + b) bs 0)"

text \<open>Padding to whole blocks of 64 bytes; \<open>len8\<close> encodes the bit length in eight bytes.\<close>

definition pad_with :: "(nat \<Rightarrow> nat list) \<Rightarrow> nat list \<Rightarrow> nat list" where
  "pad_with len8 m = m @ [128] @ replicate ((119 - length m mod 64) mod 64) 0 @ len8 (8 * length m)"

definition le8 :: "nat \<Rightarrow> nat list" where
  "le8 n = map (\<lambda>i. n div 256 ^ i mod 256) [0, 1, 2, 3, 4, 5, 6, 7]"

fun chunks :: "nat \<Rightarrow> nat \<Rightarrow> 'a list \<Rightarrow> 'a list list" where
  "chunks 0 n xs = []"
| "chunks (Suc k) n xs = take n xs # chunks k n (drop n xs)"

definition blocks :: "nat list \<Rightarrow> nat list list" where
  "blocks m = chunks (length m div 64) 64 m"

section \<open>MD5\<close>

definition md5_k :: "nat list" where
  "md5_k = [
     3614090360, 3905402710, 606105819, 3250441966, 4118548399, 1200080426, 2821735955, 4249261313,
     1770035416, 2336552879, 4294925233, 2304563134, 1804603682, 4254626195, 2792965006, 1236535329,
     4129170786, 3225465664, 643717713, 3921069994, 3593408605, 38016083, 3634488961, 3889429448,
     568446438, 3275163606, 4107603335, 1163531501, 2850285829, 4243563512, 1735328473, 2368359562,
     4294588738, 2272392833, 1839030562, 4259657740, 2763975236, 1272893353, 4139469664, 3200236656,
     681279174, 3936430074, 3572445317, 76029189, 3654602809, 3873151461, 530742520, 3299628645,
     4096336452, 1126891415, 2878612391, 4237533241, 1700485571, 2399980690, 4293915773, 2240044497,
     1873313359, 4264355552, 2734768916, 1309151649, 4149444226, 3174756917, 718787259, 3951481745]"

definition md5_s :: "nat \<Rightarrow> nat" where
  "md5_s i = (if i < 16 then [7, 12, 17, 22] else if i < 32 then [5, 9, 14, 20]
     else if i < 48 then [4, 11, 16, 23] else [6, 10, 15, 21]) ! (i mod 4)"

definition md5_round :: "w32 list \<Rightarrow> nat \<Rightarrow> w32 \<times> w32 \<times> w32 \<times> w32 \<Rightarrow> w32 \<times> w32 \<times> w32 \<times> w32" where
  "md5_round ms i st = (case st of (a, b, c, d) \<Rightarrow>
     let (f, g) =
       (if i < 16 then ((b AND c) OR (NOT b AND d), i)
        else if i < 32 then ((d AND b) OR (NOT d AND c), (5 * i + 1) mod 16)
        else if i < 48 then (b XOR c XOR d, (3 * i + 5) mod 16)
        else (c XOR (b OR NOT d), (7 * i) mod 16))
     in (d, b + word_rotl (md5_s i) (f + a + of_nat (md5_k ! i) + ms ! g), b, c))"

definition md5_block :: "nat list \<Rightarrow> w32 \<times> w32 \<times> w32 \<times> w32 \<Rightarrow> w32 \<times> w32 \<times> w32 \<times> w32" where
  "md5_block blk st =
     (let ms = map w_of_le (chunks 16 4 blk) in
      case (st, fold (md5_round ms) [0..<64] st) of
        ((a, b, c, d), (a', b', c', d')) \<Rightarrow> (a + a', b + b', c + c', d + d'))"

definition md5 :: "nat list \<Rightarrow> nat list" where
  "md5 m = (case fold md5_block (blocks (pad_with le8 m))
       (0x67452301, 0xefcdab89, 0x98badcfe, 0x10325476) of
     (a, b, c, d) \<Rightarrow> concat (map w_bytes_le [a, b, c, d]))"

section \<open>SHA-256\<close>

definition sha_k :: "nat list" where
  "sha_k = [
     1116352408, 1899447441, 3049323471, 3921009573, 961987163, 1508970993, 2453635748, 2870763221,
     3624381080, 310598401, 607225278, 1426881987, 1925078388, 2162078206, 2614888103, 3248222580,
     3835390401, 4022224774, 264347078, 604807628, 770255983, 1249150122, 1555081692, 1996064986,
     2554220882, 2821834349, 2952996808, 3210313671, 3336571891, 3584528711, 113926993, 338241895,
     666307205, 773529912, 1294757372, 1396182291, 1695183700, 1986661051, 2177026350, 2456956037,
     2730485921, 2820302411, 3259730800, 3345764771, 3516065817, 3600352804, 4094571909, 275423344,
     430227734, 506948616, 659060556, 883997877, 958139571, 1322822218, 1537002063, 1747873779,
     1955562222, 2024104815, 2227730452, 2361852424, 2428436474, 2756734187, 3204031479, 3329325298]"

fun sha_schedule :: "nat \<Rightarrow> w32 list \<Rightarrow> w32 list" where \<comment> \<open>the words, the newest first\<close>
  "sha_schedule 0 ws = ws"
| "sha_schedule (Suc k) ws =
     (let s0 = (\<lambda>w :: w32. word_rotr 7 w XOR word_rotr 18 w XOR drop_bit 3 w);
          s1 = (\<lambda>w :: w32. word_rotr 17 w XOR word_rotr 19 w XOR drop_bit 10 w)
      in sha_schedule k ((ws ! 15 + s0 (ws ! 14) + ws ! 6 + s1 (ws ! 1)) # ws))"

definition sha_round :: "w32 \<times> nat \<Rightarrow> w32 list \<Rightarrow> w32 list" where
  "sha_round wk st = (case (wk, st) of
     ((w, k), [a, b, c, d, e, f, g, h]) \<Rightarrow>
       let s1 = word_rotr 6 e XOR word_rotr 11 e XOR word_rotr 25 e;
           ch = (e AND f) XOR (NOT e AND g);
           t1 = h + s1 + ch + of_nat k + w;
           s0 = word_rotr 2 a XOR word_rotr 13 a XOR word_rotr 22 a;
           maj = (a AND b) XOR (a AND c) XOR (b AND c)
       in [t1 + s0 + maj, a, b, c, d + t1, e, f, g]
   | _ \<Rightarrow> st)"

definition sha_block :: "nat list \<Rightarrow> w32 list \<Rightarrow> w32 list" where
  "sha_block blk st =
     (let ws = rev (sha_schedule 48 (rev (map w_of_be (chunks 16 4 blk))))
      in map2 (+) st (fold sha_round (zip ws sha_k) st))"

definition sha256 :: "nat list \<Rightarrow> nat list" where
  "sha256 m = concat (map (rev \<circ> w_bytes_le) (fold sha_block (blocks (pad_with (rev \<circ> le8) m))
     [1779033703, 3144134277, 1013904242, 2773480762, 1359893119, 2600822924, 528734635, 1541459225]))"

section \<open>Hexadecimal text\<close>

definition hex_char :: "nat \<Rightarrow> char" where
  "hex_char n = (if n < 10 then char_of (48 + n) else char_of (87 + n))"

definition hexdigest :: "nat list \<Rightarrow> string" where
  "hexdigest bs = concat (map (\<lambda>b. [hex_char (b div 16), hex_char (b mod 16)]) bs)"

definition bytes_of :: "string \<Rightarrow> nat list" where
  "bytes_of s = map of_char s"

definition md5_hex :: "string \<Rightarrow> string" where
  "md5_hex s = hexdigest (md5 (bytes_of s))"

definition sha256_hex :: "string \<Rightarrow> string" where
  "sha256_hex s = hexdigest (sha256 (bytes_of s))"

lemma length_chunks [simp]: "length (chunks k n xs) = k"
  by (induction k arbitrary: xs) auto

lemma length_hexdigest [simp]: "length (hexdigest bs) = 2 * length bs"
  by (induction bs) (auto simp: hexdigest_def)

lemma length_md5_hex: "length (md5_hex s) = 32"
  by (simp add: md5_hex_def md5_def w_bytes_le_def split: prod.split)

end
