(* ===== verification/Experiment.thy ===== *)
theory Experiment
  imports Db Digest
begin

text \<open>
  A/B tests: \<^verbatim>\<open>chat_service/services/experiment.py\<close>, the routes of
  \<^verbatim>\<open>chat_service/routes/experiment.py\<close> and the traffic splitting of
  \<^verbatim>\<open>api_gateway/middleware/experiment.py\<close>.  No migration creates the two tables; they are modelled
  with the columns the statements name and with \<open>id\<close> as primary key.  The column \<open>variants\<close> holds
  the text of \<open>json.dumps\<close>; what reading it back gives is up to the database driver (\<open>jcol\<close>).
\<close>

section \<open>Data\<close>

record variant =
  v_id :: string
  v_weight :: int

text \<open>An object of the request's list, whose two keys may be missing.\<close>

record raw_variant =
  rv_id :: "string option"
  rv_weight :: "int option"

record exp_obj =
  xp_id :: nat
  xp_name :: string
  xp_type :: string
  xp_variants :: "variant list"
  xp_metric :: string
  xp_status :: string
  xp_tenant :: "string option"

record exp_row =
  er_id :: nat
  er_name :: string
  er_type :: string
  er_variants :: string
  er_metric :: string
  er_status :: string
  er_tenant :: nat
  er_created :: time
  er_updated :: time

record metric_row =
  xm_experiment :: nat
  xm_variant :: string
  xm_metric :: string
  xm_value :: real
  xm_tenant :: nat
  xm_created :: time

record exp_db =
  exp_rows :: "exp_row list"
  exp_metrics :: "metric_row list"

definition EXPERIMENT_STATUSES :: "string list" where
  "EXPERIMENT_STATUSES = [''draft'', ''running'', ''paused'', ''completed'']"

section \<open>The variants column\<close>

abbreviation asc :: "nat \<Rightarrow> char" where "asc \<equiv> char_of"

definition json_char :: "char \<Rightarrow> string" where
  "json_char c = (let n = of_char c :: nat in
     if n = 34 then [asc 92, asc 34] else if n = 92 then [asc 92, asc 92]
     else if n = 10 then asc 92 # ''n'' else if n = 13 then asc 92 # ''r''
     else if n = 9 then asc 92 # ''t'' else if n = 8 then asc 92 # ''b''
     else if n = 12 then asc 92 # ''f''
     else if n < 32 \<or> n > 126 then asc 92 # ''u00'' @ [hex_char (n div 16), hex_char (n mod 16)]
     else [c])"

definition json_text :: "string \<Rightarrow> string" where
  "json_text s = asc 34 # concat (map json_char s) @ [asc 34]"

definition json_variant :: "raw_variant \<Rightarrow> string" where
  "json_variant v = ''{'' @ py_join '', ''
     ((case rv_id v of None \<Rightarrow> [] | Some s \<Rightarrow> [json_text ''id'' @ '': '' @ json_text s]) @
      (case rv_weight v of None \<Rightarrow> [] | Some w \<Rightarrow> [json_text ''weight'' @ '': '' @ show_int w])) @ ''}''"

definition dumps_variants :: "raw_variant list \<Rightarrow> string" where
  "dumps_variants vs = ''['' @ py_join '', '' (map json_variant vs) @ '']''"

lemma dumps_nonempty [simp]: "dumps_variants vs \<noteq> []"
  by (simp add: dumps_variants_def)

text \<open>
  What the driver returns for the column: the text itself, as asyncpg does for json and jsonb, or
  the decoded list, where a codec is registered.  The loop over the value subscripts each item with
  \<open>"id"\<close>: on the characters of a text that raises \<open>TypeError\<close>.
\<close>

datatype jcol = JText string | JRows "raw_variant list"

fun variants_of :: "raw_variant list \<Rightarrow> exn + variant list" where
  "variants_of [] = Inr []"
| "variants_of (r # rs) =
     (case (rv_id r, rv_weight r) of
        (Some i, Some w) \<Rightarrow> (case variants_of rs of Inl e \<Rightarrow> Inl e | Inr vs \<Rightarrow> Inr (\<lparr>v_id = i, v_weight = w\<rparr> # vs))
      | _ \<Rightarrow> Inl KeyError)"

fun read_variants :: "jcol \<Rightarrow> exn + variant list" where
  "read_variants (JText s) = (if s = [] then Inr [] else Inl TypeError)"
| "read_variants (JRows rs) = variants_of rs"

section \<open>Service operations\<close>

definition create_experiment ::
  "string \<Rightarrow> string \<Rightarrow> raw_variant list \<Rightarrow> string \<Rightarrow> string \<Rightarrow> nat \<Rightarrow> time \<Rightarrow> exp_db \<Rightarrow> (exn + exp_obj) \<times> exp_db" where
  "create_experiment name ty raw metric tenant_id new_id now db =
     (case variants_of raw of
        Inl e \<Rightarrow> (Inl e, db)
      | Inr vs \<Rightarrow> tenant_db_context tenant_id (\<lambda>t db.
          if new_id \<in> er_id ` set (exp_rows db) then (Inl (DbExn UniqueViolation), db)
          else (Inr \<lparr>xp_id = new_id, xp_name = name, xp_type = ty, xp_variants = vs, xp_metric = metric,
                     xp_status = ''draft'', xp_tenant = Some tenant_id\<rparr>,
                db\<lparr>exp_rows := exp_rows db @
                  [\<lparr>er_id = new_id, er_name = name, er_type = ty, er_variants = dumps_variants raw,
                    er_metric = metric, er_status = ''draft'', er_tenant = t, er_created = now,
                    er_updated = now\<rparr>]\<rparr>)) db)"

definition exp_of_row :: "(string \<Rightarrow> jcol) \<Rightarrow> exp_row \<Rightarrow> exn + exp_obj" where
  "exp_of_row codec r =
     (case read_variants (codec (er_variants r)) of
        Inl e \<Rightarrow> Inl e
      | Inr vs \<Rightarrow> Inr \<lparr>xp_id = er_id r, xp_name = er_name r, xp_type = er_type r, xp_variants = vs,
                       xp_metric = er_metric r, xp_status = er_status r, xp_tenant = None\<rparr>)"

definition get_experiment :: "(string \<Rightarrow> jcol) \<Rightarrow> string \<Rightarrow> string \<Rightarrow> exp_db \<Rightarrow> exn + exp_obj option" where
  "get_experiment codec experiment_id tenant_id db =
     (case uuid_parse tenant_id of
        None \<Rightarrow> Inl ValueError
      | Some t \<Rightarrow>
        (case uuid_parse experiment_id of
           None \<Rightarrow> Inl ValueError
         | Some i \<Rightarrow>
           (case fetchrow (\<lambda>r. er_id r = i \<and> er_tenant r = t) (exp_rows db) of
              None \<Rightarrow> Inr None
            | Some r \<Rightarrow> (case exp_of_row codec r of Inl e \<Rightarrow> Inl e | Inr x \<Rightarrow> Inr (Some x)))))"

fun exps_of_rows :: "(string \<Rightarrow> jcol) \<Rightarrow> exp_row list \<Rightarrow> exn + exp_obj list" where
  "exps_of_rows codec [] = Inr []"
| "exps_of_rows codec (r # rs) =
     (case exp_of_row codec r of
        Inl e \<Rightarrow> Inl e
      | Inr x \<Rightarrow> (case exps_of_rows codec rs of Inl e \<Rightarrow> Inl e | Inr xs \<Rightarrow> Inr (x # xs)))"

definition list_experiments :: "(string \<Rightarrow> jcol) \<Rightarrow> string \<Rightarrow> string option \<Rightarrow> exp_db \<Rightarrow> exn + exp_obj list" where
  "list_experiments codec tenant_id status db =
     (case uuid_parse tenant_id of
        None \<Rightarrow> Inl ValueError
      | Some t \<Rightarrow>
        exps_of_rows codec (sort_desc er_created (sql_select
          (\<lambda>r. er_tenant r = t \<and> (status = None \<or> status = Some [] \<or> status = Some (er_status r))) (exp_rows db))))"

definition update_experiment_status ::
  "(string \<Rightarrow> jcol) \<Rightarrow> string \<Rightarrow> string \<Rightarrow> string \<Rightarrow> time \<Rightarrow> exp_db \<Rightarrow> (exn + exp_obj option) \<times> exp_db" where
  "update_experiment_status codec experiment_id status tenant_id now db =
     (if status \<notin> set EXPERIMENT_STATUSES then (Inl ValueError, db)
      else case tenant_db_context tenant_id (\<lambda>t db.
          case uuid_parse experiment_id of
            None \<Rightarrow> (Inl ValueError, db)
          | Some i \<Rightarrow> (Inr (), db\<lparr>exp_rows := sql_update (\<lambda>r. er_id r = i \<and> er_tenant r = t)
              (\<lambda>r. r\<lparr>er_status := status, er_updated := now\<rparr>) (exp_rows db)\<rparr>)) db of
        (Inl e, db') \<Rightarrow> (Inl e, db')
      | (Inr _, db') \<Rightarrow> (get_experiment codec experiment_id tenant_id db', db'))"

definition delete_experiment :: "string \<Rightarrow> string \<Rightarrow> exp_db \<Rightarrow> (exn + bool) \<times> exp_db" where
  "delete_experiment experiment_id tenant_id db =
     tenant_db_context tenant_id (\<lambda>t db.
       case uuid_parse experiment_id of
         None \<Rightarrow> (Inl ValueError, db)
       | Some i \<Rightarrow>
           (let p = (\<lambda>r. er_id r = i \<and> er_tenant r = t)
            in (Inr (length (sql_select p (exp_rows db)) = 1), db\<lparr>exp_rows := sql_delete p (exp_rows db)\<rparr>))) db"

definition track_metric ::
  "string \<Rightarrow> string \<Rightarrow> string \<Rightarrow> real \<Rightarrow> string \<Rightarrow> time \<Rightarrow> exp_db \<Rightarrow> (exn + unit) \<times> exp_db" where
  "track_metric experiment_id variant_id metric val tenant_id now db =
     tenant_db_context tenant_id (\<lambda>t db.
       case uuid_parse experiment_id of
         None \<Rightarrow> (Inl ValueError, db)
       | Some i \<Rightarrow> (Inr (), db\<lparr>exp_metrics := exp_metrics db @
           [\<lparr>xm_experiment = i, xm_variant = variant_id, xm_metric = metric, xm_value = val,
             xm_tenant = t, xm_created = now\<rparr>]\<rparr>)) db"

section \<open>Assignment\<close>

definition bucket_of :: "string \<Rightarrow> string \<Rightarrow> int" where
  "bucket_of tenant_id experiment_id =
     (case int_hex (take 8 (md5_hex (tenant_id @ '':'' @ experiment_id))) of
        None \<Rightarrow> 0 | Some h \<Rightarrow> h mod 100)"

fun pick :: "int \<Rightarrow> int \<Rightarrow> variant list \<Rightarrow> string option" where
  "pick bucket cumulative [] = None"
| "pick bucket cumulative (v # vs) =
     (if bucket < cumulative + v_weight v then Some (v_id v) else pick bucket (cumulative + v_weight v) vs)"

definition variant_for :: "int \<Rightarrow> variant list \<Rightarrow> string" where
  "variant_for bucket vs =
     (case pick bucket 0 vs of
        Some i \<Rightarrow> i
      | None \<Rightarrow> (case vs of [] \<Rightarrow> ''control'' | v # _ \<Rightarrow> v_id v))"

definition assign_variant :: "string \<Rightarrow> string \<Rightarrow> variant list \<Rightarrow> string" where
  "assign_variant tenant_id experiment_id vs = variant_for (bucket_of tenant_id experiment_id) vs"

section \<open>Results\<close>

text \<open>
  The groups of the statement's \<open>GROUP BY variant_id, metric\<close>; the order in which the database
  returns them is \<open>arrange\<close>.
\<close>

definition metric_groups :: "metric_row list \<Rightarrow> (string \<times> string \<times> nat \<times> real) list" where
  "metric_groups rows = map (\<lambda>(v, m).
     (let xs = map xm_value (filter (\<lambda>r. xm_variant r = v \<and> xm_metric r = m) rows)
      in (v, m, length xs, sum_list xs / real (length xs))))
     (remdups (map (\<lambda>r. (xm_variant r, xm_metric r)) rows))"

definition variant_stats :: "(string \<times> string \<times> nat \<times> real) list \<Rightarrow> (string \<times> nat \<times> real) list" where
  "variant_stats groups = fold (\<lambda>(v, m, n, a). AList.update v (n, a)) groups []"

definition control_of :: "(string \<times> string \<times> nat \<times> real) list \<Rightarrow> nat \<times> real" where
  "control_of groups = fold (\<lambda>(v, m, n, a) c. if v = ''control'' then (n, a) else c) groups (0, 0)"

definition calculate_significance :: "nat \<Rightarrow> real \<Rightarrow> (string \<times> nat \<times> real) list \<Rightarrow> real" where
  "calculate_significance control_count control_avg stats =
     (if control_count < 30 then 0
      else case find (\<lambda>(v, _). v \<noteq> ''control'') stats of
        None \<Rightarrow> 0
      | Some (_, n, a) \<Rightarrow>
          if n < 30 then 0
          else (let pooled_se = sqrt (1 / real control_count + 1 / real n) in
            if pooled_se = 0 then 0
            else (let z = \<bar>control_avg - a\<bar> / pooled_se in
              if z > 2.576 then 0.99 else if z > 1.96 then 0.95 else if z > 1.645 then 0.90
              else min 0.85 (z / 2))))"

record exp_results =
  xr_id :: string
  xr_status :: string
  xr_results :: "(string \<times> nat \<times> real) list"
  xr_significance :: real

definition get_experiment_results ::
  "(string \<Rightarrow> jcol) \<Rightarrow> ((string \<times> string \<times> nat \<times> real) list \<Rightarrow> (string \<times> string \<times> nat \<times> real) list) \<Rightarrow>
   string \<Rightarrow> string \<Rightarrow> exp_db \<Rightarrow> exn + exp_results option" where
  "get_experiment_results codec arrange experiment_id tenant_id db =
     (case get_experiment codec experiment_id tenant_id db of
        Inl e \<Rightarrow> Inl e
      | Inr None \<Rightarrow> Inr None
      | Inr (Some x) \<Rightarrow>
          (let groups = arrange (metric_groups (sql_select (\<lambda>r. Some (xm_experiment r) = uuid_parse experiment_id)
                           (exp_metrics db)));
               stats = variant_stats groups;
               (n, a) = control_of groups
           in Inr (Some \<lparr>xr_id = experiment_id, xr_status = xp_status x, xr_results = stats,
                xr_significance = (if length stats \<ge> 2 then calculate_significance n a stats else 0)\<rparr>)))"

section \<open>Routes\<close>

definition missing :: "string option \<Rightarrow> bool" where
  "missing s = (s = None \<or> s = Some [])"

text \<open>An exception inside a route's \<open>try\<close> that is no \<open>HTTPException\<close> becomes status 500.\<close>

fun as_500 :: "exn \<Rightarrow> exn" where
  "as_500 (HTTPException n) = HTTPException n"
| "as_500 _ = HTTPException 500"

definition variants_valid :: "variant list \<Rightarrow> bool" where \<comment> \<open>\<open>VariantRequest\<close>\<close>
  "variants_valid vs = (\<forall>v \<in> set vs. 0 \<le> v_weight v \<and> v_weight v \<le> 100)"

definition respond :: "exn + exp_obj \<Rightarrow> exn + exp_obj" where \<comment> \<open>\<open>ExperimentResponse(...)\<close>\<close>
  "respond r = (case r of Inl e \<Rightarrow> Inl (as_500 e)
     | Inr x \<Rightarrow> if variants_valid (xp_variants x) then Inr x else Inl (HTTPException 500))"

definition create_experiment_route ::
  "string option \<Rightarrow> bool \<Rightarrow> string option \<Rightarrow> string option \<Rightarrow> raw_variant list \<Rightarrow> string option \<Rightarrow> nat \<Rightarrow> time \<Rightarrow>
   exp_db \<Rightarrow> (exn + exp_obj) \<times> exp_db" where
  "create_experiment_route tenant service_up name ty raw metric new_id now db =
     (if missing name then (Inl (HTTPException 400), db)
      else if ty \<notin> {Some ''prompt'', Some ''model'', Some ''feature''} then (Inl (HTTPException 400), db)
      else if length raw < 2 then (Inl (HTTPException 400), db)
      else if missing metric then (Inl (HTTPException 400), db)
      else if missing tenant then (Inl (HTTPException 401), db)
      else if \<not> service_up then (Inl (HTTPException 500), db)
      else case create_experiment (the name) (the ty) raw (the metric) (the tenant) new_id now db of
        (r, db') \<Rightarrow> (respond r, db'))"

definition list_experiments_route ::
  "(string \<Rightarrow> jcol) \<Rightarrow> string option \<Rightarrow> bool \<Rightarrow> string option \<Rightarrow> exp_db \<Rightarrow> exn + exp_obj list" where
  "list_experiments_route codec tenant service_up status db =
     (if missing tenant then Inl (HTTPException 401)
      else if \<not> service_up then Inl (HTTPException 500)
      else case list_experiments codec (the tenant) status db of
        Inl e \<Rightarrow> Inl (as_500 e)
      | Inr xs \<Rightarrow> if \<forall>x \<in> set xs. variants_valid (xp_variants x) then Inr xs else Inl (HTTPException 500))"

definition found :: "exn + exp_obj option \<Rightarrow> exn + exp_obj" where
  "found r = (case r of Inl e \<Rightarrow> Inl e | Inr None \<Rightarrow> Inl (HTTPException 404) | Inr (Some x) \<Rightarrow> Inr x)"

definition get_experiment_route ::
  "(string \<Rightarrow> jcol) \<Rightarrow> string option \<Rightarrow> bool \<Rightarrow> string \<Rightarrow> exp_db \<Rightarrow> exn + exp_obj" where
  "get_experiment_route codec tenant service_up experiment_id db =
     (if missing tenant then Inl (HTTPException 401)
      else if uuid_parse experiment_id = None then Inl (HTTPException 400)
      else if \<not> service_up then Inl (HTTPException 500)
      else respond (found (get_experiment codec experiment_id (the tenant) db)))"

definition update_experiment_route ::
  "(string \<Rightarrow> jcol) \<Rightarrow> string option \<Rightarrow> bool \<Rightarrow> string \<Rightarrow> string option \<Rightarrow> time \<Rightarrow> exp_db \<Rightarrow> (exn + exp_obj) \<times> exp_db" where
  "update_experiment_route codec tenant service_up experiment_id status now db =
     (if missing tenant then (Inl (HTTPException 401), db)
      else if \<not> missing status \<and> the status \<notin> set EXPERIMENT_STATUSES then (Inl (HTTPException 400), db)
      else if \<not> service_up then (Inl (HTTPException 500), db)
      else if missing status then (Inl (HTTPException 400), db)
      else case update_experiment_status codec experiment_id (the status) (the tenant) now db of
        (r, db') \<Rightarrow> (respond (found r), db'))"

definition delete_experiment_route ::
  "string option \<Rightarrow> bool \<Rightarrow> string \<Rightarrow> exp_db \<Rightarrow> (exn + unit) \<times> exp_db" where
  "delete_experiment_route tenant service_up experiment_id db =
     (if missing tenant then (Inl (HTTPException 401), db)
      else if \<not> service_up then (Inl (HTTPException 500), db)
      else case delete_experiment experiment_id (the tenant) db of
        (Inl e, db') \<Rightarrow> (Inl (as_500 e), db')
      | (Inr deleted, db') \<Rightarrow> (if deleted then Inr () else Inl (HTTPException 404), db'))"

definition experiment_results_route ::
  "(string \<Rightarrow> jcol) \<Rightarrow> ((string \<times> string \<times> nat \<times> real) list \<Rightarrow> (string \<times> string \<times> nat \<times> real) list) \<Rightarrow>
   string option \<Rightarrow> bool \<Rightarrow> string \<Rightarrow> exp_db \<Rightarrow> exn + exp_results" where
  "experiment_results_route codec arrange tenant service_up experiment_id db =
     (if missing tenant then Inl (HTTPException 401)
      else if \<not> service_up then Inl (HTTPException 500)
      else case get_experiment_results codec arrange experiment_id (the tenant) db of
        Inl e \<Rightarrow> Inl (as_500 e)
      | Inr None \<Rightarrow> Inl (HTTPException 404)
      | Inr (Some r) \<Rightarrow> Inr r)"

section \<open>Middleware\<close>

text \<open>The variant set in the request state and the cookie set on the response.\<close>

definition experiment_dispatch ::
  "string option \<Rightarrow> string option \<Rightarrow> string option \<Rightarrow> variant list option \<Rightarrow> string option \<times> (string \<times> string) option" where
  "experiment_dispatch tenant query header variants =
     (if missing tenant then (None, None)
      else (let eid = (if missing query then header else query) in
        if missing eid then (None, None)
        else case variants of
          None \<Rightarrow> (None, None)
        | Some vs \<Rightarrow> if vs = [] then (None, None)
            else (let v = assign_variant (the tenant) (the eid) vs
                  in (Some v, Some (''experiment_'' @ the eid, v)))))"

definition get_experiment_variant :: "(string \<times> string) list \<Rightarrow> string option \<Rightarrow> string \<Rightarrow> string" where
  "get_experiment_variant cookies state_variant experiment_id =
     (case map_of cookies (''experiment_'' @ experiment_id) of
        Some v \<Rightarrow> if v \<noteq> [] then v else (case state_variant of None \<Rightarrow> ''control'' | Some s \<Rightarrow> s)
      | None \<Rightarrow> (case state_variant of None \<Rightarrow> ''control'' | Some s \<Rightarrow> s))"

section \<open>Lemmas\<close>

lemma pick_split:
  assumes "distinct (map v_id (xs @ v # ys))" and "\<forall>x \<in> set (xs @ v # ys). 0 \<le> v_weight x" and "c \<le> b"
  shows "pick b c (xs @ v # ys) = Some (v_id v) \<longleftrightarrow>
    c + sum_list (map v_weight xs) \<le> b \<and> b < c + sum_list (map v_weight xs) + v_weight v"
  using assms
proof (induction xs arbitrary: c)
  case Nil
  have "pick b c' ys \<noteq> Some (v_id v)" for c'
    using Nil(1) by (induction ys arbitrary: c') auto
  with Nil show ?case by simp
next
  case (Cons x xs)
  show ?case
  proof (cases "b < c + v_weight x")
    case True
    moreover have "0 \<le> sum_list (map v_weight xs)" using Cons.prems(2) by (intro sum_list_nonneg) auto
    ultimately show ?thesis using Cons.prems(1) by auto
  next
    case False
    with Cons.IH [of "c + v_weight x"] Cons.prems show ?thesis by (auto simp: add.assoc)
  qed
qed

lemma pick_None: "\<forall>x \<in> set vs. 0 \<le> v_weight x \<Longrightarrow> c \<le> b \<Longrightarrow>
  pick b c vs = None \<longleftrightarrow> c + sum_list (map v_weight vs) \<le> b"
proof (induction vs arbitrary: c)
  case Nil
  then show ?case by simp
next
  case (Cons v vs)
  have "0 \<le> sum_list (map v_weight vs)" using Cons.prems(1) by (intro sum_list_nonneg) auto
  with Cons show ?case by (auto simp: add.assoc)
qed

lemma pick_mem: "pick b c vs = Some i \<Longrightarrow> i \<in> v_id ` set vs"
  by (induction vs arbitrary: c) (auto split: if_splits)

lemma bucket_range: "0 \<le> bucket_of t e \<and> bucket_of t e < 100"
  by (simp add: bucket_of_def split: option.split)

lemma create_ok:
  assumes "create_experiment name ty raw metric tid new_id now db = (Inr x, db')"
  shows "\<exists>t row. uuid_parse tid = Some t \<and> new_id \<notin> er_id ` set (exp_rows db) \<and>
    exp_rows db' = exp_rows db @ [row] \<and> er_id row = new_id \<and> er_tenant row = t \<and>
    er_name row = name \<and> er_type row = ty \<and> er_metric row = metric \<and> er_status row = ''draft'' \<and>
    er_variants row = dumps_variants raw \<and> variants_of raw = Inr (xp_variants x) \<and>
    x = \<lparr>xp_id = new_id, xp_name = name, xp_type = ty, xp_variants = xp_variants x, xp_metric = metric,
         xp_status = ''draft'', xp_tenant = Some tid\<rparr>"
  using assms by (auto simp: create_experiment_def tenant_context_ok split: sum.splits if_splits)

lemma fetch_created:
  assumes "new_id \<notin> er_id ` set rs" and "er_id row = new_id" and "er_tenant row = t"
  shows "fetchrow (\<lambda>r. er_id r = new_id \<and> er_tenant r = t) (rs @ [row]) = Some row"
proof -
  have "fetchrow (\<lambda>r. er_id r = new_id \<and> er_tenant r = t) rs = None"
    using assms(1) by (auto simp: fetchrow_None)
  with assms(2,3) show ?thesis by (simp add: fetchrow_append)
qed

lemma exps_text_fail:
  "rs \<noteq> [] \<Longrightarrow> \<forall>r \<in> set rs. er_variants r \<noteq> [] \<Longrightarrow> exps_of_rows JText rs = Inl TypeError"
  by (cases rs) (auto simp: exp_of_row_def)

lemma variant_stats_map: "map_of (variant_stats gs) = map_of (rev (map (\<lambda>(v, m, n, a). (v, n, a)) gs))"
proof -
  have "map_of (fold (\<lambda>(v, m, n, a). AList.update v (n, a)) gs acc) =
    map_of acc ++ map_of (rev (map (\<lambda>(v, m, n, a). (v, n, a)) gs))" for acc
    by (induction gs arbitrary: acc) (auto simp: fun_eq_iff map_add_def split: option.splits)
  from this [of "[]"] show ?thesis by (simp add: variant_stats_def)
qed

lemma stats_of_group:
  assumes "distinct (map fst gs)" and "(v, m, n, a) \<in> set gs"
  shows "map_of (variant_stats gs) v = Some (n, a)"
proof -
  let ?l = "map (\<lambda>(v, m, n, a). (v, n, a)) gs"
  have f: "map fst ?l = map fst gs" by (induction gs) auto
  have "(v, n, a) \<in> set (rev ?l)" using assms(2) by force
  moreover have "distinct (map fst (rev ?l))" by (simp only: rev_map [symmetric] f distinct_rev assms(1))
  ultimately show ?thesis unfolding variant_stats_map by (rule map_of_is_SomeI [rotated])
qed

text \<open>One metric for each variant, and a variant's own count and average.\<close>

definition one_metric :: "metric_row list \<Rightarrow> bool" where
  "one_metric rows \<longleftrightarrow> (\<forall>a \<in> set rows. \<forall>b \<in> set rows. xm_variant a = xm_variant b \<longrightarrow> xm_metric a = xm_metric b)"

definition own_stats :: "metric_row list \<Rightarrow> string \<Rightarrow> nat \<times> real" where
  "own_stats rows v = (let vals = map xm_value (filter (\<lambda>r. xm_variant r = v) rows)
     in (length vals, sum_list vals / real (length vals)))"

lemma one_metricD: "one_metric rows \<Longrightarrow> a \<in> set rows \<Longrightarrow> b \<in> set rows \<Longrightarrow> xm_variant a = xm_variant b \<Longrightarrow> xm_metric a = xm_metric b"
  unfolding one_metric_def by blast

lemma distinct_groups:
  assumes "one_metric rows"
  shows "distinct (map fst (metric_groups rows))"
proof -
  let ?key = "\<lambda>r. (xm_variant r, xm_metric r)"
  have keys: "map fst (metric_groups rows) = map fst (remdups (map ?key rows))"
    by (auto simp: metric_groups_def Let_def)
  have "inj_on fst (set (map ?key rows))"
  proof (rule inj_onI)
    fix p q assume "p \<in> set (map ?key rows)" "q \<in> set (map ?key rows)" and e: "fst p = fst q"
    then obtain a b where "a \<in> set rows" "b \<in> set rows" "p = ?key a" "q = ?key b" unfolding set_map by blast
    with one_metricD [OF assms, of a b] e show "p = q" by simp
  qed
  then show ?thesis unfolding keys by (simp add: distinct_map)
qed

lemma own_group:
  assumes "one_metric rows" and "x \<in> set rows"
  shows "(xm_variant x, xm_metric x, own_stats rows (xm_variant x)) \<in> set (metric_groups rows)"
proof -
  have f: "filter (\<lambda>r. xm_variant r = xm_variant x \<and> xm_metric r = xm_metric x) rows =
      filter (\<lambda>r. xm_variant r = xm_variant x) rows"
  proof (rule filter_cong [OF refl])
    fix y assume "y \<in> set rows"
    then show "(xm_variant y = xm_variant x \<and> xm_metric y = xm_metric x) = (xm_variant y = xm_variant x)"
      using one_metricD [OF assms(1) _ assms(2), of y] by blast
  qed
  have "(xm_variant x, xm_metric x) \<in> set (remdups (map (\<lambda>r. (xm_variant r, xm_metric r)) rows))"
    using assms(2) by simp
  then show ?thesis unfolding metric_groups_def set_map
    by (rule rev_image_eqI) (simp add: Let_def own_stats_def f)
qed

lemma arranged_stats:
  assumes "one_metric rows" and "x \<in> set rows" and "\<And>gs. mset (arrange gs) = mset gs"
  shows "map_of (variant_stats (arrange (metric_groups rows))) (xm_variant x) = Some (own_stats rows (xm_variant x))"
proof -
  let ?gs = "metric_groups rows"
  have set: "set (arrange ?gs) = set ?gs" using assms(3) by (metis set_mset_mset)
  have "mset (map fst (arrange ?gs)) = mset (map fst ?gs)" using assms(3) [of ?gs] by simp
  then have "distinct (map fst (arrange ?gs))"
    using distinct_groups [OF assms(1)] mset_eq_imp_distinct_iff by blast
  then show ?thesis using own_group [OF assms(1,2)] set
    by (cases "own_stats rows (xm_variant x)") (auto intro: stats_of_group)
qed

section \<open>Properties\<close>

text \<open>The traffic split is exact.  With non-negative weights that sum to 100 and distinct variant ids,
  each variant is chosen for exactly as many of the 100 buckets as its weight says, and every bucket
  gets a variant of the list.\<close>

theorem assign_variant_shares:
  assumes "distinct (map v_id vs)" and "\<forall>v \<in> set vs. 0 \<le> v_weight v"
    and "sum_list (map v_weight vs) = 100" and "v \<in> set vs"
  shows "int (card {b. 0 \<le> b \<and> b < 100 \<and> variant_for b vs = v_id v}) = v_weight v
    \<and> assign_variant tenant_id experiment_id vs \<in> v_id ` set vs"
proof
  obtain xs ys where vs: "vs = xs @ v # ys" using assms(4) by (auto simp: in_set_conv_decomp)
  let ?p = "sum_list (map v_weight xs)"
  have nn: "0 \<le> ?p" "0 \<le> sum_list (map v_weight ys)" "0 \<le> v_weight v"
    using assms(2) vs by (auto intro!: sum_list_nonneg)
  have tot: "?p + v_weight v + sum_list (map v_weight ys) = 100" using assms(3) vs by simp
  have some: "\<exists>i. pick b 0 vs = Some i" if "0 \<le> b" "b < 100" for b
    using pick_None [OF assms(2), of 0 b] that assms(3) by (cases "pick b 0 vs") auto
  have "variant_for b vs = v_id v \<longleftrightarrow> ?p \<le> b \<and> b < ?p + v_weight v" if "0 \<le> b" "b < 100" for b
    using pick_split [of xs v ys 0 b] some [OF that] assms(1,2) that(1) vs
    by (auto simp: variant_for_def)
  then have "{b. 0 \<le> b \<and> b < 100 \<and> variant_for b vs = v_id v} = {?p ..< ?p + v_weight v}"
    using nn tot by auto
  then show "int (card {b. 0 \<le> b \<and> b < 100 \<and> variant_for b vs = v_id v}) = v_weight v"
    using nn by simp
  show "assign_variant tenant_id experiment_id vs \<in> v_id ` set vs"
    using some [of "bucket_of tenant_id experiment_id"] bucket_range pick_mem
    by (fastforce simp: assign_variant_def variant_for_def)
qed

theorem assign_variant_shares_witness:
  "int (card {b. 0 \<le> b \<and> b < 100 \<and>
     variant_for b [\<lparr>v_id = ''control'', v_weight = 30\<rparr>, \<lparr>v_id = ''new'', v_weight = 70\<rparr>] = ''new''}) = 70"
  using assign_variant_shares [of "[\<lparr>v_id = ''control'', v_weight = 30\<rparr>, \<lparr>v_id = ''new'', v_weight = 70\<rparr>]"
      "\<lparr>v_id = ''new'', v_weight = 70\<rparr>"] by simp

text \<open>An experiment reads back as it was created, where the driver decodes the variants column: the
  same name, type, metric and variants, in status draft (but without its tenant).\<close>

theorem experiment_create_get:
  assumes "create_experiment name ty raw metric tenant_id new_id now db = (Inr x, db')"
    and "uuid_parse experiment_id = Some new_id" and "codec (dumps_variants raw) = JRows raw"
  shows "get_experiment codec experiment_id tenant_id db' = Inr (Some (x\<lparr>xp_tenant := None\<rparr>)) \<and> xp_status x = ''draft''"
proof -
  obtain t row where c: "uuid_parse tenant_id = Some t" "new_id \<notin> er_id ` set (exp_rows db)"
      "exp_rows db' = exp_rows db @ [row]" "er_id row = new_id" "er_tenant row = t"
      "er_name row = name" "er_type row = ty" "er_metric row = metric" "er_status row = ''draft''"
      "er_variants row = dumps_variants raw" "variants_of raw = Inr (xp_variants x)"
    and x: "x = \<lparr>xp_id = new_id, xp_name = name, xp_type = ty, xp_variants = xp_variants x, xp_metric = metric,
         xp_status = ''draft'', xp_tenant = Some tenant_id\<rparr>"
    using create_ok [OF assms(1)] by blast
  have "get_experiment codec experiment_id tenant_id db' = Inr (Some \<lparr>xp_id = new_id, xp_name = name,
      xp_type = ty, xp_variants = xp_variants x, xp_metric = metric, xp_status = ''draft'', xp_tenant = None\<rparr>)"
    using c assms(2,3) fetch_created [OF c(2,4,5)] by (simp add: get_experiment_def exp_of_row_def)
  then show ?thesis by (subst x, subst (2) x) simp
qed

definition ab_raw :: "raw_variant list" where
  "ab_raw = [\<lparr>rv_id = Some ''control'', rv_weight = Some 30\<rparr>, \<lparr>rv_id = Some ''new'', rv_weight = Some 70\<rparr>]"

definition exp_demo :: exp_db where
  "exp_demo = snd (create_experiment ''e'' ''prompt'' ab_raw ''m'' uuid1 2 0 \<lparr>exp_rows = [], exp_metrics = []\<rparr>)"

lemma exp_demo_created:
  "create_experiment ''e'' ''prompt'' ab_raw ''m'' uuid1 2 0 \<lparr>exp_rows = [], exp_metrics = []\<rparr> =
     (Inr \<lparr>xp_id = 2, xp_name = ''e'', xp_type = ''prompt'',
        xp_variants = [\<lparr>v_id = ''control'', v_weight = 30\<rparr>, \<lparr>v_id = ''new'', v_weight = 70\<rparr>],
        xp_metric = ''m'', xp_status = ''draft'', xp_tenant = Some uuid1\<rparr>, exp_demo)"
  by (simp add: exp_demo_def create_experiment_def ab_raw_def tenant_db_context_def)

theorem experiment_create_get_witness:
  "\<exists>x. get_experiment (\<lambda>_. JRows ab_raw) uuid2 uuid1 exp_demo = Inr (Some x) \<and> xp_status x = ''draft''"
  using experiment_create_get [OF exp_demo_created, of uuid2 "\<lambda>_. JRows ab_raw"] by simp

text \<open>With a driver that returns the column's text, as asyncpg does, no stored experiment can be read:
  fetching one, and every listing that contains one, raises \<open>TypeError\<close>, so its routes answer 500.\<close>

theorem experiment_text_unreadable:
  assumes "create_experiment name ty raw metric tenant_id new_id now db = (Inr x, db')"
    and "uuid_parse experiment_id = Some new_id" and "\<forall>r \<in> set (exp_rows db). er_variants r \<noteq> []"
  shows "get_experiment JText experiment_id tenant_id db' = Inl TypeError
    \<and> list_experiments JText tenant_id None db' = Inl TypeError
    \<and> get_experiment_route JText (Some tenant_id) True experiment_id db' = Inl (HTTPException 500)"
proof -
  obtain t row where c: "uuid_parse tenant_id = Some t" "new_id \<notin> er_id ` set (exp_rows db)"
      "exp_rows db' = exp_rows db @ [row]" "er_id row = new_id" "er_tenant row = t"
      "er_variants row = dumps_variants raw"
    using create_ok [OF assms(1)] by blast
  have get: "get_experiment JText experiment_id tenant_id db' = Inl TypeError"
    using c assms(2) fetch_created [OF c(2,4,5)] by (simp add: get_experiment_def exp_of_row_def)
  let ?rs = "sort_desc er_created (sql_select (\<lambda>r. er_tenant r = t) (exp_rows db'))"
  have "row \<in> set ?rs" using c by simp
  then have "?rs \<noteq> []" by force
  moreover have "er_variants row \<noteq> []" unfolding c(6) by (rule dumps_nonempty)
  then have "\<forall>r \<in> set ?rs. er_variants r \<noteq> []" using c(3) assms(3) by auto
  ultimately have "exps_of_rows JText ?rs = Inl TypeError" by (rule exps_text_fail)
  then have "list_experiments JText tenant_id None db' = Inl TypeError" using c(1) by (simp add: list_experiments_def)
  moreover have "tenant_id \<noteq> []" using c(1) by (cases tenant_id) (auto simp: uuid_parse_Nil)
  ultimately show ?thesis
    using get assms(2) by (simp add: get_experiment_route_def missing_def found_def respond_def)
qed

theorem experiment_text_unreadable_witness:
  "get_experiment JText uuid2 uuid1 exp_demo = Inl TypeError"
  using experiment_text_unreadable [OF exp_demo_created, of uuid2] by simp

text \<open>Creating, updating and deleting experiments changes no row of another tenant, with or without
  row-level security.\<close>

theorem experiment_tenant_isolation:
  assumes "uuid_parse tenant_id = Some t"
    and "db' = snd (create_experiment name ty raw metric tenant_id new_id now db)
       \<or> db' = snd (update_experiment_status codec experiment_id status tenant_id now db)
       \<or> db' = snd (delete_experiment experiment_id tenant_id db)"
  shows "filter (\<lambda>r. er_tenant r \<noteq> t) (exp_rows db') = filter (\<lambda>r. er_tenant r \<noteq> t) (exp_rows db)"
proof -
  have upd: "filter (\<lambda>r. er_tenant r \<noteq> t) (sql_update (\<lambda>r. er_id r = i \<and> er_tenant r = t)
      (\<lambda>r. r\<lparr>er_status := status, er_updated := now\<rparr>) rs) = filter (\<lambda>r. er_tenant r \<noteq> t) rs" for i rs
    by (induction rs) auto
  have del: "filter (\<lambda>r. er_tenant r \<noteq> t) (sql_delete (\<lambda>r. er_id r = i \<and> er_tenant r = t) rs)
      = filter (\<lambda>r. er_tenant r \<noteq> t) rs" for i rs
    by (induction rs) auto
  show ?thesis using assms(2)
  proof (elim disjE)
    assume "db' = snd (create_experiment name ty raw metric tenant_id new_id now db)"
    then show ?thesis using assms(1)
      by (auto simp: create_experiment_def tenant_db_context_def split: sum.splits)
  next
    assume "db' = snd (update_experiment_status codec experiment_id status tenant_id now db)"
    then show ?thesis using assms(1) upd
      by (auto simp: update_experiment_status_def tenant_db_context_def split: option.splits)
  next
    assume "db' = snd (delete_experiment experiment_id tenant_id db)"
    then show ?thesis using assms(1) del
      by (auto simp: delete_experiment_def tenant_db_context_def Let_def split: option.splits)
  qed
qed

theorem experiment_tenant_isolation_witness:
  "filter (\<lambda>r. er_tenant r \<noteq> 3) (exp_rows (snd (delete_experiment uuid2 uuid3 exp_demo))) =
   filter (\<lambda>r. er_tenant r \<noteq> 3) (exp_rows exp_demo)"
  by (rule experiment_tenant_isolation [OF uuid_demo(3) disjI2 [OF disjI2 [OF refl]]])

text \<open>The reported significance lies between 0 and 0.99, and is 0 unless both the control group and the
  first other group have at least 30 values.\<close>

theorem significance_bounds:
  "0 \<le> calculate_significance n a stats \<and> calculate_significance n a stats \<le> 0.99 \<and>
   (calculate_significance n a stats \<noteq> 0 \<longrightarrow>
      30 \<le> n \<and> (\<exists>v m b. find (\<lambda>(v, _). v \<noteq> ''control'') stats = Some (v, m, b) \<and> 30 \<le> m))"
proof (cases "n < 30 \<or> find (\<lambda>(v, _). v \<noteq> ''control'') stats = None")
  case True
  then show ?thesis by (auto simp: calculate_significance_def)
next
  case False
  then obtain v m b where f: "find (\<lambda>(v, _). v \<noteq> ''control'') stats = Some (v, m, b)" by auto
  define z where "z = \<bar>a - b\<bar> / sqrt (1 / real n + 1 / real m)"
  have "0 \<le> z" by (simp add: z_def)
  then show ?thesis using False f
    by (simp add: calculate_significance_def Let_def z_def [symmetric])
qed

text \<open>As long as each variant was measured by one metric, the results give every variant its own count
  and average, in whatever order the database returns the groups.\<close>

theorem experiment_results_stats:
  assumes "get_experiment_results codec arrange experiment_id tenant_id db = Inr (Some r)"
    and "uuid_parse experiment_id = Some i"
    and "\<And>gs. mset (arrange gs) = mset gs"
    and "\<forall>x \<in> set (exp_metrics db). \<forall>y \<in> set (exp_metrics db). xm_experiment x = i \<and> xm_experiment y = i
           \<and> xm_variant x = xm_variant y \<longrightarrow> xm_metric x = xm_metric y"
    and "x \<in> set (exp_metrics db)" and "xm_experiment x = i"
  shows "map_of (xr_results r) (xm_variant x) =
    (let vals = map xm_value (filter (\<lambda>y. xm_experiment y = i \<and> xm_variant y = xm_variant x) (exp_metrics db))
     in Some (length vals, sum_list vals / real (length vals)))"
proof -
  define rows where "rows = sql_select (\<lambda>r. Some (xm_experiment r) = uuid_parse experiment_id) (exp_metrics db)"
  have rows: "rows = filter (\<lambda>y. xm_experiment y = i) (exp_metrics db)"
    using assms(2) by (simp add: rows_def sql_select_def)
  have r: "xr_results r = variant_stats (arrange (metric_groups rows))"
    using assms(1) by (auto simp: get_experiment_results_def rows_def Let_def split: sum.splits option.splits prod.splits)
  have one: "one_metric rows" using assms(4) unfolding one_metric_def rows by auto
  have x: "x \<in> set rows" using assms(5,6) by (simp add: rows)
  have "map_of (variant_stats (arrange (metric_groups rows))) (xm_variant x) = Some (own_stats rows (xm_variant x))"
    by (rule arranged_stats [OF one x assms(3)])
  then show ?thesis by (simp add: r own_stats_def rows Let_def conj_commute)
qed

definition exp_demo_metrics :: exp_db where
  "exp_demo_metrics = snd (track_metric uuid2 ''control'' ''m'' 5 uuid1 1 exp_demo)"

lemma exp_demo_metrics_rows:
  "exp_metrics exp_demo_metrics = [\<lparr>xm_experiment = 2, xm_variant = ''control'', xm_metric = ''m'', xm_value = 5,
     xm_tenant = 1, xm_created = 1\<rparr>]"
  "exp_rows exp_demo_metrics = exp_rows exp_demo"
  by (simp_all add: exp_demo_metrics_def exp_demo_def track_metric_def create_experiment_def ab_raw_def
      tenant_db_context_def)

theorem experiment_results_stats_witness:
  "\<exists>r. get_experiment_results (\<lambda>_. JRows ab_raw) rev uuid2 uuid1 exp_demo_metrics = Inr (Some r) \<and>
     map_of (xr_results r) ''control'' = Some (1, 5)"
proof -
  let ?c = "\<lambda>_ :: string. JRows ab_raw"
  obtain y where "get_experiment ?c uuid2 uuid1 exp_demo = Inr (Some y)"
    by (simp add: exp_demo_def create_experiment_def ab_raw_def tenant_db_context_def get_experiment_def exp_of_row_def)
  then have g: "get_experiment ?c uuid2 uuid1 exp_demo_metrics = Inr (Some y)"
    by (simp add: get_experiment_def exp_demo_metrics_rows)
  then have "\<exists>r. get_experiment_results ?c rev uuid2 uuid1 exp_demo_metrics = Inr (Some r)"
    by (simp add: get_experiment_results_def Let_def split: prod.split)
  then obtain r where r: "get_experiment_results ?c rev uuid2 uuid1 exp_demo_metrics = Inr (Some r)" ..
  show ?thesis
    using experiment_results_stats [OF r, of 2 "hd (exp_metrics exp_demo_metrics)"] r
    by (simp add: exp_demo_metrics_rows)
qed

text \<open>When a variant is measured by two metrics its results are those of whichever group the database
  returns last: the other metric is lost, and the two orders of the same groups differ.\<close>

theorem experiment_results_overwritten:
  "\<exists>gs. mset (rev gs) = mset gs \<and> variant_stats gs \<noteq> variant_stats (rev gs) \<and>
     gs = metric_groups [\<lparr>xm_experiment = 2, xm_variant = ''a'', xm_metric = ''m'', xm_value = 5, xm_tenant = 1, xm_created = 1\<rparr>,
                         \<lparr>xm_experiment = 2, xm_variant = ''a'', xm_metric = ''k'', xm_value = 7, xm_tenant = 1, xm_created = 1\<rparr>]"
  by (simp add: metric_groups_def variant_stats_def)

text \<open>The create route validates the weights only when it builds its response, after the row is
  committed: a weight over 100 is answered with status 500 while the experiment is stored.\<close>

theorem experiment_invalid_weight_stored:
  assumes "uuid_parse tenant_id = Some t" and "new_id \<notin> er_id ` set (exp_rows db)"
    and "variants_of raw = Inr vs" and "\<not> variants_valid vs" and "2 \<le> length raw"
    and "name \<noteq> []" and "metric \<noteq> []" and "ty \<in> {''prompt'', ''model'', ''feature''}"
    and "create_experiment_route (Some tenant_id) True (Some name) (Some ty) raw (Some metric) new_id now db = (r, db')"
  shows "r = Inl (HTTPException 500) \<and> length (exp_rows db') = Suc (length (exp_rows db))"
proof -
  have "tenant_id \<noteq> []" using assms(1) by (cases tenant_id) (auto simp: uuid_parse_Nil)
  with assms show ?thesis
    by (auto simp: create_experiment_route_def missing_def create_experiment_def tenant_db_context_def respond_def)
qed

theorem experiment_invalid_weight_stored_witness:
  "length (exp_rows (snd (create_experiment_route (Some uuid1) True (Some ''e'') (Some ''prompt'')
     [\<lparr>rv_id = Some ''a'', rv_weight = Some 50\<rparr>, \<lparr>rv_id = Some ''b'', rv_weight = Some 150\<rparr>] (Some ''m'') 3 0
     exp_demo))) = Suc (length (exp_rows exp_demo))"
proof -
  have n: "3 \<notin> er_id ` set (exp_rows exp_demo)"
    by (simp add: exp_demo_def create_experiment_def ab_raw_def tenant_db_context_def)
  show ?thesis
    by (rule experiment_invalid_weight_stored [where vs = "[\<lparr>v_id = ''a'', v_weight = 50\<rparr>, \<lparr>v_id = ''b'', v_weight = 150\<rparr>]",
        THEN conjunct2, OF uuid_demo(1) n _ _ _ _ _ _ prod.collapse [symmetric]])
      (simp_all add: variants_valid_def)
qed

end
