(* ===== verification/Billing.thy ===== *)
theory Billing
  imports Db "HOL-Library.List_Lexorder" "HOL-Library.Char_ord"
begin

text \<open>
  Usage and plans: \<^verbatim>\<open>shared/billing.py\<close>, the admin routes of
  \<^verbatim>\<open>admin_service/routes/billing.py\<close> and the tables of migration 007.  INTEGER columns hold 32-bit
  values: a statement that would exceed them fails.  A UUID is its value; the current month is an
  argument.
\<close>

section \<open>Tables\<close>

record billing_plan =
  bp_id :: nat
  bp_name :: string
  bp_price :: rat
  bp_message_limit :: int
  bp_token_limit :: int
  bp_features :: string
  bp_created :: time

datatype account_status = AcActive | AcSuspended | AcOverdue

record billing_account =
  ba_tenant :: nat
  ba_plan :: "nat option"
  ba_balance :: rat
  ba_credit_limit :: rat
  ba_status :: account_status

record usage_record =
  ur_tenant :: nat
  ur_period :: string
  ur_messages :: int
  ur_tokens :: int
  ur_tools :: int
  ur_storage :: int

datatype invoice_status = InvDraft | InvSent | InvPaid | InvOverdue

record invoice =
  iv_id :: nat
  iv_tenant :: nat
  iv_amount :: rat
  iv_status :: invoice_status
  iv_period :: string
  iv_created :: time

record billed_message =
  bm_tenant :: nat
  bm_thread :: nat
  bm_role :: string
  bm_created :: time
  bm_tokens :: int

record billing_db =
  bl_tenants :: "(nat \<times> string) list" \<comment> \<open>id and name\<close>
  bl_plans :: "billing_plan list"
  bl_accounts :: "billing_account list"
  bl_usage :: "usage_record list"
  bl_invoices :: "invoice list"
  bl_messages :: "billed_message list"

definition int32 :: "int \<Rightarrow> bool" where
  "int32 n = (- (2 ^ 31) \<le> n \<and> n < 2 ^ 31)"

section \<open>Credits\<close>

definition AUDIO_CREDIT_RATE :: rat where "AUDIO_CREDIT_RATE = 1 / 10"

definition IMAGE_CREDIT_RATES :: "(string \<times> rat) list" where
  "IMAGE_CREDIT_RATES = [(''sd'', 1 / 2), (''hd'', 1), (''4k'', 2)]"

definition calculate_audio_credits :: "rat \<Rightarrow> rat" where
  "calculate_audio_credits audio_seconds =
     (if audio_seconds \<le> 0 then 0 else of_int \<lceil>audio_seconds / 15\<rceil> * AUDIO_CREDIT_RATE)"

definition calculate_image_credits :: "string \<Rightarrow> rat" where
  "calculate_image_credits tier = (case map_of IMAGE_CREDIT_RATES tier of None \<Rightarrow> 1 / 2 | Some r \<Rightarrow> r)"

text \<open>
  \<open>record_usage\<close>: the statement's effect on the thread's latest assistant message, and the total
  credits, which the code computes for its log line.  \<open>rls\<close> as in \<open>rls_visible\<close>.
\<close>

definition latest_assistant :: "(billed_message \<Rightarrow> bool) \<Rightarrow> nat \<Rightarrow> billed_message list \<Rightarrow> billed_message \<Rightarrow> bool" where
  "latest_assistant vis thread ms m \<longleftrightarrow> vis m \<and> bm_thread m = thread \<and> bm_role m = ''assistant'' \<and>
     (\<forall>x \<in> set ms. vis x \<and> bm_thread x = thread \<and> bm_role x = ''assistant'' \<longrightarrow> bm_created x \<le> bm_created m)"

definition record_usage ::
  "bool \<Rightarrow> bool \<Rightarrow> string \<Rightarrow> string \<Rightarrow> int \<Rightarrow> rat \<Rightarrow> nat \<Rightarrow> string \<Rightarrow> billing_db \<Rightarrow> (exn + rat) \<times> billing_db" where
  "record_usage rls has_pool thread_id tenant_id tokens_used audio_seconds image_count image_resolution db =
     (let total_credits = calculate_audio_credits audio_seconds
            + calculate_image_credits image_resolution * of_nat image_count in
      if \<not> has_pool then (Inr total_credits, db)
      else tenant_db_context tenant_id (\<lambda>t db.
        case uuid_parse thread_id of
          None \<Rightarrow> (Inl (DbExn BadArgument), db)
        | Some th \<Rightarrow>
            if \<not> int32 tokens_used then (Inl (DbExn OutOfRange), db)
            else (Inr total_credits, db\<lparr>bl_messages :=
              sql_update (latest_assistant (\<lambda>m. rls_visible rls t (bm_tenant m)) th (bl_messages db))
                (\<lambda>m. m\<lparr>bm_tokens := tokens_used\<rparr>) (bl_messages db)\<rparr>)) db)"

section \<open>Accounts and limits\<close>

definition get_or_create_account :: "string \<Rightarrow> billing_db \<Rightarrow> (exn + billing_account) \<times> billing_db" where
  "get_or_create_account tenant_id db =
     (case uuid_parse tenant_id of
        None \<Rightarrow> (Inl (DbExn BadArgument), db)
      | Some t \<Rightarrow>
        (case fetchrow (\<lambda>a. ba_tenant a = t) (bl_accounts db) of
           Some a \<Rightarrow> (Inr a, db)
         | None \<Rightarrow>
             (let plan = map_option bp_id (fetchrow (\<lambda>p. bp_name p = ''Free'') (bl_plans db));
                  a = \<lparr>ba_tenant = t, ba_plan = plan, ba_balance = 0, ba_credit_limit = 0, ba_status = AcActive\<rparr>
              in if t \<notin> fst ` set (bl_tenants db) then (Inl (DbExn ForeignKeyViolation), db)
                 else (Inr a, db\<lparr>bl_accounts := bl_accounts db @ [a]\<rparr>))))"

text \<open>\<open>usage.get(resource + "_used", 0)\<close> and \<open>plan.get(resource + "_limit", -1)\<close> on the selected columns.\<close>

definition used_of :: "usage_record \<Rightarrow> string \<Rightarrow> int" where
  "used_of u resource = (case map_of [(''messages_used'', ur_messages u), (''tokens_used'', ur_tokens u),
       (''tools_used'', ur_tools u)] (resource @ ''_used'') of None \<Rightarrow> 0 | Some n \<Rightarrow> n)"

definition limit_of :: "billing_plan \<Rightarrow> string \<Rightarrow> int" where
  "limit_of p resource = (case map_of [(''message_limit'', bp_message_limit p), (''token_limit'', bp_token_limit p)]
       (resource @ ''_limit'') of None \<Rightarrow> -1 | Some n \<Rightarrow> n)"

datatype limit_reason = AccountStatus account_status | NoPlan | Unlimited | Exceeded string int int | LimitOk

definition check_limit ::
  "string \<Rightarrow> string \<Rightarrow> int \<Rightarrow> string \<Rightarrow> billing_db \<Rightarrow> (exn + bool \<times> limit_reason) \<times> billing_db" where
  "check_limit tenant_id resource amount period db0 =
     (case get_or_create_account tenant_id db0 of
        (Inl e, db) \<Rightarrow> (Inl e, db)
      | (Inr account, db) \<Rightarrow>
          if ba_status account \<noteq> AcActive then (Inr (False, AccountStatus (ba_status account)), db)
          else tenant_db_context tenant_id (\<lambda>t db.
            let usage = fetchrow (\<lambda>u. ur_tenant u = t \<and> ur_period u = period) (bl_usage db);
                plan = fetchrow (\<lambda>p. Some (bp_id p) = ba_plan account) (bl_plans db)
            in case plan of
                None \<Rightarrow> (Inr (True, NoPlan), db)
              | Some p \<Rightarrow>
                  (let current_usage = (case usage of None \<Rightarrow> 0 | Some u \<Rightarrow> used_of u resource);
                       limit = limit_of p resource
                   in if limit = -1 then (Inr (True, Unlimited), db)
                      else if current_usage + amount > limit
                        then (Inr (False, Exceeded resource current_usage limit), db)
                      else (Inr (True, LimitOk), db))) db)"

definition add_usage :: "int \<times> int \<times> int \<times> int \<Rightarrow> usage_record \<Rightarrow> usage_record" where
  "add_usage d u = (case d of (m, k, l, s) \<Rightarrow>
     u\<lparr>ur_messages := ur_messages u + m, ur_tokens := ur_tokens u + k, ur_tools := ur_tools u + l,
       ur_storage := ur_storage u + s\<rparr>)"

definition usage_fits :: "usage_record \<Rightarrow> bool" where
  "usage_fits u = (int32 (ur_messages u) \<and> int32 (ur_tokens u) \<and> int32 (ur_tools u) \<and> int32 (ur_storage u))"

definition record_usage_to_db ::
  "string \<Rightarrow> int \<times> int \<times> int \<times> int \<Rightarrow> string \<Rightarrow> billing_db \<Rightarrow> (exn + unit) \<times> billing_db" where
  "record_usage_to_db tenant_id d period db =
     tenant_db_context tenant_id (\<lambda>t db.
       let fresh = add_usage d \<lparr>ur_tenant = t, ur_period = period, ur_messages = 0, ur_tokens = 0,
                                ur_tools = 0, ur_storage = 0\<rparr>;
           hit = (\<lambda>u. ur_tenant u = t \<and> ur_period u = period)
       in if \<not> usage_fits fresh then (Inl (DbExn OutOfRange), db)
          else if t \<notin> fst ` set (bl_tenants db) then (Inl (DbExn ForeignKeyViolation), db)
          else case fetchrow hit (bl_usage db) of
            None \<Rightarrow> (Inr (), db\<lparr>bl_usage := bl_usage db @ [fresh]\<rparr>)
          | Some u \<Rightarrow>
              if \<not> usage_fits (add_usage d u) then (Inl (DbExn OutOfRange), db)
              else (Inr (), db\<lparr>bl_usage := sql_update hit (add_usage d) (bl_usage db)\<rparr>)) db"

section \<open>Admin routes\<close>

definition DEFAULT_PLANS :: "(string \<times> rat \<times> int \<times> int) list" where
  "DEFAULT_PLANS = [(''Free'', 0, 100, 10000), (''Starter'', 49, 1000, 100000),
     (''Pro'', 199, 5000, 500000), (''Enterprise'', 0, -1, -1)]"

definition list_plans :: "billing_db \<Rightarrow> billing_plan list" where
  "list_plans db = sort_key bp_price (bl_plans db)"

text \<open>The INSERT, with the columns it was given; \<open>features\<close> is the JSON text or NULL.\<close>

definition insert_plan ::
  "string \<Rightarrow> rat \<Rightarrow> int \<Rightarrow> int \<Rightarrow> string option \<Rightarrow> nat \<Rightarrow> time \<Rightarrow> billing_db \<Rightarrow> (exn + nat) \<times> billing_db" where
  "insert_plan name price ml tkl features new_id now db =
     (if \<not> int32 ml \<or> \<not> int32 tkl then (Inl (DbExn OutOfRange), db)
      else case features of
        None \<Rightarrow> (Inl (DbExn NotNullViolation), db)
      | Some fs \<Rightarrow>
          if new_id \<in> bp_id ` set (bl_plans db) \<or> name \<in> bp_name ` set (bl_plans db)
          then (Inl (DbExn UniqueViolation), db)
          else (Inr new_id, db\<lparr>bl_plans := bl_plans db @
            [\<lparr>bp_id = new_id, bp_name = name, bp_price = price, bp_message_limit = ml, bp_token_limit = tkl,
              bp_features = fs, bp_created = now\<rparr>]\<rparr>))"

text \<open>The request's features: absent, or a dictionary by its JSON text, the empty one being \<open>{}\<close>.\<close>

definition create_plan ::
  "string \<Rightarrow> rat \<Rightarrow> int \<Rightarrow> int \<Rightarrow> string option \<Rightarrow> nat \<Rightarrow> time \<Rightarrow> billing_db \<Rightarrow> (exn + nat) \<times> billing_db" where
  "create_plan name price ml tkl features new_id now db =
     insert_plan name price ml tkl (if features = Some ''{}'' then None else features) new_id now db"

record plan_update =
  pu_name :: "string option"
  pu_price :: "rat option"
  pu_message_limit :: "int option"
  pu_token_limit :: "int option"
  pu_features :: "string option"

definition opt_or :: "'a option \<Rightarrow> 'a \<Rightarrow> 'a" where
  "opt_or x d = (case x of None \<Rightarrow> d | Some y \<Rightarrow> y)"

definition apply_update :: "plan_update \<Rightarrow> billing_plan \<Rightarrow> billing_plan" where
  "apply_update b p = p\<lparr>bp_name := opt_or (pu_name b) (bp_name p), bp_price := opt_or (pu_price b) (bp_price p),
     bp_message_limit := opt_or (pu_message_limit b) (bp_message_limit p),
     bp_token_limit := opt_or (pu_token_limit b) (bp_token_limit p),
     bp_features := opt_or (pu_features b) (bp_features p)\<rparr>"

definition update_plan :: "string \<Rightarrow> plan_update \<Rightarrow> billing_db \<Rightarrow> (exn + bool) \<times> billing_db" where
  "update_plan plan_id b db =
     (if b = \<lparr>pu_name = None, pu_price = None, pu_message_limit = None, pu_token_limit = None, pu_features = None\<rparr>
      then (Inr False, db)
      else case uuid_parse plan_id of
        None \<Rightarrow> (Inl (DbExn BadArgument), db)
      | Some i \<Rightarrow>
          (let rows = sql_update (\<lambda>p. bp_id p = i) (apply_update b) (bl_plans db)
           in if \<not> int32 (opt_or (pu_message_limit b) 0) \<or> \<not> int32 (opt_or (pu_token_limit b) 0)
              then (Inl (DbExn OutOfRange), db)
              else if \<not> distinct (map bp_name rows) then (Inl (DbExn UniqueViolation), db)
              else (Inr True, db\<lparr>bl_plans := rows\<rparr>)))"

definition delete_plan :: "string \<Rightarrow> billing_db \<Rightarrow> (exn + unit) \<times> billing_db" where
  "delete_plan plan_id db =
     (case uuid_parse plan_id of
        None \<Rightarrow> (Inl (DbExn BadArgument), db)
      | Some i \<Rightarrow>
          if i \<in> bp_id ` set (bl_plans db) \<and> Some i \<in> ba_plan ` set (bl_accounts db)
          then (Inl (DbExn ForeignKeyViolation), db)
          else (Inr (), db\<lparr>bl_plans := sql_delete (\<lambda>p. bp_id p = i) (bl_plans db)\<rparr>))"

text \<open>The loop of \<open>seed_plans\<close>; each statement commits on its own.  \<open>ids\<close> are the generated UUIDs.\<close>

fun seed_loop ::
  "(string \<times> rat \<times> int \<times> int) list \<Rightarrow> nat list \<Rightarrow> time \<Rightarrow> nat \<Rightarrow> billing_db \<Rightarrow> (exn + nat) \<times> billing_db" where
  "seed_loop [] ids now created db = (Inr created, db)"
| "seed_loop ((name, price, ml, tkl) # rest) ids now created db =
     (if fetchrow (\<lambda>p. bp_name p = name) (bl_plans db) \<noteq> None then seed_loop rest ids now created db
      else case insert_plan name price ml tkl None (hd ids) now db of
        (Inl e, db') \<Rightarrow> (Inl e, db')
      | (Inr _, db') \<Rightarrow> seed_loop rest (tl ids) now (created + 1) db')"

definition seed_plans :: "nat list \<Rightarrow> time \<Rightarrow> billing_db \<Rightarrow> (exn + nat) \<times> billing_db" where
  "seed_plans ids now db = seed_loop DEFAULT_PLANS ids now 0 db"

definition get_usage :: "string \<Rightarrow> billing_db \<Rightarrow> exn + usage_record list" where
  "get_usage tenant_id db =
     (case uuid_parse tenant_id of
        None \<Rightarrow> Inl (DbExn BadArgument)
      | Some t \<Rightarrow> Inr (take 12 (rev (sort_key ur_period (sql_select (\<lambda>u. ur_tenant u = t) (bl_usage db))))))"

definition parse_status :: "string \<Rightarrow> invoice_status option" where
  "parse_status s = map_of [(''draft'', InvDraft), (''sent'', InvSent), (''paid'', InvPaid), (''overdue'', InvOverdue)] s"

definition truthy_filter :: "string option \<Rightarrow> ('a \<Rightarrow> string \<Rightarrow> bool) \<Rightarrow> 'a \<Rightarrow> bool" where
  "truthy_filter f p x = (case f of None \<Rightarrow> True | Some s \<Rightarrow> s = [] \<or> p x s)"

definition list_invoices ::
  "string option \<Rightarrow> string option \<Rightarrow> string option \<Rightarrow> billing_db \<Rightarrow> exn + (invoice \<times> string option) list" where
  "list_invoices tenant_id status period db =
     (if tenant_id \<noteq> None \<and> tenant_id \<noteq> Some [] \<and> uuid_parse (the tenant_id) = None
      then Inl (DbExn BadArgument)
      else Inr (map (\<lambda>i. (i, map_of (bl_tenants db) (iv_tenant i)))
        (take 100 (sort_desc iv_created (sql_select (\<lambda>i.
           truthy_filter tenant_id (\<lambda>i s. uuid_parse s = Some (iv_tenant i)) i \<and>
           truthy_filter status (\<lambda>i s. parse_status s = Some (iv_status i)) i \<and>
           truthy_filter period (\<lambda>i s. iv_period i = s) i) (bl_invoices db))))))"

text \<open>\<open>status\<close> is the request's field, \<open>"pending"\<close> when it is absent.\<close>

definition create_invoice ::
  "string \<Rightarrow> rat \<Rightarrow> string \<Rightarrow> string option \<Rightarrow> nat \<Rightarrow> time \<Rightarrow> billing_db \<Rightarrow> (exn + nat) \<times> billing_db" where
  "create_invoice tenant_id amount period status new_id now db =
     (case uuid_parse tenant_id of
        None \<Rightarrow> (Inl (DbExn BadArgument), db)
      | Some t \<Rightarrow>
        (case parse_status (opt_or status ''pending'') of
           None \<Rightarrow> (Inl (DbExn CheckViolation), db)
         | Some st \<Rightarrow>
             if new_id \<in> iv_id ` set (bl_invoices db) then (Inl (DbExn UniqueViolation), db)
             else if t \<notin> fst ` set (bl_tenants db) then (Inl (DbExn ForeignKeyViolation), db)
             else (Inr new_id, db\<lparr>bl_invoices := bl_invoices db @
               [\<lparr>iv_id = new_id, iv_tenant = t, iv_amount = amount, iv_status = st, iv_period = period,
                 iv_created = now\<rparr>]\<rparr>)))"

text \<open>The service object of \<^verbatim>\<open>chat_service/main.py\<close> that the chat route calls.\<close>

definition billing_record_usage :: "string \<Rightarrow> int \<Rightarrow> int \<Rightarrow> string \<Rightarrow> billing_db \<Rightarrow> (exn + unit) \<times> billing_db" where
  "billing_record_usage tenant_id tokens_used messages period db =
     record_usage_to_db tenant_id (messages, tokens_used, 0, 0) period db"

section \<open>Usage adds up\<close>

definition usage_key :: "usage_record \<Rightarrow> nat \<times> string" where
  "usage_key u = (ur_tenant u, ur_period u)"

definition usage_inv :: "billing_db \<Rightarrow> bool" where
  "usage_inv db \<longleftrightarrow> distinct (map usage_key (bl_usage db))"

definition usage_total :: "(usage_record \<Rightarrow> int) \<Rightarrow> nat \<times> string \<Rightarrow> billing_db \<Rightarrow> int" where
  "usage_total f k db = sum_list (map f (filter (\<lambda>u. usage_key u = k) (bl_usage db)))"

interpretation usage_table: keyed_table usage_key add_usage
  by unfold_locales (simp add: usage_key_def add_usage_def split: prod.split)

lemma unique_filter:
  assumes "distinct (map usage_key rs)" and "u \<in> set rs"
  shows "filter (\<lambda>x. usage_key x = usage_key u) rs = [u]"
  using assms by (induction rs) (auto simp: filter_empty_conv image_iff)

lemma sum_update_one:
  assumes "distinct (map usage_key rs)" and "u \<in> set rs"
    and f: "\<And>x. f (add_usage d x) = f x + c"
  shows "sum_list (map f (filter (\<lambda>x. usage_key x = k) (sql_update (\<lambda>x. usage_key x = usage_key u) (add_usage d) rs))) =
    sum_list (map f (filter (\<lambda>x. usage_key x = k) rs)) + (if k = usage_key u then c else 0)"
proof -
  have k: "usage_key (add_usage d x) = usage_key x" for x by (rule usage_table.key_upd)
  have e: "filter (\<lambda>x. usage_key x = k) (sql_update (\<lambda>x. usage_key x = usage_key u) (add_usage d) rs) =
      (if k = usage_key u then map (add_usage d) (filter (\<lambda>x. usage_key x = k) rs) else filter (\<lambda>x. usage_key x = k) rs)"
    by (induction rs) (auto simp: k)
  show ?thesis
  proof (cases "k = usage_key u")
    case True
    then show ?thesis using unique_filter [OF assms(1,2)] f unfolding e if_P [OF True] by simp
  next
    case False
    then show ?thesis unfolding e by simp
  qed
qed

lemma record_usage_step:
  assumes inv: "usage_inv db" and r: "record_usage_to_db tenant_id d period db = (Inr (), db')"
    and f: "\<And>x. f (add_usage d x) = f x + c" and z: "f \<lparr>ur_tenant = t, ur_period = period, ur_messages = 0,
      ur_tokens = 0, ur_tools = 0, ur_storage = 0\<rparr> = 0" and t: "uuid_parse tenant_id = Some t"
  shows "usage_inv db' \<and> usage_total f k db' = usage_total f k db + (if k = (t, period) then c else 0)"
proof -
  let ?new = "\<lparr>ur_tenant = t, ur_period = period, ur_messages = 0, ur_tokens = 0, ur_tools = 0, ur_storage = 0\<rparr>"
  have new: "usage_key (add_usage d ?new) = (t, period)" by (subst usage_table.key_upd) (simp add: usage_key_def)
  have hit: "(\<lambda>u. ur_tenant u = t \<and> ur_period u = period) = (\<lambda>u. usage_key u = (t, period))"
    by (auto simp: usage_key_def)
  show ?thesis
  proof (cases "fetchrow (\<lambda>u. usage_key u = (t, period)) (bl_usage db)")
    case None
    then have db': "db' = db\<lparr>bl_usage := bl_usage db @ [add_usage d ?new]\<rparr>"
      using r t by (auto simp: record_usage_to_db_def tenant_db_context_def Let_def hit split: if_splits)
    have "(t, period) \<notin> usage_key ` set (bl_usage db)" using None by (auto simp: fetchrow_None)
    then show ?thesis using inv new f [of ?new] z by (auto simp: db' usage_inv_def usage_total_def)
  next
    case (Some u)
    then have u: "u \<in> set (bl_usage db)" "usage_key u = (t, period)" by (auto dest!: fetchrow_SomeD)
    have db': "db' = db\<lparr>bl_usage := sql_update (\<lambda>x. usage_key x = usage_key u) (add_usage d) (bl_usage db)\<rparr>"
      using r t Some u by (auto simp: record_usage_to_db_def tenant_db_context_def Let_def hit split: if_splits)
    have i: "usage_inv db'" using inv by (simp add: db' usage_inv_def usage_table.keys_update)
    have "usage_total f k db' = usage_total f k db + (if k = usage_key u then c else 0)"
      using inv sum_update_one [where f = f and c = c and d = d and k = k, OF _ u(1) f]
      by (simp add: usage_inv_def db' usage_total_def)
    with i u(2) show ?thesis by simp
  qed
qed

text \<open>A history of calls (tenant, counts, period); a refused call leaves the table alone.\<close>

fun run_usage :: "(string \<times> (int \<times> int \<times> int \<times> int) \<times> string) list \<Rightarrow> billing_db \<Rightarrow>
    (string \<times> (int \<times> int \<times> int \<times> int) \<times> string) list \<times> billing_db" where
  "run_usage [] db = ([], db)"
| "run_usage ((tid, d, p) # calls) db =
     (case record_usage_to_db tid d p db of
        (Inl e, db') \<Rightarrow> run_usage calls db'
      | (Inr _, db') \<Rightarrow> (case run_usage calls db' of (ok, db'') \<Rightarrow> ((tid, d, p) # ok, db'')))"

definition recorded :: "(int \<times> int \<times> int \<times> int \<Rightarrow> int) \<Rightarrow> nat \<times> string \<Rightarrow>
    (string \<times> (int \<times> int \<times> int \<times> int) \<times> string) list \<Rightarrow> int" where
  "recorded g k calls = sum_list (map (\<lambda>(tid, d, p). g d)
     (filter (\<lambda>(tid, d, p). uuid_parse tid = Some (fst k) \<and> p = snd k) calls))"

lemma run_usage_total:
  assumes "\<And>d x. f (add_usage d x) = f x + g d"
    and "\<And>t p. f \<lparr>ur_tenant = t, ur_period = p, ur_messages = 0, ur_tokens = 0, ur_tools = 0, ur_storage = 0\<rparr> = 0"
  shows "usage_inv db \<Longrightarrow> run_usage calls db = (ok, db') \<Longrightarrow>
    usage_inv db' \<and> usage_total f k db' = usage_total f k db + recorded g k ok"
proof (induction calls db arbitrary: ok rule: run_usage.induct)
  case (1 db)
  then show ?case by (simp add: recorded_def)
next
  case (2 tid d p calls db)
  obtain r db1 where s: "record_usage_to_db tid d p db = (r, db1)" by fastforce
  show ?case
  proof (cases r)
    case (Inl e)
    have "db1 = db" by (rule tenant_context_rollback [OF s [unfolded Inl record_usage_to_db_def]])
    with 2 s Inl show ?thesis by simp
  next
    case (Inr u)
    obtain ok1 db2 where run: "run_usage calls db1 = (ok1, db2)" by fastforce
    with s Inr 2(4) have ok: "ok = (tid, d, p) # ok1" "db' = db2" by auto
    obtain t where t: "uuid_parse tid = Some t"
      using s Inr by (auto simp: record_usage_to_db_def tenant_context_ok)
    have "usage_inv db1 \<and> usage_total f k db1 = usage_total f k db + (if k = (t, p) then g d else 0)"
      using record_usage_step [where f = f and c = "g d" and k = k, OF 2(3) _ assms(1) assms(2) t] s Inr by simp
    moreover from this have "usage_inv db' \<and> usage_total f k db' = usage_total f k db1 + recorded g k ok1"
      by (intro 2(2) [OF s [symmetric] Inr _ run [folded ok(2)]]) simp
    ultimately show ?thesis using t by (cases k) (auto simp: ok(1) recorded_def)
  qed
qed

section \<open>Limits\<close>

lemma limit_names: "limit_of p resource \<noteq> -1 \<Longrightarrow> resource = ''message'' \<or> resource = ''token''"
proof -
  have "''message_limit'' = ''message'' @ ''_limit''" "''token_limit'' = ''token'' @ ''_limit''" by simp_all
  then have "resource @ ''_limit'' = ''message_limit'' \<longleftrightarrow> resource = ''message''"
    "resource @ ''_limit'' = ''token_limit'' \<longleftrightarrow> resource = ''token''"
    by (metis append_same_eq)+
  then show "limit_of p resource \<noteq> -1 \<Longrightarrow> resource = ''message'' \<or> resource = ''token''"
    by (auto simp: limit_of_def split: if_splits)
qed

lemma used_zero: "limit_of p resource \<noteq> -1 \<Longrightarrow> used_of u resource = 0"
  using limit_names [of p resource] by (auto simp: used_of_def)

lemma account_same_usage:
  "\<exists>r db'. get_or_create_account tid db = (r, db') \<and>
     get_or_create_account tid (db\<lparr>bl_usage := us\<rparr>) = (r, db'\<lparr>bl_usage := us\<rparr>)"
  by (auto simp: get_or_create_account_def Let_def split: option.split)

section \<open>Seeding\<close>

lemma seed_loop_missing:
  assumes "\<forall>(n, pr, ml, tk) \<in> set plans. int32 ml \<and> int32 tk"
  shows "seed_loop plans ids now c db =
    (if fst ` set plans \<subseteq> bp_name ` set (bl_plans db) then (Inr c, db) else (Inl (DbExn NotNullViolation), db))"
  using assms
proof (induction plans)
  case Nil
  then show ?case by simp
next
  case (Cons plan plans)
  obtain n pr ml tk where p: "plan = (n, pr, ml, tk)" by (cases plan)
  have i: "insert_plan n pr ml tk None (hd ids) now db = (Inl (DbExn NotNullViolation), db)"
    using Cons.prems by (simp add: p insert_plan_def)
  have f: "fetchrow (\<lambda>p. bp_name p = n) (bl_plans db) = None \<longleftrightarrow> n \<notin> bp_name ` set (bl_plans db)"
    unfolding fetchrow_None by blast
  show ?case
  proof (cases "n \<in> bp_name ` set (bl_plans db)")
    case True
    with f Cons show ?thesis by (simp add: p)
  next
    case False
    with f i show ?thesis by (simp add: p)
  qed
qed

section \<open>Properties\<close>

text \<open>Recorded usage adds up.  After any history of calls, accepted or refused, a tenant's month holds
  what it held before plus the sum of the accepted calls for it, for messages and for tokens, and
  there is at most one record for each tenant and month.\<close>

theorem billing_usage_adds_up:
  assumes "usage_inv db" and "run_usage calls db = (accepted, db')"
  shows "usage_inv db' \<and> usage_total ur_messages k db' = usage_total ur_messages k db + recorded fst k accepted
    \<and> usage_total ur_tokens k db' = usage_total ur_tokens k db + recorded (\<lambda>d. fst (snd d)) k accepted"
proof -
  have m: "ur_messages (add_usage d x) = ur_messages x + fst d" "ur_tokens (add_usage d x) = ur_tokens x + fst (snd d)" for d x
    by (simp_all add: add_usage_def split: prod.split)
  show ?thesis
    using run_usage_total [OF m(1) _ assms] run_usage_total [OF m(2) _ assms] by simp
qed

definition billing_demo :: billing_db where
  "billing_demo = \<lparr>bl_tenants = [(1, ''acme'')],
     bl_plans = [\<lparr>bp_id = 9, bp_name = ''Free'', bp_price = 0, bp_message_limit = 100, bp_token_limit = 10000,
                 bp_features = ''[]'', bp_created = 0\<rparr>],
     bl_accounts = [], bl_usage = [], bl_invoices = [], bl_messages = []\<rparr>"

theorem billing_usage_adds_up_witness:
  "usage_total ur_messages (1, ''2026-01'')
     (snd (run_usage [(uuid1, (1, 50, 0, 0), ''2026-01''), (uuid1, (2, 70, 0, 0), ''2026-01'')] billing_demo)) = 3"
proof -
  let ?calls = "[(uuid1, (1, 50, 0, 0), ''2026-01''), (uuid1, (2, 70, 0, 0), ''2026-01'')]"
  have i: "usage_inv billing_demo" by (simp add: usage_inv_def billing_demo_def)
  have "fst (run_usage ?calls billing_demo) = ?calls"
    by (simp add: billing_demo_def record_usage_to_db_def tenant_db_context_def add_usage_def usage_fits_def int32_def)
  then show ?thesis
    using billing_usage_adds_up [OF i prod.collapse [symmetric], of ?calls "(1, ''2026-01'')"]
    by (simp add: recorded_def) (simp add: usage_total_def billing_demo_def)
qed

text \<open>The limit check never looks at recorded usage.  The columns are \<open>messages_used\<close> and \<open>message_limit\<close>,
  \<open>tokens_used\<close> and \<open>token_limit\<close>: no resource name matches both, so the verdict is the same for every
  content of the usage table, for every resource.\<close>

theorem billing_limit_ignores_usage:
  "fst (check_limit tenant_id resource amount period (db\<lparr>bl_usage := us\<rparr>)) = fst (check_limit tenant_id resource amount period db)"
proof -
  obtain r db1 where a: "get_or_create_account tenant_id db = (r, db1)"
    "get_or_create_account tenant_id (db\<lparr>bl_usage := us\<rparr>) = (r, db1\<lparr>bl_usage := us\<rparr>)"
    using account_same_usage by blast
  have cur: "(case u of None \<Rightarrow> 0 | Some u \<Rightarrow> used_of u resource) = 0" if "limit_of p resource \<noteq> -1" for u p
    using used_zero [OF that] by (simp split: option.split)
  show ?thesis using a
    by (auto simp: check_limit_def tenant_db_context_def Let_def cur split: sum.split option.split)
qed

text \<open>The chat route asks for the resource \<open>messages\<close>, which has no limit column: whatever the plan, a tenant
  whose account is active is never refused.\<close>

theorem billing_messages_never_limited:
  assumes "check_limit tenant_id ''messages'' amount period db = (Inr (allowed, why), db')"
  shows "allowed \<or> (\<exists>s. why = AccountStatus s)"
proof -
  have "limit_of p ''messages'' = -1" for p by (simp add: limit_of_def)
  with assms show ?thesis
    by (auto simp: check_limit_def tenant_db_context_def Let_def split: prod.splits sum.splits option.splits if_splits)
qed

theorem billing_messages_never_limited_witness:
  "fst (the (case check_limit uuid1 ''messages'' 1000 ''2026-01'' billing_demo of (Inr x, _) \<Rightarrow> Some x | _ \<Rightarrow> None))"
proof -
  obtain why db' where c: "check_limit uuid1 ''messages'' 1000 ''2026-01'' billing_demo = (Inr (True, why), db')"
    by (simp add: check_limit_def get_or_create_account_def billing_demo_def tenant_db_context_def limit_of_def Let_def)
  from billing_messages_never_limited [OF this] c show ?thesis by simp
qed

text \<open>Audio is billed by started 15-second chunks: a positive duration costs at least its exact share and
  less than one chunk more, and longer audio never costs less.\<close>

theorem audio_credits_bounds:
  assumes "0 < s" and "s \<le> s'"
  shows "s / 15 * AUDIO_CREDIT_RATE \<le> calculate_audio_credits s
    \<and> calculate_audio_credits s < (s / 15 + 1) * AUDIO_CREDIT_RATE
    \<and> calculate_audio_credits s \<le> calculate_audio_credits s'"
proof -
  have "s / 15 \<le> of_int \<lceil>s / 15\<rceil>" "of_int \<lceil>s / 15\<rceil> < s / 15 + 1" by linarith+
  moreover have "(of_int \<lceil>s / 15\<rceil> :: rat) \<le> of_int \<lceil>s' / 15\<rceil>"
    using assms(2) by (simp add: ceiling_mono divide_right_mono)
  ultimately show ?thesis using assms by (simp add: calculate_audio_credits_def AUDIO_CREDIT_RATE_def)
qed

theorem audio_credits_bounds_witness: "calculate_audio_credits 16 \<le> calculate_audio_credits 31"
  using audio_credits_bounds [of 16 31] by simp

text \<open>An account is created once: asking again gives the same account and changes nothing.\<close>

theorem billing_account_created_once:
  assumes "get_or_create_account tenant_id db = (Inr a, db')"
  shows "get_or_create_account tenant_id db' = (Inr a, db')"
  using assms by (auto simp: get_or_create_account_def Let_def fetchrow_append split: option.splits if_splits)

theorem billing_account_created_once_witness:
  "snd (get_or_create_account uuid1 (snd (get_or_create_account uuid1 billing_demo))) =
   snd (get_or_create_account uuid1 billing_demo)"
proof -
  obtain a db' where c: "get_or_create_account uuid1 billing_demo = (Inr a, db')"
    by (simp add: get_or_create_account_def billing_demo_def Let_def)
  from billing_account_created_once [OF this] c show ?thesis by simp
qed

text \<open>Seeding the default plans inserts NULL features into a NOT NULL column: when a default plan is
  missing the request fails and adds no plan; it succeeds, with nothing to do, only when all four exist.\<close>

theorem billing_seed_plans:
  "seed_plans ids now db =
     (if {''Free'', ''Starter'', ''Pro'', ''Enterprise''} \<subseteq> bp_name ` set (bl_plans db)
      then (Inr 0, db) else (Inl (DbExn NotNullViolation), db))"
  unfolding seed_plans_def
  by (subst seed_loop_missing) (simp_all add: DEFAULT_PLANS_def int32_def)

text \<open>An invoice without an explicit status is never created: the route's default, \<open>pending\<close>, violates the
  table's CHECK constraint.\<close>

theorem billing_default_invoice_fails:
  "\<not> is_ok (fst (create_invoice tenant_id amount period None new_id now db))
   \<and> snd (create_invoice tenant_id amount period None new_id now db) = db"
  by (simp add: create_invoice_def parse_status_def opt_or_def split: option.split)

end
