(* ===== verification/Gateway.thy ===== *)
theory Gateway
  imports Db Digest "HOL-Library.Countable"
begin

text \<open>
  The way in: the gateway's authentication and two-tier rate limit
  (\<^verbatim>\<open>api_gateway/middleware/auth.py\<close>, \<^verbatim>\<open>rate_limit.py\<close>, \<^verbatim>\<open>media_format.py\<close>) and the admin
  service's tokens (\<^verbatim>\<open>admin_service/middleware/jwt_auth.py\<close>, \<^verbatim>\<open>routes/auth.py\<close>).  The JWT and
  bcrypt libraries are parameters; time is an argument.
\<close>

section \<open>Tenant authentication\<close>

record tenant_row =
  tn_id :: nat
  tn_key_hash :: string
  tn_active :: bool
  tn_user_rps :: "int option" \<comment> \<open>\<open>user_rps\<close> of the JSON column, if there\<close>

datatype verdict = Pass "nat option" | Refuse nat \<comment> \<open>handed on with this tenant, or a status\<close>

definition api_key_of :: "string \<Rightarrow> string option" where
  "api_key_of auth = (if starts_with ''Bearer '' auth \<and> drop 7 auth \<noteq> [] then Some (drop 7 auth) else None)"

definition tenant_auth :: "tenant_row list \<Rightarrow> string \<Rightarrow> string option \<Rightarrow> verdict" where
  "tenant_auth tenants path authorization =
     (if path = ''/health'' then Pass None
      else case api_key_of (case authorization of None \<Rightarrow> [] | Some a \<Rightarrow> a) of
        None \<Rightarrow> Refuse 401
      | Some key \<Rightarrow>
          (case fetchrow (\<lambda>r. tn_key_hash r = sha256_hex key) tenants of
             None \<Rightarrow> Refuse 401
           | Some r \<Rightarrow> if \<not> tn_active r then Refuse 401 else Pass (Some (tn_id r))))"

section \<open>Rate limit\<close>

record bucket =
  bk_capacity :: int
  bk_tokens :: rat
  bk_last :: time

definition new_bucket :: "int \<Rightarrow> time \<Rightarrow> bucket" where
  "new_bucket cap now = \<lparr>bk_capacity = cap, bk_tokens = of_int cap, bk_last = now\<rparr>"

definition allow :: "time \<Rightarrow> bucket \<Rightarrow> bool \<times> bucket" where
  "allow now b =
     (let elapsed = now - bk_last b;
          tokens = min (of_int (bk_capacity b)) (bk_tokens b + elapsed * of_int (bk_capacity b));
          b' = b\<lparr>bk_tokens := tokens, bk_last := now\<rparr>
      in if tokens \<ge> 1 then (True, b'\<lparr>bk_tokens := tokens - 1\<rparr>) else (False, b'))"

text \<open>
  A process's buckets and the Redis it talks to: counters with the time they expire, and the cached
  thresholds.  \<open>gw_redis\<close> tells whether Redis answers.
\<close>

record gateway =
  gw_buckets :: "(string \<times> bucket) list"
  gw_counters :: "(string \<times> int \<times> time option) list"
  gw_rps :: "(string \<times> int \<times> time) list"
  gw_redis :: bool

definition live :: "time \<Rightarrow> (string \<times> 'v \<times> time) list \<Rightarrow> string \<Rightarrow> 'v option" where
  "live now kv k = (case map_of kv k of None \<Rightarrow> None | Some (v, e) \<Rightarrow> if now < e then Some v else None)"

definition rps_key :: "string \<Rightarrow> string" where "rps_key tenant_id = ''cuckoo:rps:'' @ tenant_id"

definition get_user_rps :: "tenant_row list \<Rightarrow> string \<Rightarrow> nat \<Rightarrow> time \<Rightarrow> gateway \<Rightarrow> int \<times> gateway" where
  "get_user_rps tenants tenant_id t now g =
     (case (if gw_redis g then live now (gw_rps g) (rps_key tenant_id) else None) of
        Some rps \<Rightarrow> (rps, g)
      | None \<Rightarrow>
          (let rps = (case fetchrow (\<lambda>r. tn_id r = t) tenants of
                        None \<Rightarrow> 10 | Some r \<Rightarrow> (case tn_user_rps r of None \<Rightarrow> 10 | Some n \<Rightarrow> n))
           in (rps, if gw_redis g then g\<lparr>gw_rps := AList.update (rps_key tenant_id) (rps, now + 60) (gw_rps g)\<rparr> else g)))"

text \<open>INCR on a key, absent or expired counting as 0, and EXPIRE after the first.\<close>

definition incr_counter :: "string \<Rightarrow> time \<Rightarrow> gateway \<Rightarrow> int \<times> gateway" where
  "incr_counter k now g =
     (case map_of (gw_counters g) k of
        Some (n, e) \<Rightarrow>
          if (case e of None \<Rightarrow> True | Some e \<Rightarrow> now < e)
          then (n + 1, g\<lparr>gw_counters := AList.update k (n + 1, e) (gw_counters g)\<rparr>)
          else (1, g\<lparr>gw_counters := AList.update k (1, Some (now + 1)) (gw_counters g)\<rparr>)
      | None \<Rightarrow> (1, g\<lparr>gw_counters := AList.update k (1, Some (now + 1)) (gw_counters g)\<rparr>))"

definition bucket_key :: "string \<Rightarrow> string \<Rightarrow> string" where "bucket_key tenant_id user_id = tenant_id @ '':'' @ user_id"

definition bucket_for :: "string \<Rightarrow> int \<Rightarrow> time \<Rightarrow> gateway \<Rightarrow> bucket" where
  "bucket_for k rps now g =
     (let b = (case map_of (gw_buckets g) k of None \<Rightarrow> new_bucket 10 now | Some b \<Rightarrow> b)
      in if bk_capacity b \<noteq> rps then new_bucket rps now else b)"

text \<open>The tenant is the text of its UUID and the UUID itself.\<close>

definition rate_limit ::
  "tenant_row list \<Rightarrow> string \<Rightarrow> (string \<times> nat) option \<Rightarrow> string option \<Rightarrow> time \<Rightarrow> gateway \<Rightarrow> (exn + verdict) \<times> gateway" where
  "rate_limit tenants path tenant user_header now g0 =
     (if path = ''/health'' then (Inr (Pass (map_option snd tenant)), g0)
      else case tenant of
        None \<Rightarrow> (Inr (Pass None), g0)
      | Some (tenant_id, t) \<Rightarrow>
          (let user_id = (case user_header of None \<Rightarrow> ''anonymous'' | Some u \<Rightarrow> u);
               (rps, g1) = get_user_rps tenants tenant_id t now g0;
               k = bucket_key tenant_id user_id;
               (ok, b) = allow now (bucket_for k rps now g1);
               g2 = g1\<lparr>gw_buckets := AList.update k b (gw_buckets g1)\<rparr>
           in if \<not> ok then (Inr (Refuse 429), g2)
              else if \<not> gw_redis g2 then (Inl ConnectionError, g2)
              else (let (count, g3) = incr_counter (ratelimit_key tenant_id user_id) now g2
                    in (Inr (if count > rps then Refuse 429 else Pass (Some t)), g3))))"

section \<open>Media formats\<close>

definition slice :: "nat \<Rightarrow> nat \<Rightarrow> 'a list \<Rightarrow> 'a list" where \<comment> \<open>\<open>xs[i:j]\<close>\<close>
  "slice i j xs = take (j - i) (drop i xs)"

definition validate_media_format :: "nat list \<Rightarrow> (string \<times> string) option" where
  "validate_media_format header =
     (if length header < 4 then None
      else if slice 0 3 header = [0xff, 0xd8, 0xff] then Some (''jpeg'', ''image'')
      else if slice 0 4 header = [0x89, 0x50, 0x4e, 0x47] then Some (''png'', ''image'')
      else if slice 0 4 header = [0x52, 0x49, 0x46, 0x46] \<and> length header \<ge> 12
              \<and> slice 8 12 header = [0x57, 0x45, 0x42, 0x50] then Some (''webp'', ''image'')
      else if slice 0 4 header = [0x52, 0x49, 0x46, 0x46] \<and> length header \<ge> 12
              \<and> slice 8 12 header = [0x57, 0x41, 0x56, 0x45] then Some (''wav'', ''audio'')
      else if slice 0 2 header \<in> {[0xff, 0xfb], [0xff, 0xf3], [0xff, 0xf2]} then Some (''mp3'', ''audio'')
      else if slice 0 3 header = [0x49, 0x44, 0x33] then Some (''mp3'', ''audio'')
      else if length header \<ge> 8 \<and> slice 4 8 header = [0x66, 0x74, 0x79, 0x70] then Some (''m4a'', ''audio'')
      else None)"

section \<open>Admin tokens\<close>

record claims =
  cl_admin :: nat
  cl_tenant :: nat
  cl_role :: string
  cl_exp :: time
  cl_iat :: time

record admin_user =
  au_id :: nat
  au_tenant :: nat
  au_email :: string
  au_hash :: string
  au_role :: string

datatype jwt_result = Valid claims | Expired | Invalid

definition EXEMPT_PATHS :: "string list" where
  "EXEMPT_PATHS = [''/health'', ''/admin/v1/auth/login'', ''/docs'', ''/openapi.json'']"

text \<open>The token of an \<open>Authorization\<close> header is whatever text follows \<open>Bearer\<close>.\<close>

definition jwt_auth :: "(string \<Rightarrow> time \<Rightarrow> jwt_result) \<Rightarrow> string \<Rightarrow> string option \<Rightarrow> time \<Rightarrow> nat + claims option" where
  "jwt_auth decode path authorization now =
     (if path \<in> set EXEMPT_PATHS then Inr None
      else (let auth = (case authorization of None \<Rightarrow> [] | Some a \<Rightarrow> a) in
        if \<not> starts_with ''Bearer '' auth then Inl 401
        else case decode (drop 7 auth) now of
          Valid c \<Rightarrow> Inr (Some c) | Expired \<Rightarrow> Inl 401 | Invalid \<Rightarrow> Inl 401))"

definition login ::
  "(string \<Rightarrow> string \<Rightarrow> bool) \<Rightarrow> (claims \<Rightarrow> string) \<Rightarrow> admin_user list \<Rightarrow> string \<Rightarrow> string \<Rightarrow> time \<Rightarrow> exn + string" where
  "login checkpw encode users email password now =
     (case fetchrow (\<lambda>u. au_email u = email) users of
        None \<Rightarrow> Inl (HTTPException 401)
      | Some u \<Rightarrow>
          if \<not> checkpw password (au_hash u) then Inl (HTTPException 401)
          else Inr (encode \<lparr>cl_admin = au_id u, cl_tenant = au_tenant u, cl_role = au_role u,
                           cl_exp = now + 24 * 3600, cl_iat = now\<rparr>))"

definition refresh :: "(claims \<Rightarrow> string) \<Rightarrow> claims \<Rightarrow> time \<Rightarrow> string" where
  "refresh encode c now = encode \<lparr>cl_admin = cl_admin c, cl_tenant = cl_tenant c, cl_role = cl_role c,
                                 cl_exp = now + 24 * 3600, cl_iat = now\<rparr>"

section \<open>The bucket's bound\<close>

definition bucket_ok :: "int \<Rightarrow> bucket \<Rightarrow> bool" where
  "bucket_ok r b \<longleftrightarrow> bk_capacity b = r \<and> 0 \<le> bk_tokens b \<and> bk_tokens b \<le> of_int r"

lemma allow_bound:
  assumes "bucket_ok r b" and "0 \<le> r" and "bk_last b \<le> now" and "allow now b = (ok, b')"
  shows "bucket_ok r b' \<and> bk_last b' = now
    \<and> bk_tokens b' + (if ok then 1 else 0) \<le> bk_tokens b + (now - bk_last b) * of_int r"
proof -
  have "0 \<le> (now - bk_last b) * of_int r" using assms(2,3) by simp
  then show ?thesis using assms
    by (auto simp: allow_def bucket_ok_def Let_def split: if_splits)
qed

text \<open>What the key \<open>k\<close> may still use at a time, when its threshold is \<open>r\<close>.\<close>

definition potential :: "string \<Rightarrow> int \<Rightarrow> time \<Rightarrow> gateway \<Rightarrow> rat" where
  "potential k r now g =
     (case map_of (gw_buckets g) k of
        None \<Rightarrow> of_int r
      | Some b \<Rightarrow> if bk_capacity b = r then bk_tokens b + (now - bk_last b) * of_int r else of_int r)"

definition buckets_ok :: "string \<Rightarrow> int \<Rightarrow> time \<Rightarrow> gateway \<Rightarrow> bool" where
  "buckets_ok k r now g \<longleftrightarrow>
     (\<forall>b. map_of (gw_buckets g) k = Some b \<and> bk_capacity b = r \<longrightarrow> bucket_ok r b \<and> bk_last b \<le> now)"

lemma bucket_for_ok:
  assumes "0 \<le> r" and "buckets_ok k r now g"
  shows "bucket_ok r (bucket_for k r now g) \<and> bk_last (bucket_for k r now g) \<le> now
    \<and> bk_tokens (bucket_for k r now g) + (now - bk_last (bucket_for k r now g)) * of_int r = potential k r now g"
  using assms
  by (auto simp: bucket_for_def Let_def potential_def buckets_ok_def bucket_ok_def new_bucket_def split: option.splits)

lemma incr_buckets [simp]: "gw_buckets (snd (incr_counter c now g)) = gw_buckets g"
  by (simp add: incr_counter_def split: option.split prod.split)

lemma rps_buckets [simp]: "gw_buckets (snd (get_user_rps tenants tid t now g)) = gw_buckets g"
  by (simp add: get_user_rps_def Let_def split: option.split)

text \<open>The threshold the database gives a tenant, and a cache that agrees with it.\<close>

definition db_rps :: "tenant_row list \<Rightarrow> nat \<Rightarrow> int" where
  "db_rps tenants t = (case fetchrow (\<lambda>r. tn_id r = t) tenants of
     None \<Rightarrow> 10 | Some r \<Rightarrow> (case tn_user_rps r of None \<Rightarrow> 10 | Some n \<Rightarrow> n))"

definition cache_agrees :: "tenant_row list \<Rightarrow> gateway \<Rightarrow> bool" where
  "cache_agrees tenants g \<longleftrightarrow>
     (\<forall>tid v e. map_of (gw_rps g) (rps_key tid) = Some (v, e) \<longrightarrow> (\<exists>t. uuid_parse tid = Some t \<and> v = db_rps tenants t))"

lemma rps_key_inj [simp]: "rps_key a = rps_key b \<longleftrightarrow> a = b"
  by (simp add: rps_key_def)

lemma cache_agreesD:
  "cache_agrees tenants g \<Longrightarrow> map_of (gw_rps g) (rps_key tid) = Some (v, e) \<Longrightarrow> uuid_parse tid = Some t \<Longrightarrow>
   v = db_rps tenants t"
  unfolding cache_agrees_def by fastforce

lemma cache_agrees_update:
  "cache_agrees tenants g \<Longrightarrow> uuid_parse tid = Some t \<Longrightarrow>
   cache_agrees tenants (g\<lparr>gw_rps := AList.update (rps_key tid) (db_rps tenants t, e) (gw_rps g)\<rparr>)"
  unfolding cache_agrees_def by auto

lemma get_user_rps_db:
  assumes "cache_agrees tenants g" and "uuid_parse tid = Some t"
  shows "fst (get_user_rps tenants tid t now g) = db_rps tenants t
    \<and> cache_agrees tenants (snd (get_user_rps tenants tid t now g))"
  using assms cache_agreesD [OF assms(1) _ assms(2)] cache_agrees_update [OF assms]
  unfolding get_user_rps_def db_rps_def [symmetric] Let_def
  by (auto simp: live_def split: option.splits if_splits)

lemma incr_rps [simp]: "cache_agrees tenants (snd (incr_counter c now g)) = cache_agrees tenants g"
  by (simp add: incr_counter_def cache_agrees_def split: option.split prod.split)

lemma takeWhile_separator: "c \<notin> set xs \<Longrightarrow> takeWhile (\<lambda>x. x \<noteq> c) (xs @ c # ys) = xs"
  by (induction xs) auto

lemma bucket_key_inj:
  assumes "CHR '':'' \<notin> set t" and "CHR '':'' \<notin> set t'" and "bucket_key t u = bucket_key t' u'"
  shows "t = t'"
proof -
  let ?p = "\<lambda>c. c \<noteq> CHR '':''"
  have "takeWhile ?p (bucket_key t u) = t" "takeWhile ?p (bucket_key t' u') = t'"
    using assms(1,2) by (simp_all add: bucket_key_def takeWhile_separator)
  with assms(3) show ?thesis by simp
qed

text \<open>What one request does to the bucket of its key, and to the others.\<close>

lemma rate_limit_step:
  assumes "cache_agrees tenants g" and "uuid_parse tid = Some t" and "path \<noteq> ''/health''"
    and s: "rate_limit tenants path (Some (tid, t)) user now g = (v, g')"
  defines "u \<equiv> (case user of None \<Rightarrow> ''anonymous'' | Some u \<Rightarrow> u)"
  shows "cache_agrees tenants g' \<and>
    (\<exists>ok b. allow now (bucket_for (bucket_key tid u) (db_rps tenants t) now g) = (ok, b) \<and>
       map_of (gw_buckets g') = (map_of (gw_buckets g))(bucket_key tid u \<mapsto> b) \<and>
       ((\<exists>i. v = Inr (Pass i)) \<longrightarrow> ok))"
proof -
  obtain rps g1 where r: "get_user_rps tenants tid t now g = (rps, g1)" by fastforce
  have g1: "rps = db_rps tenants t" "cache_agrees tenants g1" "gw_buckets g1 = gw_buckets g"
    using get_user_rps_db [OF assms(1,2), of now] rps_buckets [of tenants tid t now g] r by auto
  have bf: "bucket_for k r now g1 = bucket_for k r now g" for k r by (simp add: bucket_for_def g1(3))
  obtain ok b where a: "allow now (bucket_for (bucket_key tid u) rps now g1) = (ok, b)" by fastforce
  define g2 where "g2 = g1\<lparr>gw_buckets := AList.update (bucket_key tid u) b (gw_buckets g1)\<rparr>"
  have g2: "cache_agrees tenants g2" "map_of (gw_buckets g2) = (map_of (gw_buckets g))(bucket_key tid u \<mapsto> b)"
    using g1 by (simp_all add: g2_def cache_agrees_def)
  have "g' = g2 \<and> \<not> ok \<and> v = Inr (Refuse 429) \<or> ok \<and> (g' = g2 \<and> v = Inl ConnectionError
      \<or> g' = snd (incr_counter (ratelimit_key tid u) now g2))"
    using s assms(3) r a unfolding rate_limit_def u_def [symmetric] g2_def
    by (auto simp: Let_def split: prod.splits if_splits)
  then have "cache_agrees tenants g' \<and> map_of (gw_buckets g') = map_of (gw_buckets g2) \<and> ((\<exists>i. v = Inr (Pass i)) \<longrightarrow> ok)"
    using g2(1) incr_rps incr_buckets by auto
  then show ?thesis using a g1(1) g2(2) bf by auto
qed

text \<open>A run of requests (tenant text, tenant, user header, time); the users' keys that got through.\<close>

type_synonym rl_request = "string \<times> nat \<times> string option \<times> time"

definition key_of_request :: "rl_request \<Rightarrow> string" where
  "key_of_request q = (case q of (tid, t, user, now) \<Rightarrow>
     bucket_key tid (case user of None \<Rightarrow> ''anonymous'' | Some u \<Rightarrow> u))"

fun passed :: "tenant_row list \<Rightarrow> rl_request list \<Rightarrow> gateway \<Rightarrow> string list" where
  "passed tenants [] g = []"
| "passed tenants ((tid, t, user, now) # qs) g =
     (case rate_limit tenants ''/v1/chat'' (Some (tid, t)) user now g of
        (v, g') \<Rightarrow> (case v of Inr (Pass _) \<Rightarrow> key_of_request (tid, t, user, now) # passed tenants qs g'
                   | _ \<Rightarrow> passed tenants qs g'))"

definition requests_ok :: "rl_request list \<Rightarrow> bool" where
  "requests_ok qs \<longleftrightarrow> sorted (map (\<lambda>(tid, t, u, now). now) qs) \<and>
     (\<forall>(tid, t, u, now) \<in> set qs. uuid_parse tid = Some t \<and> CHR '':'' \<notin> set tid)"

lemma potential_later: "0 \<le> r \<Longrightarrow> now \<le> e \<Longrightarrow> potential k r e g \<le> potential k r now g + (e - now) * of_int r"
  using mult_right_mono [of now e "of_int r"] by (auto simp: potential_def algebra_simps split: option.split)

lemma buckets_ok_later: "buckets_ok k r s g \<Longrightarrow> s \<le> now \<Longrightarrow> buckets_ok k r now g"
  unfolding buckets_ok_def by (blast intro: order_trans)

lemma passed_bound:
  assumes "0 \<le> r" and "CHR '':'' \<notin> set tid" and "uuid_parse tid = Some t" and "r = db_rps tenants t"
  shows "requests_ok qs \<Longrightarrow> cache_agrees tenants g \<Longrightarrow> buckets_ok (bucket_key tid u) r s g \<Longrightarrow>
    \<forall>(_, _, _, now) \<in> set qs. s \<le> now \<and> now \<le> e \<Longrightarrow> s \<le> e \<Longrightarrow>
    of_nat (count_list (passed tenants qs g) (bucket_key tid u)) \<le> potential (bucket_key tid u) r s g + (e - s) * of_int r"
proof (induction qs arbitrary: g s)
  case Nil
  have "0 \<le> potential (bucket_key tid u) r s g"
    using Nil(3) assms(1) by (auto simp: potential_def buckets_ok_def bucket_ok_def split: option.splits)
  with Nil(5) assms(1) show ?case by simp
next
  case (Cons q qs)
  let ?k = "bucket_key tid u"
  obtain tid' t' u' now where q: "q = (tid', t', u', now)" by (cases q)
  have prem: "uuid_parse tid' = Some t'" "CHR '':'' \<notin> set tid'" "s \<le> now" "now \<le> e"
      "requests_ok qs" "\<forall>(_, _, _, w) \<in> set qs. now \<le> w \<and> w \<le> e"
    using Cons.prems(1,4) by (auto simp: requests_ok_def q)
  obtain v g' where s': "rate_limit tenants ''/v1/chat'' (Some (tid', t')) u' now g = (v, g')" by fastforce
  let ?k' = "key_of_request q"
  have k': "?k' = bucket_key tid' (case u' of None \<Rightarrow> ''anonymous'' | Some u \<Rightarrow> u)" by (simp add: q key_of_request_def)
  have "cache_agrees tenants g' \<and> (\<exists>ok b. allow now (bucket_for ?k' (db_rps tenants t') now g) = (ok, b) \<and>
      map_of (gw_buckets g') = (map_of (gw_buckets g))(?k' \<mapsto> b) \<and> ((\<exists>i. v = Inr (Pass i)) \<longrightarrow> ok))"
    unfolding k' by (rule rate_limit_step [OF Cons.prems(2) prem(1) _ s']) simp
  then obtain ok b where st: "cache_agrees tenants g'" "allow now (bucket_for ?k' (db_rps tenants t') now g) = (ok, b)"
      "map_of (gw_buckets g') = (map_of (gw_buckets g))(?k' \<mapsto> b)" "(\<exists>i. v = Inr (Pass i)) \<longrightarrow> ok"
    by blast
  have later: "buckets_ok ?k r now g" by (rule buckets_ok_later [OF Cons.prems(3) prem(3)])
  have pot: "potential ?k r now g \<le> potential ?k r s g + (now - s) * of_int r"
    by (rule potential_later [OF assms(1) prem(3)])
  have "buckets_ok ?k r now g' \<and>
    potential ?k r now g' + (if (\<exists>i. v = Inr (Pass i)) \<and> ?k' = ?k then 1 else 0) \<le> potential ?k r now g"
  proof (cases "?k' = ?k")
    case False
    then show ?thesis using st(3) later by (auto simp: buckets_ok_def potential_def)
  next
    case True
    then have "tid' = tid" using bucket_key_inj [OF prem(2) assms(2)] k' by metis
    then have r: "db_rps tenants t' = r" using prem(1) assms(3,4) by simp
    note f = bucket_for_ok [OF assms(1) later]
    have "bucket_ok r b \<and> bk_last b = now \<and> bk_tokens b + (if ok then 1 else 0) \<le> potential ?k r now g"
      using allow_bound [of r "bucket_for ?k r now g" now ok b] f assms(1) st(2) True r by simp
    then show ?thesis using st(3,4) True by (auto simp: buckets_ok_def potential_def bucket_ok_def split: if_splits)
  qed
  then have "of_nat (count_list (passed tenants qs g') ?k) \<le> potential ?k r now g' + (e - now) * of_int r"
    and "potential ?k r now g' + (if (\<exists>i. v = Inr (Pass i)) \<and> ?k' = ?k then 1 else 0) \<le> potential ?k r now g"
    using Cons.IH [OF prem(5) st(1) _ prem(6,4)] by auto
  moreover have "count_list (passed tenants (q # qs) g) ?k =
      (if (\<exists>i. v = Inr (Pass i)) \<and> ?k' = ?k then 1 else 0) + count_list (passed tenants qs g') ?k"
    using s' by (auto simp: q split: sum.split verdict.split)
  ultimately show ?case using pot by (auto simp: algebra_simps split: if_splits)
qed

section \<open>Properties\<close>

text \<open>C25: the rate limit holds for the whole run.  Whatever requests of whatever tenants and users are
  mixed, one user of a tenant with threshold \<open>r\<close> gets at most \<open>r\<close> requests through plus \<open>r\<close> for each
  second of the run, in one gateway process.\<close>

theorem rate_limit_bound:
  assumes "requests_ok qs" and "\<forall>(_, _, _, now) \<in> set qs. s \<le> now \<and> now \<le> e" and "s \<le> e"
    and "gw_buckets g = []" and "cache_agrees tenants g"
    and "uuid_parse tid = Some t" and "CHR '':'' \<notin> set tid" and "0 \<le> db_rps tenants t"
  shows "of_nat (count_list (passed tenants qs g) (bucket_key tid u)) \<le>
    (of_int (db_rps tenants t) + (e - s) * of_int (db_rps tenants t) :: rat)"
proof -
  have b: "buckets_ok (bucket_key tid u) (db_rps tenants t) s g" using assms(4) by (simp add: buckets_ok_def)
  from passed_bound [OF assms(8,7,6) refl assms(1,5) b assms(2,3)] assms(4)
  show ?thesis by (simp add: potential_def)
qed

definition gw_empty :: gateway where
  "gw_empty = \<lparr>gw_buckets = [], gw_counters = [], gw_rps = [], gw_redis = True\<rparr>"

theorem rate_limit_bound_witness:
  "of_nat (count_list (passed [] (replicate 25 (uuid1, 1, Some ''bob'', 0)) gw_empty) (bucket_key uuid1 ''bob'')) \<le> (10 :: rat)"
  using rate_limit_bound [of "replicate 25 (uuid1, 1, Some ''bob'', 0)" 0 0 gw_empty "[]" uuid1 1 "''bob''"]
  by (simp add: requests_ok_def gw_empty_def cache_agrees_def db_rps_def map_replicate)

text \<open>The user id is the client's \<open>X-User-ID\<close> header, so the limit does not bind a client that changes
  it: any number of requests of one tenant at one instant get through, each under its own id.\<close>

theorem rate_limit_evaded:
  assumes "distinct us" and "gw_redis g" and "uuid_parse tid = Some t" and "cache_agrees tenants g"
    and "1 \<le> db_rps tenants t"
    and "\<forall>u \<in> set us. map_of (gw_buckets g) (bucket_key tid u) = None"
    and "\<forall>u \<in> set us. map_of (gw_counters g) (ratelimit_key tid u) = None"
  shows "passed tenants (map (\<lambda>u. (tid, t, Some u, now)) us) g = map (bucket_key tid) us"
  using assms
proof (induction us arbitrary: g)
  case Nil
  then show ?case by simp
next
  case (Cons u us)
  obtain rps g1 where r: "get_user_rps tenants tid t now g = (rps, g1)" by fastforce
  have g1: "rps = db_rps tenants t" "cache_agrees tenants g1" "gw_buckets g1 = gw_buckets g"
      "gw_counters g1 = gw_counters g" "gw_redis g1"
    using get_user_rps_db [OF Cons.prems(4,3), of now] rps_buckets [of tenants tid t now g] r Cons.prems(2)
    by (auto simp: get_user_rps_def Let_def split: option.splits if_splits)
  let ?b = "bucket_for (bucket_key tid u) rps now g1"
  have "?b = new_bucket rps now" using Cons.prems(6) g1(3) by (simp add: bucket_for_def new_bucket_def)
  then obtain b where a: "allow now ?b = (True, b)"
    using Cons.prems(5) g1(1) by (simp add: allow_def new_bucket_def Let_def)
  define g2 where "g2 = g1\<lparr>gw_buckets := AList.update (bucket_key tid u) b (gw_buckets g1)\<rparr>"
  define g3 where "g3 = g2\<lparr>gw_counters := AList.update (ratelimit_key tid u) (1, Some (now + 1)) (gw_counters g2)\<rparr>"
  have i: "incr_counter (ratelimit_key tid u) now g2 = (1, g3)"
    using Cons.prems(7) g1(4) by (simp add: incr_counter_def g2_def g3_def)
  have rl: "rate_limit tenants ''/v1/chat'' (Some (tid, t)) (Some u) now g = (Inr (Pass (Some t)), g3)"
    using r a i g1(1,5) Cons.prems(5) by (simp add: rate_limit_def g2_def [symmetric])
  have "passed tenants (map (\<lambda>u. (tid, t, Some u, now)) us) g3 = map (bucket_key tid) us"
    using Cons.prems g1 by (intro Cons.IH)
      (auto simp: g3_def g2_def cache_agrees_def bucket_key_def ratelimit_key_def)
  then show ?case by (simp add: rl key_of_request_def)
qed

theorem rate_limit_evaded_witness:
  "length (passed [] (map (\<lambda>n. (uuid1, 1, Some (replicate n CHR ''a''), 0)) [0..<500]) gw_empty) = 500"
proof -
  have "distinct (map (\<lambda>n. replicate n CHR ''a'') [0..<500])" by (auto simp: distinct_map inj_on_def)
  from rate_limit_evaded [OF this, of gw_empty uuid1 1 "[]" 0]
  show ?thesis by (simp add: gw_empty_def cache_agrees_def db_rps_def comp_def del: upt_Suc upt_rec_numeral)
qed

text \<open>The gateway lets a request in as a tenant exactly when it bears a key whose SHA-256 is the stored
  hash of that tenant, which is active; everything else but the health check is refused with 401.\<close>

theorem tenant_auth_sound:
  assumes "distinct (map tn_key_hash tenants)" and "path \<noteq> ''/health''"
  shows "(tenant_auth tenants path auth = Pass (Some i) \<longleftrightarrow>
      (\<exists>key r. auth = Some (''Bearer '' @ key) \<and> key \<noteq> [] \<and> r \<in> set tenants \<and> tn_active r \<and>
         tn_key_hash r = sha256_hex key \<and> tn_id r = i))
    \<and> (tenant_auth tenants path auth = Refuse 401 \<or> (\<exists>i. tenant_auth tenants path auth = Pass (Some i)))"
proof -
  have key: "api_key_of a = Some k \<longleftrightarrow> a = ''Bearer '' @ k \<and> k \<noteq> []" for a k
    by (auto simp: api_key_of_def starts_with_iff)
  define k where "k = api_key_of (case auth of None \<Rightarrow> [] | Some a \<Rightarrow> a)"
  show ?thesis
  proof (cases k)
    case None
    then have "auth \<noteq> Some (''Bearer '' @ x) \<or> x = []" for x
      using key [of "''Bearer '' @ x" x] by (auto simp: k_def)
    then show ?thesis using None assms(2) by (auto simp: tenant_auth_def k_def [symmetric])
  next
    case (Some x)
    then have x: "auth = Some (''Bearer '' @ x)" "x \<noteq> []" using key [of "case auth of None \<Rightarrow> [] | Some a \<Rightarrow> a" x]
      by (auto simp: k_def split: option.splits)
    have only: "auth = Some (''Bearer '' @ y) \<longleftrightarrow> y = x" for y using x(1) by auto
    show ?thesis
    proof (cases "fetchrow (\<lambda>r. tn_key_hash r = sha256_hex x) tenants")
      case None
      then have "tn_key_hash r \<noteq> sha256_hex x" if "r \<in> set tenants" for r using that by (simp add: fetchrow_None)
      then show ?thesis using None Some assms(2) unfolding only tenant_auth_def k_def [symmetric] by auto
    next
      case (Some r)
      then have r: "r \<in> set tenants" "tn_key_hash r = sha256_hex x" by (auto dest!: fetchrow_SomeD)
      have "r' = r" if "r' \<in> set tenants" "tn_key_hash r' = sha256_hex x" for r'
        using inj_onD [OF _ _ that(1) r(1), of tn_key_hash] assms(1) that(2) r(2) by (simp add: distinct_map)
      then have "(\<exists>y r'. y = x \<and> y \<noteq> [] \<and> r' \<in> set tenants \<and> tn_active r' \<and> tn_key_hash r' = sha256_hex y \<and> tn_id r' = i)
          \<longleftrightarrow> tn_active r \<and> tn_id r = i" using r x(2) by blast
      moreover have "tenant_auth tenants path auth = (if \<not> tn_active r then Refuse 401 else Pass (Some (tn_id r)))"
        using Some \<open>k = Some x\<close> assms(2) by (simp add: tenant_auth_def k_def [symmetric])
      ultimately show ?thesis unfolding only by simp
    qed
  qed
qed

theorem tenant_auth_sound_witness:
  "tenant_auth [\<lparr>tn_id = 1, tn_key_hash = sha256_hex ''k'', tn_active = True, tn_user_rps = None\<rparr>] ''/v1/chat''
     (Some ''Bearer k'') = Pass (Some 1)"
  using tenant_auth_sound [of "[\<lparr>tn_id = 1, tn_key_hash = sha256_hex ''k'', tn_active = True, tn_user_rps = None\<rparr>]"
      "''/v1/chat''" "Some ''Bearer k''" 1] by simp

text \<open>A login's token authenticates as that admin, tenant and role for 24 hours and not longer, and a
  refreshed token for 24 hours from its refresh, given that the JWT library decodes what it encoded
  until it expires.\<close>

theorem admin_token_lifetime:
  assumes law: "\<And>c w. decode (encode c) w = (if w < cl_exp c then Valid c else Expired)"
    and "login checkpw encode users email password now = Inr token" and "path \<notin> set EXEMPT_PATHS"
  shows "\<exists>u c. u \<in> set users \<and> au_email u = email \<and> checkpw password (au_hash u) \<and> cl_admin c = au_id u \<and>
    cl_tenant c = au_tenant u \<and> cl_role c = au_role u \<and>
    (\<forall>w. jwt_auth decode path (Some (''Bearer '' @ token)) w = (if w < now + 86400 then Inr (Some c) else Inl 401)) \<and>
    (\<forall>w w'. jwt_auth decode path (Some (''Bearer '' @ refresh encode c w)) w' =
       (if w' < w + 86400 then Inr (Some (c\<lparr>cl_exp := w + 86400, cl_iat := w\<rparr>)) else Inl 401))"
proof -
  obtain u where u: "fetchrow (\<lambda>u. au_email u = email) users = Some u" "checkpw password (au_hash u)"
    using assms(2) by (auto simp: login_def split: option.splits if_splits)
  then have mem: "u \<in> set users" "au_email u = email" by (auto dest!: fetchrow_SomeD)
  let ?c = "\<lparr>cl_admin = au_id u, cl_tenant = au_tenant u, cl_role = au_role u, cl_exp = now + 86400, cl_iat = now\<rparr>"
  have tok: "token = encode ?c" using assms(2) u by (simp add: login_def)
  have j: "jwt_auth decode path (Some (''Bearer '' @ encode c)) w = (if w < cl_exp c then Inr (Some c) else Inl 401)" for c w
    using assms(3) law by (simp add: jwt_auth_def starts_with_def)
  show ?thesis
    by (rule exI [of _ u], rule exI [of _ ?c]) (use u mem in \<open>simp add: tok j [simplified] refresh_def\<close>)
qed

text \<open>A codec that satisfies the law: the claims numbered, the token that many letters long.\<close>

definition demo_encode :: "claims \<Rightarrow> string" where
  "demo_encode c = replicate (to_nat (cl_admin c, cl_tenant c, map of_char (cl_role c) :: nat list, cl_exp c, cl_iat c)) CHR ''a''"

definition demo_decode :: "string \<Rightarrow> time \<Rightarrow> jwt_result" where
  "demo_decode s w = (case from_nat (length s) :: nat \<times> nat \<times> nat list \<times> rat \<times> rat of (a, t, r, e, i) \<Rightarrow>
     if w < e then Valid \<lparr>cl_admin = a, cl_tenant = t, cl_role = map char_of r, cl_exp = e, cl_iat = i\<rparr> else Expired)"

lemma demo_codec: "demo_decode (demo_encode c) w = (if w < cl_exp c then Valid c else Expired)"
  by (simp add: demo_decode_def demo_encode_def comp_def)

theorem admin_token_lifetime_witness:
  "\<exists>c. cl_tenant c = 1 \<and> (\<forall>w. jwt_auth demo_decode ''/x'' (Some (''Bearer '' @ demo_encode
     \<lparr>cl_admin = 4, cl_tenant = 1, cl_role = ''admin'', cl_exp = 86400, cl_iat = 0\<rparr>)) w =
       (if w < 86400 then Inr (Some c) else Inl 401))"
  using admin_token_lifetime [of demo_decode demo_encode "\<lambda>_ _. True"
      "[\<lparr>au_id = 4, au_tenant = 1, au_email = ''a@b'', au_hash = ''h'', au_role = ''admin''\<rparr>]" "''a@b''" "''p''" 0
      "demo_encode \<lparr>cl_admin = 4, cl_tenant = 1, cl_role = ''admin'', cl_exp = 86400, cl_iat = 0\<rparr>" "''/x''", OF demo_codec]
  by (simp add: login_def EXEMPT_PATHS_def split del: if_split) blast

text \<open>The media check looks at the first twelve bytes only, so checking the first 16 bytes of a file and
  checking the whole file give the same answer.\<close>

theorem media_format_prefix:
  assumes "12 \<le> n"
  shows "validate_media_format (take n file) = validate_media_format file"
proof -
  have s: "slice i j (take n file) = slice i j file" if "j \<le> 12" for i j
    using that assms by (simp add: slice_def drop_take min_def)
  have l: "min (length file) n < 4 \<longleftrightarrow> length file < 4" "12 \<le> min (length file) n \<longleftrightarrow> 12 \<le> length file"
    "8 \<le> min (length file) n \<longleftrightarrow> 8 \<le> length file"
    using assms by auto
  show ?thesis unfolding validate_media_format_def length_take l by (simp only: s)
qed

end
