(* ===== verification/Resilience.thy ===== *)
theory Resilience
  imports Db
begin

text \<open>
  The circuit breaker of \<^verbatim>\<open>shared/circuit_breaker.py\<close> and the retry decorators of
  \<^verbatim>\<open>shared/retry.py\<close>.  A protected call is two events, its admission and its end, and other calls may
  come between them: the breaker is a step relation over its fields and the number of calls in
  flight.
\<close>

section \<open>Circuit breaker\<close>

datatype circuit_state = CLOSED | OPEN | HALF_OPEN

record breaker =
  failure_threshold :: nat
  cb_timeout :: time
  half_open_max_calls :: nat
  failure_count :: nat
  last_failure_time :: time
  cb_state :: circuit_state
  half_open_calls :: nat
  success_count :: nat
  total_calls :: nat
  total_failures :: nat

definition new_breaker :: "nat \<Rightarrow> time \<Rightarrow> nat \<Rightarrow> breaker" where
  "new_breaker threshold timeout max_calls =
     \<lparr>failure_threshold = threshold, cb_timeout = timeout, half_open_max_calls = max_calls,
      failure_count = 0, last_failure_time = 0, cb_state = CLOSED, half_open_calls = 0,
      success_count = 0, total_calls = 0, total_failures = 0\<rparr>"

text \<open>The property \<open>state\<close>: reading it may move an open breaker to half-open.\<close>

definition read_state :: "time \<Rightarrow> breaker \<Rightarrow> breaker" where
  "read_state now cb =
     (if cb_state cb = OPEN \<and> now - last_failure_time cb \<ge> cb_timeout cb
      then cb\<lparr>cb_state := HALF_OPEN, half_open_calls := 0\<rparr> else cb)"

definition record_success :: "breaker \<Rightarrow> breaker" where
  "record_success cb =
     (let cb = cb\<lparr>failure_count := 0, total_calls := total_calls cb + 1\<rparr> in
      if cb_state cb = HALF_OPEN
      then (let cb = cb\<lparr>success_count := success_count cb + 1\<rparr> in
            if success_count cb \<ge> half_open_max_calls cb then cb\<lparr>cb_state := CLOSED, success_count := 0\<rparr> else cb)
      else cb)"

definition record_failure :: "time \<Rightarrow> breaker \<Rightarrow> breaker" where
  "record_failure now cb =
     (let cb = cb\<lparr>failure_count := failure_count cb + 1, total_failures := total_failures cb + 1,
                  total_calls := total_calls cb + 1, last_failure_time := now\<rparr> in
      if cb_state cb = HALF_OPEN then cb\<lparr>cb_state := OPEN\<rparr>
      else if failure_count cb \<ge> failure_threshold cb then cb\<lparr>cb_state := OPEN\<rparr> else cb)"

text \<open>The first half of \<open>call\<close>: whether the function is called, or \<open>CircuitOpenError\<close> is raised.\<close>

definition admit :: "time \<Rightarrow> breaker \<Rightarrow> bool \<times> breaker" where
  "admit now cb0 =
     (let cb = read_state now cb0 in
      if cb_state cb = OPEN then (False, cb)
      else if cb_state cb = HALF_OPEN
      then (if half_open_calls cb \<ge> half_open_max_calls cb then (False, cb)
            else (True, cb\<lparr>half_open_calls := half_open_calls cb + 1\<rparr>))
      else (True, cb))"

text \<open>How a call may end; a cancelled one raises \<open>CancelledError\<close>, which \<open>except Exception\<close> lets by.\<close>

datatype call_end = Succeeded | Failed | Cancelled

definition finish :: "time \<Rightarrow> call_end \<Rightarrow> breaker \<Rightarrow> breaker" where
  "finish now e cb = (case e of Succeeded \<Rightarrow> record_success cb | Failed \<Rightarrow> record_failure now cb | Cancelled \<Rightarrow> cb)"

definition cb_call :: "time \<Rightarrow> time \<Rightarrow> call_end \<Rightarrow> breaker \<Rightarrow> bool \<times> breaker" where
  "cb_call started ended e cb =
     (case admit started cb of (False, cb') \<Rightarrow> (False, cb') | (True, cb') \<Rightarrow> (True, finish ended e cb'))"

definition cb_reset :: "breaker \<Rightarrow> breaker" where
  "cb_reset cb = cb\<lparr>cb_state := CLOSED, failure_count := 0, success_count := 0, half_open_calls := 0\<rparr>"

definition success_rate :: "breaker \<Rightarrow> rat" where
  "success_rate cb = (of_nat (total_calls cb) - of_nat (total_failures cb)) / of_nat (max (total_calls cb) 1)"

record breaker_stats =
  bs_state :: circuit_state
  bs_failures :: nat
  bs_calls :: nat
  bs_total_failures :: nat
  bs_rate :: rat

definition get_stats :: "time \<Rightarrow> breaker \<Rightarrow> breaker_stats \<times> breaker" where
  "get_stats now cb0 = (let cb = read_state now cb0 in
     (\<lparr>bs_state = cb_state cb, bs_failures = failure_count cb, bs_calls = total_calls cb,
       bs_total_failures = total_failures cb, bs_rate = success_rate cb\<rparr>, cb))"

text \<open>The breaker with its calls in flight.\<close>

inductive cb_step :: "breaker \<times> nat \<Rightarrow> breaker \<times> nat \<Rightarrow> bool" where
  admitted: "admit now cb = (True, cb') \<Longrightarrow> cb_step (cb, n) (cb', n + 1)"
| rejected: "admit now cb = (False, cb') \<Longrightarrow> cb_step (cb, n) (cb', n)"
| finished: "cb_step (cb, Suc n) (finish now e cb, n)"
| reset: "cb_step (cb, n) (cb_reset cb, n)"
| stats: "cb_step (cb, n) (snd (get_stats now cb), n)"

inductive_cases cb_step_cases: "cb_step s t"

definition cb_init :: "nat \<Rightarrow> time \<Rightarrow> nat \<Rightarrow> breaker \<times> nat \<Rightarrow> bool" where
  "cb_init th tm mx s \<longleftrightarrow> s = (new_breaker th tm mx, 0)"

section \<open>The invariant\<close>

definition cb_inv :: "nat \<Rightarrow> time \<Rightarrow> nat \<Rightarrow> breaker \<times> nat \<Rightarrow> bool" where
  "cb_inv th tm mx s = (case s of (cb, n) \<Rightarrow>
     failure_threshold cb = th \<and> cb_timeout cb = tm \<and> half_open_max_calls cb = mx \<and>
     (cb_state cb = CLOSED \<and> 0 < th \<longrightarrow> failure_count cb < th) \<and>
     half_open_calls cb \<le> mx \<and> (0 < mx \<longrightarrow> success_count cb < mx) \<and> total_failures cb \<le> total_calls cb)"

lemma inv_read [inv_rules]: "cb_inv th tm mx (cb, n) \<Longrightarrow> cb_inv th tm mx (read_state now cb, m)"
  by (simp add: cb_inv_def read_state_def)

lemma inv_admit [inv_rules]:
  "admit now cb = (ok, cb') \<Longrightarrow> cb_inv th tm mx (cb, n) \<Longrightarrow> cb_inv th tm mx (cb', m)"
  using inv_read [of th tm mx cb n now m] by (auto simp: admit_def Let_def cb_inv_def split: if_splits)

lemma inv_finish [inv_rules]: "cb_inv th tm mx (cb, n) \<Longrightarrow> cb_inv th tm mx (finish now e cb, m)"
  by (cases e) (auto simp: finish_def cb_inv_def record_success_def record_failure_def Let_def)

lemma inv_reset [inv_rules]: "cb_inv th tm mx (cb, n) \<Longrightarrow> cb_inv th tm mx (cb_reset cb, m)"
  by (simp add: cb_inv_def cb_reset_def)

interpretation breaker: invariant_system "cb_init th tm mx" cb_step "cb_inv th tm mx" for th tm mx
proof
  show "cb_inv th tm mx s" if "cb_init th tm mx s" for s
    using that by (simp add: cb_init_def cb_inv_def new_breaker_def)
  show "cb_inv th tm mx t" if inv: "cb_inv th tm mx s" and st: "cb_step s t" for s t
    using st by (rule cb_step_cases) (use inv in \<open>auto intro: inv_rules simp: get_stats_def Let_def\<close>)
qed

section \<open>Recovery\<close>

text \<open>Calls one after the other, all successful: times at which they start.\<close>

fun good_calls :: "time list \<Rightarrow> breaker \<Rightarrow> breaker" where
  "good_calls [] cb = cb"
| "good_calls (t # ts) cb = good_calls ts (snd (cb_call t t Succeeded cb))"

lemma closed_good_call: "cb_state cb = CLOSED \<Longrightarrow> cb_state (snd (cb_call t t Succeeded cb)) = CLOSED"
  by (simp add: cb_call_def admit_def read_state_def Let_def finish_def record_success_def)

lemma closed_good_calls: "cb_state cb = CLOSED \<Longrightarrow> cb_state (good_calls ts cb) = CLOSED"
  by (induction ts arbitrary: cb) (simp_all add: closed_good_call)

lemma half_open_good_call:
  assumes "cb_state cb = HALF_OPEN" and "half_open_calls cb < half_open_max_calls cb"
  shows "fst (cb_call t t Succeeded cb) \<and>
    (let cb' = snd (cb_call t t Succeeded cb) in
       half_open_max_calls cb' = half_open_max_calls cb \<and>
       (cb_state cb' = CLOSED \<or> cb_state cb' = HALF_OPEN \<and> half_open_calls cb' = half_open_calls cb + 1
          \<and> success_count cb' = success_count cb + 1 \<and> success_count cb' < half_open_max_calls cb))"
  using assms by (auto simp: cb_call_def admit_def read_state_def Let_def finish_def record_success_def)

lemma half_open_closes:
  assumes "cb_state cb = HALF_OPEN" and "half_open_calls cb + length ts \<le> half_open_max_calls cb"
    and "half_open_max_calls cb \<le> success_count cb + length ts" and "success_count cb < half_open_max_calls cb"
  shows "cb_state (good_calls ts cb) = CLOSED"
  using assms
proof (induction ts arbitrary: cb)
  case Nil
  then show ?case by simp
next
  case (Cons t ts)
  let ?cb = "snd (cb_call t t Succeeded cb)"
  have h: "half_open_max_calls ?cb = half_open_max_calls cb"
    "cb_state ?cb = CLOSED \<or> cb_state ?cb = HALF_OPEN \<and> half_open_calls ?cb = half_open_calls cb + 1
          \<and> success_count ?cb = success_count cb + 1 \<and> success_count ?cb < half_open_max_calls cb"
    using half_open_good_call [OF Cons.prems(1), of t] Cons.prems(2) by (auto simp: Let_def)
  show ?case
  proof (cases "cb_state ?cb = CLOSED")
    case True
    then show ?thesis by (simp add: closed_good_calls)
  next
    case False
    with h Cons.prems show ?thesis by (auto intro: Cons.IH)
  qed
qed

section \<open>Retries\<close>

record retry_config =
  max_attempts :: nat
  base_delay :: rat
  max_delay :: rat
  exponential_base :: rat
  jitter :: bool

text \<open>\<open>rnd\<close> is the value of \<open>random.random()\<close>, between 0 and 1.\<close>

definition calculate_delay :: "retry_config \<Rightarrow> nat \<Rightarrow> rat \<Rightarrow> rat" where
  "calculate_delay c attempt rnd =
     (let delay = min (base_delay c * exponential_base c ^ attempt) (max_delay c)
      in if jitter c then delay * (1 / 2 + rnd) else delay)"

text \<open>
  The wrapper's loop from an attempt on.  \<open>f i\<close> is the outcome of the \<open>i\<close>-th call, \<open>retryable\<close> the
  exceptions of \<open>retryable_exceptions\<close>.  Gives the outcome (\<open>None\<close> for the \<open>raise None\<close> of a loop
  without attempts, a \<open>TypeError\<close>) and the delays slept.
\<close>

function retry_from ::
  "retry_config \<Rightarrow> ('e \<Rightarrow> bool) \<Rightarrow> (nat \<Rightarrow> rat) \<Rightarrow> (nat \<Rightarrow> 'e + 'a) \<Rightarrow> nat \<Rightarrow> 'e option \<Rightarrow> ('e + 'a) option \<times> rat list" where
  "retry_from c retryable rnd f attempt last_exception =
     (if attempt < max_attempts c then
        (case f attempt of
           Inr x \<Rightarrow> (Some (Inr x), [])
         | Inl e \<Rightarrow>
             if \<not> retryable e then (Some (Inl e), [])
             else if attempt < max_attempts c - 1 then
               (case retry_from c retryable rnd f (attempt + 1) (Some e) of
                  (r, ds) \<Rightarrow> (r, calculate_delay c attempt (rnd attempt) # ds))
             else retry_from c retryable rnd f (attempt + 1) (Some e))
      else (map_option Inl last_exception, []))"
  by pat_completeness auto
termination
  by (relation "measure (\<lambda>(c, _, _, _, attempt, _). max_attempts c - attempt)") auto

declare retry_from.simps [simp del]

definition with_retry ::
  "retry_config \<Rightarrow> ('e \<Rightarrow> bool) \<Rightarrow> (nat \<Rightarrow> rat) \<Rightarrow> (nat \<Rightarrow> 'e + 'a) \<Rightarrow> ('e + 'a) option \<times> rat list" where
  "with_retry c retryable rnd f = retry_from c retryable rnd f 0 None"

text \<open>The loop of \<open>sync_retry\<close> is the same, around a plain call and with \<open>time.sleep\<close>.\<close>

definition sync_retry ::
  "retry_config \<Rightarrow> ('e \<Rightarrow> bool) \<Rightarrow> (nat \<Rightarrow> rat) \<Rightarrow> (nat \<Rightarrow> 'e + 'a) \<Rightarrow> ('e + 'a) option \<times> rat list" where
  "sync_retry c retryable rnd f = retry_from c retryable rnd f 0 None"

text \<open>The attempt that decides: the first that succeeds or fails for good, or the last one.\<close>

definition decides :: "retry_config \<Rightarrow> ('e \<Rightarrow> bool) \<Rightarrow> (nat \<Rightarrow> 'e + 'a) \<Rightarrow> nat \<Rightarrow> bool" where
  "decides c retryable f i \<longleftrightarrow> i < max_attempts c \<and>
     ((\<forall>e. f i = Inl e \<longrightarrow> \<not> retryable e) \<or> i + 1 = max_attempts c)"

lemma retry_from_decides:
  assumes "i < max_attempts c" and "decides c retryable f j" and "i \<le> j"
    and "\<forall>k. i \<le> k \<and> k < j \<longrightarrow> \<not> decides c retryable f k"
  shows "retry_from c retryable rnd f i prev =
    (Some (f j), map (\<lambda>k. calculate_delay c k (rnd k)) [i..<j])"
  using assms
proof (induction "j - i" arbitrary: i prev)
  case 0
  then have ij: "i = j" by simp
  show ?case
  proof (cases "f j")
    case (Inr x)
    with 0 ij show ?thesis by (simp add: retry_from.simps)
  next
    case (Inl e)
    show ?thesis
    proof (cases "retryable e")
      case False
      with 0 ij Inl show ?thesis by (simp add: retry_from.simps)
    next
      case True
      then have "j + 1 = max_attempts c" using 0(3) Inl by (simp add: decides_def)
      with 0 ij Inl True show ?thesis
        by (simp add: retry_from.simps [of _ _ _ _ j]) (simp add: retry_from.simps)
    qed
  qed
next
  case (Suc n)
  then have lt: "i < j" by simp
  have "\<not> decides c retryable f i" using Suc.prems(4) lt by simp
  then obtain e where e: "f i = Inl e" "retryable e" "i + 1 \<noteq> max_attempts c"
    using Suc.prems(1) by (auto simp: decides_def)
  have rest: "retry_from c retryable rnd f (Suc i) (Some e) =
      (Some (f j), map (\<lambda>k. calculate_delay c k (rnd k)) [Suc i..<j])"
    using Suc.hyps(2) Suc.prems e(3) lt by (intro Suc.hyps(1)) auto
  have "[i..<j] = i # [Suc i..<j]" using lt by (simp add: upt_conv_Cons)
  with e rest Suc.prems(1) show ?case by (subst retry_from.simps) auto
qed

lemma some_decides:
  assumes "0 < max_attempts c"
  shows "\<exists>j. decides c retryable f j \<and> (\<forall>k < j. \<not> decides c retryable f k)"
proof -
  have "decides c retryable f (max_attempts c - 1)" using assms by (simp add: decides_def)
  then show ?thesis by (metis LeastI_ex not_less_Least)
qed

lemma delay_bounds:
  assumes "0 \<le> base_delay c" "0 \<le> exponential_base c" "0 \<le> max_delay c" "0 \<le> rnd" "rnd \<le> 1"
  shows "0 \<le> calculate_delay c k rnd \<and> calculate_delay c k rnd \<le> 3 / 2 * max_delay c"
proof -
  let ?d = "min (base_delay c * exponential_base c ^ k) (max_delay c)"
  have d: "0 \<le> ?d" "?d \<le> max_delay c" using assms by auto
  have "?d * (1 / 2 + rnd) \<le> max_delay c * (3 / 2)" using d assms by (intro mult_mono) auto
  moreover have "0 \<le> ?d * (1 / 2 + rnd)" using d(1) assms(4) by simp
  moreover have "?d \<le> 3 / 2 * max_delay c" using d(2) assms(3) by linarith
  ultimately show ?thesis using d(1) by (simp add: calculate_delay_def Let_def mult.commute)
qed

section \<open>Properties\<close>

text \<open>C27: in every state the breaker reaches, with any number of calls in flight and cancelled ones among
  them, a closed breaker has seen fewer failures in a row than its threshold, a half-open one has
  admitted at most its allowed calls, and its success rate is a proportion.\<close>

theorem breaker_counts_bounded:
  assumes "reach (cb_init th tm mx) cb_step (cb, n)"
  shows "(cb_state cb = CLOSED \<and> 0 < th \<longrightarrow> failure_count cb < th) \<and> half_open_calls cb \<le> mx
    \<and> (0 < mx \<longrightarrow> success_count cb < mx) \<and> 0 \<le> success_rate cb \<and> success_rate cb \<le> 1"
proof -
  have i: "cb_inv th tm mx (cb, n)" by (rule breaker.reach_inv [OF assms])
  then have "(of_nat (total_failures cb) :: rat) \<le> of_nat (total_calls cb)" by (simp add: cb_inv_def)
  then have "0 \<le> success_rate cb \<and> success_rate cb \<le> 1"
    by (auto simp: success_rate_def divide_le_eq max_def)
  with i show ?thesis by (simp add: cb_inv_def)
qed

lemma reach_new: "reach (cb_init th tm mx) cb_step (new_breaker th tm mx, 0)"
  by (rule reach_init) (simp add: cb_init_def)

theorem breaker_counts_bounded_witness: "half_open_calls (new_breaker 5 60 3) \<le> 3"
  using breaker_counts_bounded [OF reach_new, of 5 60 3] by simp

text \<open>An open breaker recovers.  From any open state it reaches, as many successful calls as half-open
  admits, made one after the other once the timeout has passed, close it.\<close>

theorem breaker_recovers:
  assumes "reach (cb_init th tm mx) cb_step (cb, n)" and "cb_state cb = OPEN" and "0 < mx"
    and "length ts = mx" and "\<forall>t \<in> set ts. last_failure_time cb + tm \<le> t"
  shows "cb_state (good_calls ts cb) = CLOSED"
proof -
  have i: "cb_timeout cb = tm" "half_open_max_calls cb = mx" "success_count cb < mx"
    using breaker.reach_inv [OF assms(1)] assms(3) by (auto simp: cb_inv_def)
  let ?cb = "cb\<lparr>cb_state := HALF_OPEN, half_open_calls := 0\<rparr>"
  obtain t ts' where ts: "ts = t # ts'" using assms(3,4) by (cases ts) auto
  then have "read_state t cb = ?cb" using assms(2,5) i(1) by (auto simp: read_state_def algebra_simps)
  moreover have "read_state t ?cb = ?cb" by (simp add: read_state_def)
  ultimately have "good_calls ts cb = good_calls ts ?cb"
    by (simp add: ts cb_call_def admit_def)
  moreover have "cb_state (good_calls ts ?cb) = CLOSED"
    using i assms(4) by (intro half_open_closes) auto
  ultimately show ?thesis by simp
qed

definition cb_opened :: breaker where
  "cb_opened = finish 7 Failed (snd (admit 7 (new_breaker 1 60 2)))"

lemma reach_opened: "reach (cb_init 1 60 2) cb_step (cb_opened, 0)"
proof -
  have "cb_step (new_breaker 1 60 2, 0) (snd (admit 7 (new_breaker 1 60 2)), 0 + 1)"
    by (rule cb_step.admitted [of 7]) (simp add: admit_def read_state_def new_breaker_def Let_def)
  with reach_new have "reach (cb_init 1 60 2) cb_step (snd (admit 7 (new_breaker 1 60 2)), 0 + 1)" by (rule reach_step)
  moreover have "cb_step (snd (admit 7 (new_breaker 1 60 2)), Suc 0) (cb_opened, 0)"
    unfolding cb_opened_def by (rule cb_step.finished)
  ultimately show ?thesis using reach_step by fastforce
qed

lemma cb_opened_eq: "cb_opened = (new_breaker 1 60 2)\<lparr>failure_count := 1, last_failure_time := 7, cb_state := OPEN,
    total_calls := 1, total_failures := 1\<rparr>"
  by (simp add: cb_opened_def admit_def read_state_def new_breaker_def Let_def finish_def record_failure_def)

theorem breaker_recovers_witness: "cb_state (good_calls [67, 68] cb_opened) = CLOSED"
  using breaker_recovers [OF reach_opened, of "[67, 68]"] by (simp add: cb_opened_eq new_breaker_def)

text \<open>Cancelled calls wedge the breaker.  A half-open breaker whose admitted calls were all cancelled,
  as a client that disconnects or a timeout does, rejects every call from then on: it never closes
  again unless it is reset by hand.\<close>

theorem breaker_wedged_by_cancellation:
  "\<exists>cb. reach (cb_init 1 60 2) cb_step (cb, 0) \<and> cb_state cb = HALF_OPEN \<and>
     (\<forall>now. admit now cb = (False, cb) \<and> snd (get_stats now cb) = cb)"
proof -
  let ?c1 = "snd (admit 67 cb_opened)" and ?c2 = "snd (admit 68 (snd (admit 67 cb_opened)))"
  note defs = cb_opened_eq new_breaker_def admit_def read_state_def Let_def
  have "cb_step (cb_opened, 0) (?c1, 0 + 1)" by (rule cb_step.admitted [of 67]) (simp add: defs)
  with reach_opened have "reach (cb_init 1 60 2) cb_step (?c1, 0 + 1)" by (rule reach_step)
  moreover have "cb_step (?c1, 0 + 1) (?c2, 0 + 1 + 1)" by (rule cb_step.admitted [of 68]) (simp add: defs)
  ultimately have "reach (cb_init 1 60 2) cb_step (?c2, 0 + 1 + 1)" by (rule reach_step)
  then have r2: "reach (cb_init 1 60 2) cb_step (?c2, Suc (Suc 0))" by simp
  have c: "cb_step (?c2, Suc n) (?c2, n)" for n
    using cb_step.finished [of ?c2 n 0 Cancelled] by (simp add: finish_def)
  have "reach (cb_init 1 60 2) cb_step (?c2, 0)" by (rule reach_step [OF reach_step [OF r2 c] c])
  then show ?thesis by (rule exI [of _ ?c2, OF conjI]) (simp add: defs get_stats_def)
qed

text \<open>A retried call returns.  With at least one attempt allowed, the result is that of one attempt:
  the first that succeeds or raises an exception not retried, else the last; before it the loop
  sleeps once between attempts, in total at most \<open>1.5 * max_delay\<close> for each.\<close>

theorem retry_outcome:
  assumes "0 < max_attempts c" and "0 \<le> base_delay c" and "0 \<le> exponential_base c" and "0 \<le> max_delay c"
    and "\<forall>k. 0 \<le> rnd k \<and> rnd k \<le> 1"
  shows "\<exists>j ds. with_retry c retryable rnd f = (Some (f j), ds) \<and> decides c retryable f j \<and>
    (\<forall>k < j. \<not> decides c retryable f k) \<and> length ds = j \<and> j < max_attempts c \<and>
    sum_list ds \<le> of_nat j * (3 / 2 * max_delay c)"
proof -
  obtain j where j: "decides c retryable f j" "\<forall>k < j. \<not> decides c retryable f k"
    using some_decides [OF assms(1)] by blast
  let ?ds = "map (\<lambda>k. calculate_delay c k (rnd k)) [0..<j]"
  have "with_retry c retryable rnd f = (Some (f j), ?ds)"
    unfolding with_retry_def by (rule retry_from_decides [OF assms(1) j(1)]) (use j(2) in auto)
  moreover have "sum_list ?ds \<le> of_nat (length ?ds) * (3 / 2 * max_delay c)"
    using delay_bounds [OF assms(2-4)] assms(5) by (intro sum_list_le_length) auto
  ultimately show ?thesis using j by (intro exI [of _ j] exI [of _ ?ds]) (auto simp: decides_def)
qed

theorem retry_outcome_witness:
  "\<exists>j ds. with_retry \<lparr>max_attempts = 3, base_delay = 1, max_delay = 30, exponential_base = 2, jitter = False\<rparr>
     (\<lambda>e. True) (\<lambda>_. 0) (\<lambda>i. if i < 2 then Inl ''busy'' else Inr i) = (Some (if j < 2 then Inl ''busy'' else Inr j), ds)
     \<and> length ds = j \<and> j < 3"
  using retry_outcome [of "\<lparr>max_attempts = 3, base_delay = 1, max_delay = 30, exponential_base = 2, jitter = False\<rparr>"
      "\<lambda>_. 0" "\<lambda>e. True" "\<lambda>i. if i < 2 then Inl ''busy'' else Inr i"] by auto

end
