(* ===== verification/Orchestrator.thy ===== *)
theory Orchestrator
  imports PyStd
begin

text \<open>
  Task decomposition and delegation: \<^verbatim>\<open>chat_service/agent/orchestrator.py\<close> and
  \<^verbatim>\<open>role_registry.py\<close>.  Tasks are objects that the caller and the dictionary \<open>_tasks\<close> share: they
  live in a heap and are named by their index.  What the agents answer is an argument, by task and
  attempt.
\<close>

section \<open>Role registry\<close>

type_synonym role_registry = "(string \<times> string list \<times> int) list"

definition register_role :: "string \<Rightarrow> string list \<Rightarrow> int \<Rightarrow> role_registry \<Rightarrow> role_registry" where
  "register_role role capabilities priority roles = AList.update role (capabilities, priority) roles"

definition get_capabilities :: "string \<Rightarrow> role_registry \<Rightarrow> string list" where
  "get_capabilities role roles = (case map_of roles role of None \<Rightarrow> [] | Some (cs, _) \<Rightarrow> cs)"

fun get_role_for_task :: "string \<Rightarrow> role_registry \<Rightarrow> string option" where
  "get_role_for_task task_type [] = None"
| "get_role_for_task task_type ((role, cs, _) # roles) =
     (if task_type \<in> set cs then Some role else get_role_for_task task_type roles)"

definition list_roles :: "role_registry \<Rightarrow> string list" where
  "list_roles roles = map fst roles"

definition get_role_priority :: "string \<Rightarrow> role_registry \<Rightarrow> int" where
  "get_role_priority role roles = (case map_of roles role of None \<Rightarrow> 0 | Some (_, p) \<Rightarrow> p)"

definition default_roles :: role_registry where
  "default_roles =
     register_role ''generalist'' [''respond'', ''explain'', ''summarize''] 1
     (register_role ''tool_executor'' [''execute'', ''call_api'', ''database''] 5
     (register_role ''rag_specialist'' [''search'', ''retrieve'', ''cite''] 5
     (register_role ''router'' [''route'', ''classify'', ''escalate''] 10 [])))"

section \<open>State\<close>

datatype task_status = TPending | TAssigned | TNoAgent | TCompleted

record agent_task =
  at_id :: string
  at_type :: string
  at_description :: ucs
  at_status :: task_status
  at_agent :: "string option"
  at_result :: "ucs option"
  at_trace :: string
  at_retry_count :: nat
  at_max_retries :: nat

record agent_info =
  ag_role :: string
  ag_executes :: bool \<comment> \<open>whether the agent has \<open>execute_task\<close>\<close>
  ag_available :: bool

record task_metrics =
  tm_delegations :: nat
  tm_latency :: rat
  tm_failed :: nat
  tm_successful :: nat

record orchestrator =
  or_roles :: role_registry
  or_heap :: "agent_task list"
  or_tasks :: "(string \<times> nat) list"
  or_agents :: "(string \<times> agent_info) list"
  or_metrics :: task_metrics

definition new_orchestrator :: orchestrator where
  "new_orchestrator = \<lparr>or_roles = default_roles, or_heap = [], or_tasks = [], or_agents = [],
     or_metrics = \<lparr>tm_delegations = 0, tm_latency = 0, tm_failed = 0, tm_successful = 0\<rparr>\<rparr>"

definition register_agent :: "string \<Rightarrow> string \<Rightarrow> bool \<Rightarrow> orchestrator \<Rightarrow> orchestrator" where
  "register_agent agent_id role executes s =
     s\<lparr>or_agents := AList.update agent_id \<lparr>ag_role = role, ag_executes = executes, ag_available = True\<rparr> (or_agents s)\<rparr>"

definition upd_task :: "nat \<Rightarrow> (agent_task \<Rightarrow> agent_task) \<Rightarrow> orchestrator \<Rightarrow> orchestrator" where
  "upd_task i f s = s\<lparr>or_heap := (or_heap s)[i := f (or_heap s ! i)]\<rparr>"

definition set_available :: "string \<Rightarrow> bool \<Rightarrow> orchestrator \<Rightarrow> orchestrator" where
  "set_available aid b s =
     (case map_of (or_agents s) aid of
        None \<Rightarrow> s
      | Some a \<Rightarrow> s\<lparr>or_agents := AList.update aid (a\<lparr>ag_available := b\<rparr>) (or_agents s)\<rparr>)"

section \<open>Decomposition\<close>

definition create_task :: "string \<Rightarrow> string \<Rightarrow> ucs \<Rightarrow> string \<Rightarrow> orchestrator \<Rightarrow> nat \<times> orchestrator" where
  "create_task new_id ty description trace s =
     (let i = length (or_heap s) in
      (i, s\<lparr>or_heap := or_heap s @ [\<lparr>at_id = new_id, at_type = ty, at_description = description,
              at_status = TPending, at_agent = None, at_result = None, at_trace = trace,
              at_retry_count = 0, at_max_retries = 3\<rparr>],
            or_tasks := AList.update new_id i (or_tasks s)\<rparr>))"

definition mentions :: "ucs \<Rightarrow> ucs list \<Rightarrow> bool" where \<comment> \<open>\<open>any(k in words for k in ...)\<close>\<close>
  "mentions words ks = (\<exists>k \<in> set ks. sub_in k words)"

definition search_words :: "ucs list" where
  "search_words = map ucs_of [''search'', ''find'', ''look''] @ [[26597, 35810], [25628, 32034]]"

definition order_words :: "ucs list" where
  "order_words = map ucs_of [''order'', ''status'', ''refund''] @ [[35746, 21333], [36864, 27454]]"

definition explain_words :: "ucs list" where
  "explain_words = map ucs_of [''explain'', ''what'', ''how'', ''why''] @ [[35299, 37322]]"

text \<open>\<open>ids\<close>: the four ids that creating up to four tasks would draw.\<close>

definition create_if :: "bool \<Rightarrow> string \<Rightarrow> string \<Rightarrow> ucs \<Rightarrow> string \<Rightarrow> nat list \<times> orchestrator \<Rightarrow> nat list \<times> orchestrator" where
  "create_if b new_id ty description trace r =
     (if b then (case r of (is, s) \<Rightarrow> case create_task new_id ty description trace s of (i, s') \<Rightarrow> (is @ [i], s')) else r)"

definition decompose_task :: "ucs \<Rightarrow> string \<times> string \<times> string \<times> string \<Rightarrow> string \<Rightarrow> orchestrator \<Rightarrow> nat list \<times> orchestrator" where
  "decompose_task query ids trace s =
     (case ids of (id1, id2, id3, id4) \<Rightarrow>
      let words = map lower_ucs query;
          r1 = create_if (mentions words search_words) id1 ''rag_specialist'' (ucs_of ''Search for: '' @ query) trace ([], s);
          r2 = create_if (mentions words order_words) id2 ''tool_executor'' (ucs_of ''Execute tool for: '' @ query) trace r1;
          r3 = create_if (mentions words explain_words) id3 ''generalist'' (ucs_of ''Explain: '' @ query) trace r2
      in create_if (fst r3 = []) id4 ''generalist'' (ucs_of ''Respond to: '' @ query) trace r3)"

section \<open>Delegation\<close>

definition is_available :: "orchestrator \<Rightarrow> string \<Rightarrow> bool" where
  "is_available s aid = (case map_of (or_agents s) aid of None \<Rightarrow> False | Some a \<Rightarrow> ag_available a)"

definition fits_role :: "orchestrator \<Rightarrow> string option \<Rightarrow> string \<Rightarrow> bool" where
  "fits_role s target aid = (case map_of (or_agents s) aid of None \<Rightarrow> False
     | Some a \<Rightarrow> ag_available a \<and> (target = None \<or> Some (ag_role a) = target))"

definition choose_agent :: "orchestrator \<Rightarrow> string option \<Rightarrow> string list \<Rightarrow> string option" where
  "choose_agent s target available =
     (case find (fits_role s target) available of
        Some aid \<Rightarrow> Some aid
      | None \<Rightarrow> (case filter (is_available s) available of [] \<Rightarrow> None | aid # _ \<Rightarrow> Some aid))"

definition delegate_task :: "nat \<Rightarrow> string list \<Rightarrow> orchestrator \<Rightarrow> string option \<times> orchestrator" where
  "delegate_task i available s =
     (case choose_agent s (get_role_for_task (at_type (or_heap s ! i)) (or_roles s)) available of
        None \<Rightarrow> (None, s)
      | Some aid \<Rightarrow> (Some aid, set_available aid False
          (upd_task i (\<lambda>t. t\<lparr>at_agent := Some aid, at_status := TAssigned\<rparr>) s)))"

definition mark_agent_available :: "string \<Rightarrow> orchestrator \<Rightarrow> orchestrator" where
  "mark_agent_available aid s = set_available aid True s"

section \<open>Execution\<close>

datatype attempt = Returned ucs | TimedOut | Raised ucs

text \<open>
  The attempts from one on.  \<open>exec k\<close> is what the agent does at attempt \<open>k\<close> and how long it took; the
  texts of an expired timeout and of the attempts' number are given as \<open>timeout_text\<close> and \<open>dec\<close>.
\<close>

function run_attempts ::
  "bool \<Rightarrow> (nat \<Rightarrow> attempt \<times> rat) \<Rightarrow> ucs \<Rightarrow> (nat \<Rightarrow> ucs) \<Rightarrow> nat \<Rightarrow> nat \<Rightarrow> ucs \<Rightarrow> orchestrator \<Rightarrow> ucs \<times> orchestrator" where
  "run_attempts executes exec timeout_text dec i attempt last_error s =
     (let m = at_max_retries (or_heap s ! i) in
      if i < length (or_heap s) \<and> attempt \<le> m then
        (let s1 = upd_task i (\<lambda>t. t\<lparr>at_retry_count := attempt\<rparr>) s;
             (out, latency) = (if executes then exec attempt
               else (Returned (ucs_of ''Agent processed: '' @ at_description (or_heap s ! i)), snd (exec attempt)))
         in case out of
              Returned result \<Rightarrow>
                (result, s1\<lparr>or_metrics := (or_metrics s1)\<lparr>tm_delegations := tm_delegations (or_metrics s1) + 1,
                   tm_latency := tm_latency (or_metrics s1) + latency * 1000,
                   tm_successful := tm_successful (or_metrics s1) + 1\<rparr>\<rparr>)
            | TimedOut \<Rightarrow> run_attempts executes exec timeout_text dec i (attempt + 1)
                 (ucs_of ''Timeout after '' @ timeout_text @ ucs_of ''s'') s1
            | Raised e \<Rightarrow> run_attempts executes exec timeout_text dec i (attempt + 1) e s1)
      else (ucs_of ''Task failed after '' @ dec (m + 1) @ ucs_of '' attempts: '' @ last_error,
            s\<lparr>or_metrics := (or_metrics s)\<lparr>tm_failed := tm_failed (or_metrics s) + 1\<rparr>\<rparr>))"
  by pat_completeness auto
termination
  by (relation "measure (\<lambda>(_, _, _, _, i, attempt, _, s). at_max_retries (or_heap s ! i) + 1 - attempt)")
    (auto simp: upd_task_def)

declare run_attempts.simps [simp del]

definition execute_with_retry ::
  "bool \<Rightarrow> (nat \<Rightarrow> attempt \<times> rat) \<Rightarrow> ucs \<Rightarrow> (nat \<Rightarrow> ucs) \<Rightarrow> nat \<Rightarrow> orchestrator \<Rightarrow> ucs \<times> orchestrator" where
  "execute_with_retry executes exec timeout_text dec i s =
     run_attempts executes exec timeout_text dec i 0 (ucs_of ''None'') s"

section \<open>Aggregation and metrics\<close>

fun longest :: "'a list list \<Rightarrow> 'a list" where \<comment> \<open>\<open>max(results, key=len)\<close>: the first of the longest\<close>
  "longest [] = []"
| "longest [x] = x"
| "longest (x # xs) = (let y = longest xs in if length y > length x then y else x)"

definition aggregate_results :: "ucs list \<Rightarrow> string \<Rightarrow> ucs" where
  "aggregate_results results strategy =
     (if strategy = ''concat'' then py_join [10, 10] (filter (\<lambda>r. r \<noteq> []) results)
      else if strategy = ''best'' then longest results
      else (case results of [] \<Rightarrow> [] | r # _ \<Rightarrow> r))"

definition get_task_status :: "string \<Rightarrow> orchestrator \<Rightarrow> agent_task option" where
  "get_task_status task_id s = map_option (\<lambda>i. or_heap s ! i) (map_of (or_tasks s) task_id)"

definition get_all_tasks :: "orchestrator \<Rightarrow> agent_task list" where
  "get_all_tasks s = map (\<lambda>(_, i). or_heap s ! i) (or_tasks s)"

record metrics_report =
  mr_delegations :: nat
  mr_avg_latency :: rat
  mr_failed :: nat
  mr_successful :: nat
  mr_success_rate :: rat

definition get_metrics :: "orchestrator \<Rightarrow> metrics_report" where
  "get_metrics s = (let m = or_metrics s in
     \<lparr>mr_delegations = tm_delegations m,
      mr_avg_latency = (if tm_delegations m > 0 then tm_latency m / of_nat (tm_delegations m) else 0),
      mr_failed = tm_failed m, mr_successful = tm_successful m,
      mr_success_rate = of_nat (tm_successful m) / of_nat (max (tm_delegations m) 1)\<rparr>)"

section \<open>Workflow\<close>

text \<open>One task of the loop; \<open>exec i k\<close> is the answer for task \<open>i\<close> at attempt \<open>k\<close>.\<close>

definition run_task ::
  "(nat \<Rightarrow> nat \<Rightarrow> attempt \<times> rat) \<Rightarrow> ucs \<Rightarrow> (nat \<Rightarrow> ucs) \<Rightarrow> string list \<Rightarrow> string \<Rightarrow> nat \<Rightarrow> ucs list \<times> orchestrator \<Rightarrow>
   ucs list \<times> orchestrator" where
  "run_task exec timeout_text dec available trace i r = (case r of (results, s0) \<Rightarrow>
     let s = upd_task i (\<lambda>t. t\<lparr>at_trace := trace\<rparr>) s0 in
     case delegate_task i available s of
       (None, s1) \<Rightarrow> (results, upd_task i (\<lambda>t. t\<lparr>at_status := TNoAgent\<rparr>) s1)
     | (Some aid, s1) \<Rightarrow>
         (case execute_with_retry (case map_of (or_agents s1) aid of None \<Rightarrow> False | Some a \<Rightarrow> ag_executes a)
                 (exec i) timeout_text dec i s1 of
            (result, s2) \<Rightarrow>
              (results @ [result],
               mark_agent_available aid (upd_task i (\<lambda>t. t\<lparr>at_result := Some result, at_status := TCompleted\<rparr>) s2))))"

definition execute_workflow ::
  "(nat \<Rightarrow> nat \<Rightarrow> attempt \<times> rat) \<Rightarrow> ucs \<Rightarrow> (nat \<Rightarrow> ucs) \<Rightarrow> ucs \<Rightarrow> string \<times> string \<times> string \<times> string \<Rightarrow> string \<Rightarrow> string \<Rightarrow>
   string list \<Rightarrow> string \<Rightarrow> orchestrator \<Rightarrow> ucs \<times> nat list \<times> orchestrator" where
  "execute_workflow exec timeout_text dec query ids trace0 trace available strategy s =
     (case decompose_task query ids trace0 s of
        (is, s1) \<Rightarrow>
          (case fold (run_task exec timeout_text dec available trace) is ([], s1) of
             (results, s2) \<Rightarrow> (aggregate_results results strategy, is, s2)))"

section \<open>What each operation leaves alone\<close>

lemma upd_task_simps [simp]:
  "or_agents (upd_task i f s) = or_agents s" "or_metrics (upd_task i f s) = or_metrics s"
  "or_roles (upd_task i f s) = or_roles s" "length (or_heap (upd_task i f s)) = length (or_heap s)"
  "or_tasks (upd_task i f s) = or_tasks s"
  by (simp_all add: upd_task_def)

lemma upd_task_heap: "i < length (or_heap s) \<Longrightarrow> or_heap (upd_task i f s) ! j = (if j = i then f (or_heap s ! i) else or_heap s ! j)"
  by (simp add: upd_task_def nth_list_update)

lemma set_available_simps [simp]:
  "or_heap (set_available aid b s) = or_heap s" "or_metrics (set_available aid b s) = or_metrics s"
  "or_roles (set_available aid b s) = or_roles s"
  by (simp_all add: set_available_def split: option.split)

lemma set_available_agents:
  "map_of (or_agents s) aid = Some a \<Longrightarrow>
   map_of (or_agents (set_available aid b s)) = (map_of (or_agents s))(aid \<mapsto> a\<lparr>ag_available := b\<rparr>)"
  by (simp add: set_available_def)

text \<open>The attempts change only the task's retry counter and the metrics, and count every success as a delegation.\<close>

definition attempts_ok :: "nat \<Rightarrow> orchestrator \<Rightarrow> orchestrator \<Rightarrow> bool" where
  "attempts_ok i s s' \<longleftrightarrow> or_agents s' = or_agents s \<and> or_roles s' = or_roles s \<and>
     length (or_heap s') = length (or_heap s) \<and> (\<forall>j. j \<noteq> i \<longrightarrow> or_heap s' ! j = or_heap s ! j) \<and>
     (\<exists>k. or_heap s' ! i = (or_heap s ! i)\<lparr>at_retry_count := k\<rparr>) \<and>
     int (tm_delegations (or_metrics s')) - int (tm_successful (or_metrics s')) =
     int (tm_delegations (or_metrics s)) - int (tm_successful (or_metrics s))"

lemma attempts_ok_refl: "attempts_ok i s s"
proof -
  have "or_heap s ! i = (or_heap s ! i)\<lparr>at_retry_count := at_retry_count (or_heap s ! i)\<rparr>" by simp
  then show ?thesis unfolding attempts_ok_def by blast
qed

lemma attempts_ok_trans: "attempts_ok i s s1 \<Longrightarrow> attempts_ok i s1 s2 \<Longrightarrow> attempts_ok i s s2"
  by (auto simp: attempts_ok_def)

lemma attempts_ok_count: "i < length (or_heap s) \<Longrightarrow> attempts_ok i s (upd_task i (\<lambda>t. t\<lparr>at_retry_count := k\<rparr>) s)"
  by (auto simp: attempts_ok_def upd_task_heap)

lemma attempts_ok_metrics:
  "attempts_ok i s s1 \<Longrightarrow> int (tm_delegations m) - int (tm_successful m) =
     int (tm_delegations (or_metrics s1)) - int (tm_successful (or_metrics s1)) \<Longrightarrow>
   attempts_ok i s (s1\<lparr>or_metrics := m\<rparr>)"
  by (simp add: attempts_ok_def)

lemma run_attempts_ok:
  "run_attempts executes exec tmo dec i attempt err s = (r, s') \<Longrightarrow> attempts_ok i s s'"
proof (induction executes exec tmo dec i attempt err s arbitrary: r s' rule: run_attempts.induct)
  case (1 executes exec tmo dec i attempt err s)
  let ?m = "at_max_retries (or_heap s ! i)"
  show ?case
  proof (cases "i < length (or_heap s) \<and> attempt \<le> ?m")
    case False
    with "1.prems" have "s' = s\<lparr>or_metrics := (or_metrics s)\<lparr>tm_failed := tm_failed (or_metrics s) + 1\<rparr>\<rparr>"
      by (subst (asm) run_attempts.simps) (simp add: Let_def)
    then show ?thesis by (auto intro: attempts_ok_metrics [OF attempts_ok_refl])
  next
    case True
    let ?s1 = "upd_task i (\<lambda>t. t\<lparr>at_retry_count := attempt\<rparr>) s"
    have s1: "attempts_ok i s ?s1" using True by (intro attempts_ok_count) simp
    obtain out latency where o: "(if executes then exec attempt
      else (Returned (ucs_of ''Agent processed: '' @ at_description (or_heap s ! i)), snd (exec attempt))) = (out, latency)"
      by fastforce
    show ?thesis
    proof (cases out)
      case (Returned result)
      with "1.prems" True o have "s' = ?s1\<lparr>or_metrics := (or_metrics ?s1)\<lparr>tm_delegations := tm_delegations (or_metrics ?s1) + 1,
                   tm_latency := tm_latency (or_metrics ?s1) + latency * 1000,
                   tm_successful := tm_successful (or_metrics ?s1) + 1\<rparr>\<rparr>"
        by (subst (asm) run_attempts.simps) (simp add: Let_def)
      then show ?thesis by (auto intro: attempts_ok_metrics [OF s1])
    next
      case TimedOut
      with "1.prems" True o have "run_attempts executes exec tmo dec i (attempt + 1)
          (ucs_of ''Timeout after '' @ tmo @ ucs_of ''s'') ?s1 = (r, s')"
        by (subst (asm) run_attempts.simps) (simp add: Let_def)
      with "1.IH"(1) [OF refl True refl o [symmetric] refl TimedOut] s1 show ?thesis by (blast intro: attempts_ok_trans)
    next
      case (Raised e)
      with "1.prems" True o have "run_attempts executes exec tmo dec i (attempt + 1) e ?s1 = (r, s')"
        by (subst (asm) run_attempts.simps) (simp add: Let_def)
      with "1.IH"(2) [OF refl True refl o [symmetric] refl Raised] s1 show ?thesis by (blast intro: attempts_ok_trans)
    qed
  qed
qed

section \<open>Delegation\<close>

lemma choose_agent_available:
  "choose_agent s target available = Some aid \<Longrightarrow> aid \<in> set available \<and> is_available s aid"
  by (auto simp: choose_agent_def fits_role_def is_available_def find_Some_iff filter_eq_Cons_iff
      split: option.splits list.splits)

lemma choose_agent_None: "choose_agent s target available = None \<longleftrightarrow> (\<forall>aid \<in> set available. \<not> is_available s aid)"
proof (cases "find (fits_role s target) available")
  case None
  then show ?thesis by (auto simp: choose_agent_def filter_empty_conv split: list.split dest: filter_eq_ConsD)
next
  case (Some aid)
  then have "aid \<in> set available" "fits_role s target aid" by (auto simp: find_Some_iff)
  moreover from this have "is_available s aid" by (auto simp: fits_role_def is_available_def split: option.splits)
  ultimately show ?thesis using Some by (auto simp: choose_agent_def)
qed

lemma choose_agent_any: "choose_agent s None available = find (is_available s) available"
proof -
  have "fits_role s None = is_available s" by (simp add: fits_role_def is_available_def fun_eq_iff split: option.split)
  moreover have "find p xs = None \<Longrightarrow> filter p xs = []" for p :: "string \<Rightarrow> bool" and xs
    by (simp add: find_None_iff filter_empty_conv)
  ultimately show ?thesis by (simp add: choose_agent_def split: option.split)
qed

section \<open>The workflow\<close>

text \<open>How a task stands when its turn is over.\<close>

definition task_done :: "(string \<Rightarrow> bool) \<Rightarrow> string list \<Rightarrow> agent_task \<Rightarrow> bool" where
  "task_done avail available t \<longleftrightarrow>
     at_status t = TCompleted \<and> at_result t \<noteq> None \<and> (\<exists>aid \<in> set available. at_agent t = Some aid \<and> avail aid)
     \<or> at_status t = TNoAgent \<and> (\<forall>aid \<in> set available. \<not> avail aid)"

lemma run_task_ok:
  assumes i: "i < length (or_heap s)" and r: "run_task exec tmo dec available trace i (rs, s) = (rs', s')"
  shows "map_of (or_agents s') = map_of (or_agents s) \<and> length (or_heap s') = length (or_heap s) \<and>
    (\<forall>j. j \<noteq> i \<longrightarrow> or_heap s' ! j = or_heap s ! j) \<and> task_done (is_available s) available (or_heap s' ! i) \<and>
    int (tm_delegations (or_metrics s')) - int (tm_successful (or_metrics s')) =
    int (tm_delegations (or_metrics s)) - int (tm_successful (or_metrics s)) \<and> or_roles s' = or_roles s"
proof -
  let ?s = "upd_task i (\<lambda>t. t\<lparr>at_trace := trace\<rparr>) s"
  have av: "is_available ?s = is_available s" by (simp add: is_available_def fun_eq_iff)
  define c where "c = choose_agent ?s (get_role_for_task (at_type (or_heap ?s ! i)) (or_roles s)) available"
  show ?thesis
  proof (cases c)
    case None
    then have "\<forall>aid \<in> set available. \<not> is_available s aid" using choose_agent_None av by (metis c_def)
    moreover have "s' = upd_task i (\<lambda>t. t\<lparr>at_status := TNoAgent\<rparr>) ?s"
      using r None by (simp add: run_task_def delegate_task_def c_def [symmetric] Let_def)
    ultimately show ?thesis using i by (simp add: upd_task_heap task_done_def)
  next
    case (Some aid)
    then have aid: "aid \<in> set available" "is_available s aid" using choose_agent_available av by (metis c_def)+
    then obtain a where a: "map_of (or_agents s) aid = Some a" "ag_available a"
      by (auto simp: is_available_def split: option.splits)
    let ?s1 = "set_available aid False (upd_task i (\<lambda>t. t\<lparr>at_agent := Some aid, at_status := TAssigned\<rparr>) ?s)"
    have s1: "map_of (or_agents ?s1) = (map_of (or_agents s))(aid \<mapsto> a\<lparr>ag_available := False\<rparr>)"
      using a(1) by (subst set_available_agents) auto
    obtain result s2 where e: "execute_with_retry (ag_executes a) (exec i) tmo dec i ?s1 = (result, s2)" by fastforce
    have ok: "attempts_ok i ?s1 s2" using e by (simp add: execute_with_retry_def run_attempts_ok)
    have s': "s' = mark_agent_available aid (upd_task i (\<lambda>t. t\<lparr>at_result := Some result, at_status := TCompleted\<rparr>) s2)"
      using r Some e s1 by (simp add: run_task_def delegate_task_def c_def [symmetric] Let_def)
    have m2: "map_of (or_agents s2) = (map_of (or_agents s))(aid \<mapsto> a\<lparr>ag_available := False\<rparr>)"
      using ok s1 by (simp add: attempts_ok_def)
    have aa: "a\<lparr>ag_available := True\<rparr> = a" using a(2) by (cases a) simp
    have "map_of (or_agents s') = (map_of (or_agents s2))(aid \<mapsto> a\<lparr>ag_available := True\<rparr>)"
      unfolding s' mark_agent_available_def by (subst set_available_agents [where a = "a\<lparr>ag_available := False\<rparr>"]) (simp_all add: m2)
    also have "\<dots> = map_of (or_agents s)"
      unfolding m2 aa using a(1) by (simp add: fun_upd_idem)
    finally have agents: "map_of (or_agents s') = map_of (or_agents s)" .
    have len: "length (or_heap s2) = length (or_heap s)" using ok by (simp add: attempts_ok_def)
    obtain k where k: "or_heap s2 ! i = (or_heap ?s1 ! i)\<lparr>at_retry_count := k\<rparr>" using ok by (auto simp: attempts_ok_def)
    have "task_done (is_available s) available (or_heap s' ! i)"
      using aid i len k by (auto simp: s' mark_agent_available_def upd_task_heap task_done_def)
    moreover have "or_heap s' ! j = or_heap s ! j" if "j \<noteq> i" for j
      using ok that i len by (simp add: s' mark_agent_available_def upd_task_heap attempts_ok_def)
    ultimately show ?thesis using agents ok len by (simp add: s' mark_agent_available_def attempts_ok_def)
  qed
qed

lemma run_tasks_ok:
  assumes "distinct is" and "\<forall>i \<in> set is. i < length (or_heap s)"
    and "fold (run_task exec tmo dec available trace) is (rs, s) = (rs', s')"
  shows "map_of (or_agents s') = map_of (or_agents s) \<and> length (or_heap s') = length (or_heap s) \<and>
    (\<forall>j. j \<notin> set is \<longrightarrow> or_heap s' ! j = or_heap s ! j) \<and>
    (\<forall>i \<in> set is. task_done (is_available s) available (or_heap s' ! i)) \<and>
    int (tm_delegations (or_metrics s')) - int (tm_successful (or_metrics s')) =
    int (tm_delegations (or_metrics s)) - int (tm_successful (or_metrics s)) \<and> or_roles s' = or_roles s"
  using assms
proof (induction "is" arbitrary: rs s)
  case Nil
  then show ?case by simp
next
  case (Cons i "is")
  obtain rs1 s1 where r: "run_task exec tmo dec available trace i (rs, s) = (rs1, s1)" by fastforce
  have i: "i < length (or_heap s)" using Cons.prems(2) by simp
  note one = run_task_ok [OF i r]
  have av: "is_available s1 = is_available s" using one by (simp add: is_available_def fun_eq_iff)
  have "map_of (or_agents s') = map_of (or_agents s1) \<and> length (or_heap s') = length (or_heap s1) \<and>
    (\<forall>j. j \<notin> set is \<longrightarrow> or_heap s' ! j = or_heap s1 ! j) \<and>
    (\<forall>i \<in> set is. task_done (is_available s1) available (or_heap s' ! i)) \<and>
    int (tm_delegations (or_metrics s')) - int (tm_successful (or_metrics s')) =
    int (tm_delegations (or_metrics s1)) - int (tm_successful (or_metrics s1)) \<and> or_roles s' = or_roles s1"
    using Cons.prems one r by (intro Cons.IH [of s1 rs1]) auto
  with one Cons.prems(1) show ?case unfolding av by auto
qed

text \<open>Decomposition: new tasks at the end of the heap, typed by the names of roles.\<close>

definition decomposed :: "orchestrator \<Rightarrow> nat list \<times> orchestrator \<Rightarrow> bool" where
  "decomposed s r = (case r of (is, s') \<Rightarrow>
     is = [length (or_heap s) ..< length (or_heap s')] \<and> length (or_heap s) \<le> length (or_heap s') \<and>
     or_agents s' = or_agents s \<and> or_metrics s' = or_metrics s \<and> or_roles s' = or_roles s \<and>
     (\<forall>i \<in> set is. at_type (or_heap s' ! i) \<in> {''rag_specialist'', ''tool_executor'', ''generalist''}))"

lemma decomposed_create:
  assumes "decomposed s r" and "ty \<in> {''rag_specialist'', ''tool_executor'', ''generalist''}"
  shows "decomposed s (create_if b new_id ty d trace r)"
  using assms by (auto simp: decomposed_def create_if_def create_task_def Let_def nth_append split: prod.splits)

lemma decompose_ok: "decomposed s (decompose_task query ids trace s) \<and> fst (decompose_task query ids trace s) \<noteq> []"
proof -
  have "decomposed s ([], s)" by (simp add: decomposed_def)
  then have "decomposed s (decompose_task query ids trace s)"
    by (auto simp: decompose_task_def Let_def split: prod.split intro!: decomposed_create)
  moreover have "fst (create_if (fst r = []) i ty d tr r) \<noteq> []" for r i ty d tr
    by (auto simp: create_if_def create_task_def Let_def split: prod.splits)
  ultimately show ?thesis by (simp add: decompose_task_def Let_def split: prod.split)
qed

lemma workflow_ok:
  assumes "execute_workflow exec tmo dec query ids trace0 trace available strategy s = (answer, is, s')"
  shows "map_of (or_agents s') = map_of (or_agents s) \<and> is \<noteq> [] \<and>
    (\<forall>i \<in> set is. i < length (or_heap s') \<and> task_done (is_available s) available (or_heap s' ! i)) \<and>
    int (tm_delegations (or_metrics s')) - int (tm_successful (or_metrics s')) =
    int (tm_delegations (or_metrics s)) - int (tm_successful (or_metrics s)) \<and> or_roles s' = or_roles s"
proof -
  obtain is1 s1 where d: "decompose_task query ids trace0 s = (is1, s1)" by fastforce
  obtain rs s2 where f: "fold (run_task exec tmo dec available trace) is1 ([], s1) = (rs, s2)" by fastforce
  have e: "is1 = is" "s2 = s'" using assms d f by (auto simp: execute_workflow_def)
  have dec: "is \<noteq> []" "is = [length (or_heap s) ..< length (or_heap s1)]" "or_agents s1 = or_agents s"
    "or_metrics s1 = or_metrics s" "or_roles s1 = or_roles s"
    using decompose_ok [of s query ids trace0] d e by (auto simp: decomposed_def)
  have "is_available s1 = is_available s" using dec(3) by (simp add: is_available_def fun_eq_iff)
  then show ?thesis using run_tasks_ok [of "is" s1 exec tmo dec available trace "[]" rs s'] f dec e by auto
qed

section \<open>The orchestrator over time\<close>

inductive or_step :: "orchestrator \<Rightarrow> orchestrator \<Rightarrow> bool" where
  workflow: "execute_workflow exec tmo dec query ids trace0 trace available strategy s = (answer, is, s') \<Longrightarrow> or_step s s'"
| agent: "or_step s (register_agent aid role executes s)"
| available: "or_step s (mark_agent_available aid s)"

definition or_inv :: "orchestrator \<Rightarrow> bool" where
  "or_inv s \<longleftrightarrow> or_roles s = default_roles \<and> tm_delegations (or_metrics s) = tm_successful (or_metrics s)"

interpretation orchestration: invariant_system "\<lambda>s. s = new_orchestrator" or_step or_inv
proof
  show "or_inv s" if "s = new_orchestrator" for s using that by (simp add: or_inv_def new_orchestrator_def)
  show "or_inv t" if "or_inv s" "or_step s t" for s t
    using that(2,1)
  proof cases
    case workflow
    then show ?thesis using that(1) workflow_ok [OF workflow] by (simp add: or_inv_def)
  qed (auto simp: or_inv_def register_agent_def mark_agent_available_def)
qed

section \<open>Properties\<close>

text \<open>C26: a workflow gives every agent back and settles every task.  Whatever the agents answer, time out on
  or raise, each agent's status afterwards is what it was before, and every task it made is either
  completed by an agent that was offered and available, or has none because none was.\<close>

theorem workflow_settles_tasks:
  assumes "execute_workflow exec tmo dec query ids trace0 trace available strategy s = (answer, is, s')"
  shows "map_of (or_agents s') = map_of (or_agents s) \<and> is \<noteq> [] \<and>
    (\<forall>i \<in> set is. i < length (or_heap s') \<and> (let t = or_heap s' ! i in
       at_status t = TCompleted \<and> at_result t \<noteq> None \<and>
         (\<exists>aid \<in> set available. at_agent t = Some aid \<and> is_available s aid)
       \<or> at_status t = TNoAgent \<and> (\<forall>aid \<in> set available. \<not> is_available s aid)))"
  using workflow_ok [OF assms] by (simp add: task_done_def Let_def)

definition or_demo :: orchestrator where
  "or_demo = register_agent ''a1'' ''generalist'' False new_orchestrator"

theorem workflow_settles_tasks_witness:
  "map_of (or_agents (snd (snd (execute_workflow (\<lambda>_ _. (TimedOut, 1)) [] (\<lambda>_. []) (ucs_of ''how do I find my order'')
      (''1'', ''2'', ''3'', ''4'') ''t0'' ''t1'' [''a1''] ''concat'' or_demo)))) = map_of (or_agents or_demo)"
proof -
  obtain answer "is" s' where w: "execute_workflow (\<lambda>_ _. (TimedOut, 1)) [] (\<lambda>_. []) (ucs_of ''how do I find my order'')
      (''1'', ''2'', ''3'', ''4'') ''t0'' ''t1'' [''a1''] ''concat'' or_demo = (answer, is, s')" by (metis prod_cases3)
  from workflow_settles_tasks [OF w] w show ?thesis by simp
qed

text \<open>Delegation ignores roles.  The tasks are typed by role names, but roles are looked up by
  capability, and no default role has such a capability: every task goes to the first available
  agent, whatever its role.\<close>

theorem delegation_ignores_roles:
  assumes "reach (\<lambda>s. s = new_orchestrator) or_step s" and "decompose_task query ids trace s = (is, s1)"
    and "i \<in> set is"
  shows "fst (delegate_task i available s1) = find (is_available s1) available"
proof -
  have "or_roles s = default_roles" using orchestration.reach_inv [OF assms(1)] by (simp add: or_inv_def)
  then have "or_roles s1 = default_roles"
    and "at_type (or_heap s1 ! i) \<in> {''rag_specialist'', ''tool_executor'', ''generalist''}"
    using decompose_ok [of s query ids trace] assms(2,3) by (auto simp: decomposed_def)
  then have "get_role_for_task (at_type (or_heap s1 ! i)) (or_roles s1) = None"
    by (auto simp: default_roles_def register_role_def)
  then show ?thesis by (simp add: delegate_task_def choose_agent_any split: option.split)
qed

lemma reach_or_demo: "reach (\<lambda>s. s = new_orchestrator) or_step or_demo"
  unfolding or_demo_def by (rule reach_step, rule reach_init, rule refl, rule or_step.agent)

theorem delegation_ignores_roles_witness:
  "fst (delegate_task 0 [''a1''] (snd (decompose_task (ucs_of ''order'') (''1'', ''2'', ''3'', ''4'') ''t'' or_demo))) = Some ''a1''"
proof -
  have d: "decompose_task (ucs_of ''order'') (''1'', ''2'', ''3'', ''4'') ''t'' or_demo =
      (fst (decompose_task (ucs_of ''order'') (''1'', ''2'', ''3'', ''4'') ''t'' or_demo),
       snd (decompose_task (ucs_of ''order'') (''1'', ''2'', ''3'', ''4'') ''t'' or_demo))" by simp
  have z: "0 \<in> set (fst (decompose_task (ucs_of ''order'') (''1'', ''2'', ''3'', ''4'') ''t'' or_demo))"
    and a: "is_available (snd (decompose_task (ucs_of ''order'') (''1'', ''2'', ''3'', ''4'') ''t'' or_demo)) ''a1''"
    using decompose_ok [of or_demo "ucs_of ''order''" "(''1'', ''2'', ''3'', ''4'')" "''t''"]
    by (auto simp: decomposed_def or_demo_def register_agent_def new_orchestrator_def is_available_def
        split: prod.splits)
  show ?thesis using delegation_ignores_roles [OF reach_or_demo d z, of "[''a1'']"] a by simp
qed

text \<open>The reported success rate ignores failures: only successes are counted as delegations, so once
  one task has succeeded the rate is 1, however many have failed.\<close>

theorem success_rate_ignores_failures:
  assumes "reach (\<lambda>s. s = new_orchestrator) or_step s"
  shows "mr_success_rate (get_metrics s) = (if mr_successful (get_metrics s) = 0 then 0 else 1)"
  using orchestration.reach_inv [OF assms] by (auto simp: get_metrics_def or_inv_def Let_def max_def)

theorem success_rate_ignores_failures_witness: "mr_success_rate (get_metrics or_demo) = 0"
  using success_rate_ignores_failures [OF reach_or_demo]
  by (simp add: get_metrics_def or_demo_def register_agent_def new_orchestrator_def Let_def)

end
