(* ===== verification/AgentState.thy ===== *)
theory AgentState
  imports Db
begin

text \<open>
  The data the chat agent works on: the messages of a request, the sources of an answer
  (\<^verbatim>\<open>shared/citation.py\<close>), and the state of the graph (\<^verbatim>\<open>chat_service/agent/state.py\<close>).  Message texts
  are lists of code points; identifiers, roles and intents are \<open>string\<close>s.

  A key the state dictionary does not hold has the value its readers use for it: every \<open>get\<close> of the
  nodes either has that default or tests the value for truth.  \<open>user_id\<close>, \<open>feedback_state\<close> and
  \<open>reasoning_trace\<close> are declared by the source and touched by no node.
\<close>

section \<open>Messages and sources\<close>

record media_item =
  mi_type :: "string option"
  mi_url :: "string option"   \<comment> \<open>\<open>oss_url\<close>\<close>

record chat_msg =
  cm_role :: "string option"
  cm_content :: "ucs option"
  cm_media :: "media_item list"

definition role_of :: "chat_msg \<Rightarrow> string" where
  "role_of m = (case cm_role m of None \<Rightarrow> ''user'' | Some r \<Rightarrow> r)"

definition text_of :: "chat_msg \<Rightarrow> ucs" where
  "text_of m = (case cm_content m of None \<Rightarrow> [] | Some c \<Rightarrow> c)"

datatype citation_type = EXACT_MATCH | SEMANTIC_MATCH | INFERRED | NO_CITATION

record source =
  src_id :: string
  src_title :: ucs
  src_url :: "string option"
  src_excerpt :: "ucs option"
  src_confidence :: rat
  src_chunk_id :: "string option"
  src_type :: citation_type

record source_card =
  sc_items :: "source list"
  sc_confidence :: rat

text \<open>The decimal numeral of a natural number, as \<open>str\<close> writes it.\<close>

fun dec_ucs :: "nat \<Rightarrow> ucs" where
  "dec_ucs n = (if n < 10 then [48 + n] else dec_ucs (n div 10) @ [48 + n mod 10])"

declare dec_ucs.simps [simp del]

definition format_citation :: "nat \<Rightarrow> ucs" where
  "format_citation i = ucs_of ''['' @ dec_ucs i @ ucs_of '']''"

definition format_inline_citations :: "source list \<Rightarrow> ucs" where
  "format_inline_citations ss =
     py_join [32] (map (\<lambda>(i, s). format_citation (i + 1)) (enumerate 0 ss))"

definition compute_card_confidence :: "source list \<Rightarrow> rat" where
  "compute_card_confidence ss =
     (if ss = [] then 0 else sum_list (map src_confidence ss) / of_nat (length ss))"

definition create_source_card :: "source list \<Rightarrow> source_card" where
  "create_source_card ss = \<lparr>sc_items = ss, sc_confidence = compute_card_confidence ss\<rparr>"

section \<open>The state of the graph\<close>

datatype tool_value = TStr ucs | TBool bool

record tool_call =
  tc_name :: string
  tc_args :: "(string \<times> ucs) list"
  tc_result :: "(string \<times> tool_value) list"

record media_ref =
  mf_type :: string
  mf_url :: string

record agent_state =
  thread_id :: string
  tenant_id :: string
  messages :: "chat_msg list"
  summary :: "ucs option"
  user_intent :: "string option"
  rag_context :: "ucs list"
  sources :: "source list"
  tool_calls :: "tool_call list"
  media_urls :: "media_ref list"
  hitl_requested :: bool
  tokens_used :: int
  llm_response :: ucs
  guardrails_passed :: bool
  correction_message :: "ucs option"
  unresolved_turns :: int
  citations :: "source list"

definition empty_state :: agent_state where
  "empty_state = \<lparr>thread_id = [], tenant_id = [], messages = [], summary = None, user_intent = None,
     rag_context = [], sources = [], tool_calls = [], media_urls = [], hitl_requested = False,
     tokens_used = 0, llm_response = [], guardrails_passed = True, correction_message = None,
     unresolved_turns = 0, citations = []\<rparr>"

text \<open>The text of the last message, \<open>messages[-1].get("content", "")\<close>.\<close>

definition last_text :: "chat_msg list \<Rightarrow> ucs" where
  "last_text ms = (if ms = [] then [] else text_of (last ms))"

end
