(* ===== verification/LlmClient.thy ===== *)
theory LlmClient
  imports AgentState
begin

text \<open>
  The model gateway, \<^verbatim>\<open>ai_gateway/client.py\<close>, and the summarizer on top of it,
  \<^verbatim>\<open>chat_service/agent/summarizer.py\<close>.  LiteLLM's \<open>acompletion\<close> is an argument: from a request and
  the time limit it is awaited with, it gives the response stream, or \<open>None\<close> when it raises or the
  limit passes.  A stream is its chunks and whether it raises after the last of them.
\<close>

section \<open>Requests and streams\<close>

type_synonym llm_msg = "string \<times> ucs" \<comment> \<open>role and content\<close>

record llm_config =
  lc_model :: "string option"
  lc_fallback_model :: "string option"
  lc_temperature :: "rat option"

record llm_settings =
  llm_primary_model :: string
  llm_fallback_model :: string
  llm_fallback_timeout :: time
  llm_api_key :: string
  llm_api_base :: string
  vision_model :: string

definition default_llm_settings :: llm_settings where
  "default_llm_settings = \<lparr>llm_primary_model = ''deepseek-chat'', llm_fallback_model = ''qwen-plus'',
     llm_fallback_timeout = 30, llm_api_key = [], llm_api_base = [], vision_model = ''gpt-4o-mini''\<rparr>"

record llm_request =
  rq_model :: string
  rq_messages :: "llm_msg list"
  rq_temperature :: rat
  rq_disable_thinking :: bool   \<comment> \<open>\<open>extra_body\<close>\<close>
  rq_include_usage :: bool      \<comment> \<open>\<open>stream_options\<close>\<close>
  rq_api_key :: "string option"
  rq_api_base :: "string option"

text \<open>
  A chunk: \<open>choices\<close> empty, a first choice with a false \<open>delta\<close>, or a delta with its \<open>content\<close> and
  \<open>reasoning_content\<close> (empty for an absent or null one); and \<open>usage.total_tokens\<close> if it has a usage.
\<close>

datatype chunk_choice = NoChoices | NoDelta | Delta ucs ucs

record llm_chunk =
  ck_choice :: chunk_choice
  ck_usage :: "int option"

record llm_stream =
  ls_chunks :: "llm_chunk list"
  ls_raises :: bool

type_synonym acompletion = "llm_request \<Rightarrow> time option \<Rightarrow> llm_stream option"

section \<open>Primary model and fallback\<close>

definition is_ollama_model :: "string \<Rightarrow> bool" where
  "is_ollama_model m \<longleftrightarrow> starts_with ''ollama/'' m \<or> starts_with ''ollama_chat/'' m"

definition truthy_str :: "string \<Rightarrow> string option" where
  "truthy_str s = (if s = [] then None else Some s)"

definition default_to :: "'a \<Rightarrow> 'a option \<Rightarrow> 'a" where
  "default_to d x = (case x of None \<Rightarrow> d | Some y \<Rightarrow> y)"

definition llm_kwargs :: "llm_settings \<Rightarrow> string \<Rightarrow> rat \<Rightarrow> llm_msg list \<Rightarrow> llm_request" where
  "llm_kwargs st model temperature ms =
     \<lparr>rq_model = model, rq_messages = ms, rq_temperature = temperature,
      rq_disable_thinking = is_ollama_model model, rq_include_usage = (\<not> is_ollama_model model),
      rq_api_key = truthy_str (llm_api_key st), rq_api_base = truthy_str (llm_api_base st)\<rparr>"

definition no_llm_config :: llm_config where
  "no_llm_config = \<lparr>lc_model = None, lc_fallback_model = None, lc_temperature = None\<rparr>"

definition stream_chat_completion ::
  "llm_settings \<Rightarrow> acompletion \<Rightarrow> llm_msg list \<Rightarrow> llm_config option \<Rightarrow> exn + llm_stream" where
  "stream_chat_completion st acompl ms tenant_llm_config =
     (let config = default_to no_llm_config tenant_llm_config;
          primary = default_to (llm_primary_model st) (lc_model config);
          fallback = default_to (llm_fallback_model st) (lc_fallback_model config);
          temperature = default_to (7 / 10) (lc_temperature config)
      in case acompl (llm_kwargs st primary temperature ms) (Some (llm_fallback_timeout st)) of
           Some response \<Rightarrow> Inr response
         | None \<Rightarrow>
           (case acompl (llm_kwargs st fallback temperature ms) None of
              Some response \<Rightarrow> Inr response
            | None \<Rightarrow> Inl ConnectionError))"

record vision_request =
  vq_model :: string
  vq_text :: ucs
  vq_url :: string
  vq_api_key :: "string option"
  vq_api_base :: "string option"

definition VISION_DEFAULT_TEXT :: ucs where \<comment> \<open>asks for a description of the picture\<close>
  "VISION_DEFAULT_TEXT = [35831, 25551, 36848, 36825, 24352, 22270, 29255, 30340, 20869, 23481]"

text \<open>The answer's text is \<open>None\<close> where the model gives a null content.\<close>

definition vision_completion ::
  "llm_settings \<Rightarrow> (vision_request \<Rightarrow> exn + ucs option) \<Rightarrow> string \<Rightarrow> ucs \<Rightarrow> exn + ucs" where
  "vision_completion st acompl image_url user_text =
     (case acompl \<lparr>vq_model = vision_model st,
                   vq_text = (if user_text = [] then VISION_DEFAULT_TEXT else user_text),
                   vq_url = image_url, vq_api_key = truthy_str (llm_api_key st),
                   vq_api_base = truthy_str (llm_api_base st)\<rparr> of
        Inl e \<Rightarrow> Inl e
      | Inr content \<Rightarrow> Inr (default_to [] content))"

section \<open>Reading a stream\<close>

text \<open>
  The loop of the classifier and the summarizer: \<open>chunk.choices[0]\<close> raises on a chunk without
  choices.
\<close>

fun collect_plain :: "llm_chunk list \<Rightarrow> ucs \<Rightarrow> exn + ucs" where
  "collect_plain [] acc = Inr acc"
| "collect_plain (c # cs) acc =
     (case ck_choice c of
        NoChoices \<Rightarrow> Inl IndexError
      | NoDelta \<Rightarrow> collect_plain cs acc
      | Delta content _ \<Rightarrow> collect_plain cs (acc @ content))"

definition read_plain :: "llm_stream \<Rightarrow> exn + ucs" where
  "read_plain s = (case collect_plain (ls_chunks s) [] of
     Inl e \<Rightarrow> Inl e | Inr t \<Rightarrow> if ls_raises s then Inl ConnectionError else Inr t)"

text \<open>
  The loop of the answering node: the text so far, the token count and the tokens it puts into the
  queue of the SSE response, one per chunk with a text.
\<close>

definition chunk_text :: "llm_chunk \<Rightarrow> ucs" where
  "chunk_text c = (case ck_choice c of Delta content reasoning \<Rightarrow>
     (if content = [] then reasoning else content) | _ \<Rightarrow> [])"

fun collect_stream :: "llm_chunk list \<Rightarrow> ucs \<times> int \<times> ucs list \<Rightarrow> ucs \<times> int \<times> ucs list" where
  "collect_stream [] acc = acc"
| "collect_stream (c # cs) (full, used, pushed) =
     collect_stream cs
       (full @ chunk_text c,
        (case ck_usage c of None \<Rightarrow> used | Some n \<Rightarrow> n),
        if chunk_text c = [] then pushed else pushed @ [chunk_text c])"

lemma collect_stream_full:
  "fst (collect_stream cs (full, used, pushed)) = full @ concat (map chunk_text cs)"
  by (induction cs arbitrary: full used pushed) auto

lemma collect_stream_pushed:
  "snd (snd (collect_stream cs (full, used, pushed))) = pushed @ filter (\<lambda>t. t \<noteq> []) (map chunk_text cs)"
  by (induction cs arbitrary: full used pushed) auto

lemma concat_filter_nonempty: "concat (filter (\<lambda>t. t \<noteq> []) ts) = concat ts"
  by (induction ts) auto

text \<open>What is streamed is what is returned.\<close>

lemma collect_stream_agrees:
  "collect_stream cs ([], 0, []) = (full, used, pushed) \<Longrightarrow> concat pushed = full"
  using collect_stream_full [of cs "[]" 0 "[]"] collect_stream_pushed [of cs "[]" 0 "[]"]
  by (simp add: concat_filter_nonempty)

lemma collect_plain_no_choices: "c \<in> set cs \<Longrightarrow> ck_choice c = NoChoices \<Longrightarrow> collect_plain cs acc = Inl IndexError"
  by (induction cs arbitrary: acc) (auto split: chunk_choice.split)

section \<open>The summarizer\<close>

definition SUMMARIZE_SYSTEM_PROMPT :: ucs where
  "SUMMARIZE_SYSTEM_PROMPT =
     [35831, 23558, 20197, 19979, 23545, 35805, 21382, 21490, 21387, 32553, 20026, 31616, 27905, 30340, 25688,
     35201, 65292, 20445, 30041, 20851, 38190, 20449, 24687, 21644, 29992, 25143, 24847, 22270, 12290, 25688,
     35201, 24212, 21253, 21547, 65306, 29992, 25143, 30340, 26680, 24515, 38382, 39064, 12289, 24050, 35299,
     20915, 30340, 20107, 39033, 12289, 24453, 22788, 29702, 30340, 20107, 39033, 12289, 37325, 35201, 30340,
     19978, 19979, 25991, 20449, 24687, 12290, 29992, 20013, 25991, 36755, 20986, 65292, 19981, 36229, 36807]
     @ ucs_of '' 500 '' @ [23383, 12290]"

definition summary_conversation :: "chat_msg list \<Rightarrow> ucs" where
  "summary_conversation ms =
     py_join [10] (map (\<lambda>m. ucs_of (role_of m) @ ucs_of '': '' @ text_of m) (filter (\<lambda>m. text_of m \<noteq> []) ms))"

definition summarize :: "llm_settings \<Rightarrow> acompletion \<Rightarrow> chat_msg list \<Rightarrow> ucs" where
  "summarize st acompl ms =
     (case stream_chat_completion st acompl
             [(''system'', SUMMARIZE_SYSTEM_PROMPT), (''user'', summary_conversation ms)]
             (Some (no_llm_config\<lparr>lc_temperature := Some (3 / 10)\<rparr>)) of
        Inl _ \<Rightarrow> []
      | Inr response \<Rightarrow> (case read_plain response of Inl _ \<Rightarrow> [] | Inr t \<Rightarrow> strip t))"

end
