(* ===== verification/Regex.thy ===== *)
theory Regex
  imports PyStd
begin

text \<open>
  Regular expressions that look at the character before (\<open>\b\<close> and \<open>^\<close>), with the order in which
  \<open>re\<close> tries the alternatives, so that the first end is the match that \<open>finditer\<close> and \<open>sub\<close> take.
  Repetitions are of single characters, as everywhere in the sources.
\<close>

section \<open>Characters\<close>

text \<open>What Unicode adds to \<open>\w\<close> and \<open>\d\<close> beyond ASCII is an argument.\<close>

record unicode_table =
  ut_word :: "nat \<Rightarrow> bool"
  ut_digit :: "nat \<Rightarrow> bool"

definition is_word :: "(nat \<Rightarrow> bool) \<Rightarrow> nat \<Rightarrow> bool" where \<comment> \<open>\<open>\w\<close>\<close>
  "is_word wide c \<longleftrightarrow> 48 \<le> c \<and> c \<le> 57 \<or> 65 \<le> c \<and> c \<le> 90 \<or> 97 \<le> c \<and> c \<le> 122 \<or> c = 95 \<or> 128 \<le> c \<and> wide c"

definition is_decimal :: "(nat \<Rightarrow> bool) \<Rightarrow> nat \<Rightarrow> bool" where \<comment> \<open>\<open>\d\<close>\<close>
  "is_decimal wide c \<longleftrightarrow> 48 \<le> c \<and> c \<le> 57 \<or> 128 \<le> c \<and> wide c"

text \<open>
  The lower-case ASCII letter a code point stands for under \<open>re.IGNORECASE\<close>: the capitals, and the
  four code points outside ASCII that match a letter (dotted and dotless i, long s, Kelvin sign).
\<close>

definition fold_ucs :: "nat \<Rightarrow> nat" where
  "fold_ucs c = (if 65 \<le> c \<and> c \<le> 90 then c + 32
     else if c = 304 \<or> c = 305 then 105 else if c = 383 then 115 else if c = 8490 then 107 else c)"

definition is_letter :: "nat \<Rightarrow> bool" where \<comment> \<open>\<open>[A-Za-z]\<close>, ignoring the case\<close>
  "is_letter c \<longleftrightarrow> 97 \<le> fold_ucs c \<and> fold_ucs c \<le> 122"

section \<open>Expressions\<close>

datatype rex =
    RSym "nat \<Rightarrow> bool"
  | REps
  | RSeq rex rex
  | ROr rex rex
  | RRep nat "nat option" "nat \<Rightarrow> bool"   \<comment> \<open>\<open>c{m,n}\<close>, the longest first\<close>
  | RLazy "nat \<Rightarrow> bool"                   \<comment> \<open>\<open>c*?\<close>\<close>
  | RBound "nat \<Rightarrow> bool"                  \<comment> \<open>\<open>\b\<close>, for these word characters\<close>
  | RFront                                \<comment> \<open>\<open>^\<close>\<close>

text \<open>A position: the character before it, if any, and what follows.\<close>

type_synonym pos = "nat option \<times> ucs"

definition after :: "pos \<Rightarrow> nat \<Rightarrow> pos" where
  "after x k = (if k = 0 then x else (Some (snd x ! (k - 1)), drop k (snd x)))"

definition run_length :: "nat option \<Rightarrow> (nat \<Rightarrow> bool) \<Rightarrow> ucs \<Rightarrow> nat" where
  "run_length n p s = (let k = length (takeWhile p s) in case n of None \<Rightarrow> k | Some m \<Rightarrow> min m k)"

definition at_bound :: "(nat \<Rightarrow> bool) \<Rightarrow> pos \<Rightarrow> bool" where
  "at_bound w x \<longleftrightarrow> (case fst x of None \<Rightarrow> False | Some c \<Rightarrow> w c) \<noteq> (case snd x of [] \<Rightarrow> False | c # _ \<Rightarrow> w c)"

fun rex_ends :: "rex \<Rightarrow> pos \<Rightarrow> pos list" where
  "rex_ends (RSym p) x = (case snd x of [] \<Rightarrow> [] | c # cs \<Rightarrow> if p c then [(Some c, cs)] else [])"
| "rex_ends REps x = [x]"
| "rex_ends (RSeq a b) x = concat (map (rex_ends b) (rex_ends a x))"
| "rex_ends (ROr a b) x = rex_ends a x @ rex_ends b x"
| "rex_ends (RRep m n p) x = map (after x) (rev [m..<run_length n p (snd x) + 1])"
| "rex_ends (RLazy p) x = map (after x) [0..<run_length None p (snd x) + 1]"
| "rex_ends (RBound w) x = (if at_bound w x then [x] else [])"
| "rex_ends RFront x = (if fst x = None then [x] else [])"

definition rseq :: "rex list \<Rightarrow> rex" where
  "rseq rs = foldr RSeq rs REps"

definition ralt :: "rex list \<Rightarrow> rex" where
  "ralt rs = foldr ROr (butlast rs) (last rs)"

definition rlit :: "string \<Rightarrow> rex" where \<comment> \<open>the text itself\<close>
  "rlit w = rseq (map (\<lambda>a. RSym (\<lambda>c. c = of_char a)) w)"

definition rilit :: "string \<Rightarrow> rex" where \<comment> \<open>a lower-case text, ignoring the case\<close>
  "rilit w = rseq (map (\<lambda>a. RSym (\<lambda>c. fold_ucs c = of_char a)) w)"

section \<open>Searching and replacing\<close>

datatype 'm piece = Plain nat | Hit 'm

text \<open>What \<open>finditer\<close> finds, and what is between, for an expression that matches no empty text.\<close>

function rex_scan :: "rex \<Rightarrow> pos \<Rightarrow> ucs piece list" where
  "rex_scan r (pv, []) = []"
| "rex_scan r (pv, c # cs) =
     (case rex_ends r (pv, c # cs) of
        [] \<Rightarrow> Plain c # rex_scan r (Some c, cs)
      | (pv', rest) # _ \<Rightarrow>
          if length rest \<le> length cs then Hit (take (length (c # cs) - length rest) (c # cs)) # rex_scan r (pv', rest)
          else Plain c # rex_scan r (Some c, cs))"
  by pat_completeness auto
termination
  by (relation "measure (\<lambda>(r, x). length (snd x))") auto

definition rex_finditer :: "rex \<Rightarrow> ucs \<Rightarrow> ucs list" where
  "rex_finditer r s = List.map_filter (\<lambda>p. case p of Plain _ \<Rightarrow> None | Hit m \<Rightarrow> Some m) (rex_scan r (None, s))"

definition rex_sub :: "rex \<Rightarrow> ucs \<Rightarrow> ucs \<Rightarrow> ucs" where
  "rex_sub r new s = concat (map (\<lambda>p. case p of Plain c \<Rightarrow> [c] | Hit m \<Rightarrow> new) (rex_scan r (None, s)))"

definition rex_first :: "rex \<Rightarrow> ucs \<Rightarrow> ucs option" where \<comment> \<open>\<open>search(text).group()\<close>\<close>
  "rex_first r s = (case rex_finditer r s of [] \<Rightarrow> None | m # _ \<Rightarrow> Some m)"

section \<open>What is found\<close>

lemma after_suffix: "k \<le> length (snd x) \<Longrightarrow> snd x = take k (snd x) @ snd (after x k)"
  by (simp add: after_def)

lemma run_length_le: "run_length n p s \<le> length s"
  by (auto simp: run_length_def Let_def length_takeWhile_le min.coboundedI2 split: option.split)

lemma run_length_all: "j < run_length n p s \<Longrightarrow> p (s ! j)"
proof -
  assume "j < run_length n p s"
  then have "j < length (takeWhile p s)" by (auto simp: run_length_def Let_def split: option.splits)
  then show "p (s ! j)" by (metis nth_mem set_takeWhileD takeWhile_nth)
qed

text \<open>The characters that an expression can take.\<close>

fun rex_chars :: "rex \<Rightarrow> nat \<Rightarrow> bool" where
  "rex_chars (RSym p) c = p c"
| "rex_chars (RSeq a b) c = (rex_chars a c \<or> rex_chars b c)"
| "rex_chars (ROr a b) c = (rex_chars a c \<or> rex_chars b c)"
| "rex_chars (RRep m n p) c = p c"
| "rex_chars (RLazy p) c = p c"
| "rex_chars _ c = False"

lemma rex_ends_suffix: "y \<in> set (rex_ends r x) \<Longrightarrow> \<exists>u. snd x = u @ snd y \<and> (\<forall>c \<in> set u. rex_chars r c)"
proof (induction r arbitrary: x y)
  case (RSeq a b)
  then obtain z where z: "z \<in> set (rex_ends a x)" "y \<in> set (rex_ends b z)" by auto
  from RSeq.IH(1) [OF z(1)] RSeq.IH(2) [OF z(2)] obtain u v where
      "snd x = u @ snd z" "\<forall>c \<in> set u. rex_chars a c" "snd z = v @ snd y" "\<forall>c \<in> set v. rex_chars b c"
    by blast
  then show ?case by (intro exI [of _ "u @ v"]) auto
next
  case (ROr a b)
  then show ?case by fastforce
next
  case (RRep m n p)
  then obtain k where k: "y = after x k" "k \<le> run_length n p (snd x)" by auto
  then have "k \<le> length (snd x)" using run_length_le [of n p "snd x"] by linarith
  moreover have "\<forall>c \<in> set (take k (snd x)). p c"
    using k(2) run_length_all [of _ n p "snd x"] by (auto simp: in_set_conv_nth)
  ultimately show ?case using after_suffix [of k x] k(1) by (intro exI [of _ "take k (snd x)"]) simp
next
  case (RLazy p)
  then obtain k where k: "y = after x k" "k \<le> run_length None p (snd x)" by auto
  then have "k \<le> length (snd x)" using run_length_le [of None p "snd x"] by linarith
  moreover have "\<forall>c \<in> set (take k (snd x)). p c"
    using k(2) run_length_all [of _ None p "snd x"] by (auto simp: in_set_conv_nth)
  ultimately show ?case using after_suffix [of k x] k(1) by (intro exI [of _ "take k (snd x)"]) simp
qed (auto split: list.splits if_splits)

definition piece_text :: "ucs piece \<Rightarrow> ucs" where
  "piece_text p = (case p of Plain c \<Rightarrow> [c] | Hit m \<Rightarrow> m)"

lemma scan_text: "concat (map piece_text (rex_scan r x)) = snd x \<and> (\<forall>m. Hit m \<in> set (rex_scan r x) \<longrightarrow> m \<noteq> [] \<and> (\<forall>c \<in> set m. rex_chars r c))"
proof (induction r x rule: rex_scan.induct)
  case (2 r pv c cs)
  show ?case
  proof (cases "rex_ends r (pv, c # cs)")
    case Nil
    with 2 show ?thesis by (auto simp: piece_text_def)
  next
    case (Cons y ys)
    obtain pv' rest where y: "y = (pv', rest)" by (cases y)
    from rex_ends_suffix [of y r "(pv, c # cs)"] Cons y obtain u where u: "c # cs = u @ rest" "\<forall>c \<in> set u. rex_chars r c" by auto
    show ?thesis
    proof (cases "length rest \<le> length cs")
      case True
      have t: "take (length (c # cs) - length rest) (c # cs) = u" unfolding u(1) by simp
      have "u \<noteq> []" using u(1) True by auto
      have e: "rex_scan r (pv, c # cs) = Hit u # rex_scan r (pv', rest)" using Cons y True t by simp
      show ?thesis unfolding e using 2(2) [OF Cons y [symmetric] True] u \<open>u \<noteq> []\<close> by (auto simp: piece_text_def)
    next
      case False
      with 2(3) [OF Cons y [symmetric] False] Cons y show ?thesis by (auto simp: piece_text_def)
    qed
  qed
qed simp

lemma found_chars: "m \<in> set (rex_finditer r s) \<Longrightarrow> m \<noteq> [] \<and> (\<forall>c \<in> set m. rex_chars r c)"
proof -
  assume "m \<in> set (rex_finditer r s)"
  then have "Hit m \<in> set (rex_scan r (None, s))"
    by (auto simp: rex_finditer_def List.map_filter_def split: piece.splits)
  with scan_text [of r "(None, s)"] show ?thesis by blast
qed

text \<open>Without a match nothing is changed.\<close>

lemma sub_nothing: "rex_finditer r s = [] \<Longrightarrow> rex_sub r new s = s"
proof -
  assume n: "rex_finditer r s = []"
  have "map (\<lambda>p. case p of Plain c \<Rightarrow> [c] | Hit m \<Rightarrow> new) ps = map piece_text ps"
    if "List.map_filter (\<lambda>p. case p of Plain _ \<Rightarrow> None | Hit m \<Rightarrow> Some m) ps = []" for ps
    using that by (induction ps) (auto simp: piece_text_def List.map_filter_simps split: piece.splits)
  from this [OF n [unfolded rex_finditer_def]] show ?thesis
    using scan_text [of r "(None, s)"] by (simp only: rex_sub_def snd_conv)
qed

end
