(* ===== verification/Router.thy ===== *)
theory Router
  imports LlmClient Regex
begin

text \<open>
  \<^verbatim>\<open>chat_service/agent/nodes/router.py\<close>: where a message goes.  The patterns of the rule engine and
  of the keyword searches are regular expressions over code points, matched with \<open>re.IGNORECASE\<close>
  and the expressions' letters all in lower case.
\<close>

section \<open>Patterns\<close>

definition lit :: "ucs \<Rightarrow> nat rx" where
  "lit w = rx_word (\<lambda>p c. fold_ucs c = p) w"

definition not_newline :: "nat \<Rightarrow> bool" where
  "not_newline c \<longleftrightarrow> c \<noteq> 10"

definition gap :: "nat \<Rightarrow> nat rx" where \<comment> \<open>\<open>.{0,n}\<close>\<close>
  "gap n = UpTo n not_newline"

definition anything :: "nat rx" where \<comment> \<open>\<open>.*\<close>\<close>
  "anything = Many not_newline"

definition spaces :: "nat rx" where \<comment> \<open>\<open>\s*\<close>\<close>
  "spaces = Many is_ws"

definition rx_seq :: "nat rx list \<Rightarrow> nat rx" where
  "rx_seq rs = foldr Cat rs Eps"

definition RULE_PATTERNS :: "(string \<times> nat rx list) list" where
  "RULE_PATTERNS =
     [(''get_order_status'',
       [rx_seq [lit ([26597]), gap 5, lit ([35746, 21333])],
        rx_seq [lit ([35746, 21333]), gap 5, lit ([29366, 24577])],
        rx_seq [lit ([25105, 30340, 35746, 21333])],
        rx_seq [lit (ucs_of ''order''), spaces, lit (ucs_of ''status'')],
        rx_seq [lit (ucs_of ''track''), gap 5, lit (ucs_of ''order'')],
        rx_seq [lit (ucs_of ''where''), gap 5, Alt (lit (ucs_of ''is'')) (lit (ucs_of ''my'')), spaces, lit (ucs_of ''order'')]]),
      (''update_shipping_address'',
       [rx_seq [lit ([25913]), gap 5, lit ([22320, 22336])],
        rx_seq [lit ([20462, 25913]), gap 5, lit ([25910, 36135])],
        rx_seq [lit ([26356, 25442]), gap 5, lit ([22320, 22336])],
        rx_seq [lit (ucs_of ''change''), anything, lit (ucs_of ''address'')],
        rx_seq [lit (ucs_of ''update''), anything, lit (ucs_of ''address'')],
        rx_seq [lit (ucs_of ''modify''), anything, lit (ucs_of ''shipping'')]])]"

definition NEGATIVE_KEYWORDS :: "ucs list" where
  "NEGATIVE_KEYWORDS =
     [[25237, 35785], [24046, 35780], [22403, 22334], [39575, 23376], [36864, 27454], [22826, 24930],
      [19981, 28385], [29983, 27668], [24868, 24594], [24694, 24515], [22833, 26395], [26080, 35821],
      [22353], [28866], [24223, 29289], [20030, 25253], ucs_of ''complaint'', ucs_of ''terrible'', ucs_of
      ''awful'', ucs_of ''angry'', ucs_of ''furious'', ucs_of ''disgusting'', ucs_of ''scam'', ucs_of
      ''fraud'', ucs_of ''worst'', ucs_of ''horrible'', ucs_of ''unacceptable'']"

definition HUMAN_TRANSFER_KEYWORDS :: "ucs list" where
  "HUMAN_TRANSFER_KEYWORDS =
     [[36716, 20154, 24037], [20154, 24037, 23458, 26381], [20154, 24037, 26381, 21153], [25214, 20154,
      24037], [30495, 20154, 23458, 26381], [30495, 20154, 26381, 21153], ucs_of ''human agent'', ucs_of
      ''talk to human'', ucs_of ''real person'', ucs_of ''speak to agent'']"

text \<open>\<open>re.compile("|".join(re.escape(kw) for kw in kws), re.IGNORECASE).search(text)\<close>\<close>

definition keyword_search :: "ucs list \<Rightarrow> ucs \<Rightarrow> bool" where
  "keyword_search kws txt \<longleftrightarrow> rx_search (foldr (\<lambda>w r. Alt (lit w) r) (butlast kws) (lit (last kws))) txt"

definition UNRESOLVED_THRESHOLD :: int where "UNRESOLVED_THRESHOLD = 3"

section \<open>The node\<close>

definition detect_negative_sentiment :: "agent_state \<Rightarrow> bool" where
  "detect_negative_sentiment s =
     (if unresolved_turns s \<ge> UNRESOLVED_THRESHOLD then True
      else if messages s = [] then False
      else keyword_search NEGATIVE_KEYWORDS (last_text (messages s)))"

definition CLASSIFY_PROMPT :: "ucs \<Rightarrow> ucs" where
  "CLASSIFY_PROMPT txt =
     ucs_of ''You are an intent classifier for a customer service system.'' @ [10] @
     ucs_of ''Classify the user message into exactly one of these categories:'' @ [10] @
     ucs_of ''- tool:get_order_status (user wants to check order status)'' @ [10] @
     ucs_of ''- tool:update_shipping_address (user wants to change shipping address)'' @ [10] @
     ucs_of ''- rag (user is asking a knowledge/FAQ question)'' @ [10] @
     ucs_of ''- hitl (user explicitly requests human agent)'' @ [10] @
     ucs_of ''- chitchat (casual conversation, greetings)'' @ [10, 10] @
     ucs_of ''User message: '' @ txt @ [10, 10] @
     ucs_of ''Respond with ONLY the category label, nothing else.''"

definition valid_intents :: "string list" where
  "valid_intents = [''tool:get_order_status'', ''tool:update_shipping_address'', ''rag'', ''hitl'', ''chitchat'']"

text \<open>The label of the classifier's answer, \<open>rag\<close> for an answer that is none of the labels.\<close>

definition parse_label :: "ucs \<Rightarrow> string" where
  "parse_label t = (case find (\<lambda>v. map lower_ucs (strip t) = ucs_of v) valid_intents of
     None \<Rightarrow> ''rag'' | Some v \<Rightarrow> v)"

definition llm_classify_intent :: "llm_settings \<Rightarrow> acompletion \<Rightarrow> ucs \<Rightarrow> string" where
  "llm_classify_intent st acompl txt =
     (case stream_chat_completion st acompl [(''user'', CLASSIFY_PROMPT txt)]
             (Some (no_llm_config\<lparr>lc_temperature := Some 0\<rparr>)) of
        Inl _ \<Rightarrow> ''rag''
      | Inr response \<Rightarrow> (case read_plain response of Inl _ \<Rightarrow> ''rag'' | Inr t \<Rightarrow> parse_label t))"

definition match_rule :: "ucs \<Rightarrow> string option" where
  "match_rule txt = map_option fst (find (\<lambda>(tool, ps). \<exists>p \<in> set ps. rx_search p txt) RULE_PATTERNS)"

definition router_node :: "llm_settings \<Rightarrow> acompletion \<Rightarrow> agent_state \<Rightarrow> agent_state" where
  "router_node st acompl s =
     (if messages s = [] then s\<lparr>user_intent := Some ''rag''\<rparr>
      else let txt = last_text (messages s) in
        case match_rule txt of
          Some tool \<Rightarrow> s\<lparr>user_intent := Some (''tool:'' @ tool)\<rparr>
        | None \<Rightarrow>
            if keyword_search HUMAN_TRANSFER_KEYWORDS txt
            then s\<lparr>user_intent := Some ''hitl'', hitl_requested := True\<rparr>
            else if detect_negative_sentiment s
            then s\<lparr>user_intent := Some ''hitl'', hitl_requested := True\<rparr>
            else (let intent = llm_classify_intent st acompl txt in
                  if intent = ''hitl'' then s\<lparr>user_intent := Some ''hitl'', hitl_requested := True\<rparr>
                  else s\<lparr>user_intent := Some intent\<rparr>))"

datatype route = ToTool | ToRag | ToHitl

definition route_decision :: "agent_state \<Rightarrow> route" where
  "route_decision s =
     (let intent = user_intent s in
      if intent \<noteq> None \<and> starts_with ''tool:'' (the intent) then ToTool
      else if hitl_requested s \<or> intent = Some ''hitl'' then ToHitl
      else ToRag)"

section \<open>What the patterns find\<close>

lemma lit_comap: "lit w = rx_comap fold_ucs (rx_word (=) w)"
  unfolding lit_def by (induction w) (auto simp: fun_eq_iff)

lemma lit_search: "rx_search (lit w) s \<longleftrightarrow> sub_in w (map fold_ucs s)"
  by (simp add: lit_comap rx_search_comap rx_search_word)

lemma rx_search_Alt: "rx_search (Alt a b) s \<longleftrightarrow> rx_search a s \<or> rx_search b s"
  unfolding rx_search_correct rx_matches.simps by blast

lemma alternation_search:
  "rx_search (foldr (\<lambda>w r. Alt (lit w) r) ws r) s \<longleftrightarrow> (\<exists>w \<in> set ws. sub_in w (map fold_ucs s)) \<or> rx_search r s"
  by (induction ws) (auto simp: rx_search_Alt lit_search)

text \<open>
  Searching the alternation of the keywords is searching the folded text for one of them.
\<close>

theorem keyword_search_substring:
  assumes "kws \<noteq> []"
  shows "keyword_search kws txt \<longleftrightarrow> (\<exists>w \<in> set kws. sub_in w (map fold_ucs txt))"
proof -
  have "set kws = insert (last kws) (set (butlast kws))"
    using append_butlast_last_id [OF assms] by (metis list.simps(15) rotate1.simps(2) set_rotate1)
  then show ?thesis by (auto simp: keyword_search_def alternation_search lit_search)
qed

section \<open>What the rules say\<close>

text \<open>Two words of a text with a stretch between them, and three.\<close>

definition around :: "ucs \<Rightarrow> (ucs \<Rightarrow> bool) \<Rightarrow> ucs \<Rightarrow> ucs \<Rightarrow> bool" where
  "around x between y s \<longleftrightarrow> (\<exists>a g b. s = a @ x @ g @ y @ b \<and> between g)"

definition around3 :: "ucs \<Rightarrow> (ucs \<Rightarrow> bool) \<Rightarrow> ucs \<Rightarrow> (ucs \<Rightarrow> bool) \<Rightarrow> ucs \<Rightarrow> ucs \<Rightarrow> bool" where
  "around3 x p y q z s \<longleftrightarrow> (\<exists>a g h b. s = a @ x @ g @ y @ h @ z @ b \<and> p g \<and> q h)"

definition at_most :: "nat \<Rightarrow> ucs \<Rightarrow> bool" where
  "at_most n g \<longleftrightarrow> length g \<le> n \<and> 10 \<notin> set g"

definition one_line :: "ucs \<Rightarrow> bool" where
  "one_line g \<longleftrightarrow> 10 \<notin> set g"

definition blanks :: "ucs \<Rightarrow> bool" where
  "blanks g \<longleftrightarrow> (\<forall>c \<in> set g. is_ws c)"

lemma fold_class [simp]: "not_newline (fold_ucs c) = not_newline c" "is_ws (fold_ucs c) = is_ws c"
  by (auto simp: not_newline_def fold_ucs_def is_ws_def)

lemma gap_comap: "gap n = rx_comap fold_ucs (gap n)"
  by (simp add: gap_def)

lemma anything_comap: "anything = rx_comap fold_ucs anything"
  by (simp add: anything_def)

lemma spaces_comap: "spaces = rx_comap fold_ucs spaces"
  by (simp add: spaces_def)

lemma rx_seq_comap: "rx_seq (map (rx_comap f) rs) = rx_comap f (rx_seq rs)"
  by (induction rs) (simp_all add: rx_seq_def)

lemma class_matches [simp]:
  "rx_matches (gap n) u \<longleftrightarrow> at_most n u" "rx_matches anything u \<longleftrightarrow> one_line u" "rx_matches spaces u \<longleftrightarrow> blanks u"
  "rx_matches (rx_word (=) w) u \<longleftrightarrow> u = w"
  by (auto simp: gap_def anything_def spaces_def at_most_def one_line_def blanks_def not_newline_def
      rx_matches_word list_all2_eq [symmetric] list.rel_eq)

lemma rx_seq_matches:
  "rx_matches (rx_seq []) u \<longleftrightarrow> u = []"
  "rx_matches (rx_seq (r # rs)) u \<longleftrightarrow> (\<exists>x y. u = x @ y \<and> rx_matches r x \<and> rx_matches (rx_seq rs) y)"
  by (simp_all add: rx_seq_def)

lemma search_folded:
  assumes "r = rx_comap fold_ucs r'" and "\<And>u. rx_matches r' u = P u"
  shows "rx_search r s \<longleftrightarrow> (\<exists>a u b. map fold_ucs s = a @ u @ b \<and> P u)"
  unfolding assms(1) rx_search_comap rx_search_correct [of r' "map fold_ucs s"] assms(2) by (rule refl)

text \<open>The shapes the rules have, on the folded text.\<close>

lemma search_lit: "rx_search (rx_seq [lit w]) s \<longleftrightarrow> sub_in w (map fold_ucs s)"
proof -
  have "rx_seq [lit w] = rx_comap fold_ucs (rx_seq [rx_word (=) w])"
    using rx_seq_comap [of fold_ucs "[rx_word (=) w]"] by (simp add: lit_comap)
  from search_folded [OF this, of "\<lambda>u. u = w"] show ?thesis by (simp add: rx_seq_matches sub_in_iff)
qed

lemma search_around:
  assumes r: "r = rx_comap fold_ucs r" and P: "\<And>u. rx_matches r u = P u"
  shows "rx_search (rx_seq [lit w, r, lit v]) s \<longleftrightarrow> around w P v (map fold_ucs s)"
proof -
  let ?r = "rx_seq [rx_word (=) w, r, rx_word (=) v]"
  have e: "rx_seq [lit w, r, lit v] = rx_comap fold_ucs ?r"
    using rx_seq_comap [of fold_ucs "[rx_word (=) w, r, rx_word (=) v]"] by (simp add: lit_comap r [symmetric])
  have m: "rx_matches ?r t \<longleftrightarrow> (\<exists>g. t = w @ g @ v \<and> P g)" for t
    by (simp add: rx_seq_matches P) blast
  show ?thesis unfolding search_folded [OF e m] around_def by (metis append_assoc)
qed

lemma search_around3:
  assumes r: "r = rx_comap fold_ucs r" and P: "\<And>u. rx_matches r u = P u"
    and q: "q = rx_comap fold_ucs q" and Q: "\<And>u. rx_matches q u = Q u"
  shows "rx_search (rx_seq [lit w, r, Alt (lit v) (lit v'), q, lit u]) s \<longleftrightarrow>
    around3 w P v Q u (map fold_ucs s) \<or> around3 w P v' Q u (map fold_ucs s)"
proof -
  let ?r = "rx_seq [rx_word (=) w, r, Alt (rx_word (=) v) (rx_word (=) v'), q, rx_word (=) u]"
  have e: "rx_seq [lit w, r, Alt (lit v) (lit v'), q, lit u] = rx_comap fold_ucs ?r"
    using rx_seq_comap [of fold_ucs "[rx_word (=) w, r, Alt (rx_word (=) v) (rx_word (=) v'), q, rx_word (=) u]"]
    by (simp add: lit_comap r [symmetric] q [symmetric])
  have m: "rx_matches ?r t \<longleftrightarrow> (\<exists>g h. (t = w @ g @ v @ h @ u \<or> t = w @ g @ v' @ h @ u) \<and> P g \<and> Q h)" for t
    by (simp add: rx_seq_matches P Q) blast
  show ?thesis unfolding search_folded [OF e m] around3_def by (metis append_assoc)
qed

text \<open>The two rules, stated on the folded text.\<close>

definition asks_order :: "ucs \<Rightarrow> bool" where
  "asks_order t \<longleftrightarrow>
   around ([26597]) (at_most 5) ([35746, 21333]) t \<or>
   around ([35746, 21333]) (at_most 5) ([29366, 24577]) t \<or>
   sub_in ([25105, 30340, 35746, 21333]) t \<or>
   around (ucs_of ''order'') blanks (ucs_of ''status'') t \<or>
   around (ucs_of ''track'') (at_most 5) (ucs_of ''order'') t \<or>
   around3 (ucs_of ''where'') (at_most 5) (ucs_of ''is'') blanks (ucs_of ''order'') t \<or>
   around3 (ucs_of ''where'') (at_most 5) (ucs_of ''my'') blanks (ucs_of ''order'') t"

definition asks_address :: "ucs \<Rightarrow> bool" where
  "asks_address t \<longleftrightarrow>
   around ([25913]) (at_most 5) ([22320, 22336]) t \<or>
   around ([20462, 25913]) (at_most 5) ([25910, 36135]) t \<or>
   around ([26356, 25442]) (at_most 5) ([22320, 22336]) t \<or>
   around (ucs_of ''change'') one_line (ucs_of ''address'') t \<or>
   around (ucs_of ''update'') one_line (ucs_of ''address'') t \<or>
   around (ucs_of ''modify'') one_line (ucs_of ''shipping'') t"

lemma rule_search:
  "(\<exists>p \<in> set (snd (RULE_PATTERNS ! 0)). rx_search p txt) \<longleftrightarrow> asks_order (map fold_ucs txt)"
  "(\<exists>p \<in> set (snd (RULE_PATTERNS ! 1)). rx_search p txt) \<longleftrightarrow> asks_address (map fold_ucs txt)"
  unfolding RULE_PATTERNS_def asks_order_def asks_address_def
  by (simp_all add: search_lit search_around [OF gap_comap, OF class_matches(1)]
      search_around [OF anything_comap, OF class_matches(2)] search_around [OF spaces_comap, OF class_matches(3)]
      search_around3 [OF gap_comap, OF class_matches(1) spaces_comap, OF class_matches(3)])

lemma match_rule_unfold:
  "match_rule txt =
     (if \<exists>p \<in> set (snd (RULE_PATTERNS ! 0)). rx_search p txt then Some ''get_order_status''
      else if \<exists>p \<in> set (snd (RULE_PATTERNS ! 1)). rx_search p txt then Some ''update_shipping_address'' else None)"
  unfolding match_rule_def RULE_PATTERNS_def by simp

text \<open>
  The rule engine reads the folded text: an order question first, then a change of address.
\<close>

theorem rule_engine_meaning:
  "match_rule txt =
     (if asks_order (map fold_ucs txt) then Some ''get_order_status''
      else if asks_address (map fold_ucs txt) then Some ''update_shipping_address'' else None)"
  unfolding match_rule_unfold rule_search ..

section \<open>Where a message goes\<close>

lemma match_rule_tool: "match_rule txt = Some tool \<Longrightarrow> tool \<in> {''get_order_status'', ''update_shipping_address''}"
  unfolding match_rule_def by (auto simp: RULE_PATTERNS_def split: if_splits)

lemma parse_label_valid: "parse_label t \<in> set valid_intents"
  unfolding parse_label_def by (auto simp: valid_intents_def split: option.splits if_splits)

lemma classify_valid: "llm_classify_intent st acompl txt \<in> set valid_intents"
proof -
  have "''rag'' \<in> set valid_intents" by (simp add: valid_intents_def)
  then show ?thesis by (auto simp: llm_classify_intent_def parse_label_valid split: sum.split)
qed

lemma classify_no_choices:
  assumes "stream_chat_completion st acompl [(''user'', CLASSIFY_PROMPT txt)]
      (Some (no_llm_config\<lparr>lc_temperature := Some 0\<rparr>)) = Inr s"
    and "c \<in> set (ls_chunks s)" and "ck_choice c = NoChoices"
  shows "llm_classify_intent st acompl txt = ''rag''"
  using assms by (simp add: llm_classify_intent_def read_plain_def collect_plain_no_choices)

lemma classify_tool: "starts_with ''tool:'' ''tool:get_order_status''" "starts_with ''tool:'' ''tool:update_shipping_address''"
  "\<not> starts_with ''tool:'' ''rag''" "\<not> starts_with ''tool:'' ''hitl''" "\<not> starts_with ''tool:'' ''chitchat''"
  by (simp_all add: starts_with_def)

lemma starts_with_append [simp]: "starts_with x (x @ y)"
  by (simp add: starts_with_def)

lemma keywords_nonempty [simp]: "NEGATIVE_KEYWORDS \<noteq> []" "HUMAN_TRANSFER_KEYWORDS \<noteq> []"
  by (simp_all add: NEGATIVE_KEYWORDS_def HUMAN_TRANSFER_KEYWORDS_def)

lemma route_rule:
  "route_decision (s\<lparr>user_intent := Some (''tool:'' @ tool)\<rparr>) = ToTool"
  "route_decision (s\<lparr>user_intent := Some ''hitl'', hitl_requested := True\<rparr>) = ToHitl"
  by (simp_all add: route_decision_def starts_with_def)

lemma route_class:
  "i \<noteq> ''hitl'' \<Longrightarrow> route_decision (s\<lparr>user_intent := Some i\<rparr>) =
     (if starts_with ''tool:'' i then ToTool else if hitl_requested s then ToHitl else ToRag)"
  by (simp add: route_decision_def)

text \<open>C11:  
  Where a message goes, on the folded text: a rule first, then a request for a human or a complaint,
  and only then the model's label; a thread already handed over goes to the human unless a tool is
  asked for.
\<close>

theorem router_routes:
  assumes "messages s \<noteq> []"
  shows "route_decision (router_node st ac s) =
    (let t = map fold_ucs (last_text (messages s)); intent = llm_classify_intent st ac (last_text (messages s)) in
     if asks_order t \<or> asks_address t then ToTool
     else if (\<exists>w \<in> set HUMAN_TRANSFER_KEYWORDS. sub_in w t) \<or> unresolved_turns s \<ge> 3 \<or>
       (\<exists>w \<in> set NEGATIVE_KEYWORDS. sub_in w t) then ToHitl
     else if starts_with ''tool:'' intent then ToTool
     else if intent = ''hitl'' \<or> hitl_requested s then ToHitl else ToRag)"
proof (cases "match_rule (last_text (messages s))")
  case (Some tool)
  then have "asks_order (map fold_ucs (last_text (messages s))) \<or> asks_address (map fold_ucs (last_text (messages s)))"
    unfolding rule_engine_meaning by (auto split: if_splits)
  with Some assms show ?thesis by (simp add: router_node_def Let_def route_rule(1) [simplified])
next
  case None
  then have rules: "\<not> asks_order (map fold_ucs (last_text (messages s)))" "\<not> asks_address (map fold_ucs (last_text (messages s)))"
    unfolding rule_engine_meaning by (auto split: if_splits)
  have sentiment: "detect_negative_sentiment s \<longleftrightarrow> unresolved_turns s \<ge> 3 \<or>
      (\<exists>w \<in> set NEGATIVE_KEYWORDS. sub_in w (map fold_ucs (last_text (messages s))))"
    using assms by (simp add: detect_negative_sentiment_def UNRESOLVED_THRESHOLD_def keyword_search_substring)
  show ?thesis
    using rules None assms
    by (simp add: router_node_def Let_def sentiment keyword_search_substring route_rule route_class classify_tool)
qed

lemma router_routes_witness:
  "route_decision (router_node default_llm_settings (\<lambda>_ _. None)
     (empty_state\<lparr>messages := [\<lparr>cm_role = None, cm_content = Some (ucs_of ''scam''), cm_media = []\<rparr>]\<rparr>)) = ToHitl \<or>
   asks_order (map fold_ucs (ucs_of ''scam'')) \<or> asks_address (map fold_ucs (ucs_of ''scam''))"
proof -
  have "sub_in (ucs_of ''scam'') (map fold_ucs (ucs_of ''scam''))" by (simp add: ucs_of_def fold_ucs_def starts_with_def)
  moreover have "ucs_of ''scam'' \<in> set NEGATIVE_KEYWORDS" by (simp add: NEGATIVE_KEYWORDS_def)
  ultimately have "\<exists>w \<in> set NEGATIVE_KEYWORDS. sub_in w (map fold_ucs (ucs_of ''scam''))" by blast
  then show ?thesis
    using router_routes [of "empty_state\<lparr>messages := [\<lparr>cm_role = None, cm_content = Some (ucs_of ''scam''), cm_media = []\<rparr>]\<rparr>"
      default_llm_settings "\<lambda>_ _. None"]
    by (simp add: last_text_def text_of_def Let_def)
qed

end
