(* ===== verification/AgentNodes.thy ===== *)
theory AgentNodes
  imports Router Hitl Resilience
begin

text \<open>
  The other nodes of the chat agent: \<^verbatim>\<open>preprocess.py\<close>, \<^verbatim>\<open>tool_executor.py\<close>, \<^verbatim>\<open>rag_engine.py\<close>,
  \<^verbatim>\<open>llm_generate.py\<close>, \<^verbatim>\<open>guardrails.py\<close> and \<^verbatim>\<open>hitl_node.py\<close> of \<^verbatim>\<open>chat_service/agent/nodes\<close>, with the
  tools of \<^verbatim>\<open>chat_service/agent/tools\<close> and the semantic cache of \<^verbatim>\<open>shared/semantic_cache.py\<close>.

  A node takes the state to an exception or the next state, and may change the world: the HITL
  tables, the breaker of the vector store, the entries stored in the semantic cache and the tokens
  put into the queue of the SSE response.  The services it calls are the environment's fields; a
  service that is not configured is \<open>None\<close>.
\<close>

section \<open>The environment and the world\<close>

record milvus_hit =
  mh_doc_id :: "string option"
  mh_chunk_text :: "ucs option"
  mh_entity_doc_id :: "string option"
  mh_entity_chunk_text :: "ucs option"
  mh_doc_title :: "ucs option"
  mh_doc_url :: "string option"
  mh_score :: "rat option"

record doc_row =
  dr_id :: string      \<comment> \<open>the text of the UUID\<close>
  dr_tenant :: nat
  dr_deleted :: bool

record cache_entry =
  ce_tenant :: string
  ce_query :: ucs
  ce_response :: ucs
  ce_vector :: "rat list"

text \<open>The vector store of the cache: a search gives the distance and the text of the nearest entry.\<close>

record cache_clients =
  cc_embed :: "ucs \<Rightarrow> exn + rat list"
  cc_search :: "rat list \<Rightarrow> string \<Rightarrow> exn + (rat \<times> ucs) option"
  cc_insert :: "cache_entry \<Rightarrow> exn + unit"

datatype rerank_outcome = RerankScores "rat list" | RerankTimeout | RerankError exn
datatype nli_outcome = NliScores "(rat \<times> rat \<times> rat) list" | NliTimeout | NliError
datatype tool_outcome = ToolResult "(string \<times> tool_value) list" | ToolTimeout | ToolError

record agent_env =
  e_settings :: llm_settings
  e_acompletion :: acompletion
  e_vision :: "(vision_request \<Rightarrow> exn + ucs option) option"
  e_summarizer :: bool
  e_asr :: "(string \<Rightarrow> exn + ucs option) option"
  e_oss :: "(string \<Rightarrow> exn + string) option"
  e_tool_http :: "(string \<Rightarrow> (string \<times> ucs) list \<Rightarrow> string \<Rightarrow> tool_outcome) option"
    \<comment> \<open>the order service; \<open>None\<close> in mock mode\<close>
  e_str_dict :: "(string \<times> tool_value) list \<Rightarrow> ucs"  \<comment> \<open>\<open>str\<close> of a dictionary\<close>
  e_embed :: "(ucs \<Rightarrow> exn + rat list) option"
  e_collection :: "(nat \<Rightarrow> rat list \<Rightarrow> string \<Rightarrow> exn + milvus_hit list list) option"
    \<comment> \<open>the search; its first argument counts the attempts\<close>
  e_jitter :: "nat \<Rightarrow> time"
  e_reranker :: "(ucs \<Rightarrow> ucs list \<Rightarrow> rerank_outcome) option"
  e_nli :: "((ucs \<times> ucs) list \<Rightarrow> nli_outcome) option"
  e_cache :: "cache_clients option"
  e_docs :: "doc_row list option"  \<comment> \<open>\<open>knowledge_docs\<close>, or no pool\<close>
  e_rls :: bool
  e_tenant_config :: "(string \<Rightarrow> exn + llm_config option) option" \<comment> \<open>\<open>tenants.llm_config\<close>, or no pool\<close>
  e_hitl_pool :: bool
  e_session_id :: nat
  e_task_id :: nat
  e_now :: time
  e_queue :: bool  \<comment> \<open>whether \<open>stream_chat_completion._token_queue\<close> is set\<close>

record agent_world =
  w_hitl :: hitl_db
  w_breaker :: breaker
  w_cache :: "cache_entry list"
  w_pushed :: "ucs list"

type_synonym node_result = "(exn + agent_state) \<times> agent_world"

section \<open>Preprocessing\<close>

definition SUMMARIZE_THRESHOLD :: nat where "SUMMARIZE_THRESHOLD = 50"

definition describe_image :: "agent_env \<Rightarrow> string \<Rightarrow> ucs \<Rightarrow> ucs option" where
  "describe_image env signed_url user_text =
     (case e_vision env of None \<Rightarrow> None
      | Some v \<Rightarrow> (case vision_completion (e_settings env) v signed_url user_text of
           Inl _ \<Rightarrow> None | Inr d \<Rightarrow> Some d))"

text \<open>One item of the media of the last message: the message, the references and the descriptions.\<close>

definition process_item ::
  "agent_env \<Rightarrow> media_item \<Rightarrow> chat_msg \<times> media_ref list \<times> ucs list \<Rightarrow> exn + (chat_msg \<times> media_ref list \<times> ucs list)" where
  "process_item env item acc = (case acc of (msg, refs, descs) \<Rightarrow>
     if mi_type item = Some ''audio'' \<and> e_asr env \<noteq> None
     then (case mi_url item of
             None \<Rightarrow> Inr acc
           | Some u \<Rightarrow> (case the (e_asr env) u of
               Inl _ \<Rightarrow> Inr acc
             | Inr txt \<Rightarrow> Inr (msg\<lparr>cm_content := Some (default_to [] txt)\<rparr>,
                              refs @ [\<lparr>mf_type = ''audio'', mf_url = u\<rparr>], descs)))
     else if mi_type item = Some ''image''
     then (case mi_url item of
             None \<Rightarrow> Inl KeyError
           | Some u \<Rightarrow>
             (case (case e_oss env of None \<Rightarrow> Inr u | Some sign \<Rightarrow> sign u) of
                Inl e \<Rightarrow> Inl e
              | Inr signed \<Rightarrow>
                  Inr (msg, refs @ [\<lparr>mf_type = ''image'', mf_url = signed\<rparr>],
                       case describe_image env signed (text_of msg) of
                         None \<Rightarrow> descs | Some d \<Rightarrow> if d = [] then descs else descs @ [d])))
     else Inr acc)"

fun process_media ::
  "agent_env \<Rightarrow> media_item list \<Rightarrow> chat_msg \<times> media_ref list \<times> ucs list \<Rightarrow> exn + (chat_msg \<times> media_ref list \<times> ucs list)" where
  "process_media env [] acc = Inr acc"
| "process_media env (i # is) acc =
     (case process_item env i acc of Inl e \<Rightarrow> Inl e | Inr acc' \<Rightarrow> process_media env is acc')"

definition image_note :: "ucs \<Rightarrow> ucs" where
  "image_note d = [10] @ ucs_of ''['' @ [22270, 29255, 20869, 23481] @ ucs_of '': '' @ d @ ucs_of '']''"

definition augment :: "chat_msg \<Rightarrow> ucs list \<Rightarrow> chat_msg" where
  "augment msg descs =
     (if descs = [] then msg
      else msg\<lparr>cm_content := Some (text_of msg @ concat (map image_note descs))\<rparr>)"

definition preprocess_node :: "agent_env \<Rightarrow> agent_state \<Rightarrow> exn + agent_state" where
  "preprocess_node env s0 =
     (let s = (if length (messages s0) \<ge> SUMMARIZE_THRESHOLD \<and> e_summarizer env
               then s0\<lparr>messages := [],
                       summary := Some (summarize (e_settings env) (e_acompletion env) (messages s0))\<rparr>
               else s0)
      in if messages s = [] then Inr s
         else let last_msg = last (messages s); media = cm_media last_msg in
           (case process_media env media (last_msg, media_urls s, []) of
              Inl e \<Rightarrow> Inl e
            | Inr (msg, refs, descs) \<Rightarrow>
                Inr (s\<lparr>messages := (if media = [] then messages s
                                   else butlast (messages s) @ [augment msg descs]),
                       media_urls := refs\<rparr>)))"

section \<open>Tools\<close>

text \<open>The zeros of Unicode's decimal digits: each is the first of ten consecutive digits (\<open>\d\<close>).\<close>

definition digit_zeros :: "nat list" where
  "digit_zeros =
     [48, 1632, 1776, 1984, 2406, 2534, 2662, 2790, 2918, 3046, 3174, 3302, 3430, 3558, 3664, 3792,
      3872, 4160, 4240, 6112, 6160, 6470, 6608, 6784, 6800, 6992, 7088, 7232, 7248, 42528, 43216,
      43264, 43472, 43504, 43600, 44016, 65296, 66720, 68912, 69734, 69872, 69942, 70096, 70384,
      70736, 70864, 71248, 71360, 71472, 71904, 72016, 72784, 73040, 73120, 92768, 92864, 93008,
      120782, 120792, 120802, 120812, 120822, 123200, 123632, 125264, 130032]"

definition is_digit :: "nat \<Rightarrow> bool" where
  "is_digit c \<longleftrightarrow> (\<exists>z \<in> set digit_zeros. z \<le> c \<and> c < z + 10)"

text \<open>\<open>re.search(r"(\d{4,})", s)\<close>: the first run of four or more digits, as long as it goes.\<close>

fun find_digits :: "ucs \<Rightarrow> ucs option" where
  "find_digits [] = None"
| "find_digits (c # cs) =
     (let run = takeWhile is_digit (c # cs) in if length run \<ge> 4 then Some run else find_digits cs)"

text \<open>
  \<open>re.search(r"(?:A|address)[B\s]*(.+)", s, re.IGNORECASE)\<close> where \<open>A\<close> is the Chinese word for address
  and \<open>B\<close> the two colons: after the word, as many colons and blanks as leave a character for the
  group, which is the rest of that character's line.
\<close>

definition ADDRESS_WORDS :: "ucs list" where
  "ADDRESS_WORDS = [[22320, 22336], ucs_of ''address'']"

definition is_sep :: "nat \<Rightarrow> bool" where
  "is_sep c \<longleftrightarrow> c = 65306 \<or> c = 58 \<or> is_ws c"

definition address_after :: "ucs \<Rightarrow> ucs option" where
  "address_after s =
     map_option (takeWhile (\<lambda>c. c \<noteq> 10)) (find (\<lambda>t. t \<noteq> [] \<and> hd t \<noteq> 10) (rev (many_ends is_sep s)))"

fun find_address :: "ucs \<Rightarrow> ucs option" where
  "find_address [] = None"
| "find_address (c # cs) =
     (case find (\<lambda>w. starts_with w (map fold_ucs (c # cs))) ADDRESS_WORDS of
        None \<Rightarrow> find_address cs
      | Some w \<Rightarrow> (case address_after (drop (length w) (c # cs)) of
          None \<Rightarrow> find_address cs | Some g \<Rightarrow> Some g))"

definition parse_tool_intent :: "string \<Rightarrow> ucs \<Rightarrow> string \<times> (string \<times> ucs) list" where
  "parse_tool_intent intent msg =
     (let tool = (if starts_with ''tool:'' intent then drop 5 intent else intent) in
      (tool,
       if tool = ''get_order_status''
       then [(''order_id'', case find_digits msg of Some ds \<Rightarrow> ds | None \<Rightarrow> ucs_of ''unknown'')]
       else if tool = ''update_shipping_address''
       then (case find_address msg of
               Some g \<Rightarrow> [(''address'', strip g), (''order_id'', ucs_of ''latest'')]
             | None \<Rightarrow> [(''address'', msg), (''order_id'', ucs_of ''latest'')])
       else []))"

definition tool_registry :: "string list" where
  "tool_registry = [''get_order_status'', ''update_shipping_address'']"

definition mock_order_status :: "ucs \<Rightarrow> string \<Rightarrow> (string \<times> tool_value) list" where
  "mock_order_status order_id tid =
     [(''order_id'', TStr order_id), (''tenant_id'', TStr (ucs_of tid)), (''status'', TStr (ucs_of ''shipped'')),
      (''tracking_number'', TStr (ucs_of ''SF1234567890'')), (''estimated_delivery'', TStr (ucs_of ''2026-04-05''))]"

definition mock_update_address :: "ucs \<Rightarrow> ucs \<Rightarrow> string \<Rightarrow> (string \<times> tool_value) list" where
  "mock_update_address order_id address tid =
     [(''order_id'', TStr order_id), (''tenant_id'', TStr (ucs_of tid)), (''new_address'', TStr address),
      (''updated'', TBool True)]"

text \<open>A registered tool called with its keyword arguments.\<close>

definition call_tool :: "agent_env \<Rightarrow> string \<Rightarrow> (string \<times> ucs) list \<Rightarrow> string \<Rightarrow> tool_outcome" where
  "call_tool env tool args tid =
     (case e_tool_http env of
        Some http \<Rightarrow> http tool args tid
      | None \<Rightarrow>
          if tool = ''get_order_status''
          then (case map_of args ''order_id'' of
                  None \<Rightarrow> ToolError | Some i \<Rightarrow> ToolResult (mock_order_status i tid))
          else (case (map_of args ''order_id'', map_of args ''address'') of
                  (Some i, Some a) \<Rightarrow> ToolResult (mock_update_address i a tid) | _ \<Rightarrow> ToolError))"

definition tool_error :: "string \<Rightarrow> ucs \<Rightarrow> (string \<times> tool_value) list" where
  "tool_error code msg = [(''error'', TStr (ucs_of code)), (''message'', TStr msg)]"

definition safe_tool_call :: "agent_env \<Rightarrow> string \<Rightarrow> (string \<times> ucs) list \<Rightarrow> string \<Rightarrow> (string \<times> tool_value) list" where
  "safe_tool_call env tool args tid =
     (if tool \<notin> set tool_registry
      then tool_error ''UNKNOWN_TOOL'' (ucs_of ''Unknown tool: '' @ ucs_of tool)
      else case call_tool env tool args tid of
        ToolResult r \<Rightarrow> r
      | ToolTimeout \<Rightarrow> tool_error ''TOOL_TIMEOUT'' ([26597, 35810, 36229, 26102, 65292, 35831, 31245, 21518, 37325, 35797])
      | ToolError \<Rightarrow> tool_error ''TOOL_ERROR'' ([24037, 20855, 35843, 29992, 22833, 36133]))"

definition tool_executor_node :: "agent_env \<Rightarrow> agent_state \<Rightarrow> agent_state" where
  "tool_executor_node env s =
     (case parse_tool_intent (default_to [] (user_intent s)) (last_text (messages s)) of (tool, args) \<Rightarrow>
        let result = safe_tool_call env tool args (tenant_id s) in
        s\<lparr>tool_calls := tool_calls s @ [\<lparr>tc_name = tool, tc_args = args, tc_result = result\<rparr>],
          llm_response := e_str_dict env result\<rparr>)"

section \<open>Properties of the tools\<close>

lemma find_digits_some:
  "find_digits s = Some ds \<Longrightarrow> \<exists>a b. s = a @ ds @ b \<and> 4 \<le> length ds \<and> (\<forall>d \<in> set ds. is_digit d) \<and>
     (b = [] \<or> \<not> is_digit (hd b))"
proof (induction s)
  case (Cons c cs)
  let ?run = "takeWhile is_digit (c # cs)"
  show ?case
  proof (cases "length ?run \<ge> 4")
    case True
    with Cons.prems have ds: "ds = ?run" by (simp add: Let_def split: if_splits)
    have "c # cs = [] @ ?run @ dropWhile is_digit (c # cs)" by (simp only: append.simps takeWhile_dropWhile_id)
    moreover have "dropWhile is_digit (c # cs) = [] \<or> \<not> is_digit (hd (dropWhile is_digit (c # cs)))"
      using hd_dropWhile by blast
    ultimately show ?thesis unfolding ds using True set_takeWhileD by metis
  next
    case False
    with Cons.prems have "find_digits cs = Some ds" by (simp add: Let_def split: if_splits)
    from Cons.IH [OF this] obtain a b where "cs = a @ ds @ b" and rest: "4 \<le> length ds" "\<forall>d \<in> set ds. is_digit d"
      "b = [] \<or> \<not> is_digit (hd b)" by blast
    then have "c # cs = (c # a) @ ds @ b" by simp
    with rest show ?thesis by blast
  qed
qed simp

lemma find_digits_none: "find_digits s = None \<Longrightarrow> s = a @ ds @ b \<Longrightarrow> \<forall>d \<in> set ds. is_digit d \<Longrightarrow> length ds < 4"
proof (induction s arbitrary: a)
  case (Cons c cs)
  from Cons.prems(1) have none: "find_digits cs = None" and short: "length (takeWhile is_digit (c # cs)) < 4"
    by (simp_all add: Let_def split: if_splits)
  show ?case
  proof (cases a)
    case Nil
    with Cons.prems(2,3) have "takeWhile is_digit (c # cs) = ds @ takeWhile is_digit b" by (simp add: takeWhile_append2)
    with short show ?thesis by simp
  next
    case (Cons x xs)
    with Cons.prems(2) have "cs = xs @ ds @ b" by simp
    with Cons.IH [OF none] Cons.prems(3) show ?thesis by blast
  qed
qed auto

text \<open>
  The order number is a maximal run of at least four digits of the message, \<open>unknown\<close> where it has
  none; a mocked tool answers for the tenant it is called with.
\<close>

theorem order_id_of_message:
  assumes "parse_tool_intent ''tool:get_order_status'' msg = (tool, args)"
  shows "tool = ''get_order_status'' \<and>
    (\<exists>i. args = [(''order_id'', i)] \<and>
       ((\<exists>a b. msg = a @ i @ b \<and> 4 \<le> length i \<and> (\<forall>d \<in> set i. is_digit d) \<and> (b = [] \<or> \<not> is_digit (hd b))) \<or>
        i = ucs_of ''unknown'' \<and> (\<forall>a ds b. msg = a @ ds @ b \<and> (\<forall>d \<in> set ds. is_digit d) \<longrightarrow> length ds < 4)))"
proof -
  have t: "starts_with ''tool:'' ''tool:get_order_status''" by (simp add: starts_with_def)
  show ?thesis
  proof (cases "find_digits msg")
    case None
    with assms t have "tool = ''get_order_status''" "args = [(''order_id'', ucs_of ''unknown'')]"
      by (auto simp: parse_tool_intent_def Let_def)
    with find_digits_none [OF None] show ?thesis by blast
  next
    case (Some ds)
    with assms t have "tool = ''get_order_status''" "args = [(''order_id'', ds)]"
      by (auto simp: parse_tool_intent_def Let_def)
    with find_digits_some [OF Some] show ?thesis by blast
  qed
qed

lemma order_id_of_message_witness:
  "\<exists>i. snd (parse_tool_intent ''tool:get_order_status'' [35, 49, 50, 51, 52, 63]) = [(''order_id'', i)] \<and> i \<noteq> []"
proof -
  obtain tool args where r: "parse_tool_intent ''tool:get_order_status'' [35, 49, 50, 51, 52, 63] = (tool, args)"
    by fastforce
  from order_id_of_message [OF r] show ?thesis unfolding r by (auto simp: ucs_of_def)
qed

text \<open>A tool's record in the state: whatever happens, one record is added, for the state's tenant.\<close>

lemma tool_executor_records:
  "\<exists>tc. tool_calls (tool_executor_node env s) = tool_calls s @ [tc] \<and>
     llm_response (tool_executor_node env s) = e_str_dict env (tc_result tc)"
  by (auto simp: tool_executor_node_def Let_def split: prod.split)

lemma mock_tool_tenant:
  assumes "e_tool_http env = None" and "call_tool env tool args tid = ToolResult r"
  shows "map_of r ''tenant_id'' = Some (TStr (ucs_of tid))"
  using assms by (auto simp: call_tool_def mock_order_status_def mock_update_address_def split: if_splits option.splits)

end
