(* ===== verification/AgentAnswer.thy ===== *)
theory AgentAnswer
  imports AgentNodes
begin

text \<open>
  The answering half of the chat agent: the semantic cache, retrieval with its retries and breaker,
  generation, the entailment check and the hand-over to a human.
\<close>

section \<open>Semantic cache\<close>

definition SIMILARITY_THRESHOLD :: rat where "SIMILARITY_THRESHOLD = 95 / 100"

definition cache_lookup :: "agent_env \<Rightarrow> ucs \<Rightarrow> string \<Rightarrow> ucs option" where
  "cache_lookup env query tid =
     (case e_cache env of None \<Rightarrow> None
      | Some c \<Rightarrow>
        (case cc_embed c query of Inl _ \<Rightarrow> None
         | Inr vec \<Rightarrow>
           (case cc_search c vec tid of Inl _ \<Rightarrow> None | Inr None \<Rightarrow> None
            | Inr (Some (score, response)) \<Rightarrow>
                if score \<ge> SIMILARITY_THRESHOLD \<and> response \<noteq> [] then Some response else None)))"

definition cache_store :: "agent_env \<Rightarrow> ucs \<Rightarrow> ucs \<Rightarrow> string \<Rightarrow> agent_world \<Rightarrow> agent_world" where
  "cache_store env query response tid w =
     (case e_cache env of None \<Rightarrow> w
      | Some c \<Rightarrow>
        (case cc_embed c query of Inl _ \<Rightarrow> w
         | Inr vec \<Rightarrow>
           (let e = \<lparr>ce_tenant = tid, ce_query = query, ce_response = response, ce_vector = vec\<rparr> in
            case cc_insert c e of Inl _ \<Rightarrow> w | Inr _ \<Rightarrow> w\<lparr>w_cache := w_cache w @ [e]\<rparr>)))"

section \<open>Retrieval\<close>

text \<open>
  \<open>_retry_with_backoff\<close>: the outcome and the delays slept.  \<open>f k\<close> is the outcome of attempt \<open>k\<close>;
  the recursion is on the retries left.
\<close>

fun retry_backoff ::
  "(nat \<Rightarrow> exn + 'a) \<Rightarrow> time \<Rightarrow> time \<Rightarrow> (nat \<Rightarrow> time) \<Rightarrow> nat \<Rightarrow> nat \<Rightarrow> (exn + 'a) \<times> time list" where
  "retry_backoff f base cap jit attempt 0 = (f attempt, [])"
| "retry_backoff f base cap jit attempt (Suc left) =
     (case f attempt of
        Inr x \<Rightarrow> (Inr x, [])
      | Inl _ \<Rightarrow>
         (case retry_backoff f base cap jit (attempt + 1) left of
            (r, ds) \<Rightarrow> (r, min (base * 2 ^ attempt + jit attempt) cap # ds)))"

definition milvus_retry :: "(nat \<Rightarrow> exn + 'a) \<Rightarrow> (nat \<Rightarrow> time) \<Rightarrow> (exn + 'a) \<times> time list" where
  "milvus_retry f jit = retry_backoff f (1 / 2) 5 jit 0 3"

definition milvus_breaker :: breaker where
  "milvus_breaker = new_breaker 5 60 3"

definition get_active_doc_ids :: "agent_env \<Rightarrow> string option list \<Rightarrow> string \<Rightarrow> exn + string option set" where
  "get_active_doc_ids env doc_ids tid =
     (if doc_ids = [] then Inr {}
      else case e_docs env of
        None \<Rightarrow> Inr (set doc_ids)
      | Some rows \<Rightarrow>
          (case uuid_parse tid of
             None \<Rightarrow> Inl ValueError
           | Some t \<Rightarrow>
               if \<exists>d \<in> set doc_ids. case d of None \<Rightarrow> False | Some i \<Rightarrow> uuid_parse i = None
               then Inl (DbExn BadArgument)
               else Inr ((\<lambda>r. Some (dr_id r)) ` set (sql_select (\<lambda>r.
                 rls_visible (e_rls env) t (dr_tenant r) \<and> \<not> dr_deleted r \<and>
                 (\<exists>d \<in> set doc_ids. case d of None \<Rightarrow> False | Some i \<Rightarrow> uuid_parse i = uuid_parse (dr_id r))) rows))))"

text \<open>\<open>a or b\<close> on values that may be absent or empty.\<close>

definition or_else :: "'a list option \<Rightarrow> 'a list option \<Rightarrow> 'a list option" where
  "or_else a b = (case a of None \<Rightarrow> b | Some x \<Rightarrow> if x = [] then b else Some x)"

definition hit_doc_id :: "milvus_hit \<Rightarrow> string option" where
  "hit_doc_id h = or_else (mh_doc_id h) (mh_entity_doc_id h)"

definition hit_text :: "milvus_hit \<Rightarrow> ucs" where
  "hit_text h = default_to [] (or_else (mh_chunk_text h) (mh_entity_chunk_text h))"

text \<open>
  A hit of an active document becomes a chunk with its source; the default title is computed before
  it is needed, and fails on a missing document id.
\<close>

definition hit_source :: "milvus_hit \<Rightarrow> exn + source" where
  "hit_source h =
     (case hit_doc_id h of
        None \<Rightarrow> Inl TypeError
      | Some i \<Rightarrow> Inr \<lparr>src_id = i,
          src_title = default_to (ucs_of ''Document '' @ ucs_of (take 8 i)) (mh_doc_title h),
          src_url = mh_doc_url h, src_excerpt = Some (take 200 (hit_text h)),
          src_confidence = default_to 1 (mh_score h), src_chunk_id = None, src_type = SEMANTIC_MATCH\<rparr>)"

fun build_chunks :: "milvus_hit list \<Rightarrow> string option set \<Rightarrow> exn + (ucs \<times> source) list" where
  "build_chunks [] active = Inr []"
| "build_chunks (h # hs) active =
     (if hit_doc_id h \<in> active \<and> hit_text h \<noteq> []
      then (case hit_source h of Inl e \<Rightarrow> Inl e
            | Inr s \<Rightarrow> (case build_chunks hs active of Inl e \<Rightarrow> Inl e
                | Inr cs \<Rightarrow> Inr ((hit_text h, s) # cs)))
      else build_chunks hs active)"

definition rerank_chunks :: "agent_env \<Rightarrow> ucs \<Rightarrow> (ucs \<times> source) list \<Rightarrow> exn + (ucs \<times> source) list" where
  "rerank_chunks env query cs =
     (case e_reranker env of
        None \<Rightarrow> Inr (take 3 cs)
      | Some score \<Rightarrow>
        (case score query (map fst cs) of
           RerankTimeout \<Rightarrow> Inr (take 3 cs)
         | RerankError e \<Rightarrow> Inl e
         | RerankScores xs \<Rightarrow> Inr (map snd (take 3 (sort_desc fst (zip xs cs))))))"

definition no_answer :: "agent_state \<Rightarrow> agent_state" where
  "no_answer s = s\<lparr>rag_context := [], sources := [], user_intent := Some ''no_answer''\<rparr>"

definition search_collection :: "agent_env \<Rightarrow> rat list \<Rightarrow> string \<Rightarrow> nat \<Rightarrow> exn + milvus_hit list list" where
  "search_collection env vec tid k =
     (case e_collection env of None \<Rightarrow> Inl TypeError | Some search \<Rightarrow> search k vec tid)"

text \<open>
  The node; \<open>chat_only_mode\<close> is no field of the graph's state, so what it returns there is dropped.
\<close>

definition rag_engine_node :: "agent_env \<Rightarrow> agent_state \<Rightarrow> agent_world \<Rightarrow> node_result" where
  "rag_engine_node env s w =
     (let query = last_text (messages s); tid = tenant_id s in
      if messages s = [] \<or> query = [] \<or> tid = [] then (Inr (no_answer s), w)
      else case cache_lookup env query tid of
        Some cached \<Rightarrow> (Inr (s\<lparr>rag_context := [], sources := [], llm_response := cached\<rparr>), w)
      | None \<Rightarrow>
        (case e_embed env of
           None \<Rightarrow> (Inr (no_answer s), w)
         | Some emb \<Rightarrow>
           (case emb query of
              Inl _ \<Rightarrow> (Inr (no_answer s), w)
            | Inr vec \<Rightarrow>
              (let cb = read_state (e_now env) (w_breaker w); w' = w\<lparr>w_breaker := cb\<rparr> in
               case (if cb_state cb = OPEN then Inr []
                     else fst (milvus_retry (search_collection env vec tid) (e_jitter env))) of
                 Inl _ \<Rightarrow> (Inr (no_answer s), w')
               | Inr results \<Rightarrow>
                   if results = [] \<or> hd results = [] then (Inr (no_answer s), w')
                   else case get_active_doc_ids env (map hit_doc_id (hd results)) tid of
                     Inl e \<Rightarrow> (Inl e, w')
                   | Inr active \<Rightarrow>
                     (case build_chunks (hd results) active of
                        Inl e \<Rightarrow> (Inl e, w')
                      | Inr [] \<Rightarrow> (Inr (no_answer s), w')
                      | Inr cs \<Rightarrow>
                        (case rerank_chunks env query cs of
                           Inl e \<Rightarrow> (Inl e, w')
                         | Inr ranked \<Rightarrow> (Inr (s\<lparr>rag_context := map fst ranked, sources := map snd ranked\<rparr>), w')))))))"

section \<open>Generation\<close>

definition tool_note :: "agent_env \<Rightarrow> agent_state \<Rightarrow> llm_msg list" where
  "tool_note env s =
     (if tool_calls s = [] then []
      else [(''system'', ucs_of ''Tool result: '' @ e_str_dict env (tc_result (last (tool_calls s))))])"

definition context_note :: "agent_state \<Rightarrow> llm_msg" where
  "context_note s =
     (''system'',
      if rag_context s \<noteq> []
      then ucs_of ''Reference information:'' @ [10] @ py_join [10, 10] (rag_context s) @
           (if sources s = [] then []
            else [10, 10] @ ucs_of ''Sources: '' @ format_inline_citations (sources s))
      else ucs_of ''You are a helpful customer service assistant.'')"

definition llm_messages :: "agent_env \<Rightarrow> agent_state \<Rightarrow> llm_msg list" where
  "llm_messages env s =
     context_note s # tool_note env s @ map (\<lambda>m. (role_of m, text_of m)) (last_n 10 (messages s))"

definition load_tenant_config :: "agent_env \<Rightarrow> string \<Rightarrow> llm_config option" where
  "load_tenant_config env tid =
     (case e_tenant_config env of None \<Rightarrow> None
      | Some load \<Rightarrow> if tid = [] then None else (case load tid of Inl _ \<Rightarrow> None | Inr c \<Rightarrow> c))"

definition LLM_APOLOGY :: ucs where
  "LLM_APOLOGY = [25265, 27465, 65292, 31995, 32479, 26242, 26102, 26080, 27861, 22788, 29702, 24744, 30340, 35831, 27714, 65292, 35831, 31245, 21518, 37325, 35797, 12290]"

definition llm_failed :: "agent_state \<Rightarrow> agent_state" where
  "llm_failed s = s\<lparr>llm_response := LLM_APOLOGY, guardrails_passed := True, citations := []\<rparr>"

definition llm_generate_node :: "agent_env \<Rightarrow> agent_state \<Rightarrow> agent_world \<Rightarrow> agent_state \<times> agent_world" where
  "llm_generate_node env s w =
     (case stream_chat_completion (e_settings env) (e_acompletion env) (llm_messages env s)
             (load_tenant_config env (tenant_id s)) of
        Inl _ \<Rightarrow> (llm_failed s, w)
      | Inr stream \<Rightarrow>
        (case collect_stream (ls_chunks stream) ([], 0, []) of (full, used, pushed) \<Rightarrow>
           let w' = (if e_queue env then w\<lparr>w_pushed := w_pushed w @ pushed\<rparr> else w) in
           if ls_raises stream then (llm_failed s, w')
           else (s\<lparr>llm_response := full, tokens_used := used, guardrails_passed := True, citations := sources s\<rparr>,
                 if rag_context s \<noteq> [] \<and> full \<noteq> [] \<and> last_text (messages s) \<noteq> []
                 then cache_store env (last_text (messages s)) full (tenant_id s) w' else w')))"

section \<open>Guardrails and post-processing\<close>

definition CORRECTION_MESSAGE :: ucs where
  "CORRECTION_MESSAGE =
     [9888, 65039] @ ucs_of '' '' @ [25265, 27465, 65292, 21018, 25165, 30340, 22238, 31572, 21487, 33021, 26377, 35823, 65292, 24050, 20026, 24744, 36716, 25509, 20154, 24037, 23458, 26381, 26680, 23454, 12290]"

definition ENTAILMENT_THRESHOLD :: rat where "ENTAILMENT_THRESHOLD = 1 / 2"

text \<open>Whether the model finds no context that entails the response.\<close>

definition hallucinated :: "agent_env \<Rightarrow> ucs list \<Rightarrow> ucs \<Rightarrow> bool" where
  "hallucinated env ctx response =
     (case e_nli env of None \<Rightarrow> False
      | Some nli \<Rightarrow>
        (case nli (map (\<lambda>c. (c, response)) ctx) of
           NliScores scores \<Rightarrow> scores \<noteq> [] \<and> (\<forall>(c, e, n) \<in> set scores. e < ENTAILMENT_THRESHOLD)
         | _ \<Rightarrow> False))"

definition guardrails_node :: "agent_env \<Rightarrow> agent_state \<Rightarrow> agent_state" where
  "guardrails_node env s =
     (if rag_context s \<noteq> [] \<and> llm_response s \<noteq> [] \<and> hallucinated env (rag_context s) (llm_response s)
      then s\<lparr>guardrails_passed := False, correction_message := Some CORRECTION_MESSAGE, hitl_requested := True\<rparr>
      else s\<lparr>guardrails_passed := True\<rparr>)"

definition postprocess_node :: "agent_state \<Rightarrow> agent_state" where
  "postprocess_node s =
     s\<lparr>unresolved_turns := (if guardrails_passed s then unresolved_turns s else unresolved_turns s + 1)\<rparr>"

definition guardrails_to_hitl :: "agent_state \<Rightarrow> bool" where \<comment> \<open>\<open>guardrails_decision\<close>\<close>
  "guardrails_to_hitl s = hitl_requested s"

section \<open>Hand-over\<close>

definition HITL_RESPONSE :: ucs where
  "HITL_RESPONSE = [27491, 22312, 20026, 24744, 36716, 25509, 20154, 24037, 23458, 26381, 65292, 35831, 31245, 20505, 8230]"

text \<open>
  The node calls \<open>notify_hitl_request\<close> in the tenant's context; whatever it raises is logged, and the
  response is the same.  The broadcast to the admins' sockets is not modelled.
\<close>

definition open_session :: "agent_env \<Rightarrow> agent_state \<Rightarrow> hitl_db \<Rightarrow> (exn + nat) \<times> hitl_db" where
  "open_session env s db =
     tenant_db_context (tenant_id s) (\<lambda>t db.
       case uuid_parse (thread_id s) of
         None \<Rightarrow> (Inl (DbExn BadArgument), db)
       | Some th \<Rightarrow> notify_hitl_request t th (e_session_id env) (e_task_id env) (e_now env) db) db"

definition hitl_node :: "agent_env \<Rightarrow> agent_state \<Rightarrow> agent_world \<Rightarrow> agent_state \<times> agent_world" where
  "hitl_node env s w =
     (s\<lparr>llm_response := HITL_RESPONSE\<rparr>,
      if \<not> e_hitl_pool env \<or> tenant_id s = [] then w
      else w\<lparr>w_hitl := snd (open_session env s (w_hitl w))\<rparr>)"

section \<open>Properties of retrieval\<close>

lemma retry_backoff_ok:
  "\<exists>k \<le> left. (\<forall>j < k. \<exists>e. f (attempt + j) = Inl e) \<and> fst (retry_backoff f base cap jit attempt left) = f (attempt + k) \<and>
     length (snd (retry_backoff f base cap jit attempt left)) = k \<and>
     ((\<exists>x. f (attempt + k) = Inr x) \<or> k = left)"
proof (induction left arbitrary: attempt)
  case (Suc left)
  show ?case
  proof (cases "f attempt")
    case (Inr x)
    then show ?thesis by (intro exI [of _ 0]) simp
  next
    case (Inl e)
    from Suc.IH [of "attempt + 1"] obtain k where k: "k \<le> left" "\<forall>j < k. \<exists>e. f (attempt + 1 + j) = Inl e"
      "fst (retry_backoff f base cap jit (attempt + 1) left) = f (attempt + 1 + k)"
      "length (snd (retry_backoff f base cap jit (attempt + 1) left)) = k"
      "(\<exists>x. f (attempt + 1 + k) = Inr x) \<or> k = left" by blast
    have "\<exists>e. f (attempt + j) = Inl e" if "j < Suc k" for j
      using that Inl k(2) by (cases j) auto
    with k Inl show ?thesis
      by (intro exI [of _ "Suc k"]) (auto split: prod.split)
  qed
qed simp

lemma retry_backoff_delays:
  "\<forall>k. 0 \<le> jit k \<and> jit k \<le> 1 / 2 \<Longrightarrow>
   sum_list (snd (retry_backoff f (1 / 2) cap jit attempt left)) \<le> (\<Sum>i < left. 1 / 2 * 2 ^ (attempt + i) + 1 / 2)"
proof (induction left arbitrary: attempt)
  case (Suc left)
  have nn: "0 \<le> (\<Sum>i < Suc left. 1 / 2 * 2 ^ (attempt + i) + 1 / 2 :: rat)" by (intro sum_nonneg) simp
  show ?case
  proof (cases "f attempt")
    case (Inr x)
    with nn show ?thesis by simp
  next
    case (Inl e)
    let ?r = "retry_backoff f (1 / 2) cap jit (attempt + 1) left"
    have "min (1 / 2 * 2 ^ attempt + jit attempt) cap \<le> 1 / 2 * 2 ^ attempt + 1 / 2"
      using Suc.prems by (simp add: min.coboundedI1)
    moreover have "sum_list (snd ?r) \<le> (\<Sum>i < left. 1 / 2 * 2 ^ (attempt + Suc i) + 1 / 2)"
      using Suc.IH [OF Suc.prems, of "attempt + 1"] by simp
    moreover have "sum_list (snd (retry_backoff f (1 / 2) cap jit attempt (Suc left))) =
        min (1 / 2 * 2 ^ attempt + jit attempt) cap + sum_list (snd ?r)"
      using Inl by (simp split: prod.split)
    ultimately show ?thesis unfolding sum.lessThan_Suc_shift by simp
  qed
qed simp

text \<open>
  A search of the vector store is attempted at most four times, until one succeeds; its result is the
  first success, or the last failure, and at most five seconds are slept.
\<close>

theorem milvus_retry_outcome:
  assumes "milvus_retry f jit = (r, ds)"
  shows "\<exists>k \<le> 3. (\<forall>j < k. \<exists>e. f j = Inl e) \<and> r = f k \<and> length ds = k \<and> ((\<exists>x. r = Inr x) \<or> k = 3) \<and>
    ((\<forall>k. 0 \<le> jit k \<and> jit k \<le> 1 / 2) \<longrightarrow> sum_list ds \<le> 5)"
proof -
  have "sum_list ds \<le> 5" if "\<forall>k. 0 \<le> jit k \<and> jit k \<le> 1 / 2"
    using retry_backoff_delays [OF that, of f 5 0 3] assms by (simp add: milvus_retry_def eval_nat_numeral)
  then show ?thesis
    using retry_backoff_ok [of 3 f 0 "1 / 2" 5 jit] assms by (auto simp: milvus_retry_def)
qed

lemma milvus_retry_outcome_witness:
  "sum_list (snd (milvus_retry (\<lambda>k. if k < 2 then Inl ConnectionError else Inr k) (\<lambda>_. 1 / 2))) \<le> (5 :: rat)"
proof -
  obtain r ds where r: "milvus_retry (\<lambda>k. if k < 2 then Inl ConnectionError else Inr k) (\<lambda>_. 1 / 2) = (r, ds)"
    by fastforce
  from milvus_retry_outcome [OF r] r show ?thesis by auto
qed

text \<open>The documents a context may come from: undeleted, and of the tenant under row-level security.\<close>

definition usable_doc :: "agent_env \<Rightarrow> string \<Rightarrow> string \<Rightarrow> bool" where
  "usable_doc env tid i \<longleftrightarrow> (\<exists>rows t. e_docs env = Some rows \<and> uuid_parse tid = Some t \<and>
     (\<exists>r \<in> set rows. dr_id r = i \<and> \<not> dr_deleted r \<and> rls_visible (e_rls env) t (dr_tenant r)))"

lemma active_docs_usable:
  "get_active_doc_ids env ids tid = Inr active \<Longrightarrow> e_docs env \<noteq> None \<Longrightarrow> Some i \<in> active \<Longrightarrow> usable_doc env tid i"
  unfolding get_active_doc_ids_def usable_doc_def by (auto split: if_splits option.splits)

lemma build_chunks_active:
  "build_chunks hs active = Inr cs \<Longrightarrow> (c, s) \<in> set cs \<Longrightarrow> Some (src_id s) \<in> active \<and> c \<noteq> []"
  by (induction hs arbitrary: cs) (auto simp: hit_source_def split: if_splits sum.splits option.splits)

lemma rerank_subset:
  assumes "rerank_chunks env q cs = Inr ranked"
  shows "length ranked \<le> 3 \<and> set ranked \<subseteq> set cs"
proof -
  have "map snd (take 3 (sort_desc fst (zip xs cs))) = take 3 (map snd (sort_desc fst (zip xs cs)))" for xs
    by (simp add: take_map)
  moreover have "set (take 3 (map snd (sort_desc fst (zip xs cs)))) \<subseteq> set cs" for xs :: "rat list"
    by (rule order_trans [OF set_take_subset]) (auto dest: set_zip_rightD)
  ultimately show ?thesis
    using assms set_take_subset [of 3 cs]
    by (auto simp: rerank_chunks_def split: option.splits rerank_outcome.splits simp del: set_sort_desc)
qed

lemma rag_context_cases:
  assumes "rag_engine_node env s w = (Inr s', w')"
  shows "rag_context s' = [] \<and> sources s' = [] \<or>
    (\<exists>hits active cs ranked. get_active_doc_ids env (map hit_doc_id hits) (tenant_id s) = Inr active \<and>
       build_chunks hits active = Inr cs \<and> rerank_chunks env (last_text (messages s)) cs = Inr ranked \<and>
       rag_context s' = map fst ranked \<and> sources s' = map snd ranked)"
  using assms unfolding rag_engine_node_def Let_def no_answer_def
  by (auto split: if_splits option.splits sum.splits list.splits) blast+

lemma rag_context_facts:
  assumes pool: "e_docs env \<noteq> None" and run: "rag_engine_node env s w = (Inr s', w')"
  shows "length (rag_context s') \<le> 3 \<and> length (sources s') = length (rag_context s') \<and>
    (\<forall>src \<in> set (sources s'). usable_doc env (tenant_id s) (src_id src)) \<and> (\<forall>c \<in> set (rag_context s'). c \<noteq> [])"
proof -
  from rag_context_cases [OF run]
  consider "rag_context s' = []" "sources s' = []"
    | hits active cs ranked where "get_active_doc_ids env (map hit_doc_id hits) (tenant_id s) = Inr active"
      "build_chunks hits active = Inr cs" "rerank_chunks env (last_text (messages s)) cs = Inr ranked"
      "rag_context s' = map fst ranked" "sources s' = map snd ranked"
    by blast
  then show ?thesis
  proof cases
    case 1
    then show ?thesis by simp
  next
    case 2
    from rerank_subset [OF 2(3)] build_chunks_active [OF 2(2)] active_docs_usable [OF 2(1) pool]
    show ?thesis unfolding 2(4,5) by fastforce
  qed
qed

text \<open>C18: what retrieval puts into the prompt: at most three chunks, none of them empty, each with its
  source.  Every source is a document of the table that is not deleted, and one of the turn's tenant
  where row-level security applies to the agent's role; the role of the compose files bypasses it.\<close>

theorem rag_context_sound:
  assumes "e_docs env \<noteq> None" "rag_engine_node env s w = (Inr s', w')"
  shows "length (rag_context s') \<le> 3 \<and> length (sources s') = length (rag_context s') \<and>
    (\<forall>src \<in> set (sources s'). usable_doc env (tenant_id s) (src_id src)) \<and> (\<forall>c \<in> set (rag_context s'). c \<noteq> [])"
  using assms by (rule rag_context_facts)

lemma rag_context_usable:
  "e_docs env \<noteq> None \<Longrightarrow> rag_engine_node env s w = (Inr s', w') \<Longrightarrow> src \<in> set (sources s') \<Longrightarrow>
   usable_doc env (tenant_id s) (src_id src)"
  using rag_context_facts by blast

text \<open>The sources come from the hits of one search for the tenant of the state.\<close>

lemma milvus_retry_search: "fst (milvus_retry f jit) = Inr x \<Longrightarrow> \<exists>k. f k = Inr x"
  unfolding milvus_retry_def using retry_backoff_ok by metis

lemma hit_source_id: "hit_source h = Inr s \<Longrightarrow> hit_doc_id h = Some (src_id s)"
  by (auto simp: hit_source_def split: option.splits)

lemma build_chunks_hits: "build_chunks hs active = Inr cs \<Longrightarrow> (c, s) \<in> set cs \<Longrightarrow> \<exists>h \<in> set hs. hit_doc_id h = Some (src_id s)"
  by (induction hs arbitrary: cs) (auto dest: hit_source_id split: if_splits sum.splits)

lemma rag_hits:
  assumes "rag_engine_node env s w = (Inr s', w')" "sources s' \<noteq> []" "src \<in> set (sources s')"
  shows "\<exists>search k vec results h. e_collection env = Some search \<and> search k vec (tenant_id s) = Inr results \<and>
    results \<noteq> [] \<and> h \<in> set (hd results) \<and> hit_doc_id h = Some (src_id src)"
proof -
  obtain vec results active cs ranked where
    r: "fst (milvus_retry (search_collection env vec (tenant_id s)) (e_jitter env)) = Inr results" "results \<noteq> []"
    and cs: "build_chunks (hd results) active = Inr cs" "rerank_chunks env (last_text (messages s)) cs = Inr ranked"
    and src: "sources s' = map snd ranked"
    using assms(1,2) unfolding rag_engine_node_def Let_def no_answer_def
    by (auto split: if_splits option.splits sum.splits list.splits)
  from src assms(3) obtain c where "(c, src) \<in> set ranked" by auto
  with rerank_subset [OF cs(2)] have "(c, src) \<in> set cs" by auto
  with build_chunks_hits [OF cs(1)] obtain h where "h \<in> set (hd results)" "hit_doc_id h = Some (src_id src)" by blast
  with milvus_retry_search [OF r(1)] r(2) show ?thesis
    by (auto simp: search_collection_def split: option.splits) blast
qed

lemma llm_messages_response [simp]: "llm_messages env (s\<lparr>llm_response := r\<rparr>) = llm_messages env s"
  by (simp add: llm_messages_def context_note_def tool_note_def)

lemma llm_generate_response [simp]:
  "llm_generate_node env (s\<lparr>llm_response := r\<rparr>) w = llm_generate_node env s w"
  unfolding llm_generate_node_def llm_messages_response llm_failed_def by (cases s) (simp split: sum.split prod.split)

text \<open>
  A hit of the semantic cache does not spare the model: the cached text is the response of the
  retrieval node only, and what the model is asked and answers does not depend on it.
\<close>

theorem cache_hit_still_generates:
  assumes "messages s \<noteq> []" "last_text (messages s) \<noteq> []" "tenant_id s \<noteq> []"
    and "cache_lookup env (last_text (messages s)) (tenant_id s) = Some cached"
  shows "\<exists>s'. rag_engine_node env s w = (Inr s', w) \<and> llm_response s' = cached \<and> cached \<noteq> [] \<and>
    llm_messages env s' = llm_messages env (s'\<lparr>llm_response := other\<rparr>) \<and>
    llm_generate_node env s' w = llm_generate_node env (s'\<lparr>llm_response := other\<rparr>) w"
proof -
  have "cached \<noteq> []"
    using assms(4) by (auto simp: cache_lookup_def split: option.splits sum.splits if_splits)
  then show ?thesis using assms by (simp add: rag_engine_node_def Let_def)
qed

section \<open>A configured service\<close>

text \<open>One document, one hit, and nothing else: an environment in which retrieval finds something.\<close>

definition rag_env :: agent_env where
  "rag_env = \<lparr>e_settings = default_llm_settings, e_acompletion = (\<lambda>rq limit. None),
     e_vision = None, e_summarizer = False, e_asr = None, e_oss = None, e_tool_http = None,
     e_str_dict = (\<lambda>d. [123, 125]), e_embed = Some (\<lambda>q. Inr [1]),
     e_collection = Some (\<lambda>k vec tid. Inr [[\<lparr>mh_doc_id = Some uuid3, mh_chunk_text = Some [65],
       mh_entity_doc_id = None, mh_entity_chunk_text = None, mh_doc_title = None, mh_doc_url = None, mh_score = None\<rparr>]]),
     e_jitter = (\<lambda>k. 0), e_reranker = None, e_nli = None, e_cache = None,
     e_docs = Some [\<lparr>dr_id = uuid3, dr_tenant = 1, dr_deleted = False\<rparr>], e_rls = True, e_tenant_config = None,
     e_hitl_pool = True, e_session_id = 1, e_task_id = 1, e_now = 0, e_queue = True\<rparr>"

definition rag_question :: agent_state where
  "rag_question = empty_state\<lparr>tenant_id := uuid1, messages := [\<lparr>cm_role = None, cm_content = Some [63], cm_media = []\<rparr>]\<rparr>"

definition rag_world0 :: agent_world where
  "rag_world0 = \<lparr>w_hitl = \<lparr>rls = False, tenants = [1], sessions = [], threads = [], tasks = [], tickets = []\<rparr>,
     w_breaker = milvus_breaker, w_cache = [], w_pushed = []\<rparr>"

lemma rag_runs: "\<exists>s' w'. rag_engine_node rag_env rag_question rag_world0 = (Inr s', w') \<and> rag_context s' = [[65]]"
  by (simp add: rag_engine_node_def rag_env_def rag_question_def rag_world0_def last_text_def text_of_def cache_lookup_def
      read_state_def milvus_breaker_def new_breaker_def milvus_retry_def search_collection_def eval_nat_numeral
      get_active_doc_ids_def hit_doc_id_def hit_text_def or_else_def rls_visible_def sql_select_def hit_source_def
      rerank_chunks_def default_to_def Let_def)

lemma rag_context_sound_witness:
  "\<exists>s' w'. rag_engine_node rag_env rag_question rag_world0 = (Inr s', w') \<and> rag_context s' = [[65]] \<and>
     src_id ` set (sources s') \<subseteq> Collect (usable_doc rag_env uuid1)"
proof -
  obtain s' w' where r: "rag_engine_node rag_env rag_question rag_world0 = (Inr s', w')" "rag_context s' = [[65]]"
    using rag_runs by blast
  have "e_docs rag_env \<noteq> None" by (simp add: rag_env_def)
  from rag_context_sound [OF this r(1)] r show ?thesis by (auto simp: rag_question_def)
qed

lemma cache_hit_still_generates_witness:
  "\<exists>s'. rag_engine_node (rag_env\<lparr>e_cache := Some \<lparr>cc_embed = \<lambda>q. Inr [], cc_search = \<lambda>v t. Inr (Some (1, [72])),
       cc_insert = \<lambda>e. Inr ()\<rparr>\<rparr>) rag_question rag_world0 = (Inr s', rag_world0) \<and> llm_response s' = [72]"
  using cache_hit_still_generates [of rag_question "rag_env\<lparr>e_cache := Some \<lparr>cc_embed = \<lambda>q. Inr [],
      cc_search = \<lambda>v t. Inr (Some (1, [72])), cc_insert = \<lambda>e. Inr ()\<rparr>\<rparr>" "[72]" rag_world0 "[]"]
  by (auto simp: rag_question_def last_text_def text_of_def cache_lookup_def SIMILARITY_THRESHOLD_def)

end
