(* ===== verification/AgentGraph.thy ===== *)
theory AgentGraph
  imports AgentAnswer
begin

text \<open>
  The graph of \<^verbatim>\<open>chat_service/agent/graph.py\<close>: its nodes, its edges, and a turn as the sequence of
  node executions from the entry point to the end.  A turn starts from the state the checkpointer
  kept for the thread, with the keys of the payload replaced; each executed node yields one update,
  and a raising node ends the turn with the state before it.
\<close>

section \<open>Nodes and edges\<close>

datatype agent_node =
  Preprocess | Routing | RagEngine | ToolExecutor | LlmGenerate | Guardrails | Postprocess | HandOver

definition exec_node :: "agent_env \<Rightarrow> agent_node \<Rightarrow> agent_state \<Rightarrow> agent_world \<Rightarrow> node_result" where
  "exec_node env n s w =
     (case n of
        Preprocess \<Rightarrow> (preprocess_node env s, w)
      | Routing \<Rightarrow> (Inr (router_node (e_settings env) (e_acompletion env) s), w)
      | RagEngine \<Rightarrow> rag_engine_node env s w
      | ToolExecutor \<Rightarrow> (Inr (tool_executor_node env s), w)
      | LlmGenerate \<Rightarrow> (case llm_generate_node env s w of (s', w') \<Rightarrow> (Inr s', w'))
      | Guardrails \<Rightarrow> (Inr (guardrails_node env s), w)
      | Postprocess \<Rightarrow> (Inr (postprocess_node s), w)
      | HandOver \<Rightarrow> (case hitl_node env s w of (s', w') \<Rightarrow> (Inr s', w')))"

definition next_node :: "agent_node \<Rightarrow> agent_state \<Rightarrow> agent_node option" where
  "next_node n s =
     (case n of
        Preprocess \<Rightarrow> Some Routing
      | Routing \<Rightarrow> Some (case route_decision s of ToTool \<Rightarrow> ToolExecutor | ToRag \<Rightarrow> RagEngine | ToHitl \<Rightarrow> HandOver)
      | RagEngine \<Rightarrow> Some LlmGenerate
      | ToolExecutor \<Rightarrow> Some LlmGenerate
      | LlmGenerate \<Rightarrow> Some Guardrails
      | Guardrails \<Rightarrow> Some (if guardrails_to_hitl s then HandOver else Postprocess)
      | Postprocess \<Rightarrow> None
      | HandOver \<Rightarrow> None)"

text \<open>How far a node is from the end: every edge goes down.\<close>

fun node_rank :: "agent_node \<Rightarrow> nat" where
  "node_rank Preprocess = 6"
| "node_rank Routing = 5"
| "node_rank RagEngine = 4"
| "node_rank ToolExecutor = 4"
| "node_rank LlmGenerate = 3"
| "node_rank Guardrails = 2"
| "node_rank Postprocess = 1"
| "node_rank HandOver = 1"

lemma next_node_rank: "next_node n s = Some m \<Longrightarrow> node_rank m < node_rank n"
  by (auto simp: next_node_def split: agent_node.splits route.splits if_splits)

section \<open>A turn\<close>

record graph_update =
  up_node :: agent_node
  up_state :: agent_state
  up_pushed :: "ucs list"  \<comment> \<open>the tokens the node put into the queue\<close>

record turn_result =
  tr_updates :: "graph_update list"
  tr_error :: "exn option"
  tr_state :: agent_state
  tr_world :: agent_world

function run_graph :: "agent_env \<Rightarrow> agent_node \<Rightarrow> agent_state \<Rightarrow> agent_world \<Rightarrow> turn_result" where
  "run_graph env n s w =
     (case exec_node env n s (w\<lparr>w_pushed := []\<rparr>) of
        (Inl e, w') \<Rightarrow> \<lparr>tr_updates = [], tr_error = Some e, tr_state = s, tr_world = w'\<rparr>
      | (Inr s', w') \<Rightarrow>
          (let u = \<lparr>up_node = n, up_state = s', up_pushed = w_pushed w'\<rparr> in
           case next_node n s' of
             None \<Rightarrow> \<lparr>tr_updates = [u], tr_error = None, tr_state = s', tr_world = w'\<rparr>
           | Some m \<Rightarrow> (let r = run_graph env m s' w' in r\<lparr>tr_updates := u # tr_updates r\<rparr>)))"
  by pat_completeness auto
termination
  by (relation "measure (\<lambda>(env, n, s, w). node_rank n)") (auto dest: next_node_rank)

declare run_graph.simps [simp del]

record payload =
  pl_messages :: "chat_msg list"
  pl_tenant :: string
  pl_thread :: string

definition start_state :: "payload \<Rightarrow> agent_state \<Rightarrow> agent_state" where
  "start_state p s = s\<lparr>messages := pl_messages p, tenant_id := pl_tenant p, thread_id := pl_thread p\<rparr>"

definition run_turn :: "agent_env \<Rightarrow> payload \<Rightarrow> agent_state \<Rightarrow> agent_world \<Rightarrow> turn_result" where
  "run_turn env p s w = run_graph env Preprocess (start_state p s) w"

text \<open>The turns of a thread, each in its own environment.\<close>

inductive turn_step :: "agent_state \<times> agent_world \<Rightarrow> agent_state \<times> agent_world \<Rightarrow> bool" where
  turn: "run_turn env p s w = r \<Longrightarrow> turn_step (s, w) (tr_state r, tr_world r)"

inductive_cases turn_step_cases: "turn_step c d"

definition thread_init :: "agent_state \<times> agent_world \<Rightarrow> bool" where
  "thread_init c \<longleftrightarrow> fst c = empty_state \<and> w_breaker (snd c) = milvus_breaker"

section \<open>What holds along a turn\<close>

text \<open>
  A contract of the nodes: under an entry condition, every execution relates the configuration before
  to the one after, and establishes the entry condition of the node the edge leads to.
\<close>

locale node_contract =
  fixes enter :: "agent_node \<Rightarrow> agent_state \<Rightarrow> bool"
    and rel :: "agent_state \<times> agent_world \<Rightarrow> agent_state \<times> agent_world \<Rightarrow> bool"
  assumes rel_refl: "rel c c"
    and rel_trans: "rel c d \<Longrightarrow> rel d c' \<Longrightarrow> rel c c'"
    and rel_pushed: "rel (s, w) (s, w\<lparr>w_pushed := ts\<rparr>)"
    and exec_rel: "enter n s \<Longrightarrow> exec_node env n s w = (Inr s', w') \<Longrightarrow> rel (s, w) (s', w')"
    and exec_error: "enter n s \<Longrightarrow> exec_node env n s w = (Inl x, w') \<Longrightarrow> rel (s, w) (s, w')"
    and enter_next: "enter n s \<Longrightarrow> exec_node env n s w = (Inr s', w') \<Longrightarrow> next_node n s' = Some m \<Longrightarrow> enter m s'"
begin

lemma run_rel: "enter n s \<Longrightarrow> rel (s, w) (tr_state (run_graph env n s w), tr_world (run_graph env n s w))"
proof (induction env n s w rule: run_graph.induct)
  case (1 env n s w)
  let ?w = "w\<lparr>w_pushed := []\<rparr>"
  obtain x w' where ex: "exec_node env n s ?w = (x, w')" by fastforce
  have p: "rel (s, w) (s, ?w)" by (rule rel_pushed)
  show ?case
  proof (cases x)
    case (Inl e)
    with ex exec_error [OF "1.prems"] rel_trans [OF p] show ?thesis by (subst (1 2) run_graph.simps) simp
  next
    case (Inr s')
    with ex have ex: "exec_node env n s ?w = (Inr s', w')" by simp
    have r: "rel (s, w) (s', w')" using rel_trans [OF p exec_rel [OF "1.prems" ex]] .
    show ?thesis
    proof (cases "next_node n s'")
      case None
      with ex r show ?thesis by (subst (1 2) run_graph.simps) simp
    next
      case (Some m)
      from "1.IH" [OF ex [symmetric] refl refl Some enter_next [OF "1.prems" ex Some]] r ex Some
      show ?thesis by (subst (1 2) run_graph.simps) (auto simp: Let_def intro: rel_trans)
    qed
  qed
qed

text \<open>Every update is related to the start, and a completed turn ends by its last node's exit.\<close>

lemma run_updates: "enter n s \<Longrightarrow> u \<in> set (tr_updates (run_graph env n s w)) \<Longrightarrow> \<exists>v. rel (s, w) (up_state u, v)"
proof (induction env n s w rule: run_graph.induct)
  case (1 env n s w)
  let ?w = "w\<lparr>w_pushed := []\<rparr>"
  obtain x w' where ex: "exec_node env n s ?w = (x, w')" by fastforce
  with "1.prems"(2) obtain s' where x: "x = Inr s'" by (cases x) (auto simp: run_graph.simps [of env n s w])
  with ex have ex: "exec_node env n s ?w = (Inr s', w')" by simp
  have r: "rel (s, w) (s', w')"
    using rel_trans [OF rel_pushed exec_rel [OF "1.prems"(1) ex]] .
  show ?case
  proof (cases "next_node n s'")
    case None
    with "1.prems"(2) ex r show ?thesis by (auto simp: run_graph.simps [of env n s w] Let_def)
  next
    case (Some m)
    from "1.prems"(2) ex Some
    consider "up_state u = s'" | "u \<in> set (tr_updates (run_graph env m s' w'))"
      by (auto simp: run_graph.simps [of env n s w] Let_def)
    then show ?thesis
    proof cases
      case 1
      with r show ?thesis by auto
    next
      case 2
      with "1.IH" [OF ex [symmetric] refl refl Some enter_next [OF "1.prems"(1) ex Some]] r rel_trans
      show ?thesis by blast
    qed
  qed
qed

lemma run_last:
  "enter n s \<Longrightarrow> tr_error (run_graph env n s w) = None \<Longrightarrow>
     tr_updates (run_graph env n s w) \<noteq> [] \<and>
     (\<exists>m s' v. up_node (last (tr_updates (run_graph env n s w))) = m \<and> enter m s' \<and>
        exec_node env m s' v = (Inr (tr_state (run_graph env n s w)), tr_world (run_graph env n s w)) \<and>
        next_node m (tr_state (run_graph env n s w)) = None)"
proof (induction env n s w rule: run_graph.induct)
  case (1 env n s w)
  let ?w = "w\<lparr>w_pushed := []\<rparr>"
  obtain x w' where ex: "exec_node env n s ?w = (x, w')" by fastforce
  with "1.prems"(2) obtain s' where x: "x = Inr s'" by (cases x) (auto simp: run_graph.simps [of env n s w])
  with ex have ex: "exec_node env n s ?w = (Inr s', w')" by simp
  show ?case
  proof (cases "next_node n s'")
    case None
    with "1.prems"(1) ex show ?thesis by (auto simp: run_graph.simps [of env n s w] Let_def)
  next
    case (Some m)
    let ?r = "run_graph env m s' w'"
    have run: "run_graph env n s w = ?r\<lparr>tr_updates := \<lparr>up_node = n, up_state = s', up_pushed = w_pushed w'\<rparr> # tr_updates ?r\<rparr>"
      using ex Some by (simp add: run_graph.simps [of env n s w] Let_def)
    with "1.prems"(2) have "tr_error ?r = None" by simp
    from "1.IH" [OF ex [symmetric] refl refl Some enter_next [OF "1.prems"(1) ex Some] this]
    show ?thesis unfolding run by auto
  qed
qed

end

section \<open>What a node leaves alone\<close>

lemma preprocess_frame:
  "preprocess_node env s = Inr s' \<Longrightarrow> \<exists>ms su mu. s' = s\<lparr>messages := ms, summary := su, media_urls := mu\<rparr>"
  unfolding preprocess_node_def Let_def by (cases s) (auto split: if_splits sum.splits prod.splits)

lemma router_frame:
  "\<exists>i h. router_node st ac s = s\<lparr>user_intent := i, hitl_requested := h\<rparr> \<and> (hitl_requested s \<longrightarrow> h) \<and>
     (h \<longrightarrow> hitl_requested s \<or> i = Some ''hitl'')"
  unfolding router_node_def Let_def by (cases s) (auto split: option.splits)

lemma rag_frame:
  "rag_engine_node env s w = (Inr s', w') \<Longrightarrow>
     \<exists>c so i r. s' = s\<lparr>rag_context := c, sources := so, user_intent := i, llm_response := r\<rparr>"
  unfolding rag_engine_node_def Let_def no_answer_def
  by (cases s) (auto split: if_splits option.splits sum.splits list.splits)

lemma rag_world:
  "rag_engine_node env s w = (x, w') \<Longrightarrow> w' = w \<or> w' = w\<lparr>w_breaker := read_state (e_now env) (w_breaker w)\<rparr>"
  unfolding rag_engine_node_def Let_def
  by (auto split: if_splits option.splits sum.splits list.splits)

lemma cache_store_world [simp]:
  "w_hitl (cache_store env q r t w) = w_hitl w" "w_breaker (cache_store env q r t w) = w_breaker w"
  "w_pushed (cache_store env q r t w) = w_pushed w"
  by (simp_all add: cache_store_def Let_def split: option.split sum.split)

lemma llm_frame:
  "llm_generate_node env s w = (s', w') \<Longrightarrow>
     \<exists>r u c. s' = s\<lparr>llm_response := r, tokens_used := u, guardrails_passed := True, citations := c\<rparr>"
  unfolding llm_generate_node_def Let_def llm_failed_def
  by (cases s) (auto split: sum.splits prod.splits if_splits)

lemma llm_world: "llm_generate_node env s w = (s', w') \<Longrightarrow> w_hitl w' = w_hitl w \<and> w_breaker w' = w_breaker w"
  unfolding llm_generate_node_def Let_def by (auto split: sum.splits prod.splits if_splits)

text \<open>The fields that only one node, or no node, changes.\<close>

lemma exec_frame:
  assumes "exec_node env n s w = (Inr s', w')"
  shows "tenant_id s' = tenant_id s \<and> thread_id s' = thread_id s \<and> (hitl_requested s \<longrightarrow> hitl_requested s') \<and>
    (n \<noteq> Postprocess \<longrightarrow> unresolved_turns s' = unresolved_turns s) \<and> (\<exists>cs. tool_calls s' = tool_calls s @ cs)"
proof (cases n)
  case Preprocess
  with assms preprocess_frame [of env s s'] show ?thesis by (auto simp: exec_node_def)
next
  case Routing
  obtain i h where r: "router_node (e_settings env) (e_acompletion env) s = s\<lparr>user_intent := i, hitl_requested := h\<rparr>"
    and "hitl_requested s \<longrightarrow> h" using router_frame by blast
  moreover from Routing assms r have "s' = s\<lparr>user_intent := i, hitl_requested := h\<rparr>" by (simp add: exec_node_def)
  ultimately show ?thesis using Routing by simp
next
  case RagEngine
  with assms rag_frame [of env s w s' w'] show ?thesis by (auto simp: exec_node_def)
next
  case LlmGenerate
  obtain x v where l: "llm_generate_node env s w = (x, v)" by fastforce
  with LlmGenerate assms llm_frame [OF l] show ?thesis by (auto simp: exec_node_def)
qed (use assms in \<open>auto simp: exec_node_def tool_executor_node_def guardrails_node_def postprocess_node_def
       hitl_node_def Let_def split: prod.splits\<close>)

lemma exec_world:
  assumes "exec_node env n s w = (x, w')"
  shows "(n \<noteq> HandOver \<longrightarrow> w_hitl w' = w_hitl w) \<and>
    (w_breaker w' = w_breaker w \<or> w_breaker w' = read_state (e_now env) (w_breaker w))"
proof (cases n)
  case RagEngine
  with assms rag_world [of env s w x w'] show ?thesis by (auto simp: exec_node_def)
next
  case LlmGenerate
  obtain y v where l: "llm_generate_node env s w = (y, v)" by fastforce
  with LlmGenerate assms llm_world [OF l] show ?thesis by (auto simp: exec_node_def)
qed (use assms in \<open>auto simp: exec_node_def hitl_node_def split: prod.splits\<close>)

lemma read_closed: "cb_state cb = CLOSED \<Longrightarrow> read_state now cb = cb"
  by (simp add: read_state_def)

section \<open>The contracts of the graph\<close>

text \<open>The next node, by the node it is entered from.\<close>

lemma next_postprocess: "next_node n s = Some Postprocess \<longleftrightarrow> n = Guardrails \<and> \<not> hitl_requested s"
  by (auto simp: next_node_def guardrails_to_hitl_def split: agent_node.splits route.splits)

lemma next_handover:
  "next_node n s = Some HandOver \<longleftrightarrow> n = Routing \<and> route_decision s = ToHitl \<or> n = Guardrails \<and> hitl_requested s"
  by (auto simp: next_node_def guardrails_to_hitl_def split: agent_node.splits route.splits)

lemma next_none: "next_node n s = None \<longleftrightarrow> n = Postprocess \<or> n = HandOver"
  by (auto simp: next_node_def split: agent_node.splits)

lemma router_hitl: "route_decision (router_node st ac s) = ToHitl \<Longrightarrow> hitl_requested (router_node st ac s)"
  by (auto simp: router_node_def route_decision_def Let_def starts_with_def split: option.splits if_splits)

lemma guardrails_passes: "\<not> hitl_requested (guardrails_node env s) \<Longrightarrow> guardrails_passed (guardrails_node env s)"
  by (simp add: guardrails_node_def split: if_splits)

lemma guardrails_exec: "exec_node env Guardrails s w = (Inr s', w') \<Longrightarrow> s' = guardrails_node env s"
  by (simp add: exec_node_def)

text \<open>How post-processing and the hand-over are entered.\<close>

definition exit_entry :: "agent_node \<Rightarrow> agent_state \<Rightarrow> bool" where
  "exit_entry n s \<longleftrightarrow> (n = Postprocess \<longrightarrow> guardrails_passed s \<and> \<not> hitl_requested s) \<and>
     (n = HandOver \<longrightarrow> hitl_requested s)"

lemma exit_entry_next:
  assumes ex: "exec_node env n s w = (Inr s', w')" and nx: "next_node n s' = Some m"
  shows "exit_entry m s'"
  unfolding exit_entry_def
proof (intro conjI impI)
  assume "m = Postprocess"
  with nx have "n = Guardrails" "\<not> hitl_requested s'" by (auto simp: next_postprocess)
  with guardrails_exec [of env s w s' w'] guardrails_passes [of env s] ex
  show "guardrails_passed s'" "\<not> hitl_requested s'" by auto
next
  assume "m = HandOver"
  with nx consider "n = Routing" "route_decision s' = ToHitl" | "hitl_requested s'"
    by (auto simp: next_handover)
  then show "hitl_requested s'"
    by cases (use ex router_hitl in \<open>auto simp: exec_node_def\<close>)
qed

definition same_count :: "agent_state \<times> agent_world \<Rightarrow> agent_state \<times> agent_world \<Rightarrow> bool" where
  "same_count c d \<longleftrightarrow> unresolved_turns (fst d) = unresolved_turns (fst c)"

lemma exec_same_count:
  assumes "exit_entry n s" and ex: "exec_node env n s w = (Inr s', w')"
  shows "unresolved_turns s' = unresolved_turns s"
proof (cases "n = Postprocess")
  case True
  with assms show ?thesis by (auto simp: exit_entry_def exec_node_def postprocess_node_def)
next
  case False
  with exec_frame [OF ex] show ?thesis by simp
qed

interpretation counting: node_contract exit_entry same_count
  by unfold_locales (auto simp: same_count_def exec_same_count intro: exit_entry_next)

text \<open>What a turn never takes back.\<close>

definition keeps :: "agent_state \<times> agent_world \<Rightarrow> agent_state \<times> agent_world \<Rightarrow> bool" where
  "keeps c d \<longleftrightarrow> tenant_id (fst d) = tenant_id (fst c) \<and> thread_id (fst d) = thread_id (fst c) \<and>
     (hitl_requested (fst c) \<longrightarrow> hitl_requested (fst d)) \<and> (\<exists>cs. tool_calls (fst d) = tool_calls (fst c) @ cs)"

interpretation keeping: node_contract "\<lambda>n s. True" keeps
proof
  show "keeps (s, w) (s', w')" if "exec_node env n s w = (Inr s', w')" for env n s w s' w'
    using exec_frame [OF that] by (simp add: keeps_def)
qed (auto simp: keeps_def)

definition breaker_kept :: "agent_state \<times> agent_world \<Rightarrow> agent_state \<times> agent_world \<Rightarrow> bool" where
  "breaker_kept c d \<longleftrightarrow> (cb_state (w_breaker (snd c)) = CLOSED \<longrightarrow> w_breaker (snd d) = w_breaker (snd c))"

lemma exec_breaker:
  "exec_node env n s w = (x, w') \<Longrightarrow> cb_state (w_breaker w) = CLOSED \<Longrightarrow> w_breaker w' = w_breaker w"
  using exec_world [of env n s w x w'] by (auto simp: read_closed)

interpretation breaking: node_contract "\<lambda>n s. True" breaker_kept
  by unfold_locales (auto simp: breaker_kept_def exec_breaker)

definition tables_kept :: "agent_state \<times> agent_world \<Rightarrow> agent_state \<times> agent_world \<Rightarrow> bool" where
  "tables_kept c d \<longleftrightarrow> (hitl_inv (w_hitl (snd c)) \<longrightarrow> hitl_inv (w_hitl (snd d)))"

lemma open_session_inv: "hitl_inv db \<Longrightarrow> open_session env s db = (r, db') \<Longrightarrow> hitl_inv db'"
  unfolding open_session_def tenant_db_context_def
  by (auto split: option.splits prod.splits sum.splits intro: hitl_inv_notify)

lemma exec_tables:
  assumes "exec_node env n s w = (x, w')" and inv: "hitl_inv (w_hitl w)"
  shows "hitl_inv (w_hitl w')"
proof (cases "n = HandOver")
  case True
  obtain r db' where o: "open_session env s (w_hitl w) = (r, db')" by fastforce
  from open_session_inv [OF inv o] True assms o show ?thesis
    by (auto simp: exec_node_def hitl_node_def split: if_splits)
next
  case False
  with exec_world [OF assms(1)] inv show ?thesis by simp
qed

interpretation tables: node_contract "\<lambda>n s. True" tables_kept
  by unfold_locales (auto simp: tables_kept_def exec_tables)

section \<open>A run to try the theorems on\<close>

text \<open>A service with a model that answers ok for seven tokens, and nothing else configured.\<close>

definition demo_stream :: "ucs \<Rightarrow> int \<Rightarrow> llm_stream" where
  "demo_stream txt n = \<lparr>ls_chunks = [\<lparr>ck_choice = Delta txt [], ck_usage = None\<rparr>,
     \<lparr>ck_choice = NoChoices, ck_usage = Some n\<rparr>], ls_raises = False\<rparr>"

definition demo_env :: agent_env where
  "demo_env = \<lparr>e_settings = default_llm_settings, e_acompletion = (\<lambda>rq limit. Some (demo_stream [111, 107] 7)),
     e_vision = None, e_summarizer = True, e_asr = None, e_oss = None, e_tool_http = None,
     e_str_dict = (\<lambda>d. [123, 125]), e_embed = None, e_collection = None, e_jitter = (\<lambda>k. 0),
     e_reranker = None, e_nli = None, e_cache = None, e_docs = None, e_rls = False, e_tenant_config = None,
     e_hitl_pool = True, e_session_id = 1, e_task_id = 1, e_now = 0, e_queue = True\<rparr>"

definition demo_world :: agent_world where
  "demo_world = \<lparr>w_hitl = \<lparr>rls = False, tenants = [1], sessions = [], threads = [], tasks = [], tickets = []\<rparr>,
     w_breaker = milvus_breaker, w_cache = [], w_pushed = []\<rparr>"

definition empty_payload :: payload where
  "empty_payload = \<lparr>pl_messages = [], pl_tenant = uuid1, pl_thread = uuid2\<rparr>"

lemma demo_llm: "llm_generate_node demo_env s w =
   (s\<lparr>llm_response := [111, 107], tokens_used := 7, guardrails_passed := True, citations := sources s\<rparr>,
    w\<lparr>w_pushed := w_pushed w @ [[111, 107]]\<rparr>)"
  by (simp add: llm_generate_node_def stream_chat_completion_def demo_env_def demo_stream_def chunk_text_def Let_def
      cache_store_def default_llm_settings_def)

lemma demo_guard: "guardrails_node demo_env s = s\<lparr>guardrails_passed := True\<rparr>"
  by (simp add: guardrails_node_def hallucinated_def demo_env_def)

lemmas demo_defs = run_turn_def run_graph.simps exec_node_def next_node_def start_state_def empty_payload_def
  preprocess_node_def SUMMARIZE_THRESHOLD_def router_node_def route_decision_def rag_engine_node_def last_text_def
  no_answer_def demo_llm demo_guard guardrails_to_hitl_def hitl_node_def starts_with_def postprocess_node_def

lemma demo_turn: "tr_error (run_turn demo_env empty_payload s w) = None"
  by (simp add: demo_defs)

section \<open>How a turn goes\<close>

text \<open>The ways from a node to the end.\<close>

function ways :: "agent_node \<Rightarrow> agent_node list list" where
  "ways n = map (Cons n)
     (case n of
        Preprocess \<Rightarrow> ways Routing
      | Routing \<Rightarrow> ways ToolExecutor @ ways RagEngine @ ways HandOver
      | RagEngine \<Rightarrow> ways LlmGenerate
      | ToolExecutor \<Rightarrow> ways LlmGenerate
      | LlmGenerate \<Rightarrow> ways Guardrails
      | Guardrails \<Rightarrow> ways HandOver @ ways Postprocess
      | Postprocess \<Rightarrow> [[]]
      | HandOver \<Rightarrow> [[]])"
  by pat_completeness auto
termination
  by (relation "measure node_rank") auto

declare ways.simps [simp del]

lemma ways_next: "next_node n s = Some m \<Longrightarrow> ps \<in> set (ways m) \<Longrightarrow> n # ps \<in> set (ways n)"
  by (subst ways.simps) (auto simp: next_node_def split: agent_node.splits route.splits if_splits)

lemma ways_last: "next_node n s = None \<Longrightarrow> [n] \<in> set (ways n)"
  by (subst ways.simps) (auto simp: next_none)

lemma run_ways: "tr_error (run_graph env n s w) = None \<Longrightarrow> map up_node (tr_updates (run_graph env n s w)) \<in> set (ways n)"
proof (induction env n s w rule: run_graph.induct)
  case (1 env n s w)
  let ?w = "w\<lparr>w_pushed := []\<rparr>"
  obtain x w' where ex: "exec_node env n s ?w = (x, w')" by fastforce
  with "1.prems" obtain s' where "x = Inr s'" by (cases x) (auto simp: run_graph.simps [of env n s w])
  with ex have ex: "exec_node env n s ?w = (Inr s', w')" by simp
  show ?case
  proof (cases "next_node n s'")
    case None
    with ex show ?thesis by (simp add: run_graph.simps [of env n s w] ways_last)
  next
    case (Some m)
    have run: "tr_error (run_graph env n s w) = tr_error (run_graph env m s' w')"
      "map up_node (tr_updates (run_graph env n s w)) = n # map up_node (tr_updates (run_graph env m s' w'))"
      using ex Some by (simp_all add: run_graph.simps [of env n s w] Let_def)
    from "1.IH" [OF ex [symmetric] refl refl Some] "1.prems"
    show ?thesis unfolding run by (auto intro: ways_next [OF Some])
  qed
qed

lemma run_length: "length (tr_updates (run_graph env n s w)) \<le> node_rank n"
proof (induction env n s w rule: run_graph.induct)
  case (1 env n s w)
  let ?w = "w\<lparr>w_pushed := []\<rparr>"
  obtain x w' where ex: "exec_node env n s ?w = (x, w')" by fastforce
  show ?case
  proof (cases x)
    case (Inl e)
    with ex show ?thesis by (simp add: run_graph.simps [of env n s w])
  next
    case (Inr s')
    show ?thesis
    proof (cases "next_node n s'")
      case None
      have "0 < node_rank n" by (cases n) auto
      with None ex Inr show ?thesis by (simp add: run_graph.simps [of env n s w])
    next
      case (Some m)
      with ex Inr have "exec_node env n s ?w = (Inr s', w')" by simp
      from "1.IH" [OF this [symmetric] refl refl Some] next_node_rank [OF Some] Some Inr ex
      show ?thesis by (simp add: run_graph.simps [of env n s w] Let_def)
    qed
  qed
qed

text \<open>The world at the last node has the HITL tables of the start.\<close>

lemma run_last_tables:
  "tr_error (run_graph env n s w) = None \<Longrightarrow> \<exists>s' v. w_hitl v = w_hitl w \<and>
     exec_node env (up_node (last (tr_updates (run_graph env n s w)))) s' v =
       (Inr (tr_state (run_graph env n s w)), tr_world (run_graph env n s w)) \<and>
     tr_updates (run_graph env n s w) \<noteq> []"
proof (induction env n s w rule: run_graph.induct)
  case (1 env n s w)
  let ?w = "w\<lparr>w_pushed := []\<rparr>"
  obtain x w' where ex: "exec_node env n s ?w = (x, w')" by fastforce
  with "1.prems" obtain s' where "x = Inr s'" by (cases x) (auto simp: run_graph.simps [of env n s w])
  with ex have ex: "exec_node env n s ?w = (Inr s', w')" by simp
  show ?case
  proof (cases "next_node n s'")
    case None
    have "w_hitl ?w = w_hitl w" by simp
    with None ex show ?thesis
      by (intro exI [of _ s] exI [of _ ?w]) (simp add: run_graph.simps [of env n s w] Let_def)
  next
    case (Some m)
    then have "n \<noteq> HandOver" by (auto simp: next_node_def)
    with exec_world [OF ex] have w: "w_hitl w' = w_hitl w" by simp
    let ?r = "run_graph env m s' w'"
    have run: "run_graph env n s w = ?r\<lparr>tr_updates := \<lparr>up_node = n, up_state = s', up_pushed = w_pushed w'\<rparr> # tr_updates ?r\<rparr>"
      using ex Some by (simp add: run_graph.simps [of env n s w] Let_def)
    with "1.prems" have "tr_error ?r = None" by simp
    from "1.IH" [OF ex [symmetric] refl refl Some this] w show ?thesis unfolding run by auto
  qed
qed

lemma start_state_simps [simp]:
  "tenant_id (start_state p s) = pl_tenant p" "thread_id (start_state p s) = pl_thread p"
  "messages (start_state p s) = pl_messages p" "hitl_requested (start_state p s) = hitl_requested s"
  "unresolved_turns (start_state p s) = unresolved_turns s" "tool_calls (start_state p s) = tool_calls s"
  "llm_response (start_state p s) = llm_response s" "rag_context (start_state p s) = rag_context s"
  by (simp_all add: start_state_def)

lemma exit_entry_start: "exit_entry Preprocess s"
  by (simp add: exit_entry_def)

lemma exec_exit:
  "exec_node env HandOver s v = (Inr t, u) \<Longrightarrow> t = s\<lparr>llm_response := HITL_RESPONSE\<rparr>"
  "exec_node env Postprocess s v = (Inr t, u) \<Longrightarrow> hitl_requested t = hitl_requested s"
  by (auto simp: exec_node_def hitl_node_def postprocess_node_def)

lemma last_node_hitl:
  assumes "tr_error (run_turn env p s w) = None"
  shows "tr_updates (run_turn env p s w) \<noteq> [] \<and>
    (up_node (last (tr_updates (run_turn env p s w))) = HandOver \<longleftrightarrow> hitl_requested (tr_state (run_turn env p s w)))"
proof -
  obtain m s' v where m: "up_node (last (tr_updates (run_turn env p s w))) = m" "exit_entry m s'"
    and ex: "exec_node env m s' v = (Inr (tr_state (run_turn env p s w)), tr_world (run_turn env p s w))"
    and nx: "next_node m (tr_state (run_turn env p s w)) = None" and ne: "tr_updates (run_turn env p s w) \<noteq> []"
    using counting.run_last [OF exit_entry_start] assms unfolding run_turn_def by blast
  from nx consider "m = Postprocess" | "m = HandOver" by (auto simp: next_none)
  then have "m = HandOver \<longleftrightarrow> hitl_requested (tr_state (run_turn env p s w))"
    using ex m(2) by cases (auto simp: exit_entry_def dest!: exec_exit)
  with m ne show ?thesis by simp
qed

text \<open>C15:  
  A turn executes at most six nodes; a completed one follows one of the five ways through the graph,
  and ends in the hand-over exactly when a human was asked for.
\<close>

theorem turn_follows_graph:
  assumes "run_turn env p s w = r"
  shows "length (tr_updates r) \<le> 6 \<and>
    (tr_error r = None \<longrightarrow> map up_node (tr_updates r) \<in> set (ways Preprocess) \<and>
       (up_node (last (tr_updates r)) = HandOver \<longleftrightarrow> hitl_requested (tr_state r)))"
proof (intro conjI impI)
  show "length (tr_updates r) \<le> 6"
    using run_length [of env Preprocess "start_state p s" w] assms by (simp add: run_turn_def)
next
  assume "tr_error r = None"
  with run_ways [of env Preprocess "start_state p s" w] last_node_hitl [of env p s w] assms
  show "map up_node (tr_updates r) \<in> set (ways Preprocess)"
    "up_node (last (tr_updates r)) = HandOver \<longleftrightarrow> hitl_requested (tr_state r)"
    by (simp_all add: run_turn_def)
qed

lemma turn_follows_graph_witness:
  "length (tr_updates (run_turn demo_env empty_payload empty_state demo_world)) \<le> 6 \<and>
   map up_node (tr_updates (run_turn demo_env empty_payload empty_state demo_world)) \<in> set (ways Preprocess)"
  using turn_follows_graph [of demo_env empty_payload empty_state demo_world, OF refl] demo_turn by simp

definition thread_inv :: "agent_state \<times> agent_world \<Rightarrow> bool" where
  "thread_inv c \<longleftrightarrow> unresolved_turns (fst c) = 0 \<and> w_breaker (snd c) = milvus_breaker"

interpretation conversation: invariant_system thread_init turn_step thread_inv
proof
  show "thread_inv c" if "thread_init c" for c
    using that by (simp add: thread_init_def thread_inv_def empty_state_def)
  show "thread_inv d" if inv: "thread_inv c" and st: "turn_step c d" for c d
  proof -
    from st obtain env p s w where c: "c = (s, w)"
      and d: "d = (tr_state (run_turn env p s w), tr_world (run_turn env p s w))"
      by (auto elim!: turn_step_cases)
    have "same_count (start_state p s, w) d"
      using counting.run_rel [OF exit_entry_start, of "start_state p s" w env] by (simp add: d run_turn_def)
    moreover have "breaker_kept (start_state p s, w) d"
      using breaking.run_rel [where n = Preprocess and s = "start_state p s" and w = w and env = env]
      by (simp add: d run_turn_def)
    ultimately show "thread_inv d"
      using inv by (simp add: thread_inv_def same_count_def breaker_kept_def c milvus_breaker_def new_breaker_def)
  qed
qed

text \<open> 
  The count of unresolved turns is never raised: post-processing counts failed guardrails, and a turn
  whose guardrails failed is handed over instead of post-processed.  The threshold of the router is
  never reached, in no sequence of turns.
\<close>

theorem unresolved_turns_never_counted:
  assumes "reach thread_init turn_step (s, w)"
  shows "unresolved_turns s = 0 \<and>
    (detect_negative_sentiment s \<longleftrightarrow> keyword_search NEGATIVE_KEYWORDS (last_text (messages s)) \<and> messages s \<noteq> [])"
  using conversation.reach_inv [OF assms]
  by (auto simp: thread_inv_def detect_negative_sentiment_def UNRESOLVED_THRESHOLD_def)

lemma thread_start: "reach thread_init turn_step (empty_state, demo_world)"
  by (rule reach_init) (simp add: thread_init_def demo_world_def)

lemma thread_second: "reach thread_init turn_step
    (tr_state (run_turn demo_env empty_payload empty_state demo_world),
     tr_world (run_turn demo_env empty_payload empty_state demo_world))"
  by (rule reach_step [OF thread_start]) (rule turn_step.turn [OF refl])

lemma unresolved_turns_never_counted_witness:
  "unresolved_turns (tr_state (run_turn demo_env empty_payload empty_state demo_world)) = 0"
  using unresolved_turns_never_counted [OF thread_second] by simp

text \<open>
  The breaker of the vector store only has its state read; no failure is ever reported to it, so it
  stays as it was made, closed, however many searches fail.
\<close>

theorem milvus_breaker_never_opens:
  assumes "reach thread_init turn_step (s, w)"
  shows "w_breaker w = milvus_breaker \<and> cb_state (read_state now (w_breaker w)) = CLOSED"
  using conversation.reach_inv [OF assms]
  by (simp add: thread_inv_def milvus_breaker_def new_breaker_def read_state_def)

lemma milvus_breaker_never_opens_witness:
  "w_breaker (tr_world (run_turn demo_env empty_payload empty_state demo_world)) = milvus_breaker"
  using milvus_breaker_never_opens [OF thread_second] by simp

text \<open>C7:  
  A request for a human is never withdrawn from a thread: every later turn that completes ends in the
  hand-over again, and opens one more session, whatever became of the first.
\<close>

theorem hand_over_sticks:
  assumes h: "hitl_requested s" and ok: "tr_error (run_turn env p s w) = None"
    and pool: "e_hitl_pool env" and t: "uuid_parse (pl_tenant p) = Some t" "t \<in> set (tenants (w_hitl w))"
    and th: "uuid_parse (pl_thread p) = Some th"
    and fresh: "e_session_id env \<notin> hs_id ` set (sessions (w_hitl w))" "e_task_id env \<notin> et_id ` set (tasks (w_hitl w))"
  shows "up_node (last (tr_updates (run_turn env p s w))) = HandOver \<and>
    hitl_requested (tr_state (run_turn env p s w)) \<and>
    length (sessions (w_hitl (tr_world (run_turn env p s w)))) = length (sessions (w_hitl w)) + 1"
proof -
  let ?r = "run_turn env p s w"
  have k: "keeps (start_state p s, w) (tr_state ?r, tr_world ?r)"
    using keeping.run_rel [where n = Preprocess and s = "start_state p s" and w = w and env = env] by (simp add: run_turn_def)
  with h have hr: "hitl_requested (tr_state ?r)" by (simp add: keeps_def)
  with last_node_hitl [OF ok] have last: "up_node (last (tr_updates ?r)) = HandOver" by simp
  obtain s' v where v: "w_hitl v = w_hitl w" and ex: "exec_node env HandOver s' v = (Inr (tr_state ?r), tr_world ?r)"
    using run_last_tables [of env Preprocess "start_state p s" w] ok last by (auto simp: run_turn_def)
  from exec_exit(1) [OF ex] k have id: "tenant_id s' = pl_tenant p" "thread_id s' = pl_thread p"
    by (auto simp: keeps_def)
  from t(1) have "pl_tenant p \<noteq> []" by (auto simp: uuid_parse_Nil)
  with id v pool have "w_hitl (tr_world ?r) = snd (open_session env s' (w_hitl w))"
    using arg_cong [OF ex, of "\<lambda>x. w_hitl (snd x)"] by (simp add: exec_node_def hitl_node_def)
  with id t th fresh have "length (sessions (w_hitl (tr_world ?r))) = length (sessions (w_hitl w)) + 1"
    by (simp add: open_session_def tenant_db_context_def notify_hitl_request_def)
  with hr last show ?thesis by simp
qed

lemma hand_over_sticks_witness:
  "length (sessions (w_hitl (tr_world (run_turn demo_env empty_payload (empty_state\<lparr>hitl_requested := True\<rparr>) demo_world)))) = 1"
  using hand_over_sticks [of "empty_state\<lparr>hitl_requested := True\<rparr>" demo_env empty_payload demo_world 1 2, OF _ demo_turn]
  by (simp add: demo_env_def demo_world_def empty_payload_def)

text \<open>Whatever a turn does, the HITL tables keep their invariant.\<close>

theorem turn_keeps_hitl_tables:
  assumes "hitl_inv (w_hitl w)"
  shows "hitl_inv (w_hitl (tr_world (run_turn env p s w)))"
  using tables.run_rel [where n = Preprocess and s = "start_state p s" and w = w and env = env] assms by (simp add: tables_kept_def run_turn_def)

lemma turn_keeps_hitl_tables_witness:
  "hitl_inv (w_hitl (tr_world (run_turn demo_env empty_payload (empty_state\<lparr>hitl_requested := True\<rparr>) demo_world)))"
  by (rule turn_keeps_hitl_tables) (simp add: demo_world_def hitl_inv_def)

definition same_question :: "agent_state \<times> agent_world \<Rightarrow> agent_state \<times> agent_world \<Rightarrow> bool" where
  "same_question c d \<longleftrightarrow> messages (fst d) = messages (fst c) \<and> summary (fst d) = summary (fst c)"

lemma exec_question:
  assumes "n \<noteq> Preprocess" and ex: "exec_node env n s w = (Inr s', w')"
  shows "messages s' = messages s \<and> summary s' = summary s"
proof (cases n)
  case Routing
  obtain i h where "router_node (e_settings env) (e_acompletion env) s = s\<lparr>user_intent := i, hitl_requested := h\<rparr>"
    using router_frame by blast
  with Routing ex have "s' = s\<lparr>user_intent := i, hitl_requested := h\<rparr>" by (simp add: exec_node_def)
  then show ?thesis by simp
next
  case RagEngine
  with ex rag_frame [of env s w s' w'] show ?thesis by (auto simp: exec_node_def)
next
  case LlmGenerate
  obtain x v where l: "llm_generate_node env s w = (x, v)" by fastforce
  with LlmGenerate ex llm_frame [OF l] show ?thesis by (auto simp: exec_node_def)
qed (use assms in \<open>auto simp: exec_node_def tool_executor_node_def guardrails_node_def postprocess_node_def
       hitl_node_def Let_def split: prod.splits\<close>)

interpretation asking: node_contract "\<lambda>n s. n \<noteq> Preprocess" same_question
proof
  show "same_question (s, w) (s', w')" if "n \<noteq> Preprocess" "exec_node env n s w = (Inr s', w')" for env n s w s' w'
    using exec_question [OF that] by (simp add: same_question_def)
  show "m \<noteq> Preprocess" if "next_node n s' = Some m" for n s' m
    using that by (auto simp: next_node_def split: agent_node.splits route.splits if_splits)
qed (auto simp: same_question_def)

lemma system_only: "messages s = [] \<Longrightarrow> fst ` set (llm_messages env s) \<subseteq> {''system''}"
  by (auto simp: llm_messages_def context_note_def tool_note_def last_n_def)

text \<open>
  A conversation of fifty messages or more is emptied, the question included: no later node sees a
  message, the prompt of the model consists of system messages only, and the summary is not in it.
\<close>

theorem long_conversation_dropped:
  assumes "e_summarizer env" and "50 \<le> length (pl_messages p)" and u: "u \<in> set (tr_updates (run_turn env p s w))"
  shows "messages (up_state u) = [] \<and> fst ` set (llm_messages env (up_state u)) \<subseteq> {''system''} \<and>
    llm_messages env (up_state u) = llm_messages env (up_state u\<lparr>summary := None\<rparr>)"
proof -
  define s1 where "s1 = (start_state p s)\<lparr>messages := [],
    summary := Some (summarize (e_settings env) (e_acompletion env) (pl_messages p))\<rparr>"
  have pre: "preprocess_node env (start_state p s) = Inr s1"
    using assms(1,2) by (simp add: preprocess_node_def SUMMARIZE_THRESHOLD_def s1_def)
  from u have "up_state u = s1 \<or> u \<in> set (tr_updates (run_graph env Routing s1 (w\<lparr>w_pushed := []\<rparr>)))"
    by (auto simp: run_turn_def run_graph.simps [of env Preprocess] exec_node_def pre next_node_def Let_def)
  then have "messages (up_state u) = []"
    using asking.run_updates [of Routing u env s1 "w\<lparr>w_pushed := []\<rparr>"] by (auto simp: same_question_def s1_def)
  moreover have "llm_messages env (up_state u) = llm_messages env (up_state u\<lparr>summary := None\<rparr>)"
    by (simp add: llm_messages_def context_note_def tool_note_def)
  ultimately show ?thesis using system_only by blast
qed

definition long_payload :: payload where
  "long_payload = empty_payload\<lparr>pl_messages :=
     replicate 50 \<lparr>cm_role = None, cm_content = Some [104, 105], cm_media = []\<rparr>\<rparr>"

lemma long_conversation_dropped_witness:
  "\<forall>u \<in> set (tr_updates (run_turn demo_env long_payload empty_state demo_world)). messages (up_state u) = []"
  using long_conversation_dropped [of demo_env long_payload] by (simp add: demo_env_def long_payload_def)

definition tool_answer :: "agent_env \<Rightarrow> agent_state \<Rightarrow> agent_world \<Rightarrow> agent_state" where
  "tool_answer env s w = fst (llm_generate_node env (tool_executor_node env s) (w\<lparr>w_pushed := []\<rparr>))"

text \<open>
  A tool turn is checked against the context of an earlier question: no node of the tool branch
  clears the retrieved chunks, so the guardrails compare the answer about the tool's result with
  them, and hand the thread over when they do not entail it.
\<close>

theorem tool_turn_checked_against_old_context:
  assumes "rag_context s \<noteq> []" and "llm_response (tool_answer env s w) \<noteq> []"
    and "hallucinated env (rag_context s) (llm_response (tool_answer env s w))"
  shows "map up_node (tr_updates (run_graph env ToolExecutor s w)) = [ToolExecutor, LlmGenerate, Guardrails, HandOver] \<and>
    (\<forall>u \<in> set (tr_updates (run_graph env ToolExecutor s w)). rag_context (up_state u) = rag_context s) \<and>
    correction_message (tr_state (run_graph env ToolExecutor s w)) = Some CORRECTION_MESSAGE"
proof -
  let ?s1 = "tool_executor_node env s"
  obtain s2 w2 where l: "llm_generate_node env ?s1 (w\<lparr>w_pushed := []\<rparr>) = (s2, w2)" by fastforce
  then have s2: "s2 = tool_answer env s w" by (simp add: tool_answer_def)
  have c1: "rag_context ?s1 = rag_context s" by (simp add: tool_executor_node_def Let_def split: prod.split)
  from llm_frame [OF l] c1 have c2: "rag_context s2 = rag_context s" by auto
  have g: "guardrails_node env s2 = s2\<lparr>guardrails_passed := False, correction_message := Some CORRECTION_MESSAGE,
      hitl_requested := True\<rparr>"
    using assms c2 unfolding s2 by (simp add: guardrails_node_def)
  show ?thesis
    using l c1 c2 g by (simp add: run_graph.simps exec_node_def next_node_def guardrails_to_hitl_def hitl_node_def)
qed

lemma tool_turn_checked_against_old_context_witness:
  "\<exists>r. r = run_graph (demo_env\<lparr>e_nli := Some (\<lambda>ps. NliScores [(1, 0, 0)])\<rparr>) ToolExecutor
        (empty_state\<lparr>rag_context := [[65]], user_intent := Some ''tool:x''\<rparr>) demo_world \<and>
     last (map up_node (tr_updates r)) = HandOver"
proof -
  let ?env = "demo_env\<lparr>e_nli := Some (\<lambda>ps. NliScores [(1, 0, 0)])\<rparr>"
  let ?s = "empty_state\<lparr>rag_context := [[65]], user_intent := Some ''tool:x''\<rparr>"
  have "llm_response (tool_answer ?env ?s demo_world) = [111, 107]"
    by (simp add: tool_answer_def llm_generate_node_def stream_chat_completion_def demo_env_def demo_stream_def
        chunk_text_def Let_def default_llm_settings_def cache_store_def tool_executor_node_def split: prod.split)
  moreover have "hallucinated ?env [[65]] x" for x by (simp add: hallucinated_def ENTAILMENT_THRESHOLD_def)
  ultimately show ?thesis
    using tool_turn_checked_against_old_context [of ?s ?env demo_world] by simp
qed

end
