(* ===== verification/ChatSse.thy ===== *)
theory ChatSse
  imports AgentGraph Billing Feedback
begin

text \<open>
  The chat endpoints over the graph: the SSE route \<^verbatim>\<open>chat_service/routes/chat.py\<close> with its lock,
  its queue of items and its billing, the thread history, and the websocket of
  \<^verbatim>\<open>chat_service/routes/ws_chat.py\<close>.

  A stored thread is the state the checkpointer keeps under the thread's id.  The stream of a turn is
  the list of the graph's updates; \<open>_consume_stream\<close> turns it into the items of the queue, and the
  generator sends these on.  Whether Redis grants the lock is an argument, an exception included.
\<close>

section \<open>From updates to items\<close>

text \<open>What the queue holds: a token of the model, or a JSON text with a content.\<close>

datatype q_item = Token ucs | Json ucs

record consumer =
  cs_items :: "q_item list"
  cs_sent :: bool          \<comment> \<open>\<open>response_sent\<close>\<close>
  cs_tokens :: int         \<comment> \<open>\<open>tokens_used\<close>\<close>

definition new_consumer :: consumer where
  "new_consumer = \<lparr>cs_items = [], cs_sent = False, cs_tokens = 0\<rparr>"

text \<open>
  One update: the tokens the node put into the queue while it ran, then the loop body on the node's
  state.  \<open>drained\<close> tells whether the generator had taken everything out of the queue when
  \<open>queue.empty()\<close> was asked.
\<close>

definition consume_update :: "bool \<Rightarrow> graph_update \<Rightarrow> consumer \<Rightarrow> consumer" where
  "consume_update drained u c0 =
     (let diff = up_state u;
          c = c0\<lparr>cs_items := cs_items c0 @ map Token (up_pushed u)\<rparr>;
          c1 = (if llm_response diff \<noteq> [] \<and> \<not> cs_sent c
                then (let pushed = \<not> (cs_items c = [] \<or> drained) \<or> up_node u = LlmGenerate in
                      (if pushed then c else c\<lparr>cs_items := cs_items c @ [Json (llm_response diff)]\<rparr>)\<lparr>cs_sent := True\<rparr>)
                else c);
          c2 = (case correction_message diff of
                  None \<Rightarrow> c1
                | Some m \<Rightarrow> if m = [] then c1 else c1\<lparr>cs_items := cs_items c1 @ [Json m]\<rparr>)
      in if tokens_used diff \<noteq> 0 then c2\<lparr>cs_tokens := tokens_used diff\<rparr> else c2)"

fun consume_updates :: "bool \<Rightarrow> graph_update list \<Rightarrow> consumer \<Rightarrow> consumer" where
  "consume_updates drained [] c = c"
| "consume_updates drained (u # us) c = consume_updates drained us (consume_update drained u c)"

text \<open>The whole task: after an exception of the graph, an apology unless a response was sent.\<close>

definition consume_stream :: "bool \<Rightarrow> turn_result \<Rightarrow> consumer" where
  "consume_stream drained r =
     (let c = consume_updates drained (tr_updates r) new_consumer in
      if tr_error r \<noteq> None \<and> \<not> cs_sent c then c\<lparr>cs_items := cs_items c @ [Json LLM_APOLOGY]\<rparr> else c)"

text \<open>What the client is sent: an item that starts with a brace goes out as it is.\<close>

datatype sse_item = SseError string | SseContent ucs | SseRaw ucs | SseDone

definition deliver :: "q_item \<Rightarrow> sse_item" where
  "deliver i = (case i of
     Json t \<Rightarrow> SseContent t
   | Token t \<Rightarrow> if starts_with [123] t then SseRaw t else SseContent t)"

section \<open>The generator\<close>

definition LOCK_TTL :: time where "LOCK_TTL = 90"

text \<open>What happens around the lock, in time: its requests, its release, and the nodes of the agent.\<close>

datatype lock_event = Acquire string time bool | Release string | Ran agent_node

record chat_state =
  ch_threads :: "string \<Rightarrow> agent_state option"   \<comment> \<open>the checkpoints\<close>
  ch_world :: agent_world
  ch_billing :: billing_db

record sse_result =
  sr_items :: "sse_item list"
  sr_lock :: "lock_event list"
  sr_error :: "exn option"
  sr_chat :: chat_state

definition stored_state :: "chat_state \<Rightarrow> string \<Rightarrow> agent_state" where
  "stored_state ch th = (case ch_threads ch th of None \<Rightarrow> empty_state | Some s \<Rightarrow> s)"

text \<open>
  \<open>gone\<close> is \<open>Some (k, j)\<close> when the client goes away after \<open>k\<close> updates were consumed and \<open>j\<close> items
  sent, tokens of the node then running included: the generator is cancelled, releases the lock and
  bills what it knows, and the shielded task runs the remaining nodes after that.  \<open>acquired\<close> is the
  answer of \<open>lock.acquire\<close>.
\<close>

definition event_generator ::
  "agent_env \<Rightarrow> string \<Rightarrow> payload \<Rightarrow> exn + bool \<Rightarrow> bool \<Rightarrow> (nat \<times> nat) option \<Rightarrow> chat_state \<Rightarrow> sse_result" where
  "event_generator env period p acquired drained gone ch0 =
     (case check_limit (pl_tenant p) ''messages'' 1 period (ch_billing ch0) of
        (Inl e, b) \<Rightarrow> \<lparr>sr_items = [], sr_lock = [], sr_error = Some e, sr_chat = ch0\<lparr>ch_billing := b\<rparr>\<rparr>
      | (Inr (allowed, _), b) \<Rightarrow>
        (let ch = ch0\<lparr>ch_billing := b\<rparr>; key = lock_key (pl_thread p) in
         if \<not> allowed
         then \<lparr>sr_items = [SseError ''LIMIT_EXCEEDED'', SseDone], sr_lock = [], sr_error = None, sr_chat = ch\<rparr>
         else case acquired of
           Inl e \<Rightarrow> \<lparr>sr_items = [], sr_lock = [], sr_error = Some e, sr_chat = ch\<rparr>
         | Inr False \<Rightarrow> \<lparr>sr_items = [SseError ''CONCURRENT_REQUEST''], sr_lock = [Acquire key LOCK_TTL False],
                        sr_error = None, sr_chat = ch\<rparr>
         | Inr True \<Rightarrow>
           (let r = run_turn (env\<lparr>e_queue := True\<rparr>) p (stored_state ch (pl_thread p)) (ch_world ch);
                done = consume_stream drained r;
                seen = (case gone of None \<Rightarrow> done
                        | Some (k, _) \<Rightarrow> consume_updates drained (take k (tr_updates r)) new_consumer);
                items = (case gone of None \<Rightarrow> map deliver (cs_items done) @ [SseDone]
                         | Some (k, j) \<Rightarrow> take j (map deliver
                             (if k < length (tr_updates r)
                              then cs_items seen @ map Token (up_pushed (tr_updates r ! k)) else cs_items done)));
                ran = map up_node (tr_updates r);
                k = (case gone of None \<Rightarrow> length ran | Some (k, _) \<Rightarrow> k);
                bill = (if cs_tokens seen > 0
                        then snd (billing_record_usage (pl_tenant p) (cs_tokens seen) 1 period b) else b)
            in \<lparr>sr_items = items,
                sr_lock = Acquire key LOCK_TTL True # map Ran (take k ran) @ Release key # map Ran (drop k ran),
                sr_error = None,
                sr_chat = ch\<lparr>ch_threads := (ch_threads ch)(pl_thread p \<mapsto> tr_state r),
                            ch_world := tr_world r, ch_billing := bill\<rparr>\<rparr>)))"

text \<open>The route: the tenant of the authenticated key, and the body's fields or their defaults.\<close>

record chat_body =
  cb_thread :: "string option"
  cb_messages :: "chat_msg list"

definition chat_completions ::
  "agent_env \<Rightarrow> string \<Rightarrow> string \<Rightarrow> string \<Rightarrow> chat_body \<Rightarrow> exn + bool \<Rightarrow> bool \<Rightarrow> (nat \<times> nat) option \<Rightarrow> chat_state \<Rightarrow> sse_result" where
  "chat_completions env period tenant new_uuid body acquired drained gone ch =
     event_generator env period
       \<lparr>pl_messages = cb_messages body, pl_tenant = tenant, pl_thread = default_to new_uuid (cb_thread body)\<rparr>
       acquired drained gone ch"

section \<open>Thread history\<close>

text \<open>
  \<open>GET /v1/threads/{id}\<close>.  A message of the payload may carry an \<open>id\<close>; \<open>ids\<close> gives it.  The
  request's state has a user only where a middleware sets one.
\<close>

record history_msg =
  hm_msg :: chat_msg
  hm_feedback :: "string option option" \<comment> \<open>\<open>feedback_state\<close>, if the key was added\<close>

definition plain_history :: "chat_msg list \<Rightarrow> history_msg list" where
  "plain_history ms = map (\<lambda>m. \<lparr>hm_msg = m, hm_feedback = None\<rparr>) ms"

fun enrich :: "(chat_msg \<Rightarrow> string option) \<Rightarrow> string \<Rightarrow> string \<Rightarrow> string option \<Rightarrow> fb_db \<Rightarrow> chat_msg list \<Rightarrow> exn + history_msg list" where
  "enrich ids th user tenant db [] = Inr []"
| "enrich ids th user tenant db (m # ms) =
     (let i = default_to [] (ids m); t = default_to [] tenant in
      case (if i = [] \<or> t = [] then Inr \<lparr>hm_msg = m, hm_feedback = None\<rparr>
            else case get_feedback_state th i user t db of
              Inl e \<Rightarrow> Inl e | Inr f \<Rightarrow> Inr \<lparr>hm_msg = m, hm_feedback = Some f\<rparr>) of
        Inl e \<Rightarrow> Inl e
      | Inr h \<Rightarrow> (case enrich ids th user tenant db ms of Inl e \<Rightarrow> Inl e | Inr hs \<Rightarrow> Inr (h # hs)))"

definition get_thread_history ::
  "(chat_msg \<Rightarrow> string option) \<Rightarrow> string option \<Rightarrow> string option \<Rightarrow> bool \<Rightarrow> string \<Rightarrow> fb_db \<Rightarrow> chat_state \<Rightarrow> exn + history_msg list" where
  "get_thread_history ids tenant user has_service th db ch =
     (case ch_threads ch th of
        None \<Rightarrow> Inr []
      | Some s \<Rightarrow>
          if default_to [] user = [] \<or> \<not> has_service then Inr (plain_history (messages s))
          else enrich ids th (the user) tenant db (messages s))"

section \<open>The websocket\<close>

text \<open>
  One message of the socket.  The payload sets the messages only.  \<open>streamed\<close> are the contents of the
  \<open>on_chat_model_stream\<close> events of \<open>astream_events\<close>, which LangGraph emits for LangChain models;
  the graph calls none.  An exception of the graph ends the connection.
\<close>

datatype ws_send = WsContent ucs | WsDone | WsConcurrent

definition ws_message ::
  "agent_env \<Rightarrow> string \<Rightarrow> chat_msg list \<Rightarrow> bool \<Rightarrow> ucs list \<Rightarrow> chat_state \<Rightarrow> ws_send list \<times> lock_event list \<times> exn option \<times> chat_state" where
  "ws_message env th ms acquired streamed ch =
     (let key = lock_key th in
      if \<not> acquired then ([WsConcurrent], [Acquire key LOCK_TTL False], None, ch)
      else let r = run_graph env Preprocess ((stored_state ch th)\<lparr>messages := ms\<rparr>) (ch_world ch) in
        (map WsContent (filter (\<lambda>t. t \<noteq> []) streamed) @ (if tr_error r = None then [WsDone] else []),
         Acquire key LOCK_TTL True # map (Ran \<circ> up_node) (tr_updates r) @ [Release key], tr_error r,
         ch\<lparr>ch_threads := (ch_threads ch)(th \<mapsto> tr_state r), ch_world := tr_world r\<rparr>))"

section \<open>Lock, limit and history\<close>

text \<open>The nodes of a trace, those that ran while the lock was not held, and the releases.\<close>

fun ran_nodes :: "lock_event list \<Rightarrow> agent_node list" where
  "ran_nodes [] = []"
| "ran_nodes (Ran n # es) = n # ran_nodes es"
| "ran_nodes (_ # es) = ran_nodes es"

fun unlocked_nodes :: "bool \<Rightarrow> lock_event list \<Rightarrow> agent_node list" where
  "unlocked_nodes held [] = []"
| "unlocked_nodes held (Acquire k ttl ok # es) = unlocked_nodes (held \<or> ok) es"
| "unlocked_nodes held (Release k # es) = unlocked_nodes False es"
| "unlocked_nodes held (Ran n # es) = (if held then [] else [n]) @ unlocked_nodes held es"

lemma ran_nodes_append [simp]: "ran_nodes (es @ fs) = ran_nodes es @ ran_nodes fs"
  by (induction es rule: ran_nodes.induct) auto

lemma ran_nodes_map [simp]: "ran_nodes (map Ran ns) = ns"
  by (induction ns) auto

lemma unlocked_map [simp]:
  "unlocked_nodes held (map Ran ns @ es) = (if held then [] else ns) @ unlocked_nodes held es"
  "unlocked_nodes held (map Ran ns) = (if held then [] else ns)"
  by (induction ns) auto

lemma releases_map [simp]: "filter (\<lambda>e. e = Release k) (map Ran ns) = []"
  by (induction ns) auto

definition served :: "string \<Rightarrow> payload \<Rightarrow> exn + bool \<Rightarrow> chat_state \<Rightarrow> bool" where
  "served period p acquired ch \<longleftrightarrow>
     (case fst (check_limit (pl_tenant p) ''messages'' 1 period (ch_billing ch)) of
        Inl _ \<Rightarrow> False | Inr (allowed, _) \<Rightarrow> allowed \<and> acquired = Inr True)"

definition turn_nodes :: "agent_env \<Rightarrow> payload \<Rightarrow> chat_state \<Rightarrow> agent_node list" where
  "turn_nodes env p ch = map up_node (tr_updates (run_turn (env\<lparr>e_queue := True\<rparr>) p (stored_state ch (pl_thread p)) (ch_world ch)))"

text \<open>C12: the agent runs for a request exactly when the tenant's limit allows it and the lock of the
  thread is granted, and that lock is then released once.  While the client stays, every node runs
  between the two (the lock's own expiry after 90 seconds is left aside).  When the client goes away, the lock is released at once, and the nodes that have not
  finished run on without it, up to the end of the turn.\<close>

theorem generator_lock_discipline:
  assumes "event_generator env period p acquired drained gone ch = res"
  shows "ran_nodes (sr_lock res) = (if served period p acquired ch then turn_nodes env p ch else []) \<and>
    unlocked_nodes False (sr_lock res) = (case gone of None \<Rightarrow> [] | Some (k, j) \<Rightarrow> drop k (ran_nodes (sr_lock res))) \<and>
    filter (\<lambda>e. e = Release (lock_key (pl_thread p))) (sr_lock res) =
      (if served period p acquired ch then [Release (lock_key (pl_thread p))] else []) \<and>
    (served period p acquired ch \<or> (ch_threads (sr_chat res) = ch_threads ch \<and> ch_world (sr_chat res) = ch_world ch \<and>
       set (sr_items res) \<subseteq> {SseError ''LIMIT_EXCEEDED'', SseError ''CONCURRENT_REQUEST'', SseDone}))"
proof -
  obtain lim b where lim: "check_limit (pl_tenant p) ''messages'' 1 period (ch_billing ch) = (lim, b)" by fastforce
  have st: "stored_state (ch\<lparr>ch_billing := b\<rparr>) th = stored_state ch th" for th by (simp add: stored_state_def)
  show ?thesis
  proof (cases "served period p acquired ch")
    case True
    then obtain why where "lim = Inr (True, why)" "acquired = Inr True"
      using lim by (auto simp: served_def split: sum.splits)
    then show ?thesis using True lim
      by (cases gone) (auto simp: assms [symmetric] event_generator_def turn_nodes_def Let_def st simp del: map_map)
  next
    case False
    with lim show ?thesis unfolding assms [symmetric] event_generator_def served_def Let_def
      by (cases gone) (auto split: sum.splits bool.splits)
  qed
qed

definition demo_billing :: billing_db where
  "demo_billing = \<lparr>bl_tenants = [(1, ''t'')], bl_plans = [],
     bl_accounts = [\<lparr>ba_tenant = 1, ba_plan = None, ba_balance = 0, ba_credit_limit = 0, ba_status = AcActive\<rparr>],
     bl_usage = [], bl_invoices = [], bl_messages = []\<rparr>"

definition demo_chat :: chat_state where
  "demo_chat = \<lparr>ch_threads = (\<lambda>_. None), ch_world = demo_world, ch_billing = demo_billing\<rparr>"

lemma demo_limit: "check_limit uuid1 ''messages'' 1 period demo_billing = (Inr (True, NoPlan), demo_billing)"
  by (simp add: check_limit_def get_or_create_account_def tenant_db_context_def demo_billing_def)

lemma demo_served: "served ''2026-01'' empty_payload (Inr True) demo_chat"
  by (simp add: served_def empty_payload_def demo_chat_def demo_limit)

lemma generator_lock_discipline_witness:
  "(let res = event_generator demo_env ''2026-01'' empty_payload (Inr True) True (Some (1, 0)) demo_chat in
     ran_nodes (sr_lock res) = turn_nodes demo_env empty_payload demo_chat \<and>
     unlocked_nodes False (sr_lock res) = drop 1 (turn_nodes demo_env empty_payload demo_chat))"
  using generator_lock_discipline [of demo_env "''2026-01''" empty_payload "Inr True" True "Some (1, 0)" demo_chat, OF refl]
  by (simp add: demo_served Let_def)

text \<open>
  The history of a thread is what the checkpointer holds under its id: the tenant that asks plays no
  part in which thread it may read.
\<close>

theorem thread_history_any_tenant:
  assumes "ch_threads ch th = Some s"
  shows "get_thread_history ids tenant None svc th db ch = Inr (plain_history (messages s)) \<and>
    get_thread_history ids other None svc th db ch = get_thread_history ids tenant None svc th db ch"
  using assms by (simp add: get_thread_history_def default_to_def)

section \<open>What a turn sends\<close>

text \<open>A state with nothing to replay; the nodes before the model keep it so.\<close>

definition clean :: "agent_state \<Rightarrow> bool" where
  "clean s \<longleftrightarrow> llm_response s = [] \<and> correction_message s = None \<and> tokens_used s = 0"

lemma clean_start [simp]: "clean (start_state p empty_state)"
  by (simp add: clean_def start_state_def empty_state_def)

lemma clean_preprocess: "preprocess_node env s = Inr s' \<Longrightarrow> clean s' = clean s \<and> hitl_requested s' = hitl_requested s"
  by (drule preprocess_frame) (auto simp: clean_def)

lemma clean_router: "clean (router_node st ac s) = clean s"
  using router_frame [of st ac s] by (auto simp: clean_def)

lemma rag_response:
  "rag_engine_node env s w = (Inr s', w') \<Longrightarrow> e_cache env = None \<Longrightarrow>
     llm_response s' = llm_response s \<and> correction_message s' = correction_message s \<and> tokens_used s' = tokens_used s \<and>
     hitl_requested s' = hitl_requested s"
  unfolding rag_engine_node_def Let_def no_answer_def cache_lookup_def
  by (auto split: if_splits option.splits sum.splits list.splits)

lemma rag_pushed: "rag_engine_node env s w = (x, w') \<Longrightarrow> w_pushed w' = w_pushed w"
  using rag_world [of env s w x w'] by auto

lemma clean_update: "clean (up_state u) \<Longrightarrow> up_pushed u = [] \<Longrightarrow> consume_update drained u c = c"
  by (simp add: consume_update_def clean_def)

definition corrections :: "agent_state \<Rightarrow> q_item list" where
  "corrections s = (case correction_message s of None \<Rightarrow> [] | Some m \<Rightarrow> if m = [] then [] else [Json m])"

definition count_tokens :: "agent_state \<Rightarrow> int \<Rightarrow> int" where
  "count_tokens s n = (if tokens_used s = 0 then n else tokens_used s)"

lemma consume_silent:
  assumes "llm_response (up_state u) = [] \<or> cs_sent c \<or> up_node u = LlmGenerate"
  shows "consume_update drained u c = c\<lparr>cs_items := cs_items c @ map Token (up_pushed u) @ corrections (up_state u),
    cs_sent := cs_sent c \<or> llm_response (up_state u) \<noteq> [], cs_tokens := count_tokens (up_state u) (cs_tokens c)\<rparr>"
  using assms by (cases c) (auto simp: consume_update_def corrections_def count_tokens_def Let_def split: option.split)

definition replayed :: "bool \<Rightarrow> graph_update \<Rightarrow> consumer \<Rightarrow> q_item list" where
  "replayed drained u c =
     (if llm_response (up_state u) \<noteq> [] \<and> \<not> cs_sent c \<and> (cs_items c @ map Token (up_pushed u) = [] \<or> drained)
         \<and> up_node u \<noteq> LlmGenerate
      then [Json (llm_response (up_state u))] else [])"

lemma consume_items: "cs_items (consume_update drained u c) =
    cs_items c @ map Token (up_pushed u) @ replayed drained u c @ corrections (up_state u)"
  by (cases c) (simp add: consume_update_def corrections_def replayed_def Let_def split: option.split)

lemma consume_append: "consume_updates d (us @ vs) c = consume_updates d vs (consume_updates d us c)"
  by (induction us arbitrary: c) auto

text \<open>The retrieval turn, node by node.\<close>

lemma route_not_hitl: "route_decision s = ToRag \<Longrightarrow> \<not> hitl_requested s"
  by (auto simp: route_decision_def Let_def split: if_splits)

lemma rag_turn:
  assumes "preprocess_node env s = Inr s1"
    and "route_decision (router_node (e_settings env) (e_acompletion env) s1) = ToRag"
    and "rag_engine_node env (router_node (e_settings env) (e_acompletion env) s1) (w\<lparr>w_pushed := []\<rparr>) = (Inr s3, w3)"
    and "llm_generate_node env s3 (w3\<lparr>w_pushed := []\<rparr>) = (s4, w4)"
  shows "\<exists>s6 w6. run_graph env Preprocess s w = \<lparr>tr_updates =
      [\<lparr>up_node = Preprocess, up_state = s1, up_pushed = []\<rparr>,
       \<lparr>up_node = Routing, up_state = router_node (e_settings env) (e_acompletion env) s1, up_pushed = []\<rparr>,
       \<lparr>up_node = RagEngine, up_state = s3, up_pushed = []\<rparr>,
       \<lparr>up_node = LlmGenerate, up_state = s4, up_pushed = w_pushed w4\<rparr>,
       \<lparr>up_node = Guardrails, up_state = guardrails_node env s4, up_pushed = []\<rparr>,
       \<lparr>up_node = (if hitl_requested (guardrails_node env s4) then HandOver else Postprocess), up_state = s6, up_pushed = []\<rparr>],
      tr_error = None, tr_state = s6, tr_world = w6\<rparr> \<and>
    s6 = (if hitl_requested (guardrails_node env s4) then (guardrails_node env s4)\<lparr>llm_response := HITL_RESPONSE\<rparr>
          else postprocess_node (guardrails_node env s4))"
  using assms rag_pushed [OF assms(3)]
  by (simp add: run_graph.simps exec_node_def next_node_def guardrails_to_hitl_def hitl_node_def)

lemma llm_outcome:
  assumes "llm_generate_node env s w = (s', w')" and "e_queue env" and "w_pushed w = []"
  shows "(\<exists>stream used. stream_chat_completion (e_settings env) (e_acompletion env) (llm_messages env s)
        (load_tenant_config env (tenant_id s)) = Inr stream \<and> \<not> ls_raises stream \<and>
        llm_response s' = concat (map chunk_text (ls_chunks stream)) \<and> tokens_used s' = used \<and>
        used = fst (snd (collect_stream (ls_chunks stream) ([], 0, []))) \<and>
        w_pushed w' = filter (\<lambda>t. t \<noteq> []) (map chunk_text (ls_chunks stream))) \<or>
    (llm_response s' = LLM_APOLOGY \<and> tokens_used s' = tokens_used s \<and>
      (stream_chat_completion (e_settings env) (e_acompletion env) (llm_messages env s)
        (load_tenant_config env (tenant_id s)) \<in> range Inl \<longrightarrow> w_pushed w' = []))"
proof (cases "stream_chat_completion (e_settings env) (e_acompletion env) (llm_messages env s)
        (load_tenant_config env (tenant_id s))")
  case (Inl e)
  with assms show ?thesis by (auto simp: llm_generate_node_def llm_failed_def)
next
  case (Inr stream)
  obtain full used pushed where c: "collect_stream (ls_chunks stream) ([], 0, []) = (full, used, pushed)"
    by (metis prod.exhaust)
  with collect_stream_full [of "ls_chunks stream" "[]" 0 "[]"] collect_stream_pushed [of "ls_chunks stream" "[]" 0 "[]"]
  have f: "full = concat (map chunk_text (ls_chunks stream))"
    and p: "pushed = filter (\<lambda>t. t \<noteq> []) (map chunk_text (ls_chunks stream))" by simp_all
  show ?thesis
  proof (cases "ls_raises stream")
    case True
    with assms c Inr show ?thesis by (auto simp: llm_generate_node_def llm_failed_def Let_def)
  next
    case False
    with assms c Inr f p show ?thesis by (auto simp: llm_generate_node_def Let_def)
  qed
qed

lemma llm_keeps:
  "llm_generate_node env s w = (s', w') \<Longrightarrow> correction_message s' = correction_message s \<and>
     rag_context s' = rag_context s \<and> hitl_requested s' = hitl_requested s"
  by (drule llm_frame) auto

text \<open>
  What the generator sends for a first turn through retrieval: the tokens of the model, then the
  correction twice where the guardrails failed.  The hand-over's own text is never sent then.
\<close>

lemma first_rag_items:
  assumes clean: "clean s" and nocache: "e_cache env = None"
    and pre: "preprocess_node env s = Inr s1"
    and route: "route_decision (router_node (e_settings env) (e_acompletion env) s1) = ToRag"
    and rag: "rag_engine_node env (router_node (e_settings env) (e_acompletion env) s1) (w\<lparr>w_pushed := []\<rparr>) = (Inr s3, w3)"
    and llm: "llm_generate_node env s3 (w3\<lparr>w_pushed := []\<rparr>) = (s4, w4)"
  shows "cs_items (consume_stream d (run_graph env Preprocess s w)) = map Token (w_pushed w4) @
      (if rag_context s3 \<noteq> [] \<and> llm_response s4 \<noteq> [] \<and> hallucinated env (rag_context s3) (llm_response s4)
       then [Json CORRECTION_MESSAGE, Json CORRECTION_MESSAGE] else [])"
    and "cs_tokens (consume_stream d (run_graph env Preprocess s w)) = tokens_used s4"
proof -
  let ?s2 = "router_node (e_settings env) (e_acompletion env) s1"
  have c2: "clean ?s2" using clean clean_preprocess [OF pre] by (simp add: clean_router)
  with rag_response [OF rag nocache] have c3: "clean s3" by (simp add: clean_def)
  have h3: "\<not> hitl_requested s3" using rag_response [OF rag nocache] route_not_hitl [OF route] by simp
  from llm_keeps [OF llm] c3 h3 have s4: "correction_message s4 = None" "rag_context s4 = rag_context s3" "\<not> hitl_requested s4"
    by (simp_all add: clean_def)
  have cm: "CORRECTION_MESSAGE \<noteq> []" by (simp add: CORRECTION_MESSAGE_def)
  obtain s6 w6 where run: "run_graph env Preprocess s w = \<lparr>tr_updates =
      [\<lparr>up_node = Preprocess, up_state = s1, up_pushed = []\<rparr>, \<lparr>up_node = Routing, up_state = ?s2, up_pushed = []\<rparr>,
       \<lparr>up_node = RagEngine, up_state = s3, up_pushed = []\<rparr>,
       \<lparr>up_node = LlmGenerate, up_state = s4, up_pushed = w_pushed w4\<rparr>,
       \<lparr>up_node = Guardrails, up_state = guardrails_node env s4, up_pushed = []\<rparr>,
       \<lparr>up_node = (if hitl_requested (guardrails_node env s4) then HandOver else Postprocess), up_state = s6, up_pushed = []\<rparr>],
      tr_error = None, tr_state = s6, tr_world = w6\<rparr>"
    and s6: "s6 = (if hitl_requested (guardrails_node env s4) then (guardrails_node env s4)\<lparr>llm_response := HITL_RESPONSE\<rparr>
          else postprocess_node (guardrails_node env s4))"
    using rag_turn [OF pre route rag llm] by blast
  have c1: "clean s1" using clean clean_preprocess [OF pre] by simp
  let ?bad = "rag_context s3 \<noteq> [] \<and> llm_response s4 \<noteq> [] \<and> hallucinated env (rag_context s3) (llm_response s4)"
  let ?s5 = "guardrails_node env s4"
  have s5: "hitl_requested ?s5 = ?bad" "llm_response ?s5 = llm_response s4" "tokens_used ?s5 = tokens_used s4"
    "corrections ?s5 = (if ?bad then [Json CORRECTION_MESSAGE] else [])" "corrections s4 = []"
    using s4 cm by (simp_all add: guardrails_node_def corrections_def)
  have s6': "tokens_used s6 = tokens_used s4" "corrections s6 = corrections ?s5"
    "llm_response s6 = [] \<or> llm_response s4 \<noteq> []"
    using s5 unfolding s6 by (auto simp: postprocess_node_def corrections_def)
  show "cs_items (consume_stream d (run_graph env Preprocess s w)) = map Token (w_pushed w4) @
      (if ?bad then [Json CORRECTION_MESSAGE, Json CORRECTION_MESSAGE] else [])"
    and "cs_tokens (consume_stream d (run_graph env Preprocess s w)) = tokens_used s4"
    using s5 s6' unfolding run
    by (simp_all add: consume_stream_def Let_def clean_update c1 c2 c3 consume_silent new_consumer_def count_tokens_def)
qed

text \<open>A turn that goes through retrieval and reaches the model, in the state \<open>s3\<close>.\<close>

definition reaches_model :: "agent_env \<Rightarrow> payload \<Rightarrow> agent_state \<Rightarrow> agent_world \<Rightarrow> agent_state \<Rightarrow> agent_world \<Rightarrow> bool" where
  "reaches_model env p s w s3 w3 \<longleftrightarrow>
     (case preprocess_node env (start_state p s) of Inl _ \<Rightarrow> False
      | Inr s1 \<Rightarrow> (let s2 = router_node (e_settings env) (e_acompletion env) s1 in
          route_decision s2 = ToRag \<and> rag_engine_node env s2 (w\<lparr>w_pushed := []\<rparr>) = (Inr s3, w3)))"

definition answer_stream :: "agent_env \<Rightarrow> agent_state \<Rightarrow> exn + llm_stream" where
  "answer_stream env s = stream_chat_completion (e_settings env) (e_acompletion env) (llm_messages env s)
     (load_tenant_config env (tenant_id s))"

definition stream_text :: "llm_stream \<Rightarrow> ucs" where
  "stream_text st = concat (map chunk_text (ls_chunks st))"

definition stream_usage :: "llm_stream \<Rightarrow> int" where
  "stream_usage st = fst (snd (collect_stream (ls_chunks st) ([], 0, [])))"

definition rejected_answer :: "agent_env \<Rightarrow> agent_state \<Rightarrow> ucs \<Rightarrow> bool" where
  "rejected_answer env s txt \<longleftrightarrow> rag_context s \<noteq> [] \<and> txt \<noteq> [] \<and> hallucinated env (rag_context s) txt"

fun item_text :: "sse_item \<Rightarrow> ucs" where
  "item_text (SseContent t) = t"
| "item_text (SseRaw t) = t"
| "item_text _ = []"

lemma item_text_token: "item_text (deliver (Token t)) = t"
  by (simp add: deliver_def)

lemma llm_node_ok:
  assumes "answer_stream env s = Inr st" and "\<not> ls_raises st" and "e_queue env" and "w_pushed w = []"
  shows "\<exists>s' w'. llm_generate_node env s w = (s', w') \<and> llm_response s' = stream_text st \<and>
    tokens_used s' = stream_usage st \<and> w_pushed w' = filter (\<lambda>t. t \<noteq> []) (map chunk_text (ls_chunks st))"
proof -
  obtain s' w' where l: "llm_generate_node env s w = (s', w')" by fastforce
  obtain full used pushed where c: "collect_stream (ls_chunks st) ([], 0, []) = (full, used, pushed)"
    by (metis prod.exhaust)
  with collect_stream_full [of "ls_chunks st" "[]" 0 "[]"] collect_stream_pushed [of "ls_chunks st" "[]" 0 "[]"]
  have "full = stream_text st" "pushed = filter (\<lambda>t. t \<noteq> []) (map chunk_text (ls_chunks st))" "used = stream_usage st"
    by (simp_all add: stream_text_def stream_usage_def)
  with assms c l show ?thesis
    by (auto simp: llm_generate_node_def answer_stream_def Let_def)
qed

lemma llm_node_error:
  assumes "answer_stream env s = Inl e"
  shows "llm_generate_node env s w = (llm_failed s, w)"
  using assms by (simp add: llm_generate_node_def answer_stream_def)

text \<open>A request that was let in, to the end, by what its stream yields.\<close>

lemma generator_ran:
  assumes "check_limit (pl_tenant p) ''messages'' 1 period (ch_billing ch) = (Inr (True, why), b)" and "e_queue env"
  shows "sr_items (event_generator env period p (Inr True) d None ch) =
      map deliver (cs_items (consume_stream d (run_turn env p (stored_state ch (pl_thread p)) (ch_world ch)))) @ [SseDone]"
    and "ch_billing (sr_chat (event_generator env period p (Inr True) d None ch)) =
      (let n = cs_tokens (consume_stream d (run_turn env p (stored_state ch (pl_thread p)) (ch_world ch))) in
       if n > 0 then snd (billing_record_usage (pl_tenant p) n 1 period b) else b)"
proof -
  have env: "env\<lparr>e_queue := True\<rparr> = env" using assms(2) by (cases env) simp
  have st: "stored_state (ch\<lparr>ch_billing := b\<rparr>) th = stored_state ch th" for th by (simp add: stored_state_def)
  show "sr_items (event_generator env period p (Inr True) d None ch) =
      map deliver (cs_items (consume_stream d (run_turn env p (stored_state ch (pl_thread p)) (ch_world ch)))) @ [SseDone]"
    and "ch_billing (sr_chat (event_generator env period p (Inr True) d None ch)) =
      (let n = cs_tokens (consume_stream d (run_turn env p (stored_state ch (pl_thread p)) (ch_world ch))) in
       if n > 0 then snd (billing_record_usage (pl_tenant p) n 1 period b) else b)"
    using assms(1) by (simp_all add: event_generator_def Let_def env st)
qed

lemma model_turn:
  assumes "reaches_model env p s w s3 w3" and "clean (start_state p s)" and "e_cache env = None"
    and "llm_generate_node env s3 (w3\<lparr>w_pushed := []\<rparr>) = (s4, w4)"
  shows "cs_items (consume_stream d (run_turn env p s w)) = map Token (w_pushed w4) @
      (if rejected_answer env s3 (llm_response s4) then [Json CORRECTION_MESSAGE, Json CORRECTION_MESSAGE] else [])"
    and "cs_tokens (consume_stream d (run_turn env p s w)) = tokens_used s4"
proof -
  obtain s1 where "preprocess_node env (start_state p s) = Inr s1"
    "route_decision (router_node (e_settings env) (e_acompletion env) s1) = ToRag"
    "rag_engine_node env (router_node (e_settings env) (e_acompletion env) s1) (w\<lparr>w_pushed := []\<rparr>) = (Inr s3, w3)"
    using assms(1) by (auto simp: reaches_model_def Let_def split: sum.splits)
  from first_rag_items [OF assms(2,3) this assms(4), of d]
  show "cs_items (consume_stream d (run_turn env p s w)) = map Token (w_pushed w4) @
      (if rejected_answer env s3 (llm_response s4) then [Json CORRECTION_MESSAGE, Json CORRECTION_MESSAGE] else [])"
    and "cs_tokens (consume_stream d (run_turn env p s w)) = tokens_used s4"
    by (simp_all add: run_turn_def rejected_answer_def)
qed


text \<open>
  Where no model answers at all, the apology the node prepares is never sent: the stream of the
  client is the end marker alone.
\<close>

theorem apology_never_sent:
  assumes limit: "check_limit (pl_tenant p) ''messages'' 1 period (ch_billing ch) = (Inr (True, why), b)"
    and new: "ch_threads ch (pl_thread p) = None" and env: "e_queue env" "e_cache env = None"
    and model: "reaches_model env p empty_state (ch_world ch) s3 w3"
    and st: "answer_stream env s3 = Inl e" and ok: "\<not> rejected_answer env s3 LLM_APOLOGY"
  shows "sr_items (event_generator env period p (Inr True) d None ch) = [SseDone]"
proof -
  note l = llm_node_error [OF st, of "w3\<lparr>w_pushed := []\<rparr>"]
  have s0: "stored_state ch (pl_thread p) = empty_state" using new by (simp add: stored_state_def)
  show ?thesis
    using ok unfolding generator_ran [OF limit env(1)] s0 model_turn [OF model clean_start env(2) l]
    by (simp add: llm_failed_def)
qed

section \<open>Runs of the generator\<close>

definition demo_asked :: agent_state where
  "demo_asked = no_answer (router_node (e_settings demo_env) (e_acompletion demo_env) (start_state empty_payload empty_state))"

lemma demo_reaches:
  "reaches_model (demo_env\<lparr>e_acompletion := ac\<rparr>) empty_payload empty_state demo_world
     ((start_state empty_payload empty_state)\<lparr>user_intent := Some ''no_answer''\<rparr>) demo_world"
  by (simp add: reaches_model_def demo_defs demo_env_def demo_world_def empty_state_def Let_def)

lemma demo_same: "demo_env\<lparr>e_acompletion := e_acompletion demo_env\<rparr> = demo_env"
  by simp

lemma demo_flags: "e_queue (demo_env\<lparr>e_acompletion := ac\<rparr>)" "e_cache (demo_env\<lparr>e_acompletion := ac\<rparr>) = None"
  by (simp_all add: demo_env_def)

lemma demo_world_of_chat: "ch_world demo_chat = demo_world"
  by (simp add: demo_chat_def)

lemma demo_reaches_chat:
  "reaches_model (demo_env\<lparr>e_acompletion := ac\<rparr>) empty_payload empty_state (ch_world demo_chat)
     ((start_state empty_payload empty_state)\<lparr>user_intent := Some ''no_answer''\<rparr>) demo_world"
  unfolding demo_world_of_chat by (rule demo_reaches)

lemma demo_allowed: "check_limit (pl_tenant empty_payload) ''messages'' 1 period (ch_billing demo_chat) = (Inr (True, NoPlan), demo_billing)"
  by (simp add: empty_payload_def demo_chat_def demo_limit)


lemma apology_never_sent_witness:
  "sr_items (event_generator (demo_env\<lparr>e_acompletion := \<lambda>_ _. None\<rparr>) ''2026-01'' empty_payload (Inr True) True None demo_chat) = [SseDone]"
  by (rule apology_never_sent [OF demo_allowed _ demo_flags demo_reaches_chat, where e = ConnectionError])
    (simp_all add: demo_chat_def answer_stream_def stream_chat_completion_def Let_def
      rejected_answer_def start_state_def empty_state_def)

section \<open>Later turns\<close>

lemma consume_keeps_items: "\<exists>xs. cs_items (consume_updates d us c) = cs_items c @ xs"
proof (induction us arbitrary: c)
  case (Cons u us)
  have "\<exists>xs. cs_items (consume_update d u c) = cs_items c @ xs" unfolding consume_items by blast
  moreover obtain ys where "cs_items (consume_updates d us (consume_update d u c)) = cs_items (consume_update d u c) @ ys"
    using Cons.IH by blast
  ultimately show ?case by auto
qed simp

lemma consume_stream_items:
  "\<exists>ys. cs_items (consume_stream d r) = cs_items (consume_updates d (tr_updates r) new_consumer) @ ys"
  unfolding consume_stream_def Let_def by simp

lemma replay_first:
  assumes limit: "check_limit (pl_tenant p) ''messages'' 1 period (ch_billing ch) = (Inr (True, why), b)"
    and old: "ch_threads ch (pl_thread p) = Some s0" "llm_response s0 \<noteq> []"
    and pre: "preprocess_node env (start_state p s0) = Inr s1" and env: "e_queue env"
  shows "\<exists>rest. sr_items (event_generator env period p (Inr True) d None ch) = SseContent (llm_response s0) # rest"
proof -
  have s1: "llm_response s1 = llm_response s0" using preprocess_frame [OF pre] by auto
  let ?r = "run_turn env p s0 (ch_world ch)"
  obtain us where us: "tr_updates ?r = \<lparr>up_node = Preprocess, up_state = s1, up_pushed = []\<rparr> # us"
    by (simp add: run_turn_def run_graph.simps [of env Preprocess] exec_node_def pre next_node_def Let_def)
  have "cs_items (consume_update d \<lparr>up_node = Preprocess, up_state = s1, up_pushed = []\<rparr> new_consumer)
      = Json (llm_response s0) # corrections s1"
    using old(2) s1 by (simp add: consume_items replayed_def new_consumer_def)
  then obtain xs where "cs_items (consume_updates d (tr_updates ?r) new_consumer) = Json (llm_response s0) # xs"
    using consume_keeps_items [of d us "consume_update d \<lparr>up_node = Preprocess, up_state = s1, up_pushed = []\<rparr> new_consumer"]
    unfolding us by auto
  then obtain ys where "cs_items (consume_stream d ?r) = Json (llm_response s0) # ys"
    using consume_stream_items [of d ?r] by auto
  then show ?thesis
    unfolding generator_ran(1) [OF limit env] using old(1) by (simp add: stored_state_def deliver_def)
qed

text \<open> 
  The state of a thread keeps the last response, and the first node's update carries it: a later turn
  starts by sending the previous answer again.  Nothing about it asks whose thread it is: the answer
  of one tenant's turn goes to any tenant that names the thread.
\<close>

theorem previous_answer_replayed:
  assumes limit: "check_limit (pl_tenant p) ''messages'' 1 period (ch_billing ch) = (Inr (True, why), b)"
    and old: "ch_threads ch (pl_thread p) = Some s0" "llm_response s0 \<noteq> []"
    and pre: "preprocess_node env (start_state p s0) = Inr s1" and env: "e_queue env"
  shows "\<exists>rest. sr_items (event_generator env period p (Inr True) d None ch) = SseContent (llm_response s0) # rest"
  using assms by (rule replay_first)

lemma previous_answer_replayed_witness:
  "\<exists>rest. sr_items (event_generator demo_env ''2026-01'' empty_payload (Inr True) True None
     (demo_chat\<lparr>ch_threads := [uuid2 \<mapsto> empty_state\<lparr>tenant_id := uuid3, llm_response := [72, 105]\<rparr>]\<rparr>))
     = SseContent [72, 105] # rest"
  using previous_answer_replayed [of empty_payload "''2026-01''" "demo_chat\<lparr>ch_threads := [uuid2 \<mapsto> empty_state\<lparr>tenant_id := uuid3, llm_response := [72, 105]\<rparr>]\<rparr>"
      NoPlan demo_billing "empty_state\<lparr>tenant_id := uuid3, llm_response := [72, 105]\<rparr>" demo_env _ True]
  by (simp add: demo_chat_def demo_limit empty_payload_def preprocess_node_def start_state_def SUMMARIZE_THRESHOLD_def
      demo_env_def)

section \<open>Who pays\<close>

lemma exec_tokens:
  assumes "n \<noteq> LlmGenerate" and ex: "exec_node env n s w = (Inr s', w')"
  shows "tokens_used s' = tokens_used s"
proof (cases n)
  case Preprocess
  with ex preprocess_frame [of env s s'] show ?thesis by (auto simp: exec_node_def)
next
  case Routing
  obtain i h where "router_node (e_settings env) (e_acompletion env) s = s\<lparr>user_intent := i, hitl_requested := h\<rparr>"
    using router_frame by blast
  with Routing ex have "s' = s\<lparr>user_intent := i, hitl_requested := h\<rparr>" by (simp add: exec_node_def)
  then show ?thesis by simp
next
  case RagEngine
  with ex rag_frame [of env s w s' w'] show ?thesis by (auto simp: exec_node_def)
qed (use assms in \<open>auto simp: exec_node_def tool_executor_node_def guardrails_node_def postprocess_node_def
       hitl_node_def Let_def split: prod.splits\<close>)

text \<open>A turn that is handed over by the router leaves the token count as it found it.\<close>

lemma hand_over_turn:
  assumes "preprocess_node env s = Inr s1"
    and "route_decision (router_node (e_settings env) (e_acompletion env) s1) = ToHitl"
  shows "map up_node (tr_updates (run_graph env Preprocess s w)) = [Preprocess, Routing, HandOver] \<and>
    (\<forall>u \<in> set (tr_updates (run_graph env Preprocess s w)). tokens_used (up_state u) = tokens_used s)"
proof -
  let ?s2 = "router_node (e_settings env) (e_acompletion env) s1"
  have "tokens_used s1 = tokens_used s" using preprocess_frame [OF assms(1)] by auto
  moreover have "tokens_used ?s2 = tokens_used s1"
    using exec_tokens [of Routing env s1 undefined ?s2] by (simp add: exec_node_def)
  ultimately show ?thesis
    using assms by (simp add: run_graph.simps exec_node_def next_node_def hitl_node_def)
qed

lemma consume_tokens: "cs_tokens (consume_update d u c) = count_tokens (up_state u) (cs_tokens c)"
  by (cases c) (simp add: consume_update_def count_tokens_def Let_def split: option.split)

lemma consume_tokens_const:
  "\<forall>u \<in> set us. tokens_used (up_state u) = n \<Longrightarrow> us \<noteq> [] \<Longrightarrow> n \<noteq> 0 \<Longrightarrow> cs_tokens (consume_updates d us c) = n"
proof (induction us arbitrary: c)
  case (Cons u us)
  then show ?case by (cases us) (auto simp: consume_tokens count_tokens_def)
qed simp

lemma consume_tokens_zero:
  "\<forall>u \<in> set us. tokens_used (up_state u) = 0 \<Longrightarrow> cs_tokens (consume_updates d us c) = cs_tokens c"
  by (induction us arbitrary: c) (auto simp: consume_tokens count_tokens_def)

lemma consume_stream_tokens: "cs_tokens (consume_stream d r) = cs_tokens (consume_updates d (tr_updates r) new_consumer)"
  by (simp add: consume_stream_def Let_def)

text \<open> 
  A turn the router hands over calls no model for an answer, yet it bills the tokens of the thread's
  last answer once more.
\<close>

theorem hand_over_billed_again:
  assumes limit: "check_limit (pl_tenant p) ''messages'' 1 period (ch_billing ch) = (Inr (True, why), b)"
    and old: "ch_threads ch (pl_thread p) = Some s0" "tokens_used s0 > 0" and env: "e_queue env"
    and pre: "preprocess_node env (start_state p s0) = Inr s1"
    and route: "route_decision (router_node (e_settings env) (e_acompletion env) s1) = ToHitl"
  shows "ch_billing (sr_chat (event_generator env period p (Inr True) d None ch)) =
    snd (billing_record_usage (pl_tenant p) (tokens_used s0) 1 period b)"
proof -
  let ?r = "run_turn env p s0 (ch_world ch)"
  have "tokens_used (start_state p s0) = tokens_used s0" by (simp add: start_state_def)
  with hand_over_turn [OF pre route, of "ch_world ch"]
  have "\<forall>u \<in> set (tr_updates ?r). tokens_used (up_state u) = tokens_used s0" "tr_updates ?r \<noteq> []"
    by (auto simp: run_turn_def)
  with consume_tokens_const [of "tr_updates ?r" "tokens_used s0" d new_consumer] old(2)
  have "cs_tokens (consume_stream d ?r) = tokens_used s0" by (simp add: consume_stream_tokens)
  with old show ?thesis
    unfolding generator_ran(2) [OF limit env] by (simp add: stored_state_def)
qed

definition demo_old_chat :: chat_state where
  "demo_old_chat = demo_chat\<lparr>ch_threads := [uuid2 \<mapsto> empty_state\<lparr>hitl_requested := True, tokens_used := 7\<rparr>]\<rparr>"

lemma hand_over_billed_again_witness:
  "ch_billing (sr_chat (event_generator demo_env ''2026-01'' empty_payload (Inr True) True None demo_old_chat)) =
    snd (billing_record_usage uuid1 7 1 ''2026-01'' demo_billing)"
  using hand_over_billed_again [of empty_payload "''2026-01''" demo_old_chat NoPlan demo_billing
      "empty_state\<lparr>hitl_requested := True, tokens_used := 7\<rparr>" demo_env _ True]
  by (simp add: demo_old_chat_def demo_chat_def demo_limit empty_payload_def preprocess_node_def start_state_def
      SUMMARIZE_THRESHOLD_def demo_env_def router_node_def route_decision_def starts_with_def)

text \<open>
  A client that goes away when it has the last token, before the model's update reaches the consumer,
  has the whole answer and is billed nothing.
\<close>

theorem full_answer_unbilled:
  assumes limit: "check_limit (pl_tenant p) ''messages'' 1 period (ch_billing ch) = (Inr (True, why), b)"
    and new: "ch_threads ch (pl_thread p) = None" and env: "e_queue env" "e_cache env = None"
    and model: "reaches_model env p empty_state (ch_world ch) s3 w3"
    and st: "answer_stream env s3 = Inr st" "\<not> ls_raises st"
  shows "\<exists>j. concat (map item_text (sr_items (event_generator env period p (Inr True) d (Some (3, j)) ch))) = stream_text st \<and>
    ch_billing (sr_chat (event_generator env period p (Inr True) d (Some (3, j)) ch)) = b"
proof -
  have envq: "env\<lparr>e_queue := True\<rparr> = env" using env(1) by (cases env) simp
  have s0: "stored_state (ch\<lparr>ch_billing := b\<rparr>) (pl_thread p) = empty_state" using new by (simp add: stored_state_def)
  obtain s1 where pre: "preprocess_node env (start_state p empty_state) = Inr s1"
    and route: "route_decision (router_node (e_settings env) (e_acompletion env) s1) = ToRag"
    and rag: "rag_engine_node env (router_node (e_settings env) (e_acompletion env) s1) ((ch_world ch)\<lparr>w_pushed := []\<rparr>) = (Inr s3, w3)"
    using model by (auto simp: reaches_model_def Let_def split: sum.splits)
  obtain s4 w4 where l: "llm_generate_node env s3 (w3\<lparr>w_pushed := []\<rparr>) = (s4, w4)"
    and w4: "w_pushed w4 = filter (\<lambda>t. t \<noteq> []) (map chunk_text (ls_chunks st))"
    using llm_node_ok [OF st env(1), of "w3\<lparr>w_pushed := []\<rparr>"] by auto
  let ?r = "run_graph env Preprocess (start_state p empty_state) (ch_world ch)"
  let ?us = "[\<lparr>up_node = Preprocess, up_state = s1, up_pushed = []\<rparr>,
       \<lparr>up_node = Routing, up_state = router_node (e_settings env) (e_acompletion env) s1, up_pushed = []\<rparr>,
       \<lparr>up_node = RagEngine, up_state = s3, up_pushed = []\<rparr>]"
  obtain vs where vs: "tr_updates ?r = ?us @ \<lparr>up_node = LlmGenerate, up_state = s4, up_pushed = w_pushed w4\<rparr> # vs"
    using rag_turn [OF pre route rag l] by auto
  have c1: "clean s1" using clean_preprocess [OF pre] by simp
  then have c2: "clean (router_node (e_settings env) (e_acompletion env) s1)" by (simp add: clean_router)
  with rag_response [OF rag env(2)] have c3: "clean s3" by (simp add: clean_def)
  from c1 c2 c3 have none: "consume_updates d ?us new_consumer = new_consumer" by (simp add: clean_update)
  let ?items = "map (deliver \<circ> Token) (w_pushed w4)"
  have seen: "sr_items (event_generator env period p (Inr True) d (Some (3, length (w_pushed w4))) ch) = ?items"
    "ch_billing (sr_chat (event_generator env period p (Inr True) d (Some (3, length (w_pushed w4))) ch)) = b"
    using limit none by (simp_all add: event_generator_def Let_def envq s0 run_turn_def vs new_consumer_def)
  have "map (item_text \<circ> (deliver \<circ> Token)) ts = ts" for ts
    by (induction ts) (simp_all add: item_text_token)
  then have "concat (map item_text ?items) = stream_text st"
    by (simp add: w4 stream_text_def concat_filter_nonempty)
  with seen show ?thesis by metis
qed

lemma full_answer_unbilled_witness:
  "\<exists>j. concat (map item_text (sr_items (event_generator demo_env ''2026-01'' empty_payload (Inr True) True (Some (3, j)) demo_chat)))
       = [111, 107] \<and>
     ch_billing (sr_chat (event_generator demo_env ''2026-01'' empty_payload (Inr True) True (Some (3, j)) demo_chat)) = demo_billing"
proof -
  let ?s3 = "(start_state empty_payload empty_state)\<lparr>user_intent := Some ''no_answer''\<rparr>"
  have st: "answer_stream demo_env ?s3 = Inr (demo_stream [111, 107] 7)" "\<not> ls_raises (demo_stream [111, 107] 7)"
    by (simp_all add: answer_stream_def stream_chat_completion_def demo_env_def demo_stream_def Let_def)
  have "stream_text (demo_stream [111, 107] 7) = [111, 107]"
    by (simp add: stream_text_def demo_stream_def chunk_text_def)
  moreover have new: "ch_threads demo_chat (pl_thread empty_payload) = None" by (simp add: demo_chat_def)
  ultimately show ?thesis
    using full_answer_unbilled [OF demo_allowed new _ _ demo_reaches_chat [of "e_acompletion demo_env", unfolded demo_same] st, of "''2026-01''" True]
      demo_flags [of "e_acompletion demo_env", unfolded demo_same]
    by simp
qed

lemma thread_history_any_tenant_witness:
  "get_thread_history (\<lambda>_. None) (Some uuid3) None True uuid2 fb_demo demo_old_chat =
     get_thread_history (\<lambda>_. None) (Some uuid1) None True uuid2 fb_demo demo_old_chat"
  using thread_history_any_tenant [of demo_old_chat uuid2] by (simp add: demo_old_chat_def)

end
