(* ===== verification/TokenQueue.thy ===== *)
theory TokenQueue
  imports ChatSse
begin

text \<open>
  How concurrent requests of one process share the token queue.  \<open>_consume_stream\<close> of
  \<^verbatim>\<open>chat_service/routes/chat.py\<close> hangs its queue on the function \<open>stream_chat_completion\<close>, one
  attribute for the whole process, and removes it when its turn ends; the answering node of
  \<^verbatim>\<open>llm_generate.py\<close> reads the attribute when it starts and puts its tokens there.  A request is a
  number; an event is what one request does between two suspension points.
\<close>

datatype phase =
    Waiting                       \<comment> \<open>not started\<close>
  | Streaming                     \<comment> \<open>in \<open>_consume_stream\<close>, outside the answering node\<close>
  | Generating "nat option"       \<comment> \<open>in the answering node, with the queue it read\<close>
  | Ended

record tq_state =
  tq_attr :: "nat option"                \<comment> \<open>\<open>stream_chat_completion._token_queue\<close>, by its request\<close>
  tq_phase :: "nat \<Rightarrow> phase"
  tq_queue :: "nat \<Rightarrow> (nat \<times> ucs) list" \<comment> \<open>a request's queue: tokens with the request they answer\<close>

datatype tq_event = Begin nat | ReadQueue nat | PushToken nat ucs | EndNode nat | Finish nat

definition set_phase :: "nat \<Rightarrow> phase \<Rightarrow> tq_state \<Rightarrow> tq_state" where
  "set_phase i ph s = s\<lparr>tq_phase := (tq_phase s)(i := ph)\<rparr>"

text \<open>One event, \<open>None\<close> where the request is not in a phase to do it.\<close>

fun tq_exec :: "tq_event \<Rightarrow> tq_state \<Rightarrow> tq_state option" where
  "tq_exec (Begin i) s =
     (if tq_phase s i = Waiting then Some (set_phase i Streaming (s\<lparr>tq_attr := Some i\<rparr>)) else None)"
| "tq_exec (ReadQueue i) s =
     (if tq_phase s i = Streaming then Some (set_phase i (Generating (tq_attr s)) s) else None)"
| "tq_exec (PushToken i t) s =
     (case tq_phase s i of
        Generating (Some q) \<Rightarrow> Some (s\<lparr>tq_queue := (tq_queue s)(q := tq_queue s q @ [(i, t)])\<rparr>)
      | Generating None \<Rightarrow> Some s
      | _ \<Rightarrow> None)"
| "tq_exec (EndNode i) s =
     (case tq_phase s i of Generating q \<Rightarrow> Some (set_phase i Streaming s) | _ \<Rightarrow> None)"
| "tq_exec (Finish i) s =
     (if tq_phase s i = Streaming then Some (set_phase i Ended (s\<lparr>tq_attr := None\<rparr>)) else None)"

fun tq_run :: "tq_event list \<Rightarrow> tq_state \<Rightarrow> tq_state option" where
  "tq_run [] s = Some s"
| "tq_run (e # es) s = (case tq_exec e s of None \<Rightarrow> None | Some t \<Rightarrow> tq_run es t)"

definition tq_start :: tq_state where
  "tq_start = \<lparr>tq_attr = None, tq_phase = (\<lambda>_. Waiting), tq_queue = (\<lambda>_. [])\<rparr>"

definition idle :: "phase \<Rightarrow> bool" where
  "idle ph \<longleftrightarrow> ph = Waiting \<or> ph = Ended"

text \<open>The runs in which no request begins while another one is under way.\<close>

inductive tq_serial_step :: "tq_state \<Rightarrow> tq_state \<Rightarrow> bool" where
  serial: "tq_exec e s = Some t \<Longrightarrow> (\<And>i. e = Begin i \<Longrightarrow> \<forall>j. idle (tq_phase s j)) \<Longrightarrow> tq_serial_step s t"

inductive_cases tq_serial_step_cases: "tq_serial_step s t"

section \<open>Serial requests keep their tokens\<close>

text \<open>Every token is in its own request's queue, and the one active request holds the attribute.\<close>

definition own_tokens :: "tq_state \<Rightarrow> bool" where
  "own_tokens s \<longleftrightarrow> (\<forall>q. fst ` set (tq_queue s q) \<subseteq> {q})"

definition one_owner :: "tq_state \<Rightarrow> bool" where
  "one_owner s \<longleftrightarrow>
     (\<forall>i. tq_phase s i = Streaming \<longrightarrow> tq_attr s = Some i) \<and>
     (\<forall>i q. tq_phase s i = Generating q \<longrightarrow> q = Some i \<and> tq_attr s = Some i)"

lemma one_owner_unique: "one_owner s \<Longrightarrow> \<not> idle (tq_phase s i) \<Longrightarrow> tq_attr s = Some i"
  by (cases "tq_phase s i") (auto simp: one_owner_def idle_def)

lemma one_owner_others:
  assumes "one_owner s" and "tq_attr s = Some i" and "j \<noteq> i"
  shows "idle (tq_phase s j)"
  using one_owner_unique [OF assms(1), of j] assms(2,3) by auto

lemma one_owner_step:
  assumes inv: "one_owner s" and ex: "tq_exec e s = Some t"
    and serial: "\<And>i. e = Begin i \<Longrightarrow> \<forall>j. idle (tq_phase s j)"
  shows "one_owner t"
proof (cases e)
  case (Begin i)
  with serial have i: "idle (tq_phase s j)" for j by blast
  have "tq_phase s j \<noteq> Streaming" "tq_phase s j \<noteq> Generating q" for j q using i [of j] by (auto simp: idle_def)
  with Begin ex show ?thesis by (auto simp: one_owner_def set_phase_def split: if_splits)
next
  case (Finish i)
  with ex have i: "tq_phase s i = Streaming" and t: "t = set_phase i Ended (s\<lparr>tq_attr := None\<rparr>)"
    by (auto split: if_splits)
  with inv have "tq_attr s = Some i" by (simp add: one_owner_def)
  with one_owner_others [OF inv] have o: "j \<noteq> i \<Longrightarrow> idle (tq_phase s j)" for j by blast
  have "tq_phase t j \<noteq> Streaming" "tq_phase t j \<noteq> Generating q" for j q
    using o [of j] by (auto simp: t set_phase_def idle_def)
  then show ?thesis by (simp add: one_owner_def)
next
  case (PushToken i x)
  with ex have "tq_phase t = tq_phase s" "tq_attr t = tq_attr s" by (auto split: phase.splits option.splits)
  with inv show ?thesis by (simp add: one_owner_def)
next
  case (EndNode i)
  with ex obtain q where q: "tq_phase s i = Generating q" and t: "t = set_phase i Streaming s" by (auto split: phase.splits)
  from inv q have "tq_attr s = Some i" unfolding one_owner_def by blast
  with inv show ?thesis unfolding t one_owner_def set_phase_def by simp
next
  case (ReadQueue i)
  with inv ex show ?thesis by (auto simp: one_owner_def set_phase_def split: if_splits)
qed

lemma other_events_queue:
  "tq_exec e s = Some t \<Longrightarrow> \<forall>i x. e \<noteq> PushToken i x \<Longrightarrow> tq_queue t = tq_queue s"
  by (cases e) (auto simp: set_phase_def split: if_splits phase.splits)

lemma own_tokens_step:
  assumes "one_owner s" and "own_tokens s" and ex: "tq_exec e s = Some t"
  shows "own_tokens t"
proof (cases "\<exists>i x. e = PushToken i x")
  case True
  then obtain i x where e: "e = PushToken i x" by blast
  with ex obtain q where q: "tq_phase s i = Generating q"
    and t: "t = (case q of None \<Rightarrow> s | Some j \<Rightarrow> s\<lparr>tq_queue := (tq_queue s)(j := tq_queue s j @ [(i, x)])\<rparr>)"
    by (auto split: phase.splits option.splits)
  from assms(1) q have "q = Some i" by (auto simp: one_owner_def)
  with assms(2) t show ?thesis by (simp add: own_tokens_def)
next
  case False
  with other_events_queue [OF ex] assms(2) show ?thesis by (simp add: own_tokens_def)
qed

interpretation serial: invariant_system "\<lambda>s. s = tq_start" tq_serial_step "\<lambda>s. one_owner s \<and> own_tokens s"
proof
  show "one_owner s \<and> own_tokens s" if "s = tq_start" for s
    using that by (simp add: tq_start_def one_owner_def own_tokens_def)
  show "one_owner t \<and> own_tokens t" if "one_owner s \<and> own_tokens s" "tq_serial_step s t" for s t
    using that by (auto elim!: tq_serial_step_cases intro: one_owner_step own_tokens_step)
qed

text \<open>C8: requests of a process that never overlap: every client gets tokens of its own answer only.\<close>

theorem serial_requests_isolated:
  assumes "reach (\<lambda>s. s = tq_start) tq_serial_step s" and "(i, t) \<in> set (tq_queue s q)"
  shows "i = q"
  using serial.reach_inv [OF assms(1)] assms(2) by (force simp: own_tokens_def)

definition tq_one :: tq_state where
  "tq_one = the (tq_run [Begin 1, ReadQueue 1, PushToken 1 [65]] tq_start)"

lemma tq_one_reached: "reach (\<lambda>s. s = tq_start) tq_serial_step tq_one"
proof -
  let ?s1 = "the (tq_exec (Begin 1) tq_start)"
  let ?s2 = "the (tq_exec (ReadQueue 1) ?s1)"
  have "tq_serial_step tq_start ?s1"
    by (rule tq_serial_step.serial [of "Begin 1"]) (simp_all add: tq_start_def idle_def)
  moreover have "tq_serial_step ?s1 ?s2"
    by (rule tq_serial_step.serial [of "ReadQueue 1"]) (simp_all add: tq_start_def set_phase_def)
  moreover have "tq_serial_step ?s2 tq_one"
    by (rule tq_serial_step.serial [of "PushToken 1 [65]"]) (simp_all add: tq_one_def tq_start_def set_phase_def)
  moreover have "reach (\<lambda>s. s = tq_start) tq_serial_step tq_start" by (rule reach_init) (rule refl)
  ultimately show ?thesis by (blast intro: reach_step)
qed

lemma serial_requests_isolated_witness: "fst ` set (tq_queue tq_one 1) \<subseteq> {1}"
  using serial_requests_isolated [OF tq_one_reached] by auto

section \<open>Overlapping requests lose theirs\<close>

text \<open>The tokens a request pushes, those of its tokens a queue holds, and the attribute after a run.\<close>

fun pushed :: "nat \<Rightarrow> tq_event list \<Rightarrow> ucs list" where
  "pushed i [] = []"
| "pushed i (PushToken j t # es) = (if j = i then t # pushed i es else pushed i es)"
| "pushed i (_ # es) = pushed i es"

definition queued_for :: "nat \<Rightarrow> (nat \<times> ucs) list \<Rightarrow> ucs list" where
  "queued_for i q = map snd (filter (\<lambda>(j, t). j = i) q)"

fun last_writer :: "nat option \<Rightarrow> tq_event list \<Rightarrow> nat option" where
  "last_writer a [] = a"
| "last_writer a (Begin j # es) = last_writer (Some j) es"
| "last_writer a (Finish j # es) = last_writer None es"
| "last_writer a (_ # es) = last_writer a es"

lemma tq_run_append: "tq_run (es @ es') s = (case tq_run es s of None \<Rightarrow> None | Some t \<Rightarrow> tq_run es' t)"
  by (induction es arbitrary: s) (auto split: option.split)

lemma attr_after_run: "tq_run es s = Some t \<Longrightarrow> tq_attr t = last_writer (tq_attr s) es"
proof (induction es arbitrary: s)
  case (Cons e es)
  then show ?case
    by (cases e) (auto simp: set_phase_def split: option.splits if_splits phase.splits)
qed simp

text \<open>Once a request has read the attribute, its tokens go to the queue it read, until it reads again.\<close>

lemma queued_for_run:
  assumes "tq_run es s = Some t" and "ReadQueue i \<notin> set es" and "tq_phase s i \<in> {Generating a, Streaming, Ended}"
  shows "queued_for i (tq_queue t q) = queued_for i (tq_queue s q) @ (if a = Some q then pushed i es else [])"
  using assms
proof (induction es arbitrary: s)
  case (Cons e es)
  then obtain u where u: "tq_exec e s = Some u" "tq_run es u = Some t" by (auto split: option.splits)
  have ph: "tq_phase u i \<in> {Generating a, Streaming, Ended}"
    using u(1) Cons.prems(2,3) by (cases e) (auto simp: set_phase_def split: if_splits phase.splits option.splits)
  have "queued_for i (tq_queue u q) @ (if a = Some q then pushed i es else []) =
      queued_for i (tq_queue s q) @ (if a = Some q then pushed i (e # es) else [])"
    using u(1) Cons.prems(3)
    by (cases e) (auto simp: set_phase_def queued_for_def split: if_splits phase.splits option.splits)
  with Cons.IH [OF u(2) _ ph] Cons.prems(2) show ?case by simp
qed simp

text \<open>C2: the attribute belongs to the process, whatever the lock, which is per thread.  The tokens of a
  request's answer go, all of them and in their order, to the queue of the request that was the last to
  begin before it read the attribute, when no request has finished since, and to no queue otherwise:
  when another request begins in between, its client gets the answer.\<close>

theorem tokens_follow_last_begin:
  assumes "tq_run es1 tq_start = Some s1" and "tq_run (ReadQueue i # es2) s1 = Some s" and "ReadQueue i \<notin> set es2"
  shows "queued_for i (tq_queue s q) =
    queued_for i (tq_queue s1 q) @ (if last_writer None es1 = Some q then pushed i es2 else [])"
proof -
  have attr: "tq_attr s1 = last_writer None es1" using attr_after_run [OF assms(1)] by (simp add: tq_start_def)
  obtain u where u: "tq_exec (ReadQueue i) s1 = Some u" "tq_run es2 u = Some s"
    using assms(2) by (cases "tq_exec (ReadQueue i) s1") simp_all
  then have "tq_phase u i = Generating (last_writer None es1)" "tq_queue u = tq_queue s1"
    using attr by (auto simp: set_phase_def split: if_splits)
  with queued_for_run [OF u(2) assms(3), of "last_writer None es1" q] show ?thesis by simp
qed

definition tq_two :: tq_state where
  "tq_two = the (tq_run [Begin 1, Begin 2] tq_start)"

definition tq_crossed :: tq_state where
  "tq_crossed = the (tq_run [ReadQueue 1, ReadQueue 2, PushToken 1 [65], PushToken 2 [66], PushToken 1 [67]] tq_two)"

lemma tq_two_run: "tq_run [Begin 1, Begin 2] tq_start = Some tq_two" "tq_queue tq_two q = []"
  by (simp_all add: tq_two_def tq_start_def set_phase_def)

lemma tq_crossed_run:
  "tq_run (ReadQueue 1 # [ReadQueue 2, PushToken 1 [65], PushToken 2 [66], PushToken 1 [67]]) tq_two = Some tq_crossed"
  by (simp add: tq_crossed_def tq_two_def tq_start_def set_phase_def)

lemma tokens_follow_last_begin_witness:
  "queued_for 1 (tq_queue tq_crossed 1) = [] \<and> queued_for 1 (tq_queue tq_crossed 2) = [[65], [67]]"
  using tokens_follow_last_begin [OF tq_two_run(1) tq_crossed_run, of 1]
    tokens_follow_last_begin [OF tq_two_run(1) tq_crossed_run, of 2]
  by (simp add: tq_two_run(2) queued_for_def)

text \<open>
  So of two requests where the second begins before the first reads the attribute, the first one's
  client gets nothing and the second one's the whole answer.
\<close>

theorem overlapping_requests_leak:
  assumes "i \<noteq> j"
  shows "\<exists>s. tq_run ([Begin i, Begin j, ReadQueue i] @ map (PushToken i) ts) tq_start = Some s \<and>
    tq_queue s j = map (Pair i) ts \<and> tq_queue s i = []"
proof -
  define s0 where "s0 = the (tq_run [Begin i, Begin j, ReadQueue i] tq_start)"
  have s0: "tq_run [Begin i, Begin j, ReadQueue i] tq_start = Some s0" "tq_phase s0 i = Generating (Some j)"
    "tq_queue s0 j = []" "tq_queue s0 i = []"
    using assms by (simp_all add: s0_def tq_start_def set_phase_def)
  have push: "tq_phase s i = Generating (Some j) \<Longrightarrow> tq_run (map (PushToken i) ts) s =
      Some (s\<lparr>tq_queue := (tq_queue s)(j := tq_queue s j @ map (Pair i) ts)\<rparr>)" for s
    by (induction ts arbitrary: s) auto
  from push [OF s0(2)] s0 assms show ?thesis unfolding tq_run_append by simp
qed

lemma overlapping_requests_leak_witness:
  "\<exists>s. tq_run [Begin 1, Begin 2, ReadQueue 1, PushToken 1 [65]] tq_start = Some s \<and> tq_queue s 2 = [(1, [65])]"
  using overlapping_requests_leak [of 1 2 "[[65]]"] by (simp del: tq_run.simps tq_exec.simps) blast

text \<open> 
  If the second one ends before the first reads the attribute, the first one's tokens go nowhere, and
  since its update comes from the answering node, the whole answer is not sent as a fallback either.
\<close>

theorem finished_request_silences:
  assumes "i \<noteq> j"
  shows "\<exists>s. tq_run ([Begin i, Begin j, Finish j, ReadQueue i] @ map (PushToken i) ts) tq_start = Some s \<and>
    (\<forall>q. tq_queue s q = []) \<and>
    (up_node u = LlmGenerate \<longrightarrow> up_pushed u = [] \<longrightarrow> correction_message (up_state u) = None \<longrightarrow>
       cs_items (consume_update d u c) = cs_items c)"
proof -
  define s0 where "s0 = the (tq_run [Begin i, Begin j, Finish j, ReadQueue i] tq_start)"
  have s0: "tq_run [Begin i, Begin j, Finish j, ReadQueue i] tq_start = Some s0" "tq_phase s0 i = Generating None"
    "\<forall>q. tq_queue s0 q = []"
    using assms by (simp_all add: s0_def tq_start_def set_phase_def)
  have push: "tq_phase s i = Generating None \<Longrightarrow> tq_run (map (PushToken i) ts) s = Some s" for s
    by (induction ts) auto
  show ?thesis unfolding tq_run_append s0(1) using s0(3) push [OF s0(2)]
    by (simp add: consume_items replayed_def corrections_def)
qed

lemma finished_request_silences_witness:
  "\<exists>s. tq_run [Begin 1, Begin 2, Finish 2, ReadQueue 1, PushToken 1 [65]] tq_start = Some s \<and> tq_queue s 1 = []"
  using finished_request_silences [of 1 2 "[[65]]"] by (simp del: tq_run.simps tq_exec.simps) blast

end
