(* ===== verification/Chunker.thy ===== *)
theory Chunker
  imports PyStd "HOL-Library.Sublist"
begin

text \<open>
  The text splitter of \<^verbatim>\<open>knowledge_pipeline/chunker.py\<close>.  Texts are lists of code points and the sizes
  are Python integers, so slices follow Python's rules for negative bounds.  The last resort,
  \<open>_fixed_size_split\<close>, is a loop that need not end: \<open>None\<close> is a call that never returns.
\<close>

section \<open>Definitions\<close>

definition slice_bound :: "nat \<Rightarrow> int \<Rightarrow> nat" where
  "slice_bound n i = nat (if i < 0 then max 0 (i + int n) else min i (int n))"

definition py_slice :: "int \<Rightarrow> int \<Rightarrow> 'a list \<Rightarrow> 'a list" where \<comment> \<open>\<open>s[i:j]\<close>\<close>
  "py_slice i j s = take (slice_bound (length s) j - slice_bound (length s) i) (drop (slice_bound (length s) i) s)"

definition DEFAULT_CHUNK_SIZE :: int where "DEFAULT_CHUNK_SIZE = 512"
definition DEFAULT_CHUNK_OVERLAP :: int where "DEFAULT_CHUNK_OVERLAP = 64"

definition SEPARATORS :: "ucs list" where
  "SEPARATORS = [[10, 10], [10], [0x3002], [0xff01], [0xff1f], [46], [33], [63], [32], []]"

text \<open>The pieces of the fixed-size loop from \<open>start\<close> on.\<close>

partial_function (option) fixed_from :: "ucs \<Rightarrow> int \<Rightarrow> int \<Rightarrow> int \<Rightarrow> ucs list option" where
  "fixed_from t sz ov start =
     (if start < int (length t)
      then let stop = start + sz; piece = py_slice start stop t; again = stop - ov in
        if again \<ge> int (length t) then Some [piece]
        else Option.bind (fixed_from t sz ov again) (\<lambda>rest. Some (piece # rest))
      else Some [])"

definition fixed_size_split :: "int \<Rightarrow> int \<Rightarrow> ucs \<Rightarrow> ucs list option" where
  "fixed_size_split sz ov t = map_option (filter (\<lambda>c. strip c \<noteq> [])) (fixed_from t sz ov 0)"

definition pending_chunk :: "ucs \<Rightarrow> ucs list" where
  "pending_chunk cur = (if cur = [] then [] else [cur])"

text \<open>
  The loop over the parts between separators, with the chunk being filled; \<open>deeper\<close> splits a part
  that is too long by the remaining separators.
\<close>

fun pack :: "(ucs \<Rightarrow> ucs list option) \<Rightarrow> int \<Rightarrow> ucs \<Rightarrow> ucs list \<Rightarrow> ucs \<Rightarrow> ucs list option" where
  "pack deeper sz sep [] cur = Some (pending_chunk cur)"
| "pack deeper sz sep (p # ps) cur =
     (let candidate = (if cur = [] then p else cur @ sep @ p) in
      if int (length candidate) \<le> sz then pack deeper sz sep ps candidate
      else if int (length p) > sz
      then Option.bind (deeper p) (\<lambda>inner.
             Option.bind (pack deeper sz sep ps cur) (\<lambda>rest. Some (pending_chunk cur @ inner @ rest)))
      else Option.bind (pack deeper sz sep ps p) (\<lambda>rest. Some (pending_chunk cur @ rest)))"

fun recursive_split :: "int \<Rightarrow> int \<Rightarrow> ucs list \<Rightarrow> ucs \<Rightarrow> ucs list option" where
  "recursive_split sz ov [] t =
     (if int (length t) \<le> sz then Some (if strip t = [] then [] else [t])
      else fixed_size_split sz ov t)"
| "recursive_split sz ov (sep # seps) t =
     (if int (length t) \<le> sz then Some (if strip t = [] then [] else [t])
      else if sep = [] then fixed_size_split sz ov t
      else if sub_in sep t then pack (recursive_split sz ov seps) sz sep (py_split sep t) []
      else recursive_split sz ov seps t)"

definition split_text :: "int \<Rightarrow> int \<Rightarrow> ucs \<Rightarrow> ucs list option" where
  "split_text sz ov t =
     (if strip t = [] then Some []
      else map_option (\<lambda>chunks.
        let chunks = (if chunks = [] then [py_slice 0 sz (strip t)] else chunks);
            clean = map strip (filter (\<lambda>c. strip c \<noteq> []) chunks)
        in if clean = [] then [py_slice 0 sz (strip t)] else clean)
        (recursive_split sz ov SEPARATORS (strip t)))"

section \<open>The fixed-size loop\<close>

lemma slice_bound_le [simp]: "slice_bound n i \<le> n"
  by (auto simp: slice_bound_def)

lemma slice_nonneg: "0 \<le> i \<Longrightarrow> 0 \<le> j \<Longrightarrow> py_slice i j s = take (nat j - nat i) (drop (nat i) s)"
  by (cases "nat i \<le> length s") (auto simp: py_slice_def slice_bound_def min_def)

lemma fixed_from_stuck:
  assumes "fixed_from t sz ov start = Some r"
  shows "start < int (length t) \<longrightarrow> ov < sz"
  using assms
proof (induction t sz ov start r rule: fixed_from.raw_induct [rotated, consumes 1, case_names step])
  case (step rec t sz ov start r)
  show ?case
  proof (rule impI, rule ccontr)
    assume s: "start < int (length t)" and n: "\<not> ov < sz"
    with step(2) obtain rest where "rec t sz ov (start + sz - ov) = Some rest"
      by (auto simp: Let_def bind_eq_Some_conv split: if_splits)
    from step(1) [OF this] s n show False by simp
  qed
qed

lemma fixed_from_returns: "ov < sz \<Longrightarrow> \<exists>r. fixed_from t sz ov start = Some r"
proof (induction "nat (int (length t) - start)" arbitrary: start rule: less_induct)
  case less
  show ?case
  proof (cases "start < int (length t) \<and> start + sz - ov < int (length t)")
    case True
    with less.prems less.hyps [of "start + sz - ov"]
    obtain r where "fixed_from t sz ov (start + sz - ov) = Some r" by auto
    with True show ?thesis by (subst fixed_from.simps) (simp add: Let_def)
  next
    case False
    then show ?thesis by (subst fixed_from.simps) (auto simp: Let_def)
  qed
qed

text \<open> 
  The fixed-size loop ends if and only if the overlap is below the chunk size, or there is nothing to
  split.
\<close>

theorem fixed_size_split_returns: "fixed_size_split sz ov t \<noteq> None \<longleftrightarrow> t = [] \<or> ov < sz"
proof (cases "t = []")
  case True
  then show ?thesis by (simp add: fixed_size_split_def fixed_from.simps)
next
  case False
  then show ?thesis
    using fixed_from_stuck [of t sz ov 0] fixed_from_returns [of ov sz t 0] by (auto simp: fixed_size_split_def)
qed

lemma fixed_from_pieces:
  assumes "fixed_from t sz ov start = Some r" "0 \<le> start" "0 \<le> ov" "ov < sz"
  shows "(\<forall>c \<in> set r. length c \<le> nat sz) \<and> subseq (drop (nat start) t) (concat r)"
  using assms
proof (induction t sz ov start r rule: fixed_from.raw_induct [rotated, consumes 1, case_names step])
  case (step rec t sz ov start r)
  let ?p = "py_slice start (start + sz) t"
  have p: "?p = take (nat sz) (drop (nat start) t)"
    using step.prems by (simp add: slice_nonneg nat_add_distrib)
  then have len: "length ?p \<le> nat sz" by simp
  have parts: "drop (nat start) t = ?p @ drop (nat (start + sz)) t"
    using step.prems append_take_drop_id [of "nat sz" "drop (nat start) t"]
    by (simp add: p nat_add_distrib add.commute)
  show ?case
  proof (cases "start < int (length t)")
    case False
    with step(2) show ?thesis by auto
  next
    case in_text: True
    show ?thesis
    proof (cases "int (length t) \<le> start + sz - ov")
      case True
      with in_text step(2) have "r = [?p]" by (simp add: Let_def)
      moreover from True step.prems have "drop (nat (start + sz)) t = []" by simp
      ultimately show ?thesis using len parts by simp
    next
      case False
      with in_text step(2) obtain rest where rest: "rec t sz ov (start + sz - ov) = Some rest" and r: "r = ?p # rest"
        by (auto simp: Let_def bind_eq_Some_conv)
      have again: "0 \<le> start + sz - ov" using step.prems by simp
      from step(1) [OF rest again] step.prems
      have ih: "\<forall>c \<in> set rest. length c \<le> nat sz" "subseq (drop (nat (start + sz - ov)) t) (concat rest)" by auto
      have "drop (nat (start + sz)) t = drop (nat ov) (drop (nat (start + sz - ov)) t)"
        using again step.prems by (simp flip: nat_add_distrib)
      then have "subseq (drop (nat (start + sz)) t) (concat rest)"
        using subseq_order.trans [OF suffix_imp_subseq [OF suffix_drop] ih(2)] by simp
      with ih(1) len show ?thesis by (simp add: r parts list_emb_append_mono)
    qed
  qed
qed


section \<open>What a splitter promises\<close>

text \<open>The characters a splitter may not lose: all but whitespace and the separators.\<close>

definition kept :: "nat \<Rightarrow> bool" where
  "kept c \<longleftrightarrow> \<not> is_ws c \<and> c \<notin> set (concat SEPARATORS)"

definition keeps_text :: "ucs \<Rightarrow> ucs list \<Rightarrow> bool" where
  "keeps_text t chunks \<longleftrightarrow> subseq (filter kept t) (filter kept (concat chunks))"

lemma keeps_append: "keeps_text a xs \<Longrightarrow> keeps_text b ys \<Longrightarrow> keeps_text (a @ b) (xs @ ys)"
  by (simp add: keeps_text_def list_emb_append_mono)

lemma keeps_pending: "keeps_text cur (pending_chunk cur)"
  by (simp add: keeps_text_def pending_chunk_def)

lemma keeps_mono: "filter kept a = filter kept b \<Longrightarrow> keeps_text a xs \<Longrightarrow> keeps_text b xs"
  by (simp add: keeps_text_def)

lemma keeps_suffix: "keeps_text (a @ b) xs \<Longrightarrow> keeps_text b xs"
  unfolding keeps_text_def filter_append by (rule subseq_order.trans [rotated], assumption) (rule subseq_drop_many, rule subseq_order.order_refl)

lemma filter_strip: "filter kept (strip s) = filter kept s"
proof -
  obtain a b where s: "s = a @ strip s @ b" and ab: "\<forall>c \<in> set a \<union> set b. is_ws c"
    unfolding strip_def using strip_by_infix [of s is_ws] by (elim exE conjE)
  from ab have none: "filter kept a = []" "filter kept b = []" by (auto simp: kept_def filter_empty_conv)
  have "filter kept s = filter kept a @ filter kept (strip s) @ filter kept b"
    using arg_cong [OF s, of "filter kept"] by (simp only: filter_append)
  then show ?thesis by (simp only: none append_Nil append_Nil2)
qed

lemma filter_blank: "strip s = [] \<Longrightarrow> filter kept s = []"
  using filter_strip [of s] by simp

lemma keeps_filter: "keeps_text t chunks \<Longrightarrow> keeps_text t (filter (\<lambda>c. strip c \<noteq> []) chunks)"
proof -
  have "filter kept (concat (filter (\<lambda>c. strip c \<noteq> []) cs)) = filter kept (concat cs)" for cs
    by (induction cs) (auto simp: filter_blank)
  then show "keeps_text t chunks \<Longrightarrow> ?thesis" by (simp add: keeps_text_def)
qed

text \<open>A splitter returns, with chunks within its limit that lose no such character.\<close>

locale splitter =
  fixes split :: "ucs \<Rightarrow> ucs list option" and lim :: int
  assumes split_returns: "\<exists>chunks. split t = Some chunks"
    and split_bounded: "split t = Some chunks \<Longrightarrow> c \<in> set chunks \<Longrightarrow> int (length c) \<le> lim"
    and split_keeps: "split t = Some chunks \<Longrightarrow> keeps_text t chunks"
begin

lemma pack_returns: "\<exists>chunks. pack split lim sep ps cur = Some chunks"
proof (induction ps arbitrary: cur)
  case (Cons p ps)
  obtain inner where "split p = Some inner" using split_returns by blast
  with Cons [of cur] Cons [of "cur @ sep @ p"] Cons [of p] show ?case by (auto simp: Let_def)
qed simp

lemma pack_bounded:
  "pack split lim sep ps cur = Some chunks \<Longrightarrow> int (length cur) \<le> lim \<Longrightarrow> c \<in> set chunks \<Longrightarrow> int (length c) \<le> lim"
proof (induction ps arbitrary: cur chunks)
  case Nil
  then show ?case by (auto simp: pending_chunk_def split: if_splits)
next
  case (Cons p ps)
  have cur: "c \<in> set (pending_chunk cur) \<Longrightarrow> int (length c) \<le> lim"
    using Cons.prems(2) by (auto simp: pending_chunk_def split: if_splits)
  show ?case
    using Cons.prems(1,3) cur Cons.prems(2) Cons.IH split_bounded
    by (fastforce simp: Let_def bind_eq_Some_conv split: if_splits)
qed

lemma pack_keeps:
  assumes "\<And>c. c \<in> set sep \<Longrightarrow> \<not> kept c"
  shows "pack split lim sep ps cur = Some chunks \<Longrightarrow> keeps_text (cur @ concat ps) chunks"
proof (induction ps arbitrary: cur chunks)
  case Nil
  then show ?case using keeps_pending by auto
next
  case (Cons p ps)
  have sep: "filter kept sep = []" using assms by (auto simp: filter_empty_conv)
  let ?cand = "if cur = [] then p else cur @ sep @ p"
  consider (fits) "int (length ?cand) \<le> lim" | (long) "\<not> int (length ?cand) \<le> lim" "int (length p) > lim"
    | (next_one) "\<not> int (length ?cand) \<le> lim" "\<not> int (length p) > lim" by blast
  then show ?case
  proof cases
    case fits
    with Cons.prems have "pack split lim sep ps ?cand = Some chunks" by (simp add: Let_def)
    from Cons.IH [OF this] show ?thesis by (rule keeps_mono [rotated]) (simp add: sep)
  next
    case long
    with Cons.prems obtain inner rest where "split p = Some inner" "pack split lim sep ps cur = Some rest"
      and c: "chunks = pending_chunk cur @ inner @ rest"
      by (auto simp: Let_def bind_eq_Some_conv)
    then have "keeps_text p inner" "keeps_text (concat ps) rest"
      using split_keeps Cons.IH keeps_suffix by blast+
    then show ?thesis unfolding c concat.simps(2) by (intro keeps_append keeps_pending)
  next
    case next_one
    with Cons.prems obtain rest where "pack split lim sep ps p = Some rest" and c: "chunks = pending_chunk cur @ rest"
      by (auto simp: Let_def bind_eq_Some_conv)
    then show ?thesis unfolding c concat.simps(2) using Cons.IH by (intro keeps_append keeps_pending)
  qed
qed

end


section \<open>The splitters keep the promise\<close>

lemma fixed_splitter: "0 \<le> ov \<Longrightarrow> ov < sz \<Longrightarrow> splitter (fixed_size_split sz ov) sz"
proof
  fix t chunks c
  assume a: "0 \<le> ov" "ov < sz"
  show "\<exists>chunks. fixed_size_split sz ov t = Some chunks"
    using fixed_from_returns [OF a(2), of t 0] by (auto simp: fixed_size_split_def)
  assume "fixed_size_split sz ov t = Some chunks"
  then obtain r where r: "fixed_from t sz ov 0 = Some r" and c: "chunks = filter (\<lambda>c. strip c \<noteq> []) r"
    by (auto simp: fixed_size_split_def)
  from fixed_from_pieces [OF r _ a] have p: "\<forall>c \<in> set r. length c \<le> nat sz" "subseq t (concat r)" by simp_all
  show "c \<in> set chunks \<Longrightarrow> int (length c) \<le> sz" using p(1) a by (auto simp: c)
  have "keeps_text t r" using p(2) by (simp add: keeps_text_def subseq_filter)
  then show "keeps_text t chunks" unfolding c by (rule keeps_filter)
qed

lemma split_parts_kept:
  assumes "\<And>c. c \<in> set sep \<Longrightarrow> \<not> kept c"
  shows "filter kept (concat (py_split sep t)) = filter kept t"
proof -
  have "filter kept sep = []" using assms by (auto simp: filter_empty_conv)
  then have "filter kept (py_join sep ps) = filter kept (concat ps)" for ps
    by (induction sep ps rule: py_join.induct) auto
  from this [of "py_split sep t"] show ?thesis by (simp add: join_split)
qed

lemma short_splitter:
  assumes "splitter f sz"
  shows "splitter (\<lambda>t. if int (length t) \<le> sz then Some (if strip t = [] then [] else [t]) else f t) sz"
proof
  fix t chunks c
  let ?s = "if int (length t) \<le> sz then Some (if strip t = [] then [] else [t]) else f t"
  show "\<exists>chunks. ?s = Some chunks" using splitter.split_returns [OF assms] by auto
  assume "?s = Some chunks"
  then show "c \<in> set chunks \<Longrightarrow> int (length c) \<le> sz" "keeps_text t chunks"
    using splitter.split_bounded [OF assms] splitter.split_keeps [OF assms]
    by (auto simp: keeps_text_def filter_blank split: if_splits)
qed

lemma split_by_splitter:
  assumes d: "splitter deeper sz" and sep: "\<And>c. c \<in> set sep \<Longrightarrow> \<not> kept c" and sz: "0 \<le> sz"
  shows "splitter (\<lambda>t. if sub_in sep t then pack deeper sz sep (py_split sep t) [] else deeper t) sz"
proof
  fix t chunks c
  let ?s = "if sub_in sep t then pack deeper sz sep (py_split sep t) [] else deeper t"
  show "\<exists>chunks. ?s = Some chunks"
    using splitter.pack_returns [OF d] splitter.split_returns [OF d] by simp
  assume s: "?s = Some chunks"
  then show "c \<in> set chunks \<Longrightarrow> int (length c) \<le> sz"
    using splitter.split_bounded [OF d] splitter.pack_bounded [OF d] sz by (fastforce split: if_splits)
  have "pack deeper sz sep (py_split sep t) [] = Some chunks \<Longrightarrow> keeps_text t chunks"
    using splitter.pack_keeps [OF d sep] split_parts_kept [OF sep] by (metis append_Nil keeps_mono)
  with s show "keeps_text t chunks"
    using splitter.split_keeps [OF d] by (auto split: if_splits)
qed

lemma separators_not_kept: "sep \<in> set SEPARATORS \<Longrightarrow> c \<in> set sep \<Longrightarrow> \<not> kept c"
  by (auto simp: kept_def)

lemma recursive_splitter:
  assumes "0 \<le> ov" "ov < sz" "set seps \<subseteq> set SEPARATORS"
  shows "splitter (recursive_split sz ov seps) sz"
  using assms(3)
proof (induction seps)
  case Nil
  have "splitter (fixed_size_split sz ov) sz" using assms by (intro fixed_splitter)
  from short_splitter [OF this] show ?case by (simp add: fun_eq_iff [symmetric])
next
  case (Cons sep seps)
  have fixed: "splitter (fixed_size_split sz ov) sz" using assms by (intro fixed_splitter)
  from Cons have rest: "splitter (recursive_split sz ov seps) sz" and sep: "sep \<in> set SEPARATORS" by auto
  let ?f = "\<lambda>t. if sep = [] then fixed_size_split sz ov t
    else if sub_in sep t then pack (recursive_split sz ov seps) sz sep (py_split sep t) [] else recursive_split sz ov seps t"
  have "splitter ?f sz"
    using fixed split_by_splitter [OF rest separators_not_kept [OF sep]] assms by (cases "sep = []") simp_all
  from short_splitter [OF this] show ?case by simp
qed

interpretation chunking: splitter "recursive_split DEFAULT_CHUNK_SIZE DEFAULT_CHUNK_OVERLAP SEPARATORS" DEFAULT_CHUNK_SIZE
  by (rule recursive_splitter) (simp_all add: DEFAULT_CHUNK_SIZE_def DEFAULT_CHUNK_OVERLAP_def)

lemma split_text_bounds:
  assumes ov: "0 \<le> ov" "ov < sz" and ne: "strip t \<noteq> []"
  shows "\<exists>chunks. split_text sz ov t = Some chunks \<and> chunks \<noteq> [] \<and>
    (\<forall>c \<in> set chunks. c \<noteq> [] \<and> int (length c) \<le> sz) \<and> keeps_text t chunks"
proof -
  note sp = recursive_splitter [OF ov order_refl]
  let ?t = "strip t" let ?first = "py_slice 0 sz ?t"
  obtain cs where cs: "recursive_split sz ov SEPARATORS ?t = Some cs"
    using splitter.split_returns [OF sp] by blast
  have first: "?first \<noteq> []" "int (length ?first) \<le> sz"
    using ov ne by (simp_all add: slice_nonneg)
  define cs1 where "cs1 = (if cs = [] then [?first] else cs)"
  define clean where "clean = map strip (filter (\<lambda>c. strip c \<noteq> []) cs1)"
  have "keeps_text ?t cs" by (rule splitter.split_keeps [OF sp cs])
  then have k1: "keeps_text ?t cs1" by (auto simp: cs1_def keeps_text_def dest: list_emb_length)
  have "filter kept (concat clean) = filter kept (concat cs1)"
    unfolding clean_def by (induction cs1) (auto simp: filter_strip filter_blank)
  with k1 have keeps: "keeps_text ?t clean" by (simp add: keeps_text_def)
  have "int (length c) \<le> sz" if "c \<in> set cs1" for c
    using that splitter.split_bounded [OF sp cs] first by (auto simp: cs1_def split: if_splits)
  then have "int (length (strip c)) \<le> sz" if "c \<in> set cs1" for c
    using that length_strip_by [of is_ws c] by (fastforce simp: strip_def)
  then have bounded: "c \<noteq> [] \<and> int (length c) \<le> sz" if "c \<in> set clean" for c
    using that by (auto simp: clean_def)
  let ?out = "if clean = [] then [?first] else clean"
  have "split_text sz ov t = Some ?out"
    using ne cs by (simp add: split_text_def Let_def clean_def cs1_def)
  moreover have "\<forall>c \<in> set ?out. c \<noteq> [] \<and> int (length c) \<le> sz" using first bounded by simp
  moreover have "keeps_text t ?out"
    using keeps by (auto simp: keeps_text_def filter_strip dest: list_emb_length)
  ultimately show ?thesis by auto
qed

text \<open>C19:  
  With an overlap below the chunk size, splitting a text that is not blank always returns at least one
  chunk; every chunk is non-empty and at most the chunk size long, and the text without whitespace and separators is a subsequence of the chunks one after the other.
\<close>

theorem split_text_sound:
  assumes "0 \<le> ov" "ov < sz" "strip t \<noteq> []"
  shows "\<exists>chunks. split_text sz ov t = Some chunks \<and> chunks \<noteq> [] \<and>
    (\<forall>c \<in> set chunks. c \<noteq> [] \<and> int (length c) \<le> sz) \<and> keeps_text t chunks"
  using assms by (rule split_text_bounds)

lemma split_text_sound_witness:
  "\<exists>chunks. split_text 4 1 [104, 105, 32, 97, 98, 99, 100, 101] = Some chunks \<and> list_all (\<lambda>c. length c \<le> 4) chunks"
proof -
  have "strip [104, 105, 32, 97, 98, 99, 100, 101] \<noteq> []" by (simp add: strip_def strip_by_def is_ws_def)
  from split_text_sound [of 1 4, OF _ _ this]
  obtain chunks where "split_text 4 1 [104, 105, 32, 97, 98, 99, 100, 101] = Some chunks"
    "\<forall>c \<in> set chunks. c \<noteq> [] \<and> int (length c) \<le> 4" by auto
  then show ?thesis by (auto simp: list_all_iff)
qed

text \<open> 
  The loop does not empty the chunk being filled when a part is too long: the text before such a part
  is stored twice, once alone and once before the text after it.
\<close>

theorem long_part_repeats_text:
  assumes "a \<noteq> []" "int (length a) \<le> sz" "sz < int (length b)" "deeper b = Some inner"
    and "int (length (a @ sep @ c)) \<le> sz"
  shows "pack deeper sz sep [a, b, c] [] = Some ([a] @ inner @ [a @ sep @ c])"
  using assms by (simp add: Let_def pending_chunk_def)

lemma long_part_repeats_text_witness:
  "pack (fixed_size_split 3 0) 3 [10] [[97], [98, 98, 98, 98], [99]] [] = Some [[97], [98, 98, 98], [98], [97, 10, 99]]"
proof -
  have "fixed_from [98, 98, 98, 98] 3 0 0 = Some [[98, 98, 98], [98]]"
    by (subst fixed_from.simps, subst fixed_from.simps) (simp add: Let_def slice_nonneg)
  then have "fixed_size_split 3 0 [98, 98, 98, 98] = Some [[98, 98, 98], [98]]"
    by (simp add: fixed_size_split_def strip_def strip_by_def is_ws_def)
  from long_part_repeats_text [of "[97]" 3 "[98, 98, 98, 98]" "fixed_size_split 3 0", OF _ _ _ this, of "[10]" "[99]"]
  show ?thesis by simp
qed

end
