(* ===== verification/Knowledge.thy ===== *)
theory Knowledge
  imports Db Digest Chunker
begin

text \<open>
  The knowledge pipeline: the worker of \<^verbatim>\<open>knowledge_pipeline/worker.py\<close> with the parser of
  \<^verbatim>\<open>knowledge_pipeline/parser.py\<close>, and the admin routes of \<^verbatim>\<open>admin_service/routes/knowledge.py\<close>,
  over the table \<open>knowledge_docs\<close>, the Milvus collection \<open>knowledge_chunks\<close> and the local files.

  The worker is a machine that executes one statement or one external call per step, so that the
  routes may run between any two of them.  \<open>Dead\<close> is a worker whose loop an exception has left.
\<close>

section \<open>Tables\<close>

datatype doc_status = DocPending | DocProcessing | DocCompleted | DocFailed

datatype stage = Parsing nat | Chunking | Embedding nat | Storing | RetryStage nat nat

datatype doc_note = StageNote stage | FailureNote exn \<comment> \<open>the texts of \<open>error_msg\<close>\<close>

record kdoc =
  kd_id :: string     \<comment> \<open>the text of the UUID\<close>
  kd_tenant :: nat
  kd_filename :: ucs
  kd_path :: ucs
  kd_status :: doc_status
  kd_count :: "nat option"
  kd_note :: "doc_note option"
  kd_deleted :: "time option"
  kd_created :: time
  kd_updated :: time

record chunk_row =
  cv_id :: string
  cv_tenant :: string
  cv_doc :: string
  cv_text :: ucs
  cv_vector :: "rat list"
  cv_created :: time

record stored_file =
  sf_utf8 :: "ucs option" \<comment> \<open>its text as UTF-8, where it is UTF-8\<close>
  sf_latin1 :: ucs

record kb =
  kb_rls :: bool             \<comment> \<open>whether the role of the routes is subject to the policies\<close>
  kb_worker_rls :: bool      \<comment> \<open>whether the worker's role is\<close>
  kb_tenants :: "nat list"
  kb_docs :: "kdoc list"
  kb_chunks :: "chunk_row list"
  kb_files :: "(ucs \<times> stored_file) list"
  kb_cleanups :: "string list" \<comment> \<open>background tasks not yet run\<close>

text \<open>\<open>str(uuid)\<close>: 32 hexadecimal digits in groups of 8, 4, 4, 4 and 12.\<close>

definition uuid_str :: "nat \<Rightarrow> string" where
  "uuid_str n = (let h = map (\<lambda>i. hex_char (n div 16 ^ (31 - i) mod 16)) [0..<32] in
     take 8 h @ ''-'' @ take 4 (drop 8 h) @ ''-'' @ take 4 (drop 12 h) @ ''-'' @ take 4 (drop 16 h) @ ''-'' @ drop 20 h)"

definition same_uuid :: "string \<Rightarrow> kdoc \<Rightarrow> bool" where \<comment> \<open>\<open>WHERE id = $n\<close>\<close>
  "same_uuid d r \<longleftrightarrow> uuid_parse d = uuid_parse (kd_id r)"

section \<open>Parsing\<close>

text \<open>\<open>Path(p).suffix\<close>: from the last dot of the last component, unless that dot is its first or last character.\<close>

definition path_name :: "ucs \<Rightarrow> ucs" where
  "path_name p = (case rev (filter (\<lambda>c. c \<noteq> [] \<and> c \<noteq> [46]) (py_split [47] p)) of [] \<Rightarrow> [] | c # _ \<Rightarrow> c)"

definition path_suffix :: "ucs \<Rightarrow> ucs" where
  "path_suffix p = (let n = path_name p; ext = rev (takeWhile (\<lambda>c. c \<noteq> 46) (rev n)) in
     if ext = [] \<or> length n \<le> length ext + 1 then [] else 46 # ext)"

datatype docling_outcome = NotInstalled | ConvertTimeout | ConvertRaised | Markdown ucs

definition parse_text :: "stored_file option \<Rightarrow> exn + ucs" where
  "parse_text f = (case f of None \<Rightarrow> Inl OSError
     | Some f \<Rightarrow> let t = (case sf_utf8 f of Some t \<Rightarrow> t | None \<Rightarrow> sf_latin1 f)
                 in if strip t = [] then Inl ParseError else Inr t)"

definition parse_document :: "(stored_file option \<Rightarrow> docling_outcome) \<Rightarrow> ucs \<Rightarrow> (ucs \<times> stored_file) list \<Rightarrow> exn + ucs" where
  "parse_document docling path files =
     (let f = map_of files path in
      if map lower_ucs (path_suffix path) = ucs_of ''.txt'' then parse_text f
      else case docling f of
          Markdown t \<Rightarrow> if strip t = [] then Inl ParseError else Inr t
        | ConvertTimeout \<Rightarrow> Inl ParseError
        | ConvertRaised \<Rightarrow> Inl ParseError
        | NotInstalled \<Rightarrow> parse_text f)"

section \<open>The worker\<close>

definition update_status ::
  "string \<Rightarrow> doc_status \<Rightarrow> nat option \<Rightarrow> exn option \<Rightarrow> stage option \<Rightarrow> time \<Rightarrow> kb \<Rightarrow> kb" where
  "update_status d st cnt err stg now db = db\<lparr>kb_docs := sql_update (same_uuid d) (\<lambda>r.
     case cnt of Some n \<Rightarrow> r\<lparr>kd_status := st, kd_count := Some n, kd_note := None, kd_updated := now\<rparr>
     | None \<Rightarrow> (case err of Some e \<Rightarrow> r\<lparr>kd_status := st, kd_note := Some (FailureNote e), kd_updated := now\<rparr>
     | None \<Rightarrow> (case stg of Some s \<Rightarrow> r\<lparr>kd_status := st, kd_note := Some (StageNote s), kd_updated := now\<rparr>
     | None \<Rightarrow> r\<lparr>kd_status := st, kd_updated := now\<rparr>))) (kb_docs db)\<rparr>"

record job =
  jb_doc :: string
  jb_tenant :: string
  jb_path :: ucs
  jb_attempt :: nat

datatype job_phase =
    MarkParsing | DoParse | MarkChunking ucs | MarkEmbedding ucs | DoEmbed "ucs list"
  | MarkStoring "ucs list" "rat list list" | DoInsert "ucs list" "rat list list" | MarkCompleted "ucs list"
  | MarkRetry exn | MarkFailed exn

datatype worker = Idle | Working job job_phase | Dead exn

text \<open>What the outside answers to one step: whether its statement or call fails, and with what it succeeds.\<close>

record outside =
  x_fail :: "exn option"
  x_docling :: "stored_file option \<Rightarrow> docling_outcome"
  x_embed :: "ucs list \<Rightarrow> rat list list"
  x_id :: "nat \<Rightarrow> string" \<comment> \<open>the new identifiers\<close>
  x_now :: time

definition statement_fails :: "outside \<Rightarrow> kb \<Rightarrow> exn option" where
  "statement_fails x db = (if kb_worker_rls db \<and> kb_docs db \<noteq> [] then Some (DbExn UnsetParameter) else x_fail x)"

definition oldest_pending :: "kdoc list \<Rightarrow> kdoc option" where
  "oldest_pending docs = (case sort_key kd_created (sql_select (\<lambda>r. kd_status r = DocPending) docs) of
     [] \<Rightarrow> None | r # _ \<Rightarrow> Some r)"

definition MAX_ATTEMPTS :: nat where "MAX_ATTEMPTS = 3"

text \<open>An exception within an attempt, and a status statement with what follows it.\<close>

definition attempt_failed :: "job \<Rightarrow> exn \<Rightarrow> worker" where
  "attempt_failed j e = Working j (if jb_attempt j < MAX_ATTEMPTS then MarkRetry e else MarkFailed e)"

definition mark ::
  "outside \<Rightarrow> job \<Rightarrow> doc_status \<Rightarrow> nat option \<Rightarrow> stage option \<Rightarrow> job_phase option \<Rightarrow> kb \<Rightarrow> worker \<times> kb" where
  "mark x j st cnt stg ph db =
     (case statement_fails x db of
        Some e \<Rightarrow> (attempt_failed j e, db)
      | None \<Rightarrow> (case ph of None \<Rightarrow> Idle | Some p \<Rightarrow> Working j p,
                 update_status (jb_doc j) st cnt None stg (x_now x) db))"

definition chunk_rows :: "job \<Rightarrow> outside \<Rightarrow> ucs list \<Rightarrow> rat list list \<Rightarrow> chunk_row list" where
  "chunk_rows j x cs vecs = map (\<lambda>(i, c, v).
     \<lparr>cv_id = x_id x i, cv_tenant = jb_tenant j, cv_doc = jb_doc j, cv_text = c, cv_vector = v, cv_created = x_now x\<rparr>)
     (zip [0..<length cs] (zip cs vecs))"

fun job_step :: "outside \<Rightarrow> job \<Rightarrow> job_phase \<Rightarrow> kb \<Rightarrow> worker \<times> kb" where
  "job_step x j MarkParsing db = mark x j DocProcessing None (Some (Parsing (jb_attempt j))) (Some DoParse) db"
| "job_step x j DoParse db =
     (case parse_document (x_docling x) (jb_path j) (kb_files db) of
        Inl e \<Rightarrow> (attempt_failed j e, db) | Inr t \<Rightarrow> (Working j (MarkChunking t), db))"
| "job_step x j (MarkChunking t) db = mark x j DocProcessing None (Some Chunking) (Some (MarkEmbedding t)) db"
| "job_step x j (MarkEmbedding t) db =
     (case split_text DEFAULT_CHUNK_SIZE DEFAULT_CHUNK_OVERLAP t of
        None \<Rightarrow> (Working j (MarkEmbedding t), db) \<comment> \<open>the splitter does not return\<close>
      | Some cs \<Rightarrow> mark x j DocProcessing None (Some (Embedding (length cs))) (Some (DoEmbed cs)) db)"
| "job_step x j (DoEmbed cs) db =
     (case x_fail x of Some e \<Rightarrow> (attempt_failed j e, db) | None \<Rightarrow> (Working j (MarkStoring cs (x_embed x cs)), db))"
| "job_step x j (MarkStoring cs vs) db = mark x j DocProcessing None (Some Storing) (Some (DoInsert cs vs)) db"
| "job_step x j (DoInsert cs vs) db =
     (case x_fail x of Some e \<Rightarrow> (attempt_failed j e, db)
      | None \<Rightarrow> (Working j (MarkCompleted cs), db\<lparr>kb_chunks := kb_chunks db @ chunk_rows j x cs vs\<rparr>))"
| "job_step x j (MarkCompleted cs) db = mark x j DocCompleted (Some (length cs)) None None db"
| "job_step x j (MarkRetry e) db =
     (case statement_fails x db of Some e' \<Rightarrow> (Dead e', db)
      | None \<Rightarrow> (Working (j\<lparr>jb_attempt := jb_attempt j + 1\<rparr>) MarkParsing,
                 update_status (jb_doc j) DocProcessing None None
                   (Some (RetryStage (jb_attempt j) (2 ^ jb_attempt j))) (x_now x) db))"
| "job_step x j (MarkFailed e) db =
     (case statement_fails x db of Some e' \<Rightarrow> (Dead e', db)
      | None \<Rightarrow> (Idle, update_status (jb_doc j) DocFailed None (Some e) None (x_now x) db))"

definition poll :: "outside \<Rightarrow> kb \<Rightarrow> worker" where
  "poll x db = (case statement_fails x db of Some e \<Rightarrow> Dead e
     | None \<Rightarrow> (case oldest_pending (kb_docs db) of None \<Rightarrow> Idle
       | Some r \<Rightarrow> Working \<lparr>jb_doc = kd_id r, jb_tenant = uuid_str (kd_tenant r), jb_path = kd_path r, jb_attempt = 1\<rparr>
                     MarkParsing))"

fun work :: "outside \<Rightarrow> worker \<times> kb \<Rightarrow> worker \<times> kb" where
  "work x (Idle, db) = (poll x db, db)"
| "work x (Working j p, db) = job_step x j p db"
| "work x (Dead e, db) = (Dead e, db)"

section \<open>The admin routes\<close>

definition MAX_UPLOAD_SIZE :: nat where "MAX_UPLOAD_SIZE = 200 * 1024 * 1024"

definition local_path :: "string \<Rightarrow> string \<Rightarrow> ucs \<Rightarrow> ucs" where
  "local_path tid d filename = ucs_of ''/tmp/cuckoo-uploads/'' @ ucs_of tid @ ucs_of ''/docs/'' @ ucs_of d @ [47] @ filename"

definition object_path :: "string \<Rightarrow> string \<Rightarrow> ucs \<Rightarrow> ucs" where
  "object_path tid d filename = ucs_of tid @ ucs_of ''/docs/'' @ ucs_of d @ [47] @ filename"

text \<open>The row an upload inserts, and the files after it.\<close>

definition new_doc :: "string \<Rightarrow> nat \<Rightarrow> ucs \<Rightarrow> ucs \<Rightarrow> time \<Rightarrow> kdoc" where
  "new_doc d t filename path now =
     \<lparr>kd_id = d, kd_tenant = t, kd_filename = filename, kd_path = path, kd_status = DocPending, kd_count = None,
      kd_note = None, kd_deleted = None, kd_created = now, kd_updated = now\<rparr>"

definition upload_target :: "string \<Rightarrow> string \<Rightarrow> ucs \<Rightarrow> stored_file \<Rightarrow> bool option \<Rightarrow> (ucs \<times> stored_file) list
    \<Rightarrow> ucs \<times> (ucs \<times> stored_file) list" where
  "upload_target tid d filename file store files =
     (if store = Some True then (object_path tid d filename, files)
      else (local_path tid d filename, AList.update (local_path tid d filename) file files))"

text \<open>
  \<open>store\<close> is whether there is an object store and whether it takes the file; otherwise the file is
  written below \<^verbatim>\<open>/tmp\<close>, if \<open>disk\<close> lets it.  The INSERT runs outside any tenant context.
\<close>

definition upload_document ::
  "string \<Rightarrow> nat \<Rightarrow> ucs \<Rightarrow> stored_file \<Rightarrow> bool option \<Rightarrow> bool \<Rightarrow> string \<Rightarrow> time \<Rightarrow> kb \<Rightarrow> (exn + string) \<times> kb" where
  "upload_document tid len filename file store disk d now db0 =
     (if len > MAX_UPLOAD_SIZE then (Inl (HTTPException 413), db0)
      else if store \<noteq> Some True \<and> \<not> disk then (Inl OSError, db0)
      else let target = upload_target tid d filename file store (kb_files db0);
               db = db0\<lparr>kb_files := snd target\<rparr>
        in case uuid_parse tid of
          None \<Rightarrow> (Inl (DbExn BadArgument), db)
        | Some t \<Rightarrow>
            if kb_rls db then (Inl (DbExn UnsetParameter), db)
            else if \<exists>r \<in> set (kb_docs db). same_uuid d r then (Inl (DbExn UniqueViolation), db)
            else if t \<notin> set (kb_tenants db) then (Inl (DbExn ForeignKeyViolation), db)
            else (Inr d, db\<lparr>kb_docs := kb_docs db @ [new_doc d t filename (fst target) now]\<rparr>))"

definition list_documents :: "string \<Rightarrow> kb \<Rightarrow> (exn + kdoc list) \<times> kb" where
  "list_documents tid = tenant_db_context tid (\<lambda>t db.
     (Inr (take 100 (sort_desc kd_created (sql_select (\<lambda>r. kd_tenant r = t \<and> kd_deleted r = None) (kb_docs db)))), db))"

text \<open>A statement on one document of the caller's tenant context; \<open>d\<close> is the text of the request.\<close>

definition visible_doc :: "kb \<Rightarrow> nat \<Rightarrow> string \<Rightarrow> kdoc \<Rightarrow> bool" where
  "visible_doc db t d r \<longleftrightarrow> same_uuid d r \<and> rls_visible (kb_rls db) t (kd_tenant r)"

definition on_document :: "string \<Rightarrow> string \<Rightarrow> (nat \<Rightarrow> kb \<Rightarrow> (exn + 'a) \<times> kb) \<Rightarrow> kb \<Rightarrow> (exn + 'a) \<times> kb" where
  "on_document tid d stmt = tenant_db_context tid (\<lambda>t db.
     if uuid_parse d = None then (Inl (DbExn BadArgument), db) else stmt t db)"

definition get_document_progress :: "string \<Rightarrow> string \<Rightarrow> kb \<Rightarrow> (exn + (doc_status \<times> nat option \<times> doc_note option)) \<times> kb" where
  "get_document_progress tid d = on_document tid d (\<lambda>t db.
     case fetchrow (visible_doc db t d) (kb_docs db) of
       None \<Rightarrow> (Inl (HTTPException 404), db)
     | Some r \<Rightarrow> (Inr (kd_status r, kd_count r, kd_note r), db))"

definition delete_document :: "string \<Rightarrow> string \<Rightarrow> time \<Rightarrow> kb \<Rightarrow> (exn + unit) \<times> kb" where
  "delete_document tid d now db =
     (case on_document tid d (\<lambda>t db. (Inr (), db\<lparr>kb_docs := sql_update
         (\<lambda>r. visible_doc db t d r \<and> kd_deleted r = None) (\<lambda>r. r\<lparr>kd_deleted := Some now\<rparr>) (kb_docs db)\<rparr>)) db of
        (Inl e, db') \<Rightarrow> (Inl e, db')
      | (Inr u, db') \<Rightarrow> (Inr u, db'\<lparr>kb_cleanups := kb_cleanups db' @ [d]\<rparr>))"

definition retry_document :: "string \<Rightarrow> string \<Rightarrow> time \<Rightarrow> kb \<Rightarrow> (exn + unit) \<times> kb" where
  "retry_document tid d now = on_document tid d (\<lambda>t db. (Inr (), db\<lparr>kb_docs := sql_update (visible_doc db t d)
     (\<lambda>r. r\<lparr>kd_status := DocPending, kd_note := None, kd_updated := now\<rparr>) (kb_docs db)\<rparr>))"

text \<open>
  The background task of a deletion: \<open>tries\<close> tells for each attempt whether Milvus raises; at most
  three are made, with 1, 2 and 4 seconds of sleep after the failed ones.
\<close>

fun cleanup_tries :: "bool list \<Rightarrow> nat \<Rightarrow> nat \<Rightarrow> bool \<times> nat list" where
  "cleanup_tries tries attempt 0 = (False, [])"
| "cleanup_tries tries attempt (Suc n) =
     (case tries of [] \<Rightarrow> (True, [])
      | fails # rest \<Rightarrow> if \<not> fails then (True, [])
          else (case cleanup_tries rest (attempt + 1) n of (done, sleeps) \<Rightarrow> (done, 2 ^ attempt # sleeps)))"

definition cleanup_milvus_vectors :: "string \<Rightarrow> bool \<Rightarrow> bool list \<Rightarrow> kb \<Rightarrow> kb" where
  "cleanup_milvus_vectors d configured tries db =
     (if configured \<and> fst (cleanup_tries tries 0 3)
      then db\<lparr>kb_chunks := sql_delete (\<lambda>c. cv_doc c = d) (kb_chunks db)\<rparr> else db)"

text \<open>No migration creates the table of the gap routes.\<close>

definition list_knowledge_gaps :: "string \<Rightarrow> kb \<Rightarrow> exn + unit" where
  "list_knowledge_gaps tid db = Inl (DbExn (UndefinedTable ''knowledge_gaps''))"

definition dismiss_knowledge_gap :: "string \<Rightarrow> string \<Rightarrow> kb \<Rightarrow> exn + unit" where
  "dismiss_knowledge_gap gap tid db = Inl (DbExn (UndefinedTable ''knowledge_gaps''))"

section \<open>All together\<close>

text \<open>
  The worker and the routes, interleaved.  The embedding service answers with one vector per text and
  the converter does not make a document of a missing file, as they document; a new identifier is one
  that no request has named before.
\<close>

definition well_behaved :: "outside \<Rightarrow> bool" where
  "well_behaved x \<longleftrightarrow> (\<forall>cs. length (x_embed x cs) = length cs) \<and> (\<forall>t. x_docling x None \<noteq> Markdown t)"

definition kb_init :: "worker \<times> kb \<Rightarrow> bool" where
  "kb_init s \<longleftrightarrow> fst s = Idle \<and> kb_docs (snd s) = [] \<and> kb_chunks (snd s) = [] \<and> kb_files (snd s) = [] \<and>
     kb_cleanups (snd s) = []"

inductive kb_step :: "worker \<times> kb \<Rightarrow> worker \<times> kb \<Rightarrow> bool" where
  worker_step: "well_behaved x \<Longrightarrow> kb_step s (work x s)"
| upload_step: "uuid_parse d \<noteq> None \<Longrightarrow> d \<notin> set (kb_cleanups db) \<Longrightarrow>
    upload_document tid len filename file store disk d now db = (r, db') \<Longrightarrow> kb_step (w, db) (w, db')"
| delete_step: "delete_document tid d now db = (r, db') \<Longrightarrow> kb_step (w, db) (w, db')"
| retry_step: "retry_document tid d now db = (r, db') \<Longrightarrow> kb_step (w, db) (w, db')"
| cleanup_step: "kb_cleanups db = cs @ d # cs' \<Longrightarrow>
    kb_step (w, db) (w, cleanup_milvus_vectors d configured tries (db\<lparr>kb_cleanups := cs @ cs'\<rparr>))"

section \<open>Where documents and chunks come from\<close>

text \<open>What no operation changes of a document.\<close>

definition doc_key :: "kdoc \<Rightarrow> string \<times> nat \<times> ucs" where
  "doc_key r = (kd_id r, kd_tenant r, kd_path r)"

definition origin :: "kb \<Rightarrow> string \<Rightarrow> string \<Rightarrow> ucs \<Rightarrow> bool" where
  "origin db d ten path \<longleftrightarrow> (\<exists>r \<in> set (kb_docs db). kd_id r = d \<and> uuid_str (kd_tenant r) = ten \<and> kd_path r = path)"

lemma origin_keys: "origin db d ten path \<longleftrightarrow> (\<exists>(i, t, p) \<in> set (map doc_key (kb_docs db)). i = d \<and> uuid_str t = ten \<and> p = path)"
  by (auto simp: origin_def doc_key_def)

lemma update_status_keys [simp]:
  "map doc_key (kb_docs (update_status d st cnt err stg now db)) = map doc_key (kb_docs db)"
  unfolding update_status_def by (auto simp: sql_update_def doc_key_def split: option.splits)

lemma update_status_rest [simp]:
  "kb_chunks (update_status d st cnt err stg now db) = kb_chunks db"
  "kb_files (update_status d st cnt err stg now db) = kb_files db"
  "kb_cleanups (update_status d st cnt err stg now db) = kb_cleanups db"
  "kb_rls (update_status d st cnt err stg now db) = kb_rls db"
  "kb_worker_rls (update_status d st cnt err stg now db) = kb_worker_rls db"
  by (simp_all add: update_status_def)

definition fits :: "ucs \<Rightarrow> bool" where
  "fits c \<longleftrightarrow> c \<noteq> [] \<and> int (length c) \<le> DEFAULT_CHUNK_SIZE"

definition is_local :: "ucs \<Rightarrow> bool" where
  "is_local p \<longleftrightarrow> starts_with [47] p"

definition chunk_ok :: "kb \<Rightarrow> chunk_row \<Rightarrow> bool" where
  "chunk_ok db c \<longleftrightarrow> fits (cv_text c) \<and> (\<exists>path. is_local path \<and> origin db (cv_doc c) (cv_tenant c) path)"

definition stored_ok :: "kb \<Rightarrow> bool" where
  "stored_ok db \<longleftrightarrow> distinct (map (\<lambda>k. uuid_parse (fst k)) (map doc_key (kb_docs db)))
     \<and> (\<forall>k \<in> set (map doc_key (kb_docs db)). uuid_parse (fst k) \<noteq> None)
     \<and> (\<forall>c \<in> set (kb_chunks db). chunk_ok db c) \<and> (\<forall>f \<in> set (kb_files db). is_local (fst f))"

text \<open>Most operations only change what \<open>doc_key\<close> leaves out, or remove chunks.\<close>

locale doc_operation =
  fixes op :: "kb \<Rightarrow> kb"
  assumes op_keys: "map doc_key (kb_docs (op db)) = map doc_key (kb_docs db)"
    and op_chunks: "set (kb_chunks (op db)) \<subseteq> set (kb_chunks db)"
    and op_files: "kb_files (op db) = kb_files db"
begin

lemma origin_op: "origin (op db) d ten path = origin db d ten path"
  by (simp only: origin_keys op_keys)

lemma stored_op: "stored_ok db \<Longrightarrow> stored_ok (op db)"
  using op_chunks [of db] unfolding stored_ok_def chunk_ok_def op_keys op_files origin_op by blast

end

lemma on_document_cases:
  assumes "on_document tid d stmt db = (r, db')"
  obtains "db' = db" | t where "uuid_parse tid = Some t" "stmt t db = (r, db')"
proof -
  from assms consider "db' = db" | t where "uuid_parse tid = Some t" "uuid_parse d \<noteq> None" "stmt t db = (r, db')"
    by (auto simp: on_document_def tenant_db_context_def split: option.splits prod.splits sum.splits if_splits)
  then show thesis by cases (use that in auto)
qed

lemma sql_update_keys: "(\<And>r. doc_key (f r) = doc_key r) \<Longrightarrow> map doc_key (sql_update p f rs) = map doc_key rs"
  by (rule map_sql_update)

interpretation marking: doc_operation "update_status d st cnt err stg now" for d st cnt err stg now
  by unfold_locales simp_all

interpretation retrying: doc_operation "\<lambda>db. snd (retry_document tid d now db)" for tid d now
proof
  fix db
  obtain r db' where r: "retry_document tid d now db = (r, db')" by fastforce
  then show "map doc_key (kb_docs (snd (retry_document tid d now db))) = map doc_key (kb_docs db)"
    "set (kb_chunks (snd (retry_document tid d now db))) \<subseteq> set (kb_chunks db)"
    "kb_files (snd (retry_document tid d now db)) = kb_files db"
    by (auto simp: retry_document_def doc_key_def intro!: sql_update_keys elim!: on_document_cases)
qed

interpretation deleting: doc_operation "\<lambda>db. snd (delete_document tid d now db)" for tid d now
proof
  fix db
  obtain r db' where r: "delete_document tid d now db = (r, db')" by fastforce
  then show "map doc_key (kb_docs (snd (delete_document tid d now db))) = map doc_key (kb_docs db)"
    "set (kb_chunks (snd (delete_document tid d now db))) \<subseteq> set (kb_chunks db)"
    "kb_files (snd (delete_document tid d now db)) = kb_files db"
    by (auto simp: delete_document_def doc_key_def intro!: sql_update_keys elim!: on_document_cases split: prod.splits sum.splits)
qed

interpretation cleaning: doc_operation "cleanup_milvus_vectors d configured tries" for d configured tries
  by unfold_locales (auto simp: cleanup_milvus_vectors_def)

section \<open>The invariant of the pipeline\<close>

fun phase_ok :: "job \<Rightarrow> job_phase \<Rightarrow> bool" where
  "phase_ok j (MarkChunking t) = is_local (jb_path j)"
| "phase_ok j (MarkEmbedding t) = is_local (jb_path j)"
| "phase_ok j (DoEmbed cs) = (is_local (jb_path j) \<and> list_all fits cs)"
| "phase_ok j (MarkStoring cs vs) = (is_local (jb_path j) \<and> list_all fits cs \<and> length vs = length cs)"
| "phase_ok j (DoInsert cs vs) = (is_local (jb_path j) \<and> list_all fits cs \<and> length vs = length cs)"
| "phase_ok j (MarkCompleted cs) = is_local (jb_path j)"
| "phase_ok j p = True"

definition job_ok :: "kb \<Rightarrow> job \<Rightarrow> job_phase \<Rightarrow> bool" where
  "job_ok db j p \<longleftrightarrow> origin db (jb_doc j) (jb_tenant j) (jb_path j) \<and> phase_ok j p"

definition completed_ok :: "kb \<Rightarrow> bool" where
  "completed_ok db \<longleftrightarrow> (\<forall>r \<in> set (kb_docs db). kd_status r = DocCompleted \<longrightarrow> is_local (kd_path r))"

definition kb_inv :: "worker \<times> kb \<Rightarrow> bool" where
  "kb_inv s \<longleftrightarrow> stored_ok (snd s) \<and> completed_ok (snd s) \<and>
     (case fst s of Working j p \<Rightarrow> job_ok (snd s) j p | _ \<Rightarrow> True)"

lemma origin_unique:
  assumes "stored_ok db" "origin db d ten path" "r \<in> set (kb_docs db)" "same_uuid d r"
  shows "kd_id r = d \<and> uuid_str (kd_tenant r) = ten \<and> kd_path r = path"
proof -
  from assms(2) obtain r' where r': "r' \<in> set (kb_docs db)" "kd_id r' = d" "uuid_str (kd_tenant r') = ten" "kd_path r' = path"
    by (auto simp: origin_def)
  have "distinct (map (\<lambda>r. uuid_parse (kd_id r)) (kb_docs db))"
    using assms(1) by (simp add: stored_ok_def comp_def doc_key_def)
  moreover have "uuid_parse (kd_id r) = uuid_parse (kd_id r')" using assms(4) r' by (simp add: same_uuid_def)
  ultimately have "r = r'" using assms(3) r'(1) by (metis (no_types, lifting) eq_key_imp_eq_value distinct_map inj_onD)
  with r' show ?thesis by simp
qed

lemma update_status_row:
  assumes "r \<in> set (kb_docs (update_status d st cnt err stg now db))"
  obtains r0 where "r0 \<in> set (kb_docs db)" "doc_key r = doc_key r0" "kd_deleted r = kd_deleted r0"
    "if same_uuid d r0 then kd_status r = st \<and> (cnt = None \<or> kd_count r = cnt) else r = r0"
proof -
  from assms obtain r0 where r0: "r0 \<in> set (kb_docs db)"
    and r: "r = (if same_uuid d r0 then (case cnt of Some n \<Rightarrow> r0\<lparr>kd_status := st, kd_count := Some n, kd_note := None, kd_updated := now\<rparr>
       | None \<Rightarrow> (case err of Some e \<Rightarrow> r0\<lparr>kd_status := st, kd_note := Some (FailureNote e), kd_updated := now\<rparr>
       | None \<Rightarrow> (case stg of Some s \<Rightarrow> r0\<lparr>kd_status := st, kd_note := Some (StageNote s), kd_updated := now\<rparr>
       | None \<Rightarrow> r0\<lparr>kd_status := st, kd_updated := now\<rparr>))) else r0)"
    by (auto simp: update_status_def set_sql_update)
  show thesis
    by (rule that [OF r0]) (auto simp: r doc_key_def split: option.split)
qed

lemma update_status_completed:
  assumes "completed_ok db"
    and "st = DocCompleted \<Longrightarrow> stored_ok db \<and> (\<exists>ten path. origin db d ten path \<and> is_local path)"
  shows "completed_ok (update_status d st cnt err stg now db)"
  unfolding completed_ok_def
proof (intro ballI impI)
  fix r
  assume r: "r \<in> set (kb_docs (update_status d st cnt err stg now db))" and st: "kd_status r = DocCompleted"
  from r obtain r0 where r0: "r0 \<in> set (kb_docs db)" and key: "doc_key r = doc_key r0"
    and new: "if same_uuid d r0 then kd_status r = st \<and> (cnt = None \<or> kd_count r = cnt) else r = r0"
    by (rule update_status_row)
  from key have same: "kd_path r = kd_path r0" by (simp add: doc_key_def)
  show "is_local (kd_path r)"
  proof (cases "same_uuid d r0")
    case True
    with new st assms(2) obtain ten path where "stored_ok db" "origin db d ten path" "is_local path" by auto
    with origin_unique [OF _ _ r0 True] show ?thesis by (auto simp: same)
  next
    case False
    with new r0 st assms(1) show ?thesis by (auto simp: completed_ok_def)
  qed
qed

lemma mark_cases:
  assumes "mark x j st cnt stg ph db = (w, db')"
  obtains (failed) e where "w = attempt_failed j e" "db' = db"
  | (marked) "db' = update_status (jb_doc j) st cnt None stg (x_now x) db"
      "w = (case ph of None \<Rightarrow> Idle | Some p \<Rightarrow> Working j p)"
  using assms by (auto simp: mark_def split: option.splits)

lemma phase_ok_failed: "attempt_failed j e = Working j p \<Longrightarrow> phase_ok j p"
  by (auto simp: attempt_failed_def split: if_splits)

lemma inv_failed: "stored_ok db \<Longrightarrow> completed_ok db \<Longrightarrow> job_ok db j p \<Longrightarrow> kb_inv (attempt_failed j e, db)"
  by (auto simp: kb_inv_def job_ok_def attempt_failed_def)

lemma inv_marked:
  assumes "stored_ok db" "completed_ok db" "job_ok db j p" "phase_ok j p'"
    and st: "st = DocCompleted \<Longrightarrow> is_local (jb_path j)"
    and w: "w = Idle \<or> (\<exists>a. w = Working (j\<lparr>jb_attempt := a\<rparr>) p')"
  shows "kb_inv (w, update_status (jb_doc j) st cnt err stg now db)"
proof -
  have o: "origin db (jb_doc j) (jb_tenant j) (jb_path j)" using assms(3) by (simp add: job_ok_def)
  have "phase_ok (j\<lparr>jb_attempt := a\<rparr>) p'" for a using assms(4) by (cases p') auto
  moreover have "completed_ok (update_status (jb_doc j) st cnt err stg now db)"
    by (rule update_status_completed) (use assms o in auto)
  ultimately show ?thesis
    using w marking.stored_op [OF assms(1)] o by (auto simp: kb_inv_def job_ok_def marking.origin_op)
qed

lemma inv_mark:
  assumes "stored_ok db" "completed_ok db" "job_ok db j p" "mark x j st cnt stg ph db = (w, db')"
    and "st = DocCompleted \<Longrightarrow> is_local (jb_path j)" and "case ph of None \<Rightarrow> True | Some p' \<Rightarrow> phase_ok j p'"
  shows "kb_inv (w, db')"
  using assms(4)
proof (cases rule: mark_cases)
  case failed
  with inv_failed [OF assms(1-3)] show ?thesis by simp
next
  case marked
  have "w = Idle \<or> (\<exists>a. w = Working (j\<lparr>jb_attempt := a\<rparr>) (case ph of None \<Rightarrow> DoParse | Some p' \<Rightarrow> p'))"
    using marked(2) by (cases ph) (auto intro: exI [of _ "jb_attempt j"])
  from inv_marked [OF assms(1-3) _ assms(5) this] assms(6) show ?thesis
    unfolding marked(1) by (auto split: option.splits)
qed

lemma parsed_local:
  assumes "stored_ok db" "well_behaved x" "parse_document (x_docling x) path (kb_files db) = Inr t"
  shows "is_local path"
proof -
  have "map_of (kb_files db) path \<noteq> None"
  proof
    assume "map_of (kb_files db) path = None"
    with assms(2,3) show False
      by (auto simp: parse_document_def parse_text_def well_behaved_def Let_def split: if_splits docling_outcome.splits)
  qed
  then obtain f where "(path, f) \<in> set (kb_files db)" by (auto dest: map_of_SomeD)
  with assms(1) show ?thesis by (auto simp: stored_ok_def)
qed

lemma splits_fit: "split_text DEFAULT_CHUNK_SIZE DEFAULT_CHUNK_OVERLAP t = Some cs \<Longrightarrow> list_all fits cs"
proof (cases "strip t = []")
  case True
  then show "split_text DEFAULT_CHUNK_SIZE DEFAULT_CHUNK_OVERLAP t = Some cs \<Longrightarrow> ?thesis" by (simp add: split_text_def)
next
  case False
  have "0 \<le> DEFAULT_CHUNK_OVERLAP" "DEFAULT_CHUNK_OVERLAP < DEFAULT_CHUNK_SIZE"
    by (simp_all add: DEFAULT_CHUNK_OVERLAP_def DEFAULT_CHUNK_SIZE_def)
  from split_text_bounds [OF this False]
  show "split_text DEFAULT_CHUNK_SIZE DEFAULT_CHUNK_OVERLAP t = Some cs \<Longrightarrow> ?thesis" by (auto simp: list_all_iff fits_def)
qed

lemma set_chunk_rows:
  "r \<in> set (chunk_rows j x cs vs) \<Longrightarrow> cv_doc r = jb_doc j \<and> cv_tenant r = jb_tenant j \<and> cv_text r \<in> set cs"
  unfolding chunk_rows_def by (auto dest: set_zip_rightD set_zip_leftD dest!: set_zip_rightD [where ys = "zip cs vs"])

lemma inv_insert:
  assumes "stored_ok db" "completed_ok db" "job_ok db j (DoInsert cs vs)"
  shows "kb_inv (Working j (MarkCompleted cs), db\<lparr>kb_chunks := kb_chunks db @ chunk_rows j x cs vs\<rparr>)"
proof -
  let ?db = "db\<lparr>kb_chunks := kb_chunks db @ chunk_rows j x cs vs\<rparr>"
  have o: "origin ?db = origin db" by (simp add: origin_def fun_eq_iff)
  from assms(3) have j: "origin db (jb_doc j) (jb_tenant j) (jb_path j)" "is_local (jb_path j)" "list_all fits cs"
    by (simp_all add: job_ok_def)
  have "chunk_ok ?db r" if "r \<in> set (chunk_rows j x cs vs)" for r
    using set_chunk_rows [OF that] j by (auto simp: chunk_ok_def o list_all_iff)
  moreover have "chunk_ok ?db r" if "r \<in> set (kb_chunks db)" for r
    using assms(1) that by (simp add: stored_ok_def chunk_ok_def o)
  ultimately have "stored_ok ?db" using assms(1) by (auto simp: stored_ok_def)
  with assms(2) j show ?thesis by (simp add: kb_inv_def job_ok_def completed_ok_def o)
qed

lemma job_step_inv:
  assumes "stored_ok db" "completed_ok db" "job_ok db j p" "well_behaved x"
  shows "kb_inv (job_step x j p db)"
proof -
  note m = inv_mark [OF assms(1-3)] note f = inv_failed [OF assms(1-3)]
  have ph: "phase_ok j p" using assms(3) by (simp add: job_ok_def)
  obtain w db' where s: "job_step x j p db = (w, db')" by fastforce
  have "kb_inv (w, db')"
  proof (cases p)
    case DoParse
    with s assms f parsed_local [OF assms(1,4)] show ?thesis
      by (auto simp: kb_inv_def job_ok_def split: sum.splits)
  next
    case (MarkEmbedding t)
    show ?thesis
    proof (cases "split_text DEFAULT_CHUNK_SIZE DEFAULT_CHUNK_OVERLAP t")
      case None
      with MarkEmbedding s assms show ?thesis by (auto simp: kb_inv_def)
    next
      case (Some cs)
      with MarkEmbedding s ph show ?thesis by (auto intro!: m splits_fit)
    qed
  next
    case (DoEmbed cs)
    with s ph assms f show ?thesis by (auto simp: kb_inv_def job_ok_def well_behaved_def split: option.splits)
  next
    case (DoInsert cs vs)
    with s assms f inv_insert show ?thesis by (auto split: option.splits)
  next
    case (MarkRetry e)
    have "kb_inv (Working (j\<lparr>jb_attempt := a\<rparr>) MarkParsing, update_status (jb_doc j) DocProcessing cnt err stg now db)" for a cnt err stg now
      by (rule inv_marked [OF assms(1-3), of MarkParsing]) auto
    with MarkRetry s assms show ?thesis by (auto simp: kb_inv_def split: option.splits)
  next
    case (MarkFailed e)
    have "kb_inv (Idle, update_status (jb_doc j) DocFailed cnt err stg now db)" for cnt err stg now
      by (rule inv_marked [OF assms(1-3), of MarkParsing]) auto
    with MarkFailed s assms show ?thesis by (auto simp: kb_inv_def split: option.splits)
  qed (use s ph in \<open>auto intro!: m\<close>)
  with s show ?thesis by simp
qed

lemma work_inv: "kb_inv s \<Longrightarrow> well_behaved x \<Longrightarrow> kb_inv (work x s)"
proof -
  assume i: "kb_inv s" and x: "well_behaved x"
  obtain w db where s: "s = (w, db)" by fastforce
  show ?thesis
  proof (cases w)
    case Idle
    have "origin db (kd_id r) (uuid_str (kd_tenant r)) (kd_path r)" if "oldest_pending (kb_docs db) = Some r" for r
    proof -
      from that obtain rs where "sort_key kd_created (sql_select (\<lambda>r. kd_status r = DocPending) (kb_docs db)) = r # rs"
        by (auto simp: oldest_pending_def split: list.splits)
      from arg_cong [OF this, of set] have "r \<in> set (kb_docs db)" by auto
      then show ?thesis by (auto simp: origin_def)
    qed
    with i Idle s show ?thesis by (auto simp: kb_inv_def poll_def job_ok_def split: option.splits)
  next
    case (Working j p)
    with i s x job_step_inv show ?thesis by (auto simp: kb_inv_def)
  next
    case (Dead e)
    with i s show ?thesis by simp
  qed
qed

lemma inv_operation:
  assumes "doc_operation op" "kb_inv (w, db)" "completed_ok (op db)"
  shows "kb_inv (w, op db)"
  using assms(2,3) doc_operation.stored_op [OF assms(1)] doc_operation.origin_op [OF assms(1)]
  by (auto simp: kb_inv_def job_ok_def split: worker.splits)

lemma completed_same:
  assumes "completed_ok db" "kb_docs db' = sql_update P f (kb_docs db)"
    and "\<And>r. kd_path (f r) = kd_path r" "\<And>r. kd_status (f r) = DocCompleted \<Longrightarrow> kd_status r = DocCompleted"
  shows "completed_ok db'"
  using assms by (auto simp: completed_ok_def set_sql_update split: if_splits)

lemma retry_completed: "completed_ok db \<Longrightarrow> completed_ok (snd (retry_document tid d now db))"
proof -
  assume c: "completed_ok db"
  obtain r db' where r: "retry_document tid d now db = (r, db')" by fastforce
  from r [unfolded retry_document_def] show ?thesis
    by (cases rule: on_document_cases) (use c r in \<open>auto intro: completed_same [OF c]\<close>)
qed

lemma delete_completed: "completed_ok db \<Longrightarrow> completed_ok (snd (delete_document tid d now db))"
proof -
  assume c: "completed_ok db"
  obtain r db' where r: "on_document tid d (\<lambda>t db. (Inr (), db\<lparr>kb_docs := sql_update
         (\<lambda>r. visible_doc db t d r \<and> kd_deleted r = None) (\<lambda>r. r\<lparr>kd_deleted := Some now\<rparr>) (kb_docs db)\<rparr>)) db = (r, db')"
    by fastforce
  then have "completed_ok db'"
    by (cases rule: on_document_cases) (use c in \<open>auto intro: completed_same [OF c]\<close>)
  with r show ?thesis by (auto simp: delete_document_def completed_ok_def split: sum.splits)
qed

lemma upload_cases:
  assumes "upload_document tid len filename file store disk d now db = (r, db')"
  obtains (rejected) e where "r = Inl e" "db' = db \<or> db' = db\<lparr>kb_files := snd (upload_target tid d filename file store (kb_files db))\<rparr>"
  | (inserted) t where "r = Inr d" "uuid_parse tid = Some t" "\<not> (\<exists>r \<in> set (kb_docs db). same_uuid d r)" "\<not> kb_rls db"
      "db' = db\<lparr>kb_files := snd (upload_target tid d filename file store (kb_files db)),
                kb_docs := kb_docs db @ [new_doc d t filename (fst (upload_target tid d filename file store (kb_files db))) now]\<rparr>"
proof -
  let ?db = "db\<lparr>kb_files := snd (upload_target tid d filename file store (kb_files db))\<rparr>"
  note u = assms [unfolded upload_document_def Let_def]
  show thesis
  proof (cases r)
    case (Inl e)
    with u show thesis by (intro rejected) (auto split: if_splits option.splits)
  next
    case (Inr i)
    with u obtain t where "uuid_parse tid = Some t" by (auto split: if_splits option.splits)
    with Inr u inserted show thesis by (auto split: if_splits)
  qed
qed

lemma update_keys_ball:
  "P k \<Longrightarrow> \<forall>f \<in> set fs. P (fst f) \<Longrightarrow> \<forall>f \<in> set (AList.update k v fs). P (fst f)"
proof -
  assume k: "P k" and fs: "\<forall>f \<in> set fs. P (fst f)"
  have "\<forall>p \<in> fst ` set (AList.update k v fs). P p" using k fs by (auto simp: keys_update_subset)
  then show ?thesis by simp
qed

lemma local_path_local: "is_local (local_path tid d filename)"
  by (simp add: is_local_def starts_with_def local_path_def ucs_of_def)

lemma target_local:
  assumes "\<forall>f \<in> set files. is_local (fst f)"
  shows "\<forall>f \<in> set (snd (upload_target tid d filename file store files)). is_local (fst f)"
proof (cases "store = Some True")
  case False
  with update_keys_ball [where P = is_local, OF local_path_local assms] show ?thesis by (simp add: upload_target_def)
qed (use assms in \<open>simp add: upload_target_def\<close>)

lemma upload_stored:
  assumes "stored_ok db" "uuid_parse d \<noteq> None" "upload_document tid len filename file store disk d now db = (r, db')"
  shows "stored_ok db' \<and> (\<forall>i t p. origin db i t p \<longrightarrow> origin db' i t p)"
  using assms(3)
proof (cases rule: upload_cases)
  case rejected
  have "stored_ok (db\<lparr>kb_files := files\<rparr>)" if "\<forall>f \<in> set files. is_local (fst f)" for files
    using that assms(1) by (simp add: stored_ok_def chunk_ok_def origin_def)
  with rejected assms(1) target_local [of "kb_files db"] show ?thesis
    by (auto simp: origin_def) (auto simp: stored_ok_def)
next
  case (inserted t)
  have o: "origin db i t p \<Longrightarrow> origin db' i t p" for i t p by (auto simp: inserted(5) origin_def)
  have files: "\<forall>f \<in> set (kb_files db'). is_local (fst f)"
    using target_local [of "kb_files db"] assms(1) by (simp add: inserted(5) stored_ok_def)
  have chunks: "chunk_ok db c \<Longrightarrow> chunk_ok db' c" for c using o by (auto simp: chunk_ok_def)
  have "uuid_parse d \<notin> (\<lambda>r. uuid_parse (kd_id r)) ` set (kb_docs db)"
    using inserted(3) by (auto simp: same_uuid_def)
  then show ?thesis
    using assms(1,2) o files chunks by (auto simp: stored_ok_def inserted(5) doc_key_def new_doc_def comp_def)
qed

lemma upload_completed:
  "completed_ok db \<Longrightarrow> upload_document tid len filename file store disk d now db = (r, db') \<Longrightarrow> completed_ok db'"
  by (erule upload_cases) (auto simp: completed_ok_def new_doc_def)

interpretation pipeline: invariant_system kb_init kb_step kb_inv
proof
  show "kb_inv s" if "kb_init s" for s
    using that by (auto simp: kb_init_def kb_inv_def stored_ok_def completed_ok_def)
  show "kb_inv t" if i: "kb_inv s" and st: "kb_step s t" for s t
    using st
  proof (cases rule: kb_step.cases)
    case (worker_step x)
    with work_inv i show ?thesis by simp
  next
    case (upload_step d db tid len filename sf store disk now r db' w)
    from i have "stored_ok db" "completed_ok db" by (simp_all add: kb_inv_def upload_step)
    with upload_stored [OF _ upload_step(3,5)] upload_completed [OF _ upload_step(5)] i
    show ?thesis by (auto simp: kb_inv_def job_ok_def upload_step(1,2) split: worker.splits)
  next
    case (delete_step tid d now db r db' w)
    from inv_operation [OF deleting.doc_operation_axioms, of w db tid d now] delete_completed [of db tid d now] i
    show ?thesis by (simp add: delete_step kb_inv_def)
  next
    case (retry_step tid d now db r db' w)
    from inv_operation [OF retrying.doc_operation_axioms, of w db tid d now] retry_completed [of db tid d now] i
    show ?thesis by (simp add: retry_step kb_inv_def)
  next
    case (cleanup_step db cs d cs' w configured tries)
    let ?db = "db\<lparr>kb_cleanups := cs @ cs'\<rparr>"
    have "kb_inv (w, ?db)"
      using i by (auto simp: cleanup_step kb_inv_def stored_ok_def chunk_ok_def completed_ok_def job_ok_def origin_def split: worker.splits)
    from inv_operation [OF cleaning.doc_operation_axioms this] this show ?thesis
      by (simp add: cleanup_step kb_inv_def completed_ok_def cleanup_milvus_vectors_def)
  qed
qed

end
