(* ===== verification/KnowledgeIndex.thy ===== *)
theory KnowledgeIndex
  imports Knowledge
begin

text \<open>
  What the pipeline of \<^verbatim>\<open>Knowledge\<close> guarantees: whose chunks the collection holds, that completed
  documents are indexed, that a claimed document is settled, and what a foreign deletion destroys.
\<close>

section \<open>What the collection holds\<close>

text \<open>UTF-8 takes one to four bytes for a code point.\<close>

definition utf8_length :: "ucs \<Rightarrow> nat" where
  "utf8_length s = sum_list (map (\<lambda>c. if c < 0x80 then 1 else if c < 0x800 then 2 else if c < 0x10000 then 3 else 4) s)"

lemma utf8_length_le: "utf8_length s \<le> 4 * length s"
  by (induction s) (auto simp: utf8_length_def)

text \<open> 
  Whatever the order of uploads, deletions, retries, cleanups and worker steps, and whatever fails:
  every chunk in the collection names a document of the table with the tenant of that document, is not
  empty, and fits the 4096 bytes of its column.
\<close>

theorem stored_chunks_owned:
  assumes "reach kb_init kb_step (w, db)" and "c \<in> set (kb_chunks db)"
  shows "(\<exists>r \<in> set (kb_docs db). kd_id r = cv_doc c \<and> uuid_str (kd_tenant r) = cv_tenant c) \<and>
    cv_text c \<noteq> [] \<and> utf8_length (cv_text c) \<le> 4096"
proof -
  from pipeline.reach_inv [OF assms(1)] assms(2) have "chunk_ok db c" by (simp add: kb_inv_def stored_ok_def)
  then have "fits (cv_text c)" "\<exists>r \<in> set (kb_docs db). kd_id r = cv_doc c \<and> uuid_str (kd_tenant r) = cv_tenant c"
    by (auto simp: chunk_ok_def origin_def)
  then show ?thesis
    using utf8_length_le [of "cv_text c"] by (auto simp: fits_def DEFAULT_CHUNK_SIZE_def)
qed

text \<open> 
  A document that went to the object store is never processed: the worker opens the object's name as a
  local path, where only the uploads without a store write files.  In no reachable state is such a
  document completed or has a chunk.
\<close>

theorem stored_objects_never_indexed:
  assumes "reach kb_init kb_step (w, db)" and "r \<in> set (kb_docs db)"
    and "kd_path r = object_path tid d filename" and "tid \<noteq> []" "hd tid \<noteq> CHR ''/''"
  shows "kd_status r \<noteq> DocCompleted \<and> (\<forall>c \<in> set (kb_chunks db). cv_doc c \<noteq> kd_id r)"
proof -
  have slash: "of_char a = (47 :: nat) \<longleftrightarrow> a = CHR ''/''" for a
  proof -
    have "of_char a = (of_char (CHR ''/'') :: nat) \<longleftrightarrow> a = CHR ''/''" by (rule of_char_eq_iff)
    then show ?thesis by simp
  qed
  have far: "\<not> is_local (kd_path r)"
    using assms(3-5) slash by (cases tid) (auto simp: is_local_def starts_with_def object_path_def ucs_of_def)
  have inv: "stored_ok db" "completed_ok db" using pipeline.reach_inv [OF assms(1)] by (simp_all add: kb_inv_def)
  have "cv_doc c \<noteq> kd_id r" if "c \<in> set (kb_chunks db)" for c
  proof
    assume e: "cv_doc c = kd_id r"
    from inv(1) that obtain path where p: "is_local path" "origin db (cv_doc c) (cv_tenant c) path"
      by (auto simp: stored_ok_def chunk_ok_def)
    from origin_unique [OF inv(1) p(2) assms(2)] p(1) far show False by (simp add: same_uuid_def e)
  qed
  with inv(2) far assms(2) show ?thesis by (auto simp: completed_ok_def)
qed

section \<open>Completed documents are indexed\<close>

definition chunks_of :: "kb \<Rightarrow> string \<Rightarrow> nat" where
  "chunks_of db d = length (filter (\<lambda>c. cv_doc c = d) (kb_chunks db))"

definition live_doc :: "kb \<Rightarrow> string \<Rightarrow> kdoc \<Rightarrow> bool" where
  "live_doc db d r \<longleftrightarrow> r \<in> set (kb_docs db) \<and> kd_id r = d \<and> kd_deleted r = None"

definition has_chunks :: "kb \<Rightarrow> string \<Rightarrow> nat \<Rightarrow> bool" where
  "has_chunks db d n \<longleftrightarrow> ((\<exists>r. live_doc db d r) \<longrightarrow> n \<le> chunks_of db d)"

definition indexed :: "worker \<times> kb \<Rightarrow> bool" where
  "indexed s \<longleftrightarrow> (case s of (w, db) \<Rightarrow> kb_rls db \<or>
     (\<forall>r d. live_doc db d r \<longrightarrow> kd_status r = DocCompleted \<longrightarrow> (\<exists>n. kd_count r = Some n \<and> has_chunks db d n)) \<and>
     (\<forall>d \<in> set (kb_cleanups db). \<nexists>r. live_doc db d r) \<and>
     (case w of Working j (MarkCompleted cs) \<Rightarrow> has_chunks db (jb_doc j) (length cs) | _ \<Rightarrow> True))"

text \<open>A change of the tables that revives no document, loses no chunk of a live one, and completes none without its chunks.\<close>

lemma indexed_step:
  assumes "indexed (w, db)" "kb_rls db' = kb_rls db"
    and live: "\<And>d r'. live_doc db' d r' \<Longrightarrow> \<exists>r. live_doc db d r \<and>
      (kd_status r' = DocCompleted \<longrightarrow> (kd_status r = DocCompleted \<and> kd_count r' = kd_count r) \<or>
         (\<not> kb_rls db \<longrightarrow> (\<exists>n. kd_count r' = Some n \<and> has_chunks db d n)))"
    and chunks: "\<And>d r. \<not> kb_rls db \<Longrightarrow> live_doc db' d r \<Longrightarrow> chunks_of db d \<le> chunks_of db' d"
    and clean: "\<And>d r. \<not> kb_rls db \<Longrightarrow> d \<in> set (kb_cleanups db') \<Longrightarrow> live_doc db' d r \<Longrightarrow> d \<in> set (kb_cleanups db)"
    and job: "case w' of Working j (MarkCompleted cs) \<Rightarrow> w' = w \<or> has_chunks db' (jb_doc j) (length cs) | _ \<Rightarrow> True"
  shows "indexed (w', db')"
proof (cases "kb_rls db")
  case True
  with assms(2) show ?thesis by (simp add: indexed_def)
next
  case False
  have mono: "has_chunks db d n \<Longrightarrow> has_chunks db' d n" for d n
    using chunks [OF False] live unfolding has_chunks_def by (meson order_trans)
  have old: "\<And>r d. live_doc db d r \<Longrightarrow> kd_status r = DocCompleted \<Longrightarrow> \<exists>n. kd_count r = Some n \<and> has_chunks db d n"
    "\<And>d r. d \<in> set (kb_cleanups db) \<Longrightarrow> \<not> live_doc db d r"
    "case w of Working j (MarkCompleted cs) \<Rightarrow> has_chunks db (jb_doc j) (length cs) | _ \<Rightarrow> True"
    using assms(1) False by (auto simp: indexed_def)
  have "\<exists>n. kd_count r' = Some n \<and> has_chunks db' d n" if l: "live_doc db' d r'" "kd_status r' = DocCompleted" for d r'
    using live [OF l(1)] l(2) old(1) mono False by metis
  moreover have "\<not> live_doc db' d r" if "d \<in> set (kb_cleanups db')" for d r
    using clean [OF False that] live old(2) by blast
  moreover have "case w' of Working j (MarkCompleted cs) \<Rightarrow> has_chunks db' (jb_doc j) (length cs) | _ \<Rightarrow> True"
    using job old(3) mono by (auto split: worker.splits job_phase.splits)
  ultimately show ?thesis by (auto simp: indexed_def)
qed

lemma live_marked:
  assumes "live_doc (update_status d0 st cnt err stg now db) d r'"
  shows "\<exists>r. live_doc db d r \<and> (if same_uuid d0 r then kd_status r' = st \<and> (cnt = None \<or> kd_count r' = cnt) else r' = r)"
proof -
  from assms have r': "r' \<in> set (kb_docs (update_status d0 st cnt err stg now db))" "kd_id r' = d" "kd_deleted r' = None"
    by (simp_all add: live_doc_def)
  from r'(1) show ?thesis
    by (rule update_status_row) (use r' in \<open>auto simp: live_doc_def doc_key_def\<close>)
qed

lemma indexed_marked:
  assumes "indexed (w, db)"
    and "st = DocCompleted \<Longrightarrow> \<exists>n. cnt = Some n \<and> (\<forall>d r. live_doc db d r \<longrightarrow> same_uuid d0 r \<longrightarrow> \<not> kb_rls db \<longrightarrow> has_chunks db d n)"
    and "case w' of Working j (MarkCompleted cs) \<Rightarrow> False | _ \<Rightarrow> True"
  shows "indexed (w', update_status d0 st cnt err stg now db)"
proof (rule indexed_step [OF assms(1)])
  fix d r'
  assume "live_doc (update_status d0 st cnt err stg now db) d r'"
  from live_marked [OF this] obtain r where r: "live_doc db d r"
    "if same_uuid d0 r then kd_status r' = st \<and> (cnt = None \<or> kd_count r' = cnt) else r' = r" by blast
  with assms(2) show "\<exists>r. live_doc db d r \<and> (kd_status r' = DocCompleted \<longrightarrow>
      (kd_status r = DocCompleted \<and> kd_count r' = kd_count r) \<or> (\<not> kb_rls db \<longrightarrow> (\<exists>n. kd_count r' = Some n \<and> has_chunks db d n)))"
    by (intro exI [of _ r]) (auto split: if_splits)
qed (use assms(3) in \<open>auto simp: chunks_of_def split: worker.splits job_phase.splits\<close>)

lemma indexed_same:
  assumes "indexed (w, db)" and "case w' of Working j (MarkCompleted cs) \<Rightarrow> w' = w | _ \<Rightarrow> True"
  shows "indexed (w', db)"
  by (rule indexed_step [OF assms(1)]) (use assms(2) in \<open>auto split: worker.splits job_phase.splits\<close>)

lemma indexed_failed: "indexed (w, db) \<Longrightarrow> indexed (attempt_failed j e, db)"
  by (rule indexed_same) (auto simp: attempt_failed_def)

lemma indexed_mark:
  assumes "indexed (w, db)" "mark x j st cnt stg ph db = (w', db')" "st \<noteq> DocCompleted"
    and "case ph of Some (MarkCompleted cs) \<Rightarrow> False | _ \<Rightarrow> True"
  shows "indexed (w', db')"
  using assms(2)
proof (cases rule: mark_cases)
  case failed
  with indexed_failed [OF assms(1)] show ?thesis by simp
next
  case marked
  show ?thesis
    unfolding marked(1) by (rule indexed_marked [OF assms(1)]) (use assms(3,4) marked(2) in \<open>auto split: option.splits job_phase.splits\<close>)
qed

lemma indexed_insert:
  assumes "indexed (w, db)" and len: "length vs = length cs"
  shows "indexed (Working j (MarkCompleted cs), db\<lparr>kb_chunks := kb_chunks db @ chunk_rows j x cs vs\<rparr>)"
proof (rule indexed_step [OF assms(1)])
  let ?db = "db\<lparr>kb_chunks := kb_chunks db @ chunk_rows j x cs vs\<rparr>"
  have "filter (\<lambda>c. cv_doc c = jb_doc j) (chunk_rows j x cs vs) = chunk_rows j x cs vs"
    by (rule filter_True) (use set_chunk_rows in blast)
  moreover have "length (chunk_rows j x cs vs) = length cs" using len by (simp add: chunk_rows_def)
  ultimately have "length cs \<le> chunks_of ?db (jb_doc j)" by (simp add: chunks_of_def)
  then show "case Working j (MarkCompleted cs) of Working j' (MarkCompleted cs') \<Rightarrow>
      Working j (MarkCompleted cs) = w \<or> has_chunks ?db (jb_doc j') (length cs') | _ \<Rightarrow> True"
    by (simp add: has_chunks_def)
qed (auto simp: live_doc_def chunks_of_def)

lemma indexed_completed:
  assumes "indexed (Working j (MarkCompleted cs), db)" "stored_ok db" "job_ok db j p"
    and "mark x j DocCompleted (Some (length cs)) None None db = (w', db')"
  shows "indexed (w', db')"
  using assms(4)
proof (cases rule: mark_cases)
  case failed
  with indexed_failed [OF assms(1)] show ?thesis by simp
next
  case marked
  have o: "origin db (jb_doc j) (jb_tenant j) (jb_path j)" using assms(3) by (simp add: job_ok_def)
  have "has_chunks db d (length cs)" if "live_doc db d r" "same_uuid (jb_doc j) r" "\<not> kb_rls db" for d r
  proof -
    have "d = jb_doc j" using origin_unique [OF assms(2) o _ that(2)] that(1) by (auto simp: live_doc_def)
    with assms(1) that(3) show ?thesis by (simp add: indexed_def)
  qed
  then show ?thesis
    unfolding marked(1) by (intro indexed_marked [OF assms(1)]) (use marked(2) in auto)
qed

lemma work_indexed:
  assumes "kb_inv s" "indexed s" "well_behaved x"
  shows "indexed (work x s)"
proof -
  obtain w db where s: "s = (w, db)" by fastforce
  note i = assms(2) [unfolded s]
  show ?thesis
  proof (cases w)
    case Idle
    with i s show ?thesis by (auto simp: poll_def split: option.splits intro: indexed_same)
  next
    case (Dead e)
    with i s show ?thesis by simp
  next
    case (Working j p)
    from assms(1) have inv: "stored_ok db" "job_ok db j p" by (simp_all add: kb_inv_def s Working)
    obtain w' db' where st: "job_step x j p db = (w', db')" by fastforce
    note m = indexed_mark [OF i] and f = indexed_failed [OF i] and sm = indexed_same [OF i]
    note d = indexed_marked [OF i]
    have dead: "indexed (Dead e, db)" for e by (rule sm) simp
    have "indexed (w', db')"
    proof (cases p)
      case DoParse
      with st f sm show ?thesis by (auto split: sum.splits)
    next
      case (MarkEmbedding t)
      with st m sm show ?thesis by (auto split: option.splits)
    next
      case (DoEmbed cs)
      with st f sm show ?thesis by (auto split: option.splits)
    next
      case (DoInsert cs vs)
      with inv(2) have "length vs = length cs" by (simp add: job_ok_def)
      with DoInsert st f indexed_insert [OF i] show ?thesis by (auto split: option.splits)
    next
      case (MarkCompleted cs)
      with st i inv Working indexed_completed show ?thesis by auto
    next
      case (MarkRetry e)
      with st show ?thesis using dead by (auto intro!: d split: option.splits)
    next
      case (MarkFailed e)
      with st show ?thesis using dead by (auto intro!: d split: option.splits)
    qed (use st m in auto)
    with st s Working show ?thesis by simp
  qed
qed

text \<open>A route that updates the rows of one document: it may reset statuses and delete, not complete or revive.\<close>

lemma indexed_update:
  assumes "indexed (w, db)" "kb_docs db' = sql_update P f (kb_docs db)" "kb_chunks db' = kb_chunks db" "kb_rls db' = kb_rls db"
    and f: "\<And>r. kd_id (f r) = kd_id r" "\<And>r. kd_deleted (f r) = None \<Longrightarrow> kd_deleted r = None"
      "\<And>r. kd_status (f r) = DocCompleted \<Longrightarrow> kd_status r = DocCompleted \<and> kd_count (f r) = kd_count r"
    and clean: "\<And>d r. \<not> kb_rls db \<Longrightarrow> d \<in> set (kb_cleanups db') \<Longrightarrow> live_doc db' d r \<Longrightarrow> d \<in> set (kb_cleanups db)"
  shows "indexed (w, db')"
proof (rule indexed_step [OF assms(1,4)])
  fix d r'
  assume "live_doc db' d r'"
  then obtain r where r: "r \<in> set (kb_docs db)" "r' = (if P r then f r else r)" "kd_id r' = d" "kd_deleted r' = None"
    by (auto simp: live_doc_def assms(2) set_sql_update)
  then show "\<exists>r. live_doc db d r \<and> (kd_status r' = DocCompleted \<longrightarrow>
      (kd_status r = DocCompleted \<and> kd_count r' = kd_count r) \<or> (\<not> kb_rls db \<longrightarrow> (\<exists>n. kd_count r' = Some n \<and> has_chunks db d n)))"
    using f by (intro exI [of _ r]) (auto simp: live_doc_def split: if_splits)
qed (use clean assms(3) in \<open>auto simp: chunks_of_def split: worker.splits job_phase.splits\<close>)

lemma retry_indexed: "indexed (w, db) \<Longrightarrow> indexed (w, snd (retry_document tid d now db))"
proof -
  assume i: "indexed (w, db)"
  obtain r db' where r: "retry_document tid d now db = (r, db')" by fastforce
  from r [unfolded retry_document_def] show ?thesis
    by (cases rule: on_document_cases) (use i r in \<open>auto intro: indexed_update [OF i]\<close>)
qed

lemma delete_indexed:
  assumes "indexed (w, db)"
  shows "indexed (w, snd (delete_document tid d now db))"
proof -
  define stmt where "stmt = (\<lambda>t db. (Inr () :: exn + unit, db\<lparr>kb_docs := sql_update
         (\<lambda>r. visible_doc db t d r \<and> kd_deleted r = None) (\<lambda>r. r\<lparr>kd_deleted := Some now\<rparr>) (kb_docs db)\<rparr>))"
  obtain r db' where r: "on_document tid d stmt db = (r, db')" by fastforce
  have del: "delete_document tid d now db =
      (case r of Inl e \<Rightarrow> (Inl e, db') | Inr u \<Rightarrow> (Inr u, db'\<lparr>kb_cleanups := kb_cleanups db' @ [d]\<rparr>))"
    using r by (auto simp: delete_document_def stmt_def split: sum.splits)
  show ?thesis
  proof (cases r)
    case (Inl e)
    have "db' = db"
      using r Inl by (auto simp: on_document_def tenant_db_context_def stmt_def split: option.splits if_splits prod.splits sum.splits)
    with assms del Inl show ?thesis by simp
  next
    case (Inr u)
    with r obtain t where db': "db' = snd (stmt t db)"
      by (auto simp: on_document_def tenant_db_context_def stmt_def split: option.splits if_splits prod.splits sum.splits)
    have "\<not> live_doc (db'\<lparr>kb_cleanups := kb_cleanups db' @ [d]\<rparr>) d r" if "\<not> kb_rls db" for r
      using that by (auto simp: db' stmt_def live_doc_def set_sql_update visible_doc_def rls_visible_def same_uuid_def)
    then have "indexed (w, db'\<lparr>kb_cleanups := kb_cleanups db' @ [d]\<rparr>)"
      by (intro indexed_update [OF assms, where P = "\<lambda>r. visible_doc db t d r \<and> kd_deleted r = None"
            and f = "\<lambda>r. r\<lparr>kd_deleted := Some now\<rparr>"]) (auto simp: db' stmt_def)
    with del Inr show ?thesis by simp
  qed
qed

lemma upload_indexed:
  assumes "indexed (w, db)" "d \<notin> set (kb_cleanups db)" "upload_document tid len filename sf store disk d now db = (r, db')"
    "stored_ok db" "kb_inv (w, db)"
  shows "indexed (w, db')"
  using assms(3)
proof (cases rule: upload_cases)
  case rejected
  then show ?thesis
    by (auto intro!: indexed_step [OF assms(1)] simp: assms(1) live_doc_def chunks_of_def split: worker.splits job_phase.splits)
next
  case (inserted t)
  define row where "row = new_doc d t filename (fst (upload_target tid d filename sf store (kb_files db))) now"
  have row: "kd_status row = DocPending" "kd_id row = d" "kd_deleted row = None" by (simp_all add: row_def new_doc_def)
  have docs: "kb_docs db' = kb_docs db @ [row]" "kb_chunks db' = kb_chunks db" "kb_rls db' = kb_rls db" "kb_cleanups db' = kb_cleanups db"
    by (simp_all add: inserted(5) row_def)
  have live: "live_doc db' i r \<longleftrightarrow> live_doc db i r \<or> (i = d \<and> r = row)" for i r
    using row by (auto simp: live_doc_def docs)
  have none: "\<not> live_doc db d r" for r using inserted(3) by (auto simp: live_doc_def same_uuid_def)
  have job: "case w of Working j p \<Rightarrow> jb_doc j \<noteq> d | _ \<Rightarrow> True"
    using assms(5) inserted(3) by (auto simp: kb_inv_def job_ok_def origin_def same_uuid_def split: worker.splits)
  have hc: "has_chunks db' i n \<longleftrightarrow> has_chunks db i n" if "i \<noteq> d" for i n
    using that by (simp add: has_chunks_def live chunks_of_def docs)
  show ?thesis
    using assms(1,2) job none row
    by (auto simp: indexed_def live hc docs split: worker.splits job_phase.splits) (metis hc none)+
qed

interpretation collection: invariant_system kb_init kb_step "\<lambda>s. kb_inv s \<and> indexed s"
proof
  show "kb_inv s \<and> indexed s" if i: "kb_init s" for s
  proof -
    have "indexed s" using i by (auto simp: kb_init_def indexed_def live_doc_def split: prod.splits)
    with pipeline.init_inv [OF i] show ?thesis by simp
  qed
  show "kb_inv t \<and> indexed t" if i: "kb_inv s \<and> indexed s" and st: "kb_step s t" for s t
  proof -
    from st have "indexed t"
    proof (cases rule: kb_step.cases)
      case (worker_step x)
      with work_indexed i show ?thesis by simp
    next
      case (upload_step d db tid len filename sf store disk now r db' w)
      with i upload_indexed [OF _ upload_step(4,5)] show ?thesis by (auto simp: kb_inv_def)
    next
      case (delete_step tid d now db r db' w)
      with i delete_indexed [of w db tid d now] show ?thesis by simp
    next
      case (retry_step tid d now db r db' w)
      with i retry_indexed [of w db tid d now] show ?thesis by simp
    next
      case (cleanup_step db cs d cs' w configured tries)
      from i have w: "indexed (w, db)" by (simp add: cleanup_step)
      let ?db = "cleanup_milvus_vectors d configured tries (db\<lparr>kb_cleanups := cs @ cs'\<rparr>)"
      have docs: "live_doc ?db = live_doc db" "kb_rls ?db = kb_rls db" "set (kb_cleanups ?db) \<subseteq> set (kb_cleanups db)"
        by (auto simp: cleanup_milvus_vectors_def live_doc_def fun_eq_iff cleanup_step)
      have "chunks_of db i \<le> chunks_of ?db i" if "\<not> kb_rls db" "live_doc db i r" for i r
      proof -
        have "i \<noteq> d" using w that by (auto simp: indexed_def cleanup_step)
        then have "filter (\<lambda>c. cv_doc c = i) (sql_delete (\<lambda>c. cv_doc c = d) xs) = filter (\<lambda>c. cv_doc c = i) xs"
          for xs :: "chunk_row list" by (induction xs) auto
        then show ?thesis by (simp add: chunks_of_def cleanup_milvus_vectors_def)
      qed
      then have "indexed (w, ?db)"
        by (intro indexed_step [OF w]) (use docs in \<open>auto split: worker.splits job_phase.splits\<close>)
      then show ?thesis by (simp add: cleanup_step)
    qed
    with i st pipeline.step_inv show ?thesis by blast
  qed
qed

text \<open>C9:  
  Where the routes' role is not subject to row-level security: in every reachable state a document that
  is completed and not deleted has at least as many chunks in the collection as its \<open>chunk_count\<close> says.
\<close>

theorem completed_documents_indexed:
  assumes "reach kb_init kb_step (w, db)" "\<not> kb_rls db"
    and "r \<in> set (kb_docs db)" "kd_status r = DocCompleted" "kd_deleted r = None"
  shows "\<exists>n. kd_count r = Some n \<and> n \<le> length (filter (\<lambda>c. cv_doc c = kd_id r) (kb_chunks db))"
proof -
  have l: "live_doc db (kd_id r) r" using assms(3,5) by (simp add: live_doc_def)
  from collection.reach_inv [OF assms(1)] have "indexed (w, db)" by simp
  with assms(2,4) l show ?thesis by (fastforce simp: indexed_def has_chunks_def chunks_of_def)
qed

text \<open> 
  Under row-level security a tenant that deletes another tenant's document changes no row, and still has
  its cleanup enqueued: the task removes every chunk of the document, which stays completed.
\<close>

theorem foreign_delete_empties_index:
  assumes "kb_rls db" "uuid_parse tid = Some t" "uuid_parse d \<noteq> None"
    and "\<And>r. r \<in> set (kb_docs db) \<Longrightarrow> same_uuid d r \<Longrightarrow> kd_tenant r \<noteq> t"
  shows "\<exists>db'. delete_document tid d now db = (Inr (), db') \<and> kb_docs db' = kb_docs db \<and> d \<in> set (kb_cleanups db') \<and>
    filter (\<lambda>c. cv_doc c = d) (kb_chunks (cleanup_milvus_vectors d True [] db')) = []"
proof -
  have "sql_update (\<lambda>r. visible_doc db t d r \<and> kd_deleted r = None) (\<lambda>r. r\<lparr>kd_deleted := Some now\<rparr>) (kb_docs db) = kb_docs db"
    by (rule sql_update_none) (use assms in \<open>auto simp: visible_doc_def rls_visible_def\<close>)
  then have "delete_document tid d now db = (Inr (), db\<lparr>kb_cleanups := kb_cleanups db @ [d]\<rparr>)"
    using assms(2,3) by (auto simp: delete_document_def on_document_def tenant_db_context_def)
  moreover have "filter (\<lambda>c. cv_doc c = d) (sql_delete (\<lambda>c. cv_doc c = d) cs) = []" for cs :: "chunk_row list"
    by (auto simp: filter_empty_conv)
  ultimately show ?thesis by (simp add: cleanup_milvus_vectors_def numeral_3_eq_3)
qed

section \<open>Every claimed document is settled\<close>

fun phase_rank :: "job_phase \<Rightarrow> nat" where
  "phase_rank MarkParsing = 10"
| "phase_rank DoParse = 9"
| "phase_rank (MarkChunking t) = 8"
| "phase_rank (MarkEmbedding t) = 7"
| "phase_rank (DoEmbed cs) = 6"
| "phase_rank (MarkStoring cs vs) = 5"
| "phase_rank (DoInsert cs vs) = 4"
| "phase_rank (MarkCompleted cs) = 3"
| "phase_rank (MarkRetry e) = 2"
| "phase_rank (MarkFailed e) = 1"

definition job_rank :: "job \<Rightarrow> job_phase \<Rightarrow> nat" where
  "job_rank j p = (MAX_ATTEMPTS - jb_attempt j) * 10 + phase_rank p"

definition retries_left :: "job \<Rightarrow> job_phase \<Rightarrow> bool" where
  "retries_left j p \<longleftrightarrow> (\<forall>e. p = MarkRetry e \<longrightarrow> jb_attempt j < MAX_ATTEMPTS)"

lemma attempt_failed_rank:
  "phase_rank p > 2 \<Longrightarrow> attempt_failed j e = Working j' p' \<Longrightarrow> jb_doc j' = jb_doc j \<and> retries_left j' p' \<and> job_rank j' p' < job_rank j p"
  by (auto simp: attempt_failed_def job_rank_def retries_left_def split: if_splits)

lemma split_always_returns: "\<exists>cs. split_text DEFAULT_CHUNK_SIZE DEFAULT_CHUNK_OVERLAP t = Some cs"
proof (cases "strip t = []")
  case False
  then show ?thesis using chunking.split_returns [of "strip t"] by (auto simp: split_text_def)
qed (simp add: split_text_def)

text \<open>The status a worker that has become idle leaves with its document.\<close>

definition settled :: "string \<Rightarrow> kb \<Rightarrow> bool" where
  "settled d db \<longleftrightarrow> (\<forall>r \<in> set (kb_docs db). same_uuid d r \<longrightarrow> kd_status r = DocCompleted \<or> kd_status r = DocFailed)"

lemma settled_marked: "st = DocCompleted \<or> st = DocFailed \<Longrightarrow> settled d (update_status d st cnt err stg now db)"
  unfolding settled_def
proof (intro ballI impI)
  fix r
  assume st: "st = DocCompleted \<or> st = DocFailed" and r: "r \<in> set (kb_docs (update_status d st cnt err stg now db))" "same_uuid d r"
  from r(1) show "kd_status r = DocCompleted \<or> kd_status r = DocFailed"
    by (rule update_status_row) (use st r(2) in \<open>auto simp: same_uuid_def doc_key_def split: if_splits\<close>)
qed

definition job_moves :: "job \<Rightarrow> job_phase \<Rightarrow> worker \<Rightarrow> kb \<Rightarrow> bool" where
  "job_moves j p w db \<longleftrightarrow>
    (\<exists>j' p'. w = Working j' p' \<and> jb_doc j' = jb_doc j \<and> retries_left j' p' \<and> job_rank j' p' < job_rank j p) \<or>
    (w = Idle \<and> settled (jb_doc j) db) \<or> (\<exists>e. w = Dead e)"

lemma job_step_rank:
  assumes "retries_left j p" "job_step x j p db = (w, db')"
  shows "job_moves j p w db'"
proof -
  have m: "mark x j st cnt stg ph db = (w, db') \<Longrightarrow> phase_rank p > 2 \<Longrightarrow>
      (ph = None \<Longrightarrow> st = DocCompleted) \<Longrightarrow>
      (\<And>q. ph = Some q \<Longrightarrow> phase_rank q < phase_rank p \<and> retries_left j q) \<Longrightarrow> ?thesis" for st cnt stg ph
    unfolding job_moves_def
    by (erule mark_cases)
      (auto simp: settled_marked job_rank_def attempt_failed_def retries_left_def split: option.splits)
  have f: "phase_rank p > 2 \<Longrightarrow> w = attempt_failed j e \<Longrightarrow> ?thesis" for e
    by (auto simp: job_rank_def attempt_failed_def retries_left_def job_moves_def)
  have l: "w = Working j q \<Longrightarrow> phase_rank q < phase_rank p \<Longrightarrow> retries_left j q \<Longrightarrow> ?thesis" for q
    by (auto simp: job_rank_def job_moves_def)
  show ?thesis
  proof (cases p)
    case DoParse
    with assms(2) f l show ?thesis by (auto simp: retries_left_def split: sum.splits)
  next
    case (MarkEmbedding t)
    obtain cs where "split_text DEFAULT_CHUNK_SIZE DEFAULT_CHUNK_OVERLAP t = Some cs"
      using split_always_returns by blast
    with MarkEmbedding assms(2) have "mark x j DocProcessing None (Some (Embedding (length cs))) (Some (DoEmbed cs)) db = (w, db')"
      by simp
    from m [OF this] MarkEmbedding show ?thesis by (simp add: retries_left_def)
  next
    case (DoEmbed cs)
    with assms(2) f l show ?thesis by (auto simp: retries_left_def split: option.splits)
  next
    case (DoInsert cs vs)
    with assms(2) f l show ?thesis by (auto simp: retries_left_def split: option.splits)
  next
    case (MarkRetry e)
    with assms have "jb_attempt j < MAX_ATTEMPTS" by (simp add: retries_left_def)
    then have "(MAX_ATTEMPTS - (jb_attempt j + 1)) * 10 + 10 = (MAX_ATTEMPTS - jb_attempt j) * 10" by simp
    with MarkRetry assms(2) show ?thesis by (auto simp: retries_left_def job_rank_def job_moves_def split: option.splits)
  next
    case (MarkFailed e)
    with assms(2) show ?thesis by (auto simp: settled_marked job_moves_def split: option.splits)
  next
    case MarkParsing
    show ?thesis by (rule m [OF assms(2) [unfolded MarkParsing job_step.simps]]) (simp_all add: MarkParsing retries_left_def)
  next
    case (MarkChunking t)
    show ?thesis by (rule m [OF assms(2) [unfolded MarkChunking job_step.simps]]) (auto simp: MarkChunking retries_left_def)
  next
    case (MarkStoring cs vs)
    show ?thesis by (rule m [OF assms(2) [unfolded MarkStoring job_step.simps]]) (auto simp: MarkStoring retries_left_def)
  next
    case (MarkCompleted cs)
    show ?thesis by (rule m [OF assms(2) [unfolded MarkCompleted job_step.simps]]) (auto simp: MarkCompleted)
  qed
qed

definition job_over :: "string \<Rightarrow> worker \<times> kb \<Rightarrow> bool" where
  "job_over d s \<longleftrightarrow> (case fst s of Idle \<Rightarrow> settled d (snd s) | Working j p \<Rightarrow> False | Dead e \<Rightarrow> True)"

lemma rank_pos: "0 < job_rank j p"
  by (cases p) (simp_all add: job_rank_def)

lemma job_settles:
  "retries_left j p \<Longrightarrow> job_rank j p \<le> length xs \<Longrightarrow>
   \<exists>k \<le> job_rank j p. job_over (jb_doc j) (fold work (take k xs) (Working j p, db))"
proof (induction xs arbitrary: j p db)
  case Nil
  with rank_pos [of j p] show ?case by simp
next
  case (Cons x xs)
  obtain w db' where s: "job_step x j p db = (w, db')" by fastforce
  from job_step_rank [OF Cons.prems(1) s]
  consider (on) j' p' where "w = Working j' p'" "jb_doc j' = jb_doc j" "retries_left j' p'" "job_rank j' p' < job_rank j p"
    | (over) "job_over (jb_doc j) (w, db')"
    by (auto simp: job_over_def job_moves_def)
  then show ?case
  proof cases
    case on
    with Cons.prems(2) have "job_rank j' p' \<le> length xs" by simp
    from Cons.IH [OF on(3) this, of db'] obtain k where
      "k \<le> job_rank j' p'" "job_over (jb_doc j) (fold work (take k xs) (w, db'))"
      by (auto simp: on)
    with on(4) s show ?thesis by (intro exI [of _ "Suc k"]) simp
  next
    case over
    with s rank_pos [of j p] show ?thesis by (intro exI [of _ 1]) (auto simp: Suc_leI)
  qed
qed

text \<open>C16:  
  A document the worker has claimed is settled: whatever the outside answers to its next thirty steps,
  within them it has become completed or failed, or a failing status update has ended the worker.
\<close>

theorem claimed_document_settles:
  assumes "jb_attempt j = 1" "30 \<le> length xs"
  shows "\<exists>k \<le> 30. job_over (jb_doc j) (fold work (take k xs) (Working j MarkParsing, db))"
proof -
  have r: "job_rank j MarkParsing = 30" using assms(1) by (simp add: job_rank_def MAX_ATTEMPTS_def)
  from job_settles [of j MarkParsing xs db] assms(2) show ?thesis unfolding r by (simp add: retries_left_def)
qed

section \<open>Examples\<close>

definition demo_outside :: outside where
  "demo_outside = \<lparr>x_fail = None, x_docling = \<lambda>_. ConvertRaised, x_embed = map (\<lambda>_. [1]), x_id = \<lambda>_. uuid3, x_now = 5\<rparr>"

definition kb_empty :: kb where
  "kb_empty = \<lparr>kb_rls = False, kb_worker_rls = False, kb_tenants = [1], kb_docs = [], kb_chunks = [], kb_files = [], kb_cleanups = []\<rparr>"

definition demo_file :: stored_file where "demo_file = \<lparr>sf_utf8 = Some [104, 105], sf_latin1 = [104, 105]\<rparr>"

definition kb_local :: kb where \<comment> \<open>after an upload without an object store\<close>
  "kb_local = snd (upload_document uuid1 2 (ucs_of ''a.txt'') demo_file None True uuid2 0 kb_empty)"

definition kb_object :: kb where
  "kb_object = snd (upload_document uuid1 2 (ucs_of ''a.txt'') demo_file (Some True) True uuid2 0 kb_empty)"

definition demo_row :: kdoc where
  "demo_row = (new_doc uuid2 1 (ucs_of ''a.txt'') (local_path uuid1 uuid2 (ucs_of ''a.txt'')) 0)
     \<lparr>kd_status := DocCompleted, kd_count := Some 1, kd_note := None, kd_updated := 5\<rparr>"

lemma demo_behaves: "well_behaved demo_outside"
  by (simp add: well_behaved_def demo_outside_def)

lemma kb_local_simp: "kb_local = kb_empty\<lparr>kb_files := [(local_path uuid1 uuid2 (ucs_of ''a.txt''), demo_file)],
    kb_docs := [new_doc uuid2 1 (ucs_of ''a.txt'') (local_path uuid1 uuid2 (ucs_of ''a.txt'')) 0]\<rparr>"
  by (simp add: kb_local_def upload_document_def kb_empty_def MAX_UPLOAD_SIZE_def upload_target_def Let_def)

lemma demo_suffix: "map lower_ucs (path_suffix (local_path uuid1 uuid2 (ucs_of ''a.txt''))) = ucs_of ''.txt''"
  by (simp add: path_suffix_def path_name_def py_split_def split_aux.simps starts_with_def local_path_def ucs_of_def
      uuid1_def uuid2_def lower_ucs_def Let_def)

lemma demo_parse: "parse_document (\<lambda>_. ConvertRaised) (local_path uuid1 uuid2 (ucs_of ''a.txt''))
    [(local_path uuid1 uuid2 (ucs_of ''a.txt''), demo_file)] = Inr [104, 105]"
  by (simp add: parse_document_def demo_suffix parse_text_def demo_file_def strip_def strip_by_def is_ws_def Let_def)

lemma demo_split: "split_text DEFAULT_CHUNK_SIZE DEFAULT_CHUNK_OVERLAP [104, 105] = Some [[104, 105]]"
  by (simp add: split_text_def strip_def strip_by_def is_ws_def SEPARATORS_def DEFAULT_CHUNK_SIZE_def Let_def)

definition demo_worked :: "worker \<times> kb" where
  "demo_worked = (let x = demo_outside in fold work [x, x, x, x, x, x, x, x, x] (Idle, kb_local))"

lemma demo_worked_simp: "fst demo_worked = Idle \<and> kb_docs (snd demo_worked) = [demo_row] \<and>
    kb_chunks (snd demo_worked) = [\<lparr>cv_id = uuid3, cv_tenant = uuid_str 1, cv_doc = uuid2, cv_text = [104, 105],
      cv_vector = [1], cv_created = 5\<rparr>] \<and> \<not> kb_rls (snd demo_worked)"
  by (simp add: demo_worked_def Let_def kb_local_simp kb_empty_def poll_def statement_fails_def oldest_pending_def
      sql_select_def mark_def update_status_def same_uuid_def new_doc_def demo_row_def demo_outside_def demo_parse
      demo_split chunk_rows_def)

lemma reach_work: "reach kb_init kb_step s \<Longrightarrow> list_all well_behaved xs \<Longrightarrow> reach kb_init kb_step (fold work xs s)"
proof (induction xs arbitrary: s)
  case (Cons x xs)
  then have "reach kb_init kb_step (work x s)" by (auto intro: reach_step kb_step.worker_step)
  with Cons show ?case by simp
qed simp

lemma reach_uploaded:
  assumes "upload_document tid len filename sf store disk uuid2 now kb_empty = (r, db)"
  shows "reach kb_init kb_step (Idle, db)"
proof (rule reach_step)
  show "reach kb_init kb_step (Idle, kb_empty)" by (rule reach_init) (simp add: kb_init_def kb_empty_def)
  show "kb_step (Idle, kb_empty) (Idle, db)" by (rule kb_step.upload_step [OF _ _ assms]) (simp_all add: kb_empty_def)
qed

lemma reach_worked: "reach kb_init kb_step (fst demo_worked, snd demo_worked)"
proof -
  obtain r where "upload_document uuid1 2 (ucs_of ''a.txt'') demo_file None True uuid2 0 kb_empty = (r, kb_local)"
    by (metis kb_local_def prod.collapse)
  from reach_uploaded [OF this] show ?thesis
    unfolding demo_worked_def Let_def prod.collapse by (rule reach_work) (simp add: demo_behaves)
qed

lemma stored_chunks_owned_witness: "\<exists>c. kb_chunks (snd demo_worked) = [c] \<and> utf8_length (cv_text c) \<le> 4096"
proof -
  from demo_worked_simp obtain c where c: "kb_chunks (snd demo_worked) = [c]" by auto
  with stored_chunks_owned [OF reach_worked, of c] show ?thesis by auto
qed

lemma stored_objects_never_indexed_witness:
  "\<exists>r. kb_docs kb_object = [r] \<and> kd_status r \<noteq> DocCompleted"
proof -
  have u: "upload_document uuid1 2 (ucs_of ''a.txt'') demo_file (Some True) True uuid2 0 kb_empty = (Inr uuid2, kb_object)"
    by (simp add: kb_object_def upload_document_def kb_empty_def MAX_UPLOAD_SIZE_def Let_def)
  then have "kb_docs kb_object = [new_doc uuid2 1 (ucs_of ''a.txt'') (object_path uuid1 uuid2 (ucs_of ''a.txt'')) 0]"
    by (simp add: kb_object_def upload_document_def kb_empty_def MAX_UPLOAD_SIZE_def Let_def upload_target_def)
  with stored_objects_never_indexed [OF reach_uploaded [OF u], of _ uuid1 uuid2 "ucs_of ''a.txt''"] show ?thesis
    by (simp add: new_doc_def)
qed

lemma completed_documents_indexed_witness:
  "1 \<le> length (filter (\<lambda>c. cv_doc c = uuid2) (kb_chunks (snd demo_worked)))"
  using completed_documents_indexed [OF reach_worked, of demo_row] demo_worked_simp
  by (auto simp: demo_row_def new_doc_def)

lemma foreign_delete_empties_index_witness:
  "\<exists>db'. delete_document uuid3 uuid2 9 (snd demo_worked\<lparr>kb_rls := True\<rparr>) = (Inr (), db') \<and> kb_docs db' = [demo_row] \<and>
     filter (\<lambda>c. cv_doc c = uuid2) (kb_chunks (cleanup_milvus_vectors uuid2 True [] db')) = []"
  using foreign_delete_empties_index [of "snd demo_worked\<lparr>kb_rls := True\<rparr>" uuid3 3 uuid2 9] demo_worked_simp
  by (auto simp: demo_row_def new_doc_def)

lemma claimed_document_settles_witness:
  "\<exists>k \<le> 30. job_over uuid2 (fold work (take k (replicate 30 demo_outside))
     (Working \<lparr>jb_doc = uuid2, jb_tenant = uuid_str 1, jb_path = [], jb_attempt = 1\<rparr> MarkParsing, kb_local))"
  using claimed_document_settles [of "\<lparr>jb_doc = uuid2, jb_tenant = uuid_str 1, jb_path = [], jb_attempt = 1\<rparr>" "replicate 30 demo_outside" kb_local]
  by simp

end
