(* ===== verification/Assistant.thy ===== *)
theory Assistant
  imports KnowledgeIndex AgentGraph
begin

text \<open>
  Where the knowledge pipeline and the agent meet: the collection that the worker fills and the table
  that the routes change are what the retrieval node of the agent searches.
\<close>

text \<open>The table and the collection as the retrieval node sees them.\<close>

definition agent_docs :: "kb \<Rightarrow> doc_row list" where
  "agent_docs db = map (\<lambda>r. \<lparr>dr_id = kd_id r, dr_tenant = kd_tenant r, dr_deleted = kd_deleted r \<noteq> None\<rparr>) (kb_docs db)"

text \<open>
  A filtered search, as Milvus documents it: every hit is a stored chunk whose \<open>tenant_id\<close> is the one
  of the filter.
\<close>

definition searches :: "kb \<Rightarrow> (nat \<Rightarrow> rat list \<Rightarrow> string \<Rightarrow> exn + milvus_hit list list) \<Rightarrow> bool" where
  "searches db search \<longleftrightarrow> (\<forall>k vec tid results. search k vec tid = Inr results \<longrightarrow>
     (\<forall>hits \<in> set results. \<forall>h \<in> set hits. \<exists>c \<in> set (kb_chunks db).
        cv_tenant c = tid \<and> hit_doc_id h = Some (cv_doc c) \<and> hit_text h = cv_text c))"

lemma searched_source:
  assumes sr: "searches db search" and env: "e_collection env = Some search"
    and run: "rag_engine_node env s w = (Inr s', w')" and src: "src \<in> set (sources s')"
  shows "\<exists>c \<in> set (kb_chunks db). cv_tenant c = tenant_id s \<and> cv_doc c = src_id src"
proof -
  from src have "sources s' \<noteq> []" by auto
  from rag_hits [OF run this src] env obtain k vec results h where
    h: "search k vec (tenant_id s) = Inr results" "results \<noteq> []" "h \<in> set (hd results)" "hit_doc_id h = Some (src_id src)"
    by auto
  with sr [unfolded searches_def, rule_format, OF h(1) _ h(3)] show ?thesis by fastforce
qed

text \<open>C4:  
  The prompt is the tenant's own: with the collection as any run of the pipeline leaves it, every source
  that retrieval cites for a turn is a document of the turn's tenant that is in the table and not
  deleted, even where the database's row-level security does not apply to the agent's role.
\<close>

theorem prompt_sources_owned:
  assumes reached: "reach kb_init kb_step (wk, db)" and sr: "searches db search"
    and env: "e_collection env = Some search" "e_docs env = Some (agent_docs db)"
    and run: "rag_engine_node env s w = (Inr s', w')" and src: "src \<in> set (sources s')"
  shows "\<exists>r \<in> set (kb_docs db). kd_id r = src_id src \<and> uuid_str (kd_tenant r) = tenant_id s \<and> kd_deleted r = None"
proof -
  have inv: "stored_ok db" using pipeline.reach_inv [OF reached] by (simp add: kb_inv_def)
  obtain c where c: "c \<in> set (kb_chunks db)" "cv_tenant c = tenant_id s" "cv_doc c = src_id src"
    using searched_source [OF sr env(1) run src] by blast
  with inv obtain path where o: "origin db (src_id src) (tenant_id s) path" by (auto simp: stored_ok_def chunk_ok_def)
  have "e_docs env \<noteq> None" using env(2) by simp
  from rag_context_usable [OF this run src] env(2) obtain r where
    r: "r \<in> set (kb_docs db)" "kd_id r = src_id src" "kd_deleted r = None"
    by (auto simp: usable_doc_def agent_docs_def)
  from origin_unique [OF inv o r(1)] r show ?thesis by (auto simp: same_uuid_def)
qed

text \<open>A question to the index of the example of \<^verbatim>\<open>KnowledgeIndex\<close>.\<close>

definition demo_search :: "nat \<Rightarrow> rat list \<Rightarrow> string \<Rightarrow> exn + milvus_hit list list" where
  "demo_search k vec tid = Inr [map (\<lambda>c. \<lparr>mh_doc_id = Some (cv_doc c), mh_chunk_text = Some (cv_text c),
     mh_entity_doc_id = None, mh_entity_chunk_text = None, mh_doc_title = None, mh_doc_url = None, mh_score = None\<rparr>)
     (filter (\<lambda>c. cv_tenant c = tid) (kb_chunks (snd demo_worked)))]"

definition assistant_env :: agent_env where
  "assistant_env = rag_env\<lparr>e_collection := Some demo_search, e_docs := Some (agent_docs (snd demo_worked)), e_rls := False\<rparr>"

definition assistant_question :: agent_state where
  "assistant_question = rag_question\<lparr>tenant_id := uuid_str 1\<rparr>"

lemma one_div_power: "(1::nat) div 16 ^ Suc n = 0" by (rule div_less) (rule one_less_power; simp)

lemma uuid_digits_one: "map (\<lambda>i. hex_char (1 div 16 ^ (31 - i) mod 16)) [0..<32] = replicate 31 (CHR ''0'') @ ''1''"
proof -
  have "[0..<32] = [0..<31] @ [31]" using upt_Suc_append [of 0 31] by simp
  moreover have "map (\<lambda>i. hex_char (1 div 16 ^ (31 - i) mod 16)) [0..<31] = map (\<lambda>i. CHR ''0'') [0..<31]"
  proof (rule map_cong [OF refl])
    fix i :: nat assume "i \<in> set [0..<31]"
    then obtain n where n: "31 - i = Suc n" by (metis Suc_diff_Suc atLeastLessThan_iff set_upt)
    show "hex_char (1 div 16 ^ (31 - i) mod 16) = CHR ''0''" unfolding n one_div_power by code_simp
  qed
  moreover have "hex_char 1 = CHR ''1''" by code_simp
  ultimately show ?thesis by (simp add: map_replicate_const)
qed

lemma uuid_str_one: "uuid_str 1 = ''00000000-0000-0000-0000-000000000001''"
  unfolding uuid_str_def Let_def uuid_digits_one by (simp add: eval_nat_numeral)

lemma uuid_parse_one: "uuid_parse ''00000000-0000-0000-0000-000000000001'' = Some 1"
  by (simp add: uuid_parse_def remove_all_def py_split_def split_aux.simps
      starts_with_def strip_by_def int_hex_def str_strip_def is_ws_def hex_body_def hex_val_def Let_def)

lemma assistant_answers: "\<exists>s' w' src. rag_engine_node assistant_env assistant_question rag_world0 = (Inr s', w') \<and>
    sources s' = [src] \<and> src_id src = uuid2"
  using demo_worked_simp
  by (simp add: uuid_str_one [simplified] uuid_parse_one [simplified] rag_engine_node_def assistant_env_def assistant_question_def rag_env_def rag_question_def rag_world0_def
      last_text_def text_of_def cache_lookup_def read_state_def milvus_breaker_def new_breaker_def milvus_retry_def
      search_collection_def eval_nat_numeral get_active_doc_ids_def hit_doc_id_def hit_text_def or_else_def
      rls_visible_def sql_select_def hit_source_def rerank_chunks_def default_to_def demo_search_def agent_docs_def
      demo_row_def new_doc_def Let_def)

lemma demo_searches: "searches (snd demo_worked) demo_search"
  by (auto simp: searches_def demo_search_def hit_doc_id_def hit_text_def or_else_def default_to_def demo_worked_simp)

lemma prompt_sources_owned_witness:
  "\<exists>r. kb_docs (snd demo_worked) = [r] \<and> kd_id r = uuid2 \<and> uuid_str (kd_tenant r) = uuid_str 1 \<and> kd_deleted r = None"
proof -
  obtain s' w' src where run: "rag_engine_node assistant_env assistant_question rag_world0 = (Inr s', w')"
    and src: "sources s' = [src]" "src_id src = uuid2" using assistant_answers by blast
  from prompt_sources_owned [OF reach_worked demo_searches _ _ run, of src] src demo_worked_simp show ?thesis
    by (simp add: assistant_env_def assistant_question_def)
qed

end
