(* ===== verification/Cache.thy ===== *)
theory Cache
  imports Db "HOL-Library.AList"
begin

text \<open>
  The cache backends of \<^verbatim>\<open>shared/cache_backend.py\<close> (Redis) and \<^verbatim>\<open>shared/memory_cache.py\<close> (in process), and
  their client, the context that agents share (\<^verbatim>\<open>chat_service/agent/shared_context.py\<close>).  What a client may
  rely on is the locale \<open>cache_contract\<close>; both backends are instances.
\<close>

section \<open>The in-process cache\<close>

record 'v mem_cache =
  mc_store :: "(string \<times> 'v \<times> time option) list"
  mc_default :: int

definition mc_expired :: "time \<Rightarrow> time option \<Rightarrow> bool" where
  "mc_expired now expiry = (case expiry of None \<Rightarrow> False | Some e \<Rightarrow> now > e)"

definition mc_get :: "string \<Rightarrow> time \<Rightarrow> 'v mem_cache \<Rightarrow> 'v option \<times> 'v mem_cache" where
  "mc_get k now c =
     (case map_of (mc_store c) k of
        None \<Rightarrow> (None, c)
      | Some (v, e) \<Rightarrow> if mc_expired now e then (None, c\<lparr>mc_store := AList.delete k (mc_store c)\<rparr>) else (Some v, c))"

definition mc_set :: "string \<Rightarrow> 'v \<Rightarrow> int option \<Rightarrow> time \<Rightarrow> 'v mem_cache \<Rightarrow> 'v mem_cache" where
  "mc_set k v ttl now c =
     (let seconds = (case ttl of None \<Rightarrow> mc_default c | Some s \<Rightarrow> if s = 0 then mc_default c else s)
      in c\<lparr>mc_store := AList.update k (v, Some (now + of_int seconds)) (mc_store c)\<rparr>)"

definition mc_delete :: "string \<Rightarrow> 'v mem_cache \<Rightarrow> 'v mem_cache" where
  "mc_delete k c = c\<lparr>mc_store := AList.delete k (mc_store c)\<rparr>"

definition mc_exists :: "string \<Rightarrow> time \<Rightarrow> 'v mem_cache \<Rightarrow> bool \<times> 'v mem_cache" where
  "mc_exists k now c =
     (case map_of (mc_store c) k of
        None \<Rightarrow> (False, c)
      | Some (v, e) \<Rightarrow> if mc_expired now e then (False, c\<lparr>mc_store := AList.delete k (mc_store c)\<rparr>) else (True, c))"

fun mc_get_many :: "string list \<Rightarrow> time \<Rightarrow> 'v mem_cache \<Rightarrow> (string \<times> 'v option) list \<times> 'v mem_cache" where
  "mc_get_many [] now c = ([], c)"
| "mc_get_many (k # ks) now c =
     (case mc_get k now c of (v, c') \<Rightarrow> case mc_get_many ks now c' of (r, c'') \<Rightarrow> ((k, v) # r, c''))"

fun mc_set_many :: "(string \<times> 'v) list \<Rightarrow> int option \<Rightarrow> time \<Rightarrow> 'v mem_cache \<Rightarrow> 'v mem_cache" where
  "mc_set_many [] ttl now c = c"
| "mc_set_many ((k, v) # kvs) ttl now c = mc_set_many kvs ttl now (mc_set k v ttl now c)"

definition mc_clear :: "'v mem_cache \<Rightarrow> 'v mem_cache" where
  "mc_clear c = c\<lparr>mc_store := []\<rparr>"

section \<open>Redis\<close>

text \<open>
  The commands the backend uses, as Redis documents them: a key set with a time to live exists until
  that many seconds have passed, and a key set without one until it is deleted.
\<close>

type_synonym redis_kv = "(string \<times> string \<times> time option) list"

definition redis_live :: "time \<Rightarrow> time option \<Rightarrow> bool" where
  "redis_live now expiry = (case expiry of None \<Rightarrow> True | Some e \<Rightarrow> now < e)"

definition redis_get :: "string \<Rightarrow> time \<Rightarrow> redis_kv \<Rightarrow> string option" where
  "redis_get k now r = (case map_of r k of None \<Rightarrow> None | Some (v, e) \<Rightarrow> if redis_live now e then Some v else None)"

text \<open>\<open>enc\<close> and \<open>dec\<close> are \<open>orjson.dumps\<close> and \<open>orjson.loads\<close>; they may raise.\<close>

definition rc_get :: "(string \<Rightarrow> exn + 'v) \<Rightarrow> string \<Rightarrow> string \<Rightarrow> time \<Rightarrow> redis_kv \<Rightarrow> exn + 'v option" where
  "rc_get dec prefix k now r =
     (case redis_get (prefix @ k) now r of None \<Rightarrow> Inr None
      | Some s \<Rightarrow> (case dec s of Inl e \<Rightarrow> Inl e | Inr v \<Rightarrow> Inr (Some v)))"

definition rc_set :: "('v \<Rightarrow> exn + string) \<Rightarrow> string \<Rightarrow> string \<Rightarrow> 'v \<Rightarrow> int option \<Rightarrow> time \<Rightarrow> redis_kv \<Rightarrow> exn + redis_kv" where
  "rc_set enc prefix k v ttl now r =
     (case enc v of Inl e \<Rightarrow> Inl e
      | Inr s \<Rightarrow>
          (case ttl of None \<Rightarrow> Inr (AList.update (prefix @ k) (s, None) r)
           | Some n \<Rightarrow>
               if n = 0 then Inr (AList.update (prefix @ k) (s, None) r)
               else if n < 0 then Inl ValueError \<comment> \<open>SETEX refuses it\<close>
               else Inr (AList.update (prefix @ k) (s, Some (now + of_int n)) r)))"

definition rc_delete :: "string \<Rightarrow> string \<Rightarrow> redis_kv \<Rightarrow> redis_kv" where
  "rc_delete prefix k r = AList.delete (prefix @ k) r"

definition rc_exists :: "string \<Rightarrow> string \<Rightarrow> time \<Rightarrow> redis_kv \<Rightarrow> bool" where
  "rc_exists prefix k now r \<longleftrightarrow> redis_get (prefix @ k) now r \<noteq> None"

fun rc_get_many :: "(string \<Rightarrow> exn + 'v) \<Rightarrow> string \<Rightarrow> string list \<Rightarrow> time \<Rightarrow> redis_kv \<Rightarrow> exn + (string \<times> 'v option) list" where
  "rc_get_many dec prefix [] now r = Inr []"
| "rc_get_many dec prefix (k # ks) now r =
     (case rc_get dec prefix k now r of Inl e \<Rightarrow> Inl e
      | Inr v \<Rightarrow> (case rc_get_many dec prefix ks now r of Inl e \<Rightarrow> Inl e | Inr kvs \<Rightarrow> Inr ((k, v) # kvs)))"

text \<open>The pipeline is sent only when every value has been encoded.\<close>

fun rc_set_many :: "('v \<Rightarrow> exn + string) \<Rightarrow> string \<Rightarrow> (string \<times> 'v) list \<Rightarrow> int option \<Rightarrow> time \<Rightarrow> redis_kv \<Rightarrow> exn + redis_kv" where
  "rc_set_many enc prefix [] ttl now r = Inr r"
| "rc_set_many enc prefix ((k, v) # kvs) ttl now r =
     (case rc_set enc prefix k v ttl now r of Inl e \<Rightarrow> Inl e | Inr r' \<Rightarrow> rc_set_many enc prefix kvs ttl now r')"

text \<open>\<open>KEYS prefix*\<close>, for a prefix without the special characters of a pattern.\<close>

definition rc_clear :: "string \<Rightarrow> redis_kv \<Rightarrow> redis_kv" where
  "rc_clear prefix r = filter (\<lambda>(k, _). \<not> starts_with prefix k) r"

section \<open>The shared context\<close>

definition GLOBAL_PREFIX :: string where "GLOBAL_PREFIX = ''ctx:global:''"
definition ROLE_PREFIX :: string where "ROLE_PREFIX = ''ctx:role:''"
definition DEFAULT_TTL :: int where "DEFAULT_TTL = 3600"
definition ROLE_TTL :: int where "ROLE_TTL = 1800"

definition role_key :: "string \<Rightarrow> string \<Rightarrow> string" where
  "role_key role k = ROLE_PREFIX @ role @ '':'' @ k"

text \<open>
  Over a backend's \<open>put\<close> and \<open>get\<close>; \<open>dumps\<close> and \<open>loads\<close> are those of \<open>json\<close>, where \<open>loads\<close> fails a text that
  is no JSON is handed out as it is.
\<close>

definition set_global :: "(string \<Rightarrow> string \<Rightarrow> int \<Rightarrow> time \<Rightarrow> 'c \<Rightarrow> 'c) \<Rightarrow> ('a \<Rightarrow> string) \<Rightarrow> string \<Rightarrow> 'a \<Rightarrow> int \<Rightarrow> time \<Rightarrow> 'c \<Rightarrow> 'c" where
  "set_global put dumps k v ttl = put (GLOBAL_PREFIX @ k) (dumps v) ttl"

definition read_context :: "(string \<Rightarrow> 'a option) \<Rightarrow> string option \<Rightarrow> (string + 'a) option" where
  "read_context loads val = (case val of None \<Rightarrow> None
     | Some s \<Rightarrow> Some (case loads s of None \<Rightarrow> Inl s | Some v \<Rightarrow> Inr v))"

definition get_global :: "(string \<Rightarrow> time \<Rightarrow> 'c \<Rightarrow> string option) \<Rightarrow> (string \<Rightarrow> 'a option) \<Rightarrow> string \<Rightarrow> time \<Rightarrow> 'c \<Rightarrow> (string + 'a) option" where
  "get_global get loads k now c = read_context loads (get (GLOBAL_PREFIX @ k) now c)"

definition set_role :: "(string \<Rightarrow> string \<Rightarrow> int \<Rightarrow> time \<Rightarrow> 'c \<Rightarrow> 'c) \<Rightarrow> ('a \<Rightarrow> string) \<Rightarrow> string \<Rightarrow> string \<Rightarrow> 'a \<Rightarrow> int \<Rightarrow> time \<Rightarrow> 'c \<Rightarrow> 'c" where
  "set_role put dumps role k v ttl = put (role_key role k) (dumps v) ttl"

definition get_role :: "(string \<Rightarrow> time \<Rightarrow> 'c \<Rightarrow> string option) \<Rightarrow> (string \<Rightarrow> 'a option) \<Rightarrow> string \<Rightarrow> string \<Rightarrow> time \<Rightarrow> 'c \<Rightarrow> (string + 'a) option" where
  "get_role get loads role k now c = read_context loads (get (role_key role k) now c)"

text \<open>\<open>clear_role\<close> looks one key up and forgets the answer; \<open>touch\<close> is what a lookup does to the cache.\<close>

definition clear_role :: "(string \<Rightarrow> time \<Rightarrow> 'c \<Rightarrow> 'c) \<Rightarrow> string \<Rightarrow> time \<Rightarrow> 'c \<Rightarrow> 'c" where
  "clear_role touch role = touch (role_key role ''placeholder'')"

section \<open>What a client may rely on\<close>

text \<open>
  Within the time to live a key reads back what was put, after it nothing; other keys are not touched,
  and a lookup changes no later answer.
\<close>

locale cache_contract =
  fixes get :: "string \<Rightarrow> time \<Rightarrow> 'c \<Rightarrow> string option"
    and put :: "string \<Rightarrow> string \<Rightarrow> int \<Rightarrow> time \<Rightarrow> 'c \<Rightarrow> 'c"
    and touch :: "string \<Rightarrow> time \<Rightarrow> 'c \<Rightarrow> 'c"
    and remove :: "string \<Rightarrow> 'c \<Rightarrow> 'c"
  assumes get_put: "0 < ttl \<Longrightarrow> t \<le> t' \<Longrightarrow> t' < t + of_int ttl \<Longrightarrow> get k t' (put k v ttl t c) = Some v"
    and get_put_late: "0 < ttl \<Longrightarrow> t + of_int ttl < t' \<Longrightarrow> get k t' (put k v ttl t c) = None"
    and get_put_other: "k' \<noteq> k \<Longrightarrow> get k' t' (put k v ttl t c) = get k' t' c"
    and get_touch: "t \<le> t' \<Longrightarrow> get k' t' (touch k t c) = get k' t' c"
    and get_remove: "get k' t' (remove k c) = (if k' = k then None else get k' t' c)"
begin

lemma global_reads_back:
  "loads (dumps v) = Some v \<Longrightarrow> 0 < ttl \<Longrightarrow> t \<le> t' \<Longrightarrow> t' < t + of_int ttl \<Longrightarrow>
   get_global get loads k t' (set_global put dumps k v ttl t c) = Some (Inr v)"
  by (simp add: get_global_def set_global_def read_context_def get_put)

lemma role_reads_back:
  "loads (dumps v) = Some v \<Longrightarrow> 0 < ttl \<Longrightarrow> t \<le> t' \<Longrightarrow> t' < t + of_int ttl \<Longrightarrow>
   get_role get loads role k t' (set_role put dumps role k v ttl t c) = Some (Inr v)"
  by (simp add: get_role_def set_role_def read_context_def get_put)

lemma role_expires: "0 < ttl \<Longrightarrow> t + of_int ttl < t' \<Longrightarrow>
   get_role get loads role k t' (set_role put dumps role k v ttl t c) = None"
  by (simp add: get_role_def set_role_def read_context_def get_put_late)

lemma role_keeps_global: "get_global get loads g t' (set_role put dumps role k v ttl t c) = get_global get loads g t' c"
proof -
  have "GLOBAL_PREFIX @ g \<noteq> role_key role k" by (simp add: GLOBAL_PREFIX_def role_key_def ROLE_PREFIX_def)
  then show ?thesis by (simp add: get_global_def set_role_def get_put_other)
qed

lemma clear_role_clears_nothing:
  "t \<le> t' \<Longrightarrow> get_role get loads role k t' (clear_role touch role' t c) = get_role get loads role k t' c"
  by (simp add: get_role_def clear_role_def get_touch)

end

lemma mc_get_state: "mc_store (snd (mc_get k now c)) = mc_store c \<or>
    (\<exists>v e. map_of (mc_store c) k = Some (v, e) \<and> mc_expired now e \<and> mc_store (snd (mc_get k now c)) = AList.delete k (mc_store c))"
  by (auto simp: mc_get_def split: option.splits)

lemma mc_get_value: "fst (mc_get k now c) =
    (case map_of (mc_store c) k of None \<Rightarrow> None | Some (v, e) \<Rightarrow> if mc_expired now e then None else Some v)"
  by (auto simp: mc_get_def split: option.splits)

lemma expired_later: "mc_expired t e \<Longrightarrow> t \<le> t' \<Longrightarrow> mc_expired t' e"
  by (auto simp: mc_expired_def split: option.splits)

interpretation memory: cache_contract "\<lambda>k t c. fst (mc_get k t c)" "\<lambda>k v ttl t c. mc_set k v (Some ttl) t c"
    "\<lambda>k t c. snd (mc_get k t c)" mc_delete
proof
  fix k k' v :: string and t t' :: time and ttl :: int and c :: "string mem_cache"
  show "fst (mc_get k t' (mc_set k v (Some ttl) t c)) = Some v" if "0 < ttl" "t \<le> t'" "t' < t + of_int ttl"
    using that by (simp add: mc_get_value mc_set_def mc_expired_def)
  show "fst (mc_get k t' (mc_set k v (Some ttl) t c)) = None" if "0 < ttl" "t + of_int ttl < t'"
    using that by (simp add: mc_get_value mc_set_def mc_expired_def)
  show "fst (mc_get k' t' (mc_set k v (Some ttl) t c)) = fst (mc_get k' t' c)" if "k' \<noteq> k"
    using that by (simp add: mc_get_value mc_set_def)
  show "fst (mc_get k' t' (snd (mc_get k t c))) = fst (mc_get k' t' c)" if "t \<le> t'"
    using mc_get_state [of k t c] expired_later [OF _ that] by (auto simp: mc_get_value)
  show "fst (mc_get k' t' (mc_delete k c)) = (if k' = k then None else fst (mc_get k' t' c))"
    by (simp add: mc_get_value mc_delete_def)
qed

text \<open>The Redis backend with a codec that reads back what it wrote.\<close>

definition redis_put :: "(string \<Rightarrow> exn + string) \<Rightarrow> string \<Rightarrow> string \<Rightarrow> string \<Rightarrow> int \<Rightarrow> time \<Rightarrow> redis_kv \<Rightarrow> redis_kv" where
  "redis_put enc prefix k v ttl now r = (case rc_set enc prefix k v (Some ttl) now r of Inl e \<Rightarrow> r | Inr r' \<Rightarrow> r')"

definition redis_read :: "(string \<Rightarrow> exn + string) \<Rightarrow> string \<Rightarrow> string \<Rightarrow> time \<Rightarrow> redis_kv \<Rightarrow> string option" where
  "redis_read dec prefix k now r = (case rc_get dec prefix k now r of Inl e \<Rightarrow> None | Inr v \<Rightarrow> v)"

lemma redis_contract:
  assumes "\<And>v. \<exists>s. enc v = Inr s \<and> dec s = Inr v"
  shows "cache_contract (redis_read dec prefix) (redis_put enc prefix) (\<lambda>k t r. r) (rc_delete prefix)"
proof
  fix k k' v :: string and t t' :: time and ttl :: int and r :: redis_kv
  obtain s where s: "enc v = Inr s" "dec s = Inr v" using assms by blast
  note d = redis_read_def redis_put_def rc_get_def rc_set_def redis_get_def redis_live_def rc_delete_def
  show "redis_read dec prefix k t' (redis_put enc prefix k v ttl t r) = Some v" if "0 < ttl" "t \<le> t'" "t' < t + of_int ttl"
    using that s by (simp add: d)
  show "redis_read dec prefix k t' (redis_put enc prefix k v ttl t r) = None" if "0 < ttl" "t + of_int ttl < t'"
    using that s by (simp add: d)
  show "redis_read dec prefix k' t' (redis_put enc prefix k v ttl t r) = redis_read dec prefix k' t' r" if "k' \<noteq> k"
    using that s by (simp add: d)
  show "redis_read dec prefix k' t' r = redis_read dec prefix k' t' r" ..
  show "redis_read dec prefix k' t' (rc_delete prefix k r) = (if k' = k then None else redis_read dec prefix k' t' r)"
    by (simp add: d)
qed

interpretation redis: cache_contract "redis_read Inr ''cache:''" "redis_put Inr ''cache:''" "\<lambda>k t r. r" "rc_delete ''cache:''"
  by (rule redis_contract) simp

section \<open>Properties\<close>

text \<open> 
  What an agent shares under a role is read back by every agent that asks for the role until half an
  hour has passed, and not after; global values are not touched by it.
\<close>

theorem role_context_lifetime:
  assumes "loads (dumps v) = Some v" and "t \<le> t'"
    and c': "c' = set_role (\<lambda>k v ttl t c. mc_set k v (Some ttl) t c) dumps role k v ROLE_TTL t c"
  shows "(t' < t + 1800 \<longrightarrow> get_role (\<lambda>k t c. fst (mc_get k t c)) loads role k t' c' = Some (Inr v)) \<and>
    (t + 1800 < t' \<longrightarrow> get_role (\<lambda>k t c. fst (mc_get k t c)) loads role k t' c' = None) \<and>
    get_global (\<lambda>k t c. fst (mc_get k t c)) loads g t' c' = get_global (\<lambda>k t c. fst (mc_get k t c)) loads g t' c"
  unfolding c' using assms(1,2)
  by (simp add: ROLE_TTL_def memory.role_reads_back memory.role_expires memory.role_keeps_global)

lemma role_context_lifetime_witness:
  "get_role (\<lambda>k t c. fst (mc_get k t c)) Some ''agent'' ''k'' 60
     (set_role (\<lambda>k v ttl t c. mc_set k v (Some ttl) t c) (\<lambda>v. v) ''agent'' ''k'' ''v'' ROLE_TTL 0 \<lparr>mc_store = [], mc_default = 3600\<rparr>)
     = Some (Inr ''v'')"
  using role_context_lifetime [of Some "\<lambda>v. v" "''v''" 0 60 _ "''agent''" "''k''" "\<lparr>mc_store = [], mc_default = 3600\<rparr>"] by auto

text \<open>Clearing a role clears nothing: whatever is shared under it stays readable as it was.\<close>

theorem clear_role_keeps_context:
  assumes "t \<le> t'"
  shows "get_role (\<lambda>k t c. fst (mc_get k t c)) loads role k t' (clear_role (\<lambda>k t c. snd (mc_get k t c)) role t c) =
    get_role (\<lambda>k t c. fst (mc_get k t c)) loads role k t' c"
  using assms by (rule memory.clear_role_clears_nothing)

lemma clear_role_keeps_context_witness:
  "get_role (\<lambda>k t c. fst (mc_get k t c)) Some ''r'' ''k'' 5 (clear_role (\<lambda>k t c. snd (mc_get k t c)) ''r'' 1
     \<lparr>mc_store = [(''ctx:role:r:k'', ''v'', Some 9)], mc_default = 3600\<rparr>) = Some (Inr ''v'')"
  using clear_role_keeps_context [of 1 5 Some "''r''" "''k''" "\<lparr>mc_store = [(''ctx:role:r:k'', ''v'', Some 9)], mc_default = 3600\<rparr>"]
  by (simp add: get_role_def role_key_def ROLE_PREFIX_def mc_get_value mc_expired_def read_context_def)

section \<open>The two backends\<close>

text \<open>The same calls on both: a trace of calls with their times, and what the client gets to see.\<close>

datatype cache_call = Put string string int | Get string | Exists string | Remove string

datatype answer = Value "string option" | Found bool | Done

fun mc_call :: "time \<Rightarrow> cache_call \<Rightarrow> string mem_cache \<Rightarrow> answer \<times> string mem_cache" where
  "mc_call t (Put k v ttl) c = (Done, mc_set k v (Some ttl) t c)"
| "mc_call t (Get k) c = (case mc_get k t c of (v, c') \<Rightarrow> (Value v, c'))"
| "mc_call t (Exists k) c = (case mc_exists k t c of (b, c') \<Rightarrow> (Found b, c'))"
| "mc_call t (Remove k) c = (Done, mc_delete k c)"

fun rc_call :: "(string \<Rightarrow> exn + string) \<Rightarrow> (string \<Rightarrow> exn + string) \<Rightarrow> string \<Rightarrow> time \<Rightarrow> cache_call \<Rightarrow> redis_kv \<Rightarrow> exn + answer \<times> redis_kv" where
  "rc_call enc dec p t (Put k v ttl) r = (case rc_set enc p k v (Some ttl) t r of Inl e \<Rightarrow> Inl e | Inr r' \<Rightarrow> Inr (Done, r'))"
| "rc_call enc dec p t (Get k) r = (case rc_get dec p k t r of Inl e \<Rightarrow> Inl e | Inr v \<Rightarrow> Inr (Value v, r))"
| "rc_call enc dec p t (Exists k) r = Inr (Found (rc_exists p k t r), r)"
| "rc_call enc dec p t (Remove k) r = Inr (Done, rc_delete p k r)"

fun mc_run :: "(time \<times> cache_call) list \<Rightarrow> string mem_cache \<Rightarrow> answer list" where
  "mc_run [] c = []"
| "mc_run ((t, call) # calls) c = (case mc_call t call c of (a, c') \<Rightarrow> a # mc_run calls c')"

fun rc_run :: "(string \<Rightarrow> exn + string) \<Rightarrow> (string \<Rightarrow> exn + string) \<Rightarrow> string \<Rightarrow> (time \<times> cache_call) list \<Rightarrow> redis_kv \<Rightarrow> exn + answer list" where
  "rc_run enc dec p [] r = Inr []"
| "rc_run enc dec p ((t, call) # calls) r =
     (case rc_call enc dec p t call r of Inl e \<Rightarrow> Inl e
      | Inr (a, r') \<Rightarrow> (case rc_run enc dec p calls r' of Inl e \<Rightarrow> Inl e | Inr as \<Rightarrow> Inr (a # as)))"

text \<open>
  Times do not decrease, times to live are positive, and no call comes at the very instant a key put
  before expires, where the one backend still answers and the other does not.
\<close>

fun regular_trace :: "time \<Rightarrow> time list \<Rightarrow> (time \<times> cache_call) list \<Rightarrow> bool" where
  "regular_trace now deadlines [] = True"
| "regular_trace now deadlines ((t, call) # calls) =
     (now \<le> t \<and> t \<notin> set deadlines \<and>
      (case call of Put k v ttl \<Rightarrow> 0 < ttl \<and> regular_trace t ((t + of_int ttl) # deadlines) calls
       | _ \<Rightarrow> regular_trace t deadlines calls))"

text \<open>Entries of the one side against the other: equal as long as they are live, and only then have to be there.\<close>

definition same_entry :: "(string \<Rightarrow> exn + string) \<Rightarrow> time \<Rightarrow> time list \<Rightarrow> (string \<times> time option) option \<Rightarrow> (string \<times> time option) option \<Rightarrow> bool" where
  "same_entry enc now deadlines m r \<longleftrightarrow>
     (case (m, r) of
        (Some (v, e), Some (s, e')) \<Rightarrow> e = e' \<and> enc v = Inr s \<and> (\<exists>d \<in> set deadlines. e = Some d)
      | (None, Some (s, e')) \<Rightarrow> \<not> redis_live now e'
      | (Some _, None) \<Rightarrow> False
      | (None, None) \<Rightarrow> True)"

definition same_cache :: "(string \<Rightarrow> exn + string) \<Rightarrow> string \<Rightarrow> time \<Rightarrow> time list \<Rightarrow> string mem_cache \<Rightarrow> redis_kv \<Rightarrow> bool" where
  "same_cache enc p now deadlines c r \<longleftrightarrow> (\<forall>k. same_entry enc now deadlines (map_of (mc_store c) k) (map_of r (p @ k)))"

lemma same_entry_mono:
  assumes "same_entry enc now ds m r" "now \<le> t" "set ds \<subseteq> set ds'"
  shows "same_entry enc t ds' m r"
  using assms by (fastforce simp: same_entry_def redis_live_def split: option.splits prod.splits)

lemma same_cache_mono: "same_cache enc p now ds c r \<Longrightarrow> now \<le> t \<Longrightarrow> set ds \<subseteq> set ds' \<Longrightarrow> same_cache enc p t ds' c r"
  unfolding same_cache_def using same_entry_mono by blast

text \<open>What a lookup sees, and what it leaves, at a time that is no deadline.\<close>

lemma same_lookup:
  assumes "same_cache enc p t ds c r" "t \<notin> set ds" "\<And>v s. enc v = Inr s \<Longrightarrow> dec s = Inr v"
  shows "rc_get dec p k t r = Inr (fst (mc_get k t c)) \<and> rc_exists p k t r = fst (mc_exists k t c) \<and>
    same_cache enc p t ds (snd (mc_get k t c)) r \<and> snd (mc_exists k t c) = snd (mc_get k t c)"
proof -
  from assms(1) have s: "same_entry enc t ds (map_of (mc_store c) i) (map_of r (p @ i))" for i by (simp add: same_cache_def)
  show ?thesis
  proof (cases "map_of (mc_store c) k")
    case None
    with s [of k] assms(1) show ?thesis
      by (auto simp: mc_get_def mc_exists_def rc_get_def rc_exists_def redis_get_def same_entry_def split: option.splits)
  next
    case (Some ve)
    then obtain v e where ve: "map_of (mc_store c) k = Some (v, e)" by (cases ve) auto
    with s [of k] obtain s' d where r: "map_of r (p @ k) = Some (s', Some d)" "e = Some d" "enc v = Inr s'" "d \<in> set ds"
      by (auto simp: same_entry_def split: option.splits)
    from r(4) assms(2) have "t \<noteq> d" by auto
    with ve r s assms(1) assms(3) [OF r(3)] show ?thesis
      by (auto simp: mc_get_def mc_exists_def rc_get_def rc_exists_def redis_get_def mc_expired_def redis_live_def
          same_cache_def) (auto simp: same_entry_def redis_live_def)
  qed
qed

lemma same_put:
  assumes "same_cache enc p t ds c r" "0 < ttl" "\<And>v. \<exists>s. enc v = Inr s"
  shows "\<exists>r'. rc_set enc p k v (Some ttl) t r = Inr r' \<and>
    same_cache enc p t ((t + of_int ttl) # ds) (mc_set k v (Some ttl) t c) r'"
proof -
  from assms(3) obtain s where s: "enc v = Inr s" by blast
  have "same_cache enc p t ((t + of_int ttl) # ds) (mc_set k v (Some ttl) t c)
      (AList.update (p @ k) (s, Some (t + of_int ttl)) r)"
    using same_cache_mono [OF assms(1) order_refl, of "(t + of_int ttl) # ds"] assms(2) s
    by (auto simp: same_cache_def mc_set_def) (auto simp: same_entry_def)
  with s assms(2) show ?thesis by (simp add: rc_set_def)
qed

lemma same_delete:
  "same_cache enc p t ds c r \<Longrightarrow> same_cache enc p t ds (mc_delete k c) (rc_delete p k r)"
  unfolding same_cache_def by (auto simp: mc_delete_def rc_delete_def) (simp add: same_entry_def)

lemma backends_simulate:
  assumes codec: "\<And>v. \<exists>s. enc v = Inr s \<and> dec s = Inr v"
  shows "regular_trace now ds calls \<Longrightarrow> same_cache enc p now ds c r \<Longrightarrow> rc_run enc dec p calls r = Inr (mc_run calls c)"
proof (induction calls arbitrary: now ds c r)
  case (Cons tc calls)
  obtain t call where tc: "tc = (t, call)" by fastforce
  from Cons.prems(1) have t: "now \<le> t" "t \<notin> set ds" by (simp_all add: tc)
  have s: "same_cache enc p t ds c r" using same_cache_mono [OF Cons.prems(2) t(1)] by simp
  have enc: "\<exists>s. enc v = Inr s" and dec: "enc v = Inr s \<Longrightarrow> dec s = Inr v" for v s
    using codec [of v] by auto
  have look: "rc_get dec p k t r = Inr (fst (mc_get k t c)) \<and> rc_exists p k t r = fst (mc_exists k t c) \<and>
      same_cache enc p t ds (snd (mc_get k t c)) r \<and> snd (mc_exists k t c) = snd (mc_get k t c)" for k
    by (rule same_lookup [OF s t(2)]) (rule dec)
  show ?case
  proof (cases call)
    case (Put k v ttl)
    with Cons.prems(1) have ttl: "0 < ttl" "regular_trace t ((t + of_int ttl) # ds) calls" by (simp_all add: tc)
    from same_put [OF s ttl(1) enc] obtain r' where "rc_set enc p k v (Some ttl) t r = Inr r'"
      "same_cache enc p t ((t + of_int ttl) # ds) (mc_set k v (Some ttl) t c) r'" by blast
    with Cons.IH [OF ttl(2)] show ?thesis by (simp add: tc Put)
  next
    case (Get k)
    with Cons.prems(1) Cons.IH [of t ds "snd (mc_get k t c)" r] look [of k] show ?thesis
      by (simp add: tc split: prod.splits)
  next
    case (Exists k)
    obtain b c' where e: "mc_exists k t c = (b, c')" by fastforce
    with Exists Cons.prems(1) Cons.IH [of t ds "snd (mc_get k t c)" r] look [of k] show ?thesis
      by (simp add: tc)
  next
    case (Remove k)
    with Cons.prems(1) Cons.IH [OF _ same_delete [OF s]] show ?thesis by (simp add: tc)
  qed
qed simp

text \<open>C22: the in-process cache can stand in for Redis for a client that gets, sets with a positive time to
  live that it names, deletes and asks for keys: over values that the codec gives back, both answer
  every such call alike, unless a call comes at the very instant of an expiry.  A set that leaves the
  time to live to the default is not among these calls; there the two differ.\<close>

theorem backends_agree:
  assumes "\<And>v. \<exists>s. enc v = Inr s \<and> dec s = Inr v" and "regular_trace 0 [] calls"
  shows "rc_run enc dec p calls [] = Inr (mc_run calls \<lparr>mc_store = [], mc_default = d\<rparr>)"
  by (rule backends_simulate [OF assms]) (simp add: same_cache_def same_entry_def)

lemma backends_agree_witness:
  "rc_run Inr Inr ''cache:'' [(0, Put ''k'' ''v'' 10), (5, Get ''k''), (11, Get ''k'')] [] = Inr [Done, Value (Some ''v''), Value None]"
  using backends_agree [where enc = Inr and dec = Inr and p = "''cache:''" and d = 3600
      and calls = "[(0, Put ''k'' ''v'' 10), (5, Get ''k''), (11, Get ''k'')]"]
  by (simp add: mc_set_def mc_get_def mc_expired_def)

text \<open>Without a time to live the two differ: the one keeps the key, the other drops it after its default.\<close>

lemma default_lifetimes_differ:
  "0 < d \<Longrightarrow> fst (mc_get k (of_int d + 1) (mc_set k v None 0 \<lparr>mc_store = [], mc_default = d\<rparr>)) = None \<and>
   redis_get k (of_int d + 1) (AList.update k (v, None) []) = Some v"
  by (simp add: mc_get_value mc_set_def mc_expired_def redis_get_def redis_live_def)

text \<open>A role whose name has a colon shares its keys with another role.\<close>

lemma role_keys_collide: "role_key ''a'' ''b:c'' = role_key ''a:b'' ''c''"
  by (simp add: role_key_def)

end
