(* ===== verification/Rbac.thy ===== *)
theory Rbac
  imports Prelude
begin

text \<open>
  Role-based access control: \<^verbatim>\<open>shared/rbac.py\<close>.  The scopes are ordered by what they reach, so that a
  grant covers a request when its scope is at least the one asked for; the theorems compare the code's
  check, role by role, with this reading.
\<close>

datatype resource = CONVERSATIONS | KNOWLEDGE | REPORTS | SETTINGS | AGENTS | TENANTS | BILLING
datatype rb_action = VIEW | CREATE | EDIT | DELETE | EXPORT | MANAGE
datatype scope = SCOPE_ALL | SCOPE_DEPARTMENT | SCOPE_OWN
datatype role = SUPER_ADMIN | ADMIN | TEAM_LEAD | AGENT | VIEWER | CUSTOM

type_synonym permission = "resource \<times> rb_action \<times> scope"

text \<open>The order of the scopes: \<open>SCOPE_OWN\<close> below \<open>SCOPE_DEPARTMENT\<close> below \<open>SCOPE_ALL\<close>.\<close>

fun scope_reach :: "scope \<Rightarrow> nat" where
  "scope_reach SCOPE_OWN = 0" | "scope_reach SCOPE_DEPARTMENT = 1" | "scope_reach SCOPE_ALL = 2"

instantiation scope :: linorder
begin

definition less_eq_scope :: "scope \<Rightarrow> scope \<Rightarrow> bool" where
  "less_eq_scope a b \<longleftrightarrow> scope_reach a \<le> scope_reach b"

definition less_scope :: "scope \<Rightarrow> scope \<Rightarrow> bool" where
  "less_scope a b \<longleftrightarrow> scope_reach a < scope_reach b"

instance
proof
  fix a b c :: scope
  show "a < b \<longleftrightarrow> a \<le> b \<and> \<not> b \<le> a" by (auto simp: less_eq_scope_def less_scope_def)
  show "a \<le> a" by (simp add: less_eq_scope_def)
  show "a \<le> b \<Longrightarrow> b \<le> c \<Longrightarrow> a \<le> c" by (simp add: less_eq_scope_def)
  show "a \<le> b \<Longrightarrow> b \<le> a \<Longrightarrow> a = b" by (cases a; cases b) (auto simp: less_eq_scope_def)
  show "a \<le> b \<or> b \<le> a" by (auto simp: less_eq_scope_def)
qed

end

lemma scope_order [simp]: "SCOPE_OWN \<le> s" "s \<le> SCOPE_ALL" "SCOPE_DEPARTMENT \<le> s \<longleftrightarrow> s \<noteq> SCOPE_OWN" "s \<le> SCOPE_DEPARTMENT \<longleftrightarrow> s \<noteq> SCOPE_ALL" "SCOPE_ALL \<le> s \<longleftrightarrow> s = SCOPE_ALL"
  by (cases s; simp add: less_eq_scope_def)+

section \<open>Grants\<close>

definition all_actions :: "resource \<Rightarrow> permission list" where
  "all_actions r = map (\<lambda>a. (r, a, SCOPE_ALL)) [VIEW, CREATE, EDIT, DELETE, EXPORT, MANAGE]"

fun PERMISSIONS :: "role \<Rightarrow> permission list" where
  "PERMISSIONS SUPER_ADMIN = concat (map all_actions [CONVERSATIONS, KNOWLEDGE, REPORTS, SETTINGS, AGENTS, TENANTS, BILLING])"
| "PERMISSIONS ADMIN = [(CONVERSATIONS, MANAGE, SCOPE_ALL), (KNOWLEDGE, MANAGE, SCOPE_DEPARTMENT), (REPORTS, VIEW, SCOPE_ALL),
     (SETTINGS, MANAGE, SCOPE_DEPARTMENT)]"
| "PERMISSIONS TEAM_LEAD = [(CONVERSATIONS, VIEW, SCOPE_DEPARTMENT), (CONVERSATIONS, EDIT, SCOPE_DEPARTMENT), (KNOWLEDGE, VIEW, SCOPE_DEPARTMENT),
     (KNOWLEDGE, CREATE, SCOPE_DEPARTMENT), (REPORTS, VIEW, SCOPE_DEPARTMENT)]"
| "PERMISSIONS AGENT = [(CONVERSATIONS, VIEW, SCOPE_OWN), (CONVERSATIONS, EDIT, SCOPE_OWN), (KNOWLEDGE, VIEW, SCOPE_ALL)]"
| "PERMISSIONS VIEWER = [(CONVERSATIONS, VIEW, SCOPE_OWN), (REPORTS, VIEW, SCOPE_OWN)]"
| "PERMISSIONS CUSTOM = []"

record rbac_context =
  rb_user :: string
  rb_role :: role
  rb_tenant :: string
  rb_department :: "string option"
  rb_custom :: "permission list"

definition truthy_department :: "rbac_context \<Rightarrow> bool" where
  "truthy_department c \<longleftrightarrow> (case rb_department c of None \<Rightarrow> False | Some d \<Rightarrow> d \<noteq> [])"

definition grants :: "rbac_context \<Rightarrow> permission list" where
  "grants c = (if rb_role c = CUSTOM then rb_custom c else PERMISSIONS (rb_role c))"

definition has_permission :: "rbac_context \<Rightarrow> resource \<Rightarrow> rb_action \<Rightarrow> scope \<Rightarrow> bool" where
  "has_permission c res act sc \<longleftrightarrow>
     rb_role c = SUPER_ADMIN \<or>
     list_ex (\<lambda>(r, a, s). r = res \<and> a = act \<and> (s = SCOPE_ALL \<or> s = sc \<or> (s = SCOPE_DEPARTMENT \<and> truthy_department c))) (grants c)"

text \<open>The resources come from a set, so in no particular order; the model keeps the first occurrences.\<close>

definition get_allowed_resources :: "rbac_context \<Rightarrow> rb_action \<Rightarrow> resource list" where
  "get_allowed_resources c act =
     (if rb_role c = SUPER_ADMIN then [CONVERSATIONS, KNOWLEDGE, REPORTS, SETTINGS, AGENTS, TENANTS, BILLING]
      else remdups (map fst (filter (\<lambda>(r, a, s). a = act) (PERMISSIONS (rb_role c) @ rb_custom c))))"

text \<open>The decorator: \<open>PermissionError\<close> is \<open>None\<close>; a call without the keyword \<open>_rbac\<close> is let through.\<close>

definition check_permission :: "resource \<Rightarrow> rb_action \<Rightarrow> scope \<Rightarrow> rbac_context option \<Rightarrow> (unit \<Rightarrow> 'a) \<Rightarrow> 'a option" where
  "check_permission res act sc rbac func =
     (case rbac of None \<Rightarrow> Some (func ())
      | Some c \<Rightarrow> if has_permission c res act sc then Some (func ()) else None)"

record audit_log =
  al_user :: string
  al_action :: rb_action
  al_resource :: resource
  al_resource_id :: string
  al_tenant :: string

definition log_audit :: "audit_log \<Rightarrow> audit_log list \<Rightarrow> audit_log list" where
  "log_audit l logs = logs @ [l]"

definition get_logs :: "string \<Rightarrow> string option \<Rightarrow> resource option \<Rightarrow> audit_log list \<Rightarrow> audit_log list" where
  "get_logs tenant user res logs =
     (let f1 = filter (\<lambda>l. al_tenant l = tenant) logs;
          f2 = (case user of None \<Rightarrow> f1 | Some u \<Rightarrow> if u = [] then f1 else filter (\<lambda>l. al_user l = u) f1)
      in case res of None \<Rightarrow> f2 | Some r \<Rightarrow> filter (\<lambda>l. al_resource l = r) f2)"

section \<open>What the check grants\<close>

lemma permission_grant:
  "has_permission c res act sc \<longleftrightarrow> rb_role c = SUPER_ADMIN \<or>
    (\<exists>s. (res, act, s) \<in> set (grants c) \<and> (s = SCOPE_ALL \<or> s = sc \<or> (s = SCOPE_DEPARTMENT \<and> truthy_department c)))"
  by (auto simp: has_permission_def list_ex_iff)

text \<open>The policy as one reads it off the roles: the widest scope in which a role may do something.\<close>

fun granted_scope :: "role \<Rightarrow> resource \<Rightarrow> rb_action \<Rightarrow> scope option" where
  "granted_scope SUPER_ADMIN res act = Some SCOPE_ALL"
| "granted_scope ADMIN res act =
     (if act = MANAGE then (if res = CONVERSATIONS then Some SCOPE_ALL
                            else if res = KNOWLEDGE \<or> res = SETTINGS then Some SCOPE_DEPARTMENT else None)
      else if act = VIEW \<and> res = REPORTS then Some SCOPE_ALL else None)"
| "granted_scope TEAM_LEAD res act =
     (if (res = REPORTS \<and> act = VIEW) \<or> (res = CONVERSATIONS \<and> (act = VIEW \<or> act = EDIT)) \<or>
         (res = KNOWLEDGE \<and> (act = VIEW \<or> act = CREATE)) then Some SCOPE_DEPARTMENT else None)"
| "granted_scope AGENT res act =
     (if res = KNOWLEDGE \<and> act = VIEW then Some SCOPE_ALL
      else if res = CONVERSATIONS \<and> (act = VIEW \<or> act = EDIT) then Some SCOPE_OWN else None)"
| "granted_scope VIEWER res act =
     (if act = VIEW \<and> (res = CONVERSATIONS \<or> res = REPORTS) then Some SCOPE_OWN else None)"
| "granted_scope CUSTOM res act = None"

text \<open>C24: for the built-in roles, the check against the order of the scopes.  A grant for everything or
  for the user's own data reaches as far as the order says.  A grant for the department does not: it
  passes a request for any scope, everything included, when the user has a department, and a request
  for the department alone, not the user's own data, when not.\<close>

theorem has_permission_covered:
  assumes "rb_role c \<noteq> CUSTOM"
  shows "has_permission c res act sc \<longleftrightarrow>
    (case granted_scope (rb_role c) res act of
       None \<Rightarrow> False
     | Some s \<Rightarrow> if s = SCOPE_DEPARTMENT then truthy_department c \<or> sc = SCOPE_DEPARTMENT else sc \<le> s)"
  using assms by (cases "rb_role c"; cases sc) (auto simp: permission_grant grants_def less_eq_scope_def)

lemma has_permission_covered_witness:
  "has_permission \<lparr>rb_user = ''u'', rb_role = ADMIN, rb_tenant = ''t'', rb_department = Some ''it'', rb_custom = []\<rparr>
     SETTINGS MANAGE SCOPE_ALL \<and>
   \<not> has_permission \<lparr>rb_user = ''u'', rb_role = ADMIN, rb_tenant = ''t'', rb_department = None, rb_custom = []\<rparr>
     SETTINGS MANAGE SCOPE_OWN"
  by (simp add: has_permission_covered truthy_department_def)

text \<open>
  A team lead of a department may view every conversation: a request for all of them passes on a grant
  for the department.  An administrator may manage conversations and not view them.
\<close>

theorem team_lead_sees_all:
  assumes "rb_role c = TEAM_LEAD"
  shows "has_permission c CONVERSATIONS VIEW SCOPE_ALL \<longleftrightarrow> truthy_department c"
  using assms by (auto simp: permission_grant grants_def)

lemma team_lead_sees_all_witness:
  "has_permission \<lparr>rb_user = ''u'', rb_role = TEAM_LEAD, rb_tenant = ''t'', rb_department = Some ''sales'', rb_custom = []\<rparr>
     CONVERSATIONS VIEW SCOPE_ALL"
  using team_lead_sees_all [of "\<lparr>rb_user = ''u'', rb_role = TEAM_LEAD, rb_tenant = ''t'', rb_department = Some ''sales'', rb_custom = []\<rparr>"]
  by (simp add: truthy_department_def)

lemma admin_cannot_view: "rb_role c = ADMIN \<Longrightarrow> \<not> has_permission c CONVERSATIONS VIEW sc \<and> has_permission c CONVERSATIONS MANAGE sc"
  by (auto simp: permission_grant grants_def)

lemma unchecked_call: "check_permission res act sc None func = Some (func ())"
  by (simp add: check_permission_def)

lemma custom_grants_listed_not_checked:
  "rb_role c = VIEWER \<Longrightarrow> rb_custom c = [(BILLING, VIEW, SCOPE_ALL)] \<Longrightarrow>
   BILLING \<in> set (get_allowed_resources c VIEW) \<and> \<not> has_permission c BILLING VIEW SCOPE_ALL"
  by (simp add: get_allowed_resources_def permission_grant grants_def)

lemma logs_of_tenant: "l \<in> set (get_logs tenant user res logs) \<Longrightarrow> l \<in> set logs \<and> al_tenant l = tenant"
  by (auto simp: get_logs_def Let_def split: option.splits if_splits)

end
