(* ===== verification/Dialogue.thy ===== *)
theory Dialogue
  imports Prelude PyStd
begin

text \<open>
  The dialogue layer: rule-based intents (\<^verbatim>\<open>chat_service/agent/intent_recognition.py\<close>) and the
  conversation's state machine (\<^verbatim>\<open>chat_service/agent/state_machine.py\<close>), and the two together.
\<close>

section \<open>Intents\<close>

text \<open>\<open>str.lower\<close> for the searches below: the dotted capital I becomes two code points.\<close>

definition lower_text :: "ucs \<Rightarrow> ucs" where
  "lower_text s = concat (map (\<lambda>c. if c = 304 then [105, 775] else [lower_ucs c]) s)"

text \<open>\<open>^(a|b|...)\<close> and \<open>(a|b|...)\<close> on plain words.\<close>

definition begins_with_any :: "ucs list \<Rightarrow> ucs \<Rightarrow> bool" where
  "begins_with_any ws s \<longleftrightarrow> list_ex (\<lambda>w. starts_with w s) ws"

definition contains_any :: "ucs list \<Rightarrow> ucs \<Rightarrow> bool" where
  "contains_any ws s \<longleftrightarrow> list_ex (\<lambda>w. sub_in w s) ws"

definition GREETING_WORDS :: "ucs list" where
  "GREETING_WORDS = [[20320, 22909], [24744, 22909], ucs_of ''hello'', ucs_of ''hi'', ucs_of ''hey'', [21992]] @ [[26089, 19978, 22909], [19979, 21320, 22909], [26202, 19978, 22909]]"

definition QUERY_WORDS :: "ucs list" where
  "QUERY_WORDS = [[20160, 20040], [24590, 20040], [22914, 20309], [20026, 20160, 20040], [21738, 37324], [35841], [22810, 23569], [20960]] @ [ucs_of ''what'', ucs_of ''how'', ucs_of ''why'', ucs_of ''where'', ucs_of ''who'', ucs_of ''when'']"

definition TASK_PATTERNS :: "(string \<times> ucs list) list" where
  "TASK_PATTERNS = [(''search'', [[25214], [25628, 32034], [26597, 25214], ucs_of ''look for'', ucs_of ''search'', ucs_of ''find'']), (''create'', [[21019, 24314], [26032, 22686], [28155, 21152], ucs_of ''add'', ucs_of ''create'', ucs_of ''new'']), (''update'', [[20462, 25913], [26356, 26032], [32534, 36753], ucs_of ''edit'', ucs_of ''update'', ucs_of ''change'']), (''delete'', [[21024, 38500], [31227, 38500], [21462, 28040], ucs_of ''delete'', ucs_of ''remove'', ucs_of ''cancel''])]"

definition HELP_WORDS :: "ucs list" where
  "HELP_WORDS = [[24110, 21161], ucs_of ''help'', ucs_of ''support'', ucs_of ''assist'', [24110, 24110, 25105]]"

definition COMPLAINT_WORDS :: "ucs list" where
  "COMPLAINT_WORDS = [[38382, 39064], ucs_of ''issue'', ucs_of ''problem'', [25237, 35785], [24046, 35780], ucs_of ''complaint'']"

definition classify_intent :: "ucs \<Rightarrow> string \<times> rat" where
  "classify_intent msg =
     (let s = strip (lower_text msg) in
      if begins_with_any GREETING_WORDS s then (''greeting'', 95 / 100)
      else if begins_with_any QUERY_WORDS s then (''query'', 9 / 10)
      else if contains_any HELP_WORDS s then (''help'', 9 / 10)
      else if contains_any COMPLAINT_WORDS s then (''complaint'', 85 / 100)
      else case find (\<lambda>(k, ws). contains_any ws s) TASK_PATTERNS of
          Some (k, ws) \<Rightarrow> (''task:'' @ k, 85 / 100)
        | None \<Rightarrow> (''query'', 5 / 10))"

definition compute_confidence :: "string \<Rightarrow> nat \<Rightarrow> rat option \<Rightarrow> rat" where
  "compute_confidence intent entities accuracy =
     (let intent_score = (if starts_with ''task:'' intent then 6 / 10 else 8 / 10);
          entity_coverage = min 1 (of_nat entities / 2);
          context_score = (case accuracy of None \<Rightarrow> 5 / 10 | Some a \<Rightarrow> a)
      in intent_score * (5 / 10) + entity_coverage * (3 / 10) + context_score * (2 / 10))"

definition CONJUNCTIONS :: "ucs list" where
  "CONJUNCTIONS = [[21644], [24182, 19988], ucs_of ''and'', ucs_of ''also'']"

definition detect_multi_intent :: "ucs \<Rightarrow> string list" where
  "detect_multi_intent msg =
     (case find (\<lambda>w. sub_in w msg) CONJUNCTIONS of
        Some w \<Rightarrow> map (\<lambda>part. fst (classify_intent (strip part))) (py_split w msg)
      | None \<Rightarrow> [fst (classify_intent msg)])"

section \<open>The state machine\<close>

datatype conversation_state =
    INITIAL | GREETING | INTENT_CLARIFICATION | ENTITY_COLLECTION | TASK_EXECUTION | CONFIRMATION | COMPLETION | ERROR

definition STATE_TRANSITIONS :: "((conversation_state \<times> string) \<times> conversation_state) list" where
  "STATE_TRANSITIONS =
     [((INITIAL, ''greeting''), GREETING), ((INITIAL, ''query''), TASK_EXECUTION), ((INITIAL, ''task''), ENTITY_COLLECTION),
      ((INITIAL, ''help''), GREETING), ((INITIAL, ''complaint''), ENTITY_COLLECTION), ((GREETING, ''query''), TASK_EXECUTION),
      ((GREETING, ''task''), ENTITY_COLLECTION), ((ENTITY_COLLECTION, ''complete''), TASK_EXECUTION),
      ((TASK_EXECUTION, ''confirm''), CONFIRMATION), ((CONFIRMATION, ''complete''), COMPLETION),
      ((COMPLETION, ''greeting''), INITIAL)]"

definition next_state :: "conversation_state \<Rightarrow> string \<Rightarrow> bool \<Rightarrow> conversation_state" where
  "next_state current intent entities_complete =
     (if \<not> entities_complete \<and> intent = ''task'' then ENTITY_COLLECTION
      else case map_of STATE_TRANSITIONS (current, intent) of None \<Rightarrow> INITIAL | Some s \<Rightarrow> s)"

record conversation_context =
  cx_state :: conversation_state
  cx_intent :: "string option"
  cx_entities :: "(string \<times> ucs) list"
  cx_unresolved :: nat

definition new_context :: conversation_context where
  "new_context = \<lparr>cx_state = INITIAL, cx_intent = None, cx_entities = [], cx_unresolved = 0\<rparr>"

definition update_context :: "string option \<Rightarrow> (string \<times> ucs) list option \<Rightarrow> conversation_context \<Rightarrow> conversation_context" where
  "update_context intent entities c =
     (let c1 = (case intent of None \<Rightarrow> c | Some i \<Rightarrow> if i = [] then c else c\<lparr>cx_intent := Some i\<rparr>);
          c2 = (case entities of None \<Rightarrow> c1
                | Some es \<Rightarrow> c1\<lparr>cx_entities := fold (\<lambda>(k, v) d. AList.update k v d) es (cx_entities c1)\<rparr>)
      in case cx_intent c2 of
           None \<Rightarrow> c2
         | Some i \<Rightarrow> if i = [] then c2 else c2\<lparr>cx_state := next_state (cx_state c2) i (cx_entities c2 \<noteq> [])\<rparr>)"

definition increment_unresolved :: "conversation_context \<Rightarrow> conversation_context" where
  "increment_unresolved c = c\<lparr>cx_unresolved := cx_unresolved c + 1\<rparr>"

definition reset_unresolved :: "conversation_context \<Rightarrow> conversation_context" where
  "reset_unresolved c = c\<lparr>cx_unresolved := 0\<rparr>"

section \<open>Properties\<close>

lemma classified: "fst (classify_intent msg) \<in> {''greeting'', ''query'', ''help'', ''complaint''} \<or> starts_with ''task:'' (fst (classify_intent msg))"
  by (auto simp: classify_intent_def Let_def starts_with_def split: option.splits)

text \<open>
  The classifier's confidence is between 0.5 and 0.95, and the combined one between 0 and 1 where the
  recorded accuracy is.
\<close>

theorem confidence_bounds:
  assumes "case accuracy of None \<Rightarrow> True | Some a \<Rightarrow> 0 \<le> a \<and> a \<le> 1"
  shows "0 \<le> compute_confidence intent n accuracy \<and> compute_confidence intent n accuracy \<le> 1 \<and>
    1 / 2 \<le> snd (classify_intent msg) \<and> snd (classify_intent msg) \<le> 95 / 100"
proof -
  have c: "1 / 2 \<le> snd (classify_intent msg)" "snd (classify_intent msg) \<le> 95 / 100"
    by (auto simp: classify_intent_def Let_def split: option.splits)
  have e: "0 \<le> min 1 (of_nat n / 2 :: rat)" "min 1 (of_nat n / 2 :: rat) \<le> 1" by auto
  show ?thesis
    using assms c e unfolding compute_confidence_def Let_def
    by (auto split: option.splits)
qed

lemma confidence_bounds_witness: "compute_confidence ''query'' 3 (Some (9 / 10)) \<le> 1"
  using confidence_bounds [of "Some (9 / 10)" "''query''" 3] by simp

text \<open>
  Intents are classified as \<open>task:...\<close>, and the machine has transitions for \<open>task\<close>: from whatever state,
  a classified task sends the conversation back to its beginning.
\<close>

lemma task_restarts: "starts_with ''task:'' i \<Longrightarrow> next_state s i e = INITIAL"
proof -
  assume "starts_with ''task:'' i"
  then obtain r where i: "i = ''task:'' @ r" by (auto simp: starts_with_iff)
  show ?thesis by (simp add: next_state_def STATE_TRANSITIONS_def i)
qed

definition classified_states :: "conversation_state set" where
  "classified_states = {INITIAL, GREETING, ENTITY_COLLECTION, TASK_EXECUTION}"

lemma classified_next:
  assumes "s \<in> classified_states"
  shows "next_state s (fst (classify_intent msg)) e \<in> classified_states"
proof -
  note c = classified [of msg]
  show ?thesis
  proof (cases "starts_with ''task:'' (fst (classify_intent msg))")
    case True
    then show ?thesis by (simp add: task_restarts classified_states_def)
  next
    case False
    with c assms show ?thesis
      by (elim disjE insertE emptyE) (auto simp: next_state_def STATE_TRANSITIONS_def classified_states_def)
  qed
qed

definition converse :: "(ucs \<times> (string \<times> ucs) list option) list \<Rightarrow> conversation_context \<Rightarrow> conversation_context" where
  "converse = fold (\<lambda>(msg, entities). update_context (Some (fst (classify_intent msg))) entities)"

text \<open> 
  A conversation that is updated with the classified intent of each message is never confirmed or
  completed: whatever the messages and entities, its state stays among the first four.
\<close>

theorem conversation_never_completes:
  "cx_state (converse turns new_context) \<notin> {CONFIRMATION, COMPLETION, INTENT_CLARIFICATION, ERROR}"
proof -
  have "cx_state c \<in> classified_states \<Longrightarrow> cx_state (converse turns c) \<in> classified_states" for c
  proof (induction turns arbitrary: c)
    case (Cons t turns)
    obtain msg es where t: "t = (msg, es)" by fastforce
    have "fst (classify_intent msg) \<noteq> []" using classified [of msg] by (auto simp: starts_with_def)
    then have "cx_state (update_context (Some (fst (classify_intent msg))) es c) \<in> classified_states"
      using Cons.prems classified_next by (auto simp: update_context_def Let_def split: option.splits)
    with Cons.IH show ?case by (simp add: converse_def t)
  qed (simp add: converse_def)
  from this [of new_context] show ?thesis by (auto simp: new_context_def classified_states_def)
qed

text \<open>Entities that arrive without a new intent repeat the old one: collecting them restarts the task.\<close>

theorem entities_restart_task:
  assumes "es \<noteq> []"
  shows "cx_state (update_context None (Some es) (update_context (Some ''task'') None new_context)) = INITIAL"
proof -
  have "fold (\<lambda>(k, v) d. AList.update k v d) xs d \<noteq> []" if "d \<noteq> [] \<or> xs \<noteq> []" for xs :: "(string \<times> ucs) list" and d
    using that
  proof (induction xs arbitrary: d)
    case (Cons x xs)
    have "AList.update k v d \<noteq> []" for k v by (cases d) (auto split: if_splits)
    with Cons.IH show ?case by (simp split: prod.split)
  qed simp
  with assms show ?thesis
    by (simp add: update_context_def new_context_def next_state_def STATE_TRANSITIONS_def)
qed

lemma entities_restart_task_witness:
  "cx_state (update_context None (Some [(''id'', [49])]) (update_context (Some ''task'') None new_context)) = INITIAL"
  by (rule entities_restart_task) simp

end
