(* ===== verification/Sessions.thy ===== *)
theory Sessions
  imports Experiment Router Dialogue
begin

text \<open>
  \<^verbatim>\<open>chat_service/agent/session_manager.py\<close>.  Message nodes are shared between a session's list and its
  threads and are changed through either, so they live in a heap: the lists hold addresses.
\<close>

section \<open>State\<close>

datatype session_type = SHORT_TERM | LONG_TERM | SESSION_GROUP
datatype importance = CRITICAL | HIGH | MEDIUM | LOW

fun importance_value :: "importance \<Rightarrow> int" where
  "importance_value CRITICAL = 3" | "importance_value HIGH = 2" | "importance_value MEDIUM = 1" | "importance_value LOW = 0"

record session_meta =
  sm_session :: string
  sm_tenant :: string
  sm_user :: string
  sm_type :: session_type
  sm_created :: time
  sm_activity :: time
  sm_count :: int
  sm_topics :: "string list"
  sm_bookmarks :: "int list"

record message_node =
  mn_id :: string
  mn_content :: ucs
  mn_role :: string
  mn_time :: time
  mn_importance :: importance
  mn_topic :: "string option"
  mn_thread :: "string option"

record conv_thread =
  ct_id :: string
  ct_title :: ucs
  ct_messages :: "nat list"
  ct_created :: time
  ct_last :: time

record session_manager =
  sg_budget :: int
  sg_sessions :: "(string \<times> session_meta) list"
  sg_messages :: "(string \<times> nat list) list"
  sg_threads :: "(string \<times> conv_thread) list"
  sg_heap :: "message_node list"

definition MAX_TOKEN_BUDGET :: int where "MAX_TOKEN_BUDGET = 8192"

definition new_manager :: "int option \<Rightarrow> session_manager" where
  "new_manager budget = \<lparr>sg_budget = (case budget of None \<Rightarrow> MAX_TOKEN_BUDGET | Some b \<Rightarrow> if b = 0 then MAX_TOKEN_BUDGET else b),
     sg_sessions = [], sg_messages = [], sg_threads = [], sg_heap = []\<rparr>"

section \<open>Operations\<close>

definition create_session :: "string \<Rightarrow> string \<Rightarrow> string \<Rightarrow> session_type \<Rightarrow> time \<Rightarrow> session_manager \<Rightarrow> session_manager" where
  "create_session sid tenant user ty now m =
     m\<lparr>sg_sessions := AList.update sid \<lparr>sm_session = sid, sm_tenant = tenant, sm_user = user, sm_type = ty,
          sm_created = now, sm_activity = now, sm_count = 0, sm_topics = [], sm_bookmarks = []\<rparr> (sg_sessions m),
       sg_messages := AList.update sid [] (sg_messages m)\<rparr>"

definition get_session :: "string \<Rightarrow> session_manager \<Rightarrow> session_meta option" where
  "get_session sid m = map_of (sg_sessions m) sid"

text \<open>The node is made, and handed out, whether or not there is such a session.\<close>

definition add_topic :: "string option \<Rightarrow> session_meta \<Rightarrow> session_meta" where
  "add_topic topic s = (case topic of None \<Rightarrow> s
     | Some t \<Rightarrow> if t \<noteq> [] \<and> t \<notin> set (sm_topics s) then s\<lparr>sm_topics := sm_topics s @ [t]\<rparr> else s)"

definition add_message ::
  "string \<Rightarrow> string \<Rightarrow> ucs \<Rightarrow> string \<Rightarrow> importance \<Rightarrow> string option \<Rightarrow> time \<Rightarrow> session_manager \<Rightarrow> nat \<times> session_manager" where
  "add_message sid mid content role imp topic now m =
     (let a = length (sg_heap m);
          node = \<lparr>mn_id = mid, mn_content = content, mn_role = role, mn_time = now, mn_importance = imp,
                  mn_topic = topic, mn_thread = None\<rparr>;
          m1 = m\<lparr>sg_heap := sg_heap m @ [node]\<rparr>;
          m2 = (case map_of (sg_messages m1) sid of None \<Rightarrow> m1
                | Some as \<Rightarrow> m1\<lparr>sg_messages := AList.update sid (as @ [a]) (sg_messages m1)\<rparr>);
          m3 = (case map_of (sg_sessions m2) sid of None \<Rightarrow> m2
                | Some s \<Rightarrow> m2\<lparr>sg_sessions := AList.update sid
                    (add_topic topic (s\<lparr>sm_count := sm_count s + 1, sm_activity := now\<rparr>)) (sg_sessions m2)\<rparr>)
      in (a, m3))"

definition set_thread :: "string \<Rightarrow> nat \<Rightarrow> message_node list \<Rightarrow> message_node list" where
  "set_thread th a heap = heap[a := (heap ! a)\<lparr>mn_thread := Some th\<rparr>]"

definition create_thread :: "string \<Rightarrow> ucs \<Rightarrow> string option \<Rightarrow> time \<Rightarrow> session_manager \<Rightarrow> string \<times> session_manager" where
  "create_thread sid title initial now m =
     (let th = ''thread_'' @ show_int (int (length (sg_threads m)) + 1);
          found = (case initial of None \<Rightarrow> None
            | Some mid \<Rightarrow> if mid = [] then None else (case map_of (sg_messages m) sid of None \<Rightarrow> None
                | Some as \<Rightarrow> find (\<lambda>a. mn_id (sg_heap m ! a) = mid) as))
      in (th, m\<lparr>sg_heap := (case found of None \<Rightarrow> sg_heap m | Some a \<Rightarrow> set_thread th a (sg_heap m)),
           sg_threads := AList.update th \<lparr>ct_id = th, ct_title = title,
             ct_messages = (case found of None \<Rightarrow> [] | Some a \<Rightarrow> [a]), ct_created = now, ct_last = now\<rparr> (sg_threads m)\<rparr>))"

definition add_to_thread :: "string \<Rightarrow> nat \<Rightarrow> time \<Rightarrow> session_manager \<Rightarrow> session_manager" where
  "add_to_thread th a now m =
     (case map_of (sg_threads m) th of None \<Rightarrow> m
      | Some t \<Rightarrow> m\<lparr>sg_heap := set_thread th a (sg_heap m),
          sg_threads := AList.update th (t\<lparr>ct_messages := ct_messages t @ [a], ct_last := now\<rparr>) (sg_threads m)\<rparr>)"

definition create_bookmark :: "string \<Rightarrow> int \<Rightarrow> session_manager \<Rightarrow> session_manager" where
  "create_bookmark sid i m =
     (case map_of (sg_sessions m) sid of None \<Rightarrow> m
      | Some s \<Rightarrow> if i \<in> set (sm_bookmarks s) then m
          else m\<lparr>sg_sessions := AList.update sid (s\<lparr>sm_bookmarks := sm_bookmarks s @ [i]\<rparr>) (sg_sessions m)\<rparr>)"

definition IMPORTANT_PATTERNS :: "ucs list list" where
  "IMPORTANT_PATTERNS =
     [map ucs_of [''thank'', ''thanks'', ''please'', ''appreciate''],
      map ucs_of [''order'', ''account'', ''payment'', ''refund''],
      map ucs_of [''problem'', ''issue'', ''error'', ''wrong'']]"

definition score_message_importance :: "ucs \<Rightarrow> string \<Rightarrow> int \<Rightarrow> int \<Rightarrow> bool \<Rightarrow> importance" where
  "score_message_importance message role position n tool_call =
     (let s1 = importance_value MEDIUM + (if role = ''system'' then importance_value CRITICAL
                 else if tool_call then importance_value HIGH else 0);
          s2 = s1 + (if position < 3 then importance_value HIGH else if position \<ge> n - 3 then importance_value HIGH else 0);
          score = s2 + int (length (filter (\<lambda>ws. keyword_search ws message) IMPORTANT_PATTERNS))
      in if score \<ge> importance_value CRITICAL * 2 then CRITICAL
         else if score \<ge> importance_value HIGH * 2 then HIGH
         else if score \<le> importance_value LOW then LOW else MEDIUM)"

text \<open>The layers system, recent, semantic and procedural; \<open>//\<close> is \<open>div\<close>, which rounds down as well.\<close>

definition compute_token_budget :: "int \<Rightarrow> int \<times> int \<times> int \<times> int" where
  "compute_token_budget budget =
     (let system = min 1000 (budget div 4); recent = min 4000 (budget div 2);
          semantic = min 2000 (budget div 4); procedural = min 512 (budget div 16);
          remaining = budget - system - recent - semantic - procedural
      in (system, (if remaining > 0 then recent + remaining else recent), semantic, procedural))"

definition get_context_for_inference :: "string \<Rightarrow> session_manager \<Rightarrow> nat list" where
  "get_context_for_inference sid m =
     (case map_of (sg_messages m) sid of None \<Rightarrow> []
      | Some as \<Rightarrow>
          let recent = last_n 10 as;
              older = take (length as - 10) as;
              important = filter (\<lambda>a. importance_value (mn_importance (sg_heap m ! a)) \<ge> importance_value HIGH) older;
              combined = sort_desc (\<lambda>a. mn_time (sg_heap m ! a)) (recent @ take 5 important)
          in take 20 combined)"

definition TOPIC_KEYWORDS :: "(string \<times> ucs list) list" where
  "TOPIC_KEYWORDS =
     [(''orders'', map ucs_of [''order'', ''shipping'', ''delivery'', ''track'']),
      (''account'', map ucs_of [''account'', ''login'', ''password'', ''profile'']),
      (''billing'', map ucs_of [''payment'', ''invoice'', ''charge'', ''refund'']),
      (''technical'', map ucs_of [''error'', ''bug'', ''crash'', ''issue'']),
      (''general'', [])]"

definition detect_topics :: "ucs list \<Rightarrow> string list" where
  "detect_topics msgs =
     (let topics = fold (\<lambda>msg ts. fold (\<lambda>(t, ws) ts. if contains_any ws (lower_text msg) \<and> t \<notin> set ts then ts @ [t] else ts)
            TOPIC_KEYWORDS ts) msgs []
      in if topics = [] then [''general''] else topics)"

section \<open>The manager's invariant\<close>

definition mgr_init :: "session_manager \<Rightarrow> bool" where
  "mgr_init m \<longleftrightarrow> (\<exists>b. m = new_manager b)"

inductive mgr_step :: "session_manager \<Rightarrow> session_manager \<Rightarrow> bool" where
  create: "mgr_step m (create_session sid tenant user ty now m)"
| message: "mgr_step m (snd (add_message sid mid content role imp topic now m))"
| thread: "mgr_step m (snd (create_thread sid title initial now m))"
| to_thread: "a < length (sg_heap m) \<Longrightarrow> mgr_step m (add_to_thread th a now m)"
| bookmark: "mgr_step m (create_bookmark sid i m)"

definition thread_name :: "nat \<Rightarrow> string" where
  "thread_name i = ''thread_'' @ show_int (int i + 1)"

definition session_ok :: "nat \<Rightarrow> session_meta option \<Rightarrow> nat list option \<Rightarrow> bool" where
  "session_ok n s as \<longleftrightarrow> (case (s, as) of
      (Some s, Some as) \<Rightarrow> sm_count s = int (length as) \<and> distinct as \<and> set as \<subseteq> {..<n}
    | (None, None) \<Rightarrow> True | _ \<Rightarrow> False)"

definition threads_ok :: "(string \<times> conv_thread) list \<Rightarrow> bool" where
  "threads_ok ts \<longleftrightarrow> map fst ts = map thread_name [0..<length ts]"

definition mgr_inv :: "session_manager \<Rightarrow> bool" where
  "mgr_inv m \<longleftrightarrow> (\<forall>sid. session_ok (length (sg_heap m)) (map_of (sg_sessions m) sid) (map_of (sg_messages m) sid))
     \<and> threads_ok (sg_threads m)"

lemma session_ok_mono: "session_ok n s as \<Longrightarrow> n \<le> n' \<Longrightarrow> session_ok n' s as"
  by (fastforce simp: session_ok_def split: option.splits)

lemma thread_name_inj [simp]: "thread_name i = thread_name j \<longleftrightarrow> i = j"
proof
  assume "thread_name i = thread_name j"
  then have "dec_digits (nat (int i + 1)) = dec_digits (nat (int j + 1))" by (simp add: thread_name_def show_int_def)
  then show "i = j" unfolding dec_digits_inj by simp
qed simp

lemma update_new: "k \<notin> fst ` set al \<Longrightarrow> AList.update k v al = al @ [(k, v)]"
  by (induction al) auto

lemma update_keys_old: "k \<in> fst ` set al \<Longrightarrow> map fst (AList.update k v al) = map fst al"
  by (induction al) auto

lemma threads_distinct: "threads_ok ts \<Longrightarrow> distinct (map fst ts)"
  by (simp add: threads_ok_def distinct_map inj_on_def)

lemma threads_new:
  assumes "threads_ok ts"
  shows "threads_ok (AList.update (thread_name (length ts)) v ts)"
proof -
  have "fst ` set ts = thread_name ` {..<length ts}"
    using arg_cong [OF assms [unfolded threads_ok_def], of set] by (simp add: atLeast0LessThan)
  then have "thread_name (length ts) \<notin> fst ` set ts" by auto
  with assms show ?thesis by (simp add: update_new threads_ok_def)
qed

lemma threads_old: "threads_ok ts \<Longrightarrow> map_of ts th = Some t \<Longrightarrow> threads_ok (AList.update th v ts)"
proof -
  assume ok: "threads_ok ts" and th: "map_of ts th = Some t"
  then have "map fst (AList.update th v ts) = map fst ts" by (intro update_keys_old) (force dest: map_of_SomeD)
  moreover from arg_cong [OF this, of length] have "length (AList.update th v ts) = length ts" by simp
  ultimately show ?thesis using ok by (simp add: threads_ok_def)
qed

lemma add_topic_count [simp]: "sm_count (add_topic topic s) = sm_count s"
  by (simp add: add_topic_def split: option.split)

lemma message_inv:
  assumes "mgr_inv m"
  shows "mgr_inv (snd (add_message sid mid content role imp topic now m))"
proof -
  have old: "session_ok (length (sg_heap m)) (map_of (sg_sessions m) i) (map_of (sg_messages m) i)" for i
    using assms by (simp add: mgr_inv_def)
  have other: "session_ok (Suc (length (sg_heap m))) (map_of (sg_sessions m) i) (map_of (sg_messages m) i)" for i
    using session_ok_mono [OF old] by simp
  show ?thesis
    using old [of sid] other assms
    unfolding mgr_inv_def add_message_def Let_def
    by (cases "map_of (sg_messages m) sid"; cases "map_of (sg_sessions m) sid")
      (auto simp: session_ok_def [of _ "Some _" "Some _"] session_ok_def [of _ None "Some _"] session_ok_def [of _ "Some _" None])
qed

lemma set_thread_length [simp]: "length (set_thread th a heap) = length heap"
  by (simp add: set_thread_def)

lemma session_ok_bookmarks [simp]: "session_ok n (Some (s\<lparr>sm_bookmarks := bs\<rparr>)) as = session_ok n (Some s) as"
  by (simp add: session_ok_def split: option.split)

lemma bookmark_inv: "mgr_inv m \<Longrightarrow> mgr_inv (create_bookmark sid i m)"
proof (cases "map_of (sg_sessions m) sid")
  case (Some s)
  assume i: "mgr_inv m"
  then have "session_ok (length (sg_heap m)) (Some s) (map_of (sg_messages m) sid)" by (metis mgr_inv_def Some)
  with i Some show ?thesis by (simp add: mgr_inv_def create_bookmark_def)
qed (simp add: create_bookmark_def)

lemma session_inv: "mgr_inv m \<Longrightarrow> mgr_inv (create_session sid tenant user ty now m)"
  unfolding mgr_inv_def create_session_def by (auto simp: session_ok_def)

lemma thread_inv': "mgr_inv m \<Longrightarrow> mgr_inv (snd (create_thread sid title initial now m))"
  using threads_new [of "sg_threads m"]
  by (auto simp: mgr_inv_def create_thread_def Let_def thread_name_def split: option.splits)

lemma to_thread_inv: "mgr_inv m \<Longrightarrow> mgr_inv (add_to_thread th a now m)"
  using threads_old [of "sg_threads m" th]
  by (auto simp: mgr_inv_def add_to_thread_def split: option.splits)

interpretation manager: invariant_system mgr_init mgr_step mgr_inv
proof
  show "mgr_inv m" if "mgr_init m" for m
    using that by (auto simp: mgr_init_def new_manager_def mgr_inv_def session_ok_def threads_ok_def)
  show "mgr_inv m'" if i: "mgr_inv m" and st: "mgr_step m m'" for m m'
    using st by cases (use i message_inv session_inv thread_inv' to_thread_inv bookmark_inv in simp_all)
qed

section \<open>Properties\<close>

text \<open> 
  In every reachable manager a session's \<open>message_count\<close> is the number of its messages, which are
  distinct nodes, and no two threads ever have the same id.
\<close>

theorem sessions_counted:
  assumes "reach mgr_init mgr_step m" and "get_session sid m = Some s"
  shows "\<exists>as. map_of (sg_messages m) sid = Some as \<and> sm_count s = int (length as) \<and> distinct as \<and>
    distinct (map fst (sg_threads m))"
proof -
  have inv: "mgr_inv m" by (rule manager.reach_inv [OF assms(1)])
  then have "session_ok (length (sg_heap m)) (Some s) (map_of (sg_messages m) sid)"
    using assms(2) by (metis get_session_def mgr_inv_def)
  moreover have "distinct (map fst (sg_threads m))" using inv threads_distinct by (simp add: mgr_inv_def)
  ultimately show ?thesis by (auto simp: session_ok_def split: option.splits)
qed

definition demo_manager :: session_manager where
  "demo_manager = snd (add_message ''s'' ''m'' [104] ''user'' HIGH None 1 (create_session ''s'' ''t'' ''u'' SHORT_TERM 0 (new_manager None)))"

lemma demo_manager_reached: "reach mgr_init mgr_step demo_manager"
proof -
  have "reach mgr_init mgr_step (new_manager None)" by (rule reach_init) (auto simp: mgr_init_def)
  from reach_step [OF reach_step [OF this mgr_step.create] mgr_step.message] show ?thesis
    unfolding demo_manager_def .
qed

lemma sessions_counted_witness: "\<exists>s. get_session ''s'' demo_manager = Some s \<and> sm_count s = 1"
proof -
  obtain s where s: "get_session ''s'' demo_manager = Some s"
    by (simp add: demo_manager_def add_message_def create_session_def new_manager_def get_session_def Let_def)
  from sessions_counted [OF demo_manager_reached s] s show ?thesis
    by (simp add: demo_manager_def add_message_def create_session_def new_manager_def Let_def)
qed

text \<open> 
  The context of a session is at most fifteen of its messages without repetition, the newest first: all
  of the last ten, and of the older ones only such as count as important.
\<close>

theorem context_window:
  assumes "reach mgr_init mgr_step m" and "map_of (sg_messages m) sid = Some as"
  defines "c \<equiv> get_context_for_inference sid m"
  shows "length c \<le> 15 \<and> distinct c \<and> set c \<subseteq> set as \<and> set (last_n 10 as) \<subseteq> set c \<and>
    sorted_wrt (\<lambda>a b. mn_time (sg_heap m ! b) \<le> mn_time (sg_heap m ! a)) c \<and>
    (\<forall>a \<in> set c - set (last_n 10 as). mn_importance (sg_heap m ! a) \<in> {CRITICAL, HIGH})"
proof -
  have "session_ok (length (sg_heap m)) (map_of (sg_sessions m) sid) (Some as)"
    using manager.reach_inv [OF assms(1)] assms(2) by (metis mgr_inv_def)
  then have dist: "distinct as" by (auto simp: session_ok_def split: option.splits)
  let ?older = "take (length as - 10) as"
  let ?imp = "filter (\<lambda>a. importance_value (mn_importance (sg_heap m ! a)) \<ge> importance_value HIGH) ?older"
  let ?all = "last_n 10 as @ take 5 ?imp" let ?sorted = "sort_desc (\<lambda>a. mn_time (sg_heap m ! a)) ?all"
  have "distinct (?older @ last_n 10 as)" by (simp only: last_n_def append_take_drop_id dist)
  then have disj: "set ?older \<inter> set (last_n 10 as) = {}" and d2: "distinct (last_n 10 as)" "distinct ?older"
    unfolding distinct_append by blast+
  have sub: "set (take 5 ?imp) \<subseteq> set ?older" using set_take_subset [of 5 ?imp] by auto
  then have "distinct ?all" using d2 disj by (auto intro!: distinct_take)
  then have d: "distinct ?sorted" by (metis mset_eq_imp_distinct_iff mset_sort_desc)
  have len: "length ?sorted \<le> 15" by simp
  have c: "c = ?sorted" using assms(2) len by (simp add: c_def get_context_for_inference_def Let_def)
  have all: "set ?all \<subseteq> set as"
    using sub set_take_subset [of "length as - 10" as] set_last_n [of 10 as] by auto
  have imp: "mn_importance (sg_heap m ! a) \<in> {CRITICAL, HIGH}" if "a \<in> set (take 5 ?imp)" for a
  proof -
    have "a \<in> set ?imp" using that by (rule in_set_takeD)
    then show ?thesis by (cases "mn_importance (sg_heap m ! a)") auto
  qed
  have set_c: "set c = set (last_n 10 as) \<union> set (take 5 ?imp)" by (simp add: c)
  show ?thesis
  proof (intro conjI)
    show "length c \<le> 15" "distinct c" by (simp_all only: c len d)
    show "set c \<subseteq> set as" "set (last_n 10 as) \<subseteq> set c" using all set_c by auto
    show "sorted_wrt (\<lambda>a b. mn_time (sg_heap m ! b) \<le> mn_time (sg_heap m ! a)) c"
      unfolding c by (rule sorted_sort_desc)
    show "\<forall>a \<in> set c - set (last_n 10 as). mn_importance (sg_heap m ! a) \<in> {CRITICAL, HIGH}"
      using imp set_c by blast
  qed
qed

lemma context_window_witness: "length (get_context_for_inference ''s'' demo_manager) \<le> 15"
  using context_window [OF demo_manager_reached, of "''s''" "[0]"]
  by (simp add: demo_manager_def add_message_def create_session_def new_manager_def Let_def)

text \<open>
  The layers share the token budget exactly when it is large; a budget of a multiple of sixteen up to
  4000 is overdrawn by a sixteenth.
\<close>

theorem token_budget_shares:
  assumes "compute_token_budget b = (system, recent, semantic, procedural)"
  shows "(5344 \<le> b \<longrightarrow> system + recent + semantic + procedural = b) \<and>
    (\<forall>k. b = 16 * k \<longrightarrow> 1 \<le> k \<longrightarrow> k \<le> 250 \<longrightarrow> system + recent + semantic + procedural = b + k)"
proof -
  have large: "system + recent + semantic + procedural = b" if "5344 \<le> b"
    using assms that unfolding compute_token_budget_def Let_def by (auto simp: min_def split: if_splits)
  have small: "system + recent + semantic + procedural = b + k" if "b = 16 * k" "1 \<le> k" "k \<le> 250" for k
  proof -
    have "b div 4 = 4 * k" "b div 2 = 8 * k" "b div 16 = k" using that by simp_all
    with assms that show ?thesis unfolding compute_token_budget_def Let_def by (auto simp: min_def split: if_splits)
  qed
  from large small show ?thesis by blast
qed

lemma token_budget_shares_witness: "compute_token_budget 1600 = (400, 800, 400, 100) \<and> 400 + 800 + 400 + 100 = 1600 + (100 :: int)"
  using token_budget_shares [of 1600 400 800 400 100] by (simp add: compute_token_budget_def)

text \<open>The score starts at one: no message is ever of low importance.\<close>

lemma never_low: "score_message_importance message r position n tool \<noteq> LOW"
  by (simp add: score_message_importance_def Let_def)

end
