(* ===== verification/Uuid.thy ===== *)
theory Uuid
  imports Knowledge
begin

text \<open>
  The text of an identifier reads back: \<open>uuid.UUID(str(u)) = u\<close>.  Tenants travel through the services
  as such texts.
\<close>

lemma hex_val_char: "n < 16 \<Longrightarrow> hex_val (hex_char n) = Some n"
  by (auto simp: hex_val_def hex_char_def)

lemma hex_char_value: "n < 16 \<Longrightarrow> of_char (hex_char n) \<in> {48..57} \<union> {97..102 :: nat}"
  by (auto simp: hex_char_def)

lemma remove_all_char: "remove_all [c] s = filter (\<lambda>x. x \<noteq> c) s"
proof -
  have "concat (split_aux [c] cur s) = cur @ filter (\<lambda>x. x \<noteq> c) s" for cur
    by (induction s arbitrary: cur) (simp_all add: split_aux.simps starts_with_def)
  then show ?thesis by (simp add: remove_all_def py_split_def)
qed

lemma remove_all_absent: "x \<in> set old \<Longrightarrow> x \<notin> set s \<Longrightarrow> remove_all old s = s"
proof -
  assume x: "x \<in> set old"
  have "x \<notin> set s \<Longrightarrow> concat (split_aux old cur s) = cur @ s" for cur
  proof (induction s arbitrary: cur)
    case Nil
    then show ?case by (simp add: split_aux.simps)
  next
    case (Cons c s)
    have "starts_with old (c # s) \<Longrightarrow> x \<in> set (c # s)" using x by (auto simp: starts_with_iff simp del: list.set)
    with Cons.prems have "\<not> starts_with old (c # s)" by blast
    with Cons show ?case by (subst split_aux.simps) simp
  qed
  then show "x \<notin> set s \<Longrightarrow> remove_all old s = s" by (simp add: remove_all_def py_split_def)
qed

lemma strip_by_none: "\<forall>c \<in> set s. \<not> p c \<Longrightarrow> strip_by p s = s"
proof -
  have d: "\<forall>c \<in> set xs. \<not> p c \<Longrightarrow> dropWhile p xs = xs" for xs by (cases xs) auto
  assume "\<forall>c \<in> set s. \<not> p c"
  then show ?thesis by (simp add: strip_by_def d)
qed

definition digits_of :: "nat \<Rightarrow> nat \<Rightarrow> nat list" where
  "digits_of m n = map (\<lambda>i. n div 16 ^ (m - Suc i) mod 16) [0..<m]"

lemma digits_value: "foldl (\<lambda>a d. 16 * a + d) 0 (digits_of m n) = n mod 16 ^ m"
proof (induction m arbitrary: n)
  case (Suc m)
  have "digits_of (Suc m) n = digits_of m (n div 16) @ [n mod 16]"
    by (auto simp: digits_of_def Suc_diff_Suc div_mult2_eq [symmetric] simp flip: power_Suc)
  then show ?case using Suc [of "n div 16"] by (simp add: mod_mult2_eq)
qed (simp add: digits_of_def)

lemma hex_digits_value: "\<forall>d \<in> set ds. d < 16 \<Longrightarrow> p \<or> ds \<noteq> [] \<Longrightarrow>
    hex_digits p acc (map hex_char ds) = Some (foldl (\<lambda>a d. 16 * a + d) acc ds)"
proof (induction ds arbitrary: p acc)
  case (Cons d ds)
  have "hex_char d \<noteq> CHR ''_''" using Cons.prems(1) hex_char_value [of d] by auto
  with Cons show ?case by (simp add: hex_val_char)
qed simp

lemma uuid_str_digits: "filter (\<lambda>c. c \<noteq> CHR ''-'') (uuid_str n) = map hex_char (digits_of 32 n)"
proof -
  have p: "hex_char d \<noteq> CHR ''-''" if "d < 16" for d using hex_char_value [OF that] by auto
  define h where "h = map hex_char (digits_of 32 n)"
  have h: "map (\<lambda>i. hex_char (n div 16 ^ (31 - i) mod 16)) [0..<32] = h" by (simp add: h_def digits_of_def)
  have "c \<noteq> CHR ''-''" if "c \<in> set h" for c using that p by (auto simp: h_def digits_of_def)
  then have f: "filter (\<lambda>c. c \<noteq> CHR ''-'') xs = xs" if "set xs \<subseteq> set h" for xs using that by (auto intro: filter_True)
  have t: "take 4 (drop k h) @ drop (k + 4) h = drop k h" for k by (metis append_take_drop_id drop_drop add.commute)
  have "take 8 h @ drop 8 h = h" by simp
  moreover have "drop 8 h = take 4 (drop 8 h) @ take 4 (drop 12 h) @ take 4 (drop 16 h) @ drop 20 h"
    using t [of 8] t [of 12] t [of 16] by simp
  ultimately have "take 8 h @ take 4 (drop 8 h) @ take 4 (drop 12 h) @ take 4 (drop 16 h) @ drop 20 h = h" by simp
  then show ?thesis
    unfolding uuid_str_def h Let_def h_def [symmetric]
    using set_take_subset [of _ h] set_drop_subset [of _ h]
    by (simp add: f subset_trans [OF set_take_subset])
qed

lemma uuid_str_chars: "c \<in> set (uuid_str n) \<Longrightarrow> c = CHR ''-'' \<or> of_char c \<in> {48..57} \<union> {97..102 :: nat}"
proof -
  assume "c \<in> set (uuid_str n)"
  then have "c = CHR ''-'' \<or> c \<in> set (filter (\<lambda>c. c \<noteq> CHR ''-'') (uuid_str n))" by auto
  moreover have "of_char c \<in> {48..57} \<union> {97..102 :: nat}" if "c \<in> set (map hex_char (digits_of 32 n))"
  proof -
    from that obtain d where "c = hex_char d" "d < 16" by (auto simp: digits_of_def)
    with hex_char_value [of d] show ?thesis by simp
  qed
  ultimately show ?thesis unfolding uuid_str_digits by blast
qed

lemma uuid_str_inverse: "n < 2 ^ 128 \<Longrightarrow> uuid_parse (uuid_str n) = Some n"
proof -
  assume n: "n < 2 ^ 128"
  let ?d = "digits_of 32 n"
  have lt: "\<forall>d \<in> set ?d. d < 16" and len: "length ?d = 32" and ne: "?d \<noteq> []"
    by (auto simp: digits_of_def)
  have m: "c \<in> set (map hex_char ?d) \<Longrightarrow> of_char c \<in> {48..57} \<union> {97..102 :: nat}" for c using lt hex_char_value by auto
  have u: "remove_all ''uuid:'' (remove_all ''urn:'' (uuid_str n)) = uuid_str n"
    by (subst remove_all_absent [of "CHR ''u''"]; use uuid_str_chars [of "CHR ''u''" n] in auto)+
  have s: "strip_by (\<lambda>c. c = CHR ''{'' \<or> c = CHR ''}'') (uuid_str n) = uuid_str n"
    by (rule strip_by_none) (use uuid_str_chars in fastforce)
  have v: "int_hex (map hex_char ?d) = Some (int (n mod 16 ^ 32))"
  proof -
    let ?t = "map hex_char ?d"
    have no: "x \<notin> set ?t" if "of_char x \<notin> {48..57} \<union> {97..102 :: nat}" for x using m that by blast
    have "str_strip ?t = ?t" unfolding str_strip_def by (rule strip_by_none) (use m in \<open>fastforce simp: is_ws_def\<close>)
    moreover have "\<not> starts_with (pre @ x # post) ?t" if "of_char x \<notin> {48..57} \<union> {97..102 :: nat}" for pre post x
      using no [OF that] by (auto simp: starts_with_iff simp del: set_map)
    from this [where x = "CHR ''-''" and pre = "[]"] this [where x = "CHR ''+''" and pre = "[]"]
      this [where x = "CHR ''x''" and pre = "''0''"] this [where x = "CHR ''X''" and pre = "''0''"]
    have "\<not> starts_with ''-'' ?t" "\<not> starts_with ''+'' ?t" "\<not> starts_with ''0x'' ?t" "\<not> starts_with ''0X'' ?t" by simp_all
    moreover have "hex_digits False 0 ?t = Some (n mod 16 ^ 32)"
      using hex_digits_value [OF lt, of False 0, OF disjI2 [OF ne]] digits_value [of 32 n] by simp
    ultimately show ?thesis by (simp add: int_hex_def hex_body_def Let_def)
  qed
  show ?thesis using n by (simp add: uuid_parse_def u s remove_all_char uuid_str_digits len v)
qed
end
