(* ===== verification/ChatApp.thy ===== *)
theory ChatApp
  imports Gateway ChatSse Uuid
begin

text \<open>
  The chat service as it is put together: \<^verbatim>\<open>chat_service/main.py\<close>.  Its start-up fills the modules'
  placeholders, its middleware authenticates, and the chat route runs behind it.
\<close>

section \<open>Start-up\<close>

text \<open>What each attempt to make a client gives; for Milvus the client and whether the collection exists.\<close>

record startup =
  su_whisper :: "exn + (string \<Rightarrow> exn + ucs option)"
  su_vision :: "exn + (vision_request \<Rightarrow> exn + ucs option)"
  su_summarizer :: "exn + unit"
  su_embedding :: "exn + (ucs \<Rightarrow> exn + rat list)"
  su_reranker :: "exn + (ucs \<Rightarrow> ucs list \<Rightarrow> rerank_outcome)"
  su_milvus :: "exn + bool \<times> (nat \<Rightarrow> rat list \<Rightarrow> string \<Rightarrow> exn + milvus_hit list list)"
  su_oss :: "exn + (string \<Rightarrow> exn + string)"

text \<open>The placeholders as the modules are imported.\<close>

definition unwired :: "agent_env \<Rightarrow> agent_env" where
  "unwired env = env\<lparr>e_vision := None, e_summarizer := False, e_asr := None, e_oss := None, e_embed := None,
     e_collection := None, e_reranker := None, e_cache := None, e_docs := None, e_tenant_config := None,
     e_hitl_pool := False\<rparr>"

definition made :: "exn + 'a \<Rightarrow> 'a option" where \<comment> \<open>\<open>try\<close>, or \<open>None\<close> after an exception\<close>
  "made r = (case r of Inl e \<Rightarrow> None | Inr x \<Rightarrow> Some x)"

definition wire_dependencies ::
  "startup \<Rightarrow> doc_row list \<Rightarrow> (string \<Rightarrow> exn + llm_config option) \<Rightarrow> agent_env \<Rightarrow> bool \<times> agent_env" where
  "wire_dependencies su docs config env0 =
     (let env1 = env0\<lparr>e_docs := Some docs, e_tenant_config := Some config, e_hitl_pool := True\<rparr>;
          env2 = env1\<lparr>e_asr := made (su_whisper su)\<rparr>;
          env3 = env2\<lparr>e_vision := made (su_vision su)\<rparr>;
          env4 = env3\<lparr>e_summarizer := (made (su_summarizer su) \<noteq> None)\<rparr>;
          ready = True;
          (env5, ready) = (case su_embedding su of
              Inr emb \<Rightarrow> (env4\<lparr>e_embed := Some emb\<rparr>, ready)
            | Inl e \<Rightarrow> (env4\<lparr>e_embed := None\<rparr>, False));
          env6 = env5\<lparr>e_reranker := made (su_reranker su)\<rparr>;
          (env7, ready) = (case su_milvus su of
              Inr (True, client) \<Rightarrow> (env6\<lparr>e_collection := Some client\<rparr>, ready)
            | Inr (False, client) \<Rightarrow> (env6\<lparr>e_collection := None\<rparr>, False)
            | Inl e \<Rightarrow> (env6\<lparr>e_collection := None\<rparr>, False));
          env8 = env7\<lparr>e_oss := made (su_oss su)\<rparr>
      in (ready, env8))"

section \<open>The middleware\<close>

definition chat_tenant_auth :: "tenant_row list \<Rightarrow> string \<Rightarrow> string option \<Rightarrow> verdict" where
  "chat_tenant_auth rows path authorization =
     (if path = ''/health'' then Pass None
      else let auth = (case authorization of None \<Rightarrow> [] | Some a \<Rightarrow> a) in
        if \<not> starts_with ''Bearer '' auth then Refuse 401
        else let api_key = (if starts_with ''Bearer '' auth then drop 7 auth else auth) in
          if api_key = [] then Refuse 401
          else case fetchrow (\<lambda>r. tn_key_hash r = sha256_hex api_key) rows of
              None \<Rightarrow> Refuse 401
            | Some r \<Rightarrow> if \<not> tn_active r then Refuse 401 else Pass (Some (tn_id r)))"

datatype chat_response = Refused nat | Streamed "sse_item list" | Crashed

text \<open>\<open>dispatch\<close> around the handler; a handler that asks a request without a tenant for it raises \<open>AttributeError\<close>.\<close>

definition chat_dispatch ::
  "tenant_row list \<Rightarrow> string \<Rightarrow> string option \<Rightarrow> (nat option \<Rightarrow> 'c \<Rightarrow> chat_response \<times> 'c) \<Rightarrow> 'c \<Rightarrow> chat_response \<times> 'c" where
  "chat_dispatch rows path authorization call_next c =
     (case chat_tenant_auth rows path authorization of Refuse n \<Rightarrow> (Refused n, c) | Pass t \<Rightarrow> call_next t c)"

definition serve_chat ::
  "tenant_row list \<Rightarrow> string option \<Rightarrow> agent_env \<Rightarrow> string \<Rightarrow> string \<Rightarrow> chat_body \<Rightarrow> exn + bool \<Rightarrow> bool \<Rightarrow>
   (nat \<times> nat) option \<Rightarrow> chat_state \<Rightarrow> chat_response \<times> chat_state" where
  "serve_chat rows authorization env period new_uuid body acquired drained gone =
     chat_dispatch rows ''/v1/chat/completions'' authorization (\<lambda>t ch. case t of
         None \<Rightarrow> (Crashed, ch)
       | Some i \<Rightarrow> (let r = chat_completions env period (uuid_str i) new_uuid body acquired drained gone ch
                   in (Streamed (sr_items r), sr_chat r)))"

section \<open>Authentication\<close>

text \<open>The service behind the gateway decides exactly as the gateway does.\<close>

theorem both_doors_alike: "chat_tenant_auth rows path auth = tenant_auth rows path auth"
  by (auto simp: chat_tenant_auth_def tenant_auth_def api_key_of_def Let_def split: option.splits)

text \<open>What a request of tenant \<open>i\<close> must leave alone.\<close>

definition foreign_billing :: "nat \<Rightarrow> billing_db \<Rightarrow> billing_db" where
  "foreign_billing i b = b\<lparr>bl_accounts := filter (\<lambda>a. ba_tenant a \<noteq> i) (bl_accounts b),
     bl_usage := filter (\<lambda>u. ur_tenant u \<noteq> i) (bl_usage b)\<rparr>"

lemma foreign_limit:
  assumes "check_limit tid res n period b = (r, b')" and "uuid_parse tid = Some i"
  shows "foreign_billing i b' = foreign_billing i b"
proof -
  have acc: "foreign_billing i b1 = foreign_billing i b" if "get_or_create_account tid b = (x, b1)" for x b1
    using that assms(2) by (auto simp: get_or_create_account_def foreign_billing_def Let_def split: option.splits if_splits)
  show ?thesis
  proof (cases "get_or_create_account tid b")
    case (Pair x b1)
    then show ?thesis using assms acc [OF Pair]
      by (auto simp: check_limit_def tenant_db_context_def Let_def split: sum.splits if_splits option.splits)
  qed
qed

lemma foreign_usage:
  assumes "uuid_parse tid = Some i"
  shows "foreign_billing i (snd (billing_record_usage tid k n period b)) = foreign_billing i b"
proof -
  have u: "filter (\<lambda>u. ur_tenant u \<noteq> i) (sql_update (\<lambda>u. ur_tenant u = i \<and> ur_period u = period) (add_usage d) us)
      = filter (\<lambda>u. ur_tenant u \<noteq> i) us" for d us
    by (induction us) (auto simp: add_usage_def split: prod.split)
  have t: "ur_tenant (add_usage d x) = ur_tenant x" for d x by (simp add: add_usage_def split: prod.split)
  show ?thesis
    using assms by (auto simp: billing_record_usage_def record_usage_to_db_def tenant_db_context_def Let_def u t
        foreign_billing_def split: option.split sum.split)
qed

text \<open>C3:  
  A chat request does nothing unless it bears the key of an active tenant; then it runs as this tenant:
  it can change the one thread that it names, and of the billing tables only this tenant's rows.
\<close>

theorem chat_request_confined:
  assumes "serve_chat rows auth env period new_uuid body acquired drained gone ch = (res, ch')"
    and "\<And>r. r \<in> set rows \<Longrightarrow> tn_id r < 2 ^ 128"
  shows "(res = Refused 401 \<and> ch' = ch) \<or>
    (\<exists>r key. r \<in> set rows \<and> tn_active r \<and> auth = Some (''Bearer '' @ key) \<and> tn_key_hash r = sha256_hex key \<and>
       foreign_billing (tn_id r) (ch_billing ch') = foreign_billing (tn_id r) (ch_billing ch) \<and>
       (\<forall>th. th \<noteq> default_to new_uuid (cb_thread body) \<longrightarrow> ch_threads ch' th = ch_threads ch th))"
proof (cases "chat_tenant_auth rows ''/v1/chat/completions'' auth")
  case (Refuse n)
  then have "n = 401" by (auto simp: chat_tenant_auth_def Let_def split: if_splits option.splits)
  with Refuse assms(1) show ?thesis by (simp add: serve_chat_def chat_dispatch_def)
next
  case (Pass t)
  then obtain key r where r: "fetchrow (\<lambda>r. tn_key_hash r = sha256_hex key) rows = Some r" "tn_active r" "t = Some (tn_id r)"
    "auth = Some (''Bearer '' @ key)"
    by (auto simp: chat_tenant_auth_def Let_def starts_with_iff split: if_splits option.splits)
  then have rin: "r \<in> set rows" "tn_key_hash r = sha256_hex key" by (auto dest!: fetchrow_SomeD)
  have tid: "uuid_parse (uuid_str (tn_id r)) = Some (tn_id r)" by (rule uuid_str_inverse [OF assms(2) [OF rin(1)]])
  let ?g = "chat_completions env period (uuid_str (tn_id r)) new_uuid body acquired drained gone ch"
  have ch': "ch' = sr_chat ?g" using assms(1) Pass r(3) by (simp add: serve_chat_def chat_dispatch_def Let_def)
  obtain l b where l: "check_limit (uuid_str (tn_id r)) ''messages'' 1 period (ch_billing ch) = (l, b)" by fastforce
  have "foreign_billing (tn_id r) b = foreign_billing (tn_id r) (ch_billing ch)" by (rule foreign_limit [OF l tid])
  then have "foreign_billing (tn_id r) (ch_billing ch') = foreign_billing (tn_id r) (ch_billing ch)"
    using foreign_usage [OF tid] by (auto simp: ch' chat_completions_def event_generator_def l Let_def split: sum.split prod.split bool.split)
  moreover have "ch_threads ch' th = ch_threads ch th" if "th \<noteq> default_to new_uuid (cb_thread body)" for th
    using that by (auto simp: ch' chat_completions_def event_generator_def l Let_def split: sum.split prod.split bool.split)
  ultimately show ?thesis using r rin by blast
qed

definition app_tenants :: "tenant_row list" where
  "app_tenants = [\<lparr>tn_id = 1, tn_key_hash = sha256_hex ''k'', tn_active = True, tn_user_rps = None\<rparr>]"

lemma app_key: "chat_tenant_auth app_tenants ''/v1/chat/completions'' (Some ''Bearer k'') = Pass (Some 1)"
  by (simp add: chat_tenant_auth_def app_tenants_def starts_with_def)

lemma chat_request_confined_witness:
  "foreign_billing 1 (ch_billing (snd (serve_chat app_tenants (Some ''Bearer k'') demo_env ''2026-01'' uuid2
     \<lparr>cb_thread = None, cb_messages = []\<rparr> (Inr False) True None demo_chat))) = foreign_billing 1 demo_billing"
proof -
  let ?r = "serve_chat app_tenants (Some ''Bearer k'') demo_env ''2026-01'' uuid2 \<lparr>cb_thread = None, cb_messages = []\<rparr>
    (Inr False) True None demo_chat"
  have "fst ?r \<noteq> Refused 401" by (simp add: serve_chat_def chat_dispatch_def app_key [simplified] Let_def)
  with chat_request_confined [of app_tenants _ demo_env "''2026-01''" uuid2 "\<lparr>cb_thread = None, cb_messages = []\<rparr>" "Inr False"
      True None demo_chat "fst ?r" "snd ?r"]
  show ?thesis by (auto simp: app_tenants_def demo_chat_def)
qed

section \<open>Threads have no owner\<close>

lemma generator_queue: "event_generator (env\<lparr>e_queue := q\<rparr>) = event_generator env"
proof -
  have "env\<lparr>e_queue := q, e_queue := True\<rparr> = env\<lparr>e_queue := True\<rparr>" by (cases env) simp
  then show ?thesis unfolding event_generator_def by presburger
qed

lemma turn_tenant: "tenant_id (tr_state (run_turn env p s w)) = pl_tenant p"
proof -
  have "keeps (start_state p s, w) (tr_state (run_graph env Preprocess (start_state p s) w),
      tr_world (run_graph env Preprocess (start_state p s) w))"
    by (rule keeping.run_rel) simp
  then show ?thesis by (simp add: run_turn_def keeps_def)
qed

text \<open>C6:  
  A client with a key of its own that names a thread of another tenant is sent the last answer of that
  thread, and the thread is the client's tenant's from then on.
\<close>

theorem foreign_thread_taken_over:
  assumes key: "chat_tenant_auth rows ''/v1/chat/completions'' auth = Pass (Some i)"
    and limit: "check_limit (uuid_str i) ''messages'' 1 period (ch_billing ch) = (Inr (True, why), b)"
    and old: "cb_thread body = Some th" "ch_threads ch th = Some s0" "llm_response s0 \<noteq> []"
    and pre: "preprocess_node (env\<lparr>e_queue := True\<rparr>)
       (start_state \<lparr>pl_messages = cb_messages body, pl_tenant = uuid_str i, pl_thread = th\<rparr> s0) = Inr s1"
    and run: "serve_chat rows auth env period new_uuid body (Inr True) d None ch = (res, ch')"
  shows "(\<exists>rest. res = Streamed (SseContent (llm_response s0) # rest)) \<and>
    (\<exists>s. ch_threads ch' th = Some s \<and> tenant_id s = uuid_str i)"
proof -
  let ?p = "\<lparr>pl_messages = cb_messages body, pl_tenant = uuid_str i, pl_thread = th\<rparr>"
  let ?env = "env\<lparr>e_queue := True\<rparr>"
  let ?g = "event_generator ?env period ?p (Inr True) d None ch"
  have r: "res = Streamed (sr_items ?g)" "ch' = sr_chat ?g"
    using run key old(1) by (auto simp: serve_chat_def chat_dispatch_def chat_completions_def default_to_def Let_def generator_queue)
  have "\<exists>rest. sr_items ?g = SseContent (llm_response s0) # rest"
    by (rule replay_first [OF _ _ old(3) pre]) (use limit old in simp_all)
  moreover have "\<exists>s. ch_threads (sr_chat ?g) th = Some s \<and> tenant_id s = uuid_str i"
    using limit by (simp add: event_generator_def Let_def turn_tenant)
  ultimately show ?thesis using r by auto
qed

lemma foreign_thread_taken_over_witness:
  "\<exists>rest. fst (serve_chat app_tenants (Some ''Bearer k'') demo_env ''2026-01'' uuid3 \<lparr>cb_thread = Some uuid2, cb_messages = []\<rparr>
     (Inr True) True None (demo_chat\<lparr>ch_threads := [uuid2 \<mapsto> empty_state\<lparr>tenant_id := uuid_str 2, llm_response := [72, 105]\<rparr>]\<rparr>))
   = Streamed (SseContent [72, 105] # rest)"
proof -
  let ?s = "empty_state\<lparr>tenant_id := uuid_str 2, llm_response := [72, 105]\<rparr>"
  let ?ch = "demo_chat\<lparr>ch_threads := [uuid2 \<mapsto> ?s]\<rparr>"
  let ?body = "\<lparr>cb_thread = Some uuid2, cb_messages = []\<rparr>"
  obtain res ch' where run: "serve_chat app_tenants (Some ''Bearer k'') demo_env ''2026-01'' uuid3 ?body (Inr True) True None ?ch = (res, ch')"
    by fastforce
  have "check_limit (uuid_str 1) ''messages'' 1 ''2026-01'' (ch_billing ?ch) = (Inr (True, NoPlan), demo_billing)"
    by (simp add: check_limit_def get_or_create_account_def tenant_db_context_def demo_billing_def demo_chat_def uuid_str_inverse [of 1, simplified])
  moreover have "preprocess_node (demo_env\<lparr>e_queue := True\<rparr>) (start_state
      \<lparr>pl_messages = cb_messages ?body, pl_tenant = uuid_str 1, pl_thread = uuid2\<rparr> ?s) = Inr (start_state
      \<lparr>pl_messages = cb_messages ?body, pl_tenant = uuid_str 1, pl_thread = uuid2\<rparr> ?s)"
    by (simp add: preprocess_node_def start_state_def SUMMARIZE_THRESHOLD_def demo_env_def)
  ultimately have "\<exists>rest. res = Streamed (SseContent (llm_response ?s) # rest)"
    by (intro foreign_thread_taken_over [OF app_key _ _ _ _ _ run, THEN conjunct1]) simp_all
  with run show ?thesis by simp
qed

section \<open>Degraded start-up\<close>

lemma missing_collection: "fst (milvus_retry (\<lambda>k. Inl e) jit) = Inl e"
  by (simp add: milvus_retry_def eval_nat_numeral split: prod.split)

lemma wired:
  assumes "wire_dependencies su docs config env0 = (ready, env)"
  shows "ready \<longleftrightarrow> (\<exists>emb client. su_embedding su = Inr emb \<and> su_milvus su = Inr (True, client))"
    and "e_cache env = e_cache env0" and "e_docs env = Some docs" and "e_embed env = made (su_embedding su)"
    and "e_collection env = (case su_milvus su of Inr (True, c) \<Rightarrow> Some c | _ \<Rightarrow> None)"
  using assms unfolding wire_dependencies_def Let_def
  by (cases "su_embedding su"; cases "su_milvus su"; auto simp: made_def split: prod.splits bool.splits)+

text \<open>C20:  
  The start-up is ready for retrieval exactly when the embedding service and the collection are there.
  When it is not, retrieval still answers every turn, without context or sources, whatever the state,
  and the semantic cache is never asked, since nothing wires it.
\<close>

theorem degraded_start_answers:
  assumes "wire_dependencies su docs config (unwired env0) = (ready, env)"
  shows "(ready \<longleftrightarrow> (\<exists>emb client. su_embedding su = Inr emb \<and> su_milvus su = Inr (True, client))) \<and>
    (\<not> ready \<longrightarrow> fst (rag_engine_node env s w) = Inr (no_answer s)) \<and>
    cache_lookup env query tid = None \<and> e_docs env = Some docs"
proof -
  have ready: "ready \<longleftrightarrow> (\<exists>emb client. su_embedding su = Inr emb \<and> su_milvus su = Inr (True, client))"
    and cache: "e_cache env = None" and docs: "e_docs env = Some docs"
    and emb: "e_embed env = made (su_embedding su)"
    and coll: "e_collection env = (case su_milvus su of Inr (True, c) \<Rightarrow> Some c | _ \<Rightarrow> None)"
    using wired [OF assms] by (simp_all add: unwired_def)
  have look: "cache_lookup env query tid = None" for query tid using cache by (simp add: cache_lookup_def)
  have "fst (rag_engine_node env s w) = Inr (no_answer s)" if "\<not> ready"
  proof (cases "e_embed env")
    case None
    then show ?thesis by (simp add: rag_engine_node_def Let_def look)
  next
    case (Some e)
    with that ready emb coll have "e_collection env = None" by (auto simp: made_def split: sum.splits prod.splits bool.splits)
    then have "search_collection env vec tid = (\<lambda>k. Inl TypeError)" for vec tid by (intro ext) (simp add: search_collection_def)
    then show ?thesis by (simp add: rag_engine_node_def Let_def look Some missing_collection split: sum.split)
  qed
  with ready look docs show ?thesis by blast
qed

definition bare_startup :: startup where
  "bare_startup = \<lparr>su_whisper = Inl TypeError, su_vision = Inl TypeError, su_summarizer = Inr (), su_embedding = Inl TypeError,
     su_reranker = Inl TypeError, su_milvus = Inl ConnectionError, su_oss = Inl TypeError\<rparr>"

lemma degraded_start_answers_witness:
  "fst (rag_engine_node (snd (wire_dependencies bare_startup [] (\<lambda>t. Inr None) (unwired rag_env))) rag_question rag_world0)
     = Inr (no_answer rag_question)"
proof -
  obtain ready env where w: "wire_dependencies bare_startup [] (\<lambda>t. Inr None) (unwired rag_env) = (ready, env)" by fastforce
  with degraded_start_answers [OF w] show ?thesis by (simp add: bare_startup_def)
qed

end
