(* ===== verification/AdminConfig.thy ===== *)
theory AdminConfig
  imports Gateway AgentNodes
begin

text \<open>
  The admin's configuration routes (\<^verbatim>\<open>admin_service/routes/config.py\<close>) and what becomes of their updates:
  the gateway reads the limits through its Redis cache, and the chat service reads the model.
\<close>

section \<open>The tenants' settings\<close>

text \<open>The two JSON columns of \<open>tenants\<close>: objects whose values are names, texts, numbers or null.\<close>

datatype conf_value = CName string | CText ucs | CInt int | CNum rat | CNull

type_synonym conf_object = "(string \<times> conf_value) list"

record config_row =
  cf_id :: nat
  cf_key_hash :: string
  cf_active :: bool
  cf_llm :: conf_object
  cf_rate :: conf_object

definition set_llm :: "conf_object \<Rightarrow> config_row \<Rightarrow> config_row" where \<comment> \<open>\<open>llm_config || $1\<close>: the right side wins\<close>
  "set_llm c r = r\<lparr>cf_llm := fold (\<lambda>(k, v) d. AList.update k v d) c (cf_llm r)\<rparr>"

definition set_rate :: "conf_object \<Rightarrow> config_row \<Rightarrow> config_row" where
  "set_rate c r = r\<lparr>cf_rate := c\<rparr>"

interpretation llm_table: keyed_table cf_id set_llm
  by unfold_locales (simp add: set_llm_def)

interpretation rate_table: keyed_table cf_id set_rate
  by unfold_locales (simp add: set_rate_def)

text \<open>What the gateway and the model client read of a row.\<close>

definition gateway_row :: "config_row \<Rightarrow> tenant_row" where
  "gateway_row r = \<lparr>tn_id = cf_id r, tn_key_hash = cf_key_hash r, tn_active = cf_active r,
     tn_user_rps = (case map_of (cf_rate r) ''user_rps'' of Some (CInt n) \<Rightarrow> Some n | _ \<Rightarrow> None)\<rparr>"

definition conf_name :: "string \<Rightarrow> conf_object \<Rightarrow> string option" where
  "conf_name k c = (case map_of c k of Some (CName m) \<Rightarrow> Some m | _ \<Rightarrow> None)"

definition llm_row :: "config_row \<Rightarrow> llm_config" where
  "llm_row r = \<lparr>lc_model = conf_name ''model'' (cf_llm r), lc_fallback_model = conf_name ''fallback_model'' (cf_llm r),
     lc_temperature = (case map_of (cf_llm r) ''temperature'' of Some (CNum t) \<Rightarrow> Some t | _ \<Rightarrow> None)\<rparr>"

text \<open>\<open>SELECT llm_config FROM tenants WHERE id = $1\<close>, as the generation node issues it.\<close>

definition read_llm_config :: "config_row list \<Rightarrow> string \<Rightarrow> exn + llm_config option" where
  "read_llm_config rows tid =
     (case uuid_parse tid of None \<Rightarrow> Inl (DbExn BadArgument)
      | Some t \<Rightarrow> Inr (map_option llm_row (fetchrow (\<lambda>r. cf_id r = t) rows)))"

section \<open>The routes\<close>

definition on_tenant :: "string \<Rightarrow> (config_row \<Rightarrow> config_row) \<Rightarrow> config_row list \<Rightarrow> exn + config_row list" where
  "on_tenant tid upd rows =
     (case uuid_parse tid of None \<Rightarrow> Inl (DbExn BadArgument)
      | Some t \<Rightarrow> Inr (sql_update (\<lambda>r. cf_id r = t) upd rows))"

definition update_persona :: "ucs \<Rightarrow> ucs option \<Rightarrow> string \<Rightarrow> config_row list \<Rightarrow> exn + config_row list" where
  "update_persona system_prompt persona_name tid =
     on_tenant tid (set_llm [(''system_prompt'', CText system_prompt),
       (''persona_name'', case persona_name of None \<Rightarrow> CNull | Some p \<Rightarrow> CText p)])"

definition update_model :: "string \<Rightarrow> string option \<Rightarrow> rat \<Rightarrow> string \<Rightarrow> config_row list \<Rightarrow> exn + config_row list" where
  "update_model model fallback temperature tid =
     on_tenant tid (set_llm ((''model'', CName model)
       # (case fallback of None \<Rightarrow> [] | Some f \<Rightarrow> [(''fallback_model'', CName f)]) @ [(''temperature'', CNum temperature)]))"

text \<open>\<open>DEL\<close> of one key, whatever it holds.\<close>

definition redis_del :: "string \<Rightarrow> gateway \<Rightarrow> gateway" where
  "redis_del k g = g\<lparr>gw_counters := AList.delete k (gw_counters g), gw_rps := AList.delete k (gw_rps g)\<rparr>"

definition update_rate_limit ::
  "int \<Rightarrow> int \<Rightarrow> string \<Rightarrow> config_row list \<times> gateway \<Rightarrow> (exn + unit) \<times> config_row list \<times> gateway" where
  "update_rate_limit tenant_rps user_rps tid st =
     (case on_tenant tid (set_rate [(''tenant_rps'', CInt tenant_rps), (''user_rps'', CInt user_rps)]) (fst st) of
        Inl e \<Rightarrow> (Inl e, st)
      | Inr rows \<Rightarrow>
          if gw_redis (snd st) then (Inr (), rows, redis_del (''cuckoo:ratelimit_config:'' @ tid) (snd st))
          else (Inl ConnectionError, rows, snd st))"

text \<open>\<open>deleted\<close> is the vector store's answer, or \<open>None\<close> where no client is wired; failures are swallowed.\<close>

definition cache_invalidate :: "(exn + unit) option \<Rightarrow> string \<Rightarrow> cache_entry list \<Rightarrow> cache_entry list" where
  "cache_invalidate deleted tid entries =
     (case deleted of None \<Rightarrow> entries | Some (Inl e) \<Rightarrow> entries
      | Some (Inr _) \<Rightarrow> filter (\<lambda>e. ce_tenant e \<noteq> tid) entries)"

definition clear_cache :: "(exn + unit) option \<Rightarrow> string \<Rightarrow> cache_entry list \<Rightarrow> string \<times> cache_entry list" where
  "clear_cache deleted tid entries = (''cleared'', cache_invalidate deleted tid entries)"

section \<open>What the services see of an update\<close>

lemma set_llm_other: "k \<notin> fst ` set c \<Longrightarrow> map_of (cf_llm (set_llm c r)) k = map_of (cf_llm r) k"
proof -
  have "k \<notin> fst ` set c \<Longrightarrow> map_of (fold (\<lambda>(k, v) d. AList.update k v d) c d) k = map_of d k" for d
    by (induction c arbitrary: d) (auto split: prod.splits)
  then show "k \<notin> fst ` set c \<Longrightarrow> map_of (cf_llm (set_llm c r)) k = map_of (cf_llm r) k" by (simp add: set_llm_def)
qed

lemma on_tenant_row:
  assumes "on_tenant tid upd rows = Inr rows'" "uuid_parse tid = Some t" "\<And>r. cf_id (upd r) = cf_id r"
    and "fetchrow (\<lambda>r. cf_id r = t) rows = Some r"
  shows "fetchrow (\<lambda>r. cf_id r = t) rows' = Some (upd r)"
proof -
  have rows': "rows' = sql_update (\<lambda>r. cf_id r = t) upd rows" using assms(1,2) by (simp add: on_tenant_def)
  have "fetchrow (\<lambda>r. cf_id r = t) rows = Some r \<Longrightarrow> fetchrow (\<lambda>r. cf_id r = t) (sql_update (\<lambda>r. cf_id r = t) upd rows) = Some (upd r)"
    by (induction rows) (auto simp: assms(3) split: if_splits)
  with assms(4) show ?thesis by (simp add: rows')
qed

lemma on_tenant_others:
  assumes "on_tenant tid upd rows = Inr rows'" "\<And>r. cf_id (upd r) = cf_id r" "uuid_parse tid \<noteq> Some t"
  shows "fetchrow (\<lambda>r. cf_id r = t) rows' = fetchrow (\<lambda>r. cf_id r = t) rows"
  using assms(1,3) unfolding on_tenant_def
  by (induction rows arbitrary: rows') (auto simp: assms(2) split: option.splits)

text \<open>C33:  
  A change of the model reaches the next answer: the model asked first is the one stored, with the
  stored temperature, and a fallback that was not given keeps the one of before.
\<close>

theorem model_update_reaches_requests:
  assumes "update_model model fallback temperature tid rows = Inr rows'"
    and "uuid_parse tid = Some t" and "fetchrow (\<lambda>r. cf_id r = t) rows = Some r"
  shows "read_llm_config rows' tid = Inr (Some \<lparr>lc_model = Some model,
      lc_fallback_model = (case fallback of None \<Rightarrow> lc_fallback_model (llm_row r) | Some f \<Rightarrow> Some f),
      lc_temperature = Some temperature\<rparr>) \<and>
    (\<forall>response. acompl (llm_kwargs st model temperature ms) (Some (llm_fallback_timeout st)) = Some response \<longrightarrow>
      stream_chat_completion st acompl ms (projr (read_llm_config rows' tid)) = Inr response)"
proof -
  let ?c = "(''model'', CName model) # (case fallback of None \<Rightarrow> [] | Some f \<Rightarrow> [(''fallback_model'', CName f)]) @ [(''temperature'', CNum temperature)]"
  have f: "fetchrow (\<lambda>r. cf_id r = t) rows' = Some (set_llm ?c r)"
    using assms(1) unfolding update_model_def
    by (rule on_tenant_row [OF _ assms(2) llm_table.key_upd assms(3)])
  have "llm_row (set_llm ?c r) = \<lparr>lc_model = Some model,
      lc_fallback_model = (case fallback of None \<Rightarrow> lc_fallback_model (llm_row r) | Some f \<Rightarrow> Some f),
      lc_temperature = Some temperature\<rparr>"
    by (simp add: llm_row_def conf_name_def set_llm_def split: option.split)
  then show ?thesis by (simp add: read_llm_config_def assms(2) f stream_chat_completion_def default_to_def)
qed

definition demo_conf :: "config_row list" where
  "demo_conf = [\<lparr>cf_id = 1, cf_key_hash = [], cf_active = True, cf_llm = [(''fallback_model'', CName ''qwen-max'')],
     cf_rate = [(''user_rps'', CInt 10)]\<rparr>]"

lemma model_update_reaches_requests_witness:
  "\<exists>rows'. update_model ''gpt-4o'' None (1 / 2) uuid1 demo_conf = Inr rows' \<and>
     read_llm_config rows' uuid1 = Inr (Some \<lparr>lc_model = Some ''gpt-4o'', lc_fallback_model = Some ''qwen-max'', lc_temperature = Some (1 / 2)\<rparr>)"
proof -
  obtain rows' where r: "update_model ''gpt-4o'' None (1 / 2) uuid1 demo_conf = Inr rows'"
    by (simp add: update_model_def on_tenant_def)
  from model_update_reaches_requests [OF r, of 1] r show ?thesis
    by (simp add: demo_conf_def llm_row_def conf_name_def)
qed

text \<open>The persona is stored, and nothing reads it: the configuration of every tenant stays what it was.\<close>

theorem persona_never_read:
  assumes "update_persona system_prompt persona_name tid rows = Inr rows'"
  shows "read_llm_config rows' tid' = read_llm_config rows tid'"
proof -
  let ?c = "[(''system_prompt'', CText system_prompt), (''persona_name'', case persona_name of None \<Rightarrow> CNull | Some p \<Rightarrow> CText p)]"
  have same: "llm_row (set_llm ?c r) = llm_row r" for r
    by (simp add: llm_row_def conf_name_def set_llm_other)
  have upd: "on_tenant tid (set_llm ?c) rows = Inr rows'" using assms by (simp add: update_persona_def)
  have "map_option llm_row (fetchrow (\<lambda>r. cf_id r = t) rows') = map_option llm_row (fetchrow (\<lambda>r. cf_id r = t) rows)" for t
  proof (cases "uuid_parse tid = Some t")
    case True
    show ?thesis
    proof (cases "fetchrow (\<lambda>r. cf_id r = t) rows")
      case None
      with upd True have "rows' = rows" by (auto simp: on_tenant_def fetchrow_None intro!: sql_update_none)
      then show ?thesis by simp
    next
      case (Some r)
      then show ?thesis using on_tenant_row [OF upd True llm_table.key_upd Some] by (simp add: same)
    qed
  next
    case False
    then show ?thesis by (simp add: on_tenant_others [OF upd llm_table.key_upd])
  qed
  then show ?thesis by (simp add: read_llm_config_def split: option.split)
qed

lemma persona_never_read_witness:
  "\<exists>rows'. update_persona [72] None uuid1 demo_conf = Inr rows' \<and> read_llm_config rows' uuid1 = read_llm_config demo_conf uuid1"
proof -
  obtain rows' where r: "update_persona [72] None uuid1 demo_conf = Inr rows'"
    by (simp add: update_persona_def on_tenant_def)
  with persona_never_read [OF r] show ?thesis by blast
qed

lemma fetchrow_map: "fetchrow p (map f rows) = map_option f (fetchrow (\<lambda>r. p (f r)) rows)"
  by (induction rows) auto

lemma rps_key_kept: "rps_key tid \<noteq> ''cuckoo:ratelimit_config:'' @ tid"
  by (simp add: rps_key_def)

text \<open> 
  A change of the limit is stored at once, and deletes a Redis key that nothing writes: while the
  gateway's cached value lives, up to a minute, the gateway goes on with the old limit; afterwards it
  reads the new one.
\<close>

theorem limit_update_delayed:
  assumes upd: "update_rate_limit tenant_rps user_rps tid (rows, g) = (Inr (), rows', g')"
    and t: "uuid_parse tid = Some t" and r: "fetchrow (\<lambda>r. cf_id r = t) rows = Some r"
  shows "fst (get_user_rps (map gateway_row rows') tid t now g') =
    (case live now (gw_rps g) (rps_key tid) of Some old \<Rightarrow> old | None \<Rightarrow> user_rps)"
proof -
  let ?c = "[(''tenant_rps'', CInt tenant_rps), (''user_rps'', CInt user_rps)]"
  obtain rows1 where o: "on_tenant tid (set_rate ?c) rows = Inr rows1"
    using upd by (cases "on_tenant tid (set_rate ?c) rows") (auto simp: update_rate_limit_def)
  with upd have g: "gw_redis g" "rows' = rows1" "g' = redis_del (''cuckoo:ratelimit_config:'' @ tid) g"
    by (auto simp: update_rate_limit_def split: if_splits)
  have row: "fetchrow (\<lambda>r. cf_id r = t) rows' = Some (set_rate ?c r)"
    using on_tenant_row [OF o t rate_table.key_upd r] by (simp add: g)
  have "live now (gw_rps g') (rps_key tid) = live now (gw_rps g) (rps_key tid)" and "gw_redis g'"
    using g rps_key_kept [of tid] by (simp_all add: redis_del_def live_def)
  then show ?thesis using row
    by (simp add: get_user_rps_def Let_def fetchrow_map gateway_row_def set_rate_def split: option.split)
qed


definition cached_gateway :: gateway where
  "cached_gateway = \<lparr>gw_buckets = [], gw_counters = [], gw_rps = [(rps_key uuid1, 10, 60)], gw_redis = True\<rparr>"

lemma limit_update_delayed_witness:
  "\<exists>rows' g'. update_rate_limit 100 2 uuid1 (demo_conf, cached_gateway) = (Inr (), rows', g') \<and>
     fst (get_user_rps (map gateway_row rows') uuid1 1 30 g') = 10 \<and> fst (get_user_rps (map gateway_row rows') uuid1 1 61 g') = 2"
proof -
  obtain rows' g' where u: "update_rate_limit 100 2 uuid1 (demo_conf, cached_gateway) = (Inr (), rows', g')"
    by (simp add: update_rate_limit_def on_tenant_def cached_gateway_def)
  have row: "fetchrow (\<lambda>r. cf_id r = 1) demo_conf = Some (hd demo_conf)" by (simp add: demo_conf_def)
  from limit_update_delayed [OF u _ row, of 30] limit_update_delayed [OF u _ row, of 61] u show ?thesis
    by (simp add: cached_gateway_def live_def)
qed

text \<open>An update while Redis is down is stored, and reported as a failure.\<close>

lemma failed_update_stored:
  "\<not> gw_redis g \<Longrightarrow> uuid_parse tid = Some t \<Longrightarrow>
   update_rate_limit tr ur tid (rows, g) =
     (Inl ConnectionError, sql_update (\<lambda>r. cf_id r = t) (set_rate [(''tenant_rps'', CInt tr), (''user_rps'', CInt ur)]) rows, g)"
  by (simp add: update_rate_limit_def on_tenant_def)

lemma cleared_cache: "ce \<in> set (cache_invalidate (Some (Inr ())) tid entries) \<Longrightarrow> ce_tenant ce \<noteq> tid"
  by (simp add: cache_invalidate_def)

lemma cleared_without_client: "clear_cache None tid entries = (''cleared'', entries)"
  by (simp add: clear_cache_def cache_invalidate_def)

end
