(* ===== verification/Plugins.thy ===== *)
theory Plugins
  imports Db
begin

text \<open>
  Plug-ins: the process-wide registry of \<^verbatim>\<open>shared/plugin_system.py\<close> and the admin routes over it
  (\<^verbatim>\<open>admin_service/routes/plugins.py\<close>).  Handlers are abstract; \<open>run\<close> is what calling one gives.
\<close>

section \<open>The registry\<close>

record plugin_manifest =
  mf_name :: string
  mf_version :: string
  mf_type :: string
  mf_description :: ucs
  mf_entry :: string
  mf_permissions :: "string list"
  mf_author :: "string option"
  mf_tenant :: "string option"

type_synonym 'h tool_dict = "(string \<times> 'h) list"
type_synonym 'h trigger_dict = "(string \<times> 'h list) list"

text \<open>A module's \<open>register_tools\<close> and \<open>register_triggers\<close>, if it has them: they write into the dictionaries.\<close>

record 'h plugin_module =
  pm_tools :: "('h tool_dict \<Rightarrow> 'h tool_dict) option"
  pm_triggers :: "('h trigger_dict \<Rightarrow> 'h trigger_dict) option"

record registered_plugin =
  rp_manifest :: plugin_manifest
  rp_enabled :: bool

record 'h plugin_registry =
  pr_plugins :: "(string \<times> registered_plugin) list"
  pr_tools :: "'h tool_dict"
  pr_triggers :: "'h trigger_dict"

definition new_registry :: "'h plugin_registry" where
  "new_registry = \<lparr>pr_plugins = [], pr_tools = [], pr_triggers = []\<rparr>"

definition apply_opt :: "('a \<Rightarrow> 'a) option \<Rightarrow> 'a \<Rightarrow> 'a" where
  "apply_opt f x = (case f of None \<Rightarrow> x | Some g \<Rightarrow> g x)"

definition register_plugin :: "plugin_manifest \<Rightarrow> 'h plugin_module \<Rightarrow> 'h plugin_registry \<Rightarrow> 'h plugin_registry" where
  "register_plugin mf md r =
     r\<lparr>pr_plugins := AList.update (mf_name mf) \<lparr>rp_manifest = mf, rp_enabled = True\<rparr> (pr_plugins r),
       pr_tools := apply_opt (pm_tools md) (pr_tools r),
       pr_triggers := apply_opt (pm_triggers md) (pr_triggers r)\<rparr>"

definition get_plugin_tool :: "string \<Rightarrow> 'h plugin_registry \<Rightarrow> 'h option" where
  "get_plugin_tool name r = map_of (pr_tools r) name"

definition get_trigger_handlers :: "string \<Rightarrow> 'h plugin_registry \<Rightarrow> 'h list" where
  "get_trigger_handlers event r = (case map_of (pr_triggers r) event of None \<Rightarrow> [] | Some hs \<Rightarrow> hs)"

definition registered_manifests :: "'h plugin_registry \<Rightarrow> plugin_manifest list" where
  "registered_manifests r = map (\<lambda>(_, p). rp_manifest p) (pr_plugins r)"

definition set_enabled :: "bool \<Rightarrow> string \<Rightarrow> 'h plugin_registry \<Rightarrow> bool \<times> 'h plugin_registry" where
  "set_enabled on name r =
     (case map_of (pr_plugins r) name of
        None \<Rightarrow> (False, r)
      | Some p \<Rightarrow> (True, r\<lparr>pr_plugins := AList.update name (p\<lparr>rp_enabled := on\<rparr>) (pr_plugins r)\<rparr>))"

text \<open>
  Calling a tool: unknown names raise \<open>ValueError\<close>, and so may the tool; a parameter called
  \<open>tool_name\<close> clashes with the positional one.
\<close>

definition execute_plugin_call ::
  "('h \<Rightarrow> (string \<times> ucs) list \<Rightarrow> exn + ucs) \<Rightarrow> string \<Rightarrow> (string \<times> ucs) list \<Rightarrow> 'h plugin_registry \<Rightarrow> exn + ucs" where
  "execute_plugin_call run name params r =
     (if ''tool_name'' \<in> fst ` set params then Inl TypeError
      else case get_plugin_tool name r of None \<Rightarrow> Inl ValueError | Some h \<Rightarrow> run h params)"

text \<open>
  A handler that raises is logged and skipped, if the logging call returns: it gives \<open>event\<close> both by
  position and by keyword, and \<open>logged\<close> is what the logging library makes of it.
\<close>

fun trigger_event :: "exn + unit \<Rightarrow> ('h \<Rightarrow> exn + ucs) \<Rightarrow> 'h list \<Rightarrow> exn + ucs list" where
  "trigger_event logged run [] = Inr []"
| "trigger_event logged run (h # hs) =
     (case run h of
        Inl e \<Rightarrow> (case logged of Inl e' \<Rightarrow> Inl e' | Inr _ \<Rightarrow> trigger_event logged run hs)
      | Inr x \<Rightarrow> map_sum id ((#) x) (trigger_event logged run hs))"

section \<open>The routes\<close>

definition list_plugins :: "'h plugin_registry \<Rightarrow> (string \<times> string \<times> string \<times> ucs \<times> string list \<times> string option) list" where
  "list_plugins r = map (\<lambda>p. (mf_name p, mf_version p, mf_type p, mf_description p, mf_permissions p, mf_author p)) (registered_manifests r)"

definition install_plugin :: "string \<Rightarrow> string \<Rightarrow> string \<Rightarrow> ucs \<Rightarrow> string \<Rightarrow> string list \<Rightarrow> string \<Rightarrow> 'h plugin_registry \<Rightarrow> 'h plugin_registry" where
  "install_plugin name version ty description entry permissions tenant =
     register_plugin \<lparr>mf_name = name, mf_version = version, mf_type = ty, mf_description = description, mf_entry = entry,
         mf_permissions = permissions, mf_author = None, mf_tenant = Some tenant\<rparr>
       \<lparr>pm_tools = None, pm_triggers = None\<rparr>"

definition toggle_plugin :: "string \<Rightarrow> bool \<Rightarrow> 'h plugin_registry \<Rightarrow> (exn + bool) \<times> 'h plugin_registry" where
  "toggle_plugin name on r =
     (case set_enabled on name r of (ok, r') \<Rightarrow> (if ok then Inr on else Inl (HTTPException 404), r'))"

definition uninstall_plugin :: "string \<Rightarrow> 'h plugin_registry \<Rightarrow> (exn + unit) \<times> 'h plugin_registry" where
  "uninstall_plugin name r =
     (if name \<notin> mf_name ` set (registered_manifests r) then (Inl (HTTPException 404), r)
      else case set_enabled False name r of (_, r1) \<Rightarrow>
        (if map_of (pr_plugins r1) name = None then (Inl KeyError, r1)
         else (Inr (), r1\<lparr>pr_plugins := AList.delete name (pr_plugins r1)\<rparr>)))"

definition list_plugin_tools :: "'h plugin_registry \<Rightarrow> string list" where
  "list_plugin_tools r = map fst (pr_tools r)"

definition execute_plugin_tool ::
  "('h \<Rightarrow> (string \<times> ucs) list \<Rightarrow> exn + ucs) \<Rightarrow> string \<Rightarrow> (string \<times> ucs) list \<Rightarrow> 'h plugin_registry \<Rightarrow> exn + ucs" where
  "execute_plugin_tool run name params r =
     (case execute_plugin_call run name params r of
        Inr x \<Rightarrow> Inr x
      | Inl e \<Rightarrow> Inl (HTTPException (if e = ValueError then 404 else 500)))"

section \<open>What the routes can reach\<close>

text \<open>Requests of any tenants: nothing in a step depends on whose it is.\<close>

inductive plugin_step :: "'h plugin_registry \<Rightarrow> 'h plugin_registry \<Rightarrow> bool" where
  install: "plugin_step r (install_plugin name version ty description entry permissions tenant r)"
| toggle: "plugin_step r (snd (toggle_plugin name on r))"
| uninstall: "plugin_step r (snd (uninstall_plugin name r))"

definition named_dict :: "(string \<times> registered_plugin) list \<Rightarrow> bool" where
  "named_dict d \<longleftrightarrow> distinct (map fst d) \<and> (\<forall>(n, p) \<in> set d. mf_name (rp_manifest p) = n)"

definition plugin_inv :: "'h plugin_registry \<Rightarrow> bool" where
  "plugin_inv r \<longleftrightarrow> named_dict (pr_plugins r) \<and> pr_tools r = [] \<and> pr_triggers r = []"

lemma set_update_cases: "x \<in> set (AList.update k v al) \<Longrightarrow> x = (k, v) \<or> x \<in> set al"
  by (induction al) (auto split: if_splits)

lemma named_update: "named_dict d \<Longrightarrow> mf_name (rp_manifest p) = n \<Longrightarrow> named_dict (AList.update n p d)"
  by (auto simp: named_dict_def distinct_update dest!: set_update_cases)

lemma named_delete: "named_dict d \<Longrightarrow> named_dict (AList.delete n d)"
  by (auto simp: named_dict_def AList.delete_eq distinct_map_filter)

lemma named_lookup: "named_dict d \<Longrightarrow> map_of d n = Some p \<Longrightarrow> mf_name (rp_manifest p) = n"
  by (auto simp: named_dict_def dest: map_of_SomeD)

lemma set_enabled_inv: "plugin_inv r \<Longrightarrow> plugin_inv (snd (set_enabled on name r))"
  by (auto simp: set_enabled_def plugin_inv_def named_lookup intro!: named_update split: option.split)

lemma uninstall_inv: "plugin_inv r \<Longrightarrow> plugin_inv (snd (uninstall_plugin name r))"
  using set_enabled_inv [of r False name]
  by (auto simp: uninstall_plugin_def plugin_inv_def named_delete split: prod.split)

lemma install_inv: "plugin_inv r \<Longrightarrow> plugin_inv (install_plugin name version ty description entry permissions tenant r)"
  by (simp add: install_plugin_def register_plugin_def apply_opt_def plugin_inv_def named_update)

lemma toggle_inv: "plugin_inv r \<Longrightarrow> plugin_inv (snd (toggle_plugin name on r))"
  using set_enabled_inv [of r on name] by (simp add: toggle_plugin_def split_beta)

interpretation plugins: invariant_system "\<lambda>r. r = new_registry" plugin_step plugin_inv
proof
  show "plugin_inv r" if "r = new_registry" for r :: "'h plugin_registry"
    using that by (simp add: new_registry_def plugin_inv_def named_dict_def)
  show "plugin_inv r'" if i: "plugin_inv r" and st: "plugin_step r r'" for r r' :: "'h plugin_registry"
    using st by cases (use i install_inv toggle_inv uninstall_inv in simp_all)
qed

section \<open>Properties\<close>

text \<open>
  Whatever is installed, a plug-in brings no tool: installing through the route registers an empty
  module, so every tool call of a client is refused.
\<close>

theorem installed_plugins_have_no_tools:
  assumes "reach (\<lambda>r. r = new_registry) plugin_step r"
  shows "list_plugin_tools r = [] \<and> get_trigger_handlers event r = [] \<and>
    execute_plugin_tool run name params r = Inl (HTTPException (if ''tool_name'' \<in> fst ` set params then 500 else 404))"
  using plugins.reach_inv [OF assms]
  by (simp add: plugin_inv_def list_plugin_tools_def get_trigger_handlers_def execute_plugin_tool_def execute_plugin_call_def
      get_plugin_tool_def)

definition demo_registry :: "nat plugin_registry" where
  "demo_registry = install_plugin ''crm'' ''1'' ''tool'' [] ''index.py'' [] ''a'' new_registry"

lemma demo_registry_reached: "reach (\<lambda>r. r = new_registry) plugin_step demo_registry"
proof -
  have "reach (\<lambda>r. r = new_registry) plugin_step (new_registry :: nat plugin_registry)" by (rule reach_init) simp
  from reach_step [OF this plugin_step.install] show ?thesis unfolding demo_registry_def .
qed

lemma installed_plugins_have_no_tools_witness:
  "execute_plugin_tool (\<lambda>h p. Inr []) ''lookup'' [] demo_registry = Inl (HTTPException 404)"
  using installed_plugins_have_no_tools [OF demo_registry_reached, of e "\<lambda>h p. Inr []" "''lookup''" "[]" for e] by simp

text \<open> 
  In every state that requests reach each name is registered once, and any tenant can uninstall what
  another one installed: afterwards it is gone for all, and nothing else has changed.
\<close>

theorem uninstall_any_tenants:
  assumes "reach (\<lambda>r. r = new_registry) plugin_step r" and "m \<in> set (registered_manifests r)"
  shows "fst (uninstall_plugin (mf_name m) r) = Inr () \<and>
    mset (registered_manifests r) = add_mset m (mset (registered_manifests (snd (uninstall_plugin (mf_name m) r))))"
proof -
  have inv: "named_dict (pr_plugins r)" using plugins.reach_inv [OF assms(1)] by (simp add: plugin_inv_def)
  from assms(2) obtain n p where p: "(n, p) \<in> set (pr_plugins r)" "rp_manifest p = m" by (auto simp: registered_manifests_def)
  with inv have n: "n = mf_name m" by (auto simp: named_dict_def)
  have look: "map_of (pr_plugins r) (mf_name m) = Some p" using inv p n by (auto simp: named_dict_def)
  have gone: "mset (map (\<lambda>(_, p). rp_manifest p) d) = add_mset m (mset (map (\<lambda>(_, p). rp_manifest p) (AList.delete (mf_name m) d)))"
    if "named_dict d" "map_of d (mf_name m) = Some p" for d
    using that
  proof (induction d)
    case (Cons x d)
    then show ?case
    proof (cases "fst x = mf_name m")
      case True
      with Cons.prems have "mf_name m \<notin> fst ` set d" "snd x = p" by (auto simp: named_dict_def split: prod.splits)
      then show ?thesis using True p(2) delete_idem [of "mf_name m" d] by (cases x) auto
    next
      case False
      with Cons show ?thesis by (cases x) (auto simp: named_dict_def AList.delete_eq)
    qed
  qed simp
  have del: "AList.delete k (AList.update k v al) = AList.delete k al" for k v and al :: "(string \<times> registered_plugin) list"
    by (induction al) (auto simp: AList.delete_eq)
  have "mf_name m \<in> mf_name ` set (registered_manifests r)" using assms(2) by (rule imageI)
  then show ?thesis using gone [OF inv look]
    by (simp add: uninstall_plugin_def set_enabled_def look) (simp add: registered_manifests_def del)
qed

lemma uninstall_any_tenants_witness: "registered_manifests (snd (uninstall_plugin ''crm'' demo_registry)) = []"
  using uninstall_any_tenants [OF demo_registry_reached, of "hd (registered_manifests demo_registry)"]
  by (simp add: demo_registry_def install_plugin_def register_plugin_def new_registry_def registered_manifests_def)

text \<open>
  A tool that a module did register outlives its plug-in: neither disabling nor uninstalling takes it
  out, and the execute route goes on calling it.
\<close>

theorem tools_outlive_plugins:
  "execute_plugin_tool run tool params (snd (uninstall_plugin name r)) = execute_plugin_tool run tool params r \<and>
   execute_plugin_tool run tool params (snd (toggle_plugin name on r)) = execute_plugin_tool run tool params r"
proof -
  have on: "pr_tools (snd (set_enabled b name r)) = pr_tools r" for b
    by (simp add: set_enabled_def split: option.split)
  have "pr_tools (snd (uninstall_plugin name r)) = pr_tools r" "pr_tools (snd (toggle_plugin name on r)) = pr_tools r"
    by (simp_all add: uninstall_plugin_def toggle_plugin_def on split_beta)
  then show ?thesis by (simp add: execute_plugin_tool_def execute_plugin_call_def get_plugin_tool_def)
qed

text \<open>
  An event's results are those of the handlers that return, in order, as long as failures can be
  logged; a logging call that raises ends the event at the first failure, its later handlers unasked.
\<close>

lemma trigger_event_results:
  "trigger_event (Inr ()) run hs = Inr (map projr (filter is_ok (map run hs)))"
  by (induction hs) (auto split: sum.split)

lemma trigger_event_log_fails:
  "trigger_event (Inl e) run hs = (if list_all (\<lambda>h. is_ok (run h)) hs then Inr (map (\<lambda>h. projr (run h)) hs) else Inl e)"
  by (induction hs) (auto split: sum.split)

lemma tool_error_reported_missing:
  "get_plugin_tool name r = Some h \<Longrightarrow> run h params = Inl ValueError \<Longrightarrow> ''tool_name'' \<notin> fst ` set params \<Longrightarrow>
   execute_plugin_tool run name params r = Inl (HTTPException 404)"
  by (simp add: execute_plugin_tool_def execute_plugin_call_def)

end
