(* ===== verification/Webhooks.thy ===== *)
theory Webhooks
  imports Db Digest
begin

unbundle bit_operations_syntax

text \<open>
  Webhooks: \<^verbatim>\<open>shared/webhook_service.py\<close>.  HMAC-SHA256 is bit-exact; the receiver's answers are an
  argument.  A payload is what \<open>json.dumps\<close> makes of it: its JSON text, which reads back as it was
  written, or the exception for a value that has no JSON text.
\<close>

section \<open>Signatures\<close>

definition hmac_sha256 :: "nat list \<Rightarrow> nat list \<Rightarrow> nat list" where
  "hmac_sha256 key msg =
     (let k = (if length key > 64 then sha256 key else key);
          k0 = k @ replicate (64 - length k) 0
      in sha256 (map (\<lambda>b. b XOR 92) k0 @ sha256 (map (\<lambda>b. b XOR 54) k0 @ msg)))"

definition sign_payload :: "string \<Rightarrow> string \<Rightarrow> string" where
  "sign_payload secret payload = hexdigest (hmac_sha256 (bytes_of secret) (bytes_of payload))"

definition is_ascii :: "string \<Rightarrow> bool" where
  "is_ascii s \<longleftrightarrow> (\<forall>c \<in> set s. (of_char c :: nat) < 128)"

text \<open>\<open>hmac.compare_digest\<close> refuses texts that are not ASCII.\<close>

definition verify_signature :: "string \<Rightarrow> string \<Rightarrow> string \<Rightarrow> exn + bool" where
  "verify_signature payload signature secret =
     (let expected = sign_payload secret payload in
      if is_ascii expected \<and> is_ascii signature then Inr (expected = signature) else Inl TypeError)"

section \<open>Webhooks and deliveries\<close>

record webhook_config =
  wh_id :: string
  wh_tenant :: string
  wh_url :: string
  wh_secret :: string
  wh_events :: "string list"
  wh_enabled :: bool

datatype delivery_status = DlPending | DlSuccess | DlFailed

record webhook_delivery =
  dl_id :: string
  dl_webhook :: string
  dl_event :: string
  dl_payload :: "exn + string"
  dl_status :: delivery_status
  dl_attempts :: nat
  dl_code :: "int option"
  dl_error :: "exn option"
  dl_created :: time

record webhook_service =
  ws_hooks :: "(string \<times> webhook_config) list"
  ws_queue :: "webhook_delivery list"

definition new_webhook_service :: webhook_service where
  "new_webhook_service = \<lparr>ws_hooks = [], ws_queue = []\<rparr>"

text \<open>The new identifier is the clock's time stamp.\<close>

definition create_webhook :: "string \<Rightarrow> string \<Rightarrow> string \<Rightarrow> string list \<Rightarrow> string \<Rightarrow> webhook_service \<Rightarrow> webhook_service" where
  "create_webhook tenant url secret events new_id s =
     s\<lparr>ws_hooks := AList.update new_id \<lparr>wh_id = new_id, wh_tenant = tenant, wh_url = url, wh_secret = secret,
         wh_events = events, wh_enabled = True\<rparr> (ws_hooks s)\<rparr>"

definition delete_webhook :: "string \<Rightarrow> webhook_service \<Rightarrow> bool \<times> webhook_service" where
  "delete_webhook i s =
     (if map_of (ws_hooks s) i = None then (False, s) else (True, s\<lparr>ws_hooks := AList.delete i (ws_hooks s)\<rparr>))"

definition list_webhooks :: "string \<Rightarrow> webhook_service \<Rightarrow> webhook_config list" where
  "list_webhooks tenant s = filter (\<lambda>w. wh_tenant w = tenant) (map snd (ws_hooks s))"

text \<open>
  \<open>WebhookDelivery(...)\<close> as the code builds it: \<open>created_at\<close> has no default and is not given, so the
  model's validation fails.
\<close>

definition make_delivery :: "string \<Rightarrow> string \<Rightarrow> string \<Rightarrow> exn + string \<Rightarrow> time option \<Rightarrow> exn + webhook_delivery" where
  "make_delivery i hook event payload created =
     (case created of None \<Rightarrow> Inl ValidationError
      | Some t \<Rightarrow> Inr \<lparr>dl_id = i, dl_webhook = hook, dl_event = event, dl_payload = payload, dl_status = DlPending,
          dl_attempts = 0, dl_code = None, dl_error = None, dl_created = t\<rparr>)"

definition queue_delivery :: "webhook_config \<Rightarrow> string \<Rightarrow> exn + string \<Rightarrow> string \<Rightarrow> webhook_service \<Rightarrow> (exn + unit) \<times> webhook_service" where
  "queue_delivery w event payload new_id s =
     (case make_delivery new_id (wh_id w) event payload None of
        Inl e \<Rightarrow> (Inl e, s)
      | Inr d \<Rightarrow> (Inr (), s\<lparr>ws_queue := ws_queue s @ [d]\<rparr>))"

fun emit_to :: "webhook_config list \<Rightarrow> string \<Rightarrow> exn + string \<Rightarrow> string \<Rightarrow> webhook_service \<Rightarrow> (exn + unit) \<times> webhook_service" where
  "emit_to [] event payload new_id s = (Inr (), s)"
| "emit_to (w # ws) event payload new_id s =
     (if wh_enabled w \<and> event \<in> set (wh_events w)
      then (case queue_delivery w event payload new_id s of
          (Inl e, s') \<Rightarrow> (Inl e, s')
        | (Inr _, s') \<Rightarrow> emit_to ws event payload new_id s')
      else emit_to ws event payload new_id s)"

definition emit_event :: "string \<Rightarrow> string \<Rightarrow> exn + string \<Rightarrow> string \<Rightarrow> webhook_service \<Rightarrow> (exn + unit) \<times> webhook_service" where
  "emit_event tenant event payload new_id s = emit_to (list_webhooks tenant s) event payload new_id s"

section \<open>Delivering\<close>

record web_request =
  wr_url :: string
  wr_body :: string
  wr_signature :: string
  wr_event :: string

datatype delivery_step = Dropped | Raised exn | Finished webhook_delivery | Requeued webhook_delivery

text \<open>
  \<open>post rq n\<close> is the receiver's status code for the attempt after \<open>n\<close> others, or an exception.  The
  payload is written out before the \<open>try\<close>.
\<close>

definition execute_delivery ::
  "(string \<times> webhook_config) list \<Rightarrow> (web_request \<Rightarrow> nat \<Rightarrow> exn + int) \<Rightarrow> webhook_delivery \<Rightarrow> delivery_step" where
  "execute_delivery hooks post d =
     (case map_of hooks (dl_webhook d) of
        None \<Rightarrow> Dropped
      | Some w \<Rightarrow> (case dl_payload d of
          Inl e \<Rightarrow> Raised e
        | Inr payload_json \<Rightarrow>
         (let rq = \<lparr>wr_url = wh_url w, wr_body = payload_json,
                    wr_signature = sign_payload (wh_secret w) payload_json, wr_event = dl_event d\<rparr>;
              d1 = (case post rq (dl_attempts d) of
                      Inl e \<Rightarrow> d\<lparr>dl_status := DlFailed, dl_error := Some e\<rparr>
                    | Inr code \<Rightarrow> d\<lparr>dl_code := Some code, dl_status := (if code < 400 then DlSuccess else DlFailed)\<rparr>);
              d2 = d1\<lparr>dl_attempts := dl_attempts d1 + 1\<rparr>
          in if dl_status d2 = DlFailed \<and> dl_attempts d2 < 3 then Requeued d2 else Finished d2)))"

definition retry_backoff_seconds :: "webhook_delivery \<Rightarrow> nat" where
  "retry_backoff_seconds d = 2 ^ dl_attempts d"

lemma requeued: "execute_delivery hooks post d = Requeued d' \<Longrightarrow>
    dl_attempts d' = Suc (dl_attempts d) \<and> dl_attempts d' < 3 \<and> dl_status d' = DlFailed \<and>
    dl_webhook d' = dl_webhook d \<and> dl_payload d' = dl_payload d"
  by (auto simp: execute_delivery_def Let_def split: option.splits sum.splits if_splits)

text \<open>
  The loop: what is finished is handed to \<open>_persist_delivery\<close>, which stores nothing; a retry goes to
  the end of the queue; an exception leaves the loop with what is still queued.
\<close>

function deliver_pending ::
  "(string \<times> webhook_config) list \<Rightarrow> (web_request \<Rightarrow> nat \<Rightarrow> exn + int) \<Rightarrow> webhook_delivery list \<Rightarrow>
    (exn + unit) \<times> webhook_delivery list \<times> webhook_delivery list" where
  "deliver_pending hooks post [] = (Inr (), [], [])"
| "deliver_pending hooks post (d # q) =
     (case execute_delivery hooks post d of
        Dropped \<Rightarrow> deliver_pending hooks post q
      | Raised e \<Rightarrow> (Inl e, [], q)
      | Finished d' \<Rightarrow> map_prod id (map_prod ((#) d') id) (deliver_pending hooks post q)
      | Requeued d' \<Rightarrow> deliver_pending hooks post (q @ [d']))"
  by pat_completeness auto
termination
  by (relation "measure (\<lambda>(hooks, post, q). sum_list (map (\<lambda>d. Suc (3 - dl_attempts d)) q))") (auto dest!: requeued)

text \<open>One delivery on its own: attempt after attempt until it is finished.\<close>

function settle_delivery ::
  "(string \<times> webhook_config) list \<Rightarrow> (web_request \<Rightarrow> nat \<Rightarrow> exn + int) \<Rightarrow> webhook_delivery \<Rightarrow> webhook_delivery option" where
  "settle_delivery hooks post d =
     (case execute_delivery hooks post d of
        Dropped \<Rightarrow> None
      | Raised e \<Rightarrow> None
      | Finished d' \<Rightarrow> Some d'
      | Requeued d' \<Rightarrow> settle_delivery hooks post d')"
  by pat_completeness auto
termination
  by (relation "measure (\<lambda>(hooks, post, d). 3 - dl_attempts d)") (auto dest!: requeued)

declare settle_delivery.simps [simp del]

text \<open>Whether the payload of a delivery that is not dropped can be written out.\<close>

definition writable :: "(string \<times> webhook_config) list \<Rightarrow> webhook_delivery \<Rightarrow> bool" where
  "writable hooks d \<longleftrightarrow> map_of hooks (dl_webhook d) = None \<or> is_ok (dl_payload d)"

lemma writable_never_raises: "writable hooks d \<Longrightarrow> execute_delivery hooks post d \<noteq> Raised e"
  by (auto simp: writable_def is_ok_def execute_delivery_def Let_def split: option.splits sum.splits if_splits)

lemma writable_requeued: "execute_delivery hooks post d = Requeued d' \<Longrightarrow> writable hooks d' = writable hooks d"
  using requeued [of hooks post d d'] by (simp add: writable_def)

lemma unwritable_raises: "\<not> writable hooks d \<Longrightarrow> \<exists>e. dl_payload d = Inl e \<and> execute_delivery hooks post d = Raised e"
  by (cases "dl_payload d") (auto simp: writable_def is_ok_def execute_delivery_def)

lemma delivered_settled:
  "\<forall>d \<in> set q. writable hooks d \<Longrightarrow>
   \<exists>ds. deliver_pending hooks post q = (Inr (), ds, []) \<and> mset ds = mset (List.map_filter (settle_delivery hooks post) q)"
proof (induction hooks post q rule: deliver_pending.induct)
  case (2 hooks post d q)
  show ?case
  proof (cases "execute_delivery hooks post d")
    case (Raised e)
    with 2(4) writable_never_raises [of hooks d post e] show ?thesis by simp
  next
    case Dropped
    with 2(1) [OF Dropped] 2(4) show ?thesis by (simp add: settle_delivery.simps [of hooks post d] map_filter_simps)
  next
    case (Finished d')
    with 2(2) [OF Finished] 2(4) show ?thesis
      by (auto simp add: settle_delivery.simps [of hooks post d] map_filter_simps)
  next
    case (Requeued d')
    with 2(3) [OF Requeued] 2(4) writable_requeued [OF Requeued] show ?thesis
      by (auto simp add: settle_delivery.simps [of hooks post d] map_filter_def)
  qed
qed (simp add: map_filter_simps)

text \<open>What the first attempt of a delivery leaves: it is finished, or it waits for a retry.\<close>

definition once_finished :: "(string \<times> webhook_config) list \<Rightarrow> (web_request \<Rightarrow> nat \<Rightarrow> exn + int) \<Rightarrow> webhook_delivery \<Rightarrow> webhook_delivery option" where
  "once_finished hooks post d = (case execute_delivery hooks post d of Finished d' \<Rightarrow> Some d' | _ \<Rightarrow> None)"

definition once_requeued :: "(string \<times> webhook_config) list \<Rightarrow> (web_request \<Rightarrow> nat \<Rightarrow> exn + int) \<Rightarrow> webhook_delivery \<Rightarrow> webhook_delivery option" where
  "once_requeued hooks post d = (case execute_delivery hooks post d of Requeued d' \<Rightarrow> Some d' | _ \<Rightarrow> None)"

lemma raised_delivery:
  assumes "execute_delivery hooks post b = Raised e"
  shows "\<forall>d \<in> set before. writable hooks d \<Longrightarrow> deliver_pending hooks post (before @ b # rest) =
    (Inl e, List.map_filter (once_finished hooks post) before, rest @ List.map_filter (once_requeued hooks post) before)"
proof (induction before arbitrary: rest)
  case Nil
  with assms show ?case by (simp add: map_filter_simps)
next
  case (Cons d before)
  have r: "execute_delivery hooks post d \<noteq> Raised x" for x using Cons.prems writable_never_raises by simp
  with Cons.IH [of rest] Cons.IH [of "rest @ [d']" for d'] Cons.prems show ?case
    by (cases "execute_delivery hooks post d") (auto simp: map_filter_simps once_finished_def once_requeued_def)
qed

lemma settled_result:
  "settle_delivery hooks post d = Some d' \<Longrightarrow> dl_attempts d < 3 \<Longrightarrow>
   dl_attempts d < dl_attempts d' \<and> dl_attempts d' \<le> 3 \<and>
   (dl_status d' = DlSuccess \<and> (\<exists>code < 400. dl_code d' = Some code) \<or> dl_status d' = DlFailed \<and> dl_attempts d' = 3)"
proof (induction hooks post d rule: settle_delivery.induct)
  case (1 hooks post d)
  show ?case
  proof (cases "execute_delivery hooks post d")
    case Dropped
    with 1(2) show ?thesis by (simp add: settle_delivery.simps)
  next
    case (Raised e)
    with 1(2) show ?thesis by (simp add: settle_delivery.simps)
  next
    case (Finished d1)
    with 1(2) have "d1 = d'" by (simp add: settle_delivery.simps)
    with Finished 1(3) show ?thesis
      by (auto simp: execute_delivery_def Let_def split: option.splits sum.splits if_splits)
  next
    case (Requeued d1)
    with 1(2) have "settle_delivery hooks post d1 = Some d'" by (simp add: settle_delivery.simps [of hooks post d])
    from 1(1) [OF Requeued this] requeued [OF Requeued] show ?thesis by auto
  qed
qed

section \<open>Properties\<close>

lemma unat_byte: "unat (w AND 255 :: w32) < 256"
proof -
  have "w AND 255 \<le> (255 :: w32)" by (rule word_and_le1)
  then have "unat (w AND 255) \<le> unat (255 :: w32)" by (simp add: word_le_nat_alt)
  then show ?thesis by simp
qed

lemma sha256_bytes: "b \<in> set (sha256 m) \<Longrightarrow> b < 256"
  using unat_byte by (auto simp: sha256_def w_bytes_le_def)

lemma hexdigest_ascii: "\<forall>b \<in> set bs. b < 256 \<Longrightarrow> is_ascii (hexdigest bs)"
  unfolding is_ascii_def hexdigest_def hex_char_def by fastforce

text \<open>
  What is sent with a delivery verifies under the webhook's secret, and nothing else does: a signature
  is accepted exactly when it is the one of this payload, and a malformed one that is not ASCII raises.
\<close>

theorem signature_verifies:
  "verify_signature payload (sign_payload secret payload) secret = Inr True \<and>
   (is_ascii sg \<longrightarrow> verify_signature payload sg secret = Inr (sg = sign_payload secret payload)) \<and>
   (\<not> is_ascii sg \<longrightarrow> verify_signature payload sg secret = Inl TypeError)"
proof -
  have "is_ascii (sign_payload secret payload)"
    unfolding sign_payload_def hmac_sha256_def Let_def by (intro hexdigest_ascii ballI sha256_bytes)
  then show ?thesis by (auto simp: verify_signature_def Let_def)
qed

lemma signature_verifies_witness: "verify_signature ''body'' (sign_payload ''key'' ''body'') ''key'' = Inr True"
  using signature_verifies [of "''body''" "''key''" "[]"] by (rule conjunct1)

text \<open>C35: delivering always ends.  Where every payload can be written out, interleaving the retries of
  different deliveries changes nothing: what is finished is what each delivery comes to on its own,
  dropped ones aside, nothing stays queued, and each is tried one to three times and ends in success
  with a status below 400 or failed after the third attempt.  The first payload that cannot be written
  out ends the loop with its exception: it is lost, each delivery before it has had one attempt, and the
  ones behind it stay queued with the retries.\<close>

theorem deliveries_settle:
  assumes "\<forall>d \<in> set q. dl_attempts d = 0"
  shows "case dropWhile (writable hooks) q of
      [] \<Rightarrow> (\<exists>ds. deliver_pending hooks post q = (Inr (), ds, []) \<and>
        mset ds = mset (List.map_filter (settle_delivery hooks post) q) \<and>
        (\<forall>d \<in> set ds. 1 \<le> dl_attempts d \<and> dl_attempts d \<le> 3 \<and>
          (dl_status d = DlSuccess \<and> (\<exists>code < 400. dl_code d = Some code) \<or> dl_status d = DlFailed \<and> dl_attempts d = 3)))
    | b # rest \<Rightarrow> (\<exists>e. dl_payload b = Inl e \<and>
        deliver_pending hooks post q =
          (Inl e, List.map_filter (once_finished hooks post) (takeWhile (writable hooks) q),
           rest @ List.map_filter (once_requeued hooks post) (takeWhile (writable hooks) q)))"
proof (cases "dropWhile (writable hooks) q")
  case Nil
  then have "\<forall>d \<in> set q. writable hooks d" by (simp add: dropWhile_eq_Nil_conv)
  from delivered_settled [OF this] obtain ds where ds: "deliver_pending hooks post q = (Inr (), ds, [])"
    and m: "mset ds = mset (List.map_filter (settle_delivery hooks post) q)" by blast
  have "1 \<le> dl_attempts d \<and> dl_attempts d \<le> 3 \<and>
      (dl_status d = DlSuccess \<and> (\<exists>code < 400. dl_code d = Some code) \<or> dl_status d = DlFailed \<and> dl_attempts d = 3)"
    if "d \<in> set ds" for d
  proof -
    from m that have "d \<in> set (List.map_filter (settle_delivery hooks post) q)" by (metis set_mset_mset)
    then obtain d0 where d0: "d0 \<in> set q" "settle_delivery hooks post d0 = Some d" by (auto simp: map_filter_def)
    with assms settled_result [OF d0(2)] show ?thesis by auto
  qed
  with ds m show ?thesis unfolding Nil list.case by blast
next
  case (Cons b rest)
  have "\<not> writable hooks b" using hd_dropWhile [of "writable hooks" q] Cons by simp
  from unwritable_raises [OF this] obtain e where e: "dl_payload b = Inl e" "execute_delivery hooks post b = Raised e" by blast
  have "\<forall>d \<in> set (takeWhile (writable hooks) q). writable hooks d" by (blast dest: set_takeWhileD)
  from raised_delivery [OF e(2) this, of rest] show ?thesis
    using Cons e(1) takeWhile_dropWhile_id [of "writable hooks" q] by simp
qed

definition demo_hook :: webhook_config where
  "demo_hook = \<lparr>wh_id = ''wh_1'', wh_tenant = ''t'', wh_url = ''http://x'', wh_secret = ''k'', wh_events = [''message.sent''], wh_enabled = True\<rparr>"

definition demo_delivery :: "string \<Rightarrow> webhook_delivery" where
  "demo_delivery i = \<lparr>dl_id = i, dl_webhook = ''wh_1'', dl_event = ''message.sent'', dl_payload = Inr ''{}'', dl_status = DlPending,
     dl_attempts = 0, dl_code = None, dl_error = None, dl_created = 0\<rparr>"

lemma deliveries_settle_witness:
  "\<exists>d. deliver_pending [(''wh_1'', demo_hook)] (\<lambda>rq n. if n = 0 then Inr 500 else Inr 200) [demo_delivery ''a''] = (Inr (), [d], []) \<and>
     dl_status d = DlSuccess \<and> dl_attempts d \<le> 3"
proof -
  have "dropWhile (writable [(''wh_1'', demo_hook)]) [demo_delivery ''a''] = []"
    by (simp add: writable_def demo_delivery_def)
  with deliveries_settle [of "[demo_delivery ''a'']" "[(''wh_1'', demo_hook)]" "\<lambda>rq n. if n = 0 then Inr 500 else Inr 200"]
  obtain ds where ds: "deliver_pending [(''wh_1'', demo_hook)] (\<lambda>rq n. if n = 0 then Inr 500 else Inr 200) [demo_delivery ''a''] = (Inr (), ds, [])"
    "\<forall>d \<in> set ds. dl_attempts d \<le> 3"
    by (auto simp: demo_delivery_def)
  then show ?thesis by (auto simp: execute_delivery_def demo_delivery_def Let_def)
qed

inductive webhook_step :: "webhook_service \<Rightarrow> webhook_service \<Rightarrow> bool" where
  create: "webhook_step s (create_webhook tenant url secret events new_id s)"
| delete: "webhook_step s (snd (delete_webhook i s))"
| emit: "webhook_step s (snd (emit_event tenant event payload new_id s))"
| deliver: "deliver_pending (ws_hooks s) post (ws_queue s) = (r, ds, rest) \<Longrightarrow> webhook_step s (s\<lparr>ws_queue := rest\<rparr>)"

lemma emit_to_result:
  "emit_to ws event payload new_id s =
    ((if list_ex (\<lambda>w. wh_enabled w \<and> event \<in> set (wh_events w)) ws then Inl ValidationError else Inr ()), s)"
  by (induction ws) (simp_all add: queue_delivery_def make_delivery_def)

interpretation webhooks: invariant_system "\<lambda>s. s = new_webhook_service" webhook_step "\<lambda>s. ws_queue s = []"
proof
  show "ws_queue s' = []" if i: "ws_queue s = []" and st: "webhook_step s s'" for s s'
    using st by cases (use i in \<open>simp_all add: create_webhook_def delete_webhook_def emit_event_def emit_to_result\<close>)
qed (simp add: new_webhook_service_def)

text \<open> 
  No event is ever delivered: emitting one raises as soon as one enabled webhook of the tenant asks for
  it, before anything is queued, so that the queue is empty in every state.
\<close>

theorem events_never_queued:
  assumes "reach (\<lambda>s. s = new_webhook_service) webhook_step s"
  shows "ws_queue s = [] \<and> snd (emit_event tenant event payload new_id s) = s \<and>
    (fst (emit_event tenant event payload new_id s) = Inl ValidationError \<longleftrightarrow>
      (\<exists>w \<in> snd ` set (ws_hooks s). wh_tenant w = tenant \<and> wh_enabled w \<and> event \<in> set (wh_events w)))"
  using webhooks.reach_inv [OF assms] by (auto simp: emit_event_def emit_to_result list_ex_iff list_webhooks_def)

lemma events_never_queued_witness:
  "fst (emit_event ''t'' ''message.sent'' (Inr ''{}'') ''d'' (create_webhook ''t'' ''http://x'' ''k'' [''message.sent''] ''wh_1'' new_webhook_service))
     = Inl ValidationError"
proof -
  have "reach (\<lambda>s. s = new_webhook_service) webhook_step new_webhook_service" by (rule reach_init) simp
  from events_never_queued [OF reach_step [OF this webhook_step.create], where tenant = "''t''" and event = "''message.sent''"
      and payload = "Inr ''{}''" and new_id = "''d''"]
  show ?thesis by (auto simp: create_webhook_def new_webhook_service_def emit_event_def emit_to_result list_webhooks_def)
qed

text \<open>Two webhooks made at the same instant share their identifier: the first is lost.\<close>

lemma same_instant_webhooks:
  "list_webhooks t (create_webhook t u2 k2 e2 i (create_webhook t u1 k1 e1 i new_webhook_service)) =
   [\<lparr>wh_id = i, wh_tenant = t, wh_url = u2, wh_secret = k2, wh_events = e2, wh_enabled = True\<rparr>]"
  by (simp add: list_webhooks_def create_webhook_def new_webhook_service_def)

end
