(* ===== verification/Health.thy ===== *)
theory Health
  imports Db
begin

text \<open>
  Operating the service: the health monitor (\<^verbatim>\<open>shared/health_monitor.py\<close>) and the progressive rollout
  (\<^verbatim>\<open>chat_service/services/rollout.py\<close>).  Statuses and stages are ordered, so that \<open>max\<close> and \<open>\<le>\<close> of the
  library speak about them.
\<close>

section \<open>Health of the services\<close>

datatype service_status = HEALTHY | DEGRADED | UNHEALTHY
datatype circuit_breaker_state = CbClosed | CbOpen | CbHalfOpen

fun status_rank :: "service_status \<Rightarrow> nat" where
  "status_rank HEALTHY = 0" | "status_rank DEGRADED = 1" | "status_rank UNHEALTHY = 2"

instantiation service_status :: linorder
begin

definition less_eq_service_status :: "service_status \<Rightarrow> service_status \<Rightarrow> bool" where
  "less_eq_service_status a b \<longleftrightarrow> status_rank a \<le> status_rank b"

definition less_service_status :: "service_status \<Rightarrow> service_status \<Rightarrow> bool" where
  "less_service_status a b \<longleftrightarrow> status_rank a < status_rank b"

instance
proof
  fix a b c :: service_status
  show "a < b \<longleftrightarrow> a \<le> b \<and> \<not> b \<le> a" by (auto simp: less_eq_service_status_def less_service_status_def)
  show "a \<le> a" by (simp add: less_eq_service_status_def)
  show "a \<le> b \<Longrightarrow> b \<le> c \<Longrightarrow> a \<le> c" by (simp add: less_eq_service_status_def)
  show "a \<le> b \<Longrightarrow> b \<le> a \<Longrightarrow> a = b" by (cases a; cases b) (auto simp: less_eq_service_status_def)
  show "a \<le> b \<or> b \<le> a" by (auto simp: less_eq_service_status_def)
qed

end

record service_health =
  sh_status :: service_status
  sh_latency :: rat
  sh_error_rate :: rat

text \<open>
  What the checks import by name from their modules.  The lists are the modules' top-level names that
  matter here; a name that is not among them cannot be imported.
\<close>

definition module_names :: "string \<Rightarrow> string list" where
  "module_names m = (case map_of
     [(''shared.milvus_client'', [''log'', ''COLLECTION_NAME'', ''get_milvus_client'', ''create_knowledge_chunks_collection'']),
      (''shared.embedding_service'', [''log'', ''EmbeddingService'', ''get_embedding_service'']),
      (''shared.redis_client'', [''get_redis'', ''close_redis'']),
      (''shared.db'', [''log'', ''create_asyncpg_pool'', ''create_asyncpg_pool_ro'', ''tenant_db_context'', ''lock_key'', ''ratelimit_key''])] m
     of None \<Rightarrow> [] | Some ns \<Rightarrow> ns)"

definition import_name :: "string \<Rightarrow> string \<Rightarrow> exn + unit" where
  "import_name m n = (if n \<in> set (module_names m) then Inr () else Inl ImportError)"

text \<open>
  A check: the import, outside the \<open>try\<close>; then what the probe gives after the time \<open>lat\<close>.  A client of
  the embedding service or the database may be \<open>None\<close>.
\<close>

definition check_milvus :: "exn + unit \<Rightarrow> rat \<Rightarrow> exn + service_health" where
  "check_milvus probe lat =
     (case import_name ''shared.milvus_client'' ''milvus_client'' of Inl e \<Rightarrow> Inl e
      | Inr _ \<Rightarrow> (case probe of
          Inr _ \<Rightarrow> Inr \<lparr>sh_status = HEALTHY, sh_latency = lat, sh_error_rate = 0\<rparr>
        | Inl _ \<Rightarrow> Inr \<lparr>sh_status = DEGRADED, sh_latency = lat, sh_error_rate = 1\<rparr>))"

definition check_redis :: "exn + unit \<Rightarrow> rat \<Rightarrow> exn + service_health" where
  "check_redis probe lat =
     (case import_name ''shared.redis_client'' ''get_redis'' of Inl e \<Rightarrow> Inl e
      | Inr _ \<Rightarrow> (case probe of
          Inr _ \<Rightarrow> Inr \<lparr>sh_status = HEALTHY, sh_latency = lat, sh_error_rate = 0\<rparr>
        | Inl _ \<Rightarrow> Inr \<lparr>sh_status = DEGRADED, sh_latency = lat, sh_error_rate = 1\<rparr>))"

definition check_embedding :: "(exn + unit) option \<Rightarrow> rat \<Rightarrow> exn + service_health" where
  "check_embedding probe lat =
     (case import_name ''shared.embedding_service'' ''embedding_service'' of Inl e \<Rightarrow> Inl e
      | Inr _ \<Rightarrow> (case probe of
          None \<Rightarrow> Inr \<lparr>sh_status = DEGRADED, sh_latency = 0, sh_error_rate = 0\<rparr>
        | Some (Inr _) \<Rightarrow> Inr \<lparr>sh_status = (if lat < 1000 then HEALTHY else DEGRADED), sh_latency = lat, sh_error_rate = 0\<rparr>
        | Some (Inl _) \<Rightarrow> Inr \<lparr>sh_status = UNHEALTHY, sh_latency = lat, sh_error_rate = 1\<rparr>))"

definition check_database :: "(exn + unit) option \<Rightarrow> rat \<Rightarrow> exn + service_health" where
  "check_database probe lat =
     (case import_name ''shared.db'' ''db_pool'' of Inl e \<Rightarrow> Inl e
      | Inr _ \<Rightarrow> (case probe of
          None \<Rightarrow> Inr \<lparr>sh_status = DEGRADED, sh_latency = 0, sh_error_rate = 0\<rparr>
        | Some (Inr _) \<Rightarrow> Inr \<lparr>sh_status = HEALTHY, sh_latency = lat, sh_error_rate = 0\<rparr>
        | Some (Inl _) \<Rightarrow> Inr \<lparr>sh_status = DEGRADED, sh_latency = lat, sh_error_rate = 1\<rparr>))"

definition overall_status :: "service_status list \<Rightarrow> service_status" where
  "overall_status ss =
     (let unhealthy = length (filter (\<lambda>s. s = UNHEALTHY) ss); degraded = length (filter (\<lambda>s. s = DEGRADED) ss)
      in if unhealthy > 0 then UNHEALTHY else if degraded > 1 then UNHEALTHY
         else if degraded > 0 then DEGRADED else HEALTHY)"

record health_monitor =
  hm_breakers :: "(string \<times> circuit_breaker_state) list"
  hm_requests :: nat
  hm_failed :: nat

definition new_monitor :: health_monitor where
  "new_monitor = \<lparr>hm_breakers = [], hm_requests = 0, hm_failed = 0\<rparr>"

definition update_circuit_breaker :: "string \<Rightarrow> circuit_breaker_state \<Rightarrow> health_monitor \<Rightarrow> health_monitor" where
  "update_circuit_breaker name s m = m\<lparr>hm_breakers := AList.update name s (hm_breakers m)\<rparr>"

definition record_request :: "bool \<Rightarrow> health_monitor \<Rightarrow> health_monitor" where
  "record_request success m =
     m\<lparr>hm_requests := hm_requests m + 1, hm_failed := (if success then hm_failed m else hm_failed m + 1)\<rparr>"

definition compute_error_rate :: "health_monitor \<Rightarrow> rat" where
  "compute_error_rate m = (if hm_requests m = 0 then 0 else of_nat (hm_failed m) / of_nat (hm_requests m))"

record health_response =
  hr_status :: service_status
  hr_services :: "(string \<times> service_health) list"
  hr_breakers :: "(string \<times> circuit_breaker_state) list"
  hr_rates :: "rat \<times> rat \<times> rat"

text \<open>The four probes with their times, in the order of the checks; the first exception leaves the method.\<close>

record probes =
  pb_milvus :: "(exn + unit) \<times> rat"
  pb_redis :: "(exn + unit) \<times> rat"
  pb_embedding :: "(exn + unit) option \<times> rat"
  pb_database :: "(exn + unit) option \<times> rat"

definition get_health :: "probes \<Rightarrow> health_monitor \<Rightarrow> exn + health_response" where
  "get_health p m =
     (case check_milvus (fst (pb_milvus p)) (snd (pb_milvus p)) of Inl e \<Rightarrow> Inl e | Inr a \<Rightarrow>
      case check_redis (fst (pb_redis p)) (snd (pb_redis p)) of Inl e \<Rightarrow> Inl e | Inr b \<Rightarrow>
      case check_embedding (fst (pb_embedding p)) (snd (pb_embedding p)) of Inl e \<Rightarrow> Inl e | Inr c \<Rightarrow>
      case check_database (fst (pb_database p)) (snd (pb_database p)) of Inl e \<Rightarrow> Inl e | Inr d \<Rightarrow>
        Inr \<lparr>hr_status = overall_status (map sh_status [a, b, c, d]),
             hr_services = [(''milvus'', a), (''redis'', b), (''embedding'', c), (''database'', d)],
             hr_breakers = hm_breakers m,
             hr_rates = (of_nat (hm_requests m), of_nat (hm_failed m), compute_error_rate m)\<rparr>)"

text \<open>The overall status against the order: it never improves when a service gets worse.\<close>

lemma overall_cases:
  "overall_status ss = UNHEALTHY \<longleftrightarrow> UNHEALTHY \<in> set ss \<or> 1 < count_list ss DEGRADED"
  "overall_status ss = HEALTHY \<longleftrightarrow> set ss \<subseteq> {HEALTHY}"
proof -
  have f: "length (filter (\<lambda>s. s = x) ss) = count_list ss x" for x
    by (induction ss) auto
  have z: "count_list ss x = 0 \<longleftrightarrow> x \<notin> set ss" for x by (rule count_list_0_iff)
  show "overall_status ss = UNHEALTHY \<longleftrightarrow> UNHEALTHY \<in> set ss \<or> 1 < count_list ss DEGRADED"
    using z [of UNHEALTHY] by (auto simp: overall_status_def f Let_def)
  have "set ss \<subseteq> {HEALTHY} \<longleftrightarrow> UNHEALTHY \<notin> set ss \<and> DEGRADED \<notin> set ss"
    by (metis (full_types) empty_iff insert_iff service_status.exhaust service_status.distinct(1,3) subsetI subsetD)
  then show "overall_status ss = HEALTHY \<longleftrightarrow> set ss \<subseteq> {HEALTHY}"
    using z [of UNHEALTHY] z [of DEGRADED] by (auto simp: overall_status_def f Let_def)
qed

text \<open>A weight that the overall status reads off: two degraded services count as an unhealthy one.\<close>

definition illness :: "service_status list \<Rightarrow> nat" where
  "illness ss = sum_list (map status_rank ss)"

lemma illness_counts:
  "illness ss = length (filter (\<lambda>s. s = DEGRADED) ss) + 2 * length (filter (\<lambda>s. s = UNHEALTHY) ss)"
proof (induction ss)
  case (Cons s ss)
  then show ?case by (cases s) (simp_all add: illness_def)
qed (simp add: illness_def)

lemma overall_illness: "overall_status ss = (if illness ss = 0 then HEALTHY else if illness ss = 1 then DEGRADED else UNHEALTHY)"
proof -
  have "(if 0 < u then UNHEALTHY else if 1 < d then UNHEALTHY else if 0 < d then DEGRADED else HEALTHY) =
    (if d + 2 * u = 0 then HEALTHY else if d + 2 * u = 1 then DEGRADED else UNHEALTHY)" for d u :: nat
    by (auto split: if_splits)
  then show ?thesis unfolding overall_status_def illness_counts Let_def .
qed

lemma illness_mono: "list_all2 (\<le>) ss ss' \<Longrightarrow> illness ss \<le> illness ss'"
  by (induction rule: list_all2_induct) (auto simp: illness_def less_eq_service_status_def)

theorem overall_monotone:
  assumes "list_all2 (\<le>) ss ss'"
  shows "overall_status ss \<le> overall_status ss' \<and> (\<forall>s \<in> set ss. s \<le> overall_status ss)"
proof -
  have "s \<le> overall_status ss" if "s \<in> set ss" for s
  proof -
    have "status_rank s \<le> illness ss" using that by (auto simp: illness_def intro: member_le_sum_list)
    then show ?thesis by (cases s) (auto simp: overall_illness less_eq_service_status_def)
  qed
  with illness_mono [OF assms] show ?thesis by (auto simp: overall_illness less_eq_service_status_def)
qed

lemma overall_monotone_witness: "overall_status [HEALTHY, DEGRADED] \<le> overall_status [DEGRADED, DEGRADED]"
proof -
  have "list_all2 (\<le>) [HEALTHY, DEGRADED] [DEGRADED, DEGRADED]" by (simp add: less_eq_service_status_def)
  from overall_monotone [OF this] show ?thesis by blast
qed

text \<open>
  The monitor never answers: the first check imports a name its module does not have, outside the
  \<open>try\<close>, whatever the state of the services; the embedding and the database check would fail as well.
\<close>

theorem health_never_reported:
  "get_health p m = Inl ImportError \<and> check_embedding q l = Inl ImportError \<and> check_database q l = Inl ImportError \<and>
   is_ok (check_redis r l)"
  by (simp add: get_health_def check_milvus_def check_embedding_def check_database_def check_redis_def import_name_def
      module_names_def split: sum.split)

lemma error_rate_bounds:
  assumes "m = fold record_request rs new_monitor"
  shows "0 \<le> compute_error_rate m \<and> compute_error_rate m \<le> 1 \<and> hm_requests m = length rs \<and>
    hm_failed m = length (filter Not rs)"
proof -
  have "hm_requests (fold record_request rs m) = hm_requests m + length rs \<and>
    hm_failed (fold record_request rs m) = hm_failed m + length (filter Not rs)" for m
    by (induction rs arbitrary: m) (auto simp: record_request_def)
  then have n: "hm_requests m = length rs" "hm_failed m = length (filter Not rs)" using assms by (simp_all add: new_monitor_def)
  moreover have "length (filter Not rs) \<le> length rs" by simp
  ultimately show ?thesis by (auto simp: compute_error_rate_def divide_le_eq)
qed

section \<open>Rollout\<close>

datatype rollout_stage = SHADOW | READ_ONLY | CANARY | GRADUAL | FULL

record rollback_triggers =
  rt_error_rate :: rat
  rt_latency :: rat
  rt_feedback :: rat

definition default_triggers :: rollback_triggers where
  "default_triggers = \<lparr>rt_error_rate = 5 / 100, rt_latency = 2000, rt_feedback = 3\<rparr>"

record rollout_metrics =
  rm_error_rate :: rat
  rm_latency :: rat
  rm_feedback :: rat

definition STAGE_ORDER :: "rollout_stage list" where
  "STAGE_ORDER = [SHADOW, READ_ONLY, CANARY, GRADUAL, FULL]"

fun stage_index :: "rollout_stage \<Rightarrow> nat" where \<comment> \<open>\<open>STAGE_ORDER.index\<close>\<close>
  "stage_index SHADOW = 0" | "stage_index READ_ONLY = 1" | "stage_index CANARY = 2" | "stage_index GRADUAL = 3" | "stage_index FULL = 4"

lemma stage_index_order: "STAGE_ORDER ! stage_index s = s" "stage_index s < length STAGE_ORDER"
  by (cases s; simp add: STAGE_ORDER_def)+

fun ROLLOUT_PERCENTAGES :: "rollout_stage \<Rightarrow> nat" where
  "ROLLOUT_PERCENTAGES SHADOW = 0" | "ROLLOUT_PERCENTAGES READ_ONLY = 0" | "ROLLOUT_PERCENTAGES CANARY = 5"
| "ROLLOUT_PERCENTAGES GRADUAL = 10" | "ROLLOUT_PERCENTAGES FULL = 100"

record 'a shadow_log =
  sl_agent :: string
  sl_stage :: rollout_stage
  sl_input :: 'a
  sl_time :: time

record 'a rollout_strategy =
  rs_stage :: rollout_stage
  rs_triggers :: rollback_triggers
  rs_logs :: "'a shadow_log list"

definition new_rollout :: "'a rollout_strategy" where
  "new_rollout = \<lparr>rs_stage = SHADOW, rs_triggers = default_triggers, rs_logs = []\<rparr>"

definition run_shadow :: "string \<Rightarrow> 'a \<Rightarrow> time \<Rightarrow> 'a rollout_strategy \<Rightarrow> 'a shadow_log \<times> 'a rollout_strategy" where
  "run_shadow agent input now s =
     (let l = \<lparr>sl_agent = agent, sl_stage = rs_stage s, sl_input = input, sl_time = now\<rparr>
      in (l, s\<lparr>rs_logs := rs_logs s @ [l]\<rparr>))"

text \<open>\<open>sample xs n\<close> is \<open>random.sample\<close>; the traffic asked for is not looked at.\<close>

definition canary_split :: "(nat list \<Rightarrow> nat \<Rightarrow> nat list) \<Rightarrow> rat \<Rightarrow> nat list" where
  "canary_split sample traffic = sample [0..<1000] (1000 * ROLLOUT_PERCENTAGES CANARY div 100)"

definition gradual_rollout :: "rollout_stage \<Rightarrow> rollout_stage \<Rightarrow> 'a rollout_strategy \<Rightarrow> rollout_stage \<times> 'a rollout_strategy" where
  "gradual_rollout current target s =
     (if stage_index target \<le> stage_index current then (current, s)
      else let n = STAGE_ORDER ! (stage_index current + 1) in (n, s\<lparr>rs_stage := n\<rparr>))"

definition rollback_if_degraded :: "rollout_metrics \<Rightarrow> 'a rollout_strategy \<Rightarrow> bool \<times> 'a rollout_strategy" where
  "rollback_if_degraded mt s =
     (rm_error_rate mt > rt_error_rate (rs_triggers s) \<or> rm_latency mt > rt_latency (rs_triggers s) \<or>
      rm_feedback mt < rt_feedback (rs_triggers s), s)"

definition get_shadow_logs :: "'a rollout_strategy \<Rightarrow> 'a shadow_log list" where
  "get_shadow_logs s = drop (length (rs_logs s) - 100) (rs_logs s)"

text \<open>Asking for a target again and again, from the stage the strategy is in.\<close>

definition advance :: "rollout_stage \<Rightarrow> 'a rollout_strategy \<Rightarrow> 'a rollout_strategy" where
  "advance target s = snd (gradual_rollout (rs_stage s) target s)"

lemma advance_index:
  "stage_index (rs_stage (advance target s)) =
     (if stage_index (rs_stage s) < stage_index target then stage_index (rs_stage s) + 1 else stage_index (rs_stage s))"
  unfolding advance_def gradual_rollout_def Let_def
  by (cases "rs_stage s"; cases target) (simp_all add: STAGE_ORDER_def)

lemma stage_index_inj: "stage_index a = stage_index b \<longleftrightarrow> a = b"
  using stage_index_order(1) [of a] stage_index_order(1) [of b] by metis

text \<open>
  A rollout goes through every stage between, one per call, reaches its target after exactly as many
  calls as the stages are apart, and never overshoots; a lower target changes nothing, and rolling back
  is only reported: the stage stays.
\<close>

theorem rollout_stage_by_stage:
  "stage_index (rs_stage ((advance target ^^ n) s)) =
     max (stage_index (rs_stage s)) (min (stage_index target) (stage_index (rs_stage s) + n)) \<and>
   rs_stage (snd (rollback_if_degraded mt s)) = rs_stage s"
proof -
  have "stage_index (rs_stage ((advance target ^^ n) s)) =
     max (stage_index (rs_stage s)) (min (stage_index target) (stage_index (rs_stage s) + n))"
    by (induction n) (auto simp: advance_index)
  then show ?thesis by (simp add: rollback_if_degraded_def)
qed

text \<open>
  The routes (\<^verbatim>\<open>chat_service/routes/rollout.py\<close>) move the stage themselves and keep the history of
  the moves; a step back is marked.
\<close>

record stage_move =
  mv_from :: rollout_stage
  mv_to :: rollout_stage
  mv_time :: time
  mv_rollback :: bool

record 'a rollout_app =
  ra_strategy :: "'a rollout_strategy"
  ra_stages :: "stage_move list"
  ra_metrics :: "(nat \<times> time) list" \<comment> \<open>request count and time; the rates are constants\<close>

definition get_rollout_status :: "'a rollout_app \<Rightarrow> rollout_stage \<times> nat" where
  "get_rollout_status r = (rs_stage (ra_strategy r), ROLLOUT_PERCENTAGES (rs_stage (ra_strategy r)))"

text \<open>The current rates are the constants 2 per cent, 450 ms and 4.2, never measured; only the last 20 entries are shown.\<close>

definition get_rollout_metrics :: "time \<Rightarrow> 'a rollout_app \<Rightarrow> (rollout_metrics \<times> nat \<times> (nat \<times> time) list) \<times> 'a rollout_app" where
  "get_rollout_metrics now r =
     (let n = length (ra_metrics r); h = ra_metrics r @ [(n, now)]
      in ((\<lparr>rm_error_rate = 2 / 100, rm_latency = 450, rm_feedback = 42 / 10\<rparr>, n, drop (length h - 20) h), r\<lparr>ra_metrics := h\<rparr>))"

definition get_rollout_history :: "'a rollout_app \<Rightarrow> stage_move list \<times> nat" where
  "get_rollout_history r = (ra_stages r, length (ra_stages r))"

definition move_stage :: "rollout_stage \<Rightarrow> bool \<Rightarrow> time \<Rightarrow> 'a rollout_app \<Rightarrow> 'a rollout_app" where
  "move_stage to back now r =
     r\<lparr>ra_strategy := (ra_strategy r)\<lparr>rs_stage := to\<rparr>,
       ra_stages := ra_stages r @ [\<lparr>mv_from = rs_stage (ra_strategy r), mv_to = to, mv_time = now, mv_rollback = back\<rparr>]\<rparr>"

definition advance_rollout :: "time \<Rightarrow> 'a rollout_app \<Rightarrow> rollout_stage option \<times> 'a rollout_app" where
  "advance_rollout now r =
     (let idx = stage_index (rs_stage (ra_strategy r)) in
      if idx + 1 < length STAGE_ORDER then (Some (STAGE_ORDER ! (idx + 1)), move_stage (STAGE_ORDER ! (idx + 1)) False now r)
      else (None, r))"

definition rollback_rollout :: "time \<Rightarrow> 'a rollout_app \<Rightarrow> rollout_stage option \<times> 'a rollout_app" where
  "rollback_rollout now r =
     (if rs_stage (ra_strategy r) = SHADOW then (None, r)
      else let s = STAGE_ORDER ! (stage_index (rs_stage (ra_strategy r)) - 1) in (Some s, move_stage s True now r))"

definition get_canary_users :: "(nat list \<Rightarrow> nat \<Rightarrow> nat list) \<Rightarrow> nat list \<times> nat" where
  "get_canary_users sample = (let us = canary_split sample 5 in (us, length us))"

inductive rollout_step :: "'a rollout_app \<Rightarrow> 'a rollout_app \<Rightarrow> bool" where
  metrics: "rollout_step r (snd (get_rollout_metrics now r))"
| advance: "rollout_step r (snd (advance_rollout now r))"
| rollback: "rollout_step r (snd (rollback_rollout now r))"

definition rollout_start :: "'a rollout_app \<Rightarrow> bool" where
  "rollout_start r \<longleftrightarrow> r = \<lparr>ra_strategy = new_rollout, ra_stages = [], ra_metrics = []\<rparr>"

text \<open>The history is a path: each move starts where the one before it ended and goes to a neighbouring stage.\<close>

fun stage_path :: "rollout_stage \<Rightarrow> stage_move list \<Rightarrow> rollout_stage option" where
  "stage_path s [] = Some s"
| "stage_path s (m # ms) =
     (if mv_from m = s \<and> (if mv_rollback m then stage_index s = stage_index (mv_to m) + 1 else stage_index (mv_to m) = stage_index s + 1)
      then stage_path (mv_to m) ms else None)"

lemma stage_path_append: "stage_path s (ms @ [m]) = (case stage_path s ms of None \<Rightarrow> None | Some s' \<Rightarrow> stage_path s' [m])"
  by (induction s ms rule: stage_path.induct) auto

definition rollout_inv :: "'a rollout_app \<Rightarrow> bool" where
  "rollout_inv r \<longleftrightarrow> stage_path SHADOW (ra_stages r) = Some (rs_stage (ra_strategy r)) \<and> rs_triggers (ra_strategy r) = default_triggers"

lemma stage_index_nth: "n < length STAGE_ORDER \<Longrightarrow> stage_index (STAGE_ORDER ! n) = n"
proof -
  assume n: "n < length STAGE_ORDER"
  have "map stage_index STAGE_ORDER = [0..<length STAGE_ORDER]" by (simp add: STAGE_ORDER_def upt_rec)
  then have "map stage_index STAGE_ORDER ! n = [0..<length STAGE_ORDER] ! n" by (rule arg_cong)
  with n show ?thesis by (simp add: nth_map)
qed

lemma next_stage: "Suc (stage_index s) < length STAGE_ORDER \<Longrightarrow> stage_index (STAGE_ORDER ! Suc (stage_index s)) = Suc (stage_index s)"
  using stage_index_nth .

lemma previous_stage: "s \<noteq> SHADOW \<Longrightarrow> stage_index s = Suc (stage_index (STAGE_ORDER ! (stage_index s - Suc 0)))"
proof -
  assume "s \<noteq> SHADOW"
  then have "0 < stage_index s" by (cases s) simp_all
  moreover have "stage_index (STAGE_ORDER ! (stage_index s - Suc 0)) = stage_index s - Suc 0"
    using stage_index_order(2) [of s] by (intro stage_index_nth) linarith
  ultimately show ?thesis by linarith
qed

lemma move_stage_inv:
  assumes "rollout_inv r" and "if back then stage_index (rs_stage (ra_strategy r)) = stage_index to + 1
     else stage_index to = stage_index (rs_stage (ra_strategy r)) + 1"
  shows "rollout_inv (move_stage to back now r)"
  using assms by (simp add: rollout_inv_def move_stage_def stage_path_append)

lemma advance_rollout_inv: "rollout_inv r \<Longrightarrow> rollout_inv (snd (advance_rollout now r))"
  using next_stage [of "rs_stage (ra_strategy r)"] by (simp add: advance_rollout_def Let_def move_stage_inv)

lemma rollback_rollout_inv: "rollout_inv r \<Longrightarrow> rollout_inv (snd (rollback_rollout now r))"
  using previous_stage [of "rs_stage (ra_strategy r)"] by (simp add: rollback_rollout_def Let_def move_stage_inv)

lemma metrics_inv: "rollout_inv r \<Longrightarrow> rollout_inv (snd (get_rollout_metrics now r))"
  by (simp add: rollout_inv_def get_rollout_metrics_def Let_def)

interpretation rollouts: invariant_system rollout_start rollout_step rollout_inv
proof
  show "rollout_inv r" if "rollout_start r" for r :: "'a rollout_app"
    using that by (simp add: rollout_start_def rollout_inv_def new_rollout_def)
  show "rollout_inv r'" if i: "rollout_inv r" and st: "rollout_step r r'" for r r' :: "'a rollout_app"
    using st by cases (use i metrics_inv advance_rollout_inv rollback_rollout_inv in simp_all)
qed

text \<open> 
  The stage in force is always the end of the history, and undoing is exact: after a step forward a
  rollback returns to the stage before, whatever was done in between to the history's metrics.
\<close>

theorem rollout_history_explains_stage:
  assumes "reach rollout_start rollout_step r"
  shows "stage_path SHADOW (ra_stages r) = Some (fst (get_rollout_status r)) \<and>
    (fst (advance_rollout now r) \<noteq> None \<longrightarrow>
      fst (get_rollout_status (snd (rollback_rollout now' (snd (advance_rollout now r))))) = fst (get_rollout_status r))"
proof -
  have "stage_path SHADOW (ra_stages r) = Some (fst (get_rollout_status r))"
    using rollouts.reach_inv [OF assms] by (simp add: rollout_inv_def get_rollout_status_def)
  moreover have "fst (get_rollout_status (snd (rollback_rollout now' (snd (advance_rollout now r))))) = fst (get_rollout_status r)"
    if "fst (advance_rollout now r) \<noteq> None"
    using that by (cases "rs_stage (ra_strategy r)")
      (simp_all add: advance_rollout_def rollback_rollout_def move_stage_def get_rollout_status_def Let_def STAGE_ORDER_def)
  ultimately show ?thesis by simp
qed

lemma rollout_history_explains_stage_witness:
  "fst (get_rollout_status (snd (rollback_rollout 2 (snd (advance_rollout 1
     (\<lparr>ra_strategy = new_rollout, ra_stages = [], ra_metrics = []\<rparr> :: nat rollout_app)))))) = SHADOW"
proof -
  let ?r = "\<lparr>ra_strategy = new_rollout, ra_stages = [], ra_metrics = []\<rparr> :: nat rollout_app"
  have "reach rollout_start rollout_step ?r" by (rule reach_init) (simp add: rollout_start_def)
  from rollout_history_explains_stage [OF this, of 1 2] show ?thesis
    by (simp add: advance_rollout_def get_rollout_status_def new_rollout_def Let_def STAGE_ORDER_def)
qed

text \<open>What the metrics route shows never triggers a rollback: it is a constant within every threshold.\<close>

lemma shown_metrics_never_trigger:
  "rs_triggers s = default_triggers \<Longrightarrow> \<not> fst (rollback_if_degraded (fst (fst (get_rollout_metrics now r))) s)"
  by (simp add: get_rollout_metrics_def Let_def rollback_if_degraded_def default_triggers_def)

lemma canary_users_counted: "(\<And>xs n. n \<le> length xs \<Longrightarrow> length (sample xs n) = n) \<Longrightarrow> snd (get_canary_users sample) = 50"
  by (simp add: get_canary_users_def canary_split_def)

lemma canary_always_fifty: "canary_split (\<lambda>xs n. take n xs) t = [0..<50]"
  by (simp add: canary_split_def take_upt)

lemma shadow_logs_bounded: "length (get_shadow_logs s) \<le> 100"
  by (simp add: get_shadow_logs_def)

end
