(* ===== verification/Toolbox.thy ===== *)
theory Toolbox
  imports Db
begin

text \<open>
  Tools outside the agent graph: the registry (\<^verbatim>\<open>chat_service/agent/tool_registry.py\<close>), the executor
  (\<^verbatim>\<open>chat_service/agent/tool_executor.py\<close>), the gateway's wrappers around it
  (\<^verbatim>\<open>api_gateway/middleware/circuit_breaker.py\<close>) and the MCP client
  (\<^verbatim>\<open>chat_service/agent/mcp_client.py\<close>).  Handlers are abstract: \<open>run\<close> says what calling one does.
\<close>

section \<open>The registry\<close>

datatype tool_type = API | FUNCTION | PROMPT | MCP

type_synonym tool_params = "(string \<times> ucs) list"

record 'h tool_definition =
  td_name :: string
  td_description :: ucs
  td_type :: tool_type
  td_params :: tool_params
  td_handler :: "'h option"
  td_server :: "string option"
  td_enabled :: bool

record 'h tools_registry =
  tr_tools :: "(string \<times> 'h tool_definition) list"
  tr_handlers :: "(string \<times> 'h) list"

definition new_tools_registry :: "'h tools_registry" where
  "new_tools_registry = \<lparr>tr_tools = [], tr_handlers = []\<rparr>"

definition register_tool ::
  "string \<Rightarrow> ucs \<Rightarrow> tool_type \<Rightarrow> tool_params \<Rightarrow> 'h option \<Rightarrow> string option \<Rightarrow> 'h tools_registry \<Rightarrow> 'h tool_definition \<times> 'h tools_registry" where
  "register_tool name description ty params handler server r =
     (let t = \<lparr>td_name = name, td_description = description, td_type = ty, td_params = params, td_handler = handler,
               td_server = server, td_enabled = True\<rparr>
      in (t, r\<lparr>tr_tools := AList.update name t (tr_tools r),
              tr_handlers := (case handler of None \<Rightarrow> tr_handlers r | Some h \<Rightarrow> AList.update name h (tr_handlers r))\<rparr>))"

definition get_tool :: "string \<Rightarrow> 'h tools_registry \<Rightarrow> 'h tool_definition option" where
  "get_tool name r = map_of (tr_tools r) name"

definition list_tools :: "bool \<Rightarrow> 'h tools_registry \<Rightarrow> 'h tool_definition list" where
  "list_tools enabled_only r = (let ts = map snd (tr_tools r) in if enabled_only then filter td_enabled ts else ts)"

definition set_tool_enabled :: "bool \<Rightarrow> string \<Rightarrow> 'h tools_registry \<Rightarrow> bool \<times> 'h tools_registry" where
  "set_tool_enabled on name r =
     (case map_of (tr_tools r) name of
        None \<Rightarrow> (False, r)
      | Some t \<Rightarrow> (True, r\<lparr>tr_tools := AList.update name (t\<lparr>td_enabled := on\<rparr>) (tr_tools r)\<rparr>))"

definition unregister_tool :: "string \<Rightarrow> 'h tools_registry \<Rightarrow> bool \<times> 'h tools_registry" where
  "unregister_tool name r =
     (if map_of (tr_tools r) name = None then (False, r)
      else (True, r\<lparr>tr_tools := AList.delete name (tr_tools r), tr_handlers := AList.delete name (tr_handlers r)\<rparr>))"

section \<open>The executor\<close>

text \<open>
  One call of a handler: whether it is a coroutine, what it gives (the text of the exception, or a
  value), and how long it takes.  Only coroutines are cut off at the timeout, and the text of
  \<open>TimeoutError\<close> is empty.
\<close>

record 'v handler_run =
  hr_async :: bool
  hr_outcome :: "ucs + 'v"
  hr_time :: rat

definition timed_run :: "rat \<Rightarrow> 'v handler_run \<Rightarrow> (ucs + 'v) \<times> rat" where
  "timed_run timeout h = (if hr_async h \<and> timeout < hr_time h then (Inl [], timeout) else (hr_outcome h, hr_time h))"

record 'v tool_execution =
  te_tool :: string
  te_params :: tool_params
  te_result :: "'v option"
  te_error :: "ucs option"
  te_started :: time
  te_completed :: time
  te_duration_ms :: int

definition execution :: "string \<Rightarrow> tool_params \<Rightarrow> time \<Rightarrow> (ucs + 'v) \<times> rat \<Rightarrow> 'v tool_execution" where
  "execution name params started r =
     \<lparr>te_tool = name, te_params = params,
      te_result = (case fst r of Inl _ \<Rightarrow> None | Inr v \<Rightarrow> Some v),
      te_error = (case fst r of Inl e \<Rightarrow> Some e | Inr _ \<Rightarrow> None),
      te_started = started, te_completed = started + snd r, te_duration_ms = \<lfloor>snd r * 1000\<rfloor>\<rparr>"

definition run_tool ::
  "('h \<Rightarrow> tool_params \<Rightarrow> 'v handler_run) \<Rightarrow> rat \<Rightarrow> 'h tools_registry option \<Rightarrow> string \<Rightarrow> tool_params \<Rightarrow> time \<Rightarrow> 'v tool_execution" where
  "run_tool run timeout reg name params started =
     execution name params started
       (case reg of
          None \<Rightarrow> (Inl (ucs_of ''No registry configured''), 0)
        | Some r \<Rightarrow>
            (case get_tool name r of
               None \<Rightarrow> (Inl (ucs_of (''Tool not found: '' @ name)), 0)
             | Some _ \<Rightarrow>
                 (case map_of (tr_handlers r) name of
                    None \<Rightarrow> (Inl (ucs_of (''No handler for tool: '' @ name)), 0)
                  | Some h \<Rightarrow> timed_run timeout (run h params))))"

record ('h, 'v) tool_executor =
  tx_registry :: "'h tools_registry option"
  tx_history :: "'v tool_execution list"

definition execute_tool ::
  "('h \<Rightarrow> tool_params \<Rightarrow> 'v handler_run) \<Rightarrow> rat \<Rightarrow> string \<Rightarrow> tool_params \<Rightarrow> time \<Rightarrow> ('h, 'v) tool_executor \<Rightarrow> 'v tool_execution \<times> ('h, 'v) tool_executor" where
  "execute_tool run timeout name params now x =
     (let e = run_tool run timeout (tx_registry x) name params now in (e, x\<lparr>tx_history := tx_history x @ [e]\<rparr>))"

text \<open>\<open>if result.error\<close>: an empty text is no error.\<close>

definition has_error :: "'v tool_execution \<Rightarrow> bool" where
  "has_error e \<longleftrightarrow> te_error e \<noteq> None \<and> te_error e \<noteq> Some []"

fun execute_sequence ::
  "('h \<Rightarrow> tool_params \<Rightarrow> 'v handler_run) \<Rightarrow> bool \<Rightarrow> (string \<times> tool_params) list \<Rightarrow> time \<Rightarrow> ('h, 'v) tool_executor \<Rightarrow> 'v tool_execution list \<times> ('h, 'v) tool_executor" where
  "execute_sequence run stop [] now x = ([], x)"
| "execute_sequence run stop ((name, params) # ts) now x =
     (case execute_tool run 30 name params now x of (e, x1) \<Rightarrow>
        if stop \<and> has_error e then ([e], x1)
        else (case execute_sequence run stop ts (te_completed e) x1 of (es, x2) \<Rightarrow> (e # es, x2)))"

text \<open>
  In parallel: each call starts at its own time, the results come in the order asked for, and the
  history grows in the order the calls end.  \<open>execute_tool\<close> raises nothing itself, so that the branch
  for a raised exception is never taken.
\<close>

definition execute_parallel ::
  "('h \<Rightarrow> tool_params \<Rightarrow> 'v handler_run) \<Rightarrow> (string \<times> tool_params \<times> time) list \<Rightarrow> ('h, 'v) tool_executor \<Rightarrow> 'v tool_execution list \<times> ('h, 'v) tool_executor" where
  "execute_parallel run ts x =
     (let es = map (\<lambda>(name, params, start). run_tool run 30 (tx_registry x) name params start) ts
      in (es, x\<lparr>tx_history := tx_history x @ sort_key te_completed es\<rparr>))"

definition get_execution_history :: "int \<Rightarrow> ('h, 'v) tool_executor \<Rightarrow> 'v tool_execution list" where \<comment> \<open>\<open>[-limit:]\<close>\<close>
  "get_execution_history limit x =
     (if limit \<le> 0 then drop (nat (- limit)) (tx_history x) else last_n (nat limit) (tx_history x))"

section \<open>The gateway's wrappers\<close>

text \<open>
  The circuit of the library is the argument \<open>admitted\<close>: it lets the call through or raises
  \<open>CircuitBreakerError\<close>, which only the safe wrappers catch.
\<close>

datatype 'a degraded = Degraded | Full_response 'a

definition call_tool_service ::
  "('h \<Rightarrow> tool_params \<Rightarrow> 'v handler_run) \<Rightarrow> string \<Rightarrow> tool_params \<Rightarrow> time \<Rightarrow> ('h, 'v) tool_executor \<Rightarrow> (exn + 'v option \<times> int) \<times> ('h, 'v) tool_executor" where
  "call_tool_service run name args now x =
     (case execute_tool run 30 name args now x of (e, x') \<Rightarrow>
        (if has_error e then Inl RuntimeError else Inr (te_result e, te_duration_ms e), x'))"

definition safe_call_tool_service ::
  "bool \<Rightarrow> ('h \<Rightarrow> tool_params \<Rightarrow> 'v handler_run) \<Rightarrow> string \<Rightarrow> tool_params \<Rightarrow> time \<Rightarrow> ('h, 'v) tool_executor \<Rightarrow> (exn + ('v option \<times> int) degraded) \<times> ('h, 'v) tool_executor" where
  "safe_call_tool_service admitted run name args now x =
     (if admitted then (case call_tool_service run name args now x of (r, x') \<Rightarrow> (map_sum id Full_response r, x'))
      else (Inr Degraded, x))"

definition gateway_executor :: "('h, 'v) tool_executor" where
  "gateway_executor = \<lparr>tx_registry = None, tx_history = []\<rparr>"

text \<open>A chunk of the model's stream: without a choice or a delta, or with the delta's content, which may be \<open>None\<close>.\<close>

datatype gw_chunk = EmptyChunk | Content "ucs option"

fun collect_chunks :: "gw_chunk list \<Rightarrow> exn + ucs" where \<comment> \<open>\<open>"".join(collected)\<close>\<close>
  "collect_chunks [] = Inr []"
| "collect_chunks (EmptyChunk # cs) = collect_chunks cs"
| "collect_chunks (Content None # cs) = Inl TypeError"
| "collect_chunks (Content (Some t) # cs) = map_sum id ((@) t) (collect_chunks cs)"

definition call_llm :: "('p \<Rightarrow> exn + gw_chunk list) \<Rightarrow> 'p \<Rightarrow> exn + ucs \<times> 'p" where
  "call_llm stream payload =
     (case stream payload of Inl e \<Rightarrow> Inl e | Inr cs \<Rightarrow> map_sum id (\<lambda>t. (t, payload)) (collect_chunks cs))"

definition safe_call_llm :: "bool \<Rightarrow> ('p \<Rightarrow> exn + gw_chunk list) \<Rightarrow> 'p \<Rightarrow> exn + (ucs \<times> 'p) degraded" where
  "safe_call_llm admitted stream payload =
     (if admitted then map_sum id Full_response (call_llm stream payload) else Inr Degraded)"

section \<open>The MCP client\<close>

record mcp_connection =
  mc_server :: string
  mc_url :: string
  mc_status :: string
  mc_tools :: "string list"
  mc_resources :: "string list"

type_synonym mcp_client = "(string \<times> mcp_connection) list"

text \<open>\<open>_establish_connection\<close> contacts nothing and cannot fail.\<close>

definition mcp_connect :: "string \<Rightarrow> string \<Rightarrow> mcp_client \<Rightarrow> mcp_connection \<times> mcp_client" where
  "mcp_connect server url c =
     (let conn = \<lparr>mc_server = server, mc_url = url, mc_status = ''connected'', mc_tools = [''sample_tool''],
                  mc_resources = [''sample://resource'']\<rparr>
      in (conn, AList.update server conn c))"

definition mcp_disconnect :: "string \<Rightarrow> mcp_client \<Rightarrow> bool \<times> mcp_client" where
  "mcp_disconnect server c = (if map_of c server = None then (False, c) else (True, AList.delete server c))"

definition mcp_connected :: "string \<Rightarrow> mcp_client \<Rightarrow> mcp_connection option" where
  "mcp_connected server c =
     (case map_of c server of Some k \<Rightarrow> if mc_status k = ''connected'' then Some k else None | None \<Rightarrow> None)"

definition mcp_list_tools :: "string \<Rightarrow> mcp_client \<Rightarrow> string list" where
  "mcp_list_tools server c = (case mcp_connected server c of None \<Rightarrow> [] | Some k \<Rightarrow> mc_tools k)"

definition mcp_list_resources :: "string \<Rightarrow> mcp_client \<Rightarrow> string list" where
  "mcp_list_resources server c = (case mcp_connected server c of None \<Rightarrow> [] | Some k \<Rightarrow> mc_resources k)"

text \<open>The answers: \<open>{"status": "success", "tool": name}\<close>, and a constant text for a resource.\<close>

definition mcp_call_tool :: "string \<Rightarrow> string \<Rightarrow> 'a \<Rightarrow> mcp_client \<Rightarrow> exn + string \<times> string" where
  "mcp_call_tool server name arguments c =
     (case mcp_connected server c of None \<Rightarrow> Inl ValueError
      | Some k \<Rightarrow> if name \<in> set (mc_tools k) then Inr (''success'', name) else Inl ValueError)"

definition mcp_read_resource :: "string \<Rightarrow> string \<Rightarrow> mcp_client \<Rightarrow> exn + string" where
  "mcp_read_resource server uri c =
     (case mcp_connected server c of None \<Rightarrow> Inl ValueError
      | Some k \<Rightarrow> if uri \<in> set (mc_resources k) then Inr ''resource data'' else Inl ValueError)"

definition get_connection_status :: "string \<Rightarrow> mcp_client \<Rightarrow> string option" where
  "get_connection_status server c = map_option mc_status (map_of c server)"

definition list_servers :: "mcp_client \<Rightarrow> mcp_connection list" where
  "list_servers c = map snd c"

section \<open>Registering and removing\<close>

inductive registry_step :: "'h tools_registry \<Rightarrow> 'h tools_registry \<Rightarrow> bool" where
  register: "registry_step r (snd (register_tool name description ty params handler server r))"
| enable: "registry_step r (snd (set_tool_enabled on name r))"
| unregister: "registry_step r (snd (unregister_tool name r))"

definition handlers_known :: "'h tools_registry \<Rightarrow> bool" where
  "handlers_known r \<longleftrightarrow> fst ` set (tr_handlers r) \<subseteq> fst ` set (tr_tools r) \<and>
     (\<forall>name t. map_of (tr_tools r) name = Some t \<longrightarrow> td_handler t \<noteq> None \<longrightarrow> map_of (tr_handlers r) name = td_handler t)"

lemma register_known: "handlers_known r \<Longrightarrow> handlers_known (snd (register_tool name description ty params handler server r))"
  by (auto simp: handlers_known_def register_tool_def Let_def keys_update_subset split: option.split)

lemma set_enabled_known:
  assumes "handlers_known r"
  shows "handlers_known (snd (set_tool_enabled on name r))"
proof (cases "map_of (tr_tools r) name")
  case (Some t)
  then have "name \<in> fst ` set (tr_tools r)" by (simp add: dict_key_iff)
  with assms Some show ?thesis
    by (auto simp: handlers_known_def set_tool_enabled_def keys_update_subset)
qed (use assms in \<open>simp add: set_tool_enabled_def\<close>)

lemma tool_keys_delete: "fst ` set (AList.delete k d) = fst ` set d - {k}"
  by (induction d) auto

lemma unregister_known: "handlers_known r \<Longrightarrow> handlers_known (snd (unregister_tool name r))"
  by (auto simp: handlers_known_def unregister_tool_def tool_keys_delete)

interpretation registries: invariant_system "\<lambda>r. r = new_tools_registry" registry_step handlers_known
proof
  show "handlers_known r" if "r = new_tools_registry" for r :: "'h tools_registry"
    using that by (simp add: new_tools_registry_def handlers_known_def)
  show "handlers_known r'" if i: "handlers_known r" and st: "registry_step r r'" for r r' :: "'h tools_registry"
    using st by cases (use i register_known set_enabled_known unregister_known in simp_all)
qed

text \<open>
  In every reachable registry each handler belongs to a registered tool, and a tool registered with a
  handler runs it, disabled or not; a name that was removed is refused.
\<close>

theorem registered_tools_run:
  assumes "reach (\<lambda>r. r = new_tools_registry) registry_step r"
  shows "(case get_tool name r of
      None \<Rightarrow> map_of (tr_handlers r) name = None \<and> te_result (run_tool run timeout (Some r) name params now) = None
    | Some t \<Rightarrow> (case td_handler t of None \<Rightarrow> True
        | Some h \<Rightarrow> run_tool run timeout (Some r) name params now = execution name params now (timed_run timeout (run h params))))"
proof -
  have k: "handlers_known r" using registries.reach_inv [OF assms] .
  show ?thesis
  proof (cases "map_of (tr_tools r) name")
    case None
    with k have "map_of (tr_handlers r) name = None" by (auto simp: handlers_known_def map_of_eq_None_iff)
    with None show ?thesis by (simp add: get_tool_def run_tool_def execution_def)
  next
    case (Some t)
    with k show ?thesis by (auto simp: get_tool_def run_tool_def handlers_known_def split: option.split)
  qed
qed

definition demo_tools :: "nat tools_registry" where
  "demo_tools = snd (set_tool_enabled False ''lookup'' (snd (register_tool ''lookup'' [] FUNCTION [] (Some 7) None new_tools_registry)))"

lemma demo_tools_reached: "reach (\<lambda>r. r = new_tools_registry) registry_step demo_tools"
proof -
  have "reach (\<lambda>r. r = new_tools_registry) registry_step (new_tools_registry :: nat tools_registry)" by (rule reach_init) simp
  from reach_step [OF reach_step [OF this registry_step.register] registry_step.enable] show ?thesis
    unfolding demo_tools_def .
qed

lemma registered_tools_run_witness:
  "td_enabled (the (get_tool ''lookup'' demo_tools)) = False \<and>
   te_result (run_tool (\<lambda>h p. \<lparr>hr_async = False, hr_outcome = Inr h, hr_time = 1\<rparr>) 30 (Some demo_tools) ''lookup'' [] 0) = Some 7"
  using registered_tools_run [OF demo_tools_reached, of "''lookup''" "\<lambda>h p. \<lparr>hr_async = False, hr_outcome = Inr h, hr_time = 1\<rparr>" 30 "[]" 0]
  by (simp add: demo_tools_def set_tool_enabled_def register_tool_def new_tools_registry_def get_tool_def execution_def timed_run_def Let_def)

text \<open>A tool registered again without a handler still runs its old one.\<close>

lemma old_handler_kept:
  "map_of (tr_handlers r) name = Some h \<Longrightarrow>
   run_tool run timeout (Some (snd (register_tool name description ty params None server r))) name ps now =
     execution name ps now (timed_run timeout (run h ps))"
  by (simp add: run_tool_def register_tool_def get_tool_def Let_def)

section \<open>Sequences and time-outs\<close>

lemma sequence_runs:
  "execute_sequence run stop ts now x = (es, x') \<Longrightarrow>
   map te_tool es = map fst (take (length es) ts) \<and> tx_history x' = tx_history x @ es \<and> tx_registry x' = tx_registry x \<and>
   (\<forall>e \<in> set (butlast es). \<not> (stop \<and> has_error e)) \<and>
   (length es < length ts \<longrightarrow> es \<noteq> [] \<and> stop \<and> has_error (last es)) \<and> (length es \<le> length ts)"
proof (induction run stop ts now x arbitrary: es x' rule: execute_sequence.induct)
  case (2 run stop name params ts now x)
  obtain e x1 where e: "execute_tool run 30 name params now x = (e, x1)" by fastforce
  have p: "te_tool e = name" "tx_history x1 = tx_history x @ [e]" "tx_registry x1 = tx_registry x"
    using e by (auto simp: execute_tool_def Let_def run_tool_def execution_def)
  show ?case
  proof (cases "stop \<and> has_error e")
    case True
    with 2(2) e have "es = [e]" "x' = x1" by auto
    with True p show ?thesis by simp
  next
    case False
    obtain es1 x2 where r: "execute_sequence run stop ts (te_completed e) x1 = (es1, x2)" by fastforce
    with 2(2) e False have "es = e # es1" "x' = x2" by auto
    with 2(1) [OF e [symmetric] False r] p False show ?thesis by auto
  qed
qed simp

text \<open>
  A sequence runs the tools in order and ends early only on an error, which is then its last entry; the
  history is what was run.
\<close>

theorem sequence_stops_at_error:
  "(case execute_sequence run stop ts now x of (es, x') \<Rightarrow>
     map te_tool es = map fst (take (length es) ts) \<and> tx_history x' = tx_history x @ es \<and>
     \<not> list_ex (\<lambda>e. stop \<and> has_error e) (butlast es) \<and>
     (length es = length ts \<or> 0 < length es \<and> stop \<and> has_error (last es)))"
proof -
  obtain es x' where r: "execute_sequence run stop ts now x = (es, x')" by fastforce
  from sequence_runs [OF r] show ?thesis unfolding r by (auto simp: list_ex_iff)
qed

text \<open> 
  But a time-out is no error: its text is empty.  A coroutine that is cut off leaves neither result nor
  error, the sequence goes on to the next tool, and the gateway answers as for a tool without a result.
\<close>

theorem timeouts_not_errors:
  assumes "get_tool name r = Some t" and "map_of (tr_handlers r) name = Some h"
    and "hr_async (run h params)" and "30 < hr_time (run h params)" and "tx_registry x = Some r"
  shows "fst (call_tool_service run name params now x) = Inr (None, 30000) \<and>
    length (fst (execute_sequence run True ((name, params) # ts) now x)) =
      1 + length (fst (execute_sequence run True ts (now + 30) (snd (execute_tool run 30 name params now x))))"
proof -
  define e where "e = run_tool run 30 (tx_registry x) name params now"
  have r: "e = execution name params now (Inl [], 30)"
    using assms by (simp add: e_def run_tool_def timed_run_def)
  have "\<not> has_error e" "te_completed e = now + 30" "te_result e = None" "te_duration_ms e = 30000"
    by (simp_all add: r execution_def has_error_def)
  then show ?thesis
    by (simp add: call_tool_service_def execute_tool_def e_def [symmetric] Let_def split_beta)
qed

definition demo_slow :: "nat tools_registry" where
  "demo_slow = snd (register_tool ''slow'' [] FUNCTION [] (Some 7) None new_tools_registry)"

lemma timeouts_not_errors_witness:
  "fst (call_tool_service (\<lambda>h p. \<lparr>hr_async = True, hr_outcome = Inr h, hr_time = 31\<rparr>) ''slow'' [] 0
     \<lparr>tx_registry = Some demo_slow, tx_history = []\<rparr>) = Inr (None, 30000)"
  using timeouts_not_errors [of "''slow''" demo_slow _ 7 "\<lambda>h p. \<lparr>hr_async = True, hr_outcome = Inr h, hr_time = 31\<rparr>" "[]"
      "\<lparr>tx_registry = Some demo_slow, tx_history = []\<rparr>" 0 "[]"]
  by (simp add: demo_slow_def register_tool_def new_tools_registry_def get_tool_def Let_def)

text \<open>In parallel nothing is lost or reordered, and the history has the same calls.\<close>

lemma parallel_complete:
  "map te_tool (fst (execute_parallel run ts x)) = map fst ts \<and>
   mset (tx_history (snd (execute_parallel run ts x))) = mset (tx_history x) + mset (fst (execute_parallel run ts x))"
  by (auto simp: execute_parallel_def Let_def run_tool_def execution_def split_beta)

lemma history_limit:
  "0 < limit \<Longrightarrow> length (get_execution_history limit x) = min (nat limit) (length (tx_history x))"
  "get_execution_history 0 x = tx_history x"
  by (simp_all add: get_execution_history_def last_n_def)

section \<open>The gateway and the MCP client\<close>

text \<open>
  The gateway's executor has no registry: whatever the tool, a call is refused by the open circuit or
  fails, and nothing leaves the gateway.  A stream in which some delta has no content fails as well.
\<close>

theorem gateway_calls_fail:
  "fst (safe_call_tool_service admitted run name args now gateway_executor) = (if admitted then Inl RuntimeError else Inr Degraded) \<and>
   (\<forall>cs. stream payload = Inr cs \<longrightarrow> Content None \<in> set cs \<longrightarrow>
      safe_call_llm admitted stream payload = (if admitted then Inl TypeError else Inr Degraded))"
proof -
  have c: "Content None \<in> set cs \<Longrightarrow> collect_chunks cs = Inl TypeError" for cs
    by (induction cs rule: collect_chunks.induct) auto
  have "has_error (run_tool run 30 None name args now)" by (simp add: run_tool_def execution_def has_error_def ucs_of_def)
  then show ?thesis
    by (simp add: safe_call_tool_service_def call_tool_service_def gateway_executor_def execute_tool_def Let_def
        safe_call_llm_def call_llm_def c)
qed

lemma gateway_calls_fail_witness:
  "safe_call_llm True (\<lambda>p :: nat. Inr [Content (Some [72]), Content None]) 0 = Inl TypeError"
  using gateway_calls_fail [of True "\<lambda>h p. \<lparr>hr_async = False, hr_outcome = Inr (0 :: nat), hr_time = 0\<rparr>" "[]" "[]" 0
      "\<lambda>p :: nat. Inr [Content (Some [72]), Content None]" 0] by (elim conjE allE impE) auto

inductive mcp_step :: "mcp_client \<Rightarrow> mcp_client \<Rightarrow> bool" where
  connect: "mcp_step c (snd (mcp_connect server url c))"
| disconnect: "mcp_step c (snd (mcp_disconnect server c))"

definition mcp_inv :: "mcp_client \<Rightarrow> bool" where
  "mcp_inv c \<longleftrightarrow> (\<forall>(s, k) \<in> set c. mc_server k = s \<and> mc_status k = ''connected'' \<and> mc_tools k = [''sample_tool''])"

interpretation mcp: invariant_system "\<lambda>c. c = []" mcp_step mcp_inv
proof
  have u: "(s, k) \<in> set (AList.update n v c) \<Longrightarrow> (s, k) = (n, v) \<or> (s, k) \<in> set c" for s k n v and c :: mcp_client
    by (induction c) (auto split: if_splits)
  show "mcp_inv c'" if i: "mcp_inv c" and st: "mcp_step c c'" for c c'
    using st by cases (use i u in \<open>fastforce simp: mcp_inv_def mcp_connect_def mcp_disconnect_def Let_def AList.delete_eq split: if_splits\<close>)+
qed (simp add: mcp_inv_def)

text \<open>
  The MCP client reports success for exactly one tool of every server it was told of, whatever the
  address and the arguments: no server is ever asked.
\<close>

theorem mcp_answers_are_made_up:
  assumes "reach (\<lambda>c. c = []) mcp_step c"
  shows "mcp_call_tool server name arguments c =
    (if map_of c server \<noteq> None \<and> name = ''sample_tool'' then Inr (''success'', name) else Inl ValueError)"
proof (cases "map_of c server")
  case (Some k)
  then have "mc_status k = ''connected''" "mc_tools k = [''sample_tool'']"
    using mcp.reach_inv [OF assms] map_of_SomeD [OF Some] by (auto simp: mcp_inv_def)
  with Some show ?thesis by (simp add: mcp_call_tool_def mcp_connected_def)
qed (simp add: mcp_call_tool_def mcp_connected_def)

lemma mcp_answers_are_made_up_witness:
  "mcp_call_tool ''crm'' ''sample_tool'' (0 :: nat) (snd (mcp_connect ''crm'' ''no such address'' [])) = Inr (''success'', ''sample_tool'')"
proof -
  have "reach (\<lambda>c. c = []) mcp_step []" by (rule reach_init) simp
  then have r: "reach (\<lambda>c. c = []) mcp_step (snd (mcp_connect ''crm'' ''no such address'' []))" by (rule reach_step) (rule mcp_step.connect)
  from mcp_answers_are_made_up [OF r, of "''crm''" "''sample_tool''" "0 :: nat"] show ?thesis by (simp add: mcp_connect_def Let_def)
qed

end
