(* ===== verification/Terms.thy ===== *)
theory Terms
  imports PyStd
begin

text \<open>
  Words of a text, as \<open>s.split()\<close> gives them, and the sets of words that retrieval, memory and the
  context optimizers compare; slices with a bound that may be negative; the first best element of a list.
  \<open>str.lower\<close> beyond ASCII is an argument \<open>lower\<close> of what uses it.
\<close>

section \<open>Words\<close>

function words :: "ucs \<Rightarrow> ucs list" where
  "words [] = []"
| "words (c # cs) =
     (if is_ws c then words cs
      else (c # takeWhile (\<lambda>x. \<not> is_ws x) cs) # words (dropWhile (\<lambda>x. \<not> is_ws x) cs))"
  by pat_completeness auto
termination
  by (relation "measure length") (auto simp: le_imp_less_Suc length_dropWhile_le)

lemma words_clean: "w \<in> set (words s) \<Longrightarrow> w \<noteq> [] \<and> (\<forall>c \<in> set w. \<not> is_ws c)"
proof (induction s rule: words.induct)
  case (2 c cs)
  show ?case
  proof (cases "is_ws c")
    case True
    with 2 show ?thesis by simp
  next
    case False
    from 2(3) False consider "w = c # takeWhile (\<lambda>x. \<not> is_ws x) cs" | "w \<in> set (words (dropWhile (\<lambda>x. \<not> is_ws x) cs))"
      by auto
    then show ?thesis
    proof cases
      case 1
      with False show ?thesis by (auto dest: set_takeWhileD)
    next
      case w: 2
      from 2(2) [OF False w] show ?thesis .
    qed
  qed
qed simp

lemma words_Nil_iff: "words s = [] \<longleftrightarrow> (\<forall>c \<in> set s. is_ws c)"
  by (induction s rule: words.induct) auto

lemma words_concat: "concat (words s) = filter (\<lambda>c. \<not> is_ws c) s"
proof (induction s rule: words.induct)
  case (2 c cs)
  have "filter (\<lambda>c. \<not> is_ws c) cs = takeWhile (\<lambda>x. \<not> is_ws x) cs @ filter (\<lambda>c. \<not> is_ws c) (dropWhile (\<lambda>x. \<not> is_ws x) cs)"
    by (induction cs) auto
  with 2 show ?case by simp
qed simp

definition terms :: "(ucs \<Rightarrow> ucs) \<Rightarrow> ucs \<Rightarrow> ucs list" where \<comment> \<open>\<open>set(s.lower().split())\<close>\<close>
  "terms lower s = remdups (words (lower s))"

lemma distinct_terms [simp]: "distinct (terms lower s)"
  by (simp add: terms_def)

definition shared_terms :: "ucs list \<Rightarrow> ucs list \<Rightarrow> nat" where
  "shared_terms a b = length (filter (\<lambda>t. t \<in> set b) a)"

lemma shared_terms_le: "shared_terms a b \<le> length a"
  by (simp add: shared_terms_def)

text \<open>The share of the first text's words that the second one has.\<close>

definition overlap :: "(ucs \<Rightarrow> ucs) \<Rightarrow> ucs \<Rightarrow> ucs \<Rightarrow> rat" where
  "overlap lower a b =
     (let s = terms lower a; t = terms lower b in
      if s = [] \<or> t = [] then 0 else of_nat (shared_terms s t) / of_nat (length s))"

lemma overlap_bounds: "0 \<le> overlap lower a b \<and> overlap lower a b \<le> 1"
  using shared_terms_le [of "terms lower a" "terms lower b"]
  by (auto simp: overlap_def Let_def divide_le_eq)

lemma overlap_full: "terms lower b \<noteq> [] \<Longrightarrow> set (terms lower a) \<subseteq> set (terms lower b) \<Longrightarrow> terms lower a \<noteq> [] \<Longrightarrow> overlap lower a b = 1"
  by (simp add: overlap_def Let_def shared_terms_def subset_iff filter_id_conv)

section \<open>Slices and best elements\<close>

definition py_take :: "int \<Rightarrow> 'a list \<Rightarrow> 'a list" where \<comment> \<open>\<open>xs[:n]\<close>\<close>
  "py_take n xs = (if 0 \<le> n then take (nat n) xs else take (length xs - nat (- n)) xs)"

lemma py_take_prefix: "\<exists>ys. xs = py_take n xs @ ys"
  unfolding py_take_def by (metis append_take_drop_id)

lemma set_py_take: "x \<in> set (py_take n xs) \<Longrightarrow> x \<in> set xs"
  by (auto simp: py_take_def split: if_splits dest: in_set_takeD)

lemma length_py_take: "0 \<le> n \<Longrightarrow> length (py_take n xs) = min (nat n) (length xs)"
  by (simp add: py_take_def min.commute)

definition remove_nth :: "nat \<Rightarrow> 'a list \<Rightarrow> 'a list" where \<comment> \<open>\<open>xs.pop(i)\<close>\<close>
  "remove_nth i xs = take i xs @ drop (Suc i) xs"

text \<open>The scan for the greatest score with its place: the first one wins a tie.\<close>

fun best_from :: "('a \<Rightarrow> rat) \<Rightarrow> nat \<Rightarrow> (rat \<times> nat \<times> 'a) option \<Rightarrow> 'a list \<Rightarrow> (rat \<times> nat \<times> 'a) option" where
  "best_from f i b [] = b"
| "best_from f i b (x # xs) =
     best_from f (Suc i)
       (case b of None \<Rightarrow> Some (f x, i, x) | Some (s, _) \<Rightarrow> if s < f x then Some (f x, i, x) else b) xs"

lemma best_from_Some:
  "best_from f i (Some (s, j, y)) xs = Some r \<Longrightarrow>
   (r = (s, j, y) \<and> (\<forall>z \<in> set xs. f z \<le> s)) \<or>
   (\<exists>a x b. xs = a @ x # b \<and> r = (f x, i + length a, x) \<and> s < f x \<and> (\<forall>z \<in> set a. f z < f x) \<and> (\<forall>z \<in> set b. f z \<le> f x))"
proof (induction xs arbitrary: i s j y)
  case (Cons x xs)
  show ?case
  proof (cases "s < f x")
    case True
    with Cons.prems have "best_from f (Suc i) (Some (f x, i, x)) xs = Some r" by simp
    from Cons.IH [OF this] show ?thesis
    proof (elim disjE exE conjE)
      assume "r = (f x, i, x)" "\<forall>z \<in> set xs. f z \<le> f x"
      with True have "x # xs = [] @ x # xs \<and> r = (f x, i + length [], x) \<and> s < f x \<and> (\<forall>z \<in> set []. f z < f x) \<and> (\<forall>z \<in> set xs. f z \<le> f x)"
        by simp
      then show ?thesis by blast
    next
      fix a x' b
      assume "xs = a @ x' # b" "r = (f x', Suc i + length a, x')" "f x < f x'" "\<forall>z \<in> set a. f z < f x'" "\<forall>z \<in> set b. f z \<le> f x'"
      with True have "x # xs = (x # a) @ x' # b \<and> r = (f x', i + length (x # a), x') \<and> s < f x' \<and>
        (\<forall>z \<in> set (x # a). f z < f x') \<and> (\<forall>z \<in> set b. f z \<le> f x')" by auto
      then show ?thesis by blast
    qed
  next
    case False
    with Cons.prems have "best_from f (Suc i) (Some (s, j, y)) xs = Some r" by simp
    from Cons.IH [OF this] show ?thesis
    proof (elim disjE exE conjE)
      fix a x' b
      assume "xs = a @ x' # b" "r = (f x', Suc i + length a, x')" "s < f x'" "\<forall>z \<in> set a. f z < f x'" "\<forall>z \<in> set b. f z \<le> f x'"
      with False have "x # xs = (x # a) @ x' # b \<and> r = (f x', i + length (x # a), x') \<and> s < f x' \<and>
        (\<forall>z \<in> set (x # a). f z < f x') \<and> (\<forall>z \<in> set b. f z \<le> f x')" by auto
      then show ?thesis by blast
    qed (use False in auto)
  qed
qed simp

lemma best_from_ex: "best_from f i (Some b) xs \<noteq> None"
  by (induction xs arbitrary: i b) (auto split: prod.splits)

lemma best_from_first:
  "best_from f 0 None (x # xs) = Some (s, i, y) \<Longrightarrow>
   \<exists>a b. x # xs = a @ y # b \<and> i = length a \<and> s = f y \<and> (\<forall>z \<in> set a. f z < f y) \<and> (\<forall>z \<in> set b. f z \<le> f y)"
proof -
  assume "best_from f 0 None (x # xs) = Some (s, i, y)"
  then have "best_from f (Suc 0) (Some (f x, 0, x)) xs = Some (s, i, y)" by simp
  from best_from_Some [OF this] show ?thesis
  proof (elim disjE exE conjE)
    assume "(s, i, y) = (f x, 0, x)" "\<forall>z \<in> set xs. f z \<le> f x"
    then have "x # xs = [] @ y # xs \<and> i = length [] \<and> s = f y \<and> (\<forall>z \<in> set []. f z < f y) \<and> (\<forall>z \<in> set xs. f z \<le> f y)" by simp
    then show ?thesis by blast
  next
    fix a x' b
    assume "xs = a @ x' # b" "(s, i, y) = (f x', Suc 0 + length a, x')" "f x < f x'" "\<forall>z \<in> set a. f z < f x'" "\<forall>z \<in> set b. f z \<le> f x'"
    then have "x # xs = (x # a) @ y # b \<and> i = length (x # a) \<and> s = f y \<and> (\<forall>z \<in> set (x # a). f z < f y) \<and> (\<forall>z \<in> set b. f z \<le> f y)"
      by auto
    then show ?thesis by blast
  qed
qed

text \<open>Taking the first best element out, again and again, is Python's stable descending sort.\<close>

lemma sort_desc_first:
  assumes "\<forall>z \<in> set a. f z < f y" "\<forall>z \<in> set b. f z \<le> f y"
  shows "sort_desc f (a @ y # b) = y # sort_desc f (a @ b)"
  unfolding sort_desc_def
proof (rule properties_for_sort_key)
  let ?k = "\<lambda>x. - f x"
  have st: "filter (\<lambda>x. ?k k = ?k x) (sort_key ?k (a @ b)) = filter (\<lambda>x. ?k k = ?k x) (a @ b)" for k
    using sort_key_stable [of ?k "?k k" "a @ b"] by (simp add: eq_commute)
  have na: "filter (\<lambda>x. ?k y = ?k x) a = []" using assms(1) by (auto simp: filter_empty_conv)
  show "filter (\<lambda>x. ?k k = ?k x) (y # sort_key ?k (a @ b)) = filter (\<lambda>x. ?k k = ?k x) (a @ y # b)"
    if "k \<in> set (y # sort_key ?k (a @ b))" for k
    using st [of k] na by auto
  show "sorted (map ?k (y # sort_key ?k (a @ b)))" using assms by (auto simp: less_imp_le)
qed simp

end
