(* ===== verification/Retrieval.thy ===== *)
theory Retrieval
  imports Db Terms
begin

text \<open>
  Ranking retrieved documents: \<^verbatim>\<open>shared/reranker.py\<close>, \<^verbatim>\<open>shared/hybrid_search.py\<close> and
  \<^verbatim>\<open>shared/query_rewriting.py\<close>.  Scores are exact rationals; \<open>lower\<close> is \<open>str.lower\<close>.
\<close>

section \<open>Reranking\<close>

text \<open>A document is a dictionary: a key may be missing.\<close>

record document =
  dc_id :: "string option"
  dc_text :: "ucs option"
  dc_score :: "rat option"
  dc_meta :: "(string \<times> string) list option"

definition default :: "'a \<Rightarrow> 'a option \<Rightarrow> 'a" where
  "default d v = (case v of None \<Rightarrow> d | Some x \<Rightarrow> x)"

definition empty_dict :: "document \<Rightarrow> bool" where
  "empty_dict d \<longleftrightarrow> dc_id d = None \<and> dc_text d = None \<and> dc_score d = None \<and> dc_meta d = None"

record reranked_result =
  rr_id :: string
  rr_text :: ucs
  rr_original :: rat
  rr_score :: rat
  rr_meta :: "(string \<times> string) list"

definition reranked :: "document \<Rightarrow> rat \<Rightarrow> reranked_result" where
  "reranked d s = \<lparr>rr_id = default [] (dc_id d), rr_text = default [] (dc_text d), rr_original = default 0 (dc_score d),
     rr_score = s, rr_meta = default [] (dc_meta d)\<rparr>"

definition compute_relevance :: "(ucs \<Rightarrow> ucs) \<Rightarrow> ucs \<Rightarrow> ucs \<Rightarrow> rat" where
  "compute_relevance = overlap"

definition compute_similarity :: "(ucs \<Rightarrow> ucs) \<Rightarrow> ucs \<Rightarrow> ucs \<Rightarrow> rat" where
  "compute_similarity lower a b =
     (let s = terms lower a; t = terms lower b in
      if s = [] \<or> t = [] then 0 else of_nat (shared_terms s t) / of_nat (length (remdups (s @ t))))"

definition cross_encoder_rerank :: "(ucs \<Rightarrow> ucs) \<Rightarrow> ucs \<Rightarrow> document list \<Rightarrow> int \<Rightarrow> reranked_result list" where
  "cross_encoder_rerank lower query docs limit =
     (if docs = [] then []
      else py_take limit (sort_desc rr_score (map (\<lambda>d. reranked d (compute_relevance lower query (default [] (dc_text d)))) docs)))"

definition mmr_score :: "(ucs \<Rightarrow> ucs) \<Rightarrow> ucs \<Rightarrow> rat \<Rightarrow> reranked_result list \<Rightarrow> document \<Rightarrow> rat" where
  "mmr_score lower query lam selected d =
     (let relevance = compute_relevance lower query (default [] (dc_text d));
          diversity = (case selected of [] \<Rightarrow> 0
            | r # rs \<Rightarrow> 1 - fold (\<lambda>s m. max m (compute_similarity lower (default [] (dc_text d)) (rr_text s))) rs
                              (compute_similarity lower (default [] (dc_text d)) (rr_text r)))
      in lam * relevance + (1 - lam) * diversity)"

text \<open>The loop; \<open>if best_doc\<close> is false for an empty dictionary, which ends it.\<close>

function mmr_loop :: "(ucs \<Rightarrow> ucs) \<Rightarrow> ucs \<Rightarrow> rat \<Rightarrow> int \<Rightarrow> reranked_result list \<Rightarrow> document list \<Rightarrow> reranked_result list" where
  "mmr_loop lower query lam limit selected remaining =
     (if int (length selected) < limit \<and> remaining \<noteq> [] then
        (case best_from (mmr_score lower query lam selected) 0 None remaining of
           None \<Rightarrow> selected
         | Some (s, i, d) \<Rightarrow>
             if empty_dict d then selected
             else mmr_loop lower query lam limit (selected @ [reranked d s]) (remove_nth i remaining))
      else selected)"
  by pat_completeness auto
termination
  by (relation "measure (\<lambda>(lower, query, lam, limit, selected, remaining). nat (limit - int (length selected)))") auto

declare mmr_loop.simps [simp del]

definition mmr_diversity :: "(ucs \<Rightarrow> ucs) \<Rightarrow> ucs \<Rightarrow> document list \<Rightarrow> int \<Rightarrow> rat \<Rightarrow> reranked_result list" where
  "mmr_diversity lower query docs limit lam = (if docs = [] then [] else mmr_loop lower query lam limit [] docs)"

definition estimate_complexity :: "(ucs \<Rightarrow> ucs) \<Rightarrow> ucs \<Rightarrow> rat" where
  "estimate_complexity lower query =
     min 1 ((if list_ex (\<lambda>w. sub_in (ucs_of w) (lower query)) [''and'', ''or'', ''but''] then 3 / 10 else 0)
       + (if list_ex (\<lambda>w. sub_in (ucs_of w) (lower query)) [''compare'', ''difference'', ''versus''] then 4 / 10 else 0)
       + (if 10 < length (words query) then 2 / 10 else 0)
       + (if 63 \<in> set query then 1 / 10 else 0))"

definition dynamic_k :: "(ucs \<Rightarrow> ucs) \<Rightarrow> ucs \<Rightarrow> nat \<Rightarrow> int" where
  "dynamic_k lower query base_k =
     (let c = estimate_complexity lower query in
      if 8 / 10 < c then \<lfloor>(of_nat base_k :: rat) * (15 / 10)\<rfloor> else if 5 / 10 < c then int base_k else \<lfloor>(of_nat base_k :: rat) * (7 / 10)\<rfloor>)"

section \<open>Hybrid search\<close>

record search_result =
  sr_id :: string
  sr_text :: ucs
  sr_score :: rat
  sr_source :: string

text \<open>Each document's score: one over the constant plus its rank, over the lists it is in.\<close>

definition add_rank :: "nat \<Rightarrow> search_result \<times> nat \<Rightarrow> (string \<times> rat) list \<Rightarrow> (string \<times> rat) list" where
  "add_rank k x d = (case x of (r, rank) \<Rightarrow>
     AList.update (sr_id r) (default 0 (map_of d (sr_id r)) + 1 / of_nat (k + rank)) d)"

definition doc_scores :: "nat \<Rightarrow> search_result list list \<Rightarrow> (string \<times> rat) list" where
  "doc_scores k ls = fold (\<lambda>results. fold (add_rank k) (zip results [1..<Suc (length results)])) ls []"

text \<open>The fused list has an entry for every entry of every list, a document that two searches found twice.\<close>

definition fuse :: "nat \<Rightarrow> search_result list list \<Rightarrow> search_result list" where
  "fuse k ls =
     (let scores = doc_scores k ls in
      sort_desc (\<lambda>r. default 0 (map_of scores (sr_id r)))
        (concat (map (\<lambda>r. map (\<lambda>(i, s). \<lparr>sr_id = i, sr_text = sr_text r, sr_score = s, sr_source = ''hybrid''\<rparr>)
           (filter (\<lambda>(i, s). sr_id r = i) scores)) (concat ls))))"

definition reciprocal_rank_fusion :: "nat \<Rightarrow> search_result list list \<Rightarrow> search_result list" where
  "reciprocal_rank_fusion k ls = take (case ls of [] \<Rightarrow> 10 | l # _ \<Rightarrow> length l) (fuse k ls)"

text \<open>Both searches are stubs.\<close>

definition dense_search :: "bool \<Rightarrow> ucs \<Rightarrow> string \<Rightarrow> int \<Rightarrow> search_result list" where
  "dense_search wired query collection limit = (if \<not> wired then [] else [])"

definition sparse_search :: "string list \<Rightarrow> ucs \<Rightarrow> string \<Rightarrow> int \<Rightarrow> search_result list" where
  "sparse_search index query collection limit = (if collection \<notin> set index then [] else [])"

definition hybrid_search :: "bool \<Rightarrow> string list \<Rightarrow> ucs \<Rightarrow> string \<Rightarrow> int \<Rightarrow> search_result list" where
  "hybrid_search wired index query collection limit =
     (let dense = dense_search wired query collection limit; sparse = sparse_search index query collection limit in
      if dense = [] \<and> sparse = [] then []
      else if dense = [] then py_take limit sparse
      else if sparse = [] then py_take limit dense
      else reciprocal_rank_fusion 60 [dense, sparse])"

section \<open>Rewriting queries\<close>

definition expand_query :: "ucs list \<Rightarrow> (ucs list \<Rightarrow> exn + ucs list) option \<Rightarrow> ucs \<Rightarrow> exn + ucs list" where
  "expand_query expanded llm original =
     (if expanded \<noteq> [] then Inr expanded
      else let es = [original, original @ ucs_of '' definition'', original @ ucs_of '' example'', original @ ucs_of '' how to'',
                     ucs_of ''why '' @ original]
           in case llm of None \<Rightarrow> Inr es | Some generate_unique \<Rightarrow> generate_unique es)"

definition conjunctions :: "ucs list" where
  "conjunctions = map ucs_of ['' and '', '' also '', '' and then '']"

fun split_at_first :: "(ucs \<Rightarrow> ucs) \<Rightarrow> ucs list \<Rightarrow> ucs \<Rightarrow> ucs list" where
  "split_at_first lower [] query = [query]"
| "split_at_first lower (cj # cs) query =
     (if sub_in cj (lower query)
      then map strip (filter (\<lambda>p. strip p \<noteq> []) (py_split cj query))
      else split_at_first lower cs query)"

definition decompose_query :: "(ucs \<Rightarrow> ucs) \<Rightarrow> ucs \<Rightarrow> ucs list" where
  "decompose_query lower query = split_at_first lower conjunctions query"

record claim_check =
  cc_claim :: ucs
  cc_supported :: bool
  cc_confidence :: rat
  cc_sources :: "ucs list"

definition check_claim :: "(ucs \<Rightarrow> ucs) \<Rightarrow> ucs \<Rightarrow> ucs list \<Rightarrow> rat \<Rightarrow> claim_check" where
  "check_claim lower claim sources threshold =
     (case sources of [] \<Rightarrow> \<lparr>cc_claim = claim, cc_supported = False, cc_confidence = 0, cc_sources = []\<rparr>
      | s # ss \<Rightarrow>
          let matches = filter (\<lambda>x. threshold < overlap lower claim x) sources
          in \<lparr>cc_claim = claim, cc_supported = (matches \<noteq> []),
              cc_confidence = fold (\<lambda>x m. max m (overlap lower claim x)) ss (overlap lower claim s), cc_sources = matches\<rparr>)"

section \<open>Properties of the rerankers\<close>

lemma similarity_bounds: "0 \<le> compute_similarity lower a b \<and> compute_similarity lower a b \<le> 1"
proof -
  let ?s = "terms lower a" and ?t = "terms lower b"
  have "shared_terms ?s ?t \<le> length ?s" by (rule shared_terms_le)
  also have "length ?s = card (set ?s)" by (simp add: distinct_card)
  also have "\<dots> \<le> length (remdups (?s @ ?t))"
    unfolding length_remdups_card_conv by (rule card_mono) auto
  finally have "shared_terms ?s ?t \<le> length (remdups (?s @ ?t))" .
  then have "(of_nat (shared_terms ?s ?t) :: rat) \<le> of_nat (length (remdups (?s @ ?t)))" by (simp only: of_nat_le_iff)
  then show ?thesis by (auto simp: compute_similarity_def Let_def divide_le_eq simp del: length_remdups_card_conv remdups_append2)
qed

lemma best_of_list:
  assumes "xs \<noteq> []"
  obtains a y b where "xs = a @ y # b" "best_from f 0 None xs = Some (f y, length a, y)"
    "\<forall>z \<in> set a. f z < f y" "\<forall>z \<in> set b. f z \<le> f y"
proof -
  obtain x zs where xs: "xs = x # zs" using assms by (cases xs) auto
  obtain s i y where r: "best_from f 0 None (x # zs) = Some (s, i, y)"
    using best_from_ex [of f 1 "(f x, 0, x)" zs] by auto
  from best_from_first [OF r] obtain a b where
    "x # zs = a @ y # b" "i = length a" "s = f y" "\<forall>z \<in> set a. f z < f y" "\<forall>z \<in> set b. f z \<le> f y" by blast
  with r that show thesis unfolding xs by simp
qed

lemma remove_nth_mid [simp]: "remove_nth (length a) (a @ y # b) = a @ b"
  by (simp add: remove_nth_def)

text \<open>One round of the loop, on the first best document.\<close>

lemma mmr_round:
  assumes "int (length sel) < limit" "rem \<noteq> []" "\<forall>d \<in> set rem. \<not> empty_dict d"
  obtains a d b where "rem = a @ d # b"
    "mmr_loop lower query lam limit sel rem =
       mmr_loop lower query lam limit (sel @ [reranked d (mmr_score lower query lam sel d)]) (a @ b)"
    "\<forall>z \<in> set a. mmr_score lower query lam sel z < mmr_score lower query lam sel d"
    "\<forall>z \<in> set b. mmr_score lower query lam sel z \<le> mmr_score lower query lam sel d"
proof -
  obtain a d b where s: "rem = a @ d # b"
      "best_from (mmr_score lower query lam sel) 0 None rem = Some (mmr_score lower query lam sel d, length a, d)"
      "\<forall>z \<in> set a. mmr_score lower query lam sel z < mmr_score lower query lam sel d"
      "\<forall>z \<in> set b. mmr_score lower query lam sel z \<le> mmr_score lower query lam sel d"
    by (rule best_of_list [OF assms(2)])
  with assms have "mmr_loop lower query lam limit sel rem =
       mmr_loop lower query lam limit (sel @ [reranked d (mmr_score lower query lam sel d)]) (a @ b)"
    by (subst mmr_loop.simps) simp
  with s that show thesis by blast
qed

lemma mmr_loop_done: "\<not> (int (length sel) < limit \<and> rem \<noteq> []) \<Longrightarrow> mmr_loop lower query lam limit sel rem = sel"
  by (subst mmr_loop.simps) simp

definition result_key :: "reranked_result \<Rightarrow> string \<times> ucs \<times> rat \<times> (string \<times> string) list" where
  "result_key r = (rr_id r, rr_text r, rr_original r, rr_meta r)"

definition doc_key :: "document \<Rightarrow> string \<times> ucs \<times> rat \<times> (string \<times> string) list" where
  "doc_key d = result_key (reranked d 0)"

lemma result_key_reranked [simp]: "result_key (reranked d s) = doc_key d"
  by (simp add: result_key_def doc_key_def reranked_def)

lemma mmr_loop_selects:
  assumes "\<forall>d \<in> set rem. \<not> empty_dict d"
  shows "\<exists>more rest. mmr_loop lower query lam limit sel rem = sel @ more \<and>
    mset (map result_key more) + mset (map doc_key rest) = mset (map doc_key rem) \<and>
    length more = min (nat (limit - int (length sel))) (length rem)"
  using assms
proof (induction "nat (limit - int (length sel))" arbitrary: sel rem)
  case 0
  then have "mmr_loop lower query lam limit sel rem = sel" by (intro mmr_loop_done) simp
  with 0 show ?case by (intro exI [of _ "[]"] exI [of _ rem]) simp
next
  case (Suc n)
  show ?case
  proof (cases "rem = []")
    case True
    then have "mmr_loop lower query lam limit sel rem = sel" by (intro mmr_loop_done) simp
    with True show ?thesis by (intro exI [of _ "[]"]) simp
  next
    case False
    have lt: "int (length sel) < limit" using Suc.hyps(2) by simp
    obtain a d b where r: "rem = a @ d # b" "mmr_loop lower query lam limit sel rem =
       mmr_loop lower query lam limit (sel @ [reranked d (mmr_score lower query lam sel d)]) (a @ b)"
      using mmr_round [OF lt False Suc.prems] by blast
    let ?sel = "sel @ [reranked d (mmr_score lower query lam sel d)]"
    have n: "n = nat (limit - int (length ?sel))" using Suc.hyps(2) by simp
    have p: "\<forall>d \<in> set (a @ b). \<not> empty_dict d" using Suc.prems r(1) by auto
    obtain more rest where m: "mmr_loop lower query lam limit ?sel (a @ b) = ?sel @ more"
        "mset (map result_key more) + mset (map doc_key rest) = mset (map doc_key (a @ b))"
        "length more = min (nat (limit - int (length ?sel))) (length (a @ b))"
      using Suc.hyps(1) [OF n p] by blast
    show ?thesis
    proof (intro exI conjI)
      show "mmr_loop lower query lam limit sel rem = sel @ (reranked d (mmr_score lower query lam sel d) # more)"
        using r(2) m(1) by simp
      show "mset (map result_key (reranked d (mmr_score lower query lam sel d) # more)) + mset (map doc_key rest) = mset (map doc_key rem)"
        using m(2) r(1) by simp
      show "length (reranked d (mmr_score lower query lam sel d) # more) = min (nat (limit - int (length sel))) (length rem)"
        using m(3) r(1) Suc.hyps(2) n by simp
    qed
  qed
qed

text \<open>
  Diversity reranking ends, and picks as many documents as asked for, each at most once and none that
  was not retrieved; what it leaves out is the rest.
\<close>

theorem mmr_selects:
  assumes "\<forall>d \<in> set docs. \<not> empty_dict d" and "0 \<le> limit"
  shows "length (mmr_diversity lower query docs limit lam) = min (nat limit) (length docs) \<and>
    (\<exists>rest. mset (map result_key (mmr_diversity lower query docs limit lam)) + mset (map doc_key rest) = mset (map doc_key docs))"
proof (cases "docs = []")
  case False
  obtain more rest where m: "mmr_loop lower query lam limit [] docs = [] @ more"
      "mset (map result_key more) + mset (map doc_key rest) = mset (map doc_key docs)"
      "length more = min (nat (limit - int (length ([] :: reranked_result list)))) (length docs)"
    using mmr_loop_selects [OF assms(1), of lower query lam limit "[]"] by blast
  then show ?thesis using False by (auto simp: mmr_diversity_def)
qed (auto simp: mmr_diversity_def)

definition demo_doc :: "string \<Rightarrow> document" where
  "demo_doc w = \<lparr>dc_id = Some w, dc_text = Some (ucs_of w), dc_score = None, dc_meta = None\<rparr>"

lemma mmr_selects_witness:
  "length (mmr_diversity (map lower_ucs) (ucs_of ''refund'') [demo_doc ''refund'', demo_doc ''refund'', demo_doc ''order''] 2 (1 / 2)) = 2"
  using mmr_selects [of "[demo_doc ''refund'', demo_doc ''refund'', demo_doc ''order'']" 2 "map lower_ucs" "ucs_of ''refund''" "1 / 2"]
  by (simp add: demo_doc_def empty_dict_def)

text \<open>An empty dictionary ends the selection as soon as it is the best one.\<close>

lemma empty_document_ends:
  "mmr_diversity lower query (\<lparr>dc_id = None, dc_text = None, dc_score = None, dc_meta = None\<rparr> # docs) limit 0 = []"
proof -
  let ?e = "\<lparr>dc_id = None, dc_text = None, dc_score = None, dc_meta = None\<rparr>"
  have z: "mmr_score lower query 0 [] d = 0" for d by (simp add: mmr_score_def)
  have "best_from (mmr_score lower query 0 []) i (Some (0, j, x)) xs = Some (0, j, x)" for i j x xs
    by (induction xs arbitrary: i) (simp_all add: z)
  then have "best_from (mmr_score lower query 0 []) 0 None (?e # docs) = Some (0, 0, ?e)" by (simp add: z)
  then show ?thesis unfolding mmr_diversity_def by (subst mmr_loop.simps) (simp add: empty_dict_def)
qed

lemma mmr_score_relevance: "mmr_score lower query 1 sel d = compute_relevance lower query (default [] (dc_text d))"
  by (simp add: mmr_score_def Let_def)

lemma mmr_loop_relevance:
  assumes "\<forall>d \<in> set rem. \<not> empty_dict d" and "int (length sel) \<le> limit"
  shows "mmr_loop lower query 1 limit sel rem = sel @ take (nat (limit - int (length sel)))
    (sort_desc rr_score (map (\<lambda>d. reranked d (compute_relevance lower query (default [] (dc_text d)))) rem))"
  using assms
proof (induction "nat (limit - int (length sel))" arbitrary: sel rem)
  case 0
  then have "mmr_loop lower query 1 limit sel rem = sel" by (intro mmr_loop_done) simp
  with 0 show ?case by simp
next
  case (Suc n)
  let ?g = "\<lambda>d. reranked d (compute_relevance lower query (default [] (dc_text d)))"
  have lt: "int (length sel) < limit" using Suc.hyps(2) by simp
  show ?case
  proof (cases "rem = []")
    case True
    then have "mmr_loop lower query 1 limit sel rem = sel" by (intro mmr_loop_done) simp
    with True show ?thesis by (simp add: sort_desc_def)
  next
    case False
    obtain a d b where r: "rem = a @ d # b"
      "mmr_loop lower query 1 limit sel rem =
         mmr_loop lower query 1 limit (sel @ [reranked d (mmr_score lower query 1 sel d)]) (a @ b)"
      "\<forall>z \<in> set a. mmr_score lower query 1 sel z < mmr_score lower query 1 sel d"
      "\<forall>z \<in> set b. mmr_score lower query 1 sel z \<le> mmr_score lower query 1 sel d"
      by (rule mmr_round [OF lt False Suc.prems(1)])
    have sorted: "sort_desc rr_score (map ?g rem) = ?g d # sort_desc rr_score (map ?g (a @ b))"
      using sort_desc_first [of "map ?g a" rr_score "?g d" "map ?g b"] r(1,3,4)
      by (simp add: mmr_score_relevance reranked_def)
    have n: "n = nat (limit - int (length (sel @ [?g d])))" using Suc.hyps(2) by simp
    have p: "\<forall>d \<in> set (a @ b). \<not> empty_dict d" using Suc.prems(1) r(1) by auto
    have l: "int (length (sel @ [?g d])) \<le> limit" using lt by simp
    have "mmr_loop lower query 1 limit sel rem = mmr_loop lower query 1 limit (sel @ [?g d]) (a @ b)"
      using r(2) by (simp add: mmr_score_relevance)
    also have "\<dots> = sel @ [?g d] @ take n (sort_desc rr_score (map ?g (a @ b)))"
      using Suc.hyps(1) [OF n p l] n by simp
    also have "\<dots> = sel @ take (Suc n) (sort_desc rr_score (map ?g rem))" using sorted by simp
    finally show ?thesis using Suc.hyps(2) by simp
  qed
qed

text \<open> 
  With the whole weight on relevance the loop, which looks for the best remaining document in every
  round, gives exactly the cross-encoder's sorted list, equal scores in the order retrieved.
\<close>

theorem mmr_full_relevance:
  assumes "\<forall>d \<in> set docs. \<not> empty_dict d" and "0 \<le> limit"
  shows "mmr_diversity lower query docs limit 1 = cross_encoder_rerank lower query docs limit"
  using mmr_loop_relevance [OF assms(1), of "[]" limit lower query] assms(2)
  by (simp add: mmr_diversity_def cross_encoder_rerank_def py_take_def)

lemma mmr_full_relevance_witness:
  "mmr_diversity (map lower_ucs) (ucs_of ''refund'') [demo_doc ''order'', demo_doc ''refund''] 1 1 =
   cross_encoder_rerank (map lower_ucs) (ucs_of ''refund'') [demo_doc ''order'', demo_doc ''refund''] 1"
  by (rule mmr_full_relevance) (simp_all add: demo_doc_def empty_dict_def)

lemma dynamic_k_bounds: "\<lfloor>(of_nat base_k :: rat) * (7 / 10)\<rfloor> \<le> dynamic_k lower query base_k \<and> dynamic_k lower query base_k \<le> \<lfloor>(of_nat base_k :: rat) * (15 / 10)\<rfloor>"
proof -
  have a: "\<lfloor>(of_nat base_k :: rat) * (7 / 10)\<rfloor> \<le> int base_k"
    by (rule order_trans [OF floor_mono [of _ "of_nat base_k"]]) simp_all
  have b: "int base_k \<le> \<lfloor>(of_nat base_k :: rat) * (15 / 10)\<rfloor>" by (simp add: le_floor_iff)
  from a b show ?thesis unfolding dynamic_k_def Let_def by auto
qed

section \<open>Properties of the fusion\<close>

text \<open>The score of a document: over its places in the lists.\<close>

fun rank_sum :: "nat \<Rightarrow> nat \<Rightarrow> search_result list \<Rightarrow> string \<Rightarrow> rat" where
  "rank_sum k n [] i = 0"
| "rank_sum k n (r # rs) i = (if sr_id r = i then 1 / of_nat (k + n) else 0) + rank_sum k (Suc n) rs i"

definition rrf_score :: "nat \<Rightarrow> search_result list list \<Rightarrow> string \<Rightarrow> rat" where
  "rrf_score k ls i = sum_list (map (\<lambda>l. rank_sum k 1 l i) ls)"

lemma add_ranks:
  "default 0 (map_of (fold (add_rank k) (zip rs [n..<n + length rs]) d) i) = default 0 (map_of d i) + rank_sum k n rs i"
proof (induction rs arbitrary: n d)
  case (Cons r rs)
  have u: "[n..<n + length (r # rs)] = n # [Suc n..<Suc n + length rs]" by (simp add: upt_rec)
  show ?case unfolding u zip_Cons_Cons fold_simps Cons.IH by (simp add: add_rank_def default_def)
qed simp

lemma doc_scores_value: "default 0 (map_of (doc_scores k ls) i) = rrf_score k ls i"
proof -
  have "default 0 (map_of (fold (\<lambda>results. fold (add_rank k) (zip results [1..<Suc (length results)])) ls d) i) =
    default 0 (map_of d i) + rrf_score k ls i" for d
  proof (induction ls arbitrary: d)
    case (Cons l ls)
    have "[1..<Suc (length l)] = [1..<1 + length l]" by simp
    then show ?case unfolding fold_simps Cons.IH by (simp only: add_ranks) (simp add: rrf_score_def)
  qed (simp add: rrf_score_def)
  from this [of "[]"] show ?thesis by (simp add: doc_scores_def default_def)
qed

lemma add_rank_dict:
  "distinct (map fst d) \<Longrightarrow> distinct (map fst (fold (add_rank k) xs d)) \<and>
   fst ` set (fold (add_rank k) xs d) = fst ` set d \<union> (\<lambda>(r, _). sr_id r) ` set xs"
  by (induction xs arbitrary: d) (auto simp: add_rank_def distinct_update keys_update_subset split_beta)

lemma doc_scores_dict:
  "distinct (map fst (doc_scores k ls)) \<and> fst ` set (doc_scores k ls) = sr_id ` set (concat ls)"
proof -
  have z: "(\<lambda>(r, _). sr_id r) ` set (zip l [1..<Suc (length l)]) = sr_id ` set l" for l
  proof -
    have m: "map fst (zip l [1..<Suc (length l)]) = l" by (rule map_fst_zip) (simp del: upt_Suc)
    have "(\<lambda>(r, _). sr_id r) ` set (zip l [1..<Suc (length l)]) = sr_id ` fst ` set (zip l [1..<Suc (length l)])"
      unfolding image_image by (rule image_cong) auto
    also have "fst ` set (zip l [1..<Suc (length l)]) = set l" using arg_cong [OF m, of set] by (simp only: set_map)
    finally show ?thesis .
  qed
  have "distinct (map fst d) \<Longrightarrow>
    distinct (map fst (fold (\<lambda>results. fold (add_rank k) (zip results [1..<Suc (length results)])) ls d)) \<and>
    fst ` set (fold (\<lambda>results. fold (add_rank k) (zip results [1..<Suc (length results)])) ls d) = fst ` set d \<union> sr_id ` set (concat ls)" for d
  proof (induction ls arbitrary: d)
    case (Cons l ls)
    from add_rank_dict [OF Cons.prems, of k "zip l [1..<Suc (length l)]"]
    have "distinct (map fst (fold (add_rank k) (zip l [1..<Suc (length l)]) d))"
      "fst ` set (fold (add_rank k) (zip l [1..<Suc (length l)]) d) = fst ` set d \<union> sr_id ` set l"
      unfolding z by simp_all
    from Cons.IH [OF this(1)] this(2) show ?case by (auto simp del: upt_Suc)
  qed simp
  from this [of "[]"] show ?thesis by (simp add: doc_scores_def)
qed

definition rrf_entry :: "nat \<Rightarrow> search_result list list \<Rightarrow> search_result \<Rightarrow> search_result" where
  "rrf_entry k ls r = \<lparr>sr_id = sr_id r, sr_text = sr_text r, sr_score = rrf_score k ls (sr_id r), sr_source = ''hybrid''\<rparr>"

lemma filter_key: "distinct (map fst d) \<Longrightarrow> map_of d k = Some v \<Longrightarrow> filter (\<lambda>(i, s). k = i) d = [(k, v)]"
  by (induction d) (auto simp: filter_empty_conv image_iff split: if_splits dest: map_of_SomeD)

text \<open>
  The fused list is every entry of every list with its document's total score, in stable descending
  order, cut to the length of the first list: nothing is merged.
\<close>

theorem fusion_keeps_duplicates:
  "fuse k ls = sort_desc (\<lambda>r. rrf_score k ls (sr_id r)) (map (rrf_entry k ls) (concat ls)) \<and>
   length (reciprocal_rank_fusion k ls) = min (case ls of [] \<Rightarrow> 10 | l # _ \<Rightarrow> length l) (length (concat ls))"
proof -
  have e: "map (\<lambda>(i, s). \<lparr>sr_id = i, sr_text = sr_text r, sr_score = s, sr_source = ''hybrid''\<rparr>)
      (filter (\<lambda>(i, s). sr_id r = i) (doc_scores k ls)) = [rrf_entry k ls r]" if "r \<in> set (concat ls)" for r
  proof -
    from that doc_scores_dict [of k ls] have "sr_id r \<in> fst ` set (doc_scores k ls)" by simp
    then obtain v where v: "map_of (doc_scores k ls) (sr_id r) = Some v" by (auto simp: dict_key_iff)
    then have "v = rrf_score k ls (sr_id r)" using doc_scores_value [of k ls "sr_id r"] by (simp add: default_def)
    with filter_key [OF conjunct1 [OF doc_scores_dict] v] show ?thesis by (simp add: rrf_entry_def)
  qed
  have c: "concat (map (\<lambda>r. map (\<lambda>(i, s). \<lparr>sr_id = i, sr_text = sr_text r, sr_score = s, sr_source = ''hybrid''\<rparr>)
      (filter (\<lambda>(i, s). sr_id r = i) (doc_scores k ls))) rs) = map (rrf_entry k ls) rs" if "set rs \<subseteq> set (concat ls)" for rs
    using that by (induction rs) (simp_all add: e)
  have "fuse k ls = sort_desc (\<lambda>r. rrf_score k ls (sr_id r)) (map (rrf_entry k ls) (concat ls))"
    unfolding fuse_def Let_def doc_scores_value c [OF subset_refl] ..
  then show ?thesis by (simp add: reciprocal_rank_fusion_def min.commute)
qed

text \<open>Stable sorting puts the two copies of a list that is already in order side by side.\<close>

lemma sort_desc_doubled:
  assumes "sorted_wrt (\<lambda>x y. f y < f x) xs"
  shows "sort_desc f (xs @ xs) = concat (map (\<lambda>x. [x, x]) xs)"
  unfolding sort_desc_def
proof (rule properties_for_sort_key)
  let ?c = "concat (map (\<lambda>x. [x, x]) xs)"
  show "mset ?c = mset (xs @ xs)" by (induction xs) simp_all
  show "sorted (map (\<lambda>x. - f x) ?c)" using assms by (induction xs) (auto simp: less_imp_le)
  show "filter (\<lambda>x. - f k = - f x) ?c = filter (\<lambda>x. - f k = - f x) (xs @ xs)" for k
    using assms
  proof (induction xs)
    case (Cons x xs)
    have "filter (\<lambda>x. - f k = - f x) xs = []" if "f k = f x" using Cons.prems that by (auto simp: filter_empty_conv)
    with Cons show ?case by auto
  qed simp
qed

lemma rank_sum_none: "i \<notin> sr_id ` set rs \<Longrightarrow> rank_sum k n rs i = 0"
  by (induction rs arbitrary: n) auto

lemma rank_sum_decreasing:
  "distinct (map sr_id rs) \<Longrightarrow> 0 < k + n \<Longrightarrow>
   sorted_wrt (\<lambda>x y. rank_sum k n rs (sr_id y) < rank_sum k n rs (sr_id x)) rs \<and>
   (\<forall>r \<in> set rs. 0 < rank_sum k n rs (sr_id r) \<and> rank_sum k n rs (sr_id r) \<le> 1 / of_nat (k + n))"
proof (induction rs arbitrary: n)
  case (Cons r rs)
  have i: "sorted_wrt (\<lambda>x y. rank_sum k (Suc n) rs (sr_id y) < rank_sum k (Suc n) rs (sr_id x)) rs"
    "\<forall>x \<in> set rs. 0 < rank_sum k (Suc n) rs (sr_id x) \<and> rank_sum k (Suc n) rs (sr_id x) \<le> 1 / of_nat (k + Suc n)"
    using Cons.IH [of "Suc n"] Cons.prems by simp_all
  have o: "rank_sum k n (r # rs) (sr_id x) = rank_sum k (Suc n) rs (sr_id x)" if "x \<in> set rs" for x
    using Cons.prems(1) that by (auto simp: image_iff)
  have h: "rank_sum k n (r # rs) (sr_id r) = 1 / of_nat (k + n)"
    using Cons.prems(1) rank_sum_none [of "sr_id r" rs] by simp
  have lt: "1 / of_nat (k + Suc n) < (1 / of_nat (k + n) :: rat)" using Cons.prems(2) by (intro divide_strict_left_mono) (auto simp flip: of_nat_add of_nat_Suc)
  have "sorted_wrt (\<lambda>x y. rank_sum k n (r # rs) (sr_id y) < rank_sum k n (r # rs) (sr_id x)) rs"
    using i(1) by (rule sorted_wrt_mono_rel [rotated]) (simp only: o)
  moreover have "rank_sum k n (r # rs) (sr_id x) < 1 / of_nat (k + n)" if "x \<in> set rs" for x
    using i(2) lt that unfolding o [OF that] by (meson le_less_trans)
  ultimately show ?case
  proof (intro conjI ballI)
    assume B: "sorted_wrt (\<lambda>x y. rank_sum k n (r # rs) (sr_id y) < rank_sum k n (r # rs) (sr_id x)) rs"
      and A: "\<And>x. x \<in> set rs \<Longrightarrow> rank_sum k n (r # rs) (sr_id x) < 1 / of_nat (k + n)"
    show "sorted_wrt (\<lambda>x y. rank_sum k n (r # rs) (sr_id y) < rank_sum k n (r # rs) (sr_id x)) (r # rs)"
      unfolding sorted_wrt.simps h using A B by blast
    show "0 < rank_sum k n (r # rs) (sr_id x)" "rank_sum k n (r # rs) (sr_id x) \<le> 1 / of_nat (k + n)" if "x \<in> set (r # rs)" for x
    proof -
      have p: "0 < (1 / of_nat (k + n) :: rat)" using Cons.prems(2) by (simp flip: of_nat_add)
      from that consider "x = r" | "x \<in> set rs" by auto
      then have "0 < rank_sum k n (r # rs) (sr_id x) \<and> rank_sum k n (r # rs) (sr_id x) \<le> 1 / of_nat (k + n)"
      proof cases
        case 1
        with p h show ?thesis by (simp only: order_refl)
      next
        case 2
        from o [OF 2] i(2) 2 have "0 < rank_sum k n (r # rs) (sr_id x)" by (simp only:)
        with A [OF 2] show ?thesis by (intro conjI less_imp_le)
      qed
      then show "0 < rank_sum k n (r # rs) (sr_id x)" "rank_sum k n (r # rs) (sr_id x) \<le> 1 / of_nat (k + n)" by blast+
    qed
  qed
qed auto

text \<open> 
  Where both searches agree, each document takes two places: of \<open>n\<close> results only the better half of
  the documents is left.
\<close>

theorem agreeing_searches_halved:
  assumes "distinct (map sr_id l)"
  shows "reciprocal_rank_fusion k [l, l] = take (length l) (concat (map (\<lambda>r. [rrf_entry k [l, l] r, rrf_entry k [l, l] r]) l)) \<and>
    card (set (map sr_id (reciprocal_rank_fusion k [l, l]))) \<le> (length l + 1) div 2"
proof -
  let ?e = "rrf_entry k [l, l]"
  have sc: "rrf_score k [l, l] i = 2 * rank_sum k 1 l i" for i by (simp add: rrf_score_def)
  have "sorted_wrt (\<lambda>x y. rank_sum k 1 l (sr_id y) < rank_sum k 1 l (sr_id x)) l"
    using rank_sum_decreasing [OF assms, of k 1] by simp
  then have "sorted_wrt (\<lambda>x y. rrf_score k [l, l] (sr_id y) < rrf_score k [l, l] (sr_id x)) (map ?e l)"
    by (simp add: sorted_wrt_map sc rrf_entry_def)
  from sort_desc_doubled [OF this] have "fuse k [l, l] = concat (map (\<lambda>x. [x, x]) (map ?e l))"
    using fusion_keeps_duplicates [of k "[l, l]"] by simp
  then have r: "reciprocal_rank_fusion k [l, l] = take (length l) (concat (map (\<lambda>r. [?e r, ?e r]) l))"
    by (simp add: reciprocal_rank_fusion_def comp_def)
  have "set (take n (concat (map (\<lambda>r. [?e r, ?e r]) xs))) \<subseteq> ?e ` set (take ((n + 1) div 2) xs)" for n xs
  proof (induction xs arbitrary: n)
    case (Cons x xs)
    show ?case
    proof (cases n)
      case (Suc m)
      then show ?thesis using Cons.IH [of "m - 1"] by (cases m) auto
    qed simp
  qed simp
  then have sub: "set (reciprocal_rank_fusion k [l, l]) \<subseteq> ?e ` set (take ((length l + 1) div 2) l)" unfolding r .
  have "set (map sr_id (reciprocal_rank_fusion k [l, l])) \<subseteq> sr_id ` set (take ((length l + 1) div 2) l)"
    using image_mono [OF sub, of sr_id] by (simp add: image_image rrf_entry_def)
  then have "card (set (map sr_id (reciprocal_rank_fusion k [l, l]))) \<le> card (sr_id ` set (take ((length l + 1) div 2) l))"
    by (intro card_mono) simp_all
  also have "\<dots> \<le> length (take ((length l + 1) div 2) l)"
    using order_trans [OF card_image_le [OF finite_set] card_length] .
  also have "\<dots> \<le> (length l + 1) div 2" by simp
  finally show ?thesis using r by blast
qed

definition demo_hit :: "string \<Rightarrow> search_result" where
  "demo_hit i = \<lparr>sr_id = i, sr_text = [], sr_score = 0, sr_source = ''dense''\<rparr>"

lemma agreeing_searches_halved_witness:
  "map sr_id (reciprocal_rank_fusion 60 [[demo_hit ''a'', demo_hit ''b''], [demo_hit ''a'', demo_hit ''b'']]) = [''a'', ''a'']"
  using agreeing_searches_halved [of "[demo_hit ''a'', demo_hit ''b'']" 60] by (simp add: demo_hit_def rrf_entry_def)

lemma hybrid_search_stub: "hybrid_search wired index query collection limit = []"
  by (simp add: hybrid_search_def dense_search_def sparse_search_def)

section \<open>Properties of the rewriting\<close>

text \<open>A query with an \<open>and\<close> is split there, so that the third conjunction never decides anything.\<close>

lemma and_then_never_splits:
  assumes "sub_in (ucs_of '' and then '') (lower query)"
  shows "decompose_query lower query = split_at_first lower [ucs_of '' and ''] query"
proof -
  have "sub_in (ucs_of '' and '') (lower query)"
    using assms unfolding sub_in_iff ucs_of_def by (auto simp: append_eq_append_conv2)
  then show ?thesis by (simp add: decompose_query_def conjunctions_def)
qed

lemma decomposed_parts: "p \<in> set (decompose_query lower query) \<Longrightarrow> p = query \<or> p \<noteq> []"
proof -
  have "p \<in> set (split_at_first lower cs query) \<Longrightarrow> p = query \<or> p \<noteq> []" for cs
    by (induction cs) (auto split: if_splits)
  then show "p \<in> set (decompose_query lower query) \<Longrightarrow> p = query \<or> p \<noteq> []" by (simp add: decompose_query_def)
qed

text \<open>A claim is supported exactly when its confidence passes the threshold.\<close>

theorem claim_support:
  assumes "0 \<le> threshold"
  shows "cc_supported (check_claim lower claim sources threshold) \<longleftrightarrow> threshold < cc_confidence (check_claim lower claim sources threshold)"
proof (cases sources)
  case (Cons s ss)
  have "threshold < fold (\<lambda>x m. max m (overlap lower claim x)) ss m \<longleftrightarrow> threshold < m \<or> (\<exists>x \<in> set ss. threshold < overlap lower claim x)" for m
    by (induction ss arbitrary: m) (auto simp: less_max_iff_disj)
  with Cons show ?thesis by (auto simp: check_claim_def Let_def filter_empty_conv)
qed (use assms in \<open>simp add: check_claim_def\<close>)

lemma claim_support_witness:
  "cc_supported (check_claim (map lower_ucs) (ucs_of ''refund'') [ucs_of ''refund''] (1 / 2)) \<longleftrightarrow>
   (1 / 2 :: rat) < cc_confidence (check_claim (map lower_ucs) (ucs_of ''refund'') [ucs_of ''refund''] (1 / 2))"
  by (rule claim_support) simp

end
