(* ===== verification/ContextFit.thy ===== *)
theory ContextFit
  imports Db Terms "HOL-Library.Option_ord"
begin

text \<open>
  Fitting a conversation into a budget of tokens: \<^verbatim>\<open>shared/context_optimizer.py\<close> and
  \<^verbatim>\<open>shared/context_compressor.py\<close>.  A missing time stamp sorts first (\<open>datetime.min\<close>).
\<close>

section \<open>The context optimizer\<close>

record opt_message =
  om_importance :: "rat option"
  om_role :: "string option"
  om_created :: "time option"
  om_content :: "ucs option"

definition or_default :: "'a \<Rightarrow> 'a option \<Rightarrow> 'a" where
  "or_default d v = (case v of None \<Rightarrow> d | Some x \<Rightarrow> x)"

record budget_split =
  bs_system :: nat
  bs_retrieval :: nat
  bs_working :: nat
  bs_history :: nat

definition token_budget_allocation :: "nat option \<Rightarrow> budget_split" where
  "token_budget_allocation budget =
     (let target = (case budget of None \<Rightarrow> 8000 | Some 0 \<Rightarrow> 8000 | Some b \<Rightarrow> b);
          s = nat \<lfloor>of_nat target * (15 / 100 :: rat)\<rfloor>; r = nat \<lfloor>of_nat target * (25 / 100 :: rat)\<rfloor>; w = nat \<lfloor>of_nat target * (30 / 100 :: rat)\<rfloor>
      in \<lparr>bs_system = s, bs_retrieval = r, bs_working = w, bs_history = target - s - r - w\<rparr>)"

definition role_weight :: "string \<Rightarrow> rat" where
  "role_weight r = or_default (5 / 10) (map_of [(''system'', 9 / 10), (''assistant'', 7 / 10), (''user'', 5 / 10), (''tool'', 3 / 10)] r)"

definition score_message :: "(ucs \<Rightarrow> ucs) \<Rightarrow> time \<Rightarrow> ucs option \<Rightarrow> opt_message \<Rightarrow> rat" where
  "score_message lower now query m =
     (let explicit = or_default (5 / 10) (om_importance m);
          recency = max 0 (1 - (now - or_default now (om_created m)) / 3600 / 24);
          content = (case (query, om_content m) of
              (Some q, Some c) \<Rightarrow> if q \<noteq> [] \<and> c \<noteq> [] \<and> 0 < shared_terms (terms lower q) (terms lower c) then 8 / 10 else 5 / 10
            | _ \<Rightarrow> 5 / 10)
      in min 1 (max 0 (explicit * (2 / 10) + role_weight (or_default ''user'' (om_role m)) * (2 / 10) + recency * (2 / 10) + content * (4 / 10))))"

definition importance_scoring :: "(ucs \<Rightarrow> ucs) \<Rightarrow> time \<Rightarrow> ucs option \<Rightarrow> opt_message list \<Rightarrow> (opt_message \<times> rat) list" where
  "importance_scoring lower now query ms = sort_desc snd (map (\<lambda>m. (m, score_message lower now query m)) ms)"

definition estimate_tokens :: "opt_message \<Rightarrow> nat" where
  "estimate_tokens m = (let c = or_default [] (om_content m) in length (words c) + length c div 4)"

text \<open>The loop: what does not fit is still kept when more than 100 tokens are left, and ends it.\<close>

fun retain :: "int \<Rightarrow> (opt_message \<times> rat) list \<Rightarrow> int \<Rightarrow> opt_message list" where
  "retain budget [] used = []"
| "retain budget ((m, i) # ms) used =
     (if i < 3 / 10 then retain budget ms used
      else if budget < used + int (estimate_tokens m) then (if 100 < budget - used then [m] else [])
      else m # retain budget ms (used + int (estimate_tokens m)))"

definition selective_retention :: "(ucs \<Rightarrow> ucs) \<Rightarrow> time \<Rightarrow> ucs option \<Rightarrow> int \<Rightarrow> opt_message list \<Rightarrow> opt_message list" where
  "selective_retention lower now query budget ms =
     sort_key om_created (retain budget (importance_scoring lower now query ms) 0)"

definition summary_message :: "string \<Rightarrow> opt_message" where
  "summary_message n = \<lparr>om_importance = None, om_role = Some ''system'', om_created = None,
     om_content = Some (ucs_of (''[Previous '' @ n @ '' messages summarized]''))\<rparr>"

definition compress_old_messages :: "int \<Rightarrow> opt_message list \<Rightarrow> opt_message list" where
  "compress_old_messages threshold ms =
     (if int (length ms) < threshold then ms
      else let older = take (length ms - 10) ms
           in take 1 older @ [summary_message (dec_digits (length older))] @ last_n 10 ms)"

section \<open>Its sessions\<close>

record session_metadata =
  sx_id :: string
  sx_long :: bool
  sx_bookmarked :: bool
  sx_messages :: int
  sx_tokens :: int

record opt_sessions =
  ox_sessions :: "(string \<times> session_metadata) list"
  ox_groups :: "(string \<times> string list) list"

definition opt_create_session :: "bool \<Rightarrow> string \<Rightarrow> opt_sessions \<Rightarrow> opt_sessions" where
  "opt_create_session long new_id s =
     s\<lparr>ox_sessions := AList.update new_id \<lparr>sx_id = new_id, sx_long = long, sx_bookmarked = False, sx_messages = 0, sx_tokens = 0\<rparr> (ox_sessions s)\<rparr>"

definition group_sessions :: "string list \<Rightarrow> string \<Rightarrow> opt_sessions \<Rightarrow> opt_sessions" where
  "group_sessions ids name s = s\<lparr>ox_groups := AList.update name ids (ox_groups s)\<rparr>"

definition on_session :: "string \<Rightarrow> (session_metadata \<Rightarrow> session_metadata) \<Rightarrow> opt_sessions \<Rightarrow> opt_sessions" where
  "on_session i f s = (case map_of (ox_sessions s) i of None \<Rightarrow> s | Some x \<Rightarrow> s\<lparr>ox_sessions := AList.update i (f x) (ox_sessions s)\<rparr>)"

definition bookmark_message :: "string \<Rightarrow> string \<Rightarrow> opt_sessions \<Rightarrow> opt_sessions" where
  "bookmark_message i message = on_session i (\<lambda>x. x\<lparr>sx_bookmarked := True\<rparr>)"

definition get_session_context :: "string \<Rightarrow> opt_sessions \<Rightarrow> session_metadata option" where
  "get_session_context i s = map_of (ox_sessions s) i"

definition update_counts :: "string \<Rightarrow> int \<Rightarrow> int \<Rightarrow> opt_sessions \<Rightarrow> opt_sessions" where
  "update_counts i messages tokens = on_session i (\<lambda>x. x\<lparr>sx_messages := messages, sx_tokens := tokens\<rparr>)"

section \<open>The compressor\<close>

record cmp_message =
  cm_role :: string
  cm_content :: ucs
  cm_time :: "time option"
  cm_tool_result :: bool \<comment> \<open>the metadata says so\<close>

definition PRIORITY_SCORES :: "string \<Rightarrow> rat option" where
  "PRIORITY_SCORES = map_of [(''tool'', 1), (''preference'', 9 / 10), (''system'', 6 / 10), (''user'', 5 / 10), (''assistant'', 3 / 10)]"

definition score_importance :: "(ucs \<Rightarrow> ucs) \<Rightarrow> cmp_message \<Rightarrow> rat" where
  "score_importance lower m =
     (if cm_tool_result m then 1
      else if sub_in (ucs_of ''prefer'') (lower (cm_content m)) \<or> sub_in (ucs_of ''always'') (lower (cm_content m)) then 9 / 10
      else if cm_role m = ''system'' then 6 / 10
      else or_default (3 / 10) (PRIORITY_SCORES (cm_role m)))"

definition cm_tokens :: "cmp_message \<Rightarrow> nat" where
  "cm_tokens m = length (cm_content m) div 4"

fun fit :: "int \<Rightarrow> int \<Rightarrow> cmp_message list \<Rightarrow> cmp_message list" where
  "fit budget used [] = []"
| "fit budget used (m # ms) =
     (if used + int (cm_tokens m) \<le> budget then m # fit budget (used + int (cm_tokens m)) ms else fit budget used ms)"

definition compress :: "(ucs \<Rightarrow> ucs) \<Rightarrow> cmp_message list \<Rightarrow> int \<Rightarrow> cmp_message list" where
  "compress lower ms budget =
     (if ms = [] then [] else sort_key cm_time (fit budget 0 (sort_desc (score_importance lower) ms)))"

definition prune_irrelevant :: "(ucs \<Rightarrow> ucs) \<Rightarrow> cmp_message list \<Rightarrow> ucs \<Rightarrow> cmp_message list" where
  "prune_irrelevant lower ms query =
     (if query = [] then last_n 10 ms
      else let relevant = filter (\<lambda>m. list_ex (\<lambda>t. sub_in t (lower (cm_content m))) (terms lower query)) ms
           in if relevant = [] then last_n 10 ms else relevant)"

section \<open>What is kept\<close>

text \<open>The shares of the budget add up, and history has at least its 30 per cent.\<close>

lemma budget_shares:
  assumes "target = (case budget of None \<Rightarrow> 8000 | Some 0 \<Rightarrow> 8000 | Some b \<Rightarrow> b)"
  shows "bs_system (token_budget_allocation budget) + bs_retrieval (token_budget_allocation budget) +
      bs_working (token_budget_allocation budget) + bs_history (token_budget_allocation budget) = target \<and>
    (of_nat target :: rat) * (3 / 10) \<le> of_nat (bs_history (token_budget_allocation budget))"
proof -
  define s r w where "s = nat \<lfloor>of_nat target * (15 / 100 :: rat)\<rfloor>" and "r = nat \<lfloor>of_nat target * (25 / 100 :: rat)\<rfloor>"
    and "w = nat \<lfloor>of_nat target * (30 / 100 :: rat)\<rfloor>"
  have f: "(of_nat (nat \<lfloor>of_nat target * c\<rfloor>) :: rat) \<le> of_nat target * c" if "0 \<le> c" for c :: rat
  proof -
    have "0 \<le> \<lfloor>of_nat target * c\<rfloor>" using that by simp
    then have "(of_nat (nat \<lfloor>of_nat target * c\<rfloor>) :: rat) = of_int \<lfloor>of_nat target * c\<rfloor>" by simp
    also have "\<dots> \<le> of_nat target * c" by (rule of_int_floor_le)
    finally show ?thesis .
  qed
  have "(of_nat s :: rat) + of_nat r + of_nat w \<le> of_nat target * (7 / 10)"
    using f [of "15 / 100"] f [of "25 / 100"] f [of "30 / 100"] unfolding s_def r_def w_def by simp
  then have le: "(of_nat (s + r + w) :: rat) \<le> of_nat target * (7 / 10)" by simp
  also have "\<dots> \<le> of_nat target" by simp
  finally have n: "s + r + w \<le> target" by (simp only: of_nat_le_iff)
  have h: "token_budget_allocation budget = \<lparr>bs_system = s, bs_retrieval = r, bs_working = w, bs_history = target - s - r - w\<rparr>"
    unfolding token_budget_allocation_def assms [symmetric] s_def r_def w_def Let_def ..
  have "(of_nat (target - s - r - w) :: rat) = of_nat target - of_nat (s + r + w)" using n by (simp add: of_nat_diff)
  with le n show ?thesis by (simp add: h)
qed

lemma role_weight_ge: "3 / 10 \<le> role_weight r \<and> role_weight r \<le> 9 / 10"
  by (simp add: role_weight_def or_default_def)

text \<open>
  The threshold of importance leaves nothing out that does not say itself that it is unimportant: only
  a message with an explicit importance below one fifth can be under it.
\<close>

theorem threshold_needs_explicit:
  assumes "score_message lower now query m < 3 / 10"
  shows "\<exists>i. om_importance m = Some i \<and> i < 1 / 5"
proof (rule ccontr)
  define e where "e = or_default (5 / 10) (om_importance m)"
  define rec where "rec = max 0 (1 - (now - or_default now (om_created m)) / 3600 / 24)"
  define c :: rat where "c = (case (query, om_content m) of
      (Some q, Some c) \<Rightarrow> if q \<noteq> [] \<and> c \<noteq> [] \<and> 0 < shared_terms (terms lower q) (terms lower c) then 8 / 10 else 5 / 10
    | _ \<Rightarrow> 5 / 10)"
  assume "\<not> (\<exists>i. om_importance m = Some i \<and> i < 1 / 5)"
  then have e: "1 / 5 \<le> e" by (auto simp: e_def or_default_def split: option.splits)
  have r: "0 \<le> rec" by (simp add: rec_def)
  have c: "5 / 10 \<le> c" by (simp add: c_def split: option.split)
  have "3 / 10 \<le> e * (2 / 10) + role_weight (or_default ''user'' (om_role m)) * (2 / 10) + rec * (2 / 10) + c * (4 / 10)"
    using e r c role_weight_ge [of "or_default ''user'' (om_role m)"] by linarith
  then have "3 / 10 \<le> score_message lower now query m"
    unfolding score_message_def Let_def e_def [symmetric] rec_def [symmetric] c_def [symmetric] by simp
  with assms show False by simp
qed

definition demo_opt :: "rat option \<Rightarrow> ucs \<Rightarrow> opt_message" where
  "demo_opt i c = \<lparr>om_importance = i, om_role = Some ''tool'', om_created = Some 0, om_content = Some c\<rparr>"

lemma threshold_needs_explicit_witness: "\<exists>i. om_importance (demo_opt (Some 0) []) = Some i \<and> i < 1 / 5"
proof -
  have "score_message id 100000 None (demo_opt (Some 0) []) < 3 / 10"
    by (simp add: score_message_def demo_opt_def or_default_def role_weight_def Let_def)
  from threshold_needs_explicit [OF this] show ?thesis .
qed

definition tokens_of :: "opt_message list \<Rightarrow> int" where
  "tokens_of ms = sum_list (map (\<lambda>m. int (estimate_tokens m)) ms)"

lemma retain_bound:
  "used \<le> budget \<Longrightarrow>
   used + tokens_of (retain budget ms used) \<le> budget \<or>
   (\<exists>a m. retain budget ms used = a @ [m] \<and> used + tokens_of a < budget - 100 \<and> budget < used + tokens_of a + int (estimate_tokens m))"
proof (induction budget ms used rule: retain.induct)
  case (2 budget m i ms used)
  consider "i < 3 / 10" | "\<not> i < 3 / 10" "budget < used + int (estimate_tokens m)" | "\<not> i < 3 / 10" "\<not> budget < used + int (estimate_tokens m)"
    by blast
  then show ?case
  proof cases
    case 1
    with 2 show ?thesis by simp
  next
    case 2
    show ?thesis
    proof (cases "100 < budget - used")
      case True
      with 2 have "retain budget ((m, i) # ms) used = [] @ [m] \<and> used + tokens_of [] < budget - 100 \<and>
        budget < used + tokens_of [] + int (estimate_tokens m)" by (simp add: tokens_of_def)
      then show ?thesis by blast
    qed (use 2 \<open>used \<le> budget\<close> in \<open>simp add: tokens_of_def\<close>)
  next
    case 3
    from "2.IH"(2) [OF 3] 3 consider
        "used + int (estimate_tokens m) + tokens_of (retain budget ms (used + int (estimate_tokens m))) \<le> budget"
      | a m' where "retain budget ms (used + int (estimate_tokens m)) = a @ [m']"
          "used + int (estimate_tokens m) + tokens_of a < budget - 100" "budget < used + int (estimate_tokens m) + tokens_of a + int (estimate_tokens m')"
      by auto
    then show ?thesis
    proof cases
      case 1
      with 3 show ?thesis by (simp add: tokens_of_def algebra_simps)
    next
      case (2 a m')
      with 3 have "retain budget ((m, i) # ms) used = (m # a) @ [m'] \<and> used + tokens_of (m # a) < budget - 100 \<and>
        budget < used + tokens_of (m # a) + int (estimate_tokens m')" by (simp add: tokens_of_def algebra_simps)
      then show ?thesis by blast
    qed
  qed
qed (simp add: tokens_of_def)

lemma retain_sub: "\<exists>rest. mset (retain budget ms used) + mset rest = mset (map fst ms)"
proof (induction budget ms used rule: retain.induct)
  case (1 budget used)
  show ?case by (intro exI [of _ "[]"]) simp
next
  case (2 budget m i ms used)
  consider "i < 3 / 10" | "\<not> i < 3 / 10" "budget < used + int (estimate_tokens m)" | "\<not> i < 3 / 10" "\<not> budget < used + int (estimate_tokens m)"
    by blast
  then show ?case
  proof cases
    case 1
    from "2.IH"(1) [OF 1] obtain rest where "mset (retain budget ms used) + mset rest = mset (map fst ms)" by blast
    with 1 show ?thesis by (intro exI [of _ "m # rest"]) simp
  next
    case 2
    then show ?thesis
      by (cases "100 < budget - used") (auto intro: exI [of _ "map fst ms"] exI [of _ "m # map fst ms"])
  next
    case 3
    from "2.IH"(2) [OF 3] obtain rest where
      "mset (retain budget ms (used + int (estimate_tokens m))) + mset rest = mset (map fst ms)" by blast
    with 3 show ?thesis by (intro exI [of _ rest]) simp
  qed
qed

text \<open>
  What is retained are messages of the conversation in the order of their times; it fits the budget,
  or it is over it by a single message, the last one taken, of any length.
\<close>

theorem retention_over_budget_by_one:
  assumes "0 \<le> budget"
  shows "sorted (map om_created (selective_retention lower now query budget ms)) \<and>
    (\<exists>rest. mset (selective_retention lower now query budget ms) + mset rest = mset ms) \<and>
    (tokens_of (selective_retention lower now query budget ms) \<le> budget \<or>
     (\<exists>m \<in> set (selective_retention lower now query budget ms).
        tokens_of (selective_retention lower now query budget ms) - int (estimate_tokens m) < budget - 100))"
proof -
  let ?r = "retain budget (importance_scoring lower now query ms) 0"
  have t: "tokens_of (sort_key om_created xs) = tokens_of xs" for xs
  proof -
    have "mset (map (\<lambda>m. int (estimate_tokens m)) (sort_key om_created xs)) = mset (map (\<lambda>m. int (estimate_tokens m)) xs)" by simp
    then show ?thesis unfolding tokens_of_def by (metis sum_mset_sum_list)
  qed
  have "mset (map fst (importance_scoring lower now query ms)) = mset ms"
    by (simp add: importance_scoring_def multiset.map_comp comp_def)
  with retain_sub [of budget "importance_scoring lower now query ms" 0]
  have sub: "\<exists>rest. mset (selective_retention lower now query budget ms) + mset rest = mset ms"
    by (simp add: selective_retention_def)
  have over: "tokens_of ?r \<le> budget \<or> (\<exists>m \<in> set ?r. tokens_of ?r - int (estimate_tokens m) < budget - 100)"
    using retain_bound [OF assms, of "importance_scoring lower now query ms"]
  proof (elim disjE exE conjE)
    fix a m
    assume "?r = a @ [m]" "0 + tokens_of a < budget - 100"
    then have "m \<in> set ?r \<and> tokens_of ?r - int (estimate_tokens m) < budget - 100" by (simp add: tokens_of_def)
    then show ?thesis by blast
  qed simp
  show ?thesis using sub over by (simp add: selective_retention_def t)
qed

lemma retention_over_budget_by_one_witness:
  "sorted (map om_created (selective_retention (map lower_ucs) 0 None 0 [demo_opt None [65], demo_opt None [66]]))"
  using retention_over_budget_by_one [of 0 "map lower_ucs" 0 None "[demo_opt None [65], demo_opt None [66]]"] by simp

text \<open>A single long message is kept whole in a budget of 101 tokens.\<close>

lemma long_message_kept:
  "score_message lower now query m \<ge> 3 / 10 \<Longrightarrow> 101 < int (estimate_tokens m) \<Longrightarrow> selective_retention lower now query 101 [m] = [m]"
  by (simp add: selective_retention_def importance_scoring_def sort_desc_def)

lemma compressed_length: "length (compress_old_messages threshold ms) \<le> max (nat threshold) 12"
  by (auto simp: compress_old_messages_def last_n_def Let_def)

text \<open>Compressing keeps the first message and the last ten, and everything between becomes one line.\<close>

lemma compressed_ends:
  "threshold \<le> int (length ms) \<Longrightarrow> 10 < length ms \<Longrightarrow>
   hd (compress_old_messages threshold ms) = hd ms \<and> last_n 10 (compress_old_messages threshold ms) = last_n 10 ms"
  by (cases ms) (auto simp: compress_old_messages_def Let_def last_n_def)

lemma counts_replaced:
  "get_session_context i s = Some x \<Longrightarrow>
   get_session_context i (update_counts i m t (update_counts i m' t' s)) = Some (x\<lparr>sx_messages := m, sx_tokens := t\<rparr>)"
  by (simp add: get_session_context_def update_counts_def on_session_def)

text \<open>The compressor's greedy choice.\<close>

definition cm_total :: "cmp_message list \<Rightarrow> int" where
  "cm_total ms = sum_list (map (\<lambda>m. int (cm_tokens m)) ms)"

lemma cm_total_nonneg: "0 \<le> cm_total ms"
  by (induction ms) (simp_all add: cm_total_def)

lemma fit_greedy:
  "used \<le> budget \<Longrightarrow>
   used + cm_total (fit budget used ms) \<le> budget \<and>
   (\<exists>rest. mset (fit budget used ms) + mset rest = mset ms \<and>
      (\<forall>m \<in> set rest. budget < used + cm_total (fit budget used ms) + int (cm_tokens m)))"
proof (induction budget used ms rule: fit.induct)
  case (1 budget used)
  then show ?case by (simp add: cm_total_def)
next
  case (2 budget used m ms)
  show ?case
  proof (cases "used + int (cm_tokens m) \<le> budget")
    case True
    from "2.IH"(1) [OF True True] obtain rest where
      "used + int (cm_tokens m) + cm_total (fit budget (used + int (cm_tokens m)) ms) \<le> budget"
      "mset (fit budget (used + int (cm_tokens m)) ms) + mset rest = mset ms"
      "\<forall>x \<in> set rest. budget < used + int (cm_tokens m) + cm_total (fit budget (used + int (cm_tokens m)) ms) + int (cm_tokens x)"
      by blast
    with True show ?thesis by (intro conjI exI [of _ rest]) (simp_all add: cm_total_def algebra_simps)
  next
    case False
    from "2.IH"(2) [OF False "2.prems"] obtain rest where r:
      "used + cm_total (fit budget used ms) \<le> budget" "mset (fit budget used ms) + mset rest = mset ms"
      "\<forall>x \<in> set rest. budget < used + cm_total (fit budget used ms) + int (cm_tokens x)" by blast
    from False cm_total_nonneg [of "fit budget used ms"]
    have "budget < used + cm_total (fit budget used ms) + int (cm_tokens m)" by linarith
    with r False show ?thesis by (intro conjI exI [of _ "m # rest"]) simp_all
  qed
qed

text \<open>C40:  
  The compressed conversation fits the budget, is in the order of its times, and is maximal: no message
  that was left out would still have fitted.
\<close>

theorem compress_maximal:
  assumes "0 \<le> budget"
  shows "cm_total (compress lower ms budget) \<le> budget \<and> sorted (map cm_time (compress lower ms budget)) \<and>
    (\<exists>rest. mset (compress lower ms budget) + mset rest = mset ms \<and>
       (\<forall>m \<in> set rest. budget < cm_total (compress lower ms budget) + int (cm_tokens m)))"
proof -
  let ?f = "fit budget 0 (sort_desc (score_importance lower) ms)"
  have t: "cm_total (sort_key cm_time xs) = cm_total xs" for xs
  proof -
    have "mset (map (\<lambda>m. int (cm_tokens m)) (sort_key cm_time xs)) = mset (map (\<lambda>m. int (cm_tokens m)) xs)" by simp
    then show ?thesis unfolding cm_total_def by (metis sum_mset_sum_list)
  qed
  have c: "compress lower ms budget = sort_key cm_time ?f" by (simp add: compress_def sort_desc_def)
  show ?thesis unfolding c t using fit_greedy [OF assms, of "sort_desc (score_importance lower) ms"] by simp
qed

definition demo_cmp :: "string \<Rightarrow> time \<Rightarrow> nat \<Rightarrow> cmp_message" where
  "demo_cmp r t n = \<lparr>cm_role = r, cm_content = replicate n 65, cm_time = Some t, cm_tool_result = False\<rparr>"

lemma compress_maximal_witness:
  "cm_total (compress (map lower_ucs) [demo_cmp ''user'' 1 40, demo_cmp ''system'' 2 40] 15) \<le> 15"
  using compress_maximal [of 15 "map lower_ucs" "[demo_cmp ''user'' 1 40, demo_cmp ''system'' 2 40]"] by simp

text \<open>What anyone says with the word \<open>always\<close> outranks the system's instructions.\<close>

lemma always_outranks_system:
  "\<not> cm_tool_result m \<Longrightarrow> sub_in (ucs_of ''always'') (lower (cm_content m)) \<Longrightarrow>
   cm_role s = ''system'' \<Longrightarrow> \<not> cm_tool_result s \<Longrightarrow> \<not> sub_in (ucs_of ''always'') (lower (cm_content s)) \<Longrightarrow>
   \<not> sub_in (ucs_of ''prefer'') (lower (cm_content s)) \<Longrightarrow> score_importance lower s < score_importance lower m"
  by (simp add: score_importance_def)

lemma pruned_nonempty: "ms \<noteq> [] \<Longrightarrow> prune_irrelevant lower ms query \<noteq> []"
proof -
  have "ms \<noteq> [] \<Longrightarrow> last_n 10 ms \<noteq> []" by (cases ms) (auto simp: last_n_def)
  then show "ms \<noteq> [] \<Longrightarrow> prune_irrelevant lower ms query \<noteq> []" by (simp add: prune_irrelevant_def Let_def)
qed

end
