(* ===== verification/Memory.thy ===== *)
theory Memory
  imports Db Terms
begin

text \<open>
  The agent's memories: the session buffers of \<^verbatim>\<open>chat_service/agent/memory_manager.py\<close>, preferences and
  entities of \<^verbatim>\<open>semantic_memory.py\<close>, the stub \<^verbatim>\<open>episodic_memory.py\<close> and the table behind
  \<^verbatim>\<open>shared/memory_store.py\<close>.
\<close>

section \<open>The memory manager\<close>

datatype memory_type = EPISODIC | SEMANTIC | PROCEDURAL

record memory =
  me_id :: string
  me_user :: string
  me_type :: memory_type
  me_content :: "(string \<times> ucs) list"
  me_importance :: rat
  me_created :: time
  me_expires :: "time option"
  me_repeated :: bool \<comment> \<open>the metadata's \<open>repeated_mention\<close>\<close>

text \<open>\<open>decay d\<close> is the power 0.95 to the age in days; \<open>lower\<close> is \<open>str.lower\<close>.\<close>

definition memory_score :: "(rat \<Rightarrow> rat) \<Rightarrow> (ucs \<Rightarrow> ucs) \<Rightarrow> time \<Rightarrow> ucs option \<Rightarrow> memory \<Rightarrow> rat" where
  "memory_score decay lower now query m =
     (let recency = decay ((now - me_created m) / 3600 / 24);
          implicit = 5 / 10 + (if me_repeated m then 2 / 10 else 0);
          relevance = (case (query, map_of (me_content m) ''text'') of
              (Some q, Some t) \<Rightarrow> if q \<noteq> [] \<and> t \<noteq> [] \<and> sub_in (lower q) (lower t) then 9 / 10 else 5 / 10
            | _ \<Rightarrow> 5 / 10)
      in min 1 (max 0 (me_importance m * (3 / 10) + implicit * (2 / 10) + recency * (2 / 10) + relevance * (3 / 10))))"

record memory_manager =
  mg_db :: bool
  mg_vector :: bool
  mg_buffer :: "(string \<times> memory list) list"

definition session_memories :: "string \<Rightarrow> memory_manager \<Rightarrow> memory list" where
  "session_memories s g = (case map_of (mg_buffer g) s of None \<Rightarrow> [] | Some ms \<Rightarrow> ms)"

text \<open>The database and the vector index are stubs that keep nothing.\<close>

definition store_memory ::
  "string \<Rightarrow> memory_type \<Rightarrow> (string \<times> ucs) list \<Rightarrow> rat \<Rightarrow> string option \<Rightarrow> time option \<Rightarrow> string \<Rightarrow> time \<Rightarrow> memory_manager \<Rightarrow> memory \<times> memory_manager" where
  "store_memory user ty content importance session expires new_id now g =
     (let m = \<lparr>me_id = new_id, me_user = user, me_type = ty, me_content = content, me_importance = importance,
               me_created = now, me_expires = expires, me_repeated = False\<rparr>
      in (m, case session of
           None \<Rightarrow> g
         | Some s \<Rightarrow> if s = [] then g else g\<lparr>mg_buffer := AList.update s (session_memories s g @ [m]) (mg_buffer g)\<rparr>))"

definition retrieve_memories ::
  "(rat \<Rightarrow> rat) \<Rightarrow> (ucs \<Rightarrow> ucs) \<Rightarrow> time \<Rightarrow> string \<Rightarrow> ucs option \<Rightarrow> memory_type option \<Rightarrow> int \<Rightarrow> string option \<Rightarrow> memory_manager \<Rightarrow> memory list" where
  "retrieve_memories decay lower now user query ty limit session g =
     (let buffered = (case session of None \<Rightarrow> [] | Some s \<Rightarrow> if s = [] then [] else session_memories s g);
          semantic = (if mg_vector g \<and> query \<noteq> None \<and> query \<noteq> Some [] then [] else []);
          stored = (if mg_db g then [] else [])
      in py_take limit (sort_desc (memory_score decay lower now query) (buffered @ semantic @ stored)))"

definition conversation_summary :: "memory list \<Rightarrow> ucs" where
  "conversation_summary ms = ucs_of (''Conversation with '' @ dec_digits (length ms) @ '' messages'')"

definition consolidate :: "string \<Rightarrow> string \<Rightarrow> string \<Rightarrow> time \<Rightarrow> memory_manager \<Rightarrow> memory_manager" where
  "consolidate user session new_id now g =
     (case map_of (mg_buffer g) session of
        None \<Rightarrow> g
      | Some ms \<Rightarrow>
          let episodic = filter (\<lambda>m. me_type m = EPISODIC) ms;
              g1 = (if episodic \<noteq> [] then
                      snd (store_memory user SEMANTIC
                        [(''type'', ucs_of ''conversation_summary''), (''summary'', conversation_summary episodic)]
                        (6 / 10) None None new_id now g)
                    else g)
          in g1\<lparr>mg_buffer := AList.delete session (mg_buffer g1)\<rparr>)"

definition forget_memory :: "string \<Rightarrow> string \<Rightarrow> memory_manager \<Rightarrow> bool \<times> memory_manager" where
  "forget_memory user memory_id g = (mg_db g, g)"

section \<open>Preferences, entities, episodes\<close>

record user_preference =
  up_key :: string
  up_value :: ucs
  up_confidence :: rat
  up_source :: string

record entity_knowledge =
  ek_type :: string
  ek_id :: string
  ek_properties :: "(string \<times> ucs) list"
  ek_confidence :: rat

record semantic_memory =
  sm_preferences :: "(string \<times> (string \<times> user_preference) list) list"
  sm_entities :: "(string \<times> (string \<times> entity_knowledge) list) list"
  sm_relations :: "(string \<times> string \<times> string \<times> rat) list"

definition sub_dict :: "'k \<Rightarrow> ('k \<times> ('l \<times> 'v) list) list \<Rightarrow> ('l \<times> 'v) list" where
  "sub_dict k d = (case map_of d k of None \<Rightarrow> [] | Some x \<Rightarrow> x)"

definition store_preference :: "string \<Rightarrow> string \<Rightarrow> ucs \<Rightarrow> rat \<Rightarrow> string \<Rightarrow> semantic_memory \<Rightarrow> semantic_memory" where
  "store_preference user key value confidence source s =
     s\<lparr>sm_preferences := AList.update user
         (AList.update key \<lparr>up_key = key, up_value = value, up_confidence = confidence, up_source = source\<rparr> (sub_dict user (sm_preferences s)))
         (sm_preferences s)\<rparr>"

definition get_preferences :: "string \<Rightarrow> semantic_memory \<Rightarrow> (string \<times> ucs) list" where
  "get_preferences user s = map (\<lambda>(k, p). (k, up_value p)) (sub_dict user (sm_preferences s))"

definition store_entity :: "string \<Rightarrow> string \<Rightarrow> string \<Rightarrow> (string \<times> ucs) list \<Rightarrow> rat \<Rightarrow> semantic_memory \<Rightarrow> semantic_memory" where
  "store_entity user ty i properties confidence s =
     s\<lparr>sm_entities := AList.update user
         (AList.update i \<lparr>ek_type = ty, ek_id = i, ek_properties = properties, ek_confidence = confidence\<rparr> (sub_dict user (sm_entities s)))
         (sm_entities s)\<rparr>"

definition get_entities :: "string \<Rightarrow> string option \<Rightarrow> semantic_memory \<Rightarrow> entity_knowledge list" where
  "get_entities user ty s =
     (let es = map snd (sub_dict user (sm_entities s))
      in case ty of None \<Rightarrow> es | Some t \<Rightarrow> if t = [] then es else filter (\<lambda>e. ek_type e = t) es)"

definition add_relationship :: "string \<Rightarrow> string \<Rightarrow> string \<Rightarrow> rat \<Rightarrow> semantic_memory \<Rightarrow> semantic_memory" where
  "add_relationship source target ty strength s = s\<lparr>sm_relations := sm_relations s @ [(source, target, ty, strength)]\<rparr>"

datatype semantic_result = Preferences "(string \<times> ucs) list" | Entities "entity_knowledge list"

definition retrieve_semantic :: "string \<Rightarrow> ucs \<Rightarrow> int \<Rightarrow> semantic_memory \<Rightarrow> semantic_result list" where
  "retrieve_semantic user query k s =
     (if get_preferences user s = [] then [] else [Preferences (get_preferences user s)]) @
     (if get_entities user None s = [] then [] else [Entities (py_take k (get_entities user None s))])"

record interaction =
  ia_id :: string
  ia_user :: string
  ia_session :: string
  ia_messages :: "ucs list"
  ia_importance :: rat

definition store_interaction :: "string \<Rightarrow> string \<Rightarrow> ucs list \<Rightarrow> rat \<Rightarrow> string \<Rightarrow> interaction" where
  "store_interaction user session messages importance new_id =
     \<lparr>ia_id = new_id, ia_user = user, ia_session = session, ia_messages = messages, ia_importance = importance\<rparr>"

definition recall :: "bool \<Rightarrow> bool \<Rightarrow> string \<Rightarrow> ucs \<Rightarrow> int \<Rightarrow> interaction list" where
  "recall has_vectors has_db user query limit =
     py_take limit (sort_desc ia_importance ((if has_vectors then [] else []) @ (if has_db then [] else [])))"

section \<open>The table of long-term memories\<close>

text \<open>
  \<open>thread_memories\<close> with its primary key and its foreign keys.  The statements run outside a tenant
  context, so that under row-level security (\<open>md_rls\<close>) the policy has no tenant to compare with.
\<close>

record memory_row =
  mm_tenant :: nat
  mm_user :: nat
  mm_key :: string
  mm_value :: ucs
  mm_updated :: time

record memory_db =
  md_rows :: "memory_row list"
  md_tenants :: "nat list"
  md_users :: "nat list"
  md_rls :: bool

definition is_memory :: "nat \<Rightarrow> nat \<Rightarrow> string \<Rightarrow> memory_row \<Rightarrow> bool" where
  "is_memory t u k r \<longleftrightarrow> mm_tenant r = t \<and> mm_user r = u \<and> mm_key r = k"

definition with_ids :: "string \<Rightarrow> string \<Rightarrow> (nat \<Rightarrow> nat \<Rightarrow> exn + 'a) \<Rightarrow> exn + 'a" where
  "with_ids tid uid f =
     (case (uuid_parse tid, uuid_parse uid) of (Some t, Some u) \<Rightarrow> f t u | _ \<Rightarrow> Inl (DbExn BadArgument))"

definition rls_blocked :: "memory_db \<Rightarrow> bool" where
  "rls_blocked db \<longleftrightarrow> md_rls db \<and> md_rows db \<noteq> []"

definition ms_get :: "string \<Rightarrow> string \<Rightarrow> string \<Rightarrow> memory_db \<Rightarrow> exn + ucs option" where
  "ms_get tid uid k db = with_ids tid uid (\<lambda>t u.
     if rls_blocked db then Inl (DbExn UnsetParameter)
     else Inr (map_option mm_value (fetchrow (is_memory t u k) (md_rows db))))"

definition ms_get_all :: "string \<Rightarrow> string \<Rightarrow> memory_db \<Rightarrow> exn + (string \<times> ucs) list" where
  "ms_get_all tid uid db = with_ids tid uid (\<lambda>t u.
     if rls_blocked db then Inl (DbExn UnsetParameter)
     else Inr (fold (\<lambda>r d. AList.update (mm_key r) (mm_value r) d) (sql_select (\<lambda>r. mm_tenant r = t \<and> mm_user r = u) (md_rows db)) []))"

definition ms_put :: "string \<Rightarrow> string \<Rightarrow> string \<Rightarrow> ucs \<Rightarrow> time \<Rightarrow> memory_db \<Rightarrow> exn + memory_db" where
  "ms_put tid uid k v now db = with_ids tid uid (\<lambda>t u.
     if md_rls db then Inl (DbExn UnsetParameter)
     else if fetchrow (is_memory t u k) (md_rows db) \<noteq> None then
       Inr (db\<lparr>md_rows := sql_update (is_memory t u k) (\<lambda>r. r\<lparr>mm_value := v, mm_updated := now\<rparr>) (md_rows db)\<rparr>)
     else if t \<notin> set (md_tenants db) \<or> u \<notin> set (md_users db) then Inl (DbExn ForeignKeyViolation)
     else Inr (db\<lparr>md_rows := md_rows db @ [\<lparr>mm_tenant = t, mm_user = u, mm_key = k, mm_value = v, mm_updated = now\<rparr>]\<rparr>))"

definition ms_delete :: "string \<Rightarrow> string \<Rightarrow> string \<Rightarrow> memory_db \<Rightarrow> exn + memory_db" where
  "ms_delete tid uid k db = with_ids tid uid (\<lambda>t u.
     if rls_blocked db then Inl (DbExn UnsetParameter)
     else Inr (db\<lparr>md_rows := sql_delete (is_memory t u k) (md_rows db)\<rparr>))"

section \<open>What a session remembers\<close>

lemma memory_score_bounds: "0 \<le> memory_score decay lower now query m \<and> memory_score decay lower now query m \<le> 1"
  by (simp add: memory_score_def Let_def)

text \<open>A sequence of calls, and what was stored for a session since it was last consolidated.\<close>

datatype mem_call =
    Store string memory_type "(string \<times> ucs) list" rat "string option" "time option" string time
  | Consolidate string string string time
  | Forget string string

fun run_call :: "mem_call \<Rightarrow> memory_manager \<Rightarrow> memory_manager" where
  "run_call (Store u ty c i s e n t) g = snd (store_memory u ty c i s e n t g)"
| "run_call (Consolidate u s n t) g = consolidate u s n t g"
| "run_call (Forget u m) g = snd (forget_memory u m g)"

fun remembered :: "string \<Rightarrow> mem_call list \<Rightarrow> memory list \<Rightarrow> memory list" where
  "remembered s [] ms = ms"
| "remembered s (Store u ty c i s' e n t # cs) ms =
     remembered s cs (if s' = Some s then ms @ [\<lparr>me_id = n, me_user = u, me_type = ty, me_content = c, me_importance = i,
       me_created = t, me_expires = e, me_repeated = False\<rparr>] else ms)"
| "remembered s (Consolidate u s' n t # cs) ms = remembered s cs (if s' = s then [] else ms)"
| "remembered s (Forget u m # cs) ms = remembered s cs ms"

lemma session_after_store:
  "s \<noteq> [] \<Longrightarrow> session_memories s (snd (store_memory u ty c i s' e n t g)) =
     (if s' = Some s then session_memories s g @ [\<lparr>me_id = n, me_user = u, me_type = ty, me_content = c, me_importance = i,
       me_created = t, me_expires = e, me_repeated = False\<rparr>] else session_memories s g)"
  by (auto simp: store_memory_def session_memories_def Let_def split: option.split)

lemma session_after_consolidate:
  "session_memories s (consolidate u s' n t g) = (if s' = s then [] else session_memories s g)"
  by (auto simp: consolidate_def session_memories_def store_memory_def Let_def split: option.split)

lemma session_after_calls:
  "s \<noteq> [] \<Longrightarrow> session_memories s (fold run_call cs g) = remembered s cs (session_memories s g)"
proof (induction cs arbitrary: g)
  case (Cons c cs)
  then show ?case
    by (cases c) (simp_all add: session_after_store session_after_consolidate forget_memory_def)
qed simp

definition new_manager :: "bool \<Rightarrow> bool \<Rightarrow> memory_manager" where
  "new_manager has_db has_vectors = \<lparr>mg_db = has_db, mg_vector = has_vectors, mg_buffer = []\<rparr>"

text \<open> 
  What is retrieved, after any calls: the best of exactly the memories stored for the session since it
  was last consolidated, whoever stored them and whoever asks; what was stored outside a session, and
  every summary, is never seen again, with a database or without.
\<close>

theorem memories_since_consolidation:
  assumes "s \<noteq> []"
  shows "retrieve_memories decay lower now user query ty limit (Some s) (fold run_call cs (new_manager d v)) =
      py_take limit (sort_desc (memory_score decay lower now query) (remembered s cs [])) \<and>
    retrieve_memories decay lower now user query ty limit None (fold run_call cs (new_manager d v)) = []"
  using session_after_calls [OF assms, of cs "new_manager d v"] assms
  by (simp add: retrieve_memories_def session_memories_def new_manager_def py_take_def sort_desc_def Let_def)

lemma memories_since_consolidation_witness:
  "retrieve_memories (\<lambda>d. 1) (map lower_ucs) 5 ''bob'' None None 10 (Some ''s'')
     (fold run_call [Store ''ann'' EPISODIC [] 1 (Some ''s'') None ''m1'' 1, Consolidate ''ann'' ''s'' ''m2'' 2,
        Store ''ann'' SEMANTIC [] 1 (Some ''s'') None ''m3'' 3] (new_manager True True)) =
   [\<lparr>me_id = ''m3'', me_user = ''ann'', me_type = SEMANTIC, me_content = [], me_importance = 1, me_created = 3,
     me_expires = None, me_repeated = False\<rparr>]"
  using memories_since_consolidation [of "''s''" "\<lambda>d. 1" "map lower_ucs" 5 "''bob''" None None 10
      "[Store ''ann'' EPISODIC [] 1 (Some ''s'') None ''m1'' 1, Consolidate ''ann'' ''s'' ''m2'' 2,
        Store ''ann'' SEMANTIC [] 1 (Some ''s'') None ''m3'' 3]" True True]
  by (simp add: py_take_def sort_desc_def)

text \<open>An expired memory is retrieved like any other, and forgetting changes nothing but the answer.\<close>

lemma expired_still_retrieved:
  "s \<noteq> [] \<Longrightarrow> m \<in> set (session_memories s g) \<Longrightarrow> int (length (session_memories s g)) \<le> limit \<Longrightarrow>
   m \<in> set (retrieve_memories decay lower now user query ty limit (Some s) g)"
  by (simp add: retrieve_memories_def py_take_def)

lemma forgetting_keeps: "session_memories s (snd (forget_memory u m g)) = session_memories s g"
  by (simp add: forget_memory_def)

lemma recall_nothing: "recall has_vectors has_db user query limit = []"
  by (simp add: recall_def py_take_def sort_desc_def)

section \<open>Preferences read back\<close>

lemma map_of_values: "map_of (map (\<lambda>(k, p). (k, f p)) d) k = map_option f (map_of d k)"
  by (induction d) auto

lemma preference_stored:
  "map_of (get_preferences u (store_preference user key value confidence source s)) k =
     (if u = user \<and> k = key then Some value else map_of (get_preferences u s) k)"
  by (auto simp: get_preferences_def store_preference_def sub_dict_def map_of_values split: option.split)

lemma preferences_of_user_only:
  "u \<noteq> user \<Longrightarrow> retrieve_semantic u query k (store_preference user key value confidence source s) = retrieve_semantic u query k s"
  by (simp add: retrieve_semantic_def get_preferences_def get_entities_def store_preference_def sub_dict_def)

section \<open>The table is a map\<close>

text \<open>The abstract store: one value per tenant, user and key.\<close>

definition mem_abs :: "memory_db \<Rightarrow> nat \<times> nat \<times> string \<Rightarrow> ucs option" where
  "mem_abs db = (\<lambda>(t, u, k). map_option mm_value (fetchrow (is_memory t u k) (md_rows db)))"

lemma with_ids_Inr: "with_ids tid uid f = Inr x \<longleftrightarrow> (\<exists>t u. uuid_parse tid = Some t \<and> uuid_parse uid = Some u \<and> f t u = Inr x)"
  by (auto simp: with_ids_def split: option.split)

lemma is_memory_other: "(t', u', k') \<noteq> (t, u, k) \<Longrightarrow> is_memory t u k r \<Longrightarrow> \<not> is_memory t' u' k' r"
  by (auto simp: is_memory_def)

lemma fetch_after_put:
  "fetchrow (is_memory t' u' k') (sql_update (is_memory t u k) (\<lambda>r. r\<lparr>mm_value := v, mm_updated := now\<rparr>) rows) =
     (if (t', u', k') = (t, u, k) then map_option (\<lambda>r. r\<lparr>mm_value := v, mm_updated := now\<rparr>) (fetchrow (is_memory t u k) rows)
      else fetchrow (is_memory t' u' k') rows)"
proof (cases "(t', u', k') = (t, u, k)")
  case True
  have "fetchrow (is_memory t u k) (sql_update (is_memory t u k) (\<lambda>r. r\<lparr>mm_value := v, mm_updated := now\<rparr>) rows) =
    map_option (\<lambda>r. r\<lparr>mm_value := v, mm_updated := now\<rparr>) (fetchrow (is_memory t u k) rows)"
    by (rule fetch_same_update) (simp add: is_memory_def)
  with True show ?thesis by simp
next
  case False
  have "fetchrow (is_memory t' u' k') (sql_update (is_memory t u k) (\<lambda>r. r\<lparr>mm_value := v, mm_updated := now\<rparr>) rows) =
    fetchrow (is_memory t' u' k') rows"
    using is_memory_other [OF False] by (intro fetch_other_update) (simp add: is_memory_def)
  with False show ?thesis by (simp only: if_False)
qed

lemma fetch_after_delete:
  "fetchrow (is_memory t' u' k') (sql_delete (is_memory t u k) rows) =
     (if (t', u', k') = (t, u, k) then None else fetchrow (is_memory t' u' k') rows)"
proof (cases "(t', u', k') = (t, u, k)")
  case False
  have "fetchrow (is_memory t' u' k') (sql_delete (is_memory t u k) rows) = fetchrow (is_memory t' u' k') rows"
    using is_memory_other [OF False] by (intro fetch_other_delete) simp
  with False show ?thesis by (simp only: if_False)
qed (simp add: fetch_same_delete)

text \<open>C30:  
  A successful \<open>put\<close> is an update of the abstract map and a successful \<open>delete\<close> removes the key; a
  lookup is a lookup in it, whatever was stored under other tenants, users or keys.
\<close>

theorem memory_store_refines:
  assumes "uuid_parse tid = Some t" and "uuid_parse uid = Some u"
  shows "(\<forall>db'. ms_put tid uid k v now db = Inr db' \<longrightarrow> mem_abs db' = (mem_abs db)((t, u, k) := Some v) \<and> ms_get tid uid k db' = Inr (Some v)) \<and>
    (\<forall>db'. ms_delete tid uid k db = Inr db' \<longrightarrow> mem_abs db' = (mem_abs db)((t, u, k) := None)) \<and>
    (\<forall>x. ms_get tid uid k db = Inr x \<longrightarrow> x = mem_abs db (t, u, k))"
proof (intro conjI allI impI)
  fix db' assume p: "ms_put tid uid k v now db = Inr db'"
  show a: "mem_abs db' = (mem_abs db)((t, u, k) := Some v)"
  proof
    fix x
    obtain t' u' :: nat and k' :: string where x: "x = (t', u', k')" by (cases x)
    have ap: "fetchrow (is_memory t' u' k') (rows @ [\<lparr>mm_tenant = t, mm_user = u, mm_key = k, mm_value = v, mm_updated = now\<rparr>]) =
      (case fetchrow (is_memory t' u' k') rows of Some r \<Rightarrow> Some r
       | None \<Rightarrow> if (t', u', k') = (t, u, k) then Some \<lparr>mm_tenant = t, mm_user = u, mm_key = k, mm_value = v, mm_updated = now\<rparr> else None)" for rows
      by (auto simp: fetchrow_append is_memory_def split: option.split)
    show "mem_abs db' x = ((mem_abs db)((t, u, k) := Some v)) x"
    proof (cases "fetchrow (is_memory t u k) (md_rows db)")
      case None
      with p assms have "md_rows db' = md_rows db @ [\<lparr>mm_tenant = t, mm_user = u, mm_key = k, mm_value = v, mm_updated = now\<rparr>]"
        by (auto simp: ms_put_def with_ids_def split: if_splits)
      with None show ?thesis by (auto simp: mem_abs_def x ap split: option.split)
    next
      case (Some r)
      with p assms have "md_rows db' = sql_update (is_memory t u k) (\<lambda>r. r\<lparr>mm_value := v, mm_updated := now\<rparr>) (md_rows db)"
        by (auto simp: ms_put_def with_ids_def split: if_splits)
      with Some show ?thesis by (auto simp: mem_abs_def x fetch_after_put option.map_comp)
    qed
  qed
  have "\<not> md_rls db'" using p assms by (auto simp: ms_put_def with_ids_def split: if_splits)
  with fun_cong [OF a, of "(t, u, k)"] assms show "ms_get tid uid k db' = Inr (Some v)"
    by (simp add: ms_get_def with_ids_def rls_blocked_def mem_abs_def)
next
  fix db' assume "ms_delete tid uid k db = Inr db'"
  with assms have "md_rows db' = sql_delete (is_memory t u k) (md_rows db)"
    by (auto simp: ms_delete_def with_ids_def split: if_splits)
  then show "mem_abs db' = (mem_abs db)((t, u, k) := None)" by (auto simp: mem_abs_def fetch_after_delete)
next
  fix x assume "ms_get tid uid k db = Inr x"
  with assms show "x = mem_abs db (t, u, k)" by (auto simp: ms_get_def with_ids_def mem_abs_def split: if_splits)
qed

definition demo_mem :: memory_db where
  "demo_mem = \<lparr>md_rows = [], md_tenants = [1], md_users = [2], md_rls = False\<rparr>"

lemma memory_store_refines_witness:
  "\<exists>db. ms_put uuid1 uuid2 ''lang'' [101, 110] 1 demo_mem = Inr db \<and> ms_get uuid1 uuid2 ''lang'' db = Inr (Some [101, 110])"
proof -
  obtain db where d: "ms_put uuid1 uuid2 ''lang'' [101, 110] 1 demo_mem = Inr db"
    by (simp add: ms_put_def with_ids_def demo_mem_def)
  with memory_store_refines [of uuid1 1 uuid2 2 "''lang''" "[101, 110]" 1 demo_mem] show ?thesis by auto
qed

text \<open>Under row-level security nothing can be stored, the primary key holds, and reading all is reading each.\<close>

lemma memories_blocked_by_rls: "md_rls db \<Longrightarrow> \<not> is_ok (ms_put tid uid k v now db)"
  by (simp add: ms_put_def with_ids_def split: option.split)

definition memory_key :: "memory_row \<Rightarrow> nat \<times> nat \<times> string" where
  "memory_key r = (mm_tenant r, mm_user r, mm_key r)"

lemma primary_key_kept:
  assumes "distinct (map memory_key (md_rows db))" and "ms_put tid uid k v now db = Inr db'"
  shows "distinct (map memory_key (md_rows db'))"
proof -
  obtain t u where ids: "uuid_parse tid = Some t" "uuid_parse uid = Some u"
    using assms(2) by (auto simp: ms_put_def with_ids_Inr)
  show ?thesis
  proof (cases "fetchrow (is_memory t u k) (md_rows db)")
    case None
    then have "(t, u, k) \<notin> memory_key ` set (md_rows db)" by (auto simp: fetchrow_None is_memory_def memory_key_def)
    with assms ids None show ?thesis
      by (auto simp: ms_put_def with_ids_def memory_key_def split: if_splits)
  next
    case (Some r)
    have "map memory_key (sql_update (is_memory t u k) (\<lambda>r. r\<lparr>mm_value := v, mm_updated := now\<rparr>) (md_rows db)) = map memory_key (md_rows db)"
      by (rule map_sql_update) (simp add: memory_key_def)
    with assms ids Some show ?thesis by (auto simp: ms_put_def with_ids_def split: if_splits)
  qed
qed

lemma get_all_agrees:
  assumes "distinct (map memory_key (md_rows db))" and "ms_get_all tid uid db = Inr d"
    and "uuid_parse tid = Some t" "uuid_parse uid = Some u"
  shows "map_of d k = mem_abs db (t, u, k)"
proof -
  have "map_of (fold (\<lambda>r d. AList.update (mm_key r) (mm_value r) d) (sql_select (\<lambda>r. mm_tenant r = t \<and> mm_user r = u) rows) d) k =
      (case fetchrow (is_memory t u k) rows of None \<Rightarrow> map_of d k | Some r \<Rightarrow> Some (mm_value r))"
    if "distinct (map memory_key rows)" for rows d
    using that
  proof (induction rows arbitrary: d)
    case (Cons r rows)
    have no: "fetchrow (is_memory t u k) rows = None" if "is_memory t u k r"
    proof -
      have "memory_key r = (t, u, k)" using that by (simp add: is_memory_def memory_key_def)
      moreover have "memory_key r \<notin> memory_key ` set rows" using Cons.prems by simp
      ultimately have "\<not> is_memory t u k x" if "x \<in> set rows" for x
        using that by (metis imageI is_memory_def memory_key_def)
      then show ?thesis by (simp add: fetchrow_None)
    qed
    have "distinct (map memory_key rows)" using Cons.prems by simp
    note ih = Cons.IH [OF this]
    show ?case
    proof (cases "mm_tenant r = t \<and> mm_user r = u")
      case True
      then have s: "sql_select (\<lambda>r. mm_tenant r = t \<and> mm_user r = u) (r # rows) = r # sql_select (\<lambda>r. mm_tenant r = t \<and> mm_user r = u) rows"
        by (simp add: sql_select_def)
      show ?thesis
      proof (cases "mm_key r = k")
        case True
        with \<open>mm_tenant r = t \<and> mm_user r = u\<close> have m: "is_memory t u k r" by (simp add: is_memory_def)
        then show ?thesis unfolding s fold_simps ih using True no [OF m] by simp
      next
        case False
        then have m: "\<not> is_memory t u k r" by (simp add: is_memory_def)
        show ?thesis unfolding s fold_simps ih using False m by (simp split: option.split)
      qed
    next
      case False
      then have m: "\<not> is_memory t u k r" by (auto simp: is_memory_def)
      from False have s: "sql_select (\<lambda>r. mm_tenant r = t \<and> mm_user r = u) (r # rows) = sql_select (\<lambda>r. mm_tenant r = t \<and> mm_user r = u) rows"
        by (simp add: sql_select_def)
      show ?thesis unfolding s ih using m by simp
    qed
  qed (simp add: sql_select_def)
  from this [OF assms(1), of "[]"] assms(2-) show ?thesis
    by (auto simp: ms_get_all_def with_ids_def mem_abs_def split: if_splits option.splits)
qed

end
