(* ===== verification/Reasoning.thy ===== *)
theory Reasoning
  imports Db
begin

text \<open>
  The reasoning engines of \<^verbatim>\<open>shared/reasoning.py\<close>: traces, the chain of thought and the tree of thoughts.
  The model is an argument: \<open>generate n prompt\<close> is its answer to the call after \<open>n\<close> others.
\<close>

section \<open>Traces\<close>

record reasoning_step =
  rz_id :: string
  rz_thought :: ucs
  rz_observation :: "ucs option"
  rz_confidence :: rat
  rz_parent :: "string option"
  rz_children :: "string list"

record reasoning_trace =
  rc_steps :: "reasoning_step list"
  rc_root :: "string option"

definition new_trace :: reasoning_trace where
  "new_trace = \<lparr>rc_steps = [], rc_root = None\<rparr>"

definition get_step :: "string \<Rightarrow> reasoning_trace \<Rightarrow> reasoning_step option" where
  "get_step i t = find (\<lambda>s. rz_id s = i) (rc_steps t)"

text \<open>The first step of that identifier, which is an object of the list, gets the child.\<close>

fun add_child_to :: "string \<Rightarrow> string \<Rightarrow> reasoning_step list \<Rightarrow> reasoning_step list" where
  "add_child_to p c [] = []"
| "add_child_to p c (s # ss) = (if rz_id s = p then s\<lparr>rz_children := rz_children s @ [c]\<rparr> # ss else s # add_child_to p c ss)"

definition add_step :: "reasoning_step \<Rightarrow> reasoning_trace \<Rightarrow> reasoning_trace" where
  "add_step s t =
     (if rc_root t = None \<or> rc_root t = Some [] then t\<lparr>rc_root := Some (rz_id s), rc_steps := rc_steps t @ [s]\<rparr>
      else if rc_steps t = [] then t\<lparr>rc_steps := [s\<lparr>rz_parent := None\<rparr>]\<rparr>
      else
          let p = rz_id (last (rc_steps t));
              steps = (if p = [] then rc_steps t else add_child_to p (rz_id s) (rc_steps t))
          in t\<lparr>rc_steps := steps @ [s\<lparr>rz_parent := Some p\<rparr>]\<rparr>)"

definition is_complete :: "reasoning_trace \<Rightarrow> bool" where
  "is_complete t \<longleftrightarrow> rc_steps t \<noteq> [] \<and> 9 / 10 \<le> rz_confidence (last (rc_steps t))"

section \<open>Chain of thought\<close>

definition ARROW :: nat where "ARROW = 8594"

definition nl :: "ucs \<Rightarrow> ucs list" where "nl = py_split [10]"

definition parse_thought :: "ucs \<Rightarrow> ucs" where
  "parse_thought response =
     (case find (\<lambda>l. strip l \<noteq> []) (nl (strip response)) of Some l \<Rightarrow> strip l | None \<Rightarrow> take 100 response)"

definition parse_observation :: "ucs \<Rightarrow> ucs option" where
  "parse_observation response =
     (if ARROW \<in> set response then let parts = py_split [ARROW] response in
        if 1 < length parts then Some (strip (last parts)) else None
      else None)"

definition uncertainty_markers :: "ucs list" where
  "uncertainty_markers = map ucs_of [''maybe'', ''perhaps'', ''possibly''] @ [[21487, 33021], [20063, 35768], [19981, 30830, 23450]]"

definition estimate_confidence :: "(ucs \<Rightarrow> ucs) \<Rightarrow> ucs \<Rightarrow> rat" where
  "estimate_confidence lower response =
     (if list_ex (\<lambda>m. sub_in (lower m) (lower response)) uncertainty_markers then 6 / 10 else 8 / 10)"

text \<open>
  The prompt: the template has the question only, so that \<open>format\<close> drops the context it is given.
\<close>

definition cot_prompt :: "ucs \<Rightarrow> ucs \<Rightarrow> ucs" where
  "cot_prompt query ctx =
     ucs_of ''You are a reasoning assistant. Think step by step.'' @ [10, 32, 32, 32, 32, 10] @ ucs_of ''Query: '' @ query @
     [10, 10] @ ucs_of ''Provide your reasoning as a series of clear steps. For each step:'' @ [10] @
     ucs_of ''1. State your thought'' @ [10] @ ucs_of ''2. Take an action if needed'' @ [10] @
     ucs_of ''3. Note the observation/result'' @ [10, 10] @ ucs_of ''End with your final answer.'' @ [10]"

definition cot_step :: "(ucs \<Rightarrow> ucs) \<Rightarrow> (nat \<Rightarrow> ucs \<Rightarrow> exn + ucs) option \<Rightarrow> string \<Rightarrow> nat \<Rightarrow> ucs \<Rightarrow> exn + reasoning_step" where
  "cot_step lower llm new_id n prompt =
     (case llm of
        None \<Rightarrow> Inr \<lparr>rz_id = new_id, rz_thought = ucs_of (''Step '' @ dec_digits (n + 1) @ '': Analyzing query...''),
                     rz_observation = None, rz_confidence = 5 / 10, rz_parent = None, rz_children = []\<rparr>
      | Some generate \<Rightarrow>
          (case generate n prompt of Inl e \<Rightarrow> Inl e
           | Inr response \<Rightarrow> Inr \<lparr>rz_id = new_id, rz_thought = parse_thought response, rz_observation = parse_observation response,
                rz_confidence = estimate_confidence lower response, rz_parent = None, rz_children = []\<rparr>))"

definition cot_context :: "ucs \<Rightarrow> nat \<Rightarrow> reasoning_step \<Rightarrow> ucs" where
  "cot_context ctx n s =
     ctx @ [10] @ ucs_of (''Step '' @ dec_digits (n + 1) @ '': '') @ rz_thought s @
     (case rz_observation s of None \<Rightarrow> [] | Some obs \<Rightarrow> if obs = [] then [] else [32, ARROW, 32] @ obs)"

text \<open>The loop over the steps that are left; besides the trace it says which prompts were sent.\<close>

fun cot_loop ::
  "(ucs \<Rightarrow> ucs) \<Rightarrow> (nat \<Rightarrow> ucs \<Rightarrow> exn + ucs) option \<Rightarrow> (nat \<Rightarrow> string) \<Rightarrow> ucs \<Rightarrow> nat \<Rightarrow> nat \<Rightarrow> ucs \<Rightarrow> reasoning_trace \<Rightarrow> exn + reasoning_trace \<times> ucs list" where
  "cot_loop lower llm ids query 0 n ctx t = Inr (t, [])"
| "cot_loop lower llm ids query (Suc k) n ctx t =
     (let prompt = cot_prompt query ctx in
      case cot_step lower llm (ids n) n prompt of
        Inl e \<Rightarrow> Inl e
      | Inr s \<Rightarrow>
          let t1 = add_step s t in
          if is_complete t1 then Inr (t1, [prompt])
          else map_sum id (apsnd ((#) prompt)) (cot_loop lower llm ids query k (n + 1) (cot_context ctx n s) t1))"

definition generate_with_cot ::
  "(ucs \<Rightarrow> ucs) \<Rightarrow> (nat \<Rightarrow> ucs \<Rightarrow> exn + ucs) option \<Rightarrow> (nat \<Rightarrow> string) \<Rightarrow> ucs \<Rightarrow> int \<Rightarrow> exn + reasoning_trace \<times> ucs list" where
  "generate_with_cot lower llm ids query max_steps = cot_loop lower llm ids query (nat max_steps) 0 [] new_trace"

section \<open>Tree of thoughts\<close>

record tot_node =
  tn_thought :: ucs
  tn_score :: rat
  tn_depth :: nat
  tn_path :: "ucs list" \<comment> \<open>\<open>get_path\<close>: the thoughts from the root\<close>

definition tot_child :: "tot_node \<Rightarrow> (ucs \<Rightarrow> rat) option \<Rightarrow> ucs \<Rightarrow> tot_node" where
  "tot_child n evaluate c =
     \<lparr>tn_thought = c, tn_score = (case evaluate of None \<Rightarrow> 5 / 10 | Some f \<Rightarrow> f c), tn_depth = tn_depth n + 1, tn_path = tn_path n @ [c]\<rparr>"

definition generate_candidates :: "(ucs \<Rightarrow> nat \<Rightarrow> ucs) option \<Rightarrow> ucs \<Rightarrow> nat \<Rightarrow> ucs list" where
  "generate_candidates llm thought n =
     (case llm of
        None \<Rightarrow> map (\<lambda>i. thought @ ucs_of ('' (branch '' @ dec_digits i @ '')'')) [0..<n]
      | Some ask \<Rightarrow> take n (map strip (filter (\<lambda>c. strip c \<noteq> []) (nl (ask thought n)))))"

definition keep_best :: "tot_node list \<Rightarrow> tot_node \<times> rat \<Rightarrow> tot_node \<times> rat" where
  "keep_best children b = fold (\<lambda>c (n, s). if s < tn_score c then (c, tn_score c) else (n, s)) children b"

text \<open>
  The loop of \<open>search\<close>: its condition looks at the depth of the root, which never changes, so that it
  ends only with an empty queue.
\<close>

partial_function (option) tot_loop ::
  "(ucs \<Rightarrow> nat \<Rightarrow> ucs) option \<Rightarrow> (ucs \<Rightarrow> rat) option \<Rightarrow> nat \<Rightarrow> nat \<Rightarrow> nat \<Rightarrow> tot_node list \<Rightarrow> tot_node \<times> rat \<Rightarrow> tot_node option" where
  "tot_loop llm evaluate branching depth root_depth queue best =
     (case queue of
        [] \<Rightarrow> Some (fst best)
      | node # rest \<Rightarrow>
          if root_depth < depth then
            (let children = map (tot_child node evaluate) (generate_candidates llm (tn_thought node) branching)
             in tot_loop llm evaluate branching depth root_depth
                  (rest @ take branching (sort_desc tn_score children)) (keep_best children best))
          else Some (fst best))"

text \<open>
  But \<open>search\<close> does not get there: its first statement gives the constructor an argument that it does
  not have.  \<open>accepted\<close> are the constructor's parameters.
\<close>

definition tot_node_params :: "string list" where
  "tot_node_params = [''thought'', ''parent'', ''depth'']"

definition new_root :: "string list \<Rightarrow> ucs \<Rightarrow> exn + tot_node" where
  "new_root keywords query =
     (if set keywords \<subseteq> set tot_node_params then Inr \<lparr>tn_thought = query, tn_score = 0, tn_depth = 0, tn_path = [query]\<rparr>
      else Inl TypeError)"

definition tot_search ::
  "(ucs \<Rightarrow> nat \<Rightarrow> ucs) option \<Rightarrow> (ucs \<Rightarrow> rat) option \<Rightarrow> ucs \<Rightarrow> nat \<Rightarrow> nat \<Rightarrow> (exn + tot_node) option" where
  "tot_search llm evaluate query branching depth =
     (case new_root [''thought'', ''depth'', ''status''] query of
        Inl e \<Rightarrow> Some (Inl e)
      | Inr rt \<Rightarrow> map_option Inr (tot_loop llm evaluate branching depth (tn_depth rt) [rt] (rt, 0)))"

section \<open>Chains\<close>

text \<open>A chain: each step has the one before as its parent and the one after as its only child.\<close>

definition is_chain :: "reasoning_step list \<Rightarrow> bool" where
  "is_chain ss \<longleftrightarrow> distinct (map rz_id ss) \<and>
     (\<forall>i < length ss. rz_parent (ss ! i) = (if i = 0 then None else Some (rz_id (ss ! (i - 1)))) \<and>
        rz_children (ss ! i) = (if i + 1 < length ss then [rz_id (ss ! (i + 1))] else []))"

definition trace_ok :: "reasoning_trace \<Rightarrow> bool" where
  "trace_ok t \<longleftrightarrow> is_chain (rc_steps t) \<and> (\<forall>s \<in> set (rc_steps t). rz_id s \<noteq> []) \<and>
     rc_root t = (case rc_steps t of [] \<Rightarrow> None | s # _ \<Rightarrow> Some (rz_id s))"

lemma add_child_last:
  "distinct (map rz_id (ss @ [s])) \<Longrightarrow> add_child_to (rz_id s) c (ss @ [s]) = ss @ [s\<lparr>rz_children := rz_children s @ [c]\<rparr>]"
  by (induction ss) auto

lemma add_step_ok:
  assumes ok: "trace_ok t" and s: "rz_id s \<noteq> []" "rz_id s \<notin> rz_id ` set (rc_steps t)" "rz_parent s = None" "rz_children s = []"
  shows "trace_ok (add_step s t)"
proof (cases "rc_steps t" rule: rev_cases)
  case Nil
  with ok s show ?thesis by (simp add: trace_ok_def add_step_def is_chain_def)
next
  case (snoc ss l)
  have root: "rc_root t = Some (rz_id (hd (rc_steps t)))" "rz_id (hd (rc_steps t)) \<noteq> []" "rz_id l \<noteq> []"
  proof -
    have ne: "rc_steps t \<noteq> []" using snoc by simp
    have h: "hd (rc_steps t) \<in> set (rc_steps t)" by (rule hd_in_set [OF ne])
    have l: "l \<in> set (rc_steps t)" using snoc by simp
    from ne show "rc_root t = Some (rz_id (hd (rc_steps t)))" using ok by (cases "rc_steps t") (simp_all add: trace_ok_def)
    from h l show "rz_id (hd (rc_steps t)) \<noteq> []" "rz_id l \<noteq> []" using ok by (simp_all add: trace_ok_def)
  qed
  have d: "distinct (map rz_id (ss @ [l]))" using ok snoc by (simp add: trace_ok_def is_chain_def)
  let ?l = "l\<lparr>rz_children := rz_children l @ [rz_id s]\<rparr>" and ?s = "s\<lparr>rz_parent := Some (rz_id l)\<rparr>"
  have steps: "rc_steps (add_step s t) = ss @ [?l, ?s]" "rc_root (add_step s t) = rc_root t"
    using root(2,3) add_child_last [OF d, of "rz_id s"] by (simp_all add: add_step_def Let_def root(1) snoc)
  have n: "length ss + 1 = length (rc_steps t)" using snoc by simp
  have c: "rz_parent (rc_steps t ! i) = (if i = 0 then None else Some (rz_id (rc_steps t ! (i - 1))))"
      "rz_children (rc_steps t ! i) = (if i + 1 < length (rc_steps t) then [rz_id (rc_steps t ! (i + 1))] else [])"
    if "i < length (rc_steps t)" for i
    using ok that by (simp_all add: trace_ok_def is_chain_def)
  have lc: "rz_children l = []" using c(2) [of "length ss"] snoc by simp
  have ids: "map rz_id (ss @ [?l, ?s]) = map rz_id (rc_steps t) @ [rz_id s]" using snoc by simp
  have idn: "rz_id ((ss @ [?l, ?s]) ! i) = rz_id (rc_steps t ! i)" if "i < length (rc_steps t)" for i
    using snoc that by (auto simp: nth_append less_Suc_eq)
  have "is_chain (ss @ [?l, ?s])"
    unfolding is_chain_def
  proof (intro conjI allI impI)
    show "distinct (map rz_id (ss @ [?l, ?s]))" unfolding ids using d s(2) snoc by auto
  next
    fix i assume i: "i < length (ss @ [?l, ?s])"
    show "rz_parent ((ss @ [?l, ?s]) ! i) = (if i = 0 then None else Some (rz_id ((ss @ [?l, ?s]) ! (i - 1))))"
    proof (cases "i < length (rc_steps t)")
      case True
      have "rz_parent ((ss @ [?l, ?s]) ! i) = rz_parent (rc_steps t ! i)"
        using snoc True by (auto simp: nth_append less_Suc_eq)
      with c(1) [OF True] idn [of "i - 1"] True show ?thesis by (auto split: if_splits)
    next
      case False
      with i n have "i = Suc (length ss)" by simp
      then show ?thesis by (simp add: nth_append)
    qed
    show "rz_children ((ss @ [?l, ?s]) ! i) = (if i + 1 < length (ss @ [?l, ?s]) then [rz_id ((ss @ [?l, ?s]) ! (i + 1))] else [])"
    proof (cases "i < length ss")
      case True
      then have "rz_children ((ss @ [?l, ?s]) ! i) = rz_children (rc_steps t ! i)" using snoc by (simp add: nth_append)
      with c(2) [of i] idn [of "i + 1"] True n show ?thesis by simp
    next
      case False
      with i have "i = length ss \<or> i = Suc (length ss)" by auto
      then show ?thesis using s(4) lc by (auto simp: nth_append)
    qed
  qed
  moreover have "\<forall>x \<in> set (ss @ [?l, ?s]). rz_id x \<noteq> []" using ok snoc s(1) root(3) by (auto simp: trace_ok_def)
  moreover have "(case ss @ [?l, ?s] of [] \<Rightarrow> None | x # _ \<Rightarrow> Some (rz_id x)) = rc_root t"
    using snoc root(1) by (cases ss) auto
  ultimately show ?thesis by (simp add: trace_ok_def steps)
qed

section \<open>The chain of thought\<close>

lemma confidence_low: "cot_step lower llm i n prompt = Inr s \<Longrightarrow> rz_confidence s < 9 / 10 \<and> rz_id s = i \<and> rz_parent s = None \<and> rz_children s = []"
  by (auto simp: cot_step_def estimate_confidence_def split: option.splits sum.splits)

lemma add_child_same: "length (add_child_to p c ss) = length ss \<and> map rz_id (add_child_to p c ss) = map rz_id ss"
  by (induction ss) auto

lemma add_step_appends:
  "\<exists>ss p. rc_steps (add_step s t) = ss @ [s\<lparr>rz_parent := p\<rparr>] \<and> length ss = length (rc_steps t) \<and> map rz_id ss = map rz_id (rc_steps t)"
proof (cases "rc_root t = None \<or> rc_root t = Some []")
  case True
  then have "rc_steps (add_step s t) = rc_steps t @ [s\<lparr>rz_parent := rz_parent s\<rparr>]" by (auto simp: add_step_def)
  then show ?thesis by blast
next
  case False
  show ?thesis
  proof (cases "rc_steps t")
    case Nil
    with False have "rc_steps (add_step s t) = [] @ [s\<lparr>rz_parent := None\<rparr>]" by (auto simp: add_step_def)
    with Nil show ?thesis by (intro exI [of _ "[]"] exI [of _ None]) simp
  next
    case (Cons x xs)
    let ?p = "rz_id (last (rc_steps t))"
    let ?ss = "if ?p = [] then rc_steps t else add_child_to ?p (rz_id s) (rc_steps t)"
    have "rc_steps t \<noteq> []" using Cons by simp
    then have "rc_steps (add_step s t) = ?ss @ [s\<lparr>rz_parent := Some ?p\<rparr>]" using False by (auto simp: add_step_def Let_def)
    moreover have "length ?ss = length (rc_steps t) \<and> map rz_id ?ss = map rz_id (rc_steps t)" using add_child_same by simp
    ultimately show ?thesis by blast
  qed
qed

lemma add_step_last: "rz_confidence (last (rc_steps (add_step s t))) = rz_confidence s \<and> length (rc_steps (add_step s t)) = Suc (length (rc_steps t))"
  using add_step_appends [of s t] by auto

lemma add_step_ids: "rz_id ` set (rc_steps (add_step s t)) = insert (rz_id s) (rz_id ` set (rc_steps t))"
proof -
  obtain ss p where s: "rc_steps (add_step s t) = ss @ [s\<lparr>rz_parent := p\<rparr>]" "map rz_id ss = map rz_id (rc_steps t)"
    using add_step_appends [of s t] by blast
  have "rz_id ` set ss = rz_id ` set (rc_steps t)" using arg_cong [OF s(2), of set] by simp
  then show ?thesis unfolding s(1) by simp
qed

lemma prompt_without_context: "cot_prompt query ctx = cot_prompt query []"
  by (simp add: cot_prompt_def)

lemma cot_loop_runs:
  assumes "\<forall>g. llm = Some g \<longrightarrow> (\<forall>n p. is_ok (g n p))" and "\<forall>i. ids i \<noteq> []"
    and "inj ids" and "trace_ok t" and "\<forall>i \<ge> n. ids i \<notin> rz_id ` set (rc_steps t)" and "\<not> is_complete t"
  shows "\<exists>t'. cot_loop lower llm ids query k n ctx t = Inr (t', replicate k (cot_prompt query [])) \<and>
    length (rc_steps t') = length (rc_steps t) + k \<and> \<not> is_complete t' \<and> trace_ok t'"
  using assms
proof (induction k arbitrary: n ctx t)
  case (Suc k)
  obtain s where s: "cot_step lower llm (ids n) n (cot_prompt query []) = Inr s"
  proof (cases llm)
    case (Some g)
    with Suc.prems(1) have "is_ok (g n (cot_prompt query []))" by blast
    with Some that show thesis by (auto simp: cot_step_def is_ok_iff)
  qed (use that in \<open>simp add: cot_step_def\<close>)
  note low = confidence_low [OF s]
  have ok: "trace_ok (add_step s t)"
    using low Suc.prems(2,5) by (intro add_step_ok [OF Suc.prems(4)]) simp_all
  have nc: "\<not> is_complete (add_step s t)" using add_step_last [of s t] low by (simp add: is_complete_def)
  have fresh: "\<forall>i \<ge> n + 1. ids i \<notin> rz_id ` set (rc_steps (add_step s t))"
  proof (intro allI impI)
    fix i assume i: "n + 1 \<le> i"
    then have "ids i \<noteq> ids n" using Suc.prems(3) by (auto dest: injD)
    with Suc.prems(5) i low show "ids i \<notin> rz_id ` set (rc_steps (add_step s t))" by (simp add: add_step_ids)
  qed
  from Suc.IH [where n = "n + 1" and t = "add_step s t" and ctx = "cot_context ctx n s", OF Suc.prems(1-3) ok fresh nc]
  obtain t' where "cot_loop lower llm ids query k (n + 1) (cot_context ctx n s) (add_step s t) = Inr (t', replicate k (cot_prompt query []))"
    "length (rc_steps t') = length (rc_steps (add_step s t)) + k" "\<not> is_complete t'" "trace_ok t'" by auto
  then show ?case using nc s add_step_last [of s t] by (simp add: Let_def prompt_without_context [of query ctx])
qed simp

text \<open>
  A chain of thought always has the largest number of steps: no answer is ever confident enough to end
  it.  Each step asks the same question again, without the thoughts before it; the trace is a chain.
\<close>

theorem cot_never_completes:
  assumes "\<forall>g. llm = Some g \<longrightarrow> (\<forall>n p. is_ok (g n p))" and "\<forall>i. ids i \<noteq> []" and "inj ids"
  shows "\<exists>t. generate_with_cot lower llm ids query max_steps = Inr (t, replicate (nat max_steps) (cot_prompt query [])) \<and>
    length (rc_steps t) = nat max_steps \<and> \<not> is_complete t \<and> is_chain (rc_steps t)"
proof -
  have "trace_ok new_trace" "\<not> is_complete new_trace"
    by (simp_all add: new_trace_def trace_ok_def is_chain_def is_complete_def)
  then show ?thesis
    using cot_loop_runs [of llm ids new_trace 0 lower query "nat max_steps" "[]"] assms
    by (auto simp: generate_with_cot_def new_trace_def trace_ok_def)
qed

lemma cot_never_completes_witness:
  "\<exists>t. generate_with_cot id (Some (\<lambda>n p. Inr [72, 105])) (\<lambda>n. replicate (n + 1) (CHR ''a'')) [63] 3 =
     Inr (t, replicate 3 (cot_prompt [63] [])) \<and> length (rc_steps t) = 3"
proof -
  have "inj (\<lambda>n. replicate (n + 1) (CHR ''a''))" by (rule injI) (simp add: replicate_eq_replicate)
  then show ?thesis
    using cot_never_completes [of "Some (\<lambda>n p. Inr [72, 105])" "\<lambda>n. replicate (n + 1) (CHR ''a'')" id "[63]" 3] by force
qed

text \<open>A model that fails ends it with its exception, and the steps so far are lost.\<close>

lemma cot_model_fails: "g 0 (cot_prompt query []) = Inl e \<Longrightarrow> 0 < max_steps \<Longrightarrow> generate_with_cot lower (Some g) ids query max_steps = Inl e"
  by (cases "nat max_steps") (simp_all add: generate_with_cot_def cot_step_def Let_def)

section \<open>The tree of thoughts\<close>

lemma tot_loop_result:
  assumes "tot_loop llm evaluate branching depth root_depth queue best = Some r"
  shows "llm = None \<longrightarrow> 0 < branching \<longrightarrow> root_depth < depth \<longrightarrow> queue = []"
  using assms
proof (induction llm evaluate branching depth root_depth queue best r rule: tot_loop.raw_induct [rotated, consumes 1, case_names step])
  case (step loop llm evaluate branching depth root_depth queue best r)
  show ?case
  proof (intro impI, rule ccontr)
    assume a: "llm = None" "0 < branching" "root_depth < depth" and "queue \<noteq> []"
    then obtain node rest where q: "queue = node # rest" by (cases queue) auto
    let ?c = "map (tot_child node evaluate) (generate_candidates llm (tn_thought node) branching)"
    have "0 < length (take branching (sort_desc tn_score ?c))" using a(1,2) by (simp add: generate_candidates_def)
    then have ne: "rest @ take branching (sort_desc tn_score ?c) \<noteq> []" by (simp only: length_greater_0_conv) blast
    have "loop llm evaluate branching depth root_depth (rest @ take branching (sort_desc tn_score ?c)) (keep_best ?c best) = Some r"
      using step(2) a(3) q by (simp add: Let_def)
    from step(1) [OF this] a ne show False by blast
  qed
qed

text \<open>
  The tree search always raises.  Repaired, it would not end: without a model every thought has
  successors, and the loop waits for the depth of the root to grow.
\<close>

theorem tot_search_never_answers:
  assumes "0 < branching" and "0 < depth"
  shows "tot_search llm evaluate query branching depth = Some (Inl TypeError) \<and>
    (\<forall>rt. new_root [''thought'', ''depth''] query = Inr rt \<longrightarrow>
      tot_loop None evaluate branching depth (tn_depth rt) [rt] (rt, 0) = None)"
proof -
  have "tot_loop None evaluate branching depth 0 [rt] (rt, 0) = None" for rt
    using tot_loop_result [of None evaluate branching depth 0 "[rt]" "(rt, 0)"] assms by fastforce
  then show ?thesis by (auto simp: tot_search_def new_root_def tot_node_params_def)
qed

lemma tot_search_never_answers_witness: "tot_search None None [63] 3 5 = Some (Inl TypeError)"
  using tot_search_never_answers [of 3 5 None None "[63]"] by simp

end
