(* ===== verification/Streaming.thy ===== *)
theory Streaming
  imports Db
begin

text \<open>
  Chunking, buffering and flow control of streams: \<^verbatim>\<open>chat_service/services/streaming_optimizer.py\<close>.
\<close>

section \<open>The buffer\<close>

definition capacity :: nat where "capacity = 100"
definition watermark_high :: nat where "watermark_high = 80"
definition watermark_low :: nat where "watermark_low = 20"

definition buffer_add :: "ucs \<Rightarrow> ucs list \<Rightarrow> bool \<times> ucs list" where
  "buffer_add chunk b = (if capacity \<le> length b then (False, b) else (True, b @ [chunk]))"

definition buffer_get :: "ucs list \<Rightarrow> ucs \<times> ucs list" where
  "buffer_get b = (concat b, [])"

definition should_backpressure :: "ucs list \<Rightarrow> bool" where
  "should_backpressure b \<longleftrightarrow> watermark_high \<le> length b"

definition should_resume :: "ucs list \<Rightarrow> bool" where
  "should_resume b \<longleftrightarrow> length b \<le> watermark_low"

section \<open>The optimizer\<close>

record stream_optimizer =
  so_chunk_size :: int
  so_buffers :: "(string \<times> ucs list) list"
  so_flow :: "(string \<times> bool) list"
  so_started :: "(string \<times> time) list"
  so_total_chunks :: nat
  so_first_latency :: rat
  so_backpressure :: nat

definition new_optimizer :: "int \<Rightarrow> stream_optimizer" where
  "new_optimizer n = \<lparr>so_chunk_size = n, so_buffers = [], so_flow = [], so_started = [], so_total_chunks = 0,
     so_first_latency = 0, so_backpressure = 0\<rparr>"

text \<open>\<open>chunk[i : i + n] for i in range(0, len(chunk), n)\<close>, for a positive \<open>n\<close>.\<close>

function pieces :: "nat \<Rightarrow> 'a list \<Rightarrow> 'a list list" where
  "pieces n xs = (if n = 0 \<or> xs = [] then [] else take n xs # pieces n (drop n xs))"
  by pat_completeness auto
termination
  by (relation "measure (\<lambda>(n, xs). length xs)") auto

declare pieces.simps [simp del]

text \<open>A step of zero is refused by \<open>range\<close>, a negative one gives no piece.\<close>

definition optimize_chunk :: "ucs \<Rightarrow> stream_optimizer \<Rightarrow> (exn + ucs list) \<times> stream_optimizer" where
  "optimize_chunk chunk s =
     (if int (length chunk) \<le> so_chunk_size s then (Inr [chunk], s)
      else if so_chunk_size s = 0 then (Inl ValueError, s)
      else let cs = (if so_chunk_size s < 0 then [] else pieces (nat (so_chunk_size s)) chunk)
           in (Inr cs, s\<lparr>so_total_chunks := so_total_chunks s + length cs\<rparr>))"

text \<open>The first piece of a stream makes its buffer, and opens its flow again.\<close>

definition open_stream :: "string \<Rightarrow> time \<Rightarrow> stream_optimizer \<Rightarrow> stream_optimizer" where
  "open_stream i now s =
     (if map_of (so_buffers s) i = None then
        s\<lparr>so_buffers := AList.update i [] (so_buffers s), so_flow := AList.update i True (so_flow s),
          so_started := AList.update i now (so_started s)\<rparr>
      else s)"

definition stream_buffer :: "string \<Rightarrow> stream_optimizer \<Rightarrow> ucs list" where
  "stream_buffer i s = (case map_of (so_buffers s) i of None \<Rightarrow> [] | Some b \<Rightarrow> b)"

definition can_enqueue :: "string \<Rightarrow> ucs \<Rightarrow> time \<Rightarrow> stream_optimizer \<Rightarrow> bool \<times> stream_optimizer" where
  "can_enqueue i content now s =
     (let s1 = open_stream i now s in
      if map_of (so_flow s1) i = Some False then (False, s1\<lparr>so_backpressure := so_backpressure s1 + 1\<rparr>)
      else (case buffer_add content (stream_buffer i s1) of (ok, b) \<Rightarrow> (ok, s1\<lparr>so_buffers := AList.update i b (so_buffers s1)\<rparr>)))"

definition handle_backpressure :: "string \<Rightarrow> bool \<Rightarrow> stream_optimizer \<Rightarrow> stream_optimizer" where
  "handle_backpressure i permitted s = s\<lparr>so_flow := AList.update i permitted (so_flow s)\<rparr>"

definition flush_buffer :: "string \<Rightarrow> stream_optimizer \<Rightarrow> ucs \<times> stream_optimizer" where
  "flush_buffer i s =
     (case map_of (so_buffers s) i of
        None \<Rightarrow> ([], s)
      | Some b \<Rightarrow> (case buffer_get b of (x, b') \<Rightarrow> (x, s\<lparr>so_buffers := AList.update i b' (so_buffers s)\<rparr>)))"

definition record_first_token :: "string \<Rightarrow> time \<Rightarrow> stream_optimizer \<Rightarrow> stream_optimizer" where
  "record_first_token i now s =
     (case map_of (so_started s) i of None \<Rightarrow> s | Some t \<Rightarrow> s\<lparr>so_first_latency := (now - t) * 1000\<rparr>)"

text \<open>Tokens and errors are counters that nothing changes.\<close>

definition stream_metrics :: "stream_optimizer \<Rightarrow> nat \<times> nat \<times> rat \<times> nat \<times> nat" where
  "stream_metrics s = (so_total_chunks s, 0, so_first_latency s, 0, so_backpressure s)"

section \<open>Several streams\<close>

type_synonym stream_handler = "(string \<times> stream_optimizer) list"

definition create_stream :: "string \<Rightarrow> int \<Rightarrow> stream_handler \<Rightarrow> stream_handler" where
  "create_stream i n h = AList.update i (new_optimizer n) h"

definition get_stream :: "string \<Rightarrow> stream_handler \<Rightarrow> stream_optimizer option" where
  "get_stream i h = map_of h i"

definition coordinate_streams :: "string list \<Rightarrow> stream_handler \<Rightarrow> (string \<times> (nat \<times> nat \<times> rat \<times> nat \<times> nat)) list" where
  "coordinate_streams ids h =
     fold (\<lambda>i r. case map_of h i of None \<Rightarrow> r | Some s \<Rightarrow> AList.update i (stream_metrics s) r) ids []"

definition cancel_stream :: "string \<Rightarrow> stream_handler \<Rightarrow> stream_handler" where
  "cancel_stream i h = (case map_of h i of None \<Rightarrow> h | Some s \<Rightarrow> AList.update i (s\<lparr>so_buffers := []\<rparr>) h)"

definition all_metrics :: "stream_handler \<Rightarrow> (string \<times> (nat \<times> nat \<times> rat \<times> nat \<times> nat)) list" where
  "all_metrics h = map (\<lambda>(i, s). (i, stream_metrics s)) h"

section \<open>Pieces\<close>

lemma pieces_concat: "0 < n \<Longrightarrow> concat (pieces n xs) = xs"
  by (induction n xs rule: pieces.induct) (subst pieces.simps, simp)

lemma pieces_length: "p \<in> set (pieces n xs) \<Longrightarrow> p \<noteq> [] \<and> length p \<le> n"
proof (induction n xs rule: pieces.induct)
  case (1 n xs)
  show ?case
  proof (cases "n = 0 \<or> xs = []")
    case False
    with 1(2) have "p = take n xs \<or> p \<in> set (pieces n (drop n xs))" by (subst (asm) pieces.simps) simp
    with 1(1) [OF False] False show ?thesis by auto
  qed (use 1(2) in \<open>subst (asm) pieces.simps, simp\<close>)
qed

lemma pieces_all_full: "p \<in> set (butlast (pieces n xs)) \<Longrightarrow> length p = n"
proof (induction n xs rule: pieces.induct)
  case (1 n xs)
  show ?case
  proof (cases "n = 0 \<or> xs = []")
    case False
    then have e: "pieces n xs = take n xs # pieces n (drop n xs)" by (subst pieces.simps) simp
    show ?thesis
    proof (cases "pieces n (drop n xs) = []")
      case True
      with 1(2) e show ?thesis by simp
    next
      case ne: False
      then have "drop n xs \<noteq> []" using False by (subst (asm) pieces.simps) auto
      then have "length (take n xs) = n" by simp
      with 1(1) [OF False] 1(2) e ne show ?thesis by auto
    qed
  qed (use 1(2) in \<open>subst (asm) pieces.simps, simp\<close>)
qed

text \<open> 
  With a positive chunk size nothing is lost: the chunks make up the text again, each but the last one
  has exactly the chunk size.  A size of zero raises, and a negative one swallows the text.
\<close>

theorem chunks_make_text:
  "(case fst (optimize_chunk chunk s) of
      Inl e \<Rightarrow> e = ValueError \<and> so_chunk_size s = 0 \<and> chunk \<noteq> []
    | Inr cs \<Rightarrow> if so_chunk_size s < 0 then cs = []
        else concat cs = chunk \<and> list_all (\<lambda>c. int (length c) \<le> so_chunk_size s) cs \<and>
          list_all (\<lambda>c. int (length c) = so_chunk_size s) (butlast cs))"
proof -
  have c: "list_all (\<lambda>c. int (length c) \<le> so_chunk_size s) (pieces (nat (so_chunk_size s)) chunk)"
    if "0 < so_chunk_size s" using that pieces_length [of _ "nat (so_chunk_size s)" chunk] by (auto simp: list_all_iff le_nat_iff)
  have f: "list_all (\<lambda>c. int (length c) = so_chunk_size s) (butlast (pieces (nat (so_chunk_size s)) chunk))"
    if "0 < so_chunk_size s" using that pieces_all_full [of _ "nat (so_chunk_size s)" chunk] by (auto simp: list_all_iff)
  show ?thesis
    using c f by (cases chunk) (auto simp: optimize_chunk_def Let_def pieces_concat)
qed

section \<open>What a stream delivers\<close>

datatype stream_call = Enqueue string ucs time | Pressure string bool | Flush string | FirstToken string time

text \<open>A run of calls: for one stream what was accepted and what its flushes gave, and the state after.\<close>

fun run_stream :: "string \<Rightarrow> stream_call list \<Rightarrow> stream_optimizer \<Rightarrow> ucs list \<times> ucs list \<times> stream_optimizer" where
  "run_stream j [] s = ([], [], s)"
| "run_stream j (Enqueue i c now # cs) s =
     (case can_enqueue i c now s of (ok, s1) \<Rightarrow> (case run_stream j cs s1 of (acc, out, s2) \<Rightarrow> (if ok \<and> i = j then c # acc else acc, out, s2)))"
| "run_stream j (Pressure i p # cs) s = run_stream j cs (handle_backpressure i p s)"
| "run_stream j (Flush i # cs) s =
     (case flush_buffer i s of (x, s1) \<Rightarrow> (case run_stream j cs s1 of (acc, out, s2) \<Rightarrow> (acc, if i = j then x # out else out, s2)))"
| "run_stream j (FirstToken i now # cs) s = run_stream j cs (record_first_token i now s)"

lemma buffer_after_open [simp]: "stream_buffer j (open_stream i now s) = stream_buffer j s"
  by (auto simp: stream_buffer_def open_stream_def split: option.split)

lemma buffer_after_enqueue:
  "can_enqueue i c now s = (ok, s1) \<Longrightarrow>
   stream_buffer j s1 = (if ok \<and> i = j then stream_buffer j s @ [c] else stream_buffer j s) \<and>
   (ok \<longrightarrow> length (stream_buffer i s) < capacity)"
  by (auto simp: can_enqueue_def Let_def buffer_add_def split: if_splits)
    (auto simp: stream_buffer_def open_stream_def split: if_splits option.splits)

lemma buffer_after_flush:
  "flush_buffer i s = (x, s1) \<Longrightarrow> stream_buffer j s1 = (if i = j then [] else stream_buffer j s) \<and> (i = j \<longrightarrow> x = concat (stream_buffer j s))"
  by (auto simp: flush_buffer_def buffer_get_def stream_buffer_def split: option.splits)

lemma buffer_unchanged [simp]:
  "stream_buffer j (handle_backpressure i p s) = stream_buffer j s"
  "stream_buffer j (record_first_token i now s) = stream_buffer j s"
  by (simp_all add: stream_buffer_def handle_backpressure_def record_first_token_def split: option.split)

lemma run_stream_delivers:
  "run_stream j cs s = (acc, out, s') \<Longrightarrow> length (stream_buffer j s) \<le> capacity \<Longrightarrow>
   concat out @ concat (stream_buffer j s') = concat (stream_buffer j s) @ concat acc \<and> length (stream_buffer j s') \<le> capacity"
proof (induction j cs s arbitrary: acc out s' rule: run_stream.induct)
  case (2 j i c now cs s)
  obtain ok s1 where e: "can_enqueue i c now s = (ok, s1)" by fastforce
  obtain acc1 out1 s2 where r: "run_stream j cs s1 = (acc1, out1, s2)" by (metis prod_cases3)
  note b = buffer_after_enqueue [OF e, of j]
  have "length (stream_buffer j s1) \<le> capacity" using b 2(3) by (cases "ok \<and> i = j") auto
  from 2(1) [OF e [symmetric] r this] b e r 2(2) show ?case by (cases "ok \<and> i = j") auto
next
  case (4 j i cs s)
  obtain x s1 where e: "flush_buffer i s = (x, s1)" by fastforce
  obtain acc1 out1 s2 where r: "run_stream j cs s1 = (acc1, out1, s2)" by (metis prod_cases3)
  note b = buffer_after_flush [OF e, of j]
  have "length (stream_buffer j s1) \<le> capacity" using b 4(3) by (cases "i = j") auto
  from 4(1) [OF e [symmetric] r this] b e r 4(2) show ?case by (cases "i = j") auto
qed simp_all

text \<open>C36:  
  A stream delivers what it accepted, in order and once: its flushes and what is still buffered make up
  the accepted contents, whatever happens on other streams and however often the client holds the flow;
  the buffer never exceeds its capacity.
\<close>

theorem streams_deliver_in_order:
  assumes "run_stream j cs (new_optimizer n) = (acc, out, s)"
  shows "concat out @ concat (stream_buffer j s) = concat acc \<and> length (stream_buffer j s) \<le> 100"
  using run_stream_delivers [OF assms] by (simp add: stream_buffer_def new_optimizer_def capacity_def)

lemma streams_deliver_in_order_witness:
  "\<exists>acc out s. run_stream ''a'' [Enqueue ''a'' [72] 1, Enqueue ''b'' [66] 1, Pressure ''a'' False, Enqueue ''a'' [73] 2, Flush ''a''] (new_optimizer 64)
     = (acc, out, s) \<and> concat out @ concat (stream_buffer ''a'' s) = concat acc \<and> acc = [[72]]"
proof -
  let ?r = "run_stream ''a'' [Enqueue ''a'' [72] 1, Enqueue ''b'' [66] 1, Pressure ''a'' False, Enqueue ''a'' [73] 2, Flush ''a''] (new_optimizer 64)"
  obtain acc out s where r: "?r = (acc, out, s)" by (metis prod_cases3)
  have a: "acc = [[72]]"
    using r by (simp add: can_enqueue_def open_stream_def new_optimizer_def buffer_add_def stream_buffer_def capacity_def
        handle_backpressure_def flush_buffer_def buffer_get_def Let_def)
  from streams_deliver_in_order [OF r] a r show ?thesis by blast
qed

text \<open>
  Flow control is lost on a stream without a buffer: holding it before its first piece, or after it was
  cancelled, has no effect.
\<close>

theorem early_hold_ignored:
  assumes "map_of (so_buffers s) i = None"
  shows "fst (can_enqueue i c now (handle_backpressure i False s)) \<and>
    fst (can_enqueue i c now (handle_backpressure i False (the (get_stream i (cancel_stream i [(i, s)])))))"
  using assms by (simp add: can_enqueue_def open_stream_def handle_backpressure_def stream_buffer_def buffer_add_def capacity_def Let_def
      cancel_stream_def get_stream_def)

lemma early_hold_ignored_witness: "fst (can_enqueue ''a'' [72] 1 (handle_backpressure ''a'' False (new_optimizer 64)))"
  using early_hold_ignored [of "new_optimizer 64" "''a''" "[72]" 1] by (simp add: new_optimizer_def)

end
