(* ===== verification/Marketplace.thy ===== *)
theory Marketplace
  imports Db Digest
begin

text \<open>
  The API marketplace for third parties: \<^verbatim>\<open>shared/api_marketplace.py\<close>.  Identifiers, the random part of a
  key and the clock are arguments.
\<close>

section \<open>Developers and keys\<close>

datatype api_key_status = KeyActive | KeySuspended | KeyExpired
datatype plan_tier = FREE | STARTER | PROFESSIONAL | ENTERPRISE

record developer =
  dv_id :: string
  dv_email :: string
  dv_name :: string
  dv_company :: "string option"

record api_key =
  ak_id :: string
  ak_developer :: string
  ak_hash :: string
  ak_name :: string
  ak_status :: api_key_status
  ak_tier :: plan_tier
  ak_rate_limit :: int
  ak_monthly_quota :: int
  ak_usage :: nat
  ak_expires :: "time option"
  ak_last_used :: "time option"

record key_usage =
  us_key :: string
  us_endpoint :: string
  us_method :: string
  us_code :: int
  us_tokens :: int
  us_latency :: int
  us_time :: time

record marketplace =
  mk_developers :: "(string \<times> developer) list"
  mk_keys :: "(string \<times> api_key) list"
  mk_usage :: "key_usage list"

definition new_marketplace :: marketplace where
  "new_marketplace = \<lparr>mk_developers = [], mk_keys = [], mk_usage = []\<rparr>"

definition register_developer :: "string \<Rightarrow> string \<Rightarrow> string option \<Rightarrow> string \<Rightarrow> marketplace \<Rightarrow> developer \<times> marketplace" where
  "register_developer email name company new_id m =
     (let d = \<lparr>dv_id = new_id, dv_email = email, dv_name = name, dv_company = company\<rparr>
      in (d, m\<lparr>mk_developers := AList.update new_id d (mk_developers m)\<rparr>))"

text \<open>The developer need not exist.\<close>

definition generate_api_key ::
  "string \<Rightarrow> string \<Rightarrow> plan_tier \<Rightarrow> int \<Rightarrow> int \<Rightarrow> string \<Rightarrow> string \<Rightarrow> marketplace \<Rightarrow> (api_key \<times> string) \<times> marketplace" where
  "generate_api_key developer name tier rate_limit quota new_id token m =
     (let raw = ''sk_'' @ token;
          k = \<lparr>ak_id = new_id, ak_developer = developer, ak_hash = sha256_hex raw, ak_name = name, ak_status = KeyActive, ak_tier = tier,
               ak_rate_limit = rate_limit, ak_monthly_quota = quota, ak_usage = 0, ak_expires = None, ak_last_used = None\<rparr>
      in ((k, raw), m\<lparr>mk_keys := AList.update new_id k (mk_keys m)\<rparr>))"

definition verify_api_key :: "string \<Rightarrow> time \<Rightarrow> marketplace \<Rightarrow> api_key option \<times> marketplace" where
  "verify_api_key raw now m =
     (case find (\<lambda>(i, k). ak_hash k = sha256_hex raw) (mk_keys m) of
        None \<Rightarrow> (None, m)
      | Some (i, k) \<Rightarrow>
          if ak_status k = KeyActive then
            (if (case ak_expires k of None \<Rightarrow> False | Some e \<Rightarrow> e < now)
             then (None, m\<lparr>mk_keys := AList.update i (k\<lparr>ak_status := KeyExpired\<rparr>) (mk_keys m)\<rparr>)
             else (Some k, m))
          else (None, m))"

definition record_key_usage :: "string \<Rightarrow> key_usage \<Rightarrow> time \<Rightarrow> marketplace \<Rightarrow> marketplace" where
  "record_key_usage i r now m =
     m\<lparr>mk_keys := (case map_of (mk_keys m) i of None \<Rightarrow> mk_keys m
         | Some k \<Rightarrow> AList.update i (k\<lparr>ak_usage := ak_usage k + 1, ak_last_used := Some now\<rparr>) (mk_keys m)),
       mk_usage := mk_usage m @ [r]\<rparr>"

definition check_key_rate_limit :: "api_key \<Rightarrow> time \<Rightarrow> marketplace \<Rightarrow> bool" where
  "check_key_rate_limit k now m \<longleftrightarrow>
     int (length (filter (\<lambda>r. us_key r = ak_id k \<and> now - 60 < us_time r) (mk_usage m))) < ak_rate_limit k"

definition aggregate_by_endpoint :: "key_usage list \<Rightarrow> (string \<times> nat) list" where
  "aggregate_by_endpoint rs = fold (\<lambda>r d. AList.update (us_endpoint r) ((case map_of d (us_endpoint r) of None \<Rightarrow> 0 | Some n \<Rightarrow> n) + 1) d) rs []"

record usage_summary =
  um_requests :: nat
  um_tokens :: int
  um_latency :: rat
  um_endpoints :: "(string \<times> nat) list"

definition get_usage_summary :: "string \<Rightarrow> time option \<Rightarrow> time option \<Rightarrow> marketplace \<Rightarrow> usage_summary" where
  "get_usage_summary i start stop m =
     (let r0 = filter (\<lambda>r. us_key r = i) (mk_usage m);
          r1 = (case start of None \<Rightarrow> r0 | Some s \<Rightarrow> filter (\<lambda>r. s \<le> us_time r) r0);
          r2 = (case stop of None \<Rightarrow> r1 | Some e \<Rightarrow> filter (\<lambda>r. us_time r \<le> e) r1)
      in \<lparr>um_requests = length r2, um_tokens = sum_list (map us_tokens r2),
          um_latency = (if r2 = [] then 0 else of_int (sum_list (map us_latency r2)) / of_nat (length r2)),
          um_endpoints = aggregate_by_endpoint r2\<rparr>)"

definition revoke_api_key :: "string \<Rightarrow> marketplace \<Rightarrow> bool \<times> marketplace" where
  "revoke_api_key i m =
     (case map_of (mk_keys m) i of
        None \<Rightarrow> (False, m)
      | Some k \<Rightarrow> (True, m\<lparr>mk_keys := AList.update i (k\<lparr>ak_status := KeySuspended\<rparr>) (mk_keys m)\<rparr>))"

section \<open>Keys\<close>

text \<open>The operations, with new identifiers for new keys.\<close>

inductive market_step :: "marketplace \<Rightarrow> marketplace \<Rightarrow> bool" where
  developer: "market_step m (snd (register_developer email name company i m))"
| generate: "map_of (mk_keys m) i = None \<Longrightarrow> market_step m (snd (generate_api_key d name tier rate quota i token m))"
| verify: "market_step m (snd (verify_api_key raw now m))"
| usage: "market_step m (record_key_usage i r now m)"
| revoke: "market_step m (snd (revoke_api_key i m))"

text \<open>The first key of a hash is out: it is there and not active.\<close>

definition hash_out :: "string \<Rightarrow> (string \<times> api_key) list \<Rightarrow> bool" where
  "hash_out h d \<longleftrightarrow> distinct (map fst d) \<and> (case find (\<lambda>(i, k). ak_hash k = h) d of None \<Rightarrow> False | Some (i, k) \<Rightarrow> ak_status k \<noteq> KeyActive)"

lemma find_update_same_hash:
  "distinct (map fst d) \<Longrightarrow> map_of d i = Some k \<Longrightarrow> ak_hash k' = ak_hash k \<Longrightarrow>
   find (\<lambda>(i, k). ak_hash k = h) (AList.update i k' d) =
     (case find (\<lambda>(i, k). ak_hash k = h) d of None \<Rightarrow> None | Some (j, x) \<Rightarrow> Some (j, if j = i then k' else x))"
proof (induction d)
  case (Cons e d)
  obtain j x where e: "e = (j, x)" by (cases e)
  show ?case
  proof (cases "j = i")
    case True
    with Cons.prems e have x: "x = k" and ni: "i \<notin> fst ` set d" by auto
    show ?thesis
    proof (cases "ak_hash k = h")
      case False
      have "(case find (\<lambda>(i, k). ak_hash k = h) d of None \<Rightarrow> None | Some (j, x) \<Rightarrow> Some (j, if j = i then k' else x)) =
        find (\<lambda>(i, k). ak_hash k = h) d"
        using ni find_SomeD [of "\<lambda>(i, k). ak_hash k = h" d] by (force split: option.split)
      with True e x Cons.prems(3) False show ?thesis by simp
    qed (use True e x Cons.prems(3) in simp)
  next
    case False
    with Cons e show ?thesis by (cases "ak_hash x = h") simp_all
  qed
qed simp

lemma find_update_new:
  "map_of d i = None \<Longrightarrow> find p (AList.update i k d) = (case find p d of None \<Rightarrow> if p (i, k) then Some (i, k) else None | Some x \<Rightarrow> Some x)"
  by (induction d) auto

lemma hash_out_update:
  assumes "hash_out h d" and "map_of d i = Some k" and "ak_hash k' = ak_hash k" and "ak_status k \<noteq> KeyActive \<Longrightarrow> ak_status k' \<noteq> KeyActive"
  shows "hash_out h (AList.update i k' d)"
proof -
  have d: "distinct (map fst d)" using assms(1) by (simp add: hash_out_def)
  obtain j x where f: "find (\<lambda>(i, k). ak_hash k = h) d = Some (j, x)" "ak_status x \<noteq> KeyActive"
    using assms(1) by (auto simp: hash_out_def split: option.splits)
  from find_SomeD [OF f(1)] have "(j, x) \<in> set d" by simp
  then have "j = i \<Longrightarrow> x = k" using d assms(2) by (auto dest: map_of_is_SomeI)
  with f assms(4) d show ?thesis
    by (auto simp: hash_out_def distinct_update find_update_same_hash [OF d assms(2,3)])
qed

lemma hash_out_step: "hash_out h (mk_keys (m :: marketplace)) \<Longrightarrow> market_step m m' \<Longrightarrow> hash_out h (mk_keys m')"
proof (erule market_step.cases; hypsubst?)
  fix m :: marketplace and i d name tier rate quota token
  assume o: "hash_out h (mk_keys m)" and n: "map_of (mk_keys m) i = None"
  then show "hash_out h (mk_keys (snd (generate_api_key d name tier rate quota i token m)))"
    by (auto simp: generate_api_key_def Let_def hash_out_def distinct_update find_update_new [OF n] split: option.splits)
next
  fix m :: marketplace and raw now
  assume o: "hash_out h (mk_keys m)"
  show "hash_out h (mk_keys (snd (verify_api_key raw now m)))"
  proof (cases "find (\<lambda>(i, k). ak_hash k = sha256_hex raw) (mk_keys m)")
    case (Some ik)
    obtain i k where ik: "ik = (i, k)" "(i, k) \<in> set (mk_keys m)" using find_SomeD [OF Some] by (cases ik) auto
    then have "map_of (mk_keys m) i = Some k" using o by (auto simp: hash_out_def)
    from hash_out_update [OF o this, of "k\<lparr>ak_status := KeyExpired\<rparr>"] o Some ik show ?thesis
      by (simp add: verify_api_key_def)
  qed (use o in \<open>simp add: verify_api_key_def\<close>)
next
  fix m :: marketplace and i r now
  assume o: "hash_out h (mk_keys m)"
  show "hash_out h (mk_keys (record_key_usage i r now m))"
    using hash_out_update [OF o] o by (auto simp: record_key_usage_def split: option.split)
next
  fix m :: marketplace and i
  assume o: "hash_out h (mk_keys m)"
  show "hash_out h (mk_keys (snd (revoke_api_key i m)))"
    using hash_out_update [OF o] o by (auto simp: revoke_api_key_def split: option.split)
qed (simp add: register_developer_def Let_def)

lemma verify_out: "hash_out (sha256_hex raw) (mk_keys m) \<Longrightarrow> fst (verify_api_key raw now m) = None"
  by (auto simp: hash_out_def verify_api_key_def split: option.splits)

interpretation outs: invariant_system "\<lambda>m. hash_out h (mk_keys m)" market_step "\<lambda>m. hash_out h (mk_keys m)" for h
  by unfold_locales (auto intro: hash_out_step)

text \<open>Every key is filed once, under its own identifier.\<close>

definition keys_filed :: "marketplace \<Rightarrow> bool" where
  "keys_filed m \<longleftrightarrow> distinct (map fst (mk_keys m)) \<and> (\<forall>(i, k) \<in> set (mk_keys m). ak_id k = i)"

lemma keys_filed_update: "keys_filed m \<Longrightarrow> ak_id k = i \<Longrightarrow> keys_filed (m\<lparr>mk_keys := AList.update i k (mk_keys m)\<rparr>)"
proof -
  have "x \<in> set (AList.update i k d) \<Longrightarrow> x = (i, k) \<or> x \<in> set d" for x and d :: "(string \<times> api_key) list"
    by (induction d) (auto split: if_splits)
  then show "keys_filed m \<Longrightarrow> ak_id k = i \<Longrightarrow> ?thesis" by (fastforce simp: keys_filed_def distinct_update)
qed

lemma keys_filed_lookup: "keys_filed m \<Longrightarrow> map_of (mk_keys m) i = Some k \<Longrightarrow> ak_id k = i"
  by (auto simp: keys_filed_def dest: map_of_SomeD)

lemma keys_filed_step: "keys_filed m \<Longrightarrow> market_step m m' \<Longrightarrow> keys_filed m'"
proof (erule market_step.cases; hypsubst?)
  fix m :: marketplace and i d name tier rate quota token
  assume "keys_filed m"
  then show "keys_filed (snd (generate_api_key d name tier rate quota i token m))"
    by (simp add: generate_api_key_def Let_def keys_filed_update)
next
  fix m :: marketplace and raw now
  assume f: "keys_filed m"
  show "keys_filed (snd (verify_api_key raw now m))"
  proof (cases "find (\<lambda>(i, k). ak_hash k = sha256_hex raw) (mk_keys m)")
    case (Some ik)
    obtain i k where ik: "ik = (i, k)" "(i, k) \<in> set (mk_keys m)" using find_SomeD [OF Some] by (cases ik) auto
    then have "ak_id k = i" using f by (auto simp: keys_filed_def)
    with f Some ik show ?thesis by (simp add: verify_api_key_def keys_filed_update)
  qed (use f in \<open>simp add: verify_api_key_def\<close>)
next
  fix m :: marketplace and i r now
  assume f: "keys_filed m"
  show "keys_filed (record_key_usage i r now m)"
  proof (cases "map_of (mk_keys m) i")
    case (Some k)
    from keys_filed_update [OF f, of "k\<lparr>ak_usage := ak_usage k + 1, ak_last_used := Some now\<rparr>" i] keys_filed_lookup [OF f Some] Some
    show ?thesis by (simp add: record_key_usage_def keys_filed_def)
  qed (use f in \<open>simp add: record_key_usage_def keys_filed_def\<close>)
next
  fix m :: marketplace and i
  assume f: "keys_filed m"
  then show "keys_filed (snd (revoke_api_key i m))"
    using keys_filed_lookup [OF f] by (auto simp: revoke_api_key_def keys_filed_update split: option.split)
qed (simp_all add: register_developer_def Let_def keys_filed_def)

interpretation filed: invariant_system "\<lambda>m. m = new_marketplace" market_step keys_filed
  by unfold_locales (simp add: new_marketplace_def keys_filed_def, rule keys_filed_step)

text \<open>C37:  
  A revoked key never gets in again: whatever is done afterwards, and even if the same key should be
  generated anew.
\<close>

theorem revoked_key_stays_out:
  assumes "reach (\<lambda>m. m = new_marketplace) market_step m" and "fst (verify_api_key raw now m) = Some k"
    and "market_step\<^sup>*\<^sup>* (snd (revoke_api_key (ak_id k) m)) m'"
  shows "fst (verify_api_key raw now' m') = None"
proof -
  have f: "keys_filed m" using filed.reach_inv [OF assms(1)] .
  then have d: "distinct (map fst (mk_keys m))" by (simp add: keys_filed_def)
  obtain i where i: "find (\<lambda>(i, k). ak_hash k = sha256_hex raw) (mk_keys m) = Some (i, k)"
    using assms(2) by (auto simp: verify_api_key_def split: option.splits if_splits)
  with find_SomeD [OF i] have "(i, k) \<in> set (mk_keys m)" by simp
  with f have k: "ak_id k = i" "map_of (mk_keys m) i = Some k" by (auto simp: keys_filed_def)
  have "hash_out (sha256_hex raw) (mk_keys (snd (revoke_api_key (ak_id k) m)))"
    using d i k by (simp add: revoke_api_key_def hash_out_def distinct_update
        find_update_same_hash [OF d k(2), of "k\<lparr>ak_status := KeySuspended\<rparr>"])
  from outs.steps_inv [OF assms(3) this] show ?thesis by (rule verify_out)
qed

definition demo_market :: marketplace where
  "demo_market = snd (generate_api_key ''dev'' ''app'' FREE 2 1000 ''k1'' ''secret'' new_marketplace)"

lemma demo_market_reached: "reach (\<lambda>m. m = new_marketplace) market_step demo_market"
proof -
  have "reach (\<lambda>m. m = new_marketplace) market_step new_marketplace" by (rule reach_init) simp
  moreover have "market_step new_marketplace demo_market"
    unfolding demo_market_def by (rule market_step.generate) (simp add: new_marketplace_def)
  ultimately show ?thesis by (rule reach_step)
qed

lemma demo_key: "fst (verify_api_key ''sk_secret'' 0 demo_market) = Some (snd (hd (mk_keys demo_market)))"
  by (simp add: demo_market_def generate_api_key_def new_marketplace_def verify_api_key_def Let_def)

lemma revoked_key_stays_out_witness:
  "fst (verify_api_key ''sk_secret'' 9 (snd (generate_api_key ''dev'' ''app'' FREE 2 1000 ''k2'' ''secret'' (snd (revoke_api_key ''k1'' demo_market))))) = None"
proof -
  let ?r = "snd (revoke_api_key ''k1'' demo_market)"
  have "market_step ?r (snd (generate_api_key ''dev'' ''app'' FREE 2 1000 ''k2'' ''secret'' ?r))"
    by (rule market_step.generate)
      (simp add: demo_market_def generate_api_key_def new_marketplace_def revoke_api_key_def Let_def)
  moreover have "ak_id (snd (hd (mk_keys demo_market))) = ''k1''"
    by (simp add: demo_market_def generate_api_key_def new_marketplace_def Let_def)
  ultimately show ?thesis
    using revoked_key_stays_out [OF demo_market_reached demo_key, of "snd (generate_api_key ''dev'' ''app'' FREE 2 1000 ''k2'' ''secret'' ?r)" 9]
    by (simp add: r_into_rtranclp)
qed

text \<open>A new key gets in, unless one with the same hash was there before.\<close>

lemma generated_key_verifies:
  "\<forall>(j, k) \<in> set (mk_keys m). ak_hash k \<noteq> sha256_hex (''sk_'' @ token) \<Longrightarrow> map_of (mk_keys m) i = None \<Longrightarrow>
   fst (verify_api_key (''sk_'' @ token) now (snd (generate_api_key d name tier rate quota i token m))) =
     Some (fst (fst (generate_api_key d name tier rate quota i token m)))"
  by (auto simp: verify_api_key_def generate_api_key_def Let_def find_update_new find_None_iff split: option.split dest: find_SomeD)

section \<open>Rate limit and usage\<close>

text \<open>
  The check counts the uses recorded in the last minute and records none itself: what a key may use in a
  minute depends on what the callers record, and when.  The monthly quota plays no part in it.
\<close>

lemma quota_ignored: "check_key_rate_limit (k\<lparr>ak_monthly_quota := q\<rparr>) now m = check_key_rate_limit k now m"
  by (simp add: check_key_rate_limit_def)

text \<open>The counts by endpoint add up to the requests.\<close>

lemma endpoint_counts: "sum_list (map snd (aggregate_by_endpoint rs)) = length rs"
proof -
  have u: "distinct (map fst d) \<Longrightarrow> sum_list (map snd (AList.update i ((case map_of d i of None \<Rightarrow> 0 | Some n \<Rightarrow> n) + 1) d)) =
      sum_list (map snd d) + (1 :: nat)" for i and d :: "(string \<times> nat) list"
  proof (induction d)
    case (Cons e d)
    then show ?case by (cases e) auto
  qed simp
  have "distinct (map fst d) \<Longrightarrow> sum_list (map snd (fold (\<lambda>r d. AList.update (us_endpoint r)
      ((case map_of d (us_endpoint r) of None \<Rightarrow> 0 | Some n \<Rightarrow> n) + 1) d) rs d)) = sum_list (map snd d) + length rs" for d :: "(string \<times> nat) list"
  proof (induction rs arbitrary: d)
    case (Cons r rs)
    then show ?case using u [OF Cons.prems, of "us_endpoint r"] by (simp add: distinct_update)
  qed simp
  from this [of "[]"] show ?thesis by (simp add: aggregate_by_endpoint_def)
qed

lemma summary_endpoints_add_up: "sum_list (map snd (um_endpoints (get_usage_summary i start stop m))) = um_requests (get_usage_summary i start stop m)"
  by (simp add: get_usage_summary_def Let_def endpoint_counts)

end
