(* ===== verification/Success.thy ===== *)
theory Success
  imports Prelude
begin

text \<open>
  Customer success: health scores, risks and interventions of \<^verbatim>\<open>shared/customer_success.py\<close>.
\<close>

section \<open>Scores\<close>

datatype health_level = Healthy | At_risk | Unhealthy
datatype risk_type = DECLINING_USAGE | NEGATIVE_SENTIMENT | SUPPORT_ESCALATION | NON_RENEWAL

record health_metrics =
  hm_login :: rat
  hm_volume :: rat
  hm_adoption :: rat
  hm_self_service :: rat
  hm_sentiment :: rat
  hm_tickets :: nat
  hm_nps :: "int option"

definition usage_score :: "health_metrics \<Rightarrow> rat" where
  "usage_score m = (min (hm_login m / 20) 1 + min (hm_volume m / 100) 1) / 2"

definition engagement_score :: "health_metrics \<Rightarrow> rat" where
  "engagement_score m = (hm_adoption m + hm_self_service m) / 2"

definition sentiment_score :: "health_metrics \<Rightarrow> rat" where
  "sentiment_score m =
     ((case hm_nps m of Some n \<Rightarrow> (of_int n + 1) / 10 | None \<Rightarrow> hm_sentiment m) + (1 - min (of_nat (hm_tickets m) / 10) 1)) / 2"

definition calculate_score :: "health_metrics \<Rightarrow> rat" where
  "calculate_score m = usage_score m * (25 / 100) + engagement_score m * (35 / 100) + sentiment_score m * (40 / 100)"

definition determine_level :: "rat \<Rightarrow> health_level" where
  "determine_level s = (if 7 / 10 \<le> s then Healthy else if 4 / 10 \<le> s then At_risk else Unhealthy)"

text \<open>\<open>(nps_score or 10) < 5\<close>: a score of zero counts as ten.\<close>

definition detect_risks :: "health_metrics \<Rightarrow> health_metrics list \<Rightarrow> risk_type list" where
  "detect_risks m historical =
     (if 3 \<le> length historical \<and> hm_volume m < sum_list (map hm_volume (last_n 3 historical)) / 3 * (5 / 10) then [DECLINING_USAGE] else []) @
     (if hm_sentiment m < 3 / 10 \<or> (case hm_nps m of None \<Rightarrow> 10 | Some n \<Rightarrow> if n = 0 then 10 else n) < 5 then [NEGATIVE_SENTIMENT] else []) @
     (if 5 < hm_tickets m then [SUPPORT_ESCALATION] else [])"

section \<open>Interventions\<close>

record intervention =
  iv_tenant :: string
  iv_kind :: string
  iv_risk :: risk_type
  iv_pending :: bool

record customer_health =
  ch_tenant :: string
  ch_score :: rat
  ch_level :: health_level
  ch_risks :: "risk_type list"
  ch_metrics :: health_metrics

record success_service =
  ss_cache :: "(string \<times> customer_health) list"
  ss_interventions :: "(string \<times> intervention list) list"

definition new_success :: success_service where
  "new_success = \<lparr>ss_cache = [], ss_interventions = []\<rparr>"

definition interventions_of :: "string \<Rightarrow> success_service \<Rightarrow> intervention list" where
  "interventions_of t s = (case map_of (ss_interventions s) t of None \<Rightarrow> [] | Some is \<Rightarrow> is)"

definition trigger_intervention :: "string \<Rightarrow> string \<Rightarrow> risk_type \<Rightarrow> success_service \<Rightarrow> success_service" where
  "trigger_intervention t kind risk s =
     s\<lparr>ss_interventions := AList.update t
         (interventions_of t s @ [\<lparr>iv_tenant = t, iv_kind = kind, iv_risk = risk, iv_pending = True\<rparr>]) (ss_interventions s)\<rparr>"

definition get_pending :: "string \<Rightarrow> success_service \<Rightarrow> intervention list" where
  "get_pending t s = filter iv_pending (interventions_of t s)"

definition trigger_interventions :: "string \<Rightarrow> risk_type \<Rightarrow> success_service \<Rightarrow> success_service" where
  "trigger_interventions t risk s =
     (case risk of
        DECLINING_USAGE \<Rightarrow> trigger_intervention t ''re_engage_email'' risk s
      | NEGATIVE_SENTIMENT \<Rightarrow> trigger_intervention t ''success_manager_alert'' risk s
      | SUPPORT_ESCALATION \<Rightarrow> trigger_intervention t ''priority_support'' risk s
      | NON_RENEWAL \<Rightarrow> s)"

definition historical_metrics :: "string \<Rightarrow> health_metrics list" where
  "historical_metrics t = []"

definition calculate_health :: "string \<Rightarrow> health_metrics \<Rightarrow> success_service \<Rightarrow> customer_health \<times> success_service" where
  "calculate_health t m s =
     (let score = calculate_score m; risks = detect_risks m (historical_metrics t);
          h = \<lparr>ch_tenant = t, ch_score = score, ch_level = determine_level score, ch_risks = risks, ch_metrics = m\<rparr>
      in (h, fold (trigger_interventions t) risks (s\<lparr>ss_cache := AList.update t h (ss_cache s)\<rparr>)))"

section \<open>Properties\<close>

definition in_range :: "health_metrics \<Rightarrow> bool" where
  "in_range m \<longleftrightarrow> 0 \<le> hm_login m \<and> 0 \<le> hm_volume m \<and> 0 \<le> hm_adoption m \<and> hm_adoption m \<le> 1 \<and>
     0 \<le> hm_self_service m \<and> hm_self_service m \<le> 1 \<and> 0 \<le> hm_sentiment m \<and> hm_sentiment m \<le> 1"

text \<open>
  A score lies between 0 and 1 when the net promoter score is not given or is on a scale from -1 to 9;
  on its usual scale, up to 100, the score is unbounded by 1, and any tenant is healthy.
\<close>

lemma mean_bounds: "0 \<le> a \<and> a \<le> 1 \<Longrightarrow> 0 \<le> b \<and> b \<le> 1 \<Longrightarrow> 0 \<le> (a + b) / 2 \<and> (a + b) / 2 \<le> (1 :: rat)"
  by simp

theorem health_score_bounds:
  assumes "in_range m"
  shows "(case hm_nps m of None \<Rightarrow> True | Some n \<Rightarrow> -1 \<le> n \<and> n \<le> 9) \<longrightarrow> 0 \<le> calculate_score m \<and> calculate_score m \<le> 1"
    (is "?nps \<longrightarrow> ?goal")
proof
  assume n: ?nps
  have u: "0 \<le> usage_score m \<and> usage_score m \<le> 1" using assms by (simp add: in_range_def usage_score_def min_def)
  have e: "0 \<le> engagement_score m \<and> engagement_score m \<le> 1" using assms by (simp add: in_range_def engagement_score_def)
  have x: "0 \<le> (case hm_nps m of Some n \<Rightarrow> (of_int n + 1) / 10 | None \<Rightarrow> hm_sentiment m) \<and>
      (case hm_nps m of Some n \<Rightarrow> (of_int n + 1) / 10 | None \<Rightarrow> hm_sentiment m) \<le> (1 :: rat)"
  proof (cases "hm_nps m")
    case (Some k)
    with n have "(-1 :: rat) \<le> of_int k" "(of_int k :: rat) \<le> 9" by (simp_all flip: of_int_minus)
    with Some show ?thesis by simp
  qed (use assms in \<open>simp add: in_range_def\<close>)
  have t: "0 \<le> 1 - min (of_nat (hm_tickets m) / 10) (1 :: rat) \<and> 1 - min (of_nat (hm_tickets m) / 10) (1 :: rat) \<le> 1" by simp
  have "0 \<le> sentiment_score m \<and> sentiment_score m \<le> 1"
    unfolding sentiment_score_def by (rule mean_bounds [OF x t])
  with u e show ?goal unfolding calculate_score_def by (simp add: field_simps)
qed

definition demo_metrics :: health_metrics where
  "demo_metrics = \<lparr>hm_login = 10, hm_volume = 50, hm_adoption = 1 / 2, hm_self_service = 1 / 2, hm_sentiment = 1 / 2, hm_tickets = 6, hm_nps = None\<rparr>"

lemma health_score_bounds_witness: "0 \<le> calculate_score demo_metrics \<and> calculate_score demo_metrics \<le> 1"
  using health_score_bounds [of demo_metrics] by (simp add: in_range_def demo_metrics_def)

lemma high_nps_always_healthy:
  assumes "in_range m" and "hm_nps m = Some n" and "34 \<le> n"
  shows "determine_level (calculate_score m) = Healthy"
proof -
  have u: "0 \<le> usage_score m" "0 \<le> engagement_score m"
    using assms(1) by (simp_all add: in_range_def usage_score_def engagement_score_def min_def)
  define q :: rat where "q = min (of_nat (hm_tickets m) / 10) 1"
  have "(34 :: rat) \<le> of_int n" using assms(3) by simp
  moreover have "q \<le> 1" by (simp add: q_def)
  moreover have "sentiment_score m = ((of_int n + 1) / 10 + (1 - q)) / 2" using assms(2) by (simp add: sentiment_score_def q_def)
  ultimately have "35 / 10 / 2 \<le> sentiment_score m" by (simp add: field_simps)
  with u have "7 / 10 \<le> calculate_score m" by (simp add: calculate_score_def field_simps)
  then show ?thesis by (simp add: determine_level_def)
qed

text \<open>A net promoter score of zero, the worst but one of a ten-point scale, is no risk; one is.\<close>

lemma zero_nps_no_risk:
  "\<not> hm_sentiment m < 3 / 10 \<Longrightarrow>
   NEGATIVE_SENTIMENT \<notin> set (detect_risks (m\<lparr>hm_nps := Some 0\<rparr>) h) \<and> NEGATIVE_SENTIMENT \<in> set (detect_risks (m\<lparr>hm_nps := Some 1\<rparr>) h)"
  by (simp add: detect_risks_def)

lemma interventions_triggered:
  "risk \<noteq> NON_RENEWAL \<Longrightarrow>
   map iv_risk (interventions_of u (trigger_interventions t risk s)) = map iv_risk (interventions_of u s) @ (if u = t then [risk] else []) \<and>
   (list_all iv_pending (interventions_of u s) \<longrightarrow> list_all iv_pending (interventions_of u (trigger_interventions t risk s)))"
  by (cases risk) (auto simp: trigger_interventions_def trigger_intervention_def interventions_of_def)

lemma all_interventions_triggered:
  "NON_RENEWAL \<notin> set risks \<Longrightarrow>
   map iv_risk (interventions_of u (fold (trigger_interventions t) risks s)) = map iv_risk (interventions_of u s) @ (if u = t then risks else []) \<and>
   (list_all iv_pending (interventions_of u s) \<longrightarrow> list_all iv_pending (interventions_of u (fold (trigger_interventions t) risks s)))"
proof (induction risks arbitrary: s)
  case (Cons r rs)
  then have "r \<noteq> NON_RENEWAL" "NON_RENEWAL \<notin> set rs" by auto
  with interventions_triggered [of r u t s] Cons.IH [of "trigger_interventions t r s"] show ?case by simp
qed simp

lemma risks_of_metrics: "NON_RENEWAL \<notin> set (detect_risks m h) \<and> DECLINING_USAGE \<notin> set (detect_risks m (historical_metrics t))"
  by (simp add: detect_risks_def historical_metrics_def)

text \<open>
  Interventions accumulate: after any assessments a tenant's pending interventions are all the risks
  ever found for it, repeated for every time they were found; a decline of its usage is never among
  them, since no history is kept.
\<close>

theorem interventions_accumulate:
  "map iv_risk (get_pending t (fold (\<lambda>(t, m) s. snd (calculate_health t m s)) calls new_success)) =
     concat (map (\<lambda>(t', m). if t' = t then detect_risks m [] else []) calls) \<and>
   DECLINING_USAGE \<notin> iv_risk ` set (get_pending t (fold (\<lambda>(t, m) s. snd (calculate_health t m s)) calls new_success))"
proof -
  have "map iv_risk (interventions_of t (fold (\<lambda>(t, m) s. snd (calculate_health t m s)) calls s)) =
      map iv_risk (interventions_of t s) @ concat (map (\<lambda>(t', m). if t' = t then detect_risks m [] else []) calls) \<and>
    (list_all iv_pending (interventions_of t s) \<longrightarrow>
      list_all iv_pending (interventions_of t (fold (\<lambda>(t, m) s. snd (calculate_health t m s)) calls s)))" for s
  proof (induction calls arbitrary: s)
    case (Cons c calls)
    obtain t' m where c: "c = (t', m)" by (cases c)
    let ?s = "s\<lparr>ss_cache := AList.update t' \<lparr>ch_tenant = t', ch_score = calculate_score m, ch_level = determine_level (calculate_score m),
        ch_risks = detect_risks m (historical_metrics t'), ch_metrics = m\<rparr> (ss_cache s)\<rparr>"
    have h: "snd (calculate_health t' m s) = fold (trigger_interventions t') (detect_risks m []) ?s"
      by (simp add: calculate_health_def Let_def historical_metrics_def)
    have "interventions_of t ?s = interventions_of t s" by (simp add: interventions_of_def)
    with all_interventions_triggered [of "detect_risks m []" t t' ?s] risks_of_metrics [of m "[]" t']
      Cons.IH [of "fold (trigger_interventions t') (detect_risks m []) ?s"]
    show ?case by (auto simp: c h)
  qed simp
  from this [of new_success]
  have r: "map iv_risk (interventions_of t (fold (\<lambda>(t, m) s. snd (calculate_health t m s)) calls new_success)) =
      concat (map (\<lambda>(t', m). if t' = t then detect_risks m [] else []) calls)"
    and p: "list_all iv_pending (interventions_of t (fold (\<lambda>(t, m) s. snd (calculate_health t m s)) calls new_success))"
    by (simp_all add: interventions_of_def new_success_def)
  from p have g: "get_pending t (fold (\<lambda>(t, m) s. snd (calculate_health t m s)) calls new_success) =
      interventions_of t (fold (\<lambda>(t, m) s. snd (calculate_health t m s)) calls new_success)"
    by (simp add: get_pending_def filter_id_conv list_all_iff)
  have "DECLINING_USAGE \<notin> set (concat (map (\<lambda>(t', m). if t' = t then detect_risks m [] else []) calls))"
    using risks_of_metrics by (auto simp: historical_metrics_def split: if_splits)
  then show ?thesis unfolding g r [symmetric] by (simp only: set_map) simp
qed

end
