(* ===== verification/Template.thy ===== *)
theory Template
  imports Db Terms Regex
begin

text \<open>
  Prompt templates (\<^verbatim>\<open>chat_service/agent/prompt_template.py\<close>) and the factory that fills them
  (\<^verbatim>\<open>chat_service/agent/prompt_factory.py\<close>).  The three patterns are deterministic, so that a scan
  from left to right finds what \<open>re.sub\<close> replaces.  The word characters beyond ASCII are those of
  \<open>wide\<close>; \<open>quote\<close> is \<open>repr\<close> of a text, and \<open>lower\<close> is \<open>str.lower\<close>.
\<close>

section \<open>Values\<close>

datatype tval = Tnone | Tbool bool | Tint int | Tstr ucs | Tlist "tval list"

type_synonym tctx = "(ucs \<times> tval) list"

fun repr_of :: "(ucs \<Rightarrow> ucs) \<Rightarrow> tval \<Rightarrow> ucs" where
  "repr_of quote Tnone = ucs_of ''None''"
| "repr_of quote (Tbool b) = ucs_of (if b then ''True'' else ''False'')"
| "repr_of quote (Tint i) = ucs_of (show_int i)"
| "repr_of quote (Tstr s) = quote s"
| "repr_of quote (Tlist vs) = ucs_of ''['' @ py_join (ucs_of '', '') (map (repr_of quote) vs) @ ucs_of '']''"

definition str_of :: "(ucs \<Rightarrow> ucs) \<Rightarrow> tval \<Rightarrow> ucs" where
  "str_of quote v = (case v of Tstr s \<Rightarrow> s | _ \<Rightarrow> repr_of quote v)"

fun is_true :: "tval \<Rightarrow> bool" where
  "is_true Tnone = False"
| "is_true (Tbool b) = b"
| "is_true (Tint i) = (i \<noteq> 0)"
| "is_true (Tstr s) = (s \<noteq> [])"
| "is_true (Tlist vs) = (vs \<noteq> [])"

fun items_of :: "tval \<Rightarrow> exn + tval list" where \<comment> \<open>\<open>for item in v\<close>\<close>
  "items_of (Tlist vs) = Inr vs"
| "items_of (Tstr s) = Inr (map (\<lambda>c. Tstr [c]) s)"
| "items_of _ = Inl TypeError"

section \<open>Replacing what a pattern matches\<close>

text \<open>A matcher gives what it found at the start of the text and the number of characters it took.\<close>

function scan :: "(ucs \<Rightarrow> ('m \<times> nat) option) \<Rightarrow> ucs \<Rightarrow> 'm piece list" where
  "scan f [] = []"
| "scan f (c # cs) = (case f (c # cs) of None \<Rightarrow> Plain c # scan f cs | Some (x, n) \<Rightarrow> Hit x # scan f (drop (n - 1) cs))"
  by pat_completeness auto
termination
  by (relation "measure (\<lambda>(f, s). length s)") auto

fun before :: "'a list \<Rightarrow> 'a list \<Rightarrow> 'a list option" where \<comment> \<open>the shortest text that \<open>sep\<close> follows\<close>
  "before sep [] = (if sep = [] then Some [] else None)"
| "before sep (c # cs) = (if starts_with sep (c # cs) then Some [] else map_option ((#) c) (before sep cs))"

definition literal_at :: "ucs \<Rightarrow> ucs \<Rightarrow> ucs option" where
  "literal_at w s = (if starts_with w s then Some (drop (length w) s) else None)"

definition name_at :: "(nat \<Rightarrow> bool) \<Rightarrow> ucs \<Rightarrow> (ucs \<times> ucs) option" where
  "name_at wide s =
     (let x = takeWhile (is_word wide) s in if x = [] then None else Some (x, drop (length x) s))"

definition match_var :: "(nat \<Rightarrow> bool) \<Rightarrow> ucs \<Rightarrow> (ucs \<times> nat) option" where
  "match_var wide s =
     Option.bind (literal_at (ucs_of ''{{'') s) (\<lambda>s1. Option.bind (name_at wide s1) (\<lambda>(x, s2).
       map_option (\<lambda>s3. (x, length s - length s3)) (literal_at (ucs_of ''}}'') s2)))"

definition match_if :: "(nat \<Rightarrow> bool) \<Rightarrow> ucs \<Rightarrow> ((ucs \<times> ucs) \<times> nat) option" where
  "match_if wide s =
     Option.bind (literal_at (ucs_of ''{% if '') s) (\<lambda>s1. Option.bind (name_at wide s1) (\<lambda>(x, s2).
       Option.bind (literal_at (ucs_of '' %}'') s2) (\<lambda>s3. map_option
         (\<lambda>body. ((x, body), length s - length s3 + length body + length (ucs_of ''{% endif %}'')))
         (before (ucs_of ''{% endif %}'') s3))))"

definition match_for :: "(nat \<Rightarrow> bool) \<Rightarrow> ucs \<Rightarrow> ((ucs \<times> ucs \<times> ucs) \<times> nat) option" where
  "match_for wide s =
     Option.bind (literal_at (ucs_of ''{% for '') s) (\<lambda>s1. Option.bind (name_at wide s1) (\<lambda>(x, s2).
       Option.bind (literal_at (ucs_of '' in '') s2) (\<lambda>s3. Option.bind (name_at wide s3) (\<lambda>(y, s4).
         Option.bind (literal_at (ucs_of '' %}'') s4) (\<lambda>s5. map_option
           (\<lambda>body. ((x, y, body), length s - length s5 + length body + length (ucs_of ''{% endfor %}'')))
           (before (ucs_of ''{% endfor %}'') s5))))))"

section \<open>Templates\<close>

definition var_text :: "(ucs \<Rightarrow> ucs) \<Rightarrow> tctx \<Rightarrow> ucs \<Rightarrow> ucs" where
  "var_text quote ctx x =
     (case map_of ctx x of None \<Rightarrow> [] | Some v \<Rightarrow> if v = Tnone then [] else str_of quote v)"

definition render_variables :: "(nat \<Rightarrow> bool) \<Rightarrow> (ucs \<Rightarrow> ucs) \<Rightarrow> tctx \<Rightarrow> ucs \<Rightarrow> ucs" where
  "render_variables wide quote ctx s =
     concat (map (\<lambda>p. case p of Plain c \<Rightarrow> [c] | Hit x \<Rightarrow> var_text quote ctx x) (scan (match_var wide) s))"

definition render_if_blocks :: "(nat \<Rightarrow> bool) \<Rightarrow> (ucs \<Rightarrow> ucs) \<Rightarrow> tctx \<Rightarrow> ucs \<Rightarrow> ucs" where
  "render_if_blocks wide quote ctx s =
     concat (map (\<lambda>p. case p of Plain c \<Rightarrow> [c]
       | Hit (x, body) \<Rightarrow> if (case map_of ctx x of None \<Rightarrow> False | Some v \<Rightarrow> is_true v) then render_variables wide quote ctx body else [])
       (scan (match_if wide) s))"

definition render_loop :: "(nat \<Rightarrow> bool) \<Rightarrow> (ucs \<Rightarrow> ucs) \<Rightarrow> tctx \<Rightarrow> ucs \<times> ucs \<times> ucs \<Rightarrow> exn + ucs" where
  "render_loop wide quote ctx m = (case m of (x, y, body) \<Rightarrow>
     map_sum id (\<lambda>vs. py_join [10] (map (\<lambda>v. render_variables wide quote (AList.update x v ctx) body) vs))
       (case map_of ctx y of None \<Rightarrow> Inr [] | Some v \<Rightarrow> items_of v))"

fun join_pieces :: "('m \<Rightarrow> exn + ucs) \<Rightarrow> 'm piece list \<Rightarrow> exn + ucs" where
  "join_pieces f [] = Inr []"
| "join_pieces f (Plain c # ps) = map_sum id ((#) c) (join_pieces f ps)"
| "join_pieces f (Hit x # ps) = (case f x of Inl e \<Rightarrow> Inl e | Inr t \<Rightarrow> map_sum id ((@) t) (join_pieces f ps))"

definition render_for_loops :: "(nat \<Rightarrow> bool) \<Rightarrow> (ucs \<Rightarrow> ucs) \<Rightarrow> tctx \<Rightarrow> ucs \<Rightarrow> exn + ucs" where
  "render_for_loops wide quote ctx s = join_pieces (render_loop wide quote ctx) (scan (match_for wide) s)"

definition render :: "(nat \<Rightarrow> bool) \<Rightarrow> (ucs \<Rightarrow> ucs) \<Rightarrow> tctx \<Rightarrow> ucs \<Rightarrow> exn + ucs" where
  "render wide quote ctx template =
     map_sum id (\<lambda>s. strip (render_variables wide quote ctx (render_if_blocks wide quote ctx s)))
       (render_for_loops wide quote ctx template)"

section \<open>The store\<close>

record template_store =
  ts_templates :: "(string \<times> ucs) list"
  ts_versions :: "(string \<times> string list) list"

definition template_key :: "string \<Rightarrow> string \<Rightarrow> string" where
  "template_key name version = name @ '':'' @ version"

definition store_list_versions :: "string \<Rightarrow> template_store \<Rightarrow> string list" where
  "store_list_versions name s = (case map_of (ts_versions s) name of None \<Rightarrow> [] | Some vs \<Rightarrow> vs)"

definition store_add :: "string \<Rightarrow> ucs \<Rightarrow> string \<Rightarrow> template_store \<Rightarrow> template_store" where
  "store_add name template version s =
     (let vs = store_list_versions name s in
      s\<lparr>ts_templates := AList.update (template_key name version) template (ts_templates s),
        ts_versions := AList.update name (if version \<in> set vs then vs else vs @ [version]) (ts_versions s)\<rparr>)"

definition store_get :: "string \<Rightarrow> string \<Rightarrow> template_store \<Rightarrow> ucs option" where
  "store_get name version s = map_of (ts_templates s) (template_key name version)"

section \<open>The factory\<close>

record few_shot =
  fs_input :: ucs
  fs_output :: ucs
  fs_score :: rat

record prompt_factory =
  pf_prompts :: "(string \<times> ucs) list"
  pf_examples :: "(string \<times> few_shot list) list"

definition SYSTEM_PROMPTS :: "(string \<times> ucs) list" where
  "SYSTEM_PROMPTS =
     [(''router'', ucs_of ''Determine user intent and route to appropriate handler: {{task_description}}''),
      (''rag_specialist'', ucs_of ''Search knowledge base and provide accurate citations for: {{query}}''),
      (''generalist'', ucs_of ''Provide a clear, helpful response to: {{user_query}}''),
      (''tool_executor'', ucs_of ''Execute the requested tool action: {{action}}'')]"

definition example :: "string \<Rightarrow> string \<Rightarrow> few_shot" where
  "example i t = \<lparr>fs_input = ucs_of i, fs_output = ucs_of t, fs_score = 1\<rparr>"

definition new_factory :: prompt_factory where
  "new_factory = \<lparr>pf_prompts = SYSTEM_PROMPTS,
     pf_examples =
       [(''router'', [example ''Where is my order?'' ''Intent: order_status, Category: logistics'',
                      example ''How much is the premium plan?'' ''Intent: pricing, Category: billing'']),
        (''rag_specialist'', [example ''What is the return policy?'' ''Return within 30 days. Items must be unused.''])]\<rparr>"

definition register_role_prompt :: "string \<Rightarrow> ucs \<Rightarrow> prompt_factory \<Rightarrow> prompt_factory" where
  "register_role_prompt role template f = f\<lparr>pf_prompts := AList.update role template (pf_prompts f)\<rparr>"

definition examples_of :: "string \<Rightarrow> prompt_factory \<Rightarrow> few_shot list" where
  "examples_of role f = (case map_of (pf_examples f) role of None \<Rightarrow> [] | Some es \<Rightarrow> es)"

definition add_few_shot_example :: "string \<Rightarrow> few_shot \<Rightarrow> prompt_factory \<Rightarrow> prompt_factory" where
  "add_few_shot_example role e f = f\<lparr>pf_examples := AList.update role (examples_of role f @ [e]) (pf_examples f)\<rparr>"

definition few_shot_relevance :: "(ucs \<Rightarrow> ucs) \<Rightarrow> ucs \<Rightarrow> few_shot \<Rightarrow> rat" where
  "few_shot_relevance lower query e = (if sub_in (lower (fs_input e)) (lower query) then 1 else 1 / 2) * fs_score e"

text \<open>The query may be no text: then \<open>query.lower()\<close> raises, if there is an example to compare it with.\<close>

definition select_few_shot_examples :: "(ucs \<Rightarrow> ucs) \<Rightarrow> string \<Rightarrow> tval \<Rightarrow> int \<Rightarrow> prompt_factory \<Rightarrow> exn + few_shot list" where
  "select_few_shot_examples lower role query limit f =
     (if examples_of role f = [] then Inr []
      else case query of Tstr q \<Rightarrow> Inr (py_take limit (sort_desc (few_shot_relevance lower q) (examples_of role f)))
        | _ \<Rightarrow> Inl AttributeError)"

definition example_lines :: "few_shot list \<Rightarrow> ucs list" where
  "example_lines es = (if es = [] then []
     else [ucs_of ''Examples:''] @ concat (map (\<lambda>e. [ucs_of ''Input: '' @ fs_input e, ucs_of ''Output: '' @ fs_output e]) es) @ [[]])"

definition ctx_get :: "tctx \<Rightarrow> string \<Rightarrow> tval \<Rightarrow> tval" where
  "ctx_get ctx k d = (case map_of ctx (ucs_of k) of None \<Rightarrow> d | Some v \<Rightarrow> v)"

definition role_prompt :: "string \<Rightarrow> prompt_factory \<Rightarrow> ucs" where
  "role_prompt role f =
     (case map_of (pf_prompts f) role of Some t \<Rightarrow> t
      | None \<Rightarrow> (case map_of (pf_prompts f) ''generalist'' of Some t \<Rightarrow> t | None \<Rightarrow> []))"

definition create_prompt ::
  "(nat \<Rightarrow> bool) \<Rightarrow> (ucs \<Rightarrow> ucs) \<Rightarrow> (ucs \<Rightarrow> ucs) \<Rightarrow> string \<Rightarrow> tctx \<Rightarrow> bool \<Rightarrow> bool \<Rightarrow> prompt_factory \<Rightarrow> exn + ucs" where
  "create_prompt wide quote lower role ctx include_cot include_few_shot f =
     (case (if include_few_shot
            then select_few_shot_examples lower role (ctx_get ctx ''query'' (ctx_get ctx ''user_query'' (Tstr []))) 3 f
            else Inr []) of
        Inl e \<Rightarrow> Inl e
      | Inr es \<Rightarrow> map_sum id
          (\<lambda>t. py_join [10] (example_lines es @ (if include_cot then [ucs_of ''Think step by step before responding.''] else []) @ [t]))
          (render wide quote ctx (role_prompt role f)))"

definition create_cot_prompt ::
  "(nat \<Rightarrow> bool) \<Rightarrow> (ucs \<Rightarrow> ucs) \<Rightarrow> (ucs \<Rightarrow> ucs) \<Rightarrow> string \<Rightarrow> tctx \<Rightarrow> int \<Rightarrow> prompt_factory \<Rightarrow> exn + ucs" where
  "create_cot_prompt wide quote lower role ctx steps f =
     create_prompt wide quote lower role
       (AList.update (ucs_of ''reasoning_steps'')
          (Tstr (py_join [10] (map (\<lambda>i. ucs_of (''Step '' @ show_int (i + 1) @ '': '')) [0..steps - 1]))) ctx)
       True True f"

section \<open>What is scanned\<close>

lemma scan_skip: "\<forall>c \<in> set t. \<forall>cs. f (c # cs) = None \<Longrightarrow> scan f (t @ r) = map Plain t @ scan f r"
  by (induction t) auto

lemma scan_nothing: "\<forall>c \<in> set t. \<forall>cs. f (c # cs) = None \<Longrightarrow> scan f t = map Plain t"
  using scan_skip [of t f "[]"] by simp

lemma literal_append [simp]: "literal_at w (w @ r) = Some r"
  by (simp add: literal_at_def starts_with_def)

lemma literal_Some: "literal_at w s = Some r \<longleftrightarrow> s = w @ r"
  by (auto simp: literal_at_def starts_with_iff)

lemma literal_other: "w = a # w' \<Longrightarrow> c \<noteq> a \<Longrightarrow> literal_at w (c # cs) = None"
  by (simp add: literal_at_def starts_with_def)

lemma name_at_word:
  assumes "\<forall>c \<in> set x. is_word wide c" and "x \<noteq> []" and "\<not> is_word wide c"
  shows "name_at wide (x @ c # r) = Some (x, c # r)"
  using assms by (simp add: name_at_def)

lemma before_absent: "c \<notin> set t \<Longrightarrow> before (c # w) (t @ (c # w) @ r) = Some t"
  by (induction t) (auto simp: starts_with_def)

lemma not_word [simp]: "\<not> is_word wide 123" "\<not> is_word wide 125" "\<not> is_word wide 37" "\<not> is_word wide 32"
  by (simp_all add: is_word_def)

lemma tokens:
  "ucs_of ''{{'' = [123, 123]" "ucs_of ''}}'' = [125, 125]" "ucs_of '' %}'' = [32, 37, 125]"
  "ucs_of ''{% if '' = [123, 37, 32, 105, 102, 32]" "ucs_of ''{% for '' = [123, 37, 32, 102, 111, 114, 32]"
  "ucs_of ''{% endif %}'' = [123, 37, 32, 101, 110, 100, 105, 102, 32, 37, 125]"
  by (simp_all add: ucs_of_def)

lemma var_matched:
  assumes "\<forall>c \<in> set x. is_word wide c" and "x \<noteq> []"
  shows "match_var wide (ucs_of ''{{'' @ x @ ucs_of ''}}'' @ r) = Some (x, length x + 4)"
proof -
  have "name_at wide (x @ ucs_of ''}}'' @ r) = Some (x, ucs_of ''}}'' @ r)"
    using name_at_word [OF assms, of 125 "125 # r"] by (simp add: tokens)
  then show ?thesis by (simp add: match_var_def) (simp add: tokens)
qed

lemma if_matched:
  assumes "\<forall>c \<in> set x. is_word wide c" and "x \<noteq> []" and "123 \<notin> set body \<or> 37 \<notin> set body"
  shows "match_if wide (ucs_of ''{% if '' @ x @ ucs_of '' %}'' @ body @ ucs_of ''{% endif %}'' @ r) =
    Some ((x, body), length (ucs_of ''{% if '' @ x @ ucs_of '' %}'' @ body @ ucs_of ''{% endif %}''))"
proof -
  have n: "name_at wide (x @ ucs_of '' %}'' @ b) = Some (x, ucs_of '' %}'' @ b)" for b
    using name_at_word [OF assms(1,2), of 32 "[37, 125] @ b"] by (simp add: tokens)
  have "before (ucs_of ''{% endif %}'') (body @ ucs_of ''{% endif %}'' @ r) = Some body"
    using assms(3)
  proof (induction body)
    case (Cons c cs)
    have "\<not> starts_with (ucs_of ''{% endif %}'') ((c # cs) @ ucs_of ''{% endif %}'' @ r)"
      using Cons.prems by (cases cs) (auto simp: starts_with_def tokens)
    with Cons show ?case by auto
  qed (simp add: starts_with_def tokens)
  with n show ?thesis by (simp add: match_if_def)
qed

section \<open>Templates from their parts\<close>

datatype part = Text ucs | Slot ucs

primrec part_text :: "part \<Rightarrow> ucs" where
  "part_text (Text t) = t"
| "part_text (Slot x) = ucs_of ''{{'' @ x @ ucs_of ''}}''"

primrec part_value :: "(ucs \<Rightarrow> ucs) \<Rightarrow> tctx \<Rightarrow> part \<Rightarrow> ucs" where
  "part_value quote ctx (Text t) = t"
| "part_value quote ctx (Slot x) = var_text quote ctx x"

primrec part_ok :: "(nat \<Rightarrow> bool) \<Rightarrow> part \<Rightarrow> bool" where
  "part_ok wide (Text t) \<longleftrightarrow> 123 \<notin> set t \<and> 37 \<notin> set t"
| "part_ok wide (Slot x) \<longleftrightarrow> x \<noteq> [] \<and> list_all (is_word wide) x"

lemma scan_parts:
  "list_all (part_ok wide) ps \<Longrightarrow>
   scan (match_var wide) (concat (map part_text ps)) = concat (map (\<lambda>p. case p of Text t \<Rightarrow> map Plain t | Slot x \<Rightarrow> [Hit x]) ps)"
proof (induction ps)
  case (Cons p ps)
  show ?case
  proof (cases p)
    case (Text t)
    have "\<forall>c \<in> set t. \<forall>cs. match_var wide (c # cs) = None"
      using Cons.prems Text by (auto simp: match_var_def literal_at_def starts_with_def tokens)
    from scan_skip [OF this] Cons Text show ?thesis by simp
  next
    case (Slot x)
    let ?r = "concat (map part_text ps)"
    have e: "ucs_of ''{{'' @ x @ ucs_of ''}}'' @ ?r = 123 # 123 # x @ 125 # 125 # ?r" by (simp add: tokens)
    have m: "match_var wide (ucs_of ''{{'' @ x @ ucs_of ''}}'' @ ?r) = Some (x, length x + 4)"
      using Cons.prems Slot by (intro var_matched) (auto simp: list_all_iff)
    have "scan (match_var wide) (123 # 123 # x @ 125 # 125 # ?r) = Hit x # scan (match_var wide) ?r"
      using m unfolding e by (simp add: numeral_3_eq_3)
    with Cons Slot e show ?thesis by (simp del: scan.simps)
  qed
qed simp

lemma variables_of_parts:
  "list_all (part_ok wide) ps \<Longrightarrow>
   render_variables wide quote ctx (concat (map part_text ps)) = concat (map (part_value quote ctx) ps)"
  unfolding render_variables_def scan_parts
  by (induction ps) (auto simp: comp_def split: part.split)

lemma percent_free: "list_all (part_ok wide) ps \<Longrightarrow> 37 \<notin> set (concat (map part_text ps))"
proof (induction ps)
  case (Cons p ps)
  then show ?case by (cases p) (auto simp: tokens list_all_iff is_word_def)
qed simp

lemma blocks_need_percent:
  "37 \<notin> set s \<Longrightarrow> scan (match_for wide) s = map Plain s \<and> scan (match_if wide) s = map Plain s"
proof (induction s)
  case (Cons c cs)
  have "set w \<subseteq> set (c # cs)" if "starts_with w (c # cs)" for w
    using that unfolding starts_with_iff by (metis set_append sup_ge1)
  with Cons.prems have "literal_at w (c # cs) = None" if "37 \<in> set w" for w
    using that by (auto simp: literal_at_def)
  then have "match_for wide (c # cs) = None" "match_if wide (c # cs) = None"
    by (simp_all add: match_for_def match_if_def tokens)
  with Cons show ?case by simp
qed simp

lemma join_plain: "join_pieces f (map Plain s) = Inr s"
  by (induction s) auto

lemma no_blocks:
  "37 \<notin> set s \<Longrightarrow> render_for_loops wide quote ctx s = Inr s \<and> render_if_blocks wide quote ctx s = s"
  by (simp add: render_for_loops_def render_if_blocks_def blocks_need_percent join_plain comp_def)

lemma plain_parts:
  "list_all (part_ok wide) ps \<Longrightarrow>
   render wide quote ctx (concat (map part_text ps)) = Inr (strip (concat (map (part_value quote ctx) ps)))"
  using no_blocks [OF percent_free] variables_of_parts by (simp add: render_def)

section \<open>Filling templates\<close>

text \<open>
  A template without blocks is filled in one pass: every slot gets its value, whatever the value
  contains; a missing value, or \<open>None\<close>, leaves nothing.
\<close>

theorem plain_template_filled:
  assumes "list_all (part_ok wide) ps"
  shows "render wide quote ctx (concat (map part_text ps)) = Inr (strip (concat (map (part_value quote ctx) ps)))"
  by (rule plain_parts [OF assms])

lemma plain_template_filled_witness:
  "render (\<lambda>c. False) (\<lambda>s. s) [(ucs_of ''q'', Tstr (ucs_of ''{{key}}'')), (ucs_of ''key'', Tstr (ucs_of ''s3cret''))] (ucs_of ''Q: {{q}}'') =
     Inr (ucs_of ''Q: {{key}}'')"
proof -
  have "list_all (part_ok (\<lambda>c. False)) [Text (ucs_of ''Q: ''), Slot (ucs_of ''q'')]" by (simp add: ucs_of_def is_word_def)
  from plain_template_filled [OF this] show ?thesis
    by (simp add: ucs_of_def var_text_def str_of_def strip_def strip_by_def is_ws_def)
qed

lemma for_needs_percent:
  "37 \<notin> set t \<Longrightarrow> scan (match_for wide) (t @ 123 # r) = map Plain t @ scan (match_for wide) (123 # r)"
proof (induction t)
  case (Cons c t)
  then have "literal_at (ucs_of ''{% for '') (c # t @ 123 # r) = None"
    by (cases t) (auto simp: literal_at_def starts_with_def tokens)
  then have "match_for wide (c # t @ 123 # r) = None" by (simp add: match_for_def)
  with Cons show ?case by simp
qed simp

lemma if_is_no_loop:
  assumes "123 \<notin> set x" and "37 \<notin> set body"
  shows "scan (match_for wide) (ucs_of ''{% if '' @ x @ ucs_of '' %}'' @ body @ ucs_of ''{% endif %}'') =
    map Plain (ucs_of ''{% if '' @ x @ ucs_of '' %}'' @ body @ ucs_of ''{% endif %}'')"
proof -
  have n: "c \<noteq> 123 \<Longrightarrow> match_for wide (c # cs) = None" for c cs
    by (auto simp: match_for_def literal_at_def starts_with_def tokens)
  have f: "match_for wide (123 # 37 # 32 # c # cs) = None" if "c \<noteq> 102" for c cs
    using that by (auto simp: match_for_def literal_at_def starts_with_def tokens)
  have e: "scan (match_for wide) (ucs_of ''{% endif %}'') = map Plain (ucs_of ''{% endif %}'')"
    by (simp add: tokens n f)
  have b: "scan (match_for wide) (body @ ucs_of ''{% endif %}'') = map Plain (body @ ucs_of ''{% endif %}'')"
    using for_needs_percent [OF assms(2), of wide "[37, 32, 101, 110, 100, 105, 102, 32, 37, 125]"] e by (simp add: tokens)
  have x: "scan (match_for wide) (x @ r) = map Plain x @ scan (match_for wide) r" for r
    by (rule scan_skip) (use assms(1) n in metis)
  have "scan (match_for wide) (ucs_of '' %}'' @ r) = map Plain (ucs_of '' %}'') @ scan (match_for wide) r"
    "scan (match_for wide) (ucs_of ''{% if '' @ r) = map Plain (ucs_of ''{% if '') @ scan (match_for wide) r" for r
    by (simp_all add: tokens n f)
  with x b show ?thesis by simp
qed

text \<open>C29:  
  Inside a conditional block it is otherwise: the block's slots are filled, and then the slots that
  their values contain.  A user's text can so reach every other value of the context.
\<close>

theorem block_values_interpreted:
  assumes "list_all (part_ok wide) ps" and "x \<noteq> []" and "list_all (is_word wide) x"
  shows "render wide quote ctx (ucs_of ''{% if '' @ x @ ucs_of '' %}'' @ concat (map part_text ps) @ ucs_of ''{% endif %}'') =
    Inr (if (case map_of ctx x of None \<Rightarrow> False | Some v \<Rightarrow> is_true v)
         then strip (render_variables wide quote ctx (concat (map (part_value quote ctx) ps))) else [])"
proof -
  let ?body = "concat (map part_text ps)"
  let ?t = "ucs_of ''{% if '' @ x @ ucs_of '' %}'' @ ?body @ ucs_of ''{% endif %}''"
  have n: "37 \<notin> set ?body" by (rule percent_free [OF assms(1)])
  have x: "123 \<notin> set x" using assms(3) by (auto simp: list_all_iff)
  have "match_if wide (?t @ []) = Some ((x, ?body), length ?t)"
    using if_matched [of x wide ?body "[]"] assms(2,3) n by (simp add: list_all_iff)
  then have s: "scan (match_if wide) ?t = [Hit (x, ?body)]" by (simp add: tokens)
  have v: "render_variables wide quote ctx [] = []" by (simp add: render_variables_def)
  have i: "render_if_blocks wide quote ctx ?t =
      (if (case map_of ctx x of None \<Rightarrow> False | Some v \<Rightarrow> is_true v) then concat (map (part_value quote ctx) ps) else [])"
    unfolding render_if_blocks_def s by (simp add: variables_of_parts [OF assms(1)])
  have "render_for_loops wide quote ctx ?t = Inr ?t"
    unfolding render_for_loops_def if_is_no_loop [OF x n] by (rule join_plain)
  then show ?thesis unfolding render_def by (simp only: i map_sum.simps) (simp add: v strip_def strip_by_def)
qed

lemma block_values_interpreted_witness:
  "render (\<lambda>c. False) (\<lambda>s. s) [(ucs_of ''q'', Tstr (ucs_of ''{{key}}'')), (ucs_of ''key'', Tstr (ucs_of ''s3cret''))]
     (ucs_of ''{% if q %}Q: {{q}}{% endif %}'') = Inr (ucs_of ''Q: s3cret'')"
proof -
  let ?ctx = "[(ucs_of ''q'', Tstr (ucs_of ''{{key}}'')), (ucs_of ''key'', Tstr (ucs_of ''s3cret''))]"
  have "list_all (part_ok (\<lambda>c. False)) [Text (ucs_of ''Q: ''), Slot (ucs_of ''q'')]" by (simp add: ucs_of_def is_word_def)
  from block_values_interpreted [OF this, of "ucs_of ''q''" "\<lambda>s. s" ?ctx]
  have "render (\<lambda>c. False) (\<lambda>s. s) ?ctx (ucs_of ''{% if q %}Q: {{q}}{% endif %}'') =
      Inr (strip (render_variables (\<lambda>c. False) (\<lambda>s. s) ?ctx (ucs_of ''Q: {{key}}'')))"
    by (simp add: ucs_of_def is_word_def var_text_def str_of_def)
  also have "render_variables (\<lambda>c. False) (\<lambda>s. s) ?ctx (ucs_of ''Q: {{key}}'') = ucs_of ''Q: s3cret''"
    using variables_of_parts [of "\<lambda>c. False" "[Text (ucs_of ''Q: ''), Slot (ucs_of ''key'')]" "\<lambda>s. s" ?ctx]
    by (simp add: ucs_of_def is_word_def var_text_def str_of_def)
  finally show ?thesis by (simp add: ucs_of_def strip_def strip_by_def is_ws_def)
qed

lemma loop_over_number: "map_of ctx y = Some (Tint i) \<Longrightarrow> render_loop wide quote ctx (x, y, body) = Inl TypeError"
  by (simp add: render_loop_def)

section \<open>The store and the factory\<close>

text \<open>A template that was added is found, unless one with the same key was added after it: a colon in a name can make two keys one.\<close>

lemma added_template: "store_get name version (store_add n t v s) = (if template_key n v = template_key name version then Some t else store_get name version s)"
  by (simp add: store_get_def store_add_def Let_def)

lemma template_keys_collide: "template_key ''tenant:a'' ''v1'' = template_key ''tenant'' ''a:v1''"
  by (simp add: template_key_def)

lemma versions_listed_once:
  "distinct (store_list_versions name s) \<Longrightarrow> distinct (store_list_versions name (store_add n t v s)) \<and> v \<in> set (store_list_versions n (store_add n t v s))"
  by (auto simp: store_list_versions_def store_add_def Let_def)

lemma examples_limited:
  "select_few_shot_examples lower role q limit f = Inr es \<Longrightarrow> 0 \<le> limit \<Longrightarrow>
   length es = min (nat limit) (length (examples_of role f)) \<and> set es \<subseteq> set (examples_of role f)"
  by (auto simp: select_few_shot_examples_def length_py_take dest: set_py_take split: if_splits tval.splits)

text \<open>The templates the factory starts with: a text and one slot.\<close>

definition role_slot :: "string \<Rightarrow> ucs \<times> ucs" where
  "role_slot role =
     (if role = ''router'' then (ucs_of ''Determine user intent and route to appropriate handler: '', ucs_of ''task_description'')
      else if role = ''rag_specialist'' then (ucs_of ''Search knowledge base and provide accurate citations for: '', ucs_of ''query'')
      else if role = ''tool_executor'' then (ucs_of ''Execute the requested tool action: '', ucs_of ''action'')
      else (ucs_of ''Provide a clear, helpful response to: '', ucs_of ''user_query''))"

lemma role_template: "pf_prompts f = SYSTEM_PROMPTS \<Longrightarrow> role_prompt role f = (case role_slot role of (t, x) \<Rightarrow> concat (map part_text [Text t, Slot x]))"
  by (auto simp: role_prompt_def SYSTEM_PROMPTS_def role_slot_def ucs_of_def)

lemma role_slot_ok: "(case role_slot role of (t, x) \<Rightarrow> list_all (part_ok wide) [Text t, Slot x])"
  by (simp add: role_slot_def ucs_of_def is_word_def)

lemma role_prompt_filled:
  assumes "pf_prompts f = SYSTEM_PROMPTS"
  shows "render wide quote ctx (role_prompt role f) = (case role_slot role of (t, x) \<Rightarrow> Inr (strip (t @ var_text quote ctx x)))"
proof -
  obtain t x where r: "role_slot role = (t, x)" by fastforce
  have "list_all (part_ok wide) [Text t, Slot x]" using role_slot_ok [of wide role] r by simp
  from plain_parts [OF this, of quote ctx] show ?thesis using role_template [OF assms, of role] r by simp
qed

text \<open>
  The steps that \<open>create_cot_prompt\<close> writes for the model are in no template of the factory: the prompt
  is that of \<open>create_prompt\<close>, whatever number of steps is asked for.
\<close>

lemma cot_steps_never_shown:
  assumes "pf_prompts f = SYSTEM_PROMPTS"
  shows "create_cot_prompt wide quote lower role ctx steps f = create_prompt wide quote lower role ctx True True f"
proof -
  have g: "ctx_get (AList.update (ucs_of ''reasoning_steps'') v ctx) k d = ctx_get ctx k d"
    if "ucs_of k \<noteq> ucs_of ''reasoning_steps''" for k v d
    using that by (simp add: ctx_get_def)
  have "(case role_slot role of (t, x) \<Rightarrow> x \<noteq> ucs_of ''reasoning_steps'')" by (simp add: role_slot_def ucs_of_def)
  then have r: "render wide quote (AList.update (ucs_of ''reasoning_steps'') v ctx) (role_prompt role f) = render wide quote ctx (role_prompt role f)" for v
    unfolding role_prompt_filled [OF assms] by (auto simp: var_text_def split: prod.splits)
  have q: "ucs_of ''query'' \<noteq> ucs_of ''reasoning_steps''" "ucs_of ''user_query'' \<noteq> ucs_of ''reasoning_steps''"
    by (simp_all add: ucs_of_def)
  show ?thesis unfolding create_cot_prompt_def create_prompt_def r g [OF q(1)] g [OF q(2)] by (rule refl)
qed

end
