(* ===== verification/TemplateEngine.thy ===== *)
theory TemplateEngine
  imports Template
begin

text \<open>
  The shared template engine: \<^verbatim>\<open>shared/prompt_template.py\<close>.  As in \<open>Template\<close>, a scan from left to
  right finds what \<open>re\<close> finds: each pattern determines its match.  \<open>quote\<close> is \<open>repr\<close> of a text;
  \<open>upper\<close>, \<open>lower\<close> and \<open>capitalize\<close> are the methods of \<open>str\<close>.
\<close>

section \<open>Values\<close>

datatype ev = ENone | EBool bool | EInt int | EStr ucs | EList "ev list" | EDict "(ucs \<times> ev) list"

fun e_repr :: "(ucs \<Rightarrow> ucs) \<Rightarrow> ev \<Rightarrow> ucs" where
  "e_repr quote ENone = ucs_of ''None''"
| "e_repr quote (EBool b) = ucs_of (if b then ''True'' else ''False'')"
| "e_repr quote (EInt i) = ucs_of (show_int i)"
| "e_repr quote (EStr s) = quote s"
| "e_repr quote (EList vs) = ucs_of ''['' @ py_join (ucs_of '', '') (map (e_repr quote) vs) @ ucs_of '']''"
| "e_repr quote (EDict d) =
     ucs_of ''{'' @ py_join (ucs_of '', '') (map (\<lambda>(k, v). quote k @ ucs_of '': '' @ v) (map (\<lambda>(k, v). (k, e_repr quote v)) d)) @ ucs_of ''}''"

definition e_str :: "(ucs \<Rightarrow> ucs) \<Rightarrow> ev \<Rightarrow> ucs" where
  "e_str quote v = (case v of EStr s \<Rightarrow> s | _ \<Rightarrow> e_repr quote v)"

fun e_true :: "ev \<Rightarrow> bool" where
  "e_true ENone = False"
| "e_true (EBool b) = b"
| "e_true (EInt i) = (i \<noteq> 0)"
| "e_true (EStr s) = (s \<noteq> [])"
| "e_true (EList vs) = (vs \<noteq> [])"
| "e_true (EDict d) = (d \<noteq> [])"

fun e_get :: "ucs \<Rightarrow> ev \<Rightarrow> ev" where \<comment> \<open>one key of a path\<close>
  "e_get k (EDict d) = (case map_of d k of None \<Rightarrow> ENone | Some v \<Rightarrow> v)"
| "e_get k _ = ENone"

definition get_nested_value :: "(ucs \<times> ev) list \<Rightarrow> ucs \<Rightarrow> ev" where
  "get_nested_value ctx path = fold e_get (py_split [46] path) (EDict ctx)"

section \<open>Conditions\<close>

datatype comparator = OpEq | OpNe | OpGt | OpLt | OpGe | OpLe

text \<open>In the order in which they are sought.\<close>

definition comparators :: "(comparator \<times> ucs) list" where
  "comparators = [(OpEq, [61, 61]), (OpNe, [33, 61]), (OpGt, [62]), (OpLt, [60]), (OpGe, [62, 61]), (OpLe, [60, 61])]"

fun text_less :: "ucs \<Rightarrow> ucs \<Rightarrow> bool" where
  "text_less [] t \<longleftrightarrow> t \<noteq> []"
| "text_less (a # s) [] \<longleftrightarrow> False"
| "text_less (a # s) (b # t) \<longleftrightarrow> a < b \<or> a = b \<and> text_less s t"

text \<open>The right side is always a text: to order any other value by it raises, which counts as false.\<close>

definition compares :: "comparator \<Rightarrow> ev \<Rightarrow> ucs \<Rightarrow> bool" where
  "compares operator left right =
     (case operator of
        OpEq \<Rightarrow> left = EStr right
      | OpNe \<Rightarrow> left \<noteq> EStr right
      | OpGt \<Rightarrow> (case left of EStr s \<Rightarrow> text_less right s | _ \<Rightarrow> False)
      | OpLt \<Rightarrow> (case left of EStr s \<Rightarrow> text_less s right | _ \<Rightarrow> False)
      | OpGe \<Rightarrow> (case left of EStr s \<Rightarrow> \<not> text_less s right | _ \<Rightarrow> False)
      | OpLe \<Rightarrow> (case left of EStr s \<Rightarrow> \<not> text_less right s | _ \<Rightarrow> False))"

definition unquote :: "ucs \<Rightarrow> ucs" where
  "unquote s = strip_by (\<lambda>c. c = 34 \<or> c = 39) (strip s)"

fun condition_loop :: "(comparator \<times> ucs) list \<Rightarrow> ucs \<Rightarrow> (ucs \<times> ev) list \<Rightarrow> bool" where
  "condition_loop [] condition ctx = (case map_of ctx (strip condition) of None \<Rightarrow> False | Some v \<Rightarrow> e_true v)"
| "condition_loop ((operator, name) # ops) condition ctx =
     (case (if sub_in name condition then py_split name condition else []) of
        [l, r] \<Rightarrow> compares operator (get_nested_value ctx (strip l)) (unquote r)
      | _ \<Rightarrow> condition_loop ops condition ctx)"

definition eval_condition :: "ucs \<Rightarrow> (ucs \<times> ev) list \<Rightarrow> bool" where
  "eval_condition = condition_loop comparators"

section \<open>The patterns\<close>

text \<open>\<open>[^%]+ %}\<close>: the text up to the next \<open>%\<close>, less the space before it.\<close>

definition header_at :: "ucs \<Rightarrow> (ucs \<times> ucs) option" where
  "header_at s =
     (let w = takeWhile (\<lambda>c. c \<noteq> 37) s in
      if w = [] \<or> last w \<noteq> 32 \<or> butlast w = [] then None
      else map_option (\<lambda>rest. (butlast w, rest)) (literal_at (ucs_of ''%}'') (drop (length w) s)))"

definition if_at :: "ucs \<Rightarrow> ((ucs \<times> ucs) \<times> nat) option" where
  "if_at s =
     Option.bind (literal_at (ucs_of ''{% if '') s) (\<lambda>s1. Option.bind (header_at s1) (\<lambda>(c, s2). map_option
       (\<lambda>body. ((c, body), length s - length s2 + length body + length (ucs_of ''{% endif %}'')))
       (before (ucs_of ''{% endif %}'') s2)))"

text \<open>The last \<open>in\<close> of a loop's header separates the variable from the list.\<close>

definition split_in :: "ucs \<Rightarrow> (ucs \<times> ucs) option" where
  "split_in h =
     map_option (\<lambda>i. (take i h, drop (i + 4) h))
       (find (\<lambda>i. starts_with (ucs_of '' in '') (drop i h) \<and> i + 4 < length h) (rev [1..<length h]))"

text \<open>Without \<open>dotall\<close> the body of a loop may not have a line break.\<close>

definition for_at :: "bool \<Rightarrow> ucs \<Rightarrow> ((ucs \<times> ucs \<times> ucs) \<times> nat) option" where
  "for_at dotall s =
     Option.bind (literal_at (ucs_of ''{% for '') s) (\<lambda>s1. Option.bind (header_at s1) (\<lambda>(h, s2).
       Option.bind (split_in h) (\<lambda>(x, xs). Option.bind (before (ucs_of ''{% endfor %}'') s2)
         (\<lambda>body. if 10 \<in> set body \<and> \<not> dotall then None
           else Some ((x, xs, body), length s - length s2 + length body + length (ucs_of ''{% endfor %}''))))))"

definition slot_at :: "ucs \<Rightarrow> (ucs \<times> nat) option" where
  "slot_at s =
     Option.bind (literal_at (ucs_of ''{{'') s) (\<lambda>s1.
       let x = takeWhile (\<lambda>c. c \<noteq> 125) s1 in
       if x = [] then None
       else map_option (\<lambda>rest. (x, length s - length rest)) (literal_at (ucs_of ''}}'') (drop (length x) s1)))"

fun hits :: "'m piece list \<Rightarrow> 'm list" where
  "hits [] = []"
| "hits (Plain c # ps) = hits ps"
| "hits (Hit x # ps) = x # hits ps"

section \<open>Replacement texts\<close>

text \<open>
  \<open>re.sub\<close> reads its replacement as a template: a backslash begins an escape, or refers to one of the
  pattern's three groups.  \<open>ident\<close> is \<open>str.isidentifier\<close>.
\<close>

datatype rpiece = RChar nat | RGroup nat

definition is_octal :: "nat \<Rightarrow> bool" where "is_octal c \<longleftrightarrow> 48 \<le> c \<and> c \<le> 55"
definition is_ascii_digit :: "nat \<Rightarrow> bool" where "is_ascii_digit c \<longleftrightarrow> 48 \<le> c \<and> c \<le> 57"

definition number_of :: "nat \<Rightarrow> ucs \<Rightarrow> nat" where
  "number_of base ds = foldl (\<lambda>n d. n * base + (d - 48)) 0 ds"

definition group_ref :: "nat \<Rightarrow> ucs \<Rightarrow> exn + rpiece list \<times> ucs" where
  "group_ref n rest = (if n \<le> 3 then Inr ([RGroup n], rest) else Inl PatternError)"

definition named_group :: "(ucs \<Rightarrow> bool) \<Rightarrow> ucs \<Rightarrow> exn + rpiece list \<times> ucs" where
  "named_group ident s =
     (case s of [] \<Rightarrow> Inl PatternError
      | c # cs \<Rightarrow>
          (case (if c = 60 then before [62] cs else None) of
             None \<Rightarrow> Inl PatternError
           | Some name \<Rightarrow>
               if name \<noteq> [] \<and> list_all is_ascii_digit name then group_ref (number_of 10 name) (drop (length name + 1) cs)
               else if ident name then Inl IndexError else Inl PatternError))"

definition escapes :: "(nat \<times> nat) list" where
  "escapes = [(97, 7), (98, 8), (102, 12), (110, 10), (114, 13), (116, 9), (118, 11), (92, 92)]"

definition escape_at :: "(ucs \<Rightarrow> bool) \<Rightarrow> ucs \<Rightarrow> exn + rpiece list \<times> ucs" where
  "escape_at ident s =
     (case s of [] \<Rightarrow> Inl PatternError
      | c # cs \<Rightarrow>
          if c = 103 then named_group ident cs
          else if c = 48 then
            (let ds = takeWhile is_octal (take 2 cs) in Inr ([RChar (number_of 8 ds mod 256)], drop (length ds) cs))
          else if is_ascii_digit c then
            (case cs of
               d # e # es \<Rightarrow>
                 if is_octal c \<and> is_octal d \<and> is_octal e then
                   (let n = number_of 8 [c, d, e] in if 255 < n then Inl PatternError else Inr ([RChar n], es))
                 else if is_ascii_digit d then group_ref (number_of 10 [c, d]) (e # es) else group_ref (c - 48) cs
             | [d] \<Rightarrow> if is_ascii_digit d then group_ref (number_of 10 [c, d]) [] else group_ref (c - 48) cs
             | [] \<Rightarrow> group_ref (c - 48) [])
          else
            (case map_of escapes c of
               Some x \<Rightarrow> Inr ([RChar x], cs)
             | None \<Rightarrow> if 65 \<le> c \<and> c \<le> 90 \<or> 97 \<le> c \<and> c \<le> 122 then Inl PatternError else Inr ([RChar 92, RChar c], cs)))"

lemma before_length: "before sep s = Some x \<Longrightarrow> length x \<le> length s"
  by (induction s arbitrary: x) (auto split: if_splits)

lemma escape_shorter: "escape_at ident s = Inr (ps, rest) \<Longrightarrow> length rest \<le> length s"
  by (auto simp: escape_at_def named_group_def group_ref_def Let_def split: list.splits if_splits option.splits)

function parse_repl :: "(ucs \<Rightarrow> bool) \<Rightarrow> ucs \<Rightarrow> exn + rpiece list" where
  "parse_repl ident [] = Inr []"
| "parse_repl ident (c # cs) =
     (if c = 92 then
        (case escape_at ident cs of Inl e \<Rightarrow> Inl e
         | Inr (ps, rest) \<Rightarrow> map_sum id ((@) ps) (parse_repl ident rest))
      else map_sum id ((#) (RChar c)) (parse_repl ident cs))"
  by pat_completeness auto
termination
  by (relation "measure (\<lambda>(i, s). length s)") (auto dest!: escape_shorter)

text \<open>The groups of a match of a loop: the match, the variable, the list, the body.\<close>

fun piece_of :: "ucs \<times> ucs \<times> ucs \<times> ucs \<Rightarrow> rpiece \<Rightarrow> ucs" where
  "piece_of m (RChar c) = [c]"
| "piece_of (w, x, xs, b) (RGroup n) = (if n = 0 then w else if n = 1 then x else if n = 2 then xs else b)"

definition loop_match :: "ucs \<Rightarrow> ((ucs \<times> ucs \<times> ucs \<times> ucs) \<times> nat) option" where
  "loop_match s = map_option (\<lambda>((x, xs, b), n). ((take n s, x, xs, b), n)) (for_at True s)"

definition sub_loops :: "(ucs \<Rightarrow> bool) \<Rightarrow> ucs \<Rightarrow> ucs \<Rightarrow> exn + ucs" where
  "sub_loops ident new s =
     map_sum id (\<lambda>ps. concat (map (\<lambda>p. case p of Plain c \<Rightarrow> [c] | Hit m \<Rightarrow> concat (map (piece_of m) ps)) (scan loop_match s)))
       (parse_repl ident new)"

section \<open>Rendering\<close>

definition if_step :: "(ucs \<times> ev) list \<Rightarrow> ucs \<times> ucs \<Rightarrow> ucs \<Rightarrow> ucs" where
  "if_step ctx m r = (case m of (c, body) \<Rightarrow>
     py_replace (ucs_of ''{% if '' @ c @ ucs_of '' %}'' @ body @ ucs_of ''{% endif %}'')
       (if eval_condition (strip c) ctx then body else []) r)"

definition slot_step :: "(ucs \<Rightarrow> ucs) \<Rightarrow> (ucs \<times> ev) list \<Rightarrow> ucs \<Rightarrow> ucs \<Rightarrow> ucs" where
  "slot_step quote ctx x r =
     (let v = get_nested_value ctx (strip x) in
      if v = ENone then r else py_replace (ucs_of ''{{'' @ x @ ucs_of ''}}'') (e_str quote v) r)"

definition fill_slots :: "(ucs \<Rightarrow> ucs) \<Rightarrow> (ucs \<times> ev) list \<Rightarrow> ucs \<Rightarrow> ucs" where
  "fill_slots quote ctx r = fold (slot_step quote ctx) (hits (scan slot_at r)) r"

fun collect :: "('e + 'a) list \<Rightarrow> 'e + 'a list" where
  "collect [] = Inr []"
| "collect (r # rs) = (case r of Inl e \<Rightarrow> Inl e | Inr x \<Rightarrow> map_sum id ((#) x) (collect rs))"

definition loop_items :: "(ucs \<times> ev) list \<Rightarrow> ucs \<Rightarrow> ev list option" where
  "loop_items ctx xs =
     (case map_of ctx (strip xs) of None \<Rightarrow> Some [] | Some (EList vs) \<Rightarrow> Some vs | Some _ \<Rightarrow> None)"

lemma scan_hit: "Hit m \<in> set (scan f s) \<Longrightarrow> \<exists>u n. f u = Some (m, n) \<and> u \<noteq> [] \<and> length u \<le> length s"
proof (induction f s rule: scan.induct)
  case (2 f c cs)
  show ?case
  proof (cases "f (c # cs)")
    case None
    with 2 show ?thesis by fastforce
  next
    case (Some y)
    obtain x n where y: "y = (x, n)" by (cases y)
    show ?thesis
    proof (cases "m = x")
      case True
      then show ?thesis using Some y by (intro exI [of _ "c # cs"]) auto
    next
      case False
      with 2(3) Some y have "Hit m \<in> set (scan f (drop (n - 1) cs))" by simp
      from 2(2) [OF Some y [symmetric] this] show ?thesis by (fastforce simp: le_diff_conv)
    qed
  qed
qed simp

lemma hits_in: "m \<in> set (hits ps) \<longleftrightarrow> Hit m \<in> set ps"
  by (induction ps rule: hits.induct) auto

lemma loop_body_shorter:
  assumes "hits (scan (for_at d) s) = (x, xs, body) # ms"
  shows "length body < length s"
proof -
  have "Hit (x, xs, body) \<in> set (scan (for_at d) s)" using assms hits_in [of "(x, xs, body)"] by (metis list.set_intros(1))
  from scan_hit [OF this] obtain u n where u: "for_at d u = Some ((x, xs, body), n)" "u \<noteq> []" "length u \<le> length s" by blast
  then obtain s1 h s2 where a: "literal_at (ucs_of ''{% for '') u = Some s1" "header_at s1 = Some (h, s2)" "before (ucs_of ''{% endfor %}'') s2 = Some body"
    by (auto simp: for_at_def bind_eq_Some_conv split: if_splits)
  have "length s1 < length u" using a(1) u(2) by (auto simp: literal_Some ucs_of_def)
  moreover have "length s2 \<le> length s1"
    using a(2) by (auto simp: header_at_def Let_def literal_at_def split: if_splits)
  ultimately show ?thesis using before_length [OF a(3)] u(3) by linarith
qed

function render_string :: "(ucs \<Rightarrow> bool) \<Rightarrow> (ucs \<Rightarrow> ucs) \<Rightarrow> ucs \<Rightarrow> (ucs \<times> ev) list \<Rightarrow> exn + ucs" where
  "render_string ident quote template ctx =
     (let r = fold (if_step ctx) (hits (scan if_at template)) template in
      map_sum id (fill_slots quote ctx)
        (case hits (scan (for_at False) template) of
           [] \<Rightarrow> Inr r
         | (x, xs, body) # _ \<Rightarrow>
             (case loop_items ctx xs of
                None \<Rightarrow> Inr r
              | Some vs \<Rightarrow>
                  (case collect (map (\<lambda>v. render_string ident quote body (AList.update (strip x) v ctx)) vs) of
                     Inl e \<Rightarrow> Inl e
                   | Inr ts \<Rightarrow> sub_loops ident (concat ts) r))))"
  by pat_completeness auto
termination
  by (relation "measure (\<lambda>(i, q, t, c). length t)") (auto dest: loop_body_shorter)

section \<open>The engine\<close>

record engine_template =
  et_template :: ucs
  et_variables :: "ucs list"
  et_created :: time

type_synonym engine = "(string \<times> engine_template) list"

text \<open>\<open>arrange\<close> is the order in which a set gives its elements.\<close>

definition extract_variables :: "(ucs list \<Rightarrow> ucs list) \<Rightarrow> ucs \<Rightarrow> ucs list" where
  "extract_variables arrange s = arrange (remdups (hits (scan slot_at s)))"

definition create_template ::
  "(ucs list \<Rightarrow> ucs list) \<Rightarrow> string \<Rightarrow> ucs \<Rightarrow> ucs list option \<Rightarrow> time \<Rightarrow> engine \<Rightarrow> engine_template \<times> engine" where
  "create_template arrange name s variables now e =
     (let t = \<lparr>et_template = s,
               et_variables = (case variables of Some (v # vs) \<Rightarrow> v # vs | _ \<Rightarrow> extract_variables arrange s),
               et_created = now\<rparr>
      in (t, AList.update name t e))"

definition render_template :: "(ucs \<Rightarrow> bool) \<Rightarrow> (ucs \<Rightarrow> ucs) \<Rightarrow> string \<Rightarrow> (ucs \<times> ev) list \<Rightarrow> engine \<Rightarrow> exn + ucs" where
  "render_template ident quote name ctx e =
     (case map_of e name of None \<Rightarrow> Inl ValueError | Some t \<Rightarrow> render_string ident quote (et_template t) ctx)"

section \<open>What conditions mean\<close>

lemma split_aux_step:
  "split_aux sep cur [] = [cur]"
  "split_aux sep cur (c # cs) =
    (if sep \<noteq> [] \<and> starts_with sep (c # cs) then cur # split_aux sep [] (drop (length sep) (c # cs)) else split_aux sep (cur @ [c]) cs)"
  by (subst split_aux.simps, simp)+

lemma split_aux_absent: "c \<notin> set s \<Longrightarrow> split_aux [c] cur s = [cur @ s]"
proof (induction s arbitrary: cur)
  case (Cons d s)
  then show ?case by (auto simp: starts_with_def split_aux_step)
qed (simp add: split_aux_step)

lemma split_aux_once: "c \<notin> set a \<Longrightarrow> c \<notin> set b \<Longrightarrow> split_aux [c] cur (a @ c # b) = [cur @ a, b]"
  by (induction a arbitrary: cur) (auto simp: starts_with_def split_aux_step split_aux_absent)

lemma split_once: "c \<notin> set a \<Longrightarrow> c \<notin> set b \<Longrightarrow> py_split [c] (a @ c # b) = [a, b]"
  by (simp add: py_split_def split_aux_once)

lemma not_twice: "c \<notin> set a \<Longrightarrow> c \<notin> set b \<Longrightarrow> \<not> sub_in [c, c] (a @ c # b)"
proof
  assume c: "c \<notin> set a" "c \<notin> set b" and "sub_in [c, c] (a @ c # b)"
  then obtain u v where "a @ c # b = u @ [c, c] @ v" by (auto simp: sub_in_iff)
  then have "count_list (a @ c # b) c = count_list (u @ [c, c] @ v) c" by simp
  then show False using c by (simp add: count_list_0_iff)
qed

lemma not_without: "c \<in> set w \<Longrightarrow> c \<notin> set s \<Longrightarrow> \<not> sub_in w s"
  by (auto simp: sub_in_iff)

lemma condition_skip: "\<not> sub_in name c \<Longrightarrow> condition_loop ((operator, name) # ops) c ctx = condition_loop ops c ctx"
  by simp

lemma condition_hit:
  "sub_in name c \<Longrightarrow> py_split name c = [l, r] \<Longrightarrow>
   condition_loop ((operator, name) # ops) c ctx = compares operator (get_nested_value ctx (strip l)) (unquote r)"
  by simp

definition no_comparator :: "ucs \<Rightarrow> bool" where
  "no_comparator s \<longleftrightarrow> set s \<inter> {33, 60, 61, 62} = {}"

text \<open>
  An inclusive comparison is not one: \<open>a >= b\<close> asks whether the value of \<open>a\<close> is a text greater than
  \<open>= b\<close>, and \<open>a <= b\<close> whether it is a text less than that.  For a number both are false.
\<close>

theorem orders_never_inclusive:
  assumes "no_comparator a" and "no_comparator b"
  shows "eval_condition (a @ ucs_of ''>='' @ b) ctx = (case get_nested_value ctx (strip a) of EStr s \<Rightarrow> text_less (unquote (61 # b)) s | _ \<Rightarrow> False) \<and>
    eval_condition (a @ ucs_of ''<='' @ b) ctx = (case get_nested_value ctx (strip a) of EStr s \<Rightarrow> text_less s (unquote (61 # b)) | _ \<Rightarrow> False)"
proof -
  have n: "61 \<notin> set a" "61 \<notin> set b" "62 \<notin> set a" "62 \<notin> set b" "60 \<notin> set a" "60 \<notin> set b" "33 \<notin> set a" "33 \<notin> set b"
    using assms by (auto simp: no_comparator_def)
  have e: "\<not> sub_in [61, 61] (a @ [62, 61] @ b)" "\<not> sub_in [61, 61] (a @ [60, 61] @ b)"
    using not_twice [of 61 "a @ [62]" b] not_twice [of 61 "a @ [60]" b] n by simp_all
  have d: "\<not> sub_in [33, 61] (a @ [62, 61] @ b)" "\<not> sub_in [33, 61] (a @ [60, 61] @ b)" "\<not> sub_in [62] (a @ [60, 61] @ b)"
    by (rule not_without [of 33] not_without [of 62]; use n in simp)+
  have i: "sub_in [62] (a @ [62, 61] @ b)" "sub_in [60] (a @ [60, 61] @ b)" by (auto simp: sub_in_iff)
  have s: "py_split [62] (a @ [62, 61] @ b) = [a, 61 # b]" "py_split [60] (a @ [60, 61] @ b) = [a, 61 # b]"
    using split_once [of 62 a "61 # b"] split_once [of 60 a "61 # b"] n by simp_all
  have u: "ucs_of ''>='' = [62, 61]" "ucs_of ''<='' = [60, 61]" by (simp_all add: ucs_of_def)
  show ?thesis unfolding u eval_condition_def comparators_def
    by (simp only: condition_skip e d condition_hit [OF i(1) s(1)] condition_hit [OF i(2) s(2)] not_False_eq_True compares_def comparator.case)
qed

lemma orders_never_inclusive_witness:
  "\<not> eval_condition (ucs_of ''n >= 3'') [(ucs_of ''n'', EInt 5)] \<and> \<not> eval_condition (ucs_of ''n <= 3'') [(ucs_of ''n'', EInt 2)]"
proof -
  have "no_comparator (ucs_of ''n '')" "no_comparator (ucs_of '' 3'')" by (simp_all add: no_comparator_def ucs_of_def)
  note t = orders_never_inclusive [OF this]
  have "get_nested_value [(ucs_of ''n'', v)] (strip (ucs_of ''n '')) = v" for v
    by (simp add: get_nested_value_def ucs_of_def strip_def strip_by_def is_ws_def py_split_def starts_with_def split_aux_step)
  moreover have "ucs_of ''n >= 3'' = ucs_of ''n '' @ ucs_of ''>='' @ ucs_of '' 3''" "ucs_of ''n <= 3'' = ucs_of ''n '' @ ucs_of ''<='' @ ucs_of '' 3''"
    by (simp_all add: ucs_of_def)
  ultimately show ?thesis using t [of "[(ucs_of ''n'', EInt 5)]"] t [of "[(ucs_of ''n'', EInt 2)]"] by (simp only: ev.case simp_thms)
qed

text \<open>An equation holds for a text only: a number equals no number.\<close>

lemma equation_of_texts:
  assumes "no_comparator a" and "no_comparator b"
  shows "eval_condition (a @ ucs_of ''=='' @ b) ctx \<longleftrightarrow> get_nested_value ctx (strip a) = EStr (unquote b)"
proof -
  have n: "61 \<notin> set a" "61 \<notin> set b" using assms by (auto simp: no_comparator_def)
  have "split_aux [61, 61] cur b = [cur @ b]" for cur
    using n(2) by (induction b arbitrary: cur) (auto simp: starts_with_def split_aux_step)
  then have "split_aux [61, 61] cur (a @ [61, 61] @ b) = [cur @ a, b]" for cur
    using n(1) by (induction a arbitrary: cur) (auto simp: starts_with_def split_aux_step)
  then have "py_split [61, 61] (a @ [61, 61] @ b) = [a, b]" by (simp add: py_split_def)
  moreover have "sub_in [61, 61] (a @ [61, 61] @ b)" by (auto simp: sub_in_iff)
  ultimately show ?thesis by (simp add: eval_condition_def comparators_def compares_def ucs_of_def)
qed

section \<open>What loops give\<close>

lemma parse_plain: "92 \<notin> set s \<Longrightarrow> parse_repl ident s = Inr (map RChar s)"
  by (induction s) auto

lemma plain_pieces: "concat (map (piece_of m) (map RChar s)) = s"
  by (induction s) (cases m; simp)+

lemma hits_plain: "hits (map Plain s) = []"
  by (induction s) auto

lemma one_slot:
  "scan if_at (ucs_of ''{{x}}'') = map Plain (ucs_of ''{{x}}'')"
  "scan (for_at False) (ucs_of ''{{x}}'') = map Plain (ucs_of ''{{x}}'')"
  "scan slot_at (ucs_of ''{{x}}'') = [Hit (ucs_of ''x'')]"
  by (simp_all add: ucs_of_def if_at_def for_at_def slot_at_def literal_at_def starts_with_def Let_def)

lemma replace_whole: "s \<noteq> [] \<Longrightarrow> py_replace s new s = new"
  by (cases s) (simp_all add: py_replace_def py_split_def split_aux_step starts_with_def)

lemma key_x: "get_nested_value (AList.update (ucs_of ''x'') v ctx) (strip (ucs_of ''x'')) = v"
  by (simp add: get_nested_value_def ucs_of_def strip_def strip_by_def is_ws_def py_split_def starts_with_def split_aux_step)

lemma slot_filled: "render_string ident quote (ucs_of ''{{x}}'') (AList.update (ucs_of ''x'') (EStr t) ctx) = Inr t"
proof -
  have w: "py_replace (ucs_of ''{{'' @ ucs_of ''x'' @ ucs_of ''}}'') t (ucs_of ''{{x}}'') = t"
    using replace_whole [of "ucs_of ''{{x}}''" t] by (simp add: ucs_of_def)
  show ?thesis by (simp add: one_slot hits_plain fill_slots_def slot_step_def key_x e_str_def w)
qed

definition two_loops :: ucs where
  "two_loops = ucs_of ''{% for x in xs %}{{x}}{% endfor %};{% for y in ys %}{{y}}{% endfor %}''"

lemma two_loops_found:
  "scan if_at two_loops = map Plain two_loops"
  "hits (scan (for_at False) two_loops) = [(ucs_of ''x'', ucs_of ''xs'', ucs_of ''{{x}}''), (ucs_of ''y'', ucs_of ''ys'', ucs_of ''{{y}}'')]"
  by (simp_all add: two_loops_def ucs_of_def if_at_def for_at_def literal_at_def starts_with_def header_at_def Let_def split_in_def)

lemma two_loops_matched:
  "concat (map (\<lambda>p. case p of Plain c \<Rightarrow> [c] | Hit m \<Rightarrow> concat (map (piece_of m) (map RChar s))) (scan loop_match two_loops)) = s @ [59] @ s"
  unfolding plain_pieces
  by (simp add: two_loops_def ucs_of_def loop_match_def for_at_def literal_at_def starts_with_def header_at_def Let_def split_in_def)

lemma collect_map: "collect (map (\<lambda>x. Inr (f x)) xs) = Inr (map f xs)"
  by (induction xs) auto

text \<open>
  Only the first loop of a template is rendered, and every loop is replaced by what it gave: the second
  list is never read.
\<close>

theorem second_loop_lost:
  assumes "map_of ctx (ucs_of ''xs'') = Some (EList (map EStr ts))" and "list_all (\<lambda>t. 92 \<notin> set t \<and> 123 \<notin> set t) ts"
  shows "render_string ident quote two_loops ctx = Inr (concat ts @ ucs_of '';'' @ concat ts)"
proof -
  have x: "strip (ucs_of ''x'') = ucs_of ''x''" "strip (ucs_of ''xs'') = ucs_of ''xs''"
    by (simp_all add: ucs_of_def strip_def strip_by_def is_ws_def)
  have "map (\<lambda>v. render_string ident quote (ucs_of ''{{x}}'') (AList.update (ucs_of ''x'') v ctx)) (map EStr ts) = map (\<lambda>t. Inr (id t)) ts"
    by (simp only: map_map o_def slot_filled id_apply)
  then have c: "collect (map (\<lambda>v. render_string ident quote (ucs_of ''{{x}}'') (AList.update (strip (ucs_of ''x'')) v ctx)) (map EStr ts)) = Inr ts"
    by (simp only: x collect_map list.map_id)
  have "92 \<notin> set (concat ts)" using assms(2) by (auto simp: list_all_iff)
  then have s: "sub_loops ident (concat ts) two_loops = Inr (concat ts @ [59] @ concat ts)"
    unfolding sub_loops_def parse_plain [OF \<open>92 \<notin> set (concat ts)\<close>] map_sum.simps two_loops_matched by simp
  have i: "loop_items ctx (ucs_of ''xs'') = Some (map EStr ts)" using assms(1) by (simp add: loop_items_def x)
  have "scan slot_at (concat ts @ [59] @ concat ts) = map Plain (concat ts @ [59] @ concat ts)"
    by (rule scan_nothing) (use assms(2) in \<open>auto simp: list_all_iff slot_at_def literal_at_def starts_with_def ucs_of_def\<close>)
  then have f: "fill_slots quote ctx (concat ts @ [59] @ concat ts) = concat ts @ [59] @ concat ts"
    by (simp only: fill_slots_def hits_plain fold_simps)
  show ?thesis
    unfolding render_string.simps [of _ _ two_loops] two_loops_found hits_plain Let_def fold_simps list.case prod.case i option.case c sum.case s map_sum.simps f
    by (simp add: ucs_of_def)
qed

lemma second_loop_lost_witness:
  "render_string (\<lambda>s. True) (\<lambda>s. s) two_loops [(ucs_of ''xs'', EList (map EStr [ucs_of ''a'', ucs_of ''b''])), (ucs_of ''ys'', EList [EStr (ucs_of ''c'')])] =
    Inr (ucs_of ''ab;ab'')"
proof -
  let ?ctx = "[(ucs_of ''xs'', EList (map EStr [ucs_of ''a'', ucs_of ''b''])), (ucs_of ''ys'', EList [EStr (ucs_of ''c'')])]"
  have "map_of ?ctx (ucs_of ''xs'') = Some (EList (map EStr [ucs_of ''a'', ucs_of ''b'']))" by simp
  moreover have "list_all (\<lambda>t. 92 \<notin> set t \<and> 123 \<notin> set t) [ucs_of ''a'', ucs_of ''b'']" by (simp add: ucs_of_def)
  ultimately have "render_string (\<lambda>s. True) (\<lambda>s. s) two_loops ?ctx = Inr (concat [ucs_of ''a'', ucs_of ''b''] @ ucs_of '';'' @ concat [ucs_of ''a'', ucs_of ''b''])"
    by (rule second_loop_lost)
  moreover have "concat [ucs_of ''a'', ucs_of ''b''] @ ucs_of '';'' @ concat [ucs_of ''a'', ucs_of ''b''] = ucs_of ''ab;ab''" by (simp add: ucs_of_def)
  ultimately show ?thesis by (simp only:)
qed

text \<open>
  A loop whose body has a line break is not rendered at all, and an element with a backslash may raise:
  the loop's text is read as the replacement template of \<open>re.sub\<close>.
\<close>

lemma loop_over_lines_ignored:
  "hits (scan (for_at False) (ucs_of ''{% for x in xs %}'' @ [10] @ ucs_of ''{% endfor %}'')) = []"
  by (simp add: ucs_of_def for_at_def literal_at_def starts_with_def header_at_def Let_def split_in_def)

lemma backslash_raises: "sub_loops ident (ucs_of ''C:'' @ [92] @ ucs_of ''dir'' @ s) r = Inl PatternError"
  by (simp add: sub_loops_def ucs_of_def escape_at_def is_ascii_digit_def escapes_def)

text \<open>Filters are never applied: a slot with one is a path that no context has.\<close>

lemma filters_unused: "ctx = [(ucs_of ''name'', v)] \<Longrightarrow> slot_step quote ctx (ucs_of ''name|upper'') r = r"
  by (simp add: slot_step_def get_nested_value_def ucs_of_def strip_def strip_by_def is_ws_def py_split_def starts_with_def split_aux_step)

end
