(* ===== verification/Prompts.thy ===== *)
theory Prompts
  imports Template
begin

text \<open>
  Prompt versions (\<^verbatim>\<open>shared/prompt_versioning.py\<close>) and the shared prompt factory
  (\<^verbatim>\<open>shared/prompt_factory.py\<close>).
\<close>

section \<open>Versions\<close>

record prompt_version =
  pv_version :: string
  pv_content :: ucs
  pv_created_at :: time
  pv_created_by :: "string option"
  pv_changelog :: "string option"

type_synonym prompt_versions = "(string \<times> prompt_version list) list"

definition list_prompt_versions :: "string \<Rightarrow> prompt_versions \<Rightarrow> prompt_version list" where
  "list_prompt_versions pid m = (case map_of m pid of None \<Rightarrow> [] | Some vs \<Rightarrow> vs)"

definition semver :: "nat \<Rightarrow> string" where
  "semver n = ''1.'' @ show_int (int n) @ ''.0''"

definition create_version ::
  "string \<Rightarrow> ucs \<Rightarrow> string option \<Rightarrow> string option \<Rightarrow> time \<Rightarrow> prompt_versions \<Rightarrow> prompt_version \<times> prompt_versions" where
  "create_version pid content changelog created_by now m =
     (let vs = list_prompt_versions pid m;
          v = \<lparr>pv_version = semver (length vs + 1), pv_content = content, pv_created_at = now, pv_created_by = created_by,
               pv_changelog = changelog\<rparr>
      in (v, AList.update pid (vs @ [v]) m))"

definition get_version :: "string \<Rightarrow> string option \<Rightarrow> prompt_versions \<Rightarrow> prompt_version option" where
  "get_version pid version m =
     (case map_of m pid of None \<Rightarrow> None
      | Some vs \<Rightarrow>
          if version \<noteq> None \<and> version \<noteq> Some [] then find (\<lambda>v. Some (pv_version v) = version) vs
          else if vs \<noteq> [] then Some (last vs) else None)"

text \<open>A target that does not exist is no error: the version before the latest is restored instead.\<close>

definition rollback_prompt :: "string \<Rightarrow> string option \<Rightarrow> time \<Rightarrow> prompt_versions \<Rightarrow> prompt_version option \<times> prompt_versions" where
  "rollback_prompt pid target now m =
     (case map_of m pid of None \<Rightarrow> (None, m)
      | Some vs \<Rightarrow>
          if vs = [] then (None, m)
          else
            (case (if target \<noteq> None \<and> target \<noteq> Some [] then find (\<lambda>v. Some (pv_version v) = target) vs else None) of
               Some v \<Rightarrow>
                 (let w = \<lparr>pv_version = semver (length vs + 1), pv_content = pv_content v, pv_created_at = now,
                           pv_created_by = None, pv_changelog = Some (''Rolled back to '' @ the target)\<rparr>
                  in (Some w, AList.update pid (vs @ [w]) m))
             | None \<Rightarrow>
                 (let previous = (if 1 < length vs then vs ! (length vs - 2) else last vs)
                  in map_prod Some id
                       (create_version pid (pv_content previous) (Some ''Rolled back to previous version'') None now m))))"

text \<open>The difference of two versions is that of \<open>difflib\<close>, an argument.\<close>

definition get_version_diff ::
  "(ucs \<Rightarrow> ucs \<Rightarrow> string \<Rightarrow> string \<Rightarrow> ucs) \<Rightarrow> string \<Rightarrow> string \<Rightarrow> string \<Rightarrow> prompt_versions \<Rightarrow> ucs option" where
  "get_version_diff unified pid v1 v2 m =
     (case (get_version pid (Some v1) m, get_version pid (Some v2) m) of
        (Some a, Some b) \<Rightarrow> Some (unified (pv_content a) (pv_content b) v1 v2)
      | _ \<Rightarrow> None)"

definition get_latest :: "string \<Rightarrow> prompt_versions \<Rightarrow> prompt_version option" where
  "get_latest pid m = get_version pid None m"

inductive version_step :: "prompt_versions \<Rightarrow> prompt_versions \<Rightarrow> bool" where
  create: "version_step m (snd (create_version pid content changelog created_by now m))"
| rollback: "version_step m (snd (rollback_prompt pid target now m))"

definition versions_numbered :: "prompt_versions \<Rightarrow> bool" where
  "versions_numbered m \<longleftrightarrow> (\<forall>pid. let vs = list_prompt_versions pid m in map pv_version vs = map (\<lambda>i. semver (i + 1)) [0..<length vs])"

lemma semver_inj [simp]: "semver i = semver j \<longleftrightarrow> i = j"
  by (simp add: semver_def show_int_def dec_digits_inj)

lemma versions_after_create:
  "list_prompt_versions q (snd (create_version pid content c b now m)) =
     list_prompt_versions q m @ (if q = pid then [fst (create_version pid content c b now m)] else [])"
  by (simp add: create_version_def list_prompt_versions_def Let_def)

lemma version_step_appends:
  assumes "version_step m m'"
  shows "\<exists>new. list_prompt_versions pid m' = list_prompt_versions pid m @ new \<and> length new \<le> 1 \<and>
    list_all (\<lambda>v. pv_version v = semver (length (list_prompt_versions pid m) + 1)) new"
  using assms
proof cases
  case (create q content c b now)
  then show ?thesis
    by (auto simp: versions_after_create) (auto simp: create_version_def Let_def)
next
  case (rollback q target now)
  show ?thesis
  proof (cases "map_of m q")
    case (Some vs)
    then have vs: "list_prompt_versions q m = vs" by (simp add: list_prompt_versions_def)
    have u: "list_prompt_versions pid (AList.update q (vs @ [w]) m) = list_prompt_versions pid m @ (if pid = q then [w] else [])" for w
      using Some by (simp add: list_prompt_versions_def)
    show ?thesis
    proof (cases "vs = []")
      case False
      show ?thesis
      proof (cases "if target \<noteq> None \<and> target \<noteq> Some [] then find (\<lambda>v. Some (pv_version v) = target) vs else None")
        case None
        with Some False rollback show ?thesis
          by (auto simp: rollback_prompt_def Let_def versions_after_create create_version_def vs u)
      next
        case (Some v)
        with \<open>map_of m q = Some vs\<close> False rollback show ?thesis
          by (auto simp: rollback_prompt_def Let_def vs u)
      qed
    qed (use Some rollback in \<open>simp add: rollback_prompt_def\<close>)
  qed (use rollback in \<open>simp add: rollback_prompt_def\<close>)
qed

interpretation versions: invariant_system "\<lambda>m. m = []" version_step versions_numbered
proof
  show "versions_numbered m" if "m = []" for m using that by (simp add: versions_numbered_def list_prompt_versions_def)
  show "versions_numbered m'" if i: "versions_numbered m" and st: "version_step m m'" for m m'
    unfolding versions_numbered_def Let_def
  proof
    fix pid
    obtain new where "list_prompt_versions pid m' = list_prompt_versions pid m @ new" "length new \<le> 1"
        "list_all (\<lambda>v. pv_version v = semver (length (list_prompt_versions pid m) + 1)) new"
      using version_step_appends [OF st] by blast
    with i show "map pv_version (list_prompt_versions pid m') = map (\<lambda>i. semver (i + 1)) [0..<length (list_prompt_versions pid m')]"
      by (cases new) (auto simp: versions_numbered_def Let_def)
  qed
qed

lemma version_steps_append:
  "rtranclp version_step m m' \<Longrightarrow> \<exists>new. list_prompt_versions pid m' = list_prompt_versions pid m @ new"
proof (induction rule: rtranclp_induct)
  case (step m1 m2)
  from version_step_appends [OF step(2), of pid] step(3) show ?case by fastforce
qed simp

lemma find_numbered:
  assumes "map pv_version vs = map (\<lambda>i. semver (i + 1)) [0..<length vs]" and "i < length vs"
  shows "find (\<lambda>v. pv_version v = semver (i + 1)) vs = Some (vs ! i)"
proof -
  have v: "pv_version (vs ! j) = semver (j + 1)" if "j < length vs" for j
    using arg_cong [OF assms(1), of "\<lambda>l. l ! j"] that by simp
  have "find P vs = Some (vs ! i)" if "P (vs ! i)" "\<forall>j < i. \<not> P (vs ! j)" for P
    unfolding find_Some_iff by (rule exI [of _ i]) (use assms(2) that in simp)
  moreover have "pv_version (vs ! j) \<noteq> semver (i + 1)" if "j < i" for j
    using v [of j] assms(2) that by simp
  ultimately show ?thesis using v [OF assms(2)] by simp
qed

text \<open> 
  History is kept: whatever is created or rolled back later, version \<open>1.i.0\<close> of a prompt stays what it
  was when it was the \<open>i\<close>th, and it is the only one with that number.
\<close>

theorem versions_kept:
  assumes "reach (\<lambda>m. m = []) version_step m" and "rtranclp version_step m m'" and "i < length (list_prompt_versions pid m)"
  shows "get_version pid (Some (semver (i + 1))) m' = Some (list_prompt_versions pid m ! i) \<and>
    distinct (map pv_version (list_prompt_versions pid m'))"
proof -
  have "versions_numbered m'" using versions.steps_inv [OF assms(2) versions.reach_inv [OF assms(1)]] .
  then have n: "map pv_version (list_prompt_versions pid m') = map (\<lambda>i. semver (i + 1)) [0..<length (list_prompt_versions pid m')]"
    by (simp add: versions_numbered_def Let_def)
  obtain new where a: "list_prompt_versions pid m' = list_prompt_versions pid m @ new"
    using version_steps_append [OF assms(2)] by blast
  with assms(3) have i: "i < length (list_prompt_versions pid m')" "list_prompt_versions pid m' ! i = list_prompt_versions pid m ! i"
    by (simp_all add: nth_append)
  have "map_of m' pid = Some (list_prompt_versions pid m')"
    using i(1) by (cases "map_of m' pid") (simp_all add: list_prompt_versions_def)
  moreover have "semver (i + 1) \<noteq> []" by (simp add: semver_def)
  ultimately have "get_version pid (Some (semver (i + 1))) m' = Some (list_prompt_versions pid m ! i)"
    unfolding get_version_def using find_numbered [OF n i(1)] i(2) by simp
  moreover have "distinct (map pv_version (list_prompt_versions pid m'))"
    unfolding n by (simp add: distinct_map inj_on_def)
  ultimately show ?thesis by simp
qed

definition demo_versions :: prompt_versions where
  "demo_versions = snd (create_version ''greeting'' (ucs_of ''Hi'') None None 1 [])"

lemma versions_kept_witness:
  "get_version ''greeting'' (Some (semver 1)) (snd (rollback_prompt ''greeting'' None 2 demo_versions)) = Some (list_prompt_versions ''greeting'' demo_versions ! 0)"
proof -
  have "reach (\<lambda>m. m = []) version_step ([] :: prompt_versions)" by (rule reach_init) simp
  then have r: "reach (\<lambda>m. m = []) version_step demo_versions"
    unfolding demo_versions_def by (rule reach_step) (rule version_step.create)
  have "rtranclp version_step demo_versions (snd (rollback_prompt ''greeting'' None 2 demo_versions))"
    by (rule r_into_rtranclp) (rule version_step.rollback)
  from versions_kept [OF r this, of 0 "''greeting''"] show ?thesis
    by (simp add: demo_versions_def versions_after_create)
qed

text \<open>
  A rollback adds a version rather than removing one, so that a second rollback takes back the first:
  no number of rollbacks reaches the version before the last but one.
\<close>

theorem rollbacks_alternate:
  assumes "1 < length (list_prompt_versions pid m)"
  shows "map pv_content (list_prompt_versions pid (((\<lambda>m. snd (rollback_prompt pid None now m)) ^^ n) m)) =
    map pv_content (list_prompt_versions pid m) @
    map (\<lambda>i. pv_content (list_prompt_versions pid m ! (length (list_prompt_versions pid m) - (if even i then 2 else 1)))) [0..<n]"
proof (induction n)
  case (Suc n)
  let ?m = "((\<lambda>m. snd (rollback_prompt pid None now m)) ^^ n) m"
  let ?vs = "list_prompt_versions pid m" and ?ws = "list_prompt_versions pid ?m"
  have len: "length ?ws = length ?vs + n" using arg_cong [OF Suc, of length] by simp
  have "map_of ?m pid = Some ?ws" using len assms by (auto simp: list_prompt_versions_def split: option.splits)
  then have r: "snd (rollback_prompt pid None now ?m) =
      snd (create_version pid (pv_content (?ws ! (length ?ws - 2))) (Some ''Rolled back to previous version'') None now ?m)"
    using len assms by (auto simp: rollback_prompt_def Let_def)
  have "pv_content (?ws ! (length ?ws - 2)) = map pv_content ?ws ! (length ?ws - 2)" using len assms by simp
  also have "\<dots> = pv_content (?vs ! (length ?vs - (if even n then 2 else 1)))"
  proof (cases "n < 2")
    case True
    then consider "n = 0" | "n = 1" by linarith
    then show ?thesis using assms unfolding Suc len by cases (simp_all add: nth_append)
  next
    case False
    then have "length ?vs + n - 2 = length ?vs + (n - 2)" "even (n - 2) = even n" by simp_all
    then show ?thesis using False unfolding Suc len by (simp add: nth_append)
  qed
  finally show ?case
    using Suc by (simp add: r versions_after_create) (simp add: create_version_def Let_def)
qed simp

lemma unknown_target_rolls_back:
  assumes "find (\<lambda>v. pv_version v = target) (list_prompt_versions pid m) = None"
  shows "rollback_prompt pid (Some target) now m = rollback_prompt pid None now m"
  using assms by (cases "map_of m pid") (simp_all add: rollback_prompt_def list_prompt_versions_def)

section \<open>The shared factory\<close>

type_synonym few_shots = "(string \<times> few_shot list) list"

text \<open>
  What the factory reads of a context: the user's name and the entry \<open>user_info\<close>, which may lack a
  name, the history and the memory.
\<close>

record prompt_context =
  pc_user_name :: "ucs option"
  pc_user_info :: "ucs option option"
  pc_history :: "tval list option"
  pc_memory :: "tval option"

definition text_lines :: "string list \<Rightarrow> ucs" where
  "text_lines ls = py_join [10] (map ucs_of ls)"

definition customer_support_prompt :: "prompt_context \<Rightarrow> ucs" where
  "customer_support_prompt ctx =
     text_lines [''You are a helpful customer support agent. Be friendly, patient, and empathetic.'', '''',
       ''Current User: ''] @ (case pc_user_name ctx of None \<Rightarrow> ucs_of ''User'' | Some n \<Rightarrow> n) @
     text_lines ['''', '''', ''Guidelines:'',
       ''- Acknowledge the user'' @ [CHR 0x27] @ ''s concern'',
       ''- Ask clarifying questions when needed'',
       ''- Provide clear, actionable solutions'',
       ''- End with a follow-up question'']"

definition technical_support_prompt :: ucs where
  "technical_support_prompt = text_lines [''You are a technical support specialist. '', '''', ''Guidelines:'',
     ''- Gather system information first'', ''- Provide step-by-step solutions'',
     ''- Include troubleshooting steps'', ''- Ask for error messages verbatim'']"

definition sales_prompt :: ucs where
  "sales_prompt = text_lines [''You are a helpful sales assistant.'', '''', ''Guidelines:'',
     ''- Understand the customer'' @ [CHR 0x27] @ ''s needs first'', ''- Highlight relevant product features'',
     ''- Provide pricing information when asked'', ''- Never be pushy'']"

definition general_prompt :: ucs where
  "general_prompt = text_lines [''You are a helpful AI assistant.'', '''', ''Guidelines:'',
     ''- Be clear and concise'', ''- Provide accurate information'',
     ''- Admit when you don'' @ [CHR 0x27] @ ''t know'']"

definition create_system_prompt :: "string \<Rightarrow> prompt_context \<Rightarrow> ucs" where
  "create_system_prompt use_case ctx =
     (if use_case = ''customer_support'' then customer_support_prompt ctx
      else if use_case = ''technical_support'' then technical_support_prompt
      else if use_case = ''sales'' then sales_prompt
      else general_prompt)"

definition inject_context :: "(ucs \<Rightarrow> ucs) \<Rightarrow> ucs \<Rightarrow> prompt_context \<Rightarrow> ucs" where
  "inject_context quote base ctx =
     (let parts =
        (case pc_user_info ctx of None \<Rightarrow> []
         | Some n \<Rightarrow> [ucs_of ''User: '' @ (case n of None \<Rightarrow> ucs_of ''Unknown'' | Some t \<Rightarrow> t)]) @
        (case pc_history ctx of None \<Rightarrow> []
         | Some h \<Rightarrow> if h = [] then [] else [ucs_of ''Recent: '' @ repr_of quote (Tlist (last_n 3 h))]) @
        (case pc_memory ctx of None \<Rightarrow> []
         | Some v \<Rightarrow> if is_true v then [ucs_of ''Context: '' @ str_of quote v] else [])
      in if parts = [] then base else base @ [10, 10] @ py_join (ucs_of '' | '') parts)"

definition shared_examples :: "string \<Rightarrow> few_shots \<Rightarrow> few_shot list" where
  "shared_examples ty d = (case map_of d ty of None \<Rightarrow> [] | Some es \<Rightarrow> es)"

definition add_fewshot_example :: "string \<Rightarrow> ucs \<Rightarrow> ucs \<Rightarrow> few_shots \<Rightarrow> few_shot \<times> few_shots" where
  "add_fewshot_example ty i t d =
     (let e = \<lparr>fs_input = i, fs_output = t, fs_score = 1\<rparr> in (e, AList.update ty (shared_examples ty d @ [e]) d))"

definition score_example :: "(ucs \<Rightarrow> ucs) \<Rightarrow> few_shot \<Rightarrow> ucs \<Rightarrow> rat" where
  "score_example lower e current =
     fs_score e + (if take 50 (lower (fs_input e)) = take 50 (lower current) then 1 / 2 else 0)"

definition select_fewshot_examples :: "(ucs \<Rightarrow> ucs) \<Rightarrow> string \<Rightarrow> ucs \<Rightarrow> int \<Rightarrow> few_shots \<Rightarrow> few_shot list" where
  "select_fewshot_examples lower ty current k d =
     py_take k (sort_desc (\<lambda>e. score_example lower e current) (shared_examples ty d))"

definition build_cot_prompt :: "ucs \<Rightarrow> ucs option \<Rightarrow> ucs" where
  "build_cot_prompt question ctx =
     ucs_of ''Let'' @ [0x27] @ ucs_of ''s think step by step.'' @ [10, 10] @ ucs_of ''Question: '' @ question @ [10] @
     (case ctx of None \<Rightarrow> [] | Some c \<Rightarrow> if c = [] then [] else [10] @ ucs_of ''Context: '' @ c @ [10]) @
     [10] @ ucs_of ''Steps:'' @ [10]"

section \<open>Selecting examples\<close>

lemma insort_between:
  "\<forall>y \<in> set ys. g y < g x \<Longrightarrow> \<forall>z \<in> set zs. g x \<le> (g z :: rat) \<Longrightarrow> insort_key g x (ys @ zs) = ys @ x # zs"
proof (induction ys)
  case Nil
  then show ?case by (cases zs) auto
qed auto

lemma sort_desc_two:
  assumes "b < a" and "list_all (\<lambda>x. f x = a \<or> f x = b) xs"
  shows "sort_desc f xs = filter (\<lambda>x. f x = a) xs @ filter (\<lambda>x. f x \<noteq> a) xs"
  using assms(2)
proof (induction xs)
  case (Cons x xs)
  let ?A = "filter (\<lambda>x. f x = a) xs" and ?B = "filter (\<lambda>x. f x \<noteq> a) xs"
  have i: "sort_desc f (x # xs) = insort_key (\<lambda>x. - f x) x (?A @ ?B)"
    using Cons by (simp add: sort_desc_def)
  have b: "f z = b" if "z \<in> set ?B" for z using Cons.prems that by (auto simp: list_all_iff)
  show ?case
  proof (cases "f x = a")
    case True
    have "insort_key (\<lambda>x. - f x) x ([] @ (?A @ ?B)) = [] @ x # (?A @ ?B)"
    proof (rule insort_between)
      have "f z \<le> f x" if "z \<in> set (?A @ ?B)" for z using that b [of z] True assms(1) by (cases "f z = a") simp_all
      then show "\<forall>z \<in> set (?A @ ?B). - f x \<le> - f z" by simp
    qed simp
    with i True show ?thesis by simp
  next
    case False
    with Cons.prems have x: "f x = b" by simp
    have "insort_key (\<lambda>x. - f x) x (?A @ ?B) = ?A @ x # ?B"
    proof (rule insort_between)
      show "\<forall>y \<in> set ?A. - f y < - f x" using x assms(1) by simp
      show "\<forall>z \<in> set ?B. - f x \<le> - f z" unfolding x using b by fastforce
    qed
    with i False show ?thesis by simp
  qed
qed (simp add: sort_desc_def)

definition add_examples :: "string \<Rightarrow> (ucs \<times> ucs) list \<Rightarrow> few_shots \<Rightarrow> few_shots" where
  "add_examples ty es d = fold (\<lambda>(i, t) d. snd (add_fewshot_example ty i t d)) es d"

lemma examples_added:
  "map (\<lambda>e. (fs_input e, fs_output e)) (shared_examples ty (add_examples ty es d)) =
     map (\<lambda>e. (fs_input e, fs_output e)) (shared_examples ty d) @ es \<and>
   (list_all (\<lambda>e. fs_score e = 1) (shared_examples ty d) \<longrightarrow> list_all (\<lambda>e. fs_score e = 1) (shared_examples ty (add_examples ty es d)))"
  by (induction es arbitrary: d)
    (auto simp: add_examples_def add_fewshot_example_def shared_examples_def Let_def split: prod.splits)

text \<open>
  The score of an example can only be the default one, so that the selection is no ranking: the
  examples that begin like the question, in the order they were added, and then the others.
\<close>

theorem examples_partitioned:
  "select_fewshot_examples lower ty q k (add_examples ty es []) =
   py_take k (map (\<lambda>(i, t). \<lparr>fs_input = i, fs_output = t, fs_score = 1\<rparr>)
     (filter (\<lambda>(i, t). take 50 (lower i) = take 50 (lower q)) es @ filter (\<lambda>(i, t). take 50 (lower i) \<noteq> take 50 (lower q)) es))"
proof -
  let ?xs = "shared_examples ty (add_examples ty es [])"
  let ?mk = "\<lambda>(i, t). \<lparr>fs_input = i, fs_output = t, fs_score = 1\<rparr> :: few_shot"
  have l: "list_all (\<lambda>e. fs_score e = 1) ?xs" and m: "map (\<lambda>e. (fs_input e, fs_output e)) ?xs = es"
    using examples_added [of ty es "[]"] by (simp_all add: shared_examples_def)
  have "map ?mk (map (\<lambda>e. (fs_input e, fs_output e)) ?xs) = ?xs"
    using l by (simp add: list_all_iff map_idI)
  then have xs: "?xs = map ?mk es" unfolding m by simp
  have s: "score_example lower (?mk p) q = 3 / 2 \<longleftrightarrow> take 50 (lower (fst p)) = take 50 (lower q)" for p
    by (simp add: score_example_def split_beta)
  have "list_all (\<lambda>e. score_example lower e q = 3 / 2 \<or> score_example lower e q = 1) ?xs"
    using l by (auto simp: list_all_iff score_example_def)
  then have "sort_desc (\<lambda>e. score_example lower e q) (map ?mk es) =
      filter (\<lambda>e. score_example lower e q = 3 / 2) (map ?mk es) @ filter (\<lambda>e. score_example lower e q \<noteq> 3 / 2) (map ?mk es)"
    unfolding xs by (intro sort_desc_two [where b = 1]) simp_all
  also have "\<dots> = map ?mk (filter (\<lambda>p. take 50 (lower (fst p)) = take 50 (lower q)) es @ filter (\<lambda>p. take 50 (lower (fst p)) \<noteq> take 50 (lower q)) es)"
    by (simp only: filter_map comp_def s map_append)
  finally show ?thesis unfolding select_fewshot_examples_def xs by (simp add: case_prod_unfold)
qed

end
