(* ===== verification/Metrics.thy ===== *)
theory Metrics
  imports Db Terms Floats
begin

text \<open>
  What the admin service reports: \<^verbatim>\<open>admin_service/routes/metrics.py\<close>,
  \<^verbatim>\<open>admin_service/routes/analytics.py\<close>, \<^verbatim>\<open>shared/analytics.py\<close>,
  \<^verbatim>\<open>shared/knowledge_gap.py\<close>, the quality gate of \<^verbatim>\<open>scripts/ragas_quality_gate.py\<close> and
  \<^verbatim>\<open>chat_service/services/evaluation.py\<close>.  Times are seconds of one time zone; the shares that Python computes and
  the thresholds are floats, other numbers are exact.
  A table that no migration creates is an option: \<open>None\<close> where it does not exist.
\<close>

section \<open>The tables that are read\<close>

record mt_thread =
  mt_id :: nat
  mt_tenant :: nat
  mt_created :: time

record mt_session =
  ms_id :: nat
  ms_tenant :: nat
  ms_thread :: nat
  ms_started :: time

record mt_message =
  mg_tenant :: nat
  mg_thread :: nat
  mg_role :: string
  mg_content :: "ucs option"
  mg_tokens :: int
  mg_created :: time

record conversation =
  cv_tenant :: nat
  cv_status :: string
  cv_started :: time
  cv_ended :: "time option"
  cv_messages :: "int option"
  cv_sentiment :: "rat option"

record metrics_db =
  mt_rls :: bool
  mt_threads :: "mt_thread list"
  mt_sessions :: "mt_session list"
  mt_messages :: "mt_message list"
  mt_conversations :: "conversation list option"
  mt_events :: "(string \<times> string) list option"
  mt_daily :: "((nat \<times> int) \<times> nat \<times> nat \<times> int) list option"

text \<open>
  The routes take a connection without a tenant's context: under the row policies a query fails at the
  first row it reads.  The tenant is a text that the driver reads as a UUID.
\<close>

definition on_rows :: "bool \<Rightarrow> 'r list \<Rightarrow> exn + 'r list" where
  "on_rows policies rows = (if policies \<and> rows \<noteq> [] then Inl (DbExn UnsetParameter) else Inr rows)"

definition as_uuid :: "string \<Rightarrow> exn + nat" where
  "as_uuid s = (case uuid_parse s of None \<Rightarrow> Inl (DbExn BadArgument) | Some u \<Rightarrow> Inr u)"

section \<open>Metrics\<close>

definition DAY :: rat where "DAY = 86400"

definition range_interval :: "string \<Rightarrow> rat" where
  "range_interval r = (if r = ''1d'' then DAY else if r = ''30d'' then 30 * DAY else 7 * DAY)"

text \<open>\<open>round(x, 4)\<close> of a float or a decimal: the decimal next to its exact value, ties to the even one.\<close>

definition round4 :: "rat \<Rightarrow> rat" where
  "round4 x = of_int (round_even (x * 10000)) / 10000"

record overview =
  ov_conversations :: nat
  ov_transfers :: nat
  ov_rate :: rat
  ov_range :: string

text \<open>The join: every thread with every session of its tenant, or with none.\<close>

definition joined :: "mt_thread \<Rightarrow> mt_session list \<Rightarrow> (nat \<times> nat option) list" where
  "joined th js = (if js = [] then [(mt_id th, None)] else map (\<lambda>h. (mt_id th, Some (ms_id h))) js)"

definition overview_join :: "nat \<Rightarrow> time \<Rightarrow> mt_thread list \<Rightarrow> mt_session list \<Rightarrow> (nat \<times> nat option) list" where
  "overview_join t since ths hs =
     concat (map (\<lambda>th. joined th (filter (\<lambda>h. ms_tenant h = mt_tenant th \<and> since \<le> ms_started h) hs))
       (filter (\<lambda>th. mt_tenant th = t \<and> since \<le> mt_created th) ths))"

definition metrics_overview :: "string \<Rightarrow> string \<Rightarrow> time \<Rightarrow> metrics_db \<Rightarrow> exn + overview" where
  "metrics_overview tid r now db =
     (case as_uuid tid of Inl e \<Rightarrow> Inl e
      | Inr t \<Rightarrow> (case on_rows (mt_rls db) (mt_threads db) of Inl e \<Rightarrow> Inl e
        | Inr ths \<Rightarrow> (case on_rows (mt_rls db \<and> ths \<noteq> []) (mt_sessions db) of Inl e \<Rightarrow> Inl e
          | Inr hs \<Rightarrow>
              (let js = overview_join t (now - range_interval r) ths hs;
                   total_n = length (remdups (map fst js));
                   hitl_n = length (remdups (List.map_filter snd js))
               in Inr \<lparr>ov_conversations = total_n, ov_transfers = hitl_n,
                       ov_rate = round4 (to_float (of_nat hitl_n / of_nat (max total_n 1))), ov_range = r\<rparr>))))"

definition metrics_tokens :: "string \<Rightarrow> string \<Rightarrow> time \<Rightarrow> metrics_db \<Rightarrow> exn + int \<times> nat \<times> string" where
  "metrics_tokens tid r now db =
     (case as_uuid tid of Inl e \<Rightarrow> Inl e
      | Inr t \<Rightarrow> map_sum id
          (\<lambda>ms. let xs = sql_select (\<lambda>m. mg_tenant m = t \<and> mg_role m = ''assistant'' \<and> now - range_interval r \<le> mg_created m) ms
                in (sum_list (map mg_tokens xs), length xs, r))
          (on_rows (mt_rls db) (mt_messages db)))"

text \<open>Groups with the same count come in the order \<open>arrange\<close> that the database gives them.\<close>

definition missed_groups :: "ucs option list \<Rightarrow> (ucs option \<times> nat) list" where
  "missed_groups ps = map (\<lambda>p. (p, count_list ps p)) (remdups ps)"

definition metrics_missed_queries ::
  "((ucs option \<times> nat) list \<Rightarrow> (ucs option \<times> nat) list) \<Rightarrow> string \<Rightarrow> string \<Rightarrow> time \<Rightarrow> metrics_db \<Rightarrow> exn + (ucs option \<times> nat) list" where
  "metrics_missed_queries arrange tid r now db =
     (case as_uuid tid of Inl e \<Rightarrow> Inl e
      | Inr t \<Rightarrow> (case on_rows (mt_rls db) (mt_messages db) of Inl e \<Rightarrow> Inl e
        | Inr ms \<Rightarrow> (case on_rows (mt_rls db) (mt_sessions db) of Inl e \<Rightarrow> Inl e
          | Inr hs \<Rightarrow>
              (let asked = sql_select (\<lambda>m. mg_tenant m = t \<and> mg_role m = ''user'' \<and> now - range_interval r \<le> mg_created m \<and>
                     mg_thread m \<in> set (map ms_thread (sql_select (\<lambda>h. ms_tenant h = t) hs))) ms
               in Inr (take 20 (sort_desc (\<lambda>(p, n). of_nat n) (arrange (missed_groups (map (\<lambda>m. map_option (take 50) (mg_content m)) asked)))))))))"

section \<open>Quality gates\<close>

text \<open>
  The sandbox: \<open>evaluate\<close> stands for the Ragas library; its result may have entries that are no numbers.
\<close>

definition SANDBOX_THRESHOLDS :: "(string \<times> rat) list" where
  "SANDBOX_THRESHOLDS = [(''faithfulness'', to_float (85 / 100)), (''context_precision'', to_float (80 / 100)),
     (''context_recall'', to_float (75 / 100)), (''answer_relevancy'', to_float (85 / 100))]"

text \<open>A score is a number or \<open>nan\<close>, of which every comparison is false.\<close>

datatype score = Score rat | NaN

fun below :: "score \<Rightarrow> rat \<Rightarrow> bool" where \<comment> \<open>\<open>v < threshold\<close>\<close>
  "below (Score v) th \<longleftrightarrow> v < th"
| "below NaN th \<longleftrightarrow> False"

fun reaches :: "score \<Rightarrow> rat \<Rightarrow> bool" where \<comment> \<open>\<open>score >= threshold\<close>\<close>
  "reaches (Score v) th \<longleftrightarrow> th \<le> v"
| "reaches NaN th \<longleftrightarrow> False"

datatype sandbox =
    NoCases
  | Stub nat
  | SandboxFailed nat
  | Judged bool "(string \<times> score) list" "(string \<times> score) list" nat \<comment> \<open>passed, scores, failed ones, number of cases\<close>

definition threshold_of :: "(string \<times> rat) list \<Rightarrow> string \<Rightarrow> rat" where
  "threshold_of ts k = (case map_of ts k of None \<Rightarrow> 0 | Some v \<Rightarrow> v)"

definition sandbox_run :: "('c list \<Rightarrow> exn + (string \<times> score option) list) \<Rightarrow> 'c list \<Rightarrow> sandbox" where
  "sandbox_run evaluate cases =
     (if cases = [] then NoCases
      else case evaluate cases of
          Inl e \<Rightarrow> if e = ImportError then Stub (length cases) else SandboxFailed (length cases)
        | Inr result \<Rightarrow>
            (let scores = List.map_filter (\<lambda>(k, v). map_option (Pair k) v) result;
                 failed = filter (\<lambda>(k, v). below v (threshold_of SANDBOX_THRESHOLDS k)) scores
             in Judged (failed = []) scores failed (length cases)))"

text \<open>
  The script reads its own thresholds from the environment.  \<open>env\<close> gives what \<open>float\<close> makes of a
  variable that is set; a text that is no number ends the script as it is loaded.
\<close>

definition GATE_VARIABLES :: "(string \<times> string \<times> rat) list" where
  "GATE_VARIABLES = [(''faithfulness'', ''RAGAS_FAITHFULNESS_MIN'', 85 / 100), (''context_precision'', ''RAGAS_CONTEXT_PRECISION_MIN'', 80 / 100),
     (''context_recall'', ''RAGAS_CONTEXT_RECALL_MIN'', 75 / 100), (''answer_relevancy'', ''RAGAS_ANSWER_RELEVANCY_MIN'', 85 / 100)]"

fun read_thresholds :: "(string \<Rightarrow> (exn + rat) option) \<Rightarrow> (string \<times> string \<times> rat) list \<Rightarrow> exn + (string \<times> rat) list" where
  "read_thresholds env [] = Inr []"
| "read_thresholds env ((k, var, d) # vs) =
     (case (case env var of None \<Rightarrow> Inr (to_float d) | Some r \<Rightarrow> r) of Inl e \<Rightarrow> Inl e
      | Inr v \<Rightarrow> map_sum id ((#) (k, v)) (read_thresholds env vs))"

definition gate_thresholds :: "(string \<Rightarrow> (exn + rat) option) \<Rightarrow> exn + (string \<times> rat) list" where
  "gate_thresholds env = read_thresholds env GATE_VARIABLES"

text \<open>The script: any failure of the evaluation is scored zero.\<close>

definition mock_evaluation :: "(string \<times> score) list" where
  "mock_evaluation = [(''faithfulness'', Score 0), (''context_precision'', Score 0), (''context_recall'', Score 0), (''answer_relevancy'', Score 0)]"

definition run_evaluation :: "('c list \<Rightarrow> exn + (string \<Rightarrow> score)) \<Rightarrow> 'c list \<Rightarrow> (string \<times> score) list" where
  "run_evaluation evaluate cases =
     (case evaluate cases of Inl _ \<Rightarrow> mock_evaluation | Inr f \<Rightarrow> map (\<lambda>(k, _). (k, f k)) mock_evaluation)"

record gate_entry =
  ge_score :: score
  ge_threshold :: rat
  ge_passed :: bool

definition round_score :: "score \<Rightarrow> score" where
  "round_score s = (case s of Score v \<Rightarrow> Score (round4 v) | NaN \<Rightarrow> NaN)"

definition generate_report :: "(string \<times> score) list \<Rightarrow> (string \<times> rat) list \<Rightarrow> bool \<times> (string \<times> gate_entry) list" where
  "generate_report scores thresholds =
     (let entries = map (\<lambda>(k, s). (k, \<lparr>ge_score = round_score s, ge_threshold = threshold_of thresholds k,
                                     ge_passed = reaches s (threshold_of thresholds k)\<rparr>)) scores
      in (list_all (\<lambda>(k, e). ge_passed e) entries, entries))"

definition gate_exit_code :: "(string \<Rightarrow> (exn + rat) option) \<Rightarrow> ('c list \<Rightarrow> exn + (string \<Rightarrow> score)) \<Rightarrow> 'c list \<Rightarrow> int" where
  "gate_exit_code env evaluate cases =
     (case gate_thresholds env of Inl e \<Rightarrow> 1
      | Inr thresholds \<Rightarrow> if fst (generate_report (run_evaluation evaluate cases) thresholds) then 0 else 1)"

text \<open>The evaluation suite.\<close>

record agent_metrics =
  ag_step_success :: rat
  ag_tool_accuracy :: rat
  ag_policy :: rat
  ag_cost :: rat
  ag_latency :: rat
  ag_steps :: int

record eval_result =
  er_task :: string
  er_score :: rat
  er_metrics :: agent_metrics
  er_passed :: bool

record eval_suite =
  es_baseline :: "agent_metrics option"
  es_history :: "eval_result list"

definition fresh_metrics :: agent_metrics where
  "fresh_metrics = \<lparr>ag_step_success = 1, ag_tool_accuracy = 1, ag_policy = 1, ag_cost = 0, ag_latency = 0, ag_steps = 0\<rparr>"

definition run_trajectory_test :: "string \<Rightarrow> eval_suite \<Rightarrow> eval_result \<times> eval_suite" where
  "run_trajectory_test task s =
     (let r = \<lparr>er_task = task, er_score = 8 / 10, er_metrics = fresh_metrics, er_passed = True\<rparr>
      in (r, s\<lparr>es_history := es_history s @ [r]\<rparr>))"

definition compute_quality_score :: "eval_result \<Rightarrow> rat" where
  "compute_quality_score r =
     (let m = er_metrics r in
      if ag_steps m = 0 then 1 / 2
      else (ag_step_success m * (3 / 10) + ag_tool_accuracy m * (25 / 100) + ag_policy m * (25 / 100)) * (7 / 10) +
           max 0 (1 - of_int (ag_steps m) / 20) * (3 / 10))"

definition detect_regression :: "agent_metrics \<Rightarrow> agent_metrics \<Rightarrow> bool" where
  "detect_regression base current \<longleftrightarrow>
     ag_step_success current < ag_step_success base * (1 - 1 / 10) \<or> ag_tool_accuracy current < ag_tool_accuracy base * (1 - 1 / 10)"

definition set_baseline :: "agent_metrics \<Rightarrow> eval_suite \<Rightarrow> eval_suite" where
  "set_baseline b s = s\<lparr>es_baseline := Some b\<rparr>"

section \<open>Analytics\<close>

record conversation_metrics =
  cm_conversations :: nat
  cm_active :: nat
  cm_resolved :: nat
  cm_response_ms :: rat
  cm_messages_avg :: rat
  cm_positive :: nat
  cm_neutral :: nat
  cm_negative :: nat

definition sql_avg :: "rat list \<Rightarrow> rat" where \<comment> \<open>\<open>AVG\<close> of the values that are not \<open>NULL\<close>, \<open>or 0.0\<close>\<close>
  "sql_avg vs = (if vs = [] then 0 else sum_list vs / of_nat (length vs))"

definition sql_count :: "('r \<Rightarrow> bool) \<Rightarrow> 'r list \<Rightarrow> nat" where
  "sql_count p rs = length (filter p rs)"

definition table_of :: "string \<Rightarrow> 'r list option \<Rightarrow> exn + 'r list" where
  "table_of name t = (case t of None \<Rightarrow> Inl (DbExn (UndefinedTable name)) | Some rs \<Rightarrow> Inr rs)"

definition conversation_figures :: "conversation list \<Rightarrow> conversation_metrics" where
  "conversation_figures cs =
     (let sents = List.map_filter cv_sentiment cs
      in \<lparr>cm_conversations = length cs, cm_active = sql_count (\<lambda>c. cv_status c = ''active'') cs,
          cm_resolved = sql_count (\<lambda>c. cv_status c = ''resolved'') cs,
          cm_response_ms = sql_avg (List.map_filter (\<lambda>c. map_option (\<lambda>e. (e - cv_started c) * 1000) (cv_ended c)) cs),
          cm_messages_avg = sql_avg (map of_int (List.map_filter cv_messages cs)),
          cm_positive = sql_count (\<lambda>x. 3 / 10 < x) sents,
          cm_neutral = sql_count (\<lambda>x. - (3 / 10) \<le> x \<and> x \<le> 3 / 10) sents,
          cm_negative = sql_count (\<lambda>x. x < - (3 / 10)) sents\<rparr>)"

definition get_conversation_metrics :: "string \<Rightarrow> int \<Rightarrow> time \<Rightarrow> metrics_db \<Rightarrow> exn + conversation_metrics" where
  "get_conversation_metrics tid days now db =
     (case table_of ''conversations'' (mt_conversations db) of Inl e \<Rightarrow> Inl e
      | Inr rows \<Rightarrow> map_sum id
          (\<lambda>t. conversation_figures (sql_select (\<lambda>c. cv_tenant c = t \<and> now - of_int days * DAY < cv_started c) rows))
          (as_uuid tid))"

record cost_metrics =
  co_period :: string
  co_tokens :: int
  co_messages :: nat
  co_total :: rat
  co_average :: rat

text \<open>The month is the last one, whatever the period asked for; \<open>month_ago\<close> is the database's \<open>NOW() - INTERVAL '1 month'\<close>.\<close>

definition get_cost_metrics :: "string \<Rightarrow> string \<Rightarrow> time \<Rightarrow> metrics_db \<Rightarrow> exn + cost_metrics" where
  "get_cost_metrics tid period month_ago db =
     (case as_uuid tid of Inl e \<Rightarrow> Inl e
      | Inr t \<Rightarrow> (case on_rows (mt_rls db) (mt_messages db) of Inl e \<Rightarrow> Inl e
        | Inr ms \<Rightarrow> (case table_of ''conversations'' (mt_conversations db) of Inl e \<Rightarrow> Inl e
          | Inr cs \<Rightarrow>
              (let xs = sql_select (\<lambda>m. mg_tenant m = t \<and> month_ago < mg_created m) ms;
                   tokens = sum_list (map mg_tokens xs);
                   n = sql_count (\<lambda>c. cv_tenant c = t \<and> month_ago < cv_started c) cs
               in Inr \<lparr>co_period = period, co_tokens = tokens, co_messages = length xs, co_total = of_int tokens / 1000,
                       co_average = (if 0 < n then of_int tokens / 1000 / of_nat n else 0)\<rparr>))))"

record analytics_overview =
  ao_conversations :: nat
  ao_active :: nat
  ao_resolved :: nat
  ao_rate :: rat
  ao_response_ms :: rat
  ao_positive :: nat
  ao_neutral :: nat
  ao_negative :: nat
  ao_tokens :: int
  ao_cost :: rat

definition get_analytics_overview :: "string \<Rightarrow> int \<Rightarrow> time \<Rightarrow> time \<Rightarrow> metrics_db \<Rightarrow> exn + analytics_overview" where
  "get_analytics_overview tid days now month_ago db =
     (if days < 1 \<or> 365 < days then Inl (HTTPException 422)
      else case get_conversation_metrics tid days now db of Inl e \<Rightarrow> Inl e
      | Inr c \<Rightarrow> map_sum id
          (\<lambda>k. let rate = (if 0 < cm_conversations c then percent (cm_resolved c) (cm_conversations c) else 0)
               in \<lparr>ao_conversations = cm_conversations c, ao_active = cm_active c, ao_resolved = cm_resolved c, ao_rate = round2 rate,
                   ao_response_ms = round2 (cm_response_ms c), ao_positive = cm_positive c, ao_neutral = cm_neutral c,
                   ao_negative = cm_negative c, ao_tokens = co_tokens k, ao_cost = round4 (co_total k)\<rparr>)
          (get_cost_metrics tid ''month'' month_ago db))"

definition get_conversation_analytics :: "string \<Rightarrow> int \<Rightarrow> time \<Rightarrow> metrics_db \<Rightarrow> exn + int \<times> conversation_metrics" where
  "get_conversation_analytics tid days now db =
     (if days < 1 \<or> 365 < days then Inl (HTTPException 422)
      else map_sum id
        (\<lambda>c. (days, c\<lparr>cm_response_ms := round2 (cm_response_ms c), cm_messages_avg := round2 (cm_messages_avg c)\<rparr>))
        (get_conversation_metrics tid days now db))"

definition get_cost_analytics :: "string \<Rightarrow> string \<Rightarrow> time \<Rightarrow> metrics_db \<Rightarrow> exn + cost_metrics" where
  "get_cost_analytics tid period month_ago db =
     (if period \<notin> set [''day'', ''week'', ''month''] then Inl (HTTPException 422)
      else map_sum id (\<lambda>k. k\<lparr>co_total := round4 (co_total k), co_average := round4 (co_average k)\<rparr>)
        (get_cost_metrics tid period month_ago db))"

definition track_conversation_event :: "string \<Rightarrow> string \<Rightarrow> metrics_db \<Rightarrow> exn + metrics_db" where
  "track_conversation_event tid event db =
     map_sum id (\<lambda>es. db\<lparr>mt_events := Some (es @ [(tid, event)])\<rparr>) (table_of ''analytics_events'' (mt_events db))"

text \<open>
  Yesterday's messages: \<open>replace\<close> leaves the microseconds, so that the day goes from midnight plus a
  fraction of a second to the last second plus that fraction.
\<close>

definition day_window :: "time \<Rightarrow> time \<times> time" where
  "day_window now =
     (let y = now - DAY; midnight = of_int \<lfloor>y / DAY\<rfloor> * DAY; fraction = y - of_int \<lfloor>y\<rfloor>
      in (midnight + fraction, midnight + 86399 + fraction))"

definition aggregate_daily_metrics :: "string \<Rightarrow> time \<Rightarrow> metrics_db \<Rightarrow> exn + metrics_db" where
  "aggregate_daily_metrics tid now db =
     (case table_of ''daily_aggregates'' (mt_daily db) of Inl e \<Rightarrow> Inl e
      | Inr daily \<Rightarrow> (case as_uuid tid of Inl e \<Rightarrow> Inl e
        | Inr t \<Rightarrow> (case on_rows (mt_rls db) (mt_messages db) of Inl e \<Rightarrow> Inl e
          | Inr ms \<Rightarrow>
              (let xs = sql_select (\<lambda>m. mg_tenant m = t \<and> fst (day_window now) \<le> mg_created m \<and> mg_created m < snd (day_window now)) ms
               in Inr (if xs = [] then db
                  else db\<lparr>mt_daily := Some (AList.update (t, \<lfloor>(now - DAY) / DAY\<rfloor>)
                    (length (remdups (map mg_thread xs)), length xs, sum_list (map mg_tokens xs)) daily)\<rparr>)))))"

section \<open>Knowledge gaps\<close>

record knowledge_gap =
  kg_id :: nat
  kg_tenant :: string
  kg_query :: ucs
  kg_frequency :: nat
  kg_first :: time
  kg_last :: time
  kg_context :: "ucs option"
  kg_title :: "ucs option"

text \<open>The table as the statements use it: one row for each tenant and query.\<close>

definition same_gap :: "string \<Rightarrow> ucs \<Rightarrow> knowledge_gap \<Rightarrow> bool" where
  "same_gap t q g \<longleftrightarrow> kg_tenant g = t \<and> kg_query g = q"

definition track_gap :: "string \<Rightarrow> ucs \<Rightarrow> ucs option \<Rightarrow> nat \<Rightarrow> time \<Rightarrow> knowledge_gap list option \<Rightarrow> exn + knowledge_gap list option" where
  "track_gap t query ctx new_id now table =
     (if length query < 3 then Inr table
      else let q = take 500 query in map_sum id
        (\<lambda>gs. Some (if fetchrow (same_gap t q) gs \<noteq> None
           then sql_update (same_gap t q) (\<lambda>g. g\<lparr>kg_frequency := kg_frequency g + 1, kg_last := now\<rparr>) gs
           else gs @ [\<lparr>kg_id = new_id, kg_tenant = t, kg_query = q, kg_frequency = 1, kg_first = now, kg_last = now,
                       kg_context = (case ctx of None \<Rightarrow> None | Some c \<Rightarrow> if c = [] then None else Some (take 2000 c)), kg_title = None\<rparr>]))
        (table_of ''knowledge_gaps'' table))"

definition get_top_gaps :: "(knowledge_gap list \<Rightarrow> knowledge_gap list) \<Rightarrow> string \<Rightarrow> nat \<Rightarrow> knowledge_gap list option \<Rightarrow> exn + knowledge_gap list" where
  "get_top_gaps arrange t limit table =
     map_sum id (\<lambda>gs. take limit (sort_desc (\<lambda>g. of_nat (kg_frequency g)) (arrange (sql_select (\<lambda>g. kg_tenant g = t) gs))))
       (table_of ''knowledge_gaps'' table)"

definition dismiss_gap :: "nat \<Rightarrow> knowledge_gap list option \<Rightarrow> exn + knowledge_gap list option" where
  "dismiss_gap i table = map_sum id (\<lambda>gs. Some (sql_delete (\<lambda>g. kg_id g = i) gs)) (table_of ''knowledge_gaps'' table)"

definition generate_title_suggestion :: "ucs \<Rightarrow> nat \<Rightarrow> ucs" where
  "generate_title_suggestion query frequency =
     (let ws = words query; title = (if 6 < length ws then py_join [32] (take 6 ws) @ ucs_of ''...'' else query)
      in if 1 < frequency then title @ ucs_of ('' ('' @ dec_digits frequency @ '' queries)'') else title)"

section \<open>The overview\<close>

lemma joined_sets [simp]:
  "fst ` set (joined th js) = {mt_id th}" "set (List.map_filter snd (joined th js)) = ms_id ` set js"
  by (cases js; force simp: joined_def List.map_filter_def)+

lemma map_filter_append: "List.map_filter f (xs @ ys) = List.map_filter f xs @ List.map_filter f ys"
  by (simp add: List.map_filter_def)

lemma join_sessions:
  "set (List.map_filter snd (overview_join t since ths hs)) =
     (if filter (\<lambda>th. mt_tenant th = t \<and> since \<le> mt_created th) ths = [] then {}
      else ms_id ` set (filter (\<lambda>h. ms_tenant h = t \<and> since \<le> ms_started h) hs))"
proof -
  let ?hs = "\<lambda>t. filter (\<lambda>h. ms_tenant h = t \<and> since \<le> ms_started h) hs"
  have "set (List.map_filter snd (concat (map (\<lambda>th. joined th (?hs (mt_tenant th))) xs))) = (if xs = [] then {} else ms_id ` set (?hs t))"
    if "\<forall>th \<in> set xs. mt_tenant th = t" for xs
    using that
  proof (induction xs)
    case (Cons x xs)
    then show ?case by (simp add: map_filter_append)
  qed (simp add: List.map_filter_simps)
  from this [of "filter (\<lambda>th. mt_tenant th = t \<and> since \<le> mt_created th) ths"] show ?thesis
    unfolding overview_join_def by (simp)
qed

lemma join_threads: "set (map fst (overview_join t since ths hs)) = mt_id ` set (filter (\<lambda>th. mt_tenant th = t \<and> since \<le> mt_created th) ths)"
  by (simp add: overview_join_def image_UN UNION_singleton_eq_range)

lemma length_remdups_ids: "distinct (map f xs) \<Longrightarrow> set ys = f ` set (filter p xs) \<Longrightarrow> length (remdups ys) = length (filter p xs)"
proof -
  assume d: "distinct (map f xs)" and s: "set ys = f ` set (filter p xs)"
  have "distinct (map f (filter p xs))" using d by (simp add: distinct_map_filter)
  then have "card (set (map f (filter p xs))) = length (filter p xs)" using distinct_card by fastforce
  with s show ?thesis by (simp add: length_remdups_card_conv)
qed

text \<open>C34:  
  The overview counts the conversations begun in the interval, and as transfers every session of the
  tenant begun in it, whichever conversation it belongs to; but without a new conversation it reports
  no transfer at all.
\<close>

theorem overview_counts:
  assumes "uuid_parse tid = Some t" and "\<not> mt_rls db" and "distinct (map mt_id (mt_threads db))" and "distinct (map ms_id (mt_sessions db))"
  shows "\<exists>v. metrics_overview tid r now db = Inr v \<and>
    ov_conversations v = length (filter (\<lambda>th. mt_tenant th = t \<and> now - range_interval r \<le> mt_created th) (mt_threads db)) \<and>
    ov_transfers v = (if ov_conversations v = 0 then 0
      else length (filter (\<lambda>h. ms_tenant h = t \<and> now - range_interval r \<le> ms_started h) (mt_sessions db))) \<and>
    ov_rate v = round4 (to_float (of_nat (ov_transfers v) / of_nat (max (ov_conversations v) 1)))"
proof -
  let ?since = "now - range_interval r"
  let ?js = "overview_join t ?since (mt_threads db) (mt_sessions db)"
  let ?ths = "filter (\<lambda>th. mt_tenant th = t \<and> ?since \<le> mt_created th) (mt_threads db)"
  have c: "length (remdups (map fst ?js)) = length ?ths"
    by (rule length_remdups_ids [OF assms(3) join_threads])
  have h: "length (remdups (List.map_filter snd ?js)) =
      (if ?ths = [] then 0 else length (filter (\<lambda>h. ms_tenant h = t \<and> ?since \<le> ms_started h) (mt_sessions db)))"
  proof (cases "?ths = []")
    case True
    then show ?thesis using join_sessions [of t ?since "mt_threads db" "mt_sessions db"] by simp
  next
    case False
    then show ?thesis using join_sessions [of t ?since "mt_threads db" "mt_sessions db"]
      by (simp only: if_False length_remdups_ids [OF assms(4)])
  qed
  show ?thesis
    using assms(1,2) by (simp add: metrics_overview_def as_uuid_def on_rows_def Let_def c h)
qed

definition demo_figures :: metrics_db where
  "demo_figures = \<lparr>mt_rls = False,
     mt_threads = [\<lparr>mt_id = 1, mt_tenant = 1, mt_created = 0\<rparr>, \<lparr>mt_id = 2, mt_tenant = 1, mt_created = 950000\<rparr>],
     mt_sessions = [\<lparr>ms_id = 1, ms_tenant = 1, ms_thread = 1, ms_started = 960000\<rparr>, \<lparr>ms_id = 2, ms_tenant = 1, ms_thread = 1, ms_started = 970000\<rparr>],
     mt_messages = [], mt_conversations = None, mt_events = None, mt_daily = None\<rparr>"

lemma overview_counts_witness:
  "\<exists>v. metrics_overview uuid1 ''1d'' 1000000 demo_figures = Inr v \<and> ov_conversations v = 1 \<and> ov_transfers v = 2"
proof -
  obtain v where "metrics_overview uuid1 ''1d'' 1000000 demo_figures = Inr v"
      "ov_conversations v = length (filter (\<lambda>th. mt_tenant th = 1 \<and> 1000000 - range_interval ''1d'' \<le> mt_created th) (mt_threads demo_figures))"
      "ov_transfers v = (if ov_conversations v = 0 then 0
        else length (filter (\<lambda>h. ms_tenant h = 1 \<and> 1000000 - range_interval ''1d'' \<le> ms_started h) (mt_sessions demo_figures)))"
    using overview_counts [of uuid1 1 demo_figures "''1d''" 1000000] by (auto simp: demo_figures_def)
  then show ?thesis by (auto simp: demo_figures_def range_interval_def DAY_def)
qed

text \<open>A range that is not known counts seven days, and is named in the answer as if it had been used.\<close>

lemma unknown_range: "r \<notin> {''1d'', ''7d'', ''30d''} \<Longrightarrow> range_interval r = range_interval ''7d''"
  by (simp add: range_interval_def)

lemma cost_period_ignored:
  "map_sum id (\<lambda>k. k\<lparr>co_period := ''month''\<rparr>) (get_cost_metrics tid p month_ago db) = get_cost_metrics tid ''month'' month_ago db"
  by (auto simp: get_cost_metrics_def as_uuid_def on_rows_def table_of_def Let_def split: option.split)

text \<open>No migration creates the table of conversations: every analytics route that reads it fails.\<close>

lemma analytics_unavailable:
  "mt_conversations db = None \<Longrightarrow> \<not> is_ok (get_analytics_overview tid days now month_ago db) \<and> \<not> is_ok (get_conversation_analytics tid days now db) \<and>
     \<not> is_ok (get_cost_analytics tid period month_ago db)"
  by (simp add: get_analytics_overview_def get_conversation_analytics_def get_cost_analytics_def get_conversation_metrics_def
      get_cost_metrics_def table_of_def is_ok_def split: sum.split)

lemma top_groups:
  assumes "mset gs = mset (missed_groups ps)"
    and rows_def: "rows = take n (sort_desc (\<lambda>(p, n). of_nat n) gs)"
  shows "length rows \<le> n \<and> distinct (map fst rows) \<and> sorted_wrt (\<lambda>x y. snd y \<le> snd x) rows \<and> list_all (\<lambda>(p, m). m = count_list ps p \<and> 0 < m) rows \<and>
    (\<forall>p \<in> set ps. p \<in> set (map fst rows) \<or> length rows = n \<and> list_all (\<lambda>(q, m). count_list ps p \<le> m) rows)"
proof -
  let ?all = "sort_desc (\<lambda>(p, n). of_nat n) gs"
  have m: "mset ?all = mset (missed_groups ps)" using assms(1) by simp
  have d: "distinct (map fst (missed_groups ps))" by (simp add: missed_groups_def comp_def)
  have "mset (map fst ?all) = mset (map fst (missed_groups ps))" using m by (metis mset_map)
  then have "distinct (map fst ?all)" using d mset_eq_imp_distinct_iff by blast
  then have 1: "distinct (map fst rows)" by (simp add: rows_def flip: take_map)
  have sorted: "sorted_wrt (\<lambda>x y. snd y \<le> snd x) ?all"
    using sorted_sort_desc [of "\<lambda>(p, n). of_nat n" "gs"] by (simp add: split_beta)
  then have 2: "sorted_wrt (\<lambda>x y. snd y \<le> snd x) rows" by (simp add: rows_def sorted_wrt_take)
  have set_all: "set ?all = set (missed_groups ps)" using m by (metis set_mset_mset)
  then have "set rows \<subseteq> set (missed_groups ps)" using set_take_subset [of n ?all] by (simp add: rows_def)
  then have 3: "list_all (\<lambda>(p, m). m = count_list ps p \<and> 0 < m) rows"
    by (auto simp: list_all_iff missed_groups_def count_list_0_iff intro: gr0I)
  have "p \<in> set (map fst rows) \<or> length rows = n \<and> list_all (\<lambda>(q, m). count_list ps p \<le> m) rows" if p: "p \<in> set ps" for p
  proof -
    have "(p, count_list ps p) \<in> set ?all" using p unfolding set_all by (simp add: missed_groups_def)
    then have "(p, count_list ps p) \<in> set rows \<or> (p, count_list ps p) \<in> set (drop n ?all)"
      unfolding rows_def by (metis Un_iff append_take_drop_id set_append)
    then show ?thesis
    proof
      assume "(p, count_list ps p) \<in> set (drop n ?all)"
      moreover from this have "n \<le> length ?all" by (cases "n \<le> length ?all") simp_all
      moreover have "\<forall>x \<in> set rows. \<forall>y \<in> set (drop n ?all). snd y \<le> snd x"
        using sorted unfolding rows_def by (metis append_take_drop_id sorted_wrt_append)
      ultimately show ?thesis by (fastforce simp: list_all_iff rows_def)
    qed force
  qed
  with 1 2 3 show ?thesis by (simp add: rows_def)
qed

definition asked_prefixes :: "nat \<Rightarrow> time \<Rightarrow> metrics_db \<Rightarrow> ucs option list" where
  "asked_prefixes t since db = map (\<lambda>m. map_option (take 50) (mg_content m))
     (filter (\<lambda>m. mg_tenant m = t \<and> mg_role m = ''user'' \<and> since \<le> mg_created m \<and>
        (\<exists>h \<in> set (mt_sessions db). ms_tenant h = t \<and> ms_thread h = mg_thread m)) (mt_messages db))"

text \<open> 
  The missed queries: at most twenty beginnings of questions of handed-over threads, each once, with
  its exact count, the most frequent first; one that is not shown was not asked more often than those that are.
\<close>

theorem missed_queries_top:
  assumes "uuid_parse tid = Some t" and "\<not> mt_rls db" and "\<And>gs. mset (arrange gs) = mset gs"
  shows "\<exists>rows. metrics_missed_queries arrange tid r now db = Inr rows \<and> length rows \<le> 20 \<and> distinct (map fst rows) \<and>
    sorted_wrt (\<lambda>x y. snd y \<le> snd x) rows \<and>
    list_all (\<lambda>(p, m). m = count_list (asked_prefixes t (now - range_interval r) db) p \<and> 0 < m) rows \<and>
    (\<forall>p \<in> set (asked_prefixes t (now - range_interval r) db). p \<in> set (map fst rows) \<or>
       length rows = 20 \<and> list_all (\<lambda>(q, m). count_list (asked_prefixes t (now - range_interval r) db) p \<le> m) rows)"
proof -
  let ?ps = "asked_prefixes t (now - range_interval r) db"
  have "metrics_missed_queries arrange tid r now db =
      Inr (take 20 (sort_desc (\<lambda>(p, n). of_nat n) (arrange (missed_groups ?ps))))"
    using assms(1,2) by (simp add: metrics_missed_queries_def as_uuid_def on_rows_def Let_def sql_select_def asked_prefixes_def image_iff)
      (rule arg_cong [of _ _ "\<lambda>xs. take 20 (sort_desc _ (arrange (missed_groups (map _ xs))))"], rule filter_cong, auto)
  with top_groups [OF assms(3) [of "missed_groups ?ps"] refl, of 20] show ?thesis by blast
qed

lemma missed_queries_top_witness:
  "\<exists>rows. metrics_missed_queries id uuid1 ''7d'' 1000000
      (demo_figures\<lparr>mt_messages := [\<lparr>mg_tenant = 1, mg_thread = 1, mg_role = ''user'', mg_content = Some [72], mg_tokens = 0, mg_created = 970000\<rparr>]\<rparr>) = Inr rows \<and>
    length rows \<le> 20"
proof -
  let ?db = "demo_figures\<lparr>mt_messages := [\<lparr>mg_tenant = 1, mg_thread = 1, mg_role = ''user'', mg_content = Some [72], mg_tokens = 0, mg_created = 970000\<rparr>]\<rparr>"
  have "\<not> mt_rls ?db" by (simp add: demo_figures_def)
  from missed_queries_top [OF uuid_demo(1) this, of id "''7d''" 1000000] show ?thesis by auto
qed

section \<open>The gates\<close>

lemma gate_scores: "evaluate cases = Inr f \<Longrightarrow> run_evaluation evaluate cases = map (\<lambda>(k, _). (k, f k)) mock_evaluation"
  by (simp add: run_evaluation_def)

lemma gate_keys: "gate_thresholds env = Inr ts \<Longrightarrow>
    \<exists>a b c d. ts = [(''faithfulness'', a), (''context_precision'', b), (''context_recall'', c), (''answer_relevancy'', d)]"
  unfolding gate_thresholds_def GATE_VARIABLES_def by (auto split: sum.splits)

text \<open>C38: the admin route passes a run exactly when every metric that is a number reaches the route's own
  thresholds; the script passes it exactly when every metric is a number and reaches the thresholds of
  the script's environment.  Without overrides these are the route's, so that the two then agree on
  scores that are numbers, while a metric that could not be computed fails the script and not the route.\<close>

theorem gates_compared:
  assumes "cases \<noteq> []" and "evaluate cases = Inr f" and "gate_thresholds env = Inr ts"
  shows "(\<exists>scores failed. sandbox_run (\<lambda>cs. map_sum id (\<lambda>f. map (\<lambda>(k, _). (k, Some (f k))) mock_evaluation) (evaluate cs)) cases =
      Judged (list_all (\<lambda>(k, th). f k = NaN \<or> reaches (f k) th) SANDBOX_THRESHOLDS) scores failed (length cases)) \<and>
    gate_exit_code env evaluate cases = (if list_all (\<lambda>(k, th). reaches (f k) th) ts then 0 else 1) \<and>
    gate_thresholds (\<lambda>_. None) = Inr SANDBOX_THRESHOLDS"
proof -
  have b: "f k = NaN \<or> reaches (f k) th \<longleftrightarrow> \<not> below (f k) th" for k th by (cases "f k") auto
  have s: "List.map_filter (\<lambda>(k, v). map_option (Pair k) v) (map (\<lambda>(k, _). (k, Some (f k))) mock_evaluation) = map (\<lambda>(k, _). (k, f k)) mock_evaluation"
    by (simp add: mock_evaluation_def List.map_filter_simps)
  have "filter (\<lambda>(k, v). below v (threshold_of SANDBOX_THRESHOLDS k)) (map (\<lambda>(k, _). (k, f k)) mock_evaluation) = [] \<longleftrightarrow>
      list_all (\<lambda>(k, th). f k = NaN \<or> reaches (f k) th) SANDBOX_THRESHOLDS"
    unfolding b by (simp add: mock_evaluation_def SANDBOX_THRESHOLDS_def threshold_of_def)
  moreover have "fst (generate_report (run_evaluation evaluate cases) ts) = list_all (\<lambda>(k, th). reaches (f k) th) ts"
    unfolding run_evaluation_def assms(2) using gate_keys [OF assms(3)]
    by (auto simp: generate_report_def mock_evaluation_def threshold_of_def)
  moreover have "gate_thresholds (\<lambda>_. None) = Inr SANDBOX_THRESHOLDS"
    by (simp add: gate_thresholds_def GATE_VARIABLES_def SANDBOX_THRESHOLDS_def)
  ultimately show ?thesis
    using assms s by (simp add: sandbox_run_def gate_exit_code_def Let_def)
qed

lemma gates_compared_witness:
  "(\<exists>scores failed. sandbox_run (\<lambda>cs. map_sum id (\<lambda>f. map (\<lambda>(k, _). (k, Some (f k))) mock_evaluation) (Inr (\<lambda>k. NaN))) [()] =
      Judged True scores failed 1) \<and> gate_exit_code (\<lambda>_. None) (\<lambda>cs. Inr (\<lambda>k. NaN)) [()] = 1"
proof -
  have "gate_thresholds (\<lambda>_. None) = Inr SANDBOX_THRESHOLDS"
    by (simp add: gate_thresholds_def GATE_VARIABLES_def SANDBOX_THRESHOLDS_def)
  from gates_compared [of "[()]" "\<lambda>cs. Inr (\<lambda>k. NaN)" "\<lambda>k. NaN", OF _ refl this]
  show ?thesis by (simp add: SANDBOX_THRESHOLDS_def)
qed

text \<open>An override of one threshold is enough for the two to disagree on numbers.\<close>

lemma overridden_gates_disagree:
  "gate_exit_code (\<lambda>v. if v = ''RAGAS_CONTEXT_RECALL_MIN'' then Some (Inr 1) else None) (\<lambda>cs. Inr (\<lambda>k. Score (9 / 10))) [()] = 1"
  by (simp add: gate_exit_code_def gate_thresholds_def GATE_VARIABLES_def run_evaluation_def mock_evaluation_def
      generate_report_def threshold_of_def)

section \<open>Counts and shares\<close>

lemma sql_count_le: "sql_count p rs \<le> length rs"
  by (simp add: sql_count_def)

lemma sql_count_disjoint: "\<forall>r. \<not> (p r \<and> q r) \<Longrightarrow> sql_count p rs + sql_count q rs \<le> length rs"
  by (induction rs) (auto simp: sql_count_def)

lemma figures_bounds:
  "cm_active (conversation_figures cs) + cm_resolved (conversation_figures cs) \<le> cm_conversations (conversation_figures cs) \<and>
   cm_resolved (conversation_figures cs) \<le> cm_conversations (conversation_figures cs) \<and>
   cm_positive (conversation_figures cs) + cm_neutral (conversation_figures cs) + cm_negative (conversation_figures cs) \<le>
     cm_conversations (conversation_figures cs)"
proof -
  have "sql_count (\<lambda>x. 3 / 10 < x) xs + sql_count (\<lambda>x. - (3 / 10) \<le> x \<and> x \<le> 3 / 10) xs + sql_count (\<lambda>x. x < - (3 / 10)) xs \<le> length xs"
    for xs :: "rat list"
    by (induction xs) (auto simp: sql_count_def)
  moreover have "length (List.map_filter cv_sentiment cs) \<le> length cs" by (simp add: List.map_filter_def)
  ultimately have "sql_count (\<lambda>x. 3 / 10 < x) (List.map_filter cv_sentiment cs) + sql_count (\<lambda>x. - (3 / 10) \<le> x \<and> x \<le> 3 / 10) (List.map_filter cv_sentiment cs) +
      sql_count (\<lambda>x. x < - (3 / 10)) (List.map_filter cv_sentiment cs) \<le> length cs"
    by (rule order_trans)
  moreover have "sql_count (\<lambda>c. cv_status c = ''active'') cs + sql_count (\<lambda>c. cv_status c = ''resolved'') cs \<le> length cs"
    by (rule sql_count_disjoint) simp
  ultimately show ?thesis using sql_count_le [of "\<lambda>c. cv_status c = ''resolved''" cs]
    unfolding conversation_figures_def Let_def by (simp only: conversation_metrics.simps)
qed

text \<open>A share of a count is a percentage between 0 and 100, and every sentiment is counted once.\<close>

lemma resolution_rate_bounds:
  assumes "get_analytics_overview tid days now month_ago db = Inr v"
  shows "0 \<le> ao_rate v \<and> ao_rate v \<le> 100 \<and> ao_active v + ao_resolved v \<le> ao_conversations v \<and>
    ao_positive v + ao_neutral v + ao_negative v \<le> ao_conversations v"
proof -
  obtain c where c: "get_conversation_metrics tid days now db = Inr c"
    using assms by (cases "get_conversation_metrics tid days now db") (simp_all add: get_analytics_overview_def split: if_splits)
  obtain k where k: "get_cost_metrics tid ''month'' month_ago db = Inr k"
    using assms c by (cases "get_cost_metrics tid ''month'' month_ago db") (simp_all add: get_analytics_overview_def split: if_splits)
  obtain cs where "c = conversation_figures cs"
    using c by (cases "as_uuid tid") (auto simp: get_conversation_metrics_def split: sum.splits)
  with figures_bounds [of cs] have f: "cm_active c + cm_resolved c \<le> cm_conversations c" "cm_resolved c \<le> cm_conversations c"
      "cm_positive c + cm_neutral c + cm_negative c \<le> cm_conversations c"
    by simp_all
  have "0 \<le> round2 x \<and> round2 x \<le> 100" if "0 \<le> x" "x \<le> 100" for x
    using round2_bounds [of 0 x 100] that by simp
  with percent_bounds show ?thesis
    using assms c k f by (auto simp: get_analytics_overview_def Let_def split: if_splits)
qed

text \<open>
  The day that is aggregated is a second short: a message of its last second, after the fraction of a
  second at which the job runs, is in no day's figures.
\<close>

lemma day_window_short: "snd (day_window now) - fst (day_window now) = DAY - 1"
  by (simp add: day_window_def Let_def DAY_def)

lemma last_second_lost:
  assumes "now = of_int n * DAY + a" and "0 \<le> a" and "a < DAY" and "a \<in> \<int>" and "x = of_int m * DAY - 1 / 2"
  shows "\<not> (fst (day_window now) \<le> x \<and> x < snd (day_window now))"
proof -
  have f: "\<lfloor>(now - DAY) / DAY\<rfloor> = n - 1"
    using assms(1-3) by (intro floor_unique) (auto simp: DAY_def field_simps)
  have z: "now - DAY - of_int \<lfloor>now - DAY\<rfloor> = 0"
    using assms(1,4) by (auto simp: DAY_def elim!: Ints_cases)
  have w: "day_window now = (of_int (n - 1) * DAY, of_int (n - 1) * DAY + 86399)"
    unfolding day_window_def Let_def f z by simp
  show ?thesis
  proof
    assume "fst (day_window now) \<le> x \<and> x < snd (day_window now)"
    then have "of_int (n - 1) * DAY \<le> of_int m * DAY - 1 / 2" "of_int m * DAY - 1 / 2 < of_int (n - 1) * DAY + 86399"
      unfolding w assms(5) by simp_all
    then have "(of_int (n - 1) :: rat) < of_int m" "(of_int m :: rat) < of_int n" by (simp_all add: DAY_def field_simps)
    then show False by (simp only: of_int_less_iff)
  qed
qed

section \<open>Gaps\<close>

definition track_all :: "string \<Rightarrow> (ucs \<times> ucs option \<times> nat \<times> time) list \<Rightarrow> knowledge_gap list \<Rightarrow> knowledge_gap list" where
  "track_all t calls gs = fold (\<lambda>(q, c, i, now) gs. case track_gap t q c i now (Some gs) of Inr (Some gs') \<Rightarrow> gs' | _ \<Rightarrow> gs) calls gs"

definition frequency_of :: "string \<Rightarrow> ucs \<Rightarrow> knowledge_gap list \<Rightarrow> nat" where
  "frequency_of t q gs = (case fetchrow (same_gap t q) gs of None \<Rightarrow> 0 | Some g \<Rightarrow> kg_frequency g)"

lemma frequency_tracked:
  "frequency_of t q (track_all t [(query, c, i, now)] gs) = frequency_of t q gs + (if 3 \<le> length query \<and> take 500 query = q then 1 else 0)"
proof (cases "length query < 3")
  case False
  let ?q = "take 500 query" and ?f = "\<lambda>g. g\<lparr>kg_frequency := kg_frequency g + 1, kg_last := now\<rparr>"
  have s: "fetchrow (same_gap t ?q) (sql_update (same_gap t ?q) ?f gs) = map_option ?f (fetchrow (same_gap t ?q) gs)"
    by (rule fetch_same_update) (simp add: same_gap_def)
  have d: "fetchrow (same_gap t q) (sql_update (same_gap t ?q) ?f gs) = fetchrow (same_gap t q) gs" if "q \<noteq> ?q"
    by (rule fetch_other_update) (use that in \<open>auto simp: same_gap_def\<close>)
  show ?thesis
  proof (cases "fetchrow (same_gap t ?q) gs")
    case None
    then show ?thesis using False
      by (auto simp: track_all_def track_gap_def table_of_def frequency_of_def fetchrow_append Let_def same_gap_def split: option.split)
  next
    case (Some g)
    then have u: "track_all t [(query, c, i, now)] gs = sql_update (same_gap t ?q) ?f gs"
      using False by (simp add: track_all_def track_gap_def table_of_def Let_def)
    show ?thesis
    proof (cases "q = ?q")
      case True
      then show ?thesis using False Some s by (simp add: frequency_of_def u)
    next
      case q: False
      then show ?thesis using d by (simp add: frequency_of_def u)
    qed
  qed
qed (simp add: track_all_def track_gap_def)

text \<open>
  A gap's frequency is the number of times its question was asked since the table was empty: questions
  count as the same by their first 500 characters, and those of fewer than three are not counted.
\<close>

theorem gap_frequencies:
  "frequency_of t q (track_all t calls []) = length (filter (\<lambda>(query, _). 3 \<le> length query \<and> take 500 query = q) calls)"
proof -
  have "frequency_of t q (track_all t calls gs) =
      frequency_of t q gs + length (filter (\<lambda>(query, _). 3 \<le> length query \<and> take 500 query = q) calls)" for gs
  proof (induction calls arbitrary: gs)
    case (Cons x calls)
    obtain query c i now where x: "x = (query, c, i, now)" by (cases x)
    have "track_all t (x # calls) gs = track_all t calls (track_all t [x] gs)" by (simp add: track_all_def)
    then show ?case using Cons.IH [of "track_all t [x] gs"] frequency_tracked [of t q query c i now gs] by (simp add: x)
  qed (simp add: track_all_def)
  from this [of "[]"] show ?thesis by (simp add: frequency_of_def)
qed

lemma gap_of_any_tenant: "i \<in> set (map kg_id gs) \<Longrightarrow> \<exists>gs'. dismiss_gap i (Some gs) = Inr (Some gs') \<and> i \<notin> set (map kg_id gs')"
  by (auto simp: dismiss_gap_def table_of_def)

section \<open>The evaluation suite\<close>

text \<open>Every trajectory passes with the same score, nothing being run; a regression of the policy, the cost or the latency is none.\<close>

lemma trajectories_always_pass: "list_all er_passed (es_history s) \<Longrightarrow> list_all er_passed (es_history (snd (run_trajectory_test task s)))"
  by (simp add: run_trajectory_test_def Let_def)

lemma quality_bounds:
  assumes "0 \<le> ag_step_success (er_metrics r)" "ag_step_success (er_metrics r) \<le> 1" "0 \<le> ag_tool_accuracy (er_metrics r)"
    "ag_tool_accuracy (er_metrics r) \<le> 1" "0 \<le> ag_policy (er_metrics r)" "ag_policy (er_metrics r) \<le> 1" "0 \<le> ag_steps (er_metrics r)"
  shows "0 \<le> compute_quality_score r \<and> compute_quality_score r \<le> 86 / 100"
proof -
  define z :: rat where "z = max 0 (1 - of_int (ag_steps (er_metrics r)) / 20)"
  have z: "0 \<le> z" "z \<le> 1" using assms(7) by (simp_all add: z_def)
  show ?thesis
  proof (cases "ag_steps (er_metrics r) = 0")
    case False
    have c: "compute_quality_score r = (ag_step_success (er_metrics r) * (3 / 10) + ag_tool_accuracy (er_metrics r) * (25 / 100) +
        ag_policy (er_metrics r) * (25 / 100)) * (7 / 10) + z * (3 / 10)"
      using False by (simp add: compute_quality_score_def Let_def z_def)
    show ?thesis unfolding c using assms(1-6) z by (auto simp: field_simps)
  qed (simp add: compute_quality_score_def)
qed

lemma policy_regression_unseen: "\<not> detect_regression b (b\<lparr>ag_policy := p, ag_cost := c, ag_latency := l\<rparr>)"
  if "0 \<le> ag_step_success b" "0 \<le> ag_tool_accuracy b"
  using that by (simp add: detect_regression_def)

end
