(* ===== verification/Guard.thy ===== *)
theory Guard
  imports Db Regex
begin

text \<open>
  Safety checks outside the agent graph: \<^verbatim>\<open>chat_service/agent/guardrails.py\<close>,
  \<^verbatim>\<open>shared/guardrails.py\<close>, \<^verbatim>\<open>shared/pii_detector.py\<close>,
  \<^verbatim>\<open>shared/action_policy.py\<close> and \<^verbatim>\<open>shared/output_filter.py\<close>.  The explaining
  texts of the results are left out, and so are the patterns they name.
\<close>

section \<open>Personal data, as the agent looks for it\<close>

definition one_of :: "string \<Rightarrow> nat \<Rightarrow> bool" where
  "one_of w c \<longleftrightarrow> c \<in> set (ucs_of w)"

definition alnum_or :: "string \<Rightarrow> nat \<Rightarrow> bool" where \<comment> \<open>\<open>[A-Za-z0-9...]\<close>, ignoring the case\<close>
  "alnum_or w c \<longleftrightarrow> is_letter c \<or> is_decimal (\<lambda>c. False) c \<or> one_of w c"

definition opt :: "(nat \<Rightarrow> bool) \<Rightarrow> rex" where
  "opt p = RRep 0 (Some 1) p"

definition exactly :: "nat \<Rightarrow> (nat \<Rightarrow> bool) \<Rightarrow> rex" where
  "exactly n p = RRep n (Some n) p"

definition many1 :: "(nat \<Rightarrow> bool) \<Rightarrow> rex" where
  "many1 p = RRep 1 None p"

definition bound :: "unicode_table \<Rightarrow> rex" where
  "bound u = RBound (is_word (ut_word u))"

definition PATTERNS :: "unicode_table \<Rightarrow> (rex \<times> string \<times> ucs) list" where
  "PATTERNS u = (let digit = is_decimal (ut_digit u) in
     [(rseq [bound u, many1 (alnum_or ''._%+-''), rlit ''@'', many1 (alnum_or ''.-''), rlit ''.'',
         RRep 2 None (\<lambda>c. is_letter c \<or> one_of ''|'' c), bound u], ''email'', ucs_of ''[EMAIL]''),
      (rseq [bound u, exactly 3 digit, opt (\<lambda>c. one_of ''-.'' c \<or> is_ws c), exactly 3 digit,
         opt (\<lambda>c. one_of ''-.'' c \<or> is_ws c), exactly 4 digit, bound u], ''phone'', ucs_of ''[PHONE]''),
      (rseq [bound u, exactly 4 digit, opt (\<lambda>c. one_of ''-'' c \<or> is_ws c), exactly 4 digit, opt (\<lambda>c. one_of ''-'' c \<or> is_ws c),
         exactly 4 digit, opt (\<lambda>c. one_of ''-'' c \<or> is_ws c), exactly 4 digit, bound u], ''credit_card'', ucs_of ''[CARD]''),
      (rseq [bound u, exactly 3 digit, opt (\<lambda>c. one_of ''-'' c \<or> is_ws c), exactly 2 digit, opt (\<lambda>c. one_of ''-'' c \<or> is_ws c),
         exactly 4 digit, bound u], ''ssn'', ucs_of ''[SSN]''),
      (rseq [bound u, RSym is_letter, RSym digit, RSym is_letter, opt (\<lambda>c. one_of ''-'' c \<or> is_ws c), RSym digit, RSym is_letter,
         RSym digit, bound u], ''passport'', ucs_of ''[PASSPORT]''),
      (rseq [bound u, ralt (map rilit [''street'', ''avenue'', ''road'', ''blvd'']), many1 (\<lambda>c. one_of ''.,?'' c \<or> is_ws c),
         many1 (is_word (ut_word u))], ''address'', ucs_of ''[ADDRESS]'')])"

definition detect :: "unicode_table \<Rightarrow> ucs \<Rightarrow> (ucs \<times> string) list" where
  "detect u s = concat (map (\<lambda>(r, label, _). map (\<lambda>m. (m, label)) (rex_finditer r s)) (PATTERNS u))"

definition redact :: "unicode_table \<Rightarrow> ucs \<Rightarrow> ucs \<times> ucs list" where
  "redact u s =
     (fold (\<lambda>(r, _, new) t. rex_sub r new t) (PATTERNS u) s,
      concat (map (\<lambda>(r, _). rex_finditer r s) (PATTERNS u)))"

section \<open>The agent's output filter and permissions\<close>

datatype safety_level = SAFE | WARN | BLOCK

record safety_result =
  sr_level :: safety_level
  sr_violations :: "ucs list"
  sr_sanitized :: "ucs option"

definition safe :: safety_result where
  "safe = \<lparr>sr_level = SAFE, sr_violations = [], sr_sanitized = None\<rparr>"

definition phrase :: "string list \<Rightarrow> string list \<Rightarrow> rex" where \<comment> \<open>\<open>(a|b)\s+(c|d)\<close>\<close>
  "phrase xs ys = rseq [ralt (map rilit xs), many1 is_ws, ralt (map rilit ys)]"

definition BLOCK_PATTERNS :: "rex list" where
  "BLOCK_PATTERNS =
     [phrase [''hack'', ''exploit'', ''vulnerability''] [''system'', ''server'', ''database'', ''account''],
      phrase [''steal'', ''bypass'', ''steal'', ''phish''] [''credentials'', ''passwords'', ''data''],
      phrase [''generate'', ''create''] [''malware'', ''virus'', ''ransomware'', ''trojan'']]"

definition WARN_PATTERNS :: "rex list" where
  "WARN_PATTERNS =
     [phrase [''confidential'', ''proprietary'', ''secret''] [''information'', ''data'', ''document''],
      phrase [''internal'', ''private'', ''restricted''] [''code'', ''document'', ''policy'']]"

definition filter_check :: "ucs \<Rightarrow> safety_result" where
  "filter_check s =
     (let violations =
        map (\<lambda>m. ucs_of ''blocked_pattern: '' @ m) (List.map_filter (\<lambda>r. rex_first r s) BLOCK_PATTERNS) @
        map (\<lambda>m. ucs_of ''warning_pattern: '' @ m) (List.map_filter (\<lambda>r. rex_first r s) WARN_PATTERNS)
      in if violations \<noteq> [] then
           \<lparr>sr_level = (if list_ex (sub_in (ucs_of ''blocked'')) violations then BLOCK else WARN), sr_violations = violations, sr_sanitized = None\<rparr>
         else safe)"

definition filter_sanitize :: "ucs \<Rightarrow> ucs" where
  "filter_sanitize s = fold (\<lambda>r t. rex_sub r (ucs_of ''[FILTERED: potentially harmful content]'') t) BLOCK_PATTERNS s"

text \<open>The two sets, in the order in which Python goes through them.\<close>

record agent_guardrails =
  gr_allowed :: "string list"
  gr_blocked :: "string list"

definition new_guardrails :: agent_guardrails where
  "new_guardrails = \<lparr>gr_allowed = [], gr_blocked = []\<rparr>"

definition set_allowed_tools :: "string list \<Rightarrow> agent_guardrails \<Rightarrow> agent_guardrails" where
  "set_allowed_tools ts g = g\<lparr>gr_allowed := remdups ts\<rparr>"

definition set_blocked_domains :: "string list \<Rightarrow> agent_guardrails \<Rightarrow> agent_guardrails" where
  "set_blocked_domains ds g = g\<lparr>gr_blocked := remdups ds\<rparr>"

definition check_tool_permission :: "string \<Rightarrow> agent_guardrails \<Rightarrow> safety_result" where
  "check_tool_permission tool g =
     (if gr_allowed g = [] then safe
      else if tool \<notin> set (gr_allowed g) then \<lparr>sr_level = BLOCK, sr_violations = [ucs_of (''disallowed_tool: '' @ tool)], sr_sanitized = None\<rparr>
      else safe)"

definition check_domain_permission :: "string \<Rightarrow> agent_guardrails \<Rightarrow> safety_result" where
  "check_domain_permission url g =
     (case find (\<lambda>d. sub_in d url) (gr_blocked g) of
        None \<Rightarrow> safe
      | Some d \<Rightarrow> \<lparr>sr_level = BLOCK, sr_violations = [ucs_of (''blocked_domain: '' @ d)], sr_sanitized = None\<rparr>)"

definition pii_violations :: "(ucs \<times> string) list \<Rightarrow> ucs list" where
  "pii_violations fs = map (\<lambda>(_, label). ucs_of (''pii: '' @ label)) fs"

definition inspect_input :: "unicode_table \<Rightarrow> ucs \<Rightarrow> safety_result" where
  "inspect_input u s =
     (let found = detect u s in
      if found = [] then safe else \<lparr>sr_level = WARN, sr_violations = pii_violations found, sr_sanitized = None\<rparr>)"

definition inspect_output :: "unicode_table \<Rightarrow> ucs \<Rightarrow> safety_result" where
  "inspect_output u s =
     (let r = filter_check s in
      if sr_level r \<noteq> SAFE then r
      else let found = detect u s in
        if found \<noteq> [] then \<lparr>sr_level = WARN, sr_violations = pii_violations found, sr_sanitized = Some (fst (redact u s))\<rparr>
        else safe)"

definition sanitize_content :: "unicode_table \<Rightarrow> ucs \<Rightarrow> ucs" where
  "sanitize_content u s = fst (redact u (filter_sanitize s))"

section \<open>The shared guardrails\<close>

definition SHARED_PATTERNS :: "unicode_table \<Rightarrow> (string \<times> rex) list" where
  "SHARED_PATTERNS u = (let digit = is_decimal (ut_digit u); wd = is_word (ut_word u) in
     [(''email'', rseq [many1 (\<lambda>c. wd c \<or> one_of ''.+-'' c), rlit ''@'', many1 (\<lambda>c. wd c \<or> one_of ''-'' c), rlit ''.'', many1 wd]),
      (''phone'', rseq [bound u, exactly 3 digit, opt (one_of ''-.''), exactly 3 digit, opt (one_of ''-.''), exactly 4 digit, bound u]),
      (''ssn'', rseq [bound u, exactly 3 digit, rlit ''-'', exactly 2 digit, rlit ''-'', exactly 4 digit, bound u]),
      (''credit_card'', rseq [bound u, exactly 4 digit, opt (\<lambda>c. one_of ''-'' c \<or> is_ws c), exactly 4 digit,
         opt (\<lambda>c. one_of ''-'' c \<or> is_ws c), exactly 4 digit, opt (\<lambda>c. one_of ''-'' c \<or> is_ws c), exactly 4 digit, bound u]),
      (''ip'', rseq [bound u, RRep 1 (Some 3) digit, rlit ''.'', RRep 1 (Some 3) digit, rlit ''.'', RRep 1 (Some 3) digit, rlit ''.'',
         RRep 1 (Some 3) digit, bound u]),
      (''passport'', rseq [bound u, RRep 1 (Some 2) (\<lambda>c. 65 \<le> c \<and> c \<le> 90), RRep 6 (Some 9) digit, bound u])])"

definition shared_detect :: "unicode_table \<Rightarrow> ucs \<Rightarrow> (string \<times> ucs) list" where
  "shared_detect u s = concat (map (\<lambda>(ty, r). map (Pair ty) (rex_finditer r s)) (SHARED_PATTERNS u))"

definition upper_ucs :: "nat \<Rightarrow> nat" where \<comment> \<open>\<open>upper\<close> of the types' names\<close>
  "upper_ucs c = (if 97 \<le> c \<and> c \<le> 122 then c - 32 else c)"

definition shared_redact :: "unicode_table \<Rightarrow> ucs \<Rightarrow> ucs" where
  "shared_redact u s = fold (\<lambda>(ty, r) t. rex_sub r (ucs_of ''['' @ map upper_ucs (ucs_of ty) @ ucs_of ''_REDACTED]'') t) (SHARED_PATTERNS u) s"

datatype guardrail_action = ABlock | AWarn | ALog

record guardrail_result =
  gd_passed :: bool
  gd_triggered :: "string option"
  gd_confidence :: rat
  gd_action :: guardrail_action

definition passed_result :: guardrail_result where
  "passed_result = \<lparr>gd_passed = True, gd_triggered = None, gd_confidence = 1, gd_action = ALog\<rparr>"

definition input_patterns :: "unicode_table \<Rightarrow> rex list" where
  "input_patterns u =
     [rseq [rilit ''<script'', RLazy (\<lambda>c. c \<noteq> 10), rlit ''>''],
      rilit ''javascript:'',
      rseq [rilit ''on'', many1 (is_word (ut_word u)), RRep 0 None is_ws, rlit ''='']]"

definition UNSURE :: rex where
  "UNSURE = ralt [rilit (''i'' @ [CHR 0x27] @ ''m not sure''), RSeq RFront (rilit ''maybe''), RSeq RFront (rilit ''perhaps'')]"

definition check_input :: "unicode_table \<Rightarrow> ucs \<Rightarrow> guardrail_result" where
  "check_input u s =
     (if s = [] then passed_result
      else if list_ex (\<lambda>r. rex_first r s \<noteq> None) (input_patterns u) then
        \<lparr>gd_passed = False, gd_triggered = Some ''prompt_injection'', gd_confidence = 9 / 10, gd_action = ABlock\<rparr>
      else if shared_detect u s \<noteq> [] then
        \<lparr>gd_passed = True, gd_triggered = Some ''pii_detected'', gd_confidence = 95 / 100, gd_action = AWarn\<rparr>
      else passed_result)"

definition check_output :: "ucs \<Rightarrow> guardrail_result" where
  "check_output s =
     (if s = [] then passed_result
      else if rex_first UNSURE s \<noteq> None then \<lparr>gd_passed = True, gd_triggered = Some ''uncertain_output'', gd_confidence = 7 / 10, gd_action = AWarn\<rparr>
      else passed_result)"

definition DEFAULT_ALLOWED_TOOLS :: "string list" where
  "DEFAULT_ALLOWED_TOOLS = [''search_knowledge'', ''get_order_status'', ''calculate_refund'', ''escalate_to_human'', ''transfer'', ''get_customer_info'']"

definition new_policy :: "string list option \<Rightarrow> string list" where
  "new_policy ts = (case ts of None \<Rightarrow> DEFAULT_ALLOWED_TOOLS | Some ws \<Rightarrow> if ws = [] then DEFAULT_ALLOWED_TOOLS else ws)"

definition check_action :: "string \<Rightarrow> string list \<Rightarrow> guardrail_result" where
  "check_action tool allowed =
     (if tool \<notin> set allowed then \<lparr>gd_passed = False, gd_triggered = Some ''tool_not_allowed'', gd_confidence = 1, gd_action = ABlock\<rparr>
      else passed_result)"

definition add_allowed_tool :: "string \<Rightarrow> string list \<Rightarrow> string list" where
  "add_allowed_tool tool allowed = (if tool \<notin> set allowed then allowed @ [tool] else allowed)"

definition remove_allowed_tool :: "string \<Rightarrow> string list \<Rightarrow> string list" where
  "remove_allowed_tool tool allowed = remove1 tool allowed"

section \<open>The shared output filter\<close>

record filter_result =
  fr_passed :: bool
  fr_triggered :: "string option"
  fr_confidence :: rat

definition filter_passed :: filter_result where
  "filter_passed = \<lparr>fr_passed = True, fr_triggered = None, fr_confidence = 1\<rparr>"

definition toxic_words :: "ucs list" where
  "toxic_words = map ucs_of [''hate'', ''violent'', ''explicit'', ''harmful'', ''offensive'']"

definition toxic_score :: "(ucs \<Rightarrow> ucs) \<Rightarrow> ucs \<Rightarrow> rat" where
  "toxic_score lower s = min (of_nat (length (filter (\<lambda>w. sub_in w (lower s)) toxic_words)) / 3) 1"

definition check_toxicity :: "(ucs \<Rightarrow> ucs) \<Rightarrow> rat \<Rightarrow> ucs \<Rightarrow> filter_result" where
  "check_toxicity lower threshold s =
     (if s = [] then filter_passed
      else if threshold \<le> toxic_score lower s then \<lparr>fr_passed = False, fr_triggered = Some ''toxicity'', fr_confidence = toxic_score lower s\<rparr>
      else filter_passed)"

definition check_hallucination :: "(ucs \<Rightarrow> ucs) \<Rightarrow> rat \<Rightarrow> ucs \<Rightarrow> ucs list \<Rightarrow> filter_result" where
  "check_hallucination lower threshold s sources =
     (if s = [] \<or> sources = [] then filter_passed
      else if filter (\<lambda>src. sub_in (lower src) (lower s)) sources = [] \<and> threshold \<le> 8 / 10
        then \<lparr>fr_passed = False, fr_triggered = Some ''hallucination'', fr_confidence = 8 / 10\<rparr>
      else filter_passed)"

text \<open>The check for absolute statements only writes to the log.\<close>

definition check_factual_consistency :: "ucs \<Rightarrow> ucs list \<Rightarrow> filter_result" where
  "check_factual_consistency s rag = filter_passed"

definition filter_output :: "unicode_table \<Rightarrow> ucs \<Rightarrow> ucs" where
  "filter_output u s = rex_sub (rseq [bound u, ralt (map rilit [''hate'', ''violent'', ''explicit'']), bound u]) (ucs_of ''[FILTERED]'') s"

definition check_uncertainty :: "ucs \<Rightarrow> filter_result" where
  "check_uncertainty s =
     (if s = [] then filter_passed
      else if rex_first UNSURE s \<noteq> None \<or> rex_first (ralt [rilit ''i cannot confirm'', rilit (''i don'' @ [CHR 0x27] @ ''t know'')]) s \<noteq> None
        then \<lparr>fr_passed = True, fr_triggered = Some ''uncertain_response'', fr_confidence = 7 / 10\<rparr>
      else filter_passed)"

definition comprehensive_check :: "(ucs \<Rightarrow> ucs) \<Rightarrow> rat \<Rightarrow> rat \<Rightarrow> ucs \<Rightarrow> ucs list \<Rightarrow> ucs list \<Rightarrow> filter_result" where
  "comprehensive_check lower hall tox s sources rag =
     (let t = check_toxicity lower tox s in if \<not> fr_passed t then t
      else let h = check_hallucination lower hall s sources in if \<not> fr_passed h then h
      else let f = check_factual_consistency s rag in if \<not> fr_passed f then f
      else \<lparr>fr_passed = True, fr_triggered = fr_triggered (check_uncertainty s), fr_confidence = 1\<rparr>)"

section \<open>Levels\<close>

lemma rex_chars_seq: "rex_chars (rseq rs) c \<longleftrightarrow> list_ex (\<lambda>r. rex_chars r c) rs"
  by (induction rs) (auto simp: rseq_def)

lemma rex_chars_alt: "rs \<noteq> [] \<Longrightarrow> rex_chars (ralt rs) c \<longleftrightarrow> list_ex (\<lambda>r. rex_chars r c) rs"
proof -
  have "rex_chars (foldr ROr xs y) c \<longleftrightarrow> list_ex (\<lambda>r. rex_chars r c) (xs @ [y])" for xs y
    by (induction xs) auto
  from this [of "butlast rs" "last rs"] show "rs \<noteq> [] \<Longrightarrow> ?thesis" by (simp add: ralt_def)
qed

lemma rex_chars_lit: "rex_chars (rilit w) c \<longleftrightarrow> list_ex (\<lambda>a. fold_ucs c = of_char a) w"
  by (simp add: rilit_def rex_chars_seq list_ex_iff)

text \<open>No text that a warning pattern can match has a \<open>b\<close>, so that none is taken for a blocked one.\<close>

lemma warnings_without_b: "list_all (\<lambda>r. \<not> rex_chars r 98) WARN_PATTERNS"
  by (simp add: WARN_PATTERNS_def phrase_def rex_chars_seq rex_chars_alt rex_chars_lit many1_def fold_ucs_def is_ws_def)

definition some_hit :: "rex list \<Rightarrow> ucs \<Rightarrow> bool" where
  "some_hit rs s \<longleftrightarrow> list_ex (\<lambda>r. rex_finditer r s \<noteq> []) rs"

lemma first_found: "List.map_filter (\<lambda>r. rex_first r s) rs = [] \<longleftrightarrow> \<not> some_hit rs s"
  by (induction rs) (auto simp: some_hit_def rex_first_def List.map_filter_simps split: list.splits)

lemma first_in: "m \<in> set (List.map_filter (\<lambda>r. rex_first r s) rs) \<Longrightarrow> \<exists>r \<in> set rs. m \<in> set (rex_finditer r s)"
  by (induction rs) (auto simp: rex_first_def List.map_filter_simps split: list.splits option.splits)

lemma filter_level: "sr_level (filter_check s) = (if some_hit BLOCK_PATTERNS s then BLOCK else if some_hit WARN_PATTERNS s then WARN else SAFE)"
proof -
  let ?b = "List.map_filter (\<lambda>r. rex_first r s) BLOCK_PATTERNS" and ?w = "List.map_filter (\<lambda>r. rex_first r s) WARN_PATTERNS"
  have "sub_in (ucs_of ''blocked'') (ucs_of ''blocked_pattern: '' @ m)" for m
    unfolding sub_in_iff by (rule exI [of _ "[]"], rule exI [of _ "ucs_of ''_pattern: '' @ m"]) (simp add: ucs_of_def)
  then have b: "list_ex (sub_in (ucs_of ''blocked'')) (map (\<lambda>m. ucs_of ''blocked_pattern: '' @ m) ?b) \<longleftrightarrow> ?b \<noteq> []"
    by (cases ?b) simp_all
  have "\<not> sub_in (ucs_of ''blocked'') (ucs_of ''warning_pattern: '' @ m)" if m: "m \<in> set ?w" for m
  proof
    assume "sub_in (ucs_of ''blocked'') (ucs_of ''warning_pattern: '' @ m)"
    then obtain x y where "ucs_of ''warning_pattern: '' @ m = x @ ucs_of ''blocked'' @ y" unfolding sub_in_iff by blast
    then have "98 \<in> set (ucs_of ''warning_pattern: '' @ m)" by (simp add: ucs_of_def)
    then have "98 \<in> set m" by (simp add: ucs_of_def)
    moreover obtain r where "r \<in> set WARN_PATTERNS" "m \<in> set (rex_finditer r s)" using first_in [OF m] by blast
    ultimately show False using found_chars [of m r s] warnings_without_b by (auto simp: list_all_iff)
  qed
  then have "\<not> list_ex (sub_in (ucs_of ''blocked'')) (map (\<lambda>m. ucs_of ''warning_pattern: '' @ m) ?w)"
    by (auto simp: list_ex_iff)
  with b show ?thesis
    by (simp add: filter_check_def Let_def safe_def first_found)
qed

text \<open>
  Both modules detect personal data and replace it: what both promise is that a text in which nothing
  is detected is left alone, so that replacing again what came out clean changes nothing.
\<close>

locale redactor =
  fixes found_in :: "ucs \<Rightarrow> 'a list" and replaced :: "ucs \<Rightarrow> ucs"
  assumes clean_kept: "found_in s = [] \<Longrightarrow> replaced s = s"
begin

lemma replaced_once: "found_in (replaced s) = [] \<Longrightarrow> replaced (replaced s) = replaced s"
  by (rule clean_kept)

lemma changed_only_found: "replaced s \<noteq> s \<Longrightarrow> found_in s \<noteq> []"
  using clean_kept by blast

end

lemma fold_sub_nothing:
  "list_all (\<lambda>p. rex_finditer (pattern p) s = []) ps \<Longrightarrow> fold (\<lambda>p t. rex_sub (pattern p) (new p) t) ps s = s"
  by (induction ps) (auto simp: sub_nothing)

interpretation agent_redactor: redactor "detect u" "\<lambda>s. fst (redact u s)"
proof unfold_locales
  fix s assume "detect u s = []"
  then have "list_all (\<lambda>p. rex_finditer (fst p) s = []) (PATTERNS u)"
    by (auto simp: detect_def list_all_iff)
  from fold_sub_nothing [of fst, OF this, of "\<lambda>p. snd (snd p)"] show "fst (redact u s) = s"
    by (simp add: redact_def case_prod_unfold)
qed

interpretation shared_redactor: redactor "shared_detect u" "shared_redact u"
proof unfold_locales
  fix s assume "shared_detect u s = []"
  then have "list_all (\<lambda>p. rex_finditer (snd p) s = []) (SHARED_PATTERNS u)"
    by (auto simp: shared_detect_def list_all_iff)
  from fold_sub_nothing [of snd, OF this, of "\<lambda>p. ucs_of ''['' @ map upper_ucs (ucs_of (fst p)) @ ucs_of ''_REDACTED]''"]
  show "shared_redact u s = s" by (simp add: shared_redact_def case_prod_unfold)
qed

lemma redact_clean:
  assumes "detect u s = []"
  shows "redact u s = (s, [])"
proof -
  have "list_all (\<lambda>(r, _, _). rex_finditer r s = []) (PATTERNS u)"
    using assms by (auto simp: detect_def list_all_iff)
  then have "snd (redact u s) = []" by (auto simp: redact_def list_all_iff)
  with agent_redactor.clean_kept [OF assms] show ?thesis by (simp add: prod_eq_iff)
qed

lemma sanitize_clean:
  assumes "\<not> some_hit BLOCK_PATTERNS s"
  shows "filter_sanitize s = s"
proof -
  have "fold (\<lambda>r t. rex_sub r new t) rs s = s" if "\<not> some_hit rs s" for rs new
    using that by (induction rs) (auto simp: some_hit_def sub_nothing)
  with assms show ?thesis by (simp add: filter_sanitize_def)
qed

text \<open>
  The agent's output is blocked exactly when a blocking pattern is found, warned of when another one or
  personal data is, and safe otherwise; what is safe goes through sanitizing unchanged, and only a
  warning for personal data carries a sanitized text.
\<close>

theorem output_levels:
  "sr_level (inspect_output u s) =
     (if some_hit BLOCK_PATTERNS s then BLOCK else if some_hit WARN_PATTERNS s \<or> detect u s \<noteq> [] then WARN else SAFE) \<and>
   (sr_level (inspect_output u s) = SAFE \<longrightarrow> sanitize_content u s = s) \<and>
   (sr_sanitized (inspect_output u s) \<noteq> None \<longleftrightarrow> \<not> some_hit BLOCK_PATTERNS s \<and> \<not> some_hit WARN_PATTERNS s \<and> detect u s \<noteq> [])"
proof -
  have "sr_sanitized (filter_check s) = None" by (simp add: filter_check_def Let_def safe_def)
  then show ?thesis using filter_level [of s] redact_clean [of u s] sanitize_clean [of s]
    by (auto simp: inspect_output_def sanitize_content_def Let_def safe_def)
qed

lemma output_levels_witness:
  "sr_level (inspect_output \<lparr>ut_word = \<lambda>c. False, ut_digit = \<lambda>c. False\<rparr> []) = SAFE \<and>
   sanitize_content \<lparr>ut_word = \<lambda>c. False, ut_digit = \<lambda>c. False\<rparr> [] = []"
proof -
  let ?u = "\<lparr>ut_word = \<lambda>c. False, ut_digit = \<lambda>c. False\<rparr>"
  have f: "rex_finditer r [] = []" for r by (simp add: rex_finditer_def List.map_filter_simps)
  have "\<not> some_hit rs []" for rs by (simp add: some_hit_def f list_ex_iff)
  moreover have "detect ?u [] = []" by (simp add: detect_def f split_beta)
  ultimately show ?thesis using output_levels [of ?u "[]"] by simp
qed

section \<open>Permissions\<close>

text \<open>An empty list of allowed tools allows every tool; of the shared policy an empty list means the default one, but removing every tool allows none.\<close>

lemma empty_list_allows_all: "sr_level (check_tool_permission tool (set_allowed_tools [] g)) = SAFE"
  by (simp add: check_tool_permission_def set_allowed_tools_def safe_def)

lemma tool_allowed: "ts \<noteq> [] \<Longrightarrow> sr_level (check_tool_permission tool (set_allowed_tools ts g)) = (if tool \<in> set ts then SAFE else BLOCK)"
  by (simp add: check_tool_permission_def set_allowed_tools_def safe_def)

lemma policy_tools:
  "gd_passed (check_action tool (add_allowed_tool t ts)) \<longleftrightarrow> tool = t \<or> tool \<in> set ts"
  "distinct ts \<Longrightarrow> gd_passed (check_action tool (remove_allowed_tool t ts)) \<longleftrightarrow> tool \<noteq> t \<and> tool \<in> set ts"
  by (auto simp: check_action_def add_allowed_tool_def remove_allowed_tool_def passed_result_def)

text \<open>A domain is blocked wherever its name stands in the address, in this case of its letters only.\<close>

lemma domain_blocked:
  "sr_level (check_domain_permission url (set_blocked_domains ds g)) = BLOCK \<longleftrightarrow> (\<exists>d \<in> set ds. sub_in d url)"
proof (cases "find (\<lambda>d. sub_in d url) (remdups ds)")
  case None
  then have "check_domain_permission url (set_blocked_domains ds g) = safe"
    by (simp add: check_domain_permission_def set_blocked_domains_def)
  moreover have "\<forall>d \<in> set ds. \<not> sub_in d url" using None unfolding find_None_iff by simp
  ultimately show ?thesis by (simp add: safe_def)
next
  case (Some d)
  from find_SomeD [OF Some] have "d \<in> set ds" "sub_in d url" by simp_all
  with Some show ?thesis by (auto simp: check_domain_permission_def set_blocked_domains_def)
qed

lemma domain_evaded:
  "sr_level (check_domain_permission ''https://EVIL.com/'' (set_blocked_domains [''evil.com''] new_guardrails)) = SAFE"
  "sr_level (check_domain_permission ''https://example.org/?about=evil.com'' (set_blocked_domains [''evil.com''] new_guardrails)) = BLOCK"
  by (simp_all add: check_domain_permission_def set_blocked_domains_def new_guardrails_def safe_def starts_with_def)

section \<open>The shared filter\<close>

lemma toxic_score_half: "1 \<le> toxic_score lower s * 2 \<longleftrightarrow> 2 \<le> length (filter (\<lambda>w. sub_in w (lower s)) toxic_words)"
proof -
  define n where "n = length (filter (\<lambda>w. sub_in w (lower s)) toxic_words)"
  have "1 \<le> toxic_score lower s * 2 \<longleftrightarrow> 3 \<le> (of_nat n :: rat) * 2" by (simp add: toxic_score_def n_def [symmetric] min_def le_divide_eq)
  also have "\<dots> \<longleftrightarrow> (of_nat 3 :: rat) \<le> of_nat (n * 2)" by simp
  also have "\<dots> \<longleftrightarrow> 2 \<le> n" unfolding of_nat_le_iff by auto
  finally show ?thesis by (simp add: n_def)
qed

text \<open>
  With the default thresholds a reply fails exactly when two of five words are somewhere in it, if only
  inside other words, or when sources were given and it quotes none of them as a whole.
\<close>

theorem filter_fails:
  assumes "s \<noteq> []"
  shows "fr_passed (comprehensive_check lower (7 / 10) (1 / 2) s sources rag) \<longleftrightarrow>
    length (filter (\<lambda>w. sub_in w (lower s)) toxic_words) < 2 \<and> (sources = [] \<or> list_ex (\<lambda>src. sub_in (lower src) (lower s)) sources)"
proof -
  have "filter (\<lambda>src. sub_in (lower src) (lower s)) sources = [] \<longleftrightarrow> \<not> list_ex (\<lambda>src. sub_in (lower src) (lower s)) sources"
    by (simp add: filter_empty_conv list_ex_iff)
  then show ?thesis using assms
    by (auto simp: comprehensive_check_def Let_def check_toxicity_def toxic_score_half check_hallucination_def check_factual_consistency_def filter_passed_def)
qed

lemma filter_fails_witness:
  "\<not> fr_passed (comprehensive_check id (7 / 10) (1 / 2) (ucs_of ''whatever is explicitly allowed'') [] [])"
  using filter_fails [of "ucs_of ''whatever is explicitly allowed''" id "[]" "[]"]
  by (simp add: toxic_words_def ucs_of_def starts_with_def)

lemma hallucination_threshold_off: "8 / 10 < hall \<Longrightarrow> fr_passed (check_hallucination lower hall s sources)"
  by (simp add: check_hallucination_def filter_passed_def)

end
