(* ===== verification/Channels.thy ===== *)
theory Channels
  imports Db
begin

text \<open>
  Messages of other channels: \<^verbatim>\<open>shared/channel_adapters.py\<close>.  A webhook is a JSON value; \<open>pystr\<close>
  is \<open>str\<close> of what is neither a text nor an integer.
\<close>

section \<open>Payloads\<close>

datatype webhook =
    PNull
  | PBool bool
  | PNum int
  | PText ucs
  | PList "webhook list"
  | PDict "(string \<times> webhook) list"

fun get :: "string \<Rightarrow> webhook \<Rightarrow> webhook \<Rightarrow> exn + webhook" where \<comment> \<open>\<open>v.get(key, default)\<close>\<close>
  "get k d (PDict kvs) = Inr (case map_of kvs k of None \<Rightarrow> d | Some v \<Rightarrow> v)"
| "get k d _ = Inl AttributeError"

fun first_item :: "webhook \<Rightarrow> exn + webhook" where \<comment> \<open>\<open>v[0]\<close>\<close>
  "first_item (PList []) = Inl IndexError"
| "first_item (PList (v # vs)) = Inr v"
| "first_item (PText []) = Inl IndexError"
| "first_item (PText (c # cs)) = Inr (PText [c])"
| "first_item (PDict kvs) = Inl KeyError"
| "first_item _ = Inl TypeError"

fun is_truthy :: "webhook \<Rightarrow> bool" where
  "is_truthy PNull = False"
| "is_truthy (PBool b) = b"
| "is_truthy (PNum i) = (i \<noteq> 0)"
| "is_truthy (PText s) = (s \<noteq> [])"
| "is_truthy (PList vs) = (vs \<noteq> [])"
| "is_truthy (PDict kvs) = (kvs \<noteq> [])"

fun as_str :: "(webhook \<Rightarrow> ucs) \<Rightarrow> webhook \<Rightarrow> ucs" where \<comment> \<open>\<open>str(v)\<close>\<close>
  "as_str pystr (PText s) = s"
| "as_str pystr (PNum i) = ucs_of (show_int i)"
| "as_str pystr v = pystr v"

definition bind :: "'e + 'a \<Rightarrow> ('a \<Rightarrow> 'e + 'b) \<Rightarrow> 'e + 'b" where
  "bind r f = (case r of Inl e \<Rightarrow> Inl e | Inr x \<Rightarrow> f x)"

lemma bind_simps [simp]: "bind (Inl e) f = Inl e" "bind (Inr x) f = f x"
  by (simp_all add: bind_def)

section \<open>Messages\<close>

datatype channel = WHATSAPP | TELEGRAM | SLACK | TEAMS | WEB

record channel_message =
  cn_channel :: channel
  cn_id :: ucs
  cn_from :: ucs
  cn_to :: ucs
  cn_content :: ucs

text \<open>The model's fields are texts: any other value is refused.\<close>

fun text_field :: "webhook \<Rightarrow> exn + ucs" where
  "text_field (PText s) = Inr s"
| "text_field _ = Inl ValidationError"

definition channel_message_of :: "channel \<Rightarrow> webhook \<Rightarrow> webhook \<Rightarrow> webhook \<Rightarrow> webhook \<Rightarrow> exn + channel_message" where
  "channel_message_of c i f t b =
     bind (text_field i) (\<lambda>i. bind (text_field f) (\<lambda>f. bind (text_field t) (\<lambda>t. bind (text_field b) (\<lambda>b.
       Inr \<lparr>cn_channel = c, cn_id = i, cn_from = f, cn_to = t, cn_content = b\<rparr>))))"

abbreviation "empty_text \<equiv> PText []"
abbreviation "empty_object \<equiv> PDict []"

text \<open>Sending only builds the request's body: nothing is sent.\<close>

definition whatsapp_send :: "channel_message \<Rightarrow> webhook" where
  "whatsapp_send m = PDict [(''messaging_product'', PText (ucs_of ''whatsapp'')), (''to'', PText (cn_to m)), (''type'', PText (ucs_of ''text'')),
     (''text'', PDict [(''body'', PText (cn_content m))])]"

definition whatsapp_receive :: "webhook \<Rightarrow> exn + channel_message option" where
  "whatsapp_receive p =
     bind (bind (get ''entry'' (PList [empty_object]) p) first_item) (\<lambda>entry.
     bind (bind (get ''changes'' (PList [empty_object]) entry) first_item) (\<lambda>change.
     bind (get ''value'' empty_object change) (\<lambda>val.
     bind (get ''messages'' (PList []) val) (\<lambda>msgs.
       if \<not> is_truthy msgs then Inr None
       else bind (first_item msgs) (\<lambda>msg.
         bind (get ''id'' empty_text msg) (\<lambda>i.
         bind (get ''from'' empty_text msg) (\<lambda>f.
         bind (bind (get ''metadata'' empty_object val) (get ''phone_number_id'' empty_text)) (\<lambda>t.
         bind (bind (get ''text'' empty_object msg) (get ''body'' empty_text)) (\<lambda>b.
           map_sum id Some (channel_message_of WHATSAPP i f t b))))))))))"

definition telegram_send :: "channel_message \<Rightarrow> webhook" where
  "telegram_send m = PDict [(''chat_id'', PText (cn_to m)), (''text'', PText (cn_content m))]"

definition telegram_receive :: "(webhook \<Rightarrow> ucs) \<Rightarrow> webhook \<Rightarrow> exn + channel_message option" where
  "telegram_receive pystr p =
     bind (get ''message'' PNull p) (\<lambda>update.
       if \<not> is_truthy update then Inr None
       else
         bind (get ''message_id'' empty_text update) (\<lambda>i.
         bind (bind (get ''from'' empty_object update) (get ''id'' empty_text)) (\<lambda>f.
         bind (bind (get ''chat'' empty_object update) (get ''id'' empty_text)) (\<lambda>t.
         bind (get ''text'' empty_text update) (\<lambda>b.
           map_sum id Some (channel_message_of TELEGRAM (PText (as_str pystr i)) (PText (as_str pystr f)) (PText (as_str pystr t)) b))))))"

definition slack_send :: "channel_message \<Rightarrow> webhook" where
  "slack_send m = PDict [(''channel'', PText (cn_to m)), (''text'', PText (cn_content m))]"

definition slack_receive :: "webhook \<Rightarrow> exn + channel_message option" where
  "slack_receive p =
     bind (get ''event'' PNull p) (\<lambda>event.
       if \<not> is_truthy event then Inr None
       else
         bind (get ''ts'' empty_text event) (\<lambda>i.
         bind (get ''user'' empty_text event) (\<lambda>f.
         bind (get ''channel'' empty_text event) (\<lambda>t.
         bind (get ''text'' empty_text event) (\<lambda>b. map_sum id Some (channel_message_of SLACK i f t b))))))"

definition teams_send :: "channel_message \<Rightarrow> webhook" where
  "teams_send m = PDict [(''type'', PText (ucs_of ''message'')), (''from'', PDict [(''id'', PText (cn_from m)), (''name'', PText (ucs_of ''Bot''))]),
     (''text'', PText (cn_content m))]"

definition teams_receive :: "webhook \<Rightarrow> exn + channel_message option" where
  "teams_receive p =
     bind (get ''activity'' PNull p) (\<lambda>activity.
       if \<not> is_truthy activity then Inr None
       else
         bind (get ''from'' empty_object activity) (\<lambda>sender.
         bind (get ''id'' empty_text activity) (\<lambda>i.
         bind (get ''id'' empty_text sender) (\<lambda>f.
         bind (bind (get ''recipient'' empty_object activity) (get ''id'' empty_text)) (\<lambda>t.
         bind (get ''text'' empty_text activity) (\<lambda>b. map_sum id Some (channel_message_of TEAMS i f t b)))))))"

section \<open>The dispatcher\<close>

datatype adapter = WhatsAppAdapter | TelegramAdapter | SlackAdapter | TeamsAdapter

fun adapter_send :: "adapter \<Rightarrow> channel_message \<Rightarrow> webhook" where
  "adapter_send WhatsAppAdapter m = whatsapp_send m"
| "adapter_send TelegramAdapter m = telegram_send m"
| "adapter_send SlackAdapter m = slack_send m"
| "adapter_send TeamsAdapter m = teams_send m"

fun adapter_receive :: "(webhook \<Rightarrow> ucs) \<Rightarrow> adapter \<Rightarrow> webhook \<Rightarrow> exn + channel_message option" where
  "adapter_receive pystr WhatsAppAdapter p = whatsapp_receive p"
| "adapter_receive pystr TelegramAdapter p = telegram_receive pystr p"
| "adapter_receive pystr SlackAdapter p = slack_receive p"
| "adapter_receive pystr TeamsAdapter p = teams_receive p"

type_synonym dispatcher = "(channel \<times> adapter) list"

definition register_adapter :: "channel \<Rightarrow> adapter \<Rightarrow> dispatcher \<Rightarrow> dispatcher" where
  "register_adapter c a d = AList.update c a d"

definition dispatch_send :: "channel \<Rightarrow> channel_message \<Rightarrow> dispatcher \<Rightarrow> exn + webhook" where
  "dispatch_send c m d = (case map_of d c of None \<Rightarrow> Inl ValueError | Some a \<Rightarrow> Inr (adapter_send a m))"

definition normalize_message :: "(webhook \<Rightarrow> ucs) \<Rightarrow> channel \<Rightarrow> webhook \<Rightarrow> dispatcher \<Rightarrow> exn + channel_message option" where
  "normalize_message pystr c p d = (case map_of d c of None \<Rightarrow> Inr None | Some a \<Rightarrow> adapter_receive pystr a p)"

section \<open>What is normalized\<close>

text \<open>The webhook in which each service delivers a text, with the fields that are read.\<close>

fun envelope :: "adapter \<Rightarrow> ucs \<Rightarrow> ucs \<Rightarrow> ucs \<Rightarrow> ucs \<Rightarrow> webhook" where
  "envelope WhatsAppAdapter i f t b = PDict [(''entry'', PList [PDict [(''changes'', PList [PDict [(''value'',
     PDict [(''metadata'', PDict [(''phone_number_id'', PText t)]),
       (''messages'', PList [PDict [(''id'', PText i), (''from'', PText f), (''text'', PDict [(''body'', PText b)])]])])]])]])]"
| "envelope TelegramAdapter i f t b = PDict [(''message'', PDict [(''message_id'', PText i), (''from'', PDict [(''id'', PText f)]),
     (''chat'', PDict [(''id'', PText t)]), (''text'', PText b)])]"
| "envelope SlackAdapter i f t b = PDict [(''event'', PDict [(''ts'', PText i), (''user'', PText f), (''channel'', PText t), (''text'', PText b)])]"
| "envelope TeamsAdapter i f t b = PDict [(''activity'', PDict [(''from'', PDict [(''id'', PText f)]), (''id'', PText i),
     (''recipient'', PDict [(''id'', PText t)]), (''text'', PText b)])]"

fun channel_of :: "adapter \<Rightarrow> channel" where
  "channel_of WhatsAppAdapter = WHATSAPP"
| "channel_of TelegramAdapter = TELEGRAM"
| "channel_of SlackAdapter = SLACK"
| "channel_of TeamsAdapter = TEAMS"

text \<open>
  What the dispatcher relies on in an adapter: a delivered text is read back with its fields, and a
  webhook that holds nothing is no message.
\<close>

locale channel_adapter =
  fixes deliver :: "ucs \<Rightarrow> ucs \<Rightarrow> ucs \<Rightarrow> ucs \<Rightarrow> webhook"
    and receive :: "webhook \<Rightarrow> exn + channel_message option"
    and kind :: channel
  assumes delivered: "receive (deliver i f t b) = Inr (Some \<lparr>cn_channel = kind, cn_id = i, cn_from = f, cn_to = t, cn_content = b\<rparr>)"
    and silent: "receive (PDict []) = Inr None"
begin

lemma deliver_inject: "deliver i f t b = deliver i' f' t' b' \<longleftrightarrow> i = i' \<and> f = f' \<and> t = t' \<and> b = b'"
proof
  assume "deliver i f t b = deliver i' f' t' b'"
  then have "receive (deliver i f t b) = receive (deliver i' f' t' b')" by (rule arg_cong)
  then show "i = i' \<and> f = f' \<and> t = t' \<and> b = b'" unfolding delivered by simp
qed blast

lemma deliver_nonempty: "deliver i f t b \<noteq> PDict []"
proof
  assume "deliver i f t b = PDict []"
  then have "receive (deliver i f t b) = receive (PDict [])" by (rule arg_cong)
  then show False unfolding delivered silent by simp
qed

end

interpretation whatsapp: channel_adapter "envelope WhatsAppAdapter" whatsapp_receive WHATSAPP
  by unfold_locales (simp_all add: whatsapp_receive_def channel_message_of_def)

interpretation telegram: channel_adapter "envelope TelegramAdapter" "telegram_receive pystr" TELEGRAM
  by unfold_locales (simp_all add: telegram_receive_def channel_message_of_def)

interpretation slack: channel_adapter "envelope SlackAdapter" slack_receive SLACK
  by unfold_locales (simp_all add: slack_receive_def channel_message_of_def)

interpretation teams: channel_adapter "envelope TeamsAdapter" teams_receive TEAMS
  by unfold_locales (simp_all add: teams_receive_def channel_message_of_def)

text \<open>Whatever the channel it is registered for, an adapter gives back the message it was delivered.\<close>

theorem delivered_messages_normalized:
  "normalize_message pystr c (envelope a i f t b) (register_adapter c a d) =
     Inr (Some \<lparr>cn_channel = channel_of a, cn_id = i, cn_from = f, cn_to = t, cn_content = b\<rparr>)"
  using whatsapp.delivered telegram.delivered slack.delivered teams.delivered
  by (cases a) (simp_all add: normalize_message_def register_adapter_def)

text \<open>An empty webhook is no message for any registered adapter, and no two messages share a webhook.\<close>

theorem adapters_distinguish_messages:
  "normalize_message pystr c (PDict []) (register_adapter c a d) = Inr None"
  "envelope a i f t b = envelope a i' f' t' b' \<longleftrightarrow> i = i' \<and> f = f' \<and> t = t' \<and> b = b'"
proof -
  show "normalize_message pystr c (PDict []) (register_adapter c a d) = Inr None"
    using whatsapp.silent telegram.silent slack.silent teams.silent
    by (cases a) (simp_all add: normalize_message_def register_adapter_def)
  show "envelope a i f t b = envelope a i' f' t' b' \<longleftrightarrow> i = i' \<and> f = f' \<and> t = t' \<and> b = b'"
    using whatsapp.deliver_inject telegram.deliver_inject slack.deliver_inject teams.deliver_inject by (cases a) metis+
qed

text \<open>
  Only an absent message is no message: an empty list of entries raises, and so does a value that is
  null where an object is expected.
\<close>

lemma empty_entries_raise: "whatsapp_receive (PDict [(''entry'', PList [])]) = Inl IndexError"
  by (simp add: whatsapp_receive_def)

lemma null_text_raises:
  "slack_receive (PDict [(''event'', PDict [(''text'', PNull)])]) = Inl ValidationError"
  "teams_receive (PDict [(''activity'', PDict [(''from'', PNull)])]) = Inl AttributeError"
  by (simp_all add: slack_receive_def teams_receive_def channel_message_of_def)

text \<open>A channel without adapter drops what it receives but refuses to send, and no adapter exists for the web.\<close>

lemma unknown_channel: "map_of d c = None \<Longrightarrow> normalize_message pystr c p d = Inr None \<and> dispatch_send c m d = Inl ValueError"
  by (simp add: normalize_message_def dispatch_send_def)

text \<open>A reply to Teams names the sender but not the recipient: two users' replies have the same body.\<close>

lemma teams_reply_unaddressed: "teams_send (m\<lparr>cn_to := t\<rparr>) = teams_send m"
  by (simp add: teams_send_def)

end
