(* ===== verification/Sso.thy ===== *)
theory Sso
  imports Db Regex
begin

text \<open>
  Single sign-on: \<^verbatim>\<open>shared/sso_auth.py\<close>.  Base64 is \<open>b64encode\<close> and the lenient
  \<open>b64decode\<close> of the standard library; the decoder of UTF-8 and the XML parser are arguments.
\<close>

section \<open>Base64\<close>

definition enc6 :: "nat \<Rightarrow> nat" where
  "enc6 n = (if n < 26 then 65 + n else if n < 52 then 71 + n else if n < 62 then n - 4 else if n = 62 then 43 else 47)"

definition dec6 :: "nat \<Rightarrow> nat option" where
  "dec6 c = (if 65 \<le> c \<and> c \<le> 90 then Some (c - 65) else if 97 \<le> c \<and> c \<le> 122 then Some (c - 71)
     else if 48 \<le> c \<and> c \<le> 57 then Some (c + 4) else if c = 43 then Some 62 else if c = 47 then Some 63 else None)"

fun b64encode :: "nat list \<Rightarrow> ucs" where
  "b64encode [] = []"
| "b64encode [a] = [enc6 (a div 4), enc6 (a mod 4 * 16), 61, 61]"
| "b64encode [a, b] = [enc6 (a div 4), enc6 (a mod 4 * 16 + b div 16), enc6 (b mod 16 * 4), 61]"
| "b64encode (a # b # c # bs) =
     enc6 (a div 4) # enc6 (a mod 4 * 16 + b div 16) # enc6 (b mod 16 * 4 + c div 64) # enc6 (c mod 64) # b64encode bs"

text \<open>
  The decoder's loop: the position in the group of four, the padding seen since the last character,
  the bits left over.  Other characters are skipped; padding that completes a group ends the text.
\<close>

fun b64_loop :: "nat \<Rightarrow> nat \<Rightarrow> nat \<Rightarrow> ucs \<Rightarrow> exn + nat list" where
  "b64_loop q pads left [] = (if q = 0 then Inr [] else Inl ValueError)"
| "b64_loop q pads left (c # cs) =
     (if c = 61 then (if 2 \<le> q \<and> 4 \<le> q + (pads + 1) then Inr [] else b64_loop q (if 2 \<le> q then pads + 1 else pads) left cs)
      else case dec6 c of
          None \<Rightarrow> b64_loop q pads left cs
        | Some x \<Rightarrow>
            if q = 0 then b64_loop 1 0 x cs
            else if q = 1 then map_sum id ((#) (left * 4 + x div 16)) (b64_loop 2 0 (x mod 16) cs)
            else if q = 2 then map_sum id ((#) (left * 16 + x div 4)) (b64_loop 3 0 (x mod 4) cs)
            else map_sum id ((#) (left * 64 + x)) (b64_loop 0 0 0 cs))"

definition b64decode :: "ucs \<Rightarrow> exn + nat list" where
  "b64decode s = (if list_ex (\<lambda>c. 128 \<le> c) s then Inl ValueError else b64_loop 0 0 0 s)"

section \<open>Configurations\<close>

record saml_config =
  sc_tenant :: string
  sc_idp_entity :: ucs
  sc_idp_url :: ucs
  sc_certificate :: ucs
  sc_sp_entity :: ucs
  sc_mapping :: "(string \<times> string) list"
  sc_enabled :: bool

record oidc_config =
  oc_tenant :: string
  oc_client :: ucs
  oc_secret :: ucs
  oc_issuer :: ucs
  oc_authorize :: ucs
  oc_token :: ucs
  oc_userinfo :: ucs
  oc_scope :: ucs
  oc_enabled :: bool

record sso_manager =
  sm_saml :: "(string \<times> saml_config) list"
  sm_oidc :: "(string \<times> oidc_config) list"

definition new_sso :: sso_manager where
  "new_sso = \<lparr>sm_saml = [], sm_oidc = []\<rparr>"

definition configure_saml :: "string \<Rightarrow> ucs \<Rightarrow> ucs \<Rightarrow> ucs \<Rightarrow> ucs \<Rightarrow> sso_manager \<Rightarrow> saml_config \<times> sso_manager" where
  "configure_saml t idp url cert sp m =
     (let c = \<lparr>sc_tenant = t, sc_idp_entity = idp, sc_idp_url = url, sc_certificate = cert, sc_sp_entity = sp, sc_mapping = [], sc_enabled = False\<rparr>
      in (c, m\<lparr>sm_saml := AList.update t c (sm_saml m)\<rparr>))"

definition configure_oidc :: "string \<Rightarrow> ucs \<Rightarrow> ucs \<Rightarrow> ucs \<Rightarrow> sso_manager \<Rightarrow> oidc_config \<times> sso_manager" where
  "configure_oidc t client secret issuer m =
     (let c = \<lparr>oc_tenant = t, oc_client = client, oc_secret = secret, oc_issuer = issuer, oc_authorize = issuer @ ucs_of ''/authorize'',
               oc_token = issuer @ ucs_of ''/oauth/token'', oc_userinfo = issuer @ ucs_of ''/userinfo'',
               oc_scope = ucs_of ''openid email profile'', oc_enabled = False\<rparr>
      in (c, m\<lparr>sm_oidc := AList.update t c (sm_oidc m)\<rparr>))"

definition get_saml_config :: "string \<Rightarrow> sso_manager \<Rightarrow> saml_config option" where
  "get_saml_config t m = map_of (sm_saml m) t"

definition get_oidc_config :: "string \<Rightarrow> sso_manager \<Rightarrow> oidc_config option" where
  "get_oidc_config t m = map_of (sm_oidc m) t"

section \<open>Requests\<close>

definition newline :: ucs where "newline = [10]"
definition quoted :: "ucs \<Rightarrow> ucs" where "quoted s = [34] @ s @ [34]"

text \<open>The request's text; \<open>request_id\<close> and \<open>instant\<close> come from the clock.\<close>

definition saml_request_text :: "ucs \<Rightarrow> ucs \<Rightarrow> ucs \<Rightarrow> ucs \<Rightarrow> ucs" where
  "saml_request_text request_id instant acs_url sp =
     ucs_of ''<?xml version='' @ quoted (ucs_of ''1.0'') @ ucs_of '' encoding='' @ quoted (ucs_of ''UTF-8'') @ ucs_of ''?>'' @ newline @
     ucs_of ''<samlp:AuthnRequest xmlns:samlp='' @ quoted (ucs_of ''urn:oasis:names:tc:SAML:2.0:protocol'') @ newline @
     ucs_of ''    ID='' @ quoted (ucs_of ''__'' @ request_id) @ newline @
     ucs_of ''    Version='' @ quoted (ucs_of ''2.0'') @ newline @
     ucs_of ''    IssueInstant='' @ quoted instant @ newline @
     ucs_of ''    AssertionConsumerServiceURL='' @ quoted acs_url @ ucs_of ''>'' @ newline @
     ucs_of ''    <saml:Issuer xmlns:saml='' @ quoted (ucs_of ''urn:oasis:names:tc:SAML:2.0:assertion'') @ ucs_of ''>'' @ sp @ ucs_of ''</saml:Issuer>'' @ newline @
     ucs_of ''</samlp:AuthnRequest>''"

definition generate_saml_request :: "(ucs \<Rightarrow> exn + nat list) \<Rightarrow> ucs \<Rightarrow> ucs \<Rightarrow> string \<Rightarrow> ucs \<Rightarrow> sso_manager \<Rightarrow> exn + ucs" where
  "generate_saml_request encoder request_id instant t acs_url m =
     (case map_of (sm_saml m) t of
        None \<Rightarrow> Inl ValueError
      | Some c \<Rightarrow> map_sum id b64encode (encoder (saml_request_text request_id instant acs_url (sc_sp_entity c))))"

section \<open>Responses\<close>

datatype xml = Elem (xml_tag: string) (xml_attrs: "(string \<times> ucs) list") (xml_text: "ucs option") (xml_children: "xml list")

text \<open>\<open>.//tag\<close>: the elements below one, in the order of the document.\<close>

primrec descendants :: "string \<Rightarrow> xml \<Rightarrow> xml list" where
  "descendants t (Elem _ _ _ cs) = concat (map (\<lambda>(c, ds). (if xml_tag c = t then [c] else []) @ ds) (map (\<lambda>c. (c, descendants t c)) cs))"

definition NAME_ID :: string where "NAME_ID = ''{urn:oasis:names:tc:SAML:2.0:assertion}NameID''"
definition ATTRIBUTE :: string where "ATTRIBUTE = ''{urn:oasis:names:tc:SAML:2.0:assertion}Attribute''"
definition ATTRIBUTE_VALUE :: string where "ATTRIBUTE_VALUE = ''{urn:oasis:names:tc:SAML:2.0:assertion}AttributeValue''"

datatype saml_result = Invalid_response | Identity "ucs option" "(ucs \<times> ucs option) list"

definition add_attribute :: "xml \<Rightarrow> (ucs \<times> ucs option) list \<Rightarrow> (ucs \<times> ucs option) list" where
  "add_attribute a d =
     (case (map_of (xml_attrs a) ''Name'', descendants ATTRIBUTE_VALUE a) of
        (Some n, v # _) \<Rightarrow> if n = [] then d else AList.update n (xml_text v) d
      | _ \<Rightarrow> d)"

definition saml_identity :: "xml \<Rightarrow> saml_result" where
  "saml_identity doc =
     Identity (case descendants NAME_ID doc of [] \<Rightarrow> None | e # _ \<Rightarrow> xml_text e) (fold add_attribute (descendants ATTRIBUTE doc) [])"

text \<open>The parser gives the tree, or \<open>None\<close> for \<open>ParseError\<close>.\<close>

definition parse_saml_response :: "(nat list \<Rightarrow> exn + ucs) \<Rightarrow> (ucs \<Rightarrow> xml option) \<Rightarrow> ucs \<Rightarrow> exn + saml_result" where
  "parse_saml_response utf8_decode parse_xml response =
     (case b64decode response of Inl e \<Rightarrow> Inl e
      | Inr bs \<Rightarrow> (case utf8_decode bs of Inl e \<Rightarrow> Inl e
        | Inr s \<Rightarrow> (case parse_xml s of None \<Rightarrow> Inr Invalid_response | Some doc \<Rightarrow> Inr (saml_identity doc))))"

definition map_idp_roles :: "(string \<times> 'v) list \<Rightarrow> (string \<times> string) list \<Rightarrow> (string \<times> 'v option) list" where
  "map_idp_roles claims mapping = fold (\<lambda>(local, idp) d. AList.update local (map_of claims idp) d) mapping []"

section \<open>Base64 is read back\<close>

lemma dec_enc: "n < 64 \<Longrightarrow> dec6 (enc6 n) = Some n"
  by (auto simp: enc6_def dec6_def)

lemma enc6_range: "enc6 n \<noteq> 61" "n < 64 \<Longrightarrow> enc6 n < 128"
  by (auto simp: enc6_def)

lemma byte_parts: "x < 256 \<Longrightarrow> x div 4 < 64 \<and> x div 16 < 16 \<and> x div 64 < (4 :: nat)"
  by (simp add: less_mult_imp_div_less)

lemma two_parts: "y < n \<Longrightarrow> (x * n + y) div n = x \<and> (x * n + y) mod n = (y :: nat)"
  by simp

lemma digits_below: "x < m \<Longrightarrow> y < n \<Longrightarrow> x * n + y < m * (n :: nat)"
proof -
  assume "x < m" and "y < n"
  then have "x * n + y < Suc x * n" by simp
  also have "\<dots> \<le> m * n" using \<open>x < m\<close> by (intro mult_le_mono1) simp
  finally show ?thesis .
qed

lemma six_bits:
  assumes "a < 256" "b < 256" "c < (256 :: nat)"
  shows "a div 4 < 64" "a mod 4 * 16 + b div 16 < 64" "b mod 16 * 4 + c div 64 < 64" "c mod 64 < 64"
  using digits_below [of "a mod 4" 4 "b div 16" 16] digits_below [of "b mod 16" 16 "c div 64" 4]
    byte_parts [OF assms(1)] byte_parts [OF assms(2)] byte_parts [OF assms(3)] by simp_all

lemma group_of_three:
  assumes "a < 256" "b < 256" "c < (256 :: nat)"
  shows "a div 4 * 4 + (a mod 4 * 16 + b div 16) div 16 = a" "(a mod 4 * 16 + b div 16) mod 16 * 16 + (b mod 16 * 4 + c div 64) div 4 = b"
    "(b mod 16 * 4 + c div 64) mod 4 * 64 + c mod 64 = c"
proof -
  have "b div 16 < 16" "c div 64 < 4" using byte_parts assms by blast+
  then show "a div 4 * 4 + (a mod 4 * 16 + b div 16) div 16 = a" "(a mod 4 * 16 + b div 16) mod 16 * 16 + (b mod 16 * 4 + c div 64) div 4 = b"
    "(b mod 16 * 4 + c div 64) mod 4 * 64 + c mod 64 = c"
    by (simp_all only: two_parts div_mult_mod_eq)
qed

lemma decode_encoded: "\<forall>x \<in> set bs. x < 256 \<Longrightarrow> b64_loop 0 0 0 (b64encode bs) = Inr bs"
proof (induction bs rule: b64encode.induct)
  case (4 a b c bs)
  then have r: "a < 256" "b < 256" "c < 256" by simp_all
  show ?case
    using 4 by (simp only: b64encode.simps b64_loop.simps enc6_range if_False if_True dec_enc [OF six_bits(1) [OF r]]
        dec_enc [OF six_bits(2) [OF r]] dec_enc [OF six_bits(3) [OF r]] dec_enc [OF six_bits(4) [OF r]] option.case group_of_three [OF r]) simp
next
  case (2 a)
  then have r: "a < 256" "0 < (256 :: nat)" by simp_all
  have a: "a div 4 * 4 + (a mod 4 * 16) div 16 = a" by simp
  have "a mod 4 * 16 < 64" using six_bits(2) [OF r(1) r(2) r(2)] by simp
  then show ?case
    by (simp only: b64encode.simps b64_loop.simps enc6_range if_False if_True dec_enc [OF six_bits(1) [OF r r(2)]] dec_enc option.case a) simp
next
  case (3 a b)
  then have r: "a < 256" "b < 256" "0 < (256 :: nat)" by simp_all
  have b: "b mod 16 * 4 < 64" "(a mod 4 * 16 + b div 16) mod 16 * 16 + (b mod 16 * 4) div 4 = b"
    using six_bits(3) [OF r] group_of_three(2) [OF r] by simp_all
  show ?case
    by (simp only: b64encode.simps b64_loop.simps enc6_range if_False if_True dec_enc [OF six_bits(1) [OF r]] dec_enc [OF six_bits(2) [OF r]]
        dec_enc [OF b(1)] option.case group_of_three(1) [OF r] b(2)) simp
qed simp

lemma encoded_ascii: "\<forall>x \<in> set bs. x < 256 \<Longrightarrow> \<forall>c \<in> set (b64encode bs). c < 128"
proof -
  have "enc6 n < 128 \<or> \<not> n < 64" for n using enc6_range(2) by blast
  then have e: "n < 64 \<Longrightarrow> enc6 n < 128" for n by blast
  show "\<forall>x \<in> set bs. x < 256 \<Longrightarrow> \<forall>c \<in> set (b64encode bs). c < 128"
  proof (induction bs rule: b64encode.induct)
    case (4 a b c bs)
    then have r: "a < 256" "b < 256" "c < 256" by simp_all
    from 4 show ?case by (simp add: e [OF six_bits(1) [OF r]] e [OF six_bits(2) [OF r]] e [OF six_bits(3) [OF r]] e [OF six_bits(4) [OF r]])
  next
    case (2 a)
    then have r: "a < 256" "0 < (256 :: nat)" by simp_all
    have "a mod 4 * 16 < 64" using six_bits(2) [OF r(1) r(2) r(2)] by simp
    then show ?case by (simp add: e [OF six_bits(1) [OF r r(2)]] e)
  next
    case (3 a b)
    then have r: "a < 256" "b < 256" "0 < (256 :: nat)" by simp_all
    have "b mod 16 * 4 < 64" using six_bits(3) [OF r] by simp
    then show ?case by (simp add: e [OF six_bits(1) [OF r]] e [OF six_bits(2) [OF r]] e)
  qed simp
qed

lemma b64_read_back: "\<forall>x \<in> set bs. x < 256 \<Longrightarrow> b64decode (b64encode bs) = Inr bs"
  using encoded_ascii [of bs] by (auto simp: b64decode_def decode_encoded list_ex_iff not_le)

text \<open> 
  A request decodes to exactly the text that was written for it.
\<close>

theorem saml_request_decodes:
  assumes "map_of (sm_saml m) t = Some c" and "encoder (saml_request_text request_id instant acs_url (sc_sp_entity c)) = Inr bs"
    and "\<forall>x \<in> set bs. x < 256"
  shows "\<exists>r. generate_saml_request encoder request_id instant t acs_url m = Inr r \<and> b64decode r = Inr bs"
  using assms by (simp add: generate_saml_request_def b64_read_back)

lemma saml_request_decodes_witness:
  "\<exists>r. generate_saml_request (\<lambda>s. Inr s) [65] [66] ''acme'' (ucs_of ''https://acme'')
      (snd (configure_saml ''acme'' [] [] [] (ucs_of ''sp'') new_sso)) = Inr r \<and>
    b64decode r = Inr (saml_request_text [65] [66] (ucs_of ''https://acme'') (ucs_of ''sp''))"
proof -
  let ?c = "fst (configure_saml ''acme'' [] [] [] (ucs_of ''sp'') new_sso)"
  have "map_of (sm_saml (snd (configure_saml ''acme'' [] [] [] (ucs_of ''sp'') new_sso))) ''acme'' = Some ?c"
    by (simp add: configure_saml_def new_sso_def Let_def)
  moreover have "sc_sp_entity ?c = ucs_of ''sp''" by (simp add: configure_saml_def Let_def)
  moreover have "\<forall>x \<in> set (saml_request_text [65] [66] (ucs_of ''https://acme'') (ucs_of ''sp'')). x < 256"
    by (simp add: saml_request_text_def ucs_of_def newline_def quoted_def)
  ultimately show ?thesis using saml_request_decodes [where encoder = "\<lambda>s. Inr s" and c = ?c] by simp
qed

text \<open>The address of the consumer is not escaped: one that has a quotation mark adds attributes of its own.\<close>

lemma acs_url_unescaped:
  "\<exists>a b. saml_request_text i d (ucs_of ''u'' @ [34] @ ucs_of '' ForceAuthn='' @ quoted (ucs_of ''false'') @ ucs_of '' x='' @ [34]) sp =
     a @ ucs_of '' ForceAuthn='' @ quoted (ucs_of ''false'') @ b"
  unfolding saml_request_text_def quoted_def by (metis append.assoc)

section \<open>What identifies the user\<close>

definition SAML_TAGS :: "string list" where "SAML_TAGS = [NAME_ID, ATTRIBUTE, ATTRIBUTE_VALUE]"

primrec relevant :: "xml \<Rightarrow> bool" where
  "relevant (Elem t a x cs) \<longleftrightarrow> t \<in> set SAML_TAGS \<or> list_ex id (map relevant cs)"

text \<open>What is left when every element without a name, an attribute or a value in it is cut away: signatures, conditions, issuers.\<close>

primrec pruned :: "xml \<Rightarrow> xml" where
  "pruned (Elem t a x cs) = Elem t a x (map snd (filter (relevant \<circ> fst) (map (\<lambda>c. (c, pruned c)) cs)))"

lemma below_pairs: "descendants t (Elem g a x cs) = concat (map (\<lambda>c. (if xml_tag c = t then [c] else []) @ descendants t c) cs)"
  by (simp add: comp_def)

lemma pruned_children: "pruned (Elem g a x cs) = Elem g a x (map pruned (filter relevant cs))"
  by (induction cs) auto

lemma pruned_parts [simp]: "xml_tag (pruned d) = xml_tag d" "xml_text (pruned d) = xml_text d" "xml_attrs (pruned d) = xml_attrs d"
  by (cases d; simp)+

lemma unmentioned:
  assumes "t \<in> set SAML_TAGS"
  shows "\<not> relevant d \<Longrightarrow> descendants t d = [] \<and> xml_tag d \<noteq> t"
proof (induction d)
  case (Elem g a x cs)
  then have "\<not> relevant c" if "c \<in> set cs" for c using that by (auto simp: list_ex_iff)
  with Elem assms show ?case by (auto simp: below_pairs simp del: descendants.simps)
qed

lemma below_pruned:
  assumes "t \<in> set SAML_TAGS"
  shows "descendants t (pruned d) = map pruned (descendants t d)"
proof (induction d)
  case (Elem g a x cs)
  then show ?case
    unfolding pruned_children below_pairs
  proof (induction cs)
    case (Cons c cs)
    then show ?case using unmentioned [OF assms, of c] by (cases "relevant c") auto
  qed simp
qed

lemma attribute_pruned: "add_attribute (pruned e) d = add_attribute e d"
  using below_pruned [of ATTRIBUTE_VALUE e]
  by (cases "descendants ATTRIBUTE_VALUE e") (auto simp: add_attribute_def SAML_TAGS_def split: option.split)

text \<open>
  A response read from outside: its elements in the order of the document, and the texts it states for
  an attribute, the first value of every element that names the attribute and has a value.
\<close>

primrec elements :: "xml \<Rightarrow> xml list" where
  "elements (Elem t a x cs) = concat (map (\<lambda>(c, es). c # es) (map (\<lambda>c. (c, elements c)) cs))"

definition tagged :: "string \<Rightarrow> xml \<Rightarrow> xml list" where
  "tagged t d = filter (\<lambda>e. xml_tag e = t) (elements d)"

definition stated :: "ucs \<Rightarrow> xml \<Rightarrow> ucs option list" where
  "stated n d = map (\<lambda>e. xml_text (hd (tagged ATTRIBUTE_VALUE e)))
     (filter (\<lambda>e. map_of (xml_attrs e) ''Name'' = Some n \<and> tagged ATTRIBUTE_VALUE e \<noteq> []) (tagged ATTRIBUTE d))"

lemma descendants_tagged: "descendants t d = tagged t d"
proof (induction d)
  case (Elem g a x cs)
  then show ?case
    by (induction cs) (auto simp: tagged_def)
qed

lemma add_attribute_lookup:
  "map_of (add_attribute e d) n = (if n \<noteq> [] \<and> map_of (xml_attrs e) ''Name'' = Some n \<and> tagged ATTRIBUTE_VALUE e \<noteq> []
     then Some (xml_text (hd (tagged ATTRIBUTE_VALUE e))) else map_of d n)"
  by (cases "tagged ATTRIBUTE_VALUE e") (auto simp: add_attribute_def descendants_tagged split: option.split)

lemma attributes_lookup:
  "map_of (fold add_attribute es d) n =
     (let vs = map (\<lambda>e. xml_text (hd (tagged ATTRIBUTE_VALUE e)))
        (filter (\<lambda>e. map_of (xml_attrs e) ''Name'' = Some n \<and> tagged ATTRIBUTE_VALUE e \<noteq> []) es)
      in if n = [] \<or> vs = [] then map_of d n else Some (last vs))"
  by (induction es arbitrary: d) (auto simp: add_attribute_lookup Let_def)

text \<open>C28: the identity in a response is the text of the first name in the document and, for every
  attribute, the value of the last element that states one for it; nothing else in the response counts:
  cut down to its names, attributes and values, without its signature, its conditions and its issuer, it
  gives the same identity, under any tenant's configuration.\<close>

theorem identity_unsigned:
  "(\<exists>attrs. saml_identity d = Identity (case tagged NAME_ID d of [] \<Rightarrow> None | e # _ \<Rightarrow> xml_text e) attrs \<and>
      (\<forall>n. map_of attrs n = (if n = [] \<or> stated n d = [] then None else Some (last (stated n d))))) \<and>
   saml_identity (pruned d) = saml_identity d"
proof
  have "map_of (fold add_attribute (tagged ATTRIBUTE d) []) n = (if n = [] \<or> stated n d = [] then None else Some (last (stated n d)))" for n
    unfolding attributes_lookup Let_def stated_def by simp
  then show "\<exists>attrs. saml_identity d = Identity (case tagged NAME_ID d of [] \<Rightarrow> None | e # _ \<Rightarrow> xml_text e) attrs \<and>
      (\<forall>n. map_of attrs n = (if n = [] \<or> stated n d = [] then None else Some (last (stated n d))))"
    unfolding saml_identity_def descendants_tagged saml_result.inject by blast
  have n: "descendants NAME_ID (pruned d) = map pruned (descendants NAME_ID d)" and a: "descendants ATTRIBUTE (pruned d) = map pruned (descendants ATTRIBUTE d)"
    by (rule below_pruned, simp add: SAML_TAGS_def)+
  have "fold add_attribute (map pruned es) x = fold add_attribute es x" for es x
    by (induction es arbitrary: x) (simp_all add: attribute_pruned)
  then show "saml_identity (pruned d) = saml_identity d" unfolding saml_identity_def n a by (cases "descendants NAME_ID d") simp_all
qed

lemma forged_name: "descendants NAME_ID d = [] \<Longrightarrow>
    saml_identity (Elem g a x (Elem NAME_ID [] (Some n) [] # cs)) = Identity (Some n) (fold add_attribute (descendants ATTRIBUTE (Elem g a x cs)) [])"
  by (simp add: saml_identity_def below_pairs NAME_ID_def ATTRIBUTE_def del: descendants.simps)

text \<open>No configuration is ever enabled, and none needs to be.\<close>

lemma never_enabled:
  "\<not> sc_enabled (fst (configure_saml t idp url cert sp m))" "\<not> oc_enabled (fst (configure_oidc t client secret issuer m))"
  by (simp_all add: configure_saml_def configure_oidc_def Let_def)

lemma mapped_roles:
  "distinct (map fst mapping) \<Longrightarrow> map_of (map_idp_roles claims mapping) k = map_option (map_of claims) (map_of mapping k)"
proof -
  have "map_of (fold (\<lambda>(local, idp) d. AList.update local (map_of claims idp) d) mp d) k =
      (case map_of mp k of None \<Rightarrow> map_of d k | Some i \<Rightarrow> Some (map_of claims i))" if "distinct (map fst mp)" for mp d
    using that
  proof (induction mp arbitrary: d)
    case (Cons p mp)
    then have "map_of mp (fst p) = None" by (simp add: map_of_eq_None_iff)
    with Cons show ?case by (cases p) (auto split: option.split)
  qed simp
  from this [of mapping "[]"] show "distinct (map fst mapping) \<Longrightarrow> ?thesis" by (simp add: map_idp_roles_def split: option.split)
qed

end
