(* ===== verification/SemanticChunker.thy ===== *)
theory SemanticChunker
  imports Db
begin

text \<open>
  Splitting a text by its sentences: \<^verbatim>\<open>shared/semantic_chunker.py\<close>.  A sentence ends before the white
  space after a full stop, an exclamation or a question mark; sentences are collected into chunks of
  about a thousand characters, each of which begins with the end of the one before.
\<close>

section \<open>Finding a text\<close>

text \<open>Where a text first occurs.\<close>

fun find_in :: "'a list \<Rightarrow> 'a list \<Rightarrow> nat option" where
  "find_in x [] = (if x = [] then Some 0 else None)"
| "find_in x (c # s) = (if starts_with x (c # s) then Some 0 else map_option Suc (find_in x s))"

text \<open>\<open>s[a:b]\<close> and \<open>s.find(x, start)\<close>, for any bounds; the latter is \<open>-1\<close> without an occurrence.\<close>

definition clip :: "nat \<Rightarrow> int \<Rightarrow> nat" where
  "clip n i = (if i < 0 then nat (int n + i) else min n (nat i))"

definition text_slice :: "int \<Rightarrow> int \<Rightarrow> 'a list \<Rightarrow> 'a list" where
  "text_slice a b s = drop (clip (length s) a) (take (clip (length s) b) s)"

definition py_find :: "'a list \<Rightarrow> int \<Rightarrow> 'a list \<Rightarrow> int" where
  "py_find x start s =
     (if int (length s) < start then -1
      else case find_in x (drop (clip (length s) start) s) of None \<Rightarrow> -1 | Some i \<Rightarrow> int (clip (length s) start + i))"

section \<open>The chunker\<close>

record sem_chunk =
  sm_id :: nat               \<comment> \<open>the \<open>n\<close> of \<open>chunk_n\<close>\<close>
  sm_text :: ucs
  sm_start :: int
  sm_end :: int
  sm_parent :: "string option"
  sm_heading :: "(ucs \<times> string) option"   \<comment> \<open>the entries \<open>heading\<close> and \<open>level\<close> of \<open>metadata\<close>\<close>

definition ends_sentence :: "nat \<Rightarrow> bool" where \<comment> \<open>\<open>[.!?]\<close>\<close>
  "ends_sentence c \<longleftrightarrow> c = 46 \<or> c = 33 \<or> c = 63"

text \<open>\<open>re.split\<close> at the white space after such a character; \<open>acc\<close> is the part read since the last split.\<close>

function sentence_parts :: "ucs \<Rightarrow> ucs \<Rightarrow> ucs list" where
  "sentence_parts acc [] = [acc]"
| "sentence_parts acc (c # cs) =
     (if acc \<noteq> [] \<and> ends_sentence (last acc) \<and> is_ws c then acc # sentence_parts [] (dropWhile is_ws cs)
      else sentence_parts (acc @ [c]) cs)"
  by pat_completeness auto
termination
  by (relation "measure (\<lambda>(acc, cs). length cs)") (auto simp: le_imp_less_Suc length_dropWhile_le)

definition split_into_sentences :: "ucs \<Rightarrow> ucs list" where
  "split_into_sentences s = filter (\<lambda>x. x \<noteq> []) (map strip (sentence_parts [] s))"

definition MAX_CHUNK :: nat where "MAX_CHUNK = 1000"
definition OVERLAP :: nat where "OVERLAP = 100"

text \<open>The loop's variables: the chunks so far, the text of the current one, its start.\<close>

type_synonym sem_state = "sem_chunk list \<times> ucs \<times> int"

definition sem_step :: "ucs \<Rightarrow> string option \<Rightarrow> ucs \<Rightarrow> sem_state \<Rightarrow> sem_state" where
  "sem_step s parent sentence st =
     (case st of (ds, cur, start) \<Rightarrow>
        let i = py_find sentence start s in
        if MAX_CHUNK < length cur + length sentence \<and> cur \<noteq> [] then
          (ds @ [\<lparr>sm_id = length ds, sm_text = strip cur, sm_start = start, sm_end = i, sm_parent = parent, sm_heading = None\<rparr>],
           drop (length cur - OVERLAP) cur @ [32] @ sentence, i)
        else (ds, cur @ [32] @ sentence, if cur = [] then i else start))"

definition split_by_semantics :: "ucs \<Rightarrow> string option \<Rightarrow> sem_chunk list" where
  "split_by_semantics s parent =
     (case fold (sem_step s parent) (split_into_sentences s) ([], [], 0) of (ds, cur, start) \<Rightarrow>
        if strip cur \<noteq> [] then
          ds @ [\<lparr>sm_id = length ds, sm_text = strip cur, sm_start = start, sm_end = int (length s), sm_parent = parent, sm_heading = None\<rparr>]
        else ds)"

definition add_overlap :: "sem_chunk list \<Rightarrow> sem_chunk list" where
  "add_overlap cs = cs"

text \<open>
  One section per heading, in the order of the headings' first occurrences; a heading that does not
  occur is sorted to the front and skipped, and for the section before it the end is \<open>-1\<close>.
\<close>

definition heading_key :: "ucs \<Rightarrow> string \<times> ucs \<Rightarrow> int" where
  "heading_key s h = (if sub_in (snd h) s then py_find (snd h) 0 s else 0)"

fun hierarchy_loop :: "ucs \<Rightarrow> (string \<times> ucs) list \<Rightarrow> sem_chunk list" where
  "hierarchy_loop s [] = []"
| "hierarchy_loop s ((level, h) # hs) =
     (let start = py_find h 0 s in
      if start = -1 then hierarchy_loop s hs
      else
        map (\<lambda>c. c\<lparr>sm_heading := Some (h, level)\<rparr>)
          (split_by_semantics (text_slice start (case hs of [] \<Rightarrow> int (length s) | (_, h') # _ \<Rightarrow> py_find h' 0 s) s) None) @
        hierarchy_loop s hs)"

definition preserve_hierarchy :: "ucs \<Rightarrow> (string \<times> ucs) list \<Rightarrow> sem_chunk list" where
  "preserve_hierarchy s headings =
     (if headings = [] then split_by_semantics s None
      else hierarchy_loop s (sort_key (heading_key s) headings))"

section \<open>Where sentences are\<close>

text \<open>The texts occur in \<open>t\<close> one after the other.\<close>

fun along :: "'a list \<Rightarrow> 'a list list \<Rightarrow> bool" where
  "along t [] \<longleftrightarrow> True"
| "along t (x # xs) \<longleftrightarrow> (\<exists>a b. t = a @ x @ b \<and> along b xs)"

lemma along_later: "along b xs \<Longrightarrow> along (a @ b) xs"
  by (cases xs) (auto, metis append_assoc)

lemma sentence_parts_along: "along (acc @ cs) (filter (\<lambda>x. x \<noteq> []) (map strip (sentence_parts acc cs)))"
proof (induction acc cs rule: sentence_parts.induct)
  case (1 acc)
  show ?case using strip_by_infix [of acc is_ws] by (auto simp: strip_def)
next
  case (2 acc c cs)
  show ?case
  proof (cases "acc \<noteq> [] \<and> ends_sentence (last acc) \<and> is_ws c")
    case True
    let ?xs = "filter (\<lambda>x. x \<noteq> []) (map strip (sentence_parts [] (dropWhile is_ws cs)))"
    obtain a b where s: "acc = a @ strip acc @ b" using strip_by_infix [of acc is_ws] by (auto simp: strip_def)
    have "along (dropWhile is_ws cs) ?xs" using 2(1) [OF True] by simp
    then have "along (takeWhile is_ws cs @ dropWhile is_ws cs) ?xs" by (rule along_later)
    then have r: "along cs ?xs" by simp
    have e: "acc @ c # cs = a @ strip acc @ (b @ c # cs)" by (subst s) simp
    have l: "along (b @ c # cs) ?xs" "along (acc @ c # cs) ?xs" using along_later [OF r, of "b @ [c]"] along_later [OF r, of "acc @ [c]"] by simp_all
    have f: "filter (\<lambda>x. x \<noteq> []) (map strip (sentence_parts acc (c # cs))) = (if strip acc = [] then ?xs else strip acc # ?xs)"
      using True by simp
    have "along (acc @ c # cs) (strip acc # ?xs)" unfolding along.simps using e l(1) by blast
    then show ?thesis unfolding f using l(2) by simp
  next
    case False
    then have "sentence_parts acc (c # cs) = sentence_parts (acc @ [c]) cs" by auto
    then show ?thesis using 2(2) [OF False] by (simp only:) simp
  qed
qed

lemma sentences_along: "along s (split_into_sentences s)"
  using sentence_parts_along [of "[]" s] by (simp add: split_into_sentences_def)

lemma stripped_ends: "strip s \<noteq> [] \<Longrightarrow> \<not> is_ws (hd (strip s)) \<and> \<not> is_ws (last (strip s))"
proof -
  assume n: "strip s \<noteq> []"
  let ?d = "dropWhile is_ws s" and ?r = "rev (dropWhile is_ws (rev (dropWhile is_ws s)))"
  have e: "strip s = ?r" by (simp add: strip_def strip_by_def)
  then have "dropWhile is_ws (rev ?d) \<noteq> []" using n by auto
  then have l: "\<not> is_ws (last ?r)" using hd_dropWhile [of is_ws "rev ?d"] by (simp add: last_rev)
  obtain b where b: "?d = ?r @ b" by (metis rev_append rev_rev_ident takeWhile_dropWhile_id)
  then have "hd ?r = hd ?d" using n e by (metis hd_append2)
  moreover have d: "?d \<noteq> []" using n unfolding e by (metis dropWhile.simps(1) rev.simps(1))
  ultimately show ?thesis using hd_dropWhile [OF d] l unfolding e by simp
qed

definition is_sentence :: "ucs \<Rightarrow> bool" where
  "is_sentence x \<longleftrightarrow> x \<noteq> [] \<and> \<not> is_ws (hd x) \<and> \<not> is_ws (last x)"

lemma sentences_ok: "x \<in> set (split_into_sentences s) \<Longrightarrow> is_sentence x"
  using stripped_ends by (auto simp: split_into_sentences_def is_sentence_def)

text \<open>Stripping a text leaves the sentences in it.\<close>

lemma dropWhile_before: "x \<noteq> [] \<Longrightarrow> \<not> p (hd x) \<Longrightarrow> dropWhile p (a @ x @ b) = dropWhile p a @ x @ b"
  by (induction a) (cases x; simp)+

lemma strip_around:
  assumes "is_sentence x"
  shows "\<exists>a' b'. strip (a @ x @ b) = a' @ x @ b'"
proof -
  have l: "dropWhile is_ws (a @ x @ b) = dropWhile is_ws a @ x @ b" using assms dropWhile_before [of x is_ws] by (simp add: is_sentence_def)
  have "dropWhile is_ws (rev b @ rev x @ rev (dropWhile is_ws a)) = dropWhile is_ws (rev b) @ rev x @ rev (dropWhile is_ws a)"
    using assms by (intro dropWhile_before) (auto simp: is_sentence_def hd_rev)
  then show ?thesis by (auto simp: strip_def strip_by_def l)
qed

lemma strip_keeps: "is_sentence x \<Longrightarrow> sub_in x s \<Longrightarrow> sub_in x (strip s)"
  using strip_around unfolding sub_in_iff by metis

text \<open>Searching for the first occurrence.\<close>

lemma find_in_Some: "find_in x s = Some i \<Longrightarrow> i \<le> length s \<and> starts_with x (drop i s)"
  by (induction s arbitrary: i) (auto simp: starts_with_iff split: if_splits)

lemma find_in_first: "\<exists>i. find_in x (a @ x @ b) = Some i \<and> i \<le> length a"
proof (induction a)
  case Nil
  have "starts_with x (x @ b)" by (auto simp: starts_with_iff)
  then show ?case by (cases "x @ b") auto
next
  case (Cons c a)
  then show ?case by (auto simp: starts_with_iff)
qed

lemma py_find_along:
  assumes "along (drop k s) (x # xs)" and "k \<le> length s"
  shows "\<exists>i. py_find x (int k) s = int i \<and> k \<le> i \<and> i \<le> length s \<and> starts_with x (drop i s) \<and> along (drop i s) xs"
proof -
  obtain a b where d: "drop k s = a @ x @ b" "along b xs" using assms(1) by auto
  obtain j where j: "find_in x (drop k s) = Some j" "j \<le> length a" unfolding d(1) using find_in_first by blast
  have c: "clip (length s) (int k) = k" using assms(2) by (simp add: clip_def)
  have "drop (k + j) s = drop j (drop k s)" by (simp add: add.commute)
  also have "\<dots> = (drop j a @ x) @ b" unfolding d(1) using j(2) by simp
  finally have "along (drop (k + j) s) xs" using along_later [OF d(2), of "drop j a @ x"] by simp
  moreover have "k + j \<le> length s \<and> starts_with x (drop (k + j) s)"
    using find_in_Some [OF j(1)] assms(2) by (auto simp: add.commute)
  moreover have "py_find x (int k) s = int (k + j)" using assms(2) by (simp add: py_find_def c j(1))
  ultimately show ?thesis by (intro exI [of _ "k + j"]) simp
qed

section \<open>What the chunks are\<close>

text \<open>Ranges that follow each other without a gap, from \<open>a\<close> to \<open>b\<close>.\<close>

fun tiles :: "int \<Rightarrow> sem_chunk list \<Rightarrow> int \<Rightarrow> bool" where
  "tiles a [] b \<longleftrightarrow> a = b"
| "tiles a (c # cs) b \<longleftrightarrow> sm_start c = a \<and> a \<le> sm_end c \<and> tiles (sm_end c) cs b"

lemma tiles_append: "tiles a (cs @ [c]) b \<longleftrightarrow> tiles a cs (sm_start c) \<and> sm_start c \<le> sm_end c \<and> sm_end c = b"
  by (induction cs arbitrary: a) auto

text \<open>
  The loop's invariant, for the sentences \<open>xs\<close> to come, those read, and a bound \<open>n\<close> of their length:
  they lie behind the current start, every sentence read is in a chunk or in the current text.
\<close>

definition sem_inv :: "ucs \<Rightarrow> nat \<Rightarrow> ucs list \<Rightarrow> ucs list \<Rightarrow> sem_state \<Rightarrow> bool" where
  "sem_inv s n read xs st \<longleftrightarrow>
     (case st of (ds, cur, start) \<Rightarrow>
        (\<exists>k \<le> length s. start = int k \<and> along (drop k s) xs) \<and>
        (if cur = [] then ds = [] \<and> read = [] \<and> start = 0
         else \<exists>x a. starts_with x (drop (nat start) s) \<and> x \<in> set read \<and> tiles a ds start) \<and>
        (cur \<noteq> [] \<longrightarrow> (\<exists>x. is_sentence x \<and> sub_in x cur)) \<and>
        list_all (\<lambda>x. is_sentence x \<and> length x \<le> n) (read @ xs) \<and>
        list_all (\<lambda>x. sub_in x cur \<or> list_ex (\<lambda>c. sub_in x (sm_text c)) ds) read \<and>
        list_all (\<lambda>c. \<exists>x \<in> set read. starts_with x (drop (nat (sm_start c)) s)) ds \<and>
        list_all (\<lambda>c. length (sm_text c) \<le> max MAX_CHUNK (OVERLAP + n) + 1) ds \<and>
        length cur \<le> max MAX_CHUNK (OVERLAP + n) + 1)"

lemma sub_in_here: "sub_in x (a @ x @ b)" "sub_in x (a @ x)"
  by (auto simp: sub_in_iff) blast

lemma sub_in_later: "sub_in x s \<Longrightarrow> sub_in x (s @ b)"
  by (auto simp: sub_in_iff) (metis append_assoc)

lemma sem_step_inv:
  assumes "sem_inv s n read (x # xs) st"
  shows "sem_inv s n (read @ [x]) xs (sem_step s parent x st)"
proof -
  obtain ds cur start where st: "st = (ds, cur, start)" by (cases st)
  let ?m = "max MAX_CHUNK (OVERLAP + n) + 1"
  from assms obtain k where k: "k \<le> length s" "start = int k" "along (drop k s) (x # xs)" by (auto simp: sem_inv_def st)
  from py_find_along [OF k(3,1)] obtain i where i: "py_find x start s = int i" "k \<le> i" "i \<le> length s" "starts_with x (drop i s)" "along (drop i s) xs"
    unfolding k(2) by blast
  have x: "is_sentence x" "length x \<le> n" and kept: "list_all (\<lambda>y. sub_in y cur \<or> list_ex (\<lambda>c. sub_in y (sm_text c)) ds) read"
    and ss: "list_all (\<lambda>y. is_sentence y \<and> length y \<le> n) (read @ xs)" and small: "list_all (\<lambda>c. length (sm_text c) \<le> ?m) ds" "length cur \<le> ?m"
    and starts: "list_all (\<lambda>c. \<exists>x \<in> set read. starts_with x (drop (nat (sm_start c)) s)) ds"
    using assms by (auto simp: sem_inv_def st)
  show ?thesis
  proof (cases "MAX_CHUNK < length cur + length x \<and> cur \<noteq> []")
    case True
    let ?c = "\<lparr>sm_id = length ds, sm_text = strip cur, sm_start = start, sm_end = int i, sm_parent = parent, sm_heading = None\<rparr>"
    let ?cur = "drop (length cur - OVERLAP) cur @ [32] @ x"
    have step: "sem_step s parent x st = (ds @ [?c], ?cur, int i)" using True by (simp add: sem_step_def st i(1) Let_def)
    obtain y a where y: "starts_with y (drop (nat start) s)" "y \<in> set read" "tiles a ds start" using assms True by (auto simp: sem_inv_def st)
    have "tiles a (ds @ [?c]) (int i)" using y(3) i(2) k(2) by (simp add: tiles_append)
    moreover have "list_all (\<lambda>y. sub_in y ?cur \<or> list_ex (\<lambda>c. sub_in y (sm_text c)) (ds @ [?c])) (read @ [x])"
      using kept ss sub_in_here(2) [of x "drop (length cur - OVERLAP) cur @ [32]"] strip_keeps by (auto simp: list_all_iff)
    moreover have "length (strip cur) \<le> ?m" using small(2) length_strip_by [of is_ws cur] by (simp add: strip_def)
    moreover have "length ?cur \<le> ?m" using x(2) by simp
    moreover have "\<exists>x. is_sentence x \<and> sub_in x ?cur" using x(1) sub_in_here(2) [of x "drop (length cur - OVERLAP) cur @ [32]"] by auto
    moreover have "list_all (\<lambda>c. \<exists>x \<in> set (read @ [x]). starts_with x (drop (nat (sm_start c)) s)) (ds @ [?c])"
      using starts y by (auto simp: list_all_iff)
    ultimately show ?thesis using x ss small(1) i unfolding step sem_inv_def by fastforce
  next
    case False
    let ?start = "if cur = [] then int i else start"
    have step: "sem_step s parent x st = (ds, cur @ [32] @ x, ?start)" using False by (auto simp: sem_step_def st i(1) Let_def)
    have "list_all (\<lambda>y. sub_in y (cur @ [32] @ x) \<or> list_ex (\<lambda>c. sub_in y (sm_text c)) ds) (read @ [x])"
      using kept sub_in_here(2) [of x "cur @ [32]"] sub_in_later by (fastforce simp: list_all_iff)
    moreover have "length (cur @ [32] @ x) \<le> ?m" using False x(2) by (auto simp: MAX_CHUNK_def OVERLAP_def)
    moreover have "\<exists>y. is_sentence y \<and> sub_in y (cur @ [32] @ x)" using x(1) sub_in_here(2) [of x "cur @ [32]"] by auto
    moreover have "\<exists>k \<le> length s. ?start = int k \<and> along (drop k s) xs"
    proof -
      have "drop k s = take (i - k) (drop k s) @ drop i s" using i(2) by (metis append_take_drop_id drop_drop le_add_diff_inverse2)
      then have "along (drop k s) xs" using along_later [OF i(5)] by metis
      then show ?thesis using k i by auto
    qed
    moreover have "\<exists>z a. starts_with z (drop (nat ?start) s) \<and> z \<in> set (read @ [x]) \<and> tiles a ds ?start"
      using assms i(4) by (auto simp: sem_inv_def st split: if_splits)
    moreover have "list_all (\<lambda>c. \<exists>x \<in> set (read @ [x]). starts_with x (drop (nat (sm_start c)) s)) ds"
      using starts by (auto simp: list_all_iff)
    ultimately show ?thesis using x ss small(1) unfolding step sem_inv_def by simp
  qed
qed

lemma sem_fold_inv: "sem_inv s n read xs st \<Longrightarrow> sem_inv s n (read @ xs) [] (fold (sem_step s parent) xs st)"
proof (induction xs arbitrary: read st)
  case (Cons x xs)
  from Cons.IH [OF sem_step_inv [OF Cons.prems]] show ?case by simp
qed simp

lemma split_inv:
  assumes "list_all (\<lambda>x. length x \<le> n) (split_into_sentences s)"
  shows "sem_inv s n (split_into_sentences s) [] (fold (sem_step s parent) (split_into_sentences s) ([], [], 0))"
proof -
  have "sem_inv s n [] (split_into_sentences s) ([], [], 0)"
    using assms sentences_along [of s] sentences_ok [of _ s] by (auto simp: sem_inv_def list_all_iff)
  from sem_fold_inv [OF this, of parent] show ?thesis by simp
qed

lemma split_result:
  assumes "list_all (\<lambda>x. length x \<le> n) (split_into_sentences s)" and "split_into_sentences s \<noteq> []"
  shows "\<exists>a. tiles a (split_by_semantics s parent) (int (length s)) \<and>
    list_all (\<lambda>x. list_ex (\<lambda>c. sub_in x (sm_text c)) (split_by_semantics s parent)) (split_into_sentences s) \<and>
    list_all (\<lambda>c. \<exists>x \<in> set (split_into_sentences s). starts_with x (drop (nat (sm_start c)) s)) (split_by_semantics s parent) \<and>
    list_all (\<lambda>c. length (sm_text c) \<le> max MAX_CHUNK (OVERLAP + n) + 1) (split_by_semantics s parent)"
proof -
  obtain ds cur start where st: "fold (sem_step s parent) (split_into_sentences s) ([], [], 0) = (ds, cur, start)" by (metis prod_cases3)
  have inv: "sem_inv s n (split_into_sentences s) [] (ds, cur, start)" using split_inv [OF assms(1), of parent] by (simp add: st)
  then have c: "cur \<noteq> []" using assms(2) by (auto simp: sem_inv_def)
  obtain k where k: "k \<le> length s" "start = int k" using inv by (auto simp: sem_inv_def)
  obtain x a where x: "starts_with x (drop (nat start) s)" "x \<in> set (split_into_sentences s)" "tiles a ds start"
    using inv c by (auto simp: sem_inv_def)
  have small: "list_all (\<lambda>c. length (sm_text c) \<le> max MAX_CHUNK (OVERLAP + n) + 1) ds" "length (strip cur) \<le> max MAX_CHUNK (OVERLAP + n) + 1"
    using inv length_strip_by [of is_ws cur] by (auto simp: sem_inv_def strip_def)
  have starts: "list_all (\<lambda>c. \<exists>x \<in> set (split_into_sentences s). starts_with x (drop (nat (sm_start c)) s)) ds"
    using inv by (simp add: sem_inv_def)
  have kept: "list_all (\<lambda>y. sub_in y (strip cur) \<or> list_ex (\<lambda>c. sub_in y (sm_text c)) ds) (split_into_sentences s)"
    using inv strip_keeps by (auto simp: sem_inv_def list_all_iff)
  show ?thesis
  proof (cases "strip cur = []")
    case False
    let ?c = "\<lparr>sm_id = length ds, sm_text = strip cur, sm_start = start, sm_end = int (length s), sm_parent = parent, sm_heading = None\<rparr>"
    have r: "split_by_semantics s parent = ds @ [?c]" using False by (simp add: split_by_semantics_def st)
    have "tiles a (ds @ [?c]) (int (length s))" using x(3) k by (simp add: tiles_append)
    moreover have "list_all (\<lambda>y. list_ex (\<lambda>c. sub_in y (sm_text c)) (ds @ [?c])) (split_into_sentences s)"
      using kept by (auto simp: list_all_iff)
    ultimately show ?thesis unfolding r using starts small x(1,2) by (intro exI [of _ a]) (auto simp: list_all_iff)
  next
    case True
    obtain y where "is_sentence y" "sub_in y cur" using inv c by (auto simp: sem_inv_def)
    then show ?thesis using strip_keeps [of y cur] True by (auto simp: is_sentence_def)
  qed
qed

text \<open>C31: the chunks of a text tile it without a gap, from some sentence to the end: each begins where a
  sentence occurs and ends where the next begins, and no sentence is lost.  For sentences of up to \<open>n\<close>
  characters no chunk is longer than the larger of 1000 and \<open>n + 100\<close>, and one: a sentence is never
  split, so a long one makes a chunk as long.\<close>

theorem semantic_chunks:
  assumes "split_into_sentences s \<noteq> []" and "list_all (\<lambda>x. length x \<le> n) (split_into_sentences s)"
  shows "(\<exists>a. tiles a (split_by_semantics s parent) (int (length s))) \<and>
    list_all (\<lambda>c. \<exists>x \<in> set (split_into_sentences s). starts_with x (drop (nat (sm_start c)) s)) (split_by_semantics s parent) \<and>
    list_all (\<lambda>x. list_ex (\<lambda>c. sub_in x (sm_text c)) (split_by_semantics s parent)) (split_into_sentences s) \<and>
    list_all (\<lambda>c. length (sm_text c) \<le> max 1000 (100 + n) + 1) (split_by_semantics s parent)"
  using split_result [OF assms(2,1), of parent] by (auto simp: MAX_CHUNK_def OVERLAP_def)

lemma semantic_chunks_witness:
  "tiles 0 (split_by_semantics (ucs_of ''Hi. Ok?'') None) 7 \<and> length (split_by_semantics (ucs_of ''Hi. Ok?'') None) = 1"
proof -
  have s: "split_into_sentences (ucs_of ''Hi. Ok?'') = [ucs_of ''Hi.'', ucs_of ''Ok?'']"
    by (simp add: split_into_sentences_def ucs_of_def ends_sentence_def is_ws_def strip_def strip_by_def)
  have "\<exists>a. tiles a (split_by_semantics (ucs_of ''Hi. Ok?'') None) 7"
    using semantic_chunks [of "ucs_of ''Hi. Ok?''" 3 None] by (simp add: s) (simp add: ucs_of_def)
  moreover have "\<exists>c. split_by_semantics (ucs_of ''Hi. Ok?'') None = [c] \<and> sm_start c = 0"
    unfolding split_by_semantics_def s by (simp add: sem_step_def py_find_def clip_def ucs_of_def starts_with_def MAX_CHUNK_def Let_def is_ws_def strip_def strip_by_def)
  ultimately show ?thesis by auto
qed

text \<open>
  The text of a chunk is not the text of its range: white space between sentences becomes one space,
  and from the second chunk on it begins with what the range before ends with.  A sentence that occurs
  twice in a chunk is found at its first place again, so that a range may end before its text does.
\<close>

lemma blanks_lost:
  "map (\<lambda>c. (sm_text c, sm_start c, sm_end c)) (split_by_semantics (ucs_of ''A.   B.'') None) = [(ucs_of ''A. B.'', 0, 7)]"
proof -
  have s: "split_into_sentences (ucs_of ''A.   B.'') = [ucs_of ''A.'', ucs_of ''B.'']"
    by (simp add: split_into_sentences_def ucs_of_def ends_sentence_def is_ws_def strip_def strip_by_def)
  show ?thesis
    unfolding split_by_semantics_def s by (simp add: sem_step_def py_find_def clip_def ucs_of_def starts_with_def MAX_CHUNK_def Let_def is_ws_def strip_def strip_by_def)
qed

lemma repeated_sentence_range:
  assumes "split_into_sentences s = [x, y, x]" and "find_in x s = Some 0" and "find_in y s = Some i"
    and "MAX_CHUNK < length x + length y + 2 + length x" and "length x + length y + 1 \<le> MAX_CHUNK"
  shows "\<exists>c d. split_by_semantics s None = [c, d] \<and> sm_start c = 0 \<and> sm_end c = 0 \<and> sm_text c = strip ([32] @ x @ [32] @ y)"
proof -
  have p: "py_find x 0 s = 0" "py_find y 0 s = int i" using assms(2,3) by (simp_all add: py_find_def clip_def)
  have x: "is_sentence x" using sentences_ok [of x s] assms(1) by simp
  have n: "strip (drop (length ([32] @ x @ [32] @ y) - OVERLAP) ([32] @ x @ [32] @ y) @ [32] @ x) \<noteq> []"
    using strip_around [OF x, of "drop (length ([32] @ x @ [32] @ y) - OVERLAP) ([32] @ x @ [32] @ y) @ [32]" "[]"] x
    by (auto simp: is_sentence_def)
  have "fold (sem_step s None) [x, y, x] ([], [], 0) =
      ([\<lparr>sm_id = 0, sm_text = strip ([32] @ x @ [32] @ y), sm_start = 0, sm_end = 0, sm_parent = None, sm_heading = None\<rparr>],
       drop (length ([32] @ x @ [32] @ y) - OVERLAP) ([32] @ x @ [32] @ y) @ [32] @ x, 0)"
    using assms(4,5) by (simp add: sem_step_def p Let_def)
  with n show ?thesis by (simp add: split_by_semantics_def assms(1))
qed

text \<open>
  With headings: a heading that does not occur ends the section before it one character early, the
  positions are those in the section, and the numbers of the chunks begin again in every section.
\<close>

lemma lost_heading_cuts:
  assumes "find_in h s = Some i" and "find_in h' s = None"
  shows "hierarchy_loop s [(l, h), (l', h')] =
    map (\<lambda>c. c\<lparr>sm_heading := Some (h, l)\<rparr>) (split_by_semantics (drop i (take (length s - 1) s)) None)"
proof -
  have i: "i \<le> length s" using find_in_Some [OF assms(1)] by simp
  have "clip (length s) (- 1) = length s - 1" by (simp add: clip_def nat_diff_distrib)
  then show ?thesis using i by (simp add: py_find_def clip_def assms text_slice_def Let_def)
qed

lemma sections_numbered_again:
  "c \<in> set (hierarchy_loop s hs) \<Longrightarrow> \<exists>a b c'. c' \<in> set (split_by_semantics (text_slice a b s) None) \<and> sm_id c = sm_id c' \<and> sm_start c = sm_start c'"
proof (induction hs)
  case (Cons h hs)
  obtain l w where h: "h = (l, w)" by (cases h)
  show ?case
  proof (cases "py_find w 0 s = -1")
    case False
    with Cons.prems consider "c \<in> set (hierarchy_loop s hs)"
      | c' where "c' \<in> set (split_by_semantics (text_slice (py_find w 0 s) (case hs of [] \<Rightarrow> int (length s) | (_, h') # _ \<Rightarrow> py_find h' 0 s) s) None)"
          "c = c'\<lparr>sm_heading := Some (w, l)\<rparr>"
      by (auto simp: h Let_def)
    then show ?thesis
    proof cases
      case 2
      then show ?thesis by (intro exI conjI) (assumption, simp_all)
    qed (rule Cons.IH)
  qed (use Cons in \<open>simp add: h\<close>)
qed simp

end
