(* ===== verification/Entities.thy ===== *)
theory Entities
  imports Regex
begin

text \<open>
  What is read off a user's text: the entities of \<^verbatim>\<open>chat_service/agent/intent_recognition.py\<close> and the
  language of \<^verbatim>\<open>shared/translation.py\<close>.
\<close>

section \<open>Entities\<close>

datatype entity_type = PERSON | ORGANIZATION | DATETIME | NUMBER | LOCATION | PRODUCT | STATUS

record entity =
  en_type :: entity_type
  en_value :: ucs
  en_start :: nat
  en_end :: nat
  en_confidence :: rat

definition digits :: "unicode_table \<Rightarrow> nat \<Rightarrow> nat option \<Rightarrow> rex" where \<comment> \<open>\<open>\d{m,n}\<close>\<close>
  "digits u m n = RRep m n (is_decimal (ut_digit u))"

definition char_in :: "nat list \<Rightarrow> rex" where
  "char_in cs = RSym (\<lambda>c. c \<in> set cs)"

definition words_of :: "ucs list \<Rightarrow> rex" where \<comment> \<open>\<open>(v|w|...)\<close>\<close>
  "words_of ws = ralt (map (\<lambda>w. rseq (map (\<lambda>a. RSym (\<lambda>c. c = a)) w)) ws)"

text \<open>
  Dates as digits with hyphens, slashes or the signs for year, month and day; today, tomorrow,
  yesterday, last and next week; digits with a unit; digits.
\<close>

definition datetime_patterns :: "unicode_table \<Rightarrow> (rex \<times> entity_type) list" where
  "datetime_patterns u =
     [(rseq [digits u 4 (Some 4), char_in [45, 47, 24180], digits u 1 (Some 2), char_in [45, 47, 26376], digits u 1 (Some 2),
             RRep 0 (Some 1) (\<lambda>c. c = 26085)], DATETIME),
      (words_of [[20170, 22825], [26126, 22825], [26152, 22825], [19978, 21608], [19979, 21608], [19979, 21608]], DATETIME)]"

definition number_patterns :: "unicode_table \<Rightarrow> (rex \<times> entity_type) list" where
  "number_patterns u =
     [(rseq [digits u 1 None, RRep 0 None is_ws, char_in [20010, 20214, 27425, 26465, 20803, 22359]], NUMBER),
      (digits u 1 None, NUMBER)]"

text \<open>\<open>finditer\<close> with the positions of the matches; the first group is the whole match.\<close>

fun located :: "nat \<Rightarrow> ucs piece list \<Rightarrow> (nat \<times> ucs) list" where
  "located k [] = []"
| "located k (Plain c # ps) = located (k + 1) ps"
| "located k (Hit m # ps) = (k, m) # located (k + length m) ps"

definition matches_at :: "rex \<Rightarrow> ucs \<Rightarrow> (nat \<times> ucs) list" where
  "matches_at r s = located 0 (rex_scan r (None, s))"

definition extract_entities :: "unicode_table \<Rightarrow> ucs \<Rightarrow> entity list" where
  "extract_entities u s =
     concat (map (\<lambda>(r, t). map (\<lambda>(k, m). \<lparr>en_type = t, en_value = m, en_start = k, en_end = k + length m, en_confidence = 8 / 10\<rparr>)
       (matches_at r s)) (datetime_patterns u @ number_patterns u))"

definition entity_to_dict :: "entity \<Rightarrow> entity_type \<times> ucs \<times> nat \<times> nat \<times> rat" where
  "entity_to_dict e = (en_type e, en_value e, en_start e, en_end e, en_confidence e)"

lemma piece_text_simps: "piece_text (Plain c) = [c]" "piece_text (Hit m) = m"
  by (simp_all add: piece_text_def)

lemma located_text: "(k, m) \<in> set (located j ps) \<Longrightarrow> \<exists>a b. concat (map piece_text ps) = a @ m @ b \<and> k = j + length a"
proof (induction j ps rule: located.induct)
  case (2 j c ps)
  then obtain a b where "concat (map piece_text ps) = a @ m @ b" "k = j + 1 + length a" by auto
  then have "concat (map piece_text (Plain c # ps)) = (c # a) @ m @ b \<and> k = j + length (c # a)" by (simp add: piece_text_simps)
  then show ?case by blast
next
  case (3 j w ps)
  show ?case
  proof (cases "(k, m) = (j, w)")
    case True
    then have "concat (map piece_text (Hit w # ps)) = [] @ m @ concat (map piece_text ps) \<and> k = j + length ([] :: ucs)" by (simp add: piece_text_simps)
    then show ?thesis by blast
  next
    case False
    with 3 obtain a b where "concat (map piece_text ps) = a @ m @ b" "k = j + length w + length a" by auto
    then have "concat (map piece_text (Hit w # ps)) = (w @ a) @ m @ b \<and> k = j + length (w @ a)" by (simp add: piece_text_simps)
    then show ?thesis by blast
  qed
qed simp

lemma located_hits: "(k, m) \<in> set (located j ps) \<Longrightarrow> Hit m \<in> set ps"
  by (induction j ps rule: located.induct) auto

lemma matches_at_text: "(k, m) \<in> set (matches_at r s) \<Longrightarrow> m \<noteq> [] \<and> k + length m \<le> length s \<and> take (length m) (drop k s) = m"
proof -
  assume m: "(k, m) \<in> set (matches_at r s)"
  from located_text [OF m [unfolded matches_at_def]] obtain a b where "s = a @ m @ b" "k = length a"
    using scan_text [of r "(None, s)"] by auto
  moreover have "m \<noteq> []" using located_hits [OF m [unfolded matches_at_def]] scan_text [of r "(None, s)"] by blast
  ultimately show ?thesis by simp
qed

text \<open>An entity is the text at its place, which is in the text and not empty.\<close>

theorem entities_are_spans:
  "list_all (\<lambda>e. en_start e < en_end e \<and> en_end e \<le> length s \<and> en_value e = take (en_end e - en_start e) (drop (en_start e) s))
     (extract_entities u s)"
proof -
  have "en_start e < en_end e \<and> en_end e \<le> length s \<and> en_value e = take (en_end e - en_start e) (drop (en_start e) s)"
    if "e \<in> set (extract_entities u s)" for e
  proof -
    from that obtain r t k m where e: "(k, m) \<in> set (matches_at r s)"
        "e = \<lparr>en_type = t, en_value = m, en_start = k, en_end = k + length m, en_confidence = 8 / 10\<rparr>"
      by (auto simp: extract_entities_def)
    show ?thesis using matches_at_text [OF e(1)] by (simp add: e(2))
  qed
  then show ?thesis by (simp add: list_all_iff)
qed

text \<open>
  Every run of digits is a number, also one that is part of a date or of an amount: the entities of
  the four patterns overlap, and no pattern gives way to another.
\<close>

lemma digits_again:
  "map (\<lambda>e. (en_type e, en_value e)) (extract_entities \<lparr>ut_word = \<lambda>c. False, ut_digit = \<lambda>c. False\<rparr> (ucs_of ''2024-01-02'')) =
    [(DATETIME, ucs_of ''2024-01-02''), (NUMBER, ucs_of ''2024''), (NUMBER, ucs_of ''01''), (NUMBER, ucs_of ''02'')]"
  by (simp add: extract_entities_def datetime_patterns_def number_patterns_def digits_def char_in_def words_of_def rseq_def ralt_def
      matches_at_def ucs_of_def is_decimal_def run_length_def after_def is_ws_def upt_rec)

section \<open>Languages\<close>

definition LANGUAGE_CODES :: "(string \<times> string) list" where
  "LANGUAGE_CODES =
     [(''en'', ''English''), (''zh'', ''Chinese''), (''ja'', ''Japanese''), (''ko'', ''Korean''), (''es'', ''Spanish''), (''fr'', ''French''),
      (''de'', ''German''), (''ru'', ''Russian''), (''ar'', ''Arabic''), (''pt'', ''Portuguese''), (''it'', ''Italian'')]"

text \<open>Some of the first hundred characters is strictly between the bounds.\<close>

definition some_between :: "nat \<Rightarrow> nat \<Rightarrow> ucs \<Rightarrow> bool" where
  "some_between a b s \<longleftrightarrow> list_ex (\<lambda>c. a < c \<and> c < b) (take 100 s)"

definition detect_language :: "ucs \<Rightarrow> string" where
  "detect_language s0 =
     (if s0 = [] then ''en''
      else let s = strip s0 in
        if some_between 19968 40959 s then ''zh''
        else if some_between 12352 12543 s then ''ja''
        else if some_between 44032 55215 s then ''ko''
        else if some_between 1536 1791 s then ''ar''
        else ''en'')"

text \<open>The log line apart, a translation is the text itself.\<close>

definition translate :: "string option \<Rightarrow> string \<Rightarrow> ucs \<Rightarrow> ucs" where
  "translate source target s =
     (if s = [] then s
      else let src = (case source of None \<Rightarrow> detect_language s | Some l \<Rightarrow> l) in if src = target then s else s)"

definition get_language_name :: "string \<Rightarrow> string" where
  "get_language_name code = (case map_of LANGUAGE_CODES code of None \<Rightarrow> code | Some n \<Rightarrow> n)"

lemma never_translated: "translate source target s = s"
  by (simp add: translate_def Let_def)

text \<open>
  Only five of the eleven languages are told apart.  One Chinese character makes a Japanese text
  Chinese, and the first of the block, the numeral one, makes none.
\<close>

lemma languages_detected: "detect_language s \<in> {''en'', ''zh'', ''ja'', ''ko'', ''ar''}"
  by (simp add: detect_language_def Let_def)

lemma one_is_english: "detect_language [19968] = ''en''"
  by (simp add: detect_language_def some_between_def strip_def strip_by_def is_ws_def)

lemma kanji_is_chinese: "19968 < c \<Longrightarrow> c < 40959 \<Longrightarrow> c \<in> set (take 100 (strip s)) \<Longrightarrow> detect_language s = ''zh''"
  by (cases "s = []") (auto simp: detect_language_def some_between_def list_ex_iff strip_def strip_by_def Let_def)

end
