(* ===== verification/AgentMessage.thy ===== *)
theory AgentMessage
  imports Db
begin

text \<open>
  The message of the agents' protocol as a dictionary and back:
  \<^verbatim>\<open>chat_service/agent/agent_message.py\<close>.  A field that no code constrains is any value.
\<close>

section \<open>Timestamps\<close>

text \<open>A naive \<open>datetime\<close>, as \<open>utcnow\<close> gives it.\<close>

record timestamp =
  tm_year :: nat
  tm_month :: nat
  tm_day :: nat
  tm_hour :: nat
  tm_minute :: nat
  tm_second :: nat
  tm_micro :: nat

definition leap_year :: "nat \<Rightarrow> bool" where
  "leap_year y \<longleftrightarrow> y mod 4 = 0 \<and> (y mod 100 \<noteq> 0 \<or> y mod 400 = 0)"

definition month_days :: "nat \<Rightarrow> nat \<Rightarrow> nat" where
  "month_days y m = (if m = 2 then if leap_year y then 29 else 28 else if m \<in> {4, 6, 9, 11} then 30 else 31)"

definition valid_time :: "timestamp \<Rightarrow> bool" where
  "valid_time t \<longleftrightarrow> 1 \<le> tm_year t \<and> tm_year t \<le> 9999 \<and> 1 \<le> tm_month t \<and> tm_month t \<le> 12 \<and>
     1 \<le> tm_day t \<and> tm_day t \<le> month_days (tm_year t) (tm_month t) \<and>
     tm_hour t < 24 \<and> tm_minute t < 60 \<and> tm_second t < 60 \<and> tm_micro t < 1000000"

text \<open>Numbers of \<open>k\<close> digits.\<close>

primrec padded :: "nat \<Rightarrow> nat \<Rightarrow> string" where
  "padded 0 n = []"
| "padded (Suc k) n = padded k (n div 10) @ [char_of (48 + n mod 10)]"

definition is_dec :: "char \<Rightarrow> bool" where
  "is_dec c \<longleftrightarrow> 48 \<le> (of_char c :: nat) \<and> (of_char c :: nat) \<le> 57"

definition read_padded :: "nat \<Rightarrow> string \<Rightarrow> (nat \<times> string) option" where
  "read_padded k s =
     (if k \<le> length s \<and> list_all is_dec (take k s)
      then Some (foldl (\<lambda>n c. n * 10 + (of_char c - 48)) 0 (take k s), drop k s) else None)"

definition isoformat :: "timestamp \<Rightarrow> string" where
  "isoformat t =
     padded 4 (tm_year t) @ ''-'' @ padded 2 (tm_month t) @ ''-'' @ padded 2 (tm_day t) @ ''T'' @
     padded 2 (tm_hour t) @ '':'' @ padded 2 (tm_minute t) @ '':'' @ padded 2 (tm_second t) @
     (if tm_micro t = 0 then [] else ''.'' @ padded 6 (tm_micro t))"

definition skip_char :: "char \<Rightarrow> string \<Rightarrow> string option" where
  "skip_char c s = (case s of [] \<Rightarrow> None | d # ds \<Rightarrow> if d = c then Some ds else None)"

text \<open>
  \<open>fromisoformat\<close> on a text of the form that \<open>isoformat\<close> gives; \<open>Some None\<close> stands for such a text
  with a field out of its range.  What it reads of other forms is an argument.
\<close>

definition read_isoformat :: "string \<Rightarrow> timestamp option option" where
  "read_isoformat s =
     Option.bind (read_padded 4 s) (\<lambda>(y, s). Option.bind (skip_char (CHR ''-'') s) (\<lambda>s.
     Option.bind (read_padded 2 s) (\<lambda>(mo, s). Option.bind (skip_char (CHR ''-'') s) (\<lambda>s.
     Option.bind (read_padded 2 s) (\<lambda>(d, s). Option.bind (skip_char (CHR ''T'') s) (\<lambda>s.
     Option.bind (read_padded 2 s) (\<lambda>(h, s). Option.bind (skip_char (CHR '':'') s) (\<lambda>s.
     Option.bind (read_padded 2 s) (\<lambda>(mi, s). Option.bind (skip_char (CHR '':'') s) (\<lambda>s.
     Option.bind (read_padded 2 s) (\<lambda>(sec, s).
     Option.bind (if s = [] then Some 0
         else Option.bind (skip_char (CHR ''.'') s) (\<lambda>s. Option.bind (read_padded 6 s) (\<lambda>(us, s). if s = [] then Some us else None)))
       (\<lambda>us. let t = \<lparr>tm_year = y, tm_month = mo, tm_day = d, tm_hour = h, tm_minute = mi, tm_second = sec, tm_micro = us\<rparr>
              in Some (if valid_time t then Some t else None)))))))))))))"

definition fromisoformat :: "(string \<Rightarrow> exn + timestamp) \<Rightarrow> string \<Rightarrow> exn + timestamp" where
  "fromisoformat other s = (case read_isoformat s of None \<Rightarrow> other s | Some None \<Rightarrow> Inl ValueError | Some (Some t) \<Rightarrow> Inr t)"

section \<open>Messages\<close>

datatype message_type = REQUEST | RESPONSE | BROADCAST

fun type_value :: "message_type \<Rightarrow> string" where
  "type_value REQUEST = ''request''"
| "type_value RESPONSE = ''response''"
| "type_value BROADCAST = ''broadcast''"

text \<open>A value of a dictionary: a text, \<open>None\<close>, or anything else.\<close>

datatype 'a mvalue = MText string | MNone | MOther 'a

definition message_type_of :: "'a mvalue \<Rightarrow> exn + message_type" where
  "message_type_of v =
     (case v of MText s \<Rightarrow>
        if s = ''request'' then Inr REQUEST else if s = ''response'' then Inr RESPONSE
        else if s = ''broadcast'' then Inr BROADCAST else Inl ValueError
      | _ \<Rightarrow> Inl ValueError)"

record 'a agent_message =
  am_sender :: "'a mvalue"
  am_receiver :: "'a mvalue"
  am_content :: "'a mvalue"
  am_trace_id :: "'a mvalue"
  am_timestamp :: timestamp
  am_type :: message_type
  am_correlation :: "'a mvalue"
  am_metadata :: "'a mvalue"

definition message_to_dict :: "'a agent_message \<Rightarrow> (string \<times> 'a mvalue) list" where
  "message_to_dict m =
     [(''sender'', am_sender m), (''receiver'', am_receiver m), (''content'', am_content m), (''trace_id'', am_trace_id m),
      (''timestamp'', MText (isoformat (am_timestamp m))), (''msg_type'', MText (type_value (am_type m))),
      (''correlation_id'', am_correlation m), (''metadata'', am_metadata m)]"

definition required :: "string \<Rightarrow> (string \<times> 'v) list \<Rightarrow> exn + 'v" where \<comment> \<open>\<open>data[key]\<close>\<close>
  "required k d = (case map_of d k of None \<Rightarrow> Inl KeyError | Some v \<Rightarrow> Inr v)"

definition optional :: "string \<Rightarrow> (string \<times> 'a mvalue) list \<Rightarrow> 'a mvalue" where
  "optional k d = (case map_of d k of None \<Rightarrow> MNone | Some v \<Rightarrow> v)"

definition and_then :: "'e + 'a \<Rightarrow> ('a \<Rightarrow> 'e + 'b) \<Rightarrow> 'e + 'b" where
  "and_then r f = (case r of Inl e \<Rightarrow> Inl e | Inr x \<Rightarrow> f x)"

lemma and_then_simps [simp]: "and_then (Inl e) f = Inl e" "and_then (Inr x) f = f x"
  by (simp_all add: and_then_def)

definition timestamp_of :: "(string \<Rightarrow> exn + timestamp) \<Rightarrow> 'a mvalue \<Rightarrow> exn + timestamp" where
  "timestamp_of other v = (case v of MText s \<Rightarrow> fromisoformat other s | _ \<Rightarrow> Inl TypeError)"

definition message_from_dict :: "(string \<Rightarrow> exn + timestamp) \<Rightarrow> (string \<times> 'a mvalue) list \<Rightarrow> exn + 'a agent_message" where
  "message_from_dict other d =
     and_then (required ''sender'' d) (\<lambda>sender. and_then (required ''receiver'' d) (\<lambda>receiver.
     and_then (required ''content'' d) (\<lambda>content. and_then (required ''trace_id'' d) (\<lambda>trace.
     and_then (and_then (required ''timestamp'' d) (timestamp_of other)) (\<lambda>t.
     and_then (and_then (required ''msg_type'' d) message_type_of) (\<lambda>ty.
       Inr \<lparr>am_sender = sender, am_receiver = receiver, am_content = content, am_trace_id = trace, am_timestamp = t, am_type = ty,
            am_correlation = optional ''correlation_id'' d, am_metadata = optional ''metadata'' d\<rparr>))))))"

section \<open>Reading back\<close>

lemma padded_digits: "length (padded k n) = k \<and> list_all is_dec (padded k n)"
proof (induction k arbitrary: n)
  case (Suc k)
  have "n mod 10 < 10" by simp
  then have "is_dec (char_of (48 + n mod 10))" using digit_value [of "n mod 10"] by (simp add: is_dec_def)
  then show ?case using Suc by simp
qed simp

lemma padded_value: "foldl (\<lambda>n c. n * 10 + (of_char c - 48)) 0 (padded k n) = (n mod 10 ^ k :: nat)"
proof (induction k arbitrary: n)
  case (Suc k)
  have "n mod 10 < 10" by simp
  then have "(of_char (char_of (48 + n mod 10)) :: nat) - 48 = n mod 10" using digit_value [of "n mod 10"] by simp
  moreover have "n div 10 mod 10 ^ k * 10 + n mod 10 = n mod 10 ^ Suc k" by (simp add: mod_mult2_eq)
  ultimately show ?case using Suc [of "n div 10"] by (simp add: mult.commute)
qed simp

lemma read_back: "n < 10 ^ k \<Longrightarrow> read_padded k (padded k n @ r) = Some (n, r)"
  using padded_digits [of k n] padded_value [of k n] by (simp add: read_padded_def)

lemma skip_here [simp]: "skip_char c (c # s) = Some s"
  by (simp add: skip_char_def)

lemma month_days_le: "month_days y m \<le> 31"
  by (simp add: month_days_def)

lemma isoformat_read: "valid_time t \<Longrightarrow> read_isoformat (isoformat t) = Some (Some t)"
proof -
  assume v: "valid_time t"
  then have b: "tm_year t < 10 ^ 4" "tm_month t < 10 ^ 2" "tm_day t < 10 ^ 2" "tm_hour t < 10 ^ 2" "tm_minute t < 10 ^ 2" "tm_second t < 10 ^ 2" "tm_micro t < 10 ^ 6"
    using month_days_le [of "tm_year t" "tm_month t"] by (auto simp: valid_time_def)
  have u: "read_padded 6 (padded 6 (tm_micro t)) = Some (tm_micro t, [])" using read_back [OF b(7), of "[]"] by simp
  have ne: "padded 6 n \<noteq> []" for n using padded_digits [of 6 n] by auto
  have e: "\<lparr>tm_year = tm_year t, tm_month = tm_month t, tm_day = tm_day t, tm_hour = tm_hour t, tm_minute = tm_minute t, tm_second = tm_second t, tm_micro = n\<rparr> = t"
    if "n = tm_micro t" for n using that by (cases t) simp
  show ?thesis using v by (simp add: read_isoformat_def isoformat_def e read_back [OF b(1)] read_back [OF b(2)] read_back [OF b(3)]
        read_back [OF b(4)] read_back [OF b(5)] read_back [OF b(6)] read_back [OF b(6), of "[]", simplified] u ne Let_def)
qed

lemma type_read_back: "message_type_of (MText (type_value ty)) = Inr ty"
  by (cases ty) (simp_all add: message_type_of_def)

text \<open>A message survives the dictionary, whatever the reader makes of other timestamps.\<close>

theorem message_round_trip:
  assumes "valid_time (am_timestamp m)"
  shows "message_from_dict other (message_to_dict m) = Inr m"
  by (simp add: message_from_dict_def message_to_dict_def required_def optional_def timestamp_of_def fromisoformat_def
      isoformat_read [OF assms] type_read_back)

lemma message_round_trip_witness:
  "message_from_dict (\<lambda>s. Inl ValueError) (message_to_dict \<lparr>am_sender = MText ''router'', am_receiver = MText ''billing'', am_content = MOther (5 :: nat),
      am_trace_id = MText ''t'', am_timestamp = \<lparr>tm_year = 2024, tm_month = 2, tm_day = 29, tm_hour = 1, tm_minute = 2, tm_second = 3, tm_micro = 4\<rparr>,
      am_type = RESPONSE, am_correlation = MNone, am_metadata = MNone\<rparr>) =
   Inr \<lparr>am_sender = MText ''router'', am_receiver = MText ''billing'', am_content = MOther 5,
      am_trace_id = MText ''t'', am_timestamp = \<lparr>tm_year = 2024, tm_month = 2, tm_day = 29, tm_hour = 1, tm_minute = 2, tm_second = 3, tm_micro = 4\<rparr>,
      am_type = RESPONSE, am_correlation = MNone, am_metadata = MNone\<rparr>"
  by (rule message_round_trip) (simp add: valid_time_def month_days_def leap_year_def)

text \<open>Of several missing keys the first in the order of the fields is reported; the last two may be missing.\<close>

lemma missing_sender: "map_of d ''sender'' = None \<Longrightarrow> message_from_dict other d = Inl KeyError"
  by (simp add: message_from_dict_def required_def)

lemma optional_fields:
  "valid_time (am_timestamp m) \<Longrightarrow> message_from_dict other (take 6 (message_to_dict m)) = Inr (m\<lparr>am_correlation := MNone, am_metadata := MNone\<rparr>)"
  by (simp add: message_from_dict_def message_to_dict_def required_def optional_def timestamp_of_def fromisoformat_def isoformat_read type_read_back)

end
