(* ===== verification/Seeding.thy ===== *)
theory Seeding
  imports Gateway
begin

text \<open>
  The scripts that fill an empty database: \<^verbatim>\<open>scripts/seed.py\<close>, two tenants with an administrator each,
  and \<^verbatim>\<open>scripts/seed_tenant.py\<close>, one tenant with a random key.  Every statement commits by itself.
\<close>

section \<open>The tables\<close>

record tenant_entry = tenant_row +
  te_name :: string
  te_prefix :: string

text \<open>\<open>sd_rls\<close>: the role of the connection is subject to the row policy of the administrators.\<close>

record seed_db =
  sd_tenants :: "tenant_entry list"
  sd_admins :: "admin_user list"
  sd_rls :: bool

definition auth_rows :: "seed_db \<Rightarrow> tenant_row list" where
  "auth_rows db = map tenant_row.truncate (sd_tenants db)"

text \<open>\<open>ON CONFLICT ... DO NOTHING\<close> on the key's hash, and on the address.\<close>

definition insert_tenant :: "tenant_entry \<Rightarrow> seed_db \<Rightarrow> exn + seed_db" where
  "insert_tenant e db =
     (if list_ex (\<lambda>r. tn_key_hash r = tn_key_hash e) (sd_tenants db) then Inr db
      else if list_ex (\<lambda>r. tn_id r = tn_id e) (sd_tenants db) then Inl (DbExn UniqueViolation)
      else Inr (db\<lparr>sd_tenants := sd_tenants db @ [e]\<rparr>))"

definition insert_admin :: "admin_user \<Rightarrow> seed_db \<Rightarrow> exn + seed_db" where
  "insert_admin a db =
     (if sd_rls db then Inl (DbExn UnsetParameter)
      else if list_ex (\<lambda>r. au_email r = au_email a) (sd_admins db) then Inr db
      else if list_ex (\<lambda>r. au_id r = au_id a) (sd_admins db) then Inl (DbExn UniqueViolation)
      else if \<not> list_ex (\<lambda>r. tn_id r = au_tenant a) (sd_tenants db) then Inl (DbExn ForeignKeyViolation)
      else Inr (db\<lparr>sd_admins := sd_admins db @ [a]\<rparr>))"

section \<open>Seeding\<close>

definition API_KEY :: string where "API_KEY = ''ck_test_integration_key''"
definition API_KEY_B :: string where "API_KEY_B = ''ck_test_tenant_b_key''"
definition TENANT_ID :: nat where "TENANT_ID = 0x4000A000000000000001"
definition TENANT_B_ID :: nat where "TENANT_B_ID = 0x4000A000000000000002"
definition ADMIN_EMAIL :: string where "ADMIN_EMAIL = ''admin@test.com''"
definition ADMIN_B_EMAIL :: string where "ADMIN_B_EMAIL = ''admin-b@test.com''"
definition ADMIN_PASSWORD :: string where "ADMIN_PASSWORD = ''test123456''"

definition seeded_tenant :: "nat \<Rightarrow> string \<Rightarrow> string \<Rightarrow> tenant_entry" where
  "seeded_tenant i name key =
     \<lparr>tn_id = i, tn_key_hash = sha256_hex key, tn_active = True, tn_user_rps = Some 10, te_name = name, te_prefix = take 8 key\<rparr>"

definition seeded_admin :: "nat \<Rightarrow> nat \<Rightarrow> string \<Rightarrow> string \<Rightarrow> admin_user" where
  "seeded_admin i tenant email hash = \<lparr>au_id = i, au_tenant = tenant, au_email = email, au_hash = hash, au_role = ''admin''\<rparr>"

text \<open>A run's own values: the ids that the database gives the administrators, the salted hashes of the password.\<close>

record seed_run =
  sr_id :: nat
  sr_id_b :: nat
  sr_hash :: string
  sr_hash_b :: string

definition seed_steps :: "seed_run \<Rightarrow> (seed_db \<Rightarrow> exn + seed_db) list" where
  "seed_steps r =
     [insert_tenant (seeded_tenant TENANT_ID ''Integration Test Tenant'' API_KEY),
      insert_admin (seeded_admin (sr_id r) TENANT_ID ADMIN_EMAIL (sr_hash r)),
      insert_tenant (seeded_tenant TENANT_B_ID ''Isolation Test Tenant B'' API_KEY_B),
      insert_admin (seeded_admin (sr_id_b r) TENANT_B_ID ADMIN_B_EMAIL (sr_hash_b r))]"

fun run_steps :: "(seed_db \<Rightarrow> exn + seed_db) list \<Rightarrow> seed_db \<Rightarrow> (exn + unit) \<times> seed_db" where
  "run_steps [] db = (Inr (), db)"
| "run_steps (f # fs) db = (case f db of Inl e \<Rightarrow> (Inl e, db) | Inr db' \<Rightarrow> run_steps fs db')"

definition seed :: "seed_run \<Rightarrow> seed_db \<Rightarrow> (exn + unit) \<times> seed_db" where
  "seed r = run_steps (seed_steps r)"

text \<open>The other script: the tenant's name decides whether there is one; the key is new each time.\<close>

definition seed_test_tenant :: "nat \<Rightarrow> string \<Rightarrow> seed_db \<Rightarrow> (exn + string option) \<times> seed_db" where
  "seed_test_tenant new_id token db =
     (case fetchrow (\<lambda>r. te_name r = ''Test Tenant'') (sd_tenants db) of
        Some r \<Rightarrow> (Inr None, db)
      | None \<Rightarrow>
          (let key = ''ck_'' @ token;
               e = \<lparr>tn_id = new_id, tn_key_hash = sha256_hex key, tn_active = True, tn_user_rps = Some 10,
                    te_name = ''Test Tenant'', te_prefix = take 10 key\<rparr>
           in if list_ex (\<lambda>r. tn_id r = new_id \<or> tn_key_hash r = sha256_hex key) (sd_tenants db) then (Inl (DbExn UniqueViolation), db)
              else (Inr (Some key), db\<lparr>sd_tenants := sd_tenants db @ [e]\<rparr>)))"

section \<open>Once is enough\<close>

text \<open>The keys that a step puts in, and what it leaves alone.\<close>

definition has_tenant :: "tenant_entry \<Rightarrow> seed_db \<Rightarrow> bool" where
  "has_tenant e db \<longleftrightarrow> list_ex (\<lambda>r. tn_key_hash r = tn_key_hash e) (sd_tenants db)"

definition has_admin :: "string \<Rightarrow> seed_db \<Rightarrow> bool" where
  "has_admin email db \<longleftrightarrow> list_ex (\<lambda>r. au_email r = email) (sd_admins db) \<and> \<not> sd_rls db"

lemma tenant_inserted: "insert_tenant e db = Inr db' \<Longrightarrow> has_tenant e db' \<and> (has_tenant e' db \<longrightarrow> has_tenant e' db') \<and> (has_admin m db \<longrightarrow> has_admin m db')"
  by (auto simp: insert_tenant_def has_tenant_def has_admin_def split: if_splits)

lemma admin_inserted: "insert_admin a db = Inr db' \<Longrightarrow> has_admin (au_email a) db' \<and> (has_tenant e db \<longrightarrow> has_tenant e db') \<and> (has_admin m db \<longrightarrow> has_admin m db')"
  by (auto simp: insert_admin_def has_tenant_def has_admin_def split: if_splits)

lemma tenant_there: "has_tenant e db \<Longrightarrow> insert_tenant e db = Inr db"
  by (simp add: insert_tenant_def has_tenant_def)

lemma admin_there: "has_admin (au_email a) db \<Longrightarrow> insert_admin a db = Inr db"
  by (simp add: insert_admin_def has_admin_def)

lemma seed_has:
  assumes "seed r db = (Inr (), db')"
  shows "has_tenant (seeded_tenant TENANT_ID ''Integration Test Tenant'' API_KEY) db' \<and> has_admin ADMIN_EMAIL db' \<and>
    has_tenant (seeded_tenant TENANT_B_ID ''Isolation Test Tenant B'' API_KEY_B) db' \<and> has_admin ADMIN_B_EMAIL db'"
proof -
  obtain db1 db2 db3 where s:
      "insert_tenant (seeded_tenant TENANT_ID ''Integration Test Tenant'' API_KEY) db = Inr db1"
      "insert_admin (seeded_admin (sr_id r) TENANT_ID ADMIN_EMAIL (sr_hash r)) db1 = Inr db2"
      "insert_tenant (seeded_tenant TENANT_B_ID ''Isolation Test Tenant B'' API_KEY_B) db2 = Inr db3"
      "insert_admin (seeded_admin (sr_id_b r) TENANT_B_ID ADMIN_B_EMAIL (sr_hash_b r)) db3 = Inr db'"
    using assms by (auto simp: seed_def seed_steps_def split: sum.splits)
  show ?thesis using tenant_inserted [OF s(1)] admin_inserted [OF s(2)] tenant_inserted [OF s(3)] admin_inserted [OF s(4)]
    by (simp add: seeded_admin_def)
qed

text \<open>A run after one that succeeded changes nothing, whatever salts and ids it would have used.\<close>

theorem seed_idempotent:
  assumes "seed r db = (Inr (), db')"
  shows "seed r' db' = (Inr (), db')"
proof -
  have e: "au_email (seeded_admin i t m h) = m" for i t m h by (simp add: seeded_admin_def)
  note h = seed_has [OF assms]
  show ?thesis
    by (simp add: seed_def seed_steps_def tenant_there admin_there h e)
qed

definition empty_seed_db :: seed_db where
  "empty_seed_db = \<lparr>sd_tenants = [], sd_admins = [], sd_rls = False\<rparr>"

lemma seed_idempotent_witness:
  "\<exists>db. seed \<lparr>sr_id = 5, sr_id_b = 6, sr_hash = ''x'', sr_hash_b = ''y''\<rparr> db = (Inr (), db) \<and> length (sd_tenants db) = 2 \<and> length (sd_admins db) = 2"
proof -
  let ?db = "\<lparr>sd_tenants = [seeded_tenant TENANT_ID ''A'' API_KEY, seeded_tenant TENANT_B_ID ''B'' API_KEY_B],
     sd_admins = [seeded_admin 1 TENANT_ID ADMIN_EMAIL ''h'', seeded_admin 2 TENANT_B_ID ADMIN_B_EMAIL ''h''], sd_rls = False\<rparr>"
  have "seed \<lparr>sr_id = 3, sr_id_b = 4, sr_hash = ''u'', sr_hash_b = ''v''\<rparr> ?db = (Inr (), ?db)"
    by (simp add: seed_def seed_steps_def insert_tenant_def insert_admin_def seeded_tenant_def seeded_admin_def)
  from seed_idempotent [OF this] show ?thesis by (intro exI [of _ ?db]) simp
qed

lemma steps_append:
  assumes "\<And>f d d'. f \<in> set fs \<Longrightarrow> f d = Inr d' \<Longrightarrow> \<exists>es. sd_tenants d' = sd_tenants d @ es"
  shows "\<exists>es. sd_tenants (snd (run_steps fs db)) = sd_tenants db @ es"
  using assms
proof (induction fs arbitrary: db)
  case (Cons f fs)
  show ?case
  proof (cases "f db")
    case (Inr d')
    have "\<exists>es. sd_tenants d' = sd_tenants db @ es" using Cons.prems [of f db d'] Inr by simp
    moreover have "\<exists>es. sd_tenants (snd (run_steps fs d')) = sd_tenants d' @ es" by (rule Cons.IH) (use Cons.prems in auto)
    ultimately show ?thesis using Inr by auto
  qed simp
qed simp

text \<open>
  The gateway lets the seeded key in as the seeded tenant, if there was neither before; so it does when
  the run fails later, as it does where the row policy of the administrators applies.
\<close>

theorem seeded_key_admitted:
  assumes "\<not> list_ex (\<lambda>x. tn_key_hash x = sha256_hex API_KEY \<or> tn_id x = TENANT_ID) (sd_tenants db)" and "path \<noteq> ''/health''"
  shows "tenant_auth (auth_rows (snd (seed r db))) path (Some (''Bearer '' @ API_KEY)) = Pass (Some TENANT_ID)"
proof -
  let ?a = "seeded_tenant TENANT_ID ''Integration Test Tenant'' API_KEY" and ?fs = "tl (seed_steps r)"
  have s: "insert_tenant ?a db = Inr (db\<lparr>sd_tenants := sd_tenants db @ [?a]\<rparr>)"
    using assms(1) by (auto simp: insert_tenant_def seeded_tenant_def list_ex_iff)
  have r: "snd (seed r db) = snd (run_steps ?fs (db\<lparr>sd_tenants := sd_tenants db @ [?a]\<rparr>))"
    by (simp add: seed_def seed_steps_def s)
  have "\<exists>es. sd_tenants d' = sd_tenants d @ es" if "f \<in> set ?fs" "f d = Inr d'" for f d d'
    using that by (auto simp: seed_steps_def insert_tenant_def insert_admin_def split: if_splits)
  then have "\<exists>es. sd_tenants (snd (run_steps ?fs (db\<lparr>sd_tenants := sd_tenants db @ [?a]\<rparr>))) = sd_tenants (db\<lparr>sd_tenants := sd_tenants db @ [?a]\<rparr>) @ es"
    by (intro steps_append) blast
  then obtain es where t: "sd_tenants (snd (seed r db)) = sd_tenants db @ ?a # es" unfolding r by auto
  have a: "tenant_row.truncate ?a = \<lparr>tn_id = TENANT_ID, tn_key_hash = sha256_hex API_KEY, tn_active = True, tn_user_rps = Some 10\<rparr>"
    by (simp add: seeded_tenant_def tenant_row.truncate_def)
  have "fetchrow (\<lambda>x. tn_key_hash x = sha256_hex API_KEY) (map tenant_row.truncate (sd_tenants db)) = None"
    using assms(1) by (auto simp: fetchrow_None tenant_row.truncate_def list_ex_iff)
  then have f: "fetchrow (\<lambda>x. tn_key_hash x = sha256_hex API_KEY) (auth_rows (snd (seed r db))) = Some (tenant_row.truncate ?a)"
    by (simp add: auth_rows_def t fetchrow_append a)
  have k: "api_key_of (''Bearer '' @ API_KEY) = Some API_KEY" by (simp add: api_key_of_def API_KEY_def starts_with_def)
  show ?thesis using assms(2) by (simp add: tenant_auth_def k f a del: append.simps)
qed

lemma seeded_key_admitted_witness:
  "tenant_auth (auth_rows (snd (seed r empty_seed_db))) ''/v1/chat/completions'' (Some (''Bearer '' @ API_KEY)) = Pass (Some TENANT_ID)"
  by (rule seeded_key_admitted) (simp_all add: empty_seed_db_def)

text \<open>Under the row policy the tenant is there and its administrator is not.\<close>

lemma seed_without_admin:
  "seed r (empty_seed_db\<lparr>sd_rls := True\<rparr>) =
    (Inl (DbExn UnsetParameter), empty_seed_db\<lparr>sd_tenants := [seeded_tenant TENANT_ID ''Integration Test Tenant'' API_KEY], sd_rls := True\<rparr>)"
  by (simp add: seed_def seed_steps_def insert_tenant_def insert_admin_def empty_seed_db_def)

text \<open>The other script makes its tenant once; the key of the first run is not shown again.\<close>

lemma test_tenant_once:
  "seed_test_tenant i token db = (Inr (Some key), db') \<Longrightarrow> seed_test_tenant i' token' db' = (Inr None, db')"
  by (auto simp: seed_test_tenant_def fetchrow_append Let_def split: option.splits if_splits)

end
