(* ===== verification/Services.thy ===== *)
theory Services
  imports Clients Channels Plugins
begin

text \<open>
  How the processes are put together and taken apart: the pools of \<^verbatim>\<open>shared/db.py\<close>, the client of
  \<^verbatim>\<open>shared/redis_client.py\<close>, the lifespans of \<^verbatim>\<open>api_gateway/main.py\<close>, \<^verbatim>\<open>admin_service/main.py\<close>,
  \<^verbatim>\<open>chat_service/main.py\<close> with \<^verbatim>\<open>chat_service/agent/checkpointer.py\<close>, and of the worker; the vector
  collection of \<^verbatim>\<open>shared/milvus_client.py\<close> and \<^verbatim>\<open>scripts/init_milvus.py\<close>; a plug-in's files
  (\<^verbatim>\<open>shared/plugin_system.py\<close>); feedback sent to Langfuse (\<^verbatim>\<open>ai_gateway/langfuse_handler.py\<close>,
  \<^verbatim>\<open>chat_service/services/feedback.py\<close>); the limit on the time to the first token
  (\<^verbatim>\<open>shared/metrics.py\<close>).  What the services answer when they are connected to is an argument.
\<close>

section \<open>Connections of a process\<close>

record pool_params =
  pc_dsn :: string
  pc_cache :: nat                \<comment> \<open>\<open>statement_cache_size\<close>\<close>
  pc_max :: "nat option"

record process =
  sv_next :: nat                 \<comment> \<open>numbers what is opened\<close>
  sv_pools :: "(nat \<times> pool_params) list"
  sv_redis :: "nat option"       \<comment> \<open>the module's client\<close>

definition fresh_process :: process where
  "fresh_process = \<lparr>sv_next = 0, sv_pools = [], sv_redis = None\<rparr>"

definition open_pool :: "(string \<Rightarrow> exn + unit) \<Rightarrow> pool_params \<Rightarrow> process \<Rightarrow> (exn + nat) \<times> process" where
  "open_pool connect c p =
     (case connect (pc_dsn c) of
        Inl e \<Rightarrow> (Inl e, p)
      | Inr u \<Rightarrow> (Inr (sv_next p), p\<lparr>sv_next := sv_next p + 1, sv_pools := sv_pools p @ [(sv_next p, c)]\<rparr>))"

definition close_pool :: "nat \<Rightarrow> process \<Rightarrow> process" where
  "close_pool i p = p\<lparr>sv_pools := filter (\<lambda>(j, _). j \<noteq> i) (sv_pools p)\<rparr>"

definition create_asyncpg_pool :: "(string \<Rightarrow> exn + unit) \<Rightarrow> settings \<Rightarrow> process \<Rightarrow> (exn + nat) \<times> process" where
  "create_asyncpg_pool connect s = open_pool connect \<lparr>pc_dsn = se_database_url s, pc_cache = 0, pc_max = None\<rparr>"

definition create_asyncpg_pool_ro :: "(string \<Rightarrow> exn + unit) \<Rightarrow> settings \<Rightarrow> process \<Rightarrow> (exn + nat) \<times> process" where
  "create_asyncpg_pool_ro connect s =
     (if se_database_ro_url s \<noteq> [] then open_pool connect \<lparr>pc_dsn = se_database_ro_url s, pc_cache = 0, pc_max = Some 10\<rparr>
      else create_asyncpg_pool connect s)"

definition get_redis :: "process \<Rightarrow> nat \<times> process" where
  "get_redis p =
     (case sv_redis p of Some c \<Rightarrow> (c, p)
      | None \<Rightarrow> (sv_next p, p\<lparr>sv_next := sv_next p + 1, sv_redis := Some (sv_next p)\<rparr>))"

definition close_redis :: "process \<Rightarrow> process" where
  "close_redis p = p\<lparr>sv_redis := None\<rparr>"

section \<open>Lifespans\<close>

record gateway_app =
  ga_pool :: nat
  ga_redis :: nat

definition gateway_start :: "(string \<Rightarrow> exn + unit) \<Rightarrow> settings \<Rightarrow> process \<Rightarrow> (exn + gateway_app) \<times> process" where
  "gateway_start connect s p =
     (case create_asyncpg_pool connect s p of
        (Inl e, p1) \<Rightarrow> (Inl e, p1)
      | (Inr i, p1) \<Rightarrow> (case get_redis p1 of (c, p2) \<Rightarrow> (Inr \<lparr>ga_pool = i, ga_redis = c\<rparr>, p2)))"

definition gateway_stop :: "gateway_app \<Rightarrow> process \<Rightarrow> process" where
  "gateway_stop a = close_pool (ga_pool a)"

text \<open>Milvus and the object storage may fail to start; their clients are \<open>None\<close> then.\<close>

record admin_app =
  ad_pool :: nat
  ad_pool_ro :: nat
  ad_redis :: nat
  ad_milvus :: bool
  ad_oss :: bool

definition admin_start ::
  "(string \<Rightarrow> exn + unit) \<Rightarrow> exn + unit \<Rightarrow> exn + unit \<Rightarrow> settings \<Rightarrow> process \<Rightarrow> (exn + admin_app) \<times> process" where
  "admin_start connect milvus oss s p =
     (case create_asyncpg_pool connect s p of
        (Inl e, p1) \<Rightarrow> (Inl e, p1)
      | (Inr i, p1) \<Rightarrow>
          (case create_asyncpg_pool_ro connect s p1 of
             (Inl e, p2) \<Rightarrow> (Inl e, p2)
           | (Inr j, p2) \<Rightarrow>
               (case get_redis p2 of (c, p3) \<Rightarrow>
                  (Inr \<lparr>ad_pool = i, ad_pool_ro = j, ad_redis = c, ad_milvus = is_ok milvus, ad_oss = is_ok oss\<rparr>, p3))))"

definition admin_stop :: "admin_app \<Rightarrow> process \<Rightarrow> process" where
  "admin_stop a p = close_redis (close_pool (ad_pool a) p)"

text \<open>
  The agent's part: the checkpointer stays open while the service runs; the store's context is left
  as soon as its tables are set up, and the application keeps what it gave.
\<close>

datatype agent_store = NoStore | ClosedStore | OpenStore

definition agent_start :: "exn + unit \<Rightarrow> bool \<Rightarrow> exn + unit \<Rightarrow> exn + agent_store" where
  "agent_start checkpointer has_store store =
     (case checkpointer of Inl e \<Rightarrow> Inl e | Inr u \<Rightarrow> Inr (if has_store \<and> is_ok store then ClosedStore else NoStore))"

record chat_app =
  ch_pool :: nat
  ch_redis :: nat
  ch_store :: agent_store

definition chat_start ::
  "(string \<Rightarrow> exn + unit) \<Rightarrow> exn + unit \<Rightarrow> bool \<Rightarrow> exn + unit \<Rightarrow> settings \<Rightarrow> process \<Rightarrow> (exn + chat_app) \<times> process" where
  "chat_start connect checkpointer has_store store s p =
     (case create_asyncpg_pool connect s p of
        (Inl e, p1) \<Rightarrow> (Inl e, p1)
      | (Inr i, p1) \<Rightarrow>
          (case get_redis p1 of (c, p2) \<Rightarrow>
             (case agent_start checkpointer has_store store of
                Inl e \<Rightarrow> (Inl e, p2)
              | Inr st \<Rightarrow> (Inr \<lparr>ch_pool = i, ch_redis = c, ch_store = st\<rparr>, p2))))"

definition chat_stop :: "chat_app \<Rightarrow> process \<Rightarrow> process" where
  "chat_stop a p = close_redis (close_pool (ch_pool a) p)"

text \<open>The worker closes its pool whatever its loop comes to.\<close>

definition worker_main :: "(string \<Rightarrow> exn + unit) \<Rightarrow> exn + unit \<Rightarrow> exn + unit \<Rightarrow> settings \<Rightarrow> process \<Rightarrow> (exn + unit) \<times> process" where
  "worker_main connect milvus run s p =
     (case create_asyncpg_pool connect s p of
        (Inl e, p1) \<Rightarrow> (Inl e, p1)
      | (Inr i, p1) \<Rightarrow> (case milvus of Inl e \<Rightarrow> (Inl e, p1) | Inr u \<Rightarrow> (run, close_pool i p1)))"

lemma opened:
  "open_pool connect c p = (Inr i, p') \<Longrightarrow> i = sv_next p \<and> p' = p\<lparr>sv_next := sv_next p + 1, sv_pools := sv_pools p @ [(sv_next p, c)]\<rparr>"
  by (auto simp: open_pool_def split: sum.splits)

text \<open>Every pool is one for the connection pooler: without cached statements.\<close>

lemma no_cached_statements:
  "create_asyncpg_pool_ro connect s p = (Inr i, p') \<Longrightarrow> \<exists>c. sv_pools p' = sv_pools p @ [(i, c)] \<and> pc_cache c = 0"
  by (auto simp: create_asyncpg_pool_ro_def create_asyncpg_pool_def dest!: opened split: if_splits)

text \<open>
  The admin service stops with its read-only pool open, also where that is one more pool of the
  primary database; the chat service closes what it opened.
\<close>

theorem admin_leaves_pool:
  assumes "admin_start connect milvus oss s p = (Inr a, p')" and "list_all (\<lambda>(j, c). j < sv_next p) (sv_pools p)"
  shows "\<exists>c. sv_pools (admin_stop a p') = sv_pools p @ [(ad_pool_ro a, c)] \<and>
    pc_dsn c = (if se_database_ro_url s = [] then se_database_url s else se_database_ro_url s)"
proof -
  from assms(1) obtain p1 p2 where
      1: "create_asyncpg_pool connect s p = (Inr (ad_pool a), p1)" and
      2: "create_asyncpg_pool_ro connect s p1 = (Inr (ad_pool_ro a), p2)" and 3: "p' = snd (get_redis p2)"
    by (auto simp: admin_start_def split: prod.splits sum.splits)
  let ?c = "\<lparr>pc_dsn = se_database_url s, pc_cache = 0, pc_max = None\<rparr>"
  have a: "ad_pool a = sv_next p" "p1 = p\<lparr>sv_next := sv_next p + 1, sv_pools := sv_pools p @ [(sv_next p, ?c)]\<rparr>"
    using opened [OF 1 [unfolded create_asyncpg_pool_def]] by simp_all
  obtain c where c: "open_pool connect c p1 = (Inr (ad_pool_ro a), p2)" "pc_dsn c = (if se_database_ro_url s = [] then se_database_url s else se_database_ro_url s)"
    using 2 by (auto simp: create_asyncpg_pool_ro_def create_asyncpg_pool_def split: if_splits)
  have b: "ad_pool_ro a = sv_next p + 1" "p2 = p1\<lparr>sv_next := sv_next p + 2, sv_pools := sv_pools p1 @ [(sv_next p + 1, c)]\<rparr>"
    using opened [OF c(1)] a(2) by simp_all
  have f: "filter (\<lambda>(j, _). j \<noteq> sv_next p) (sv_pools p) = sv_pools p"
    using assms(2) by (auto simp: list_all_iff filter_id_conv)
  have "sv_pools p' = sv_pools p2" unfolding 3 by (simp add: get_redis_def split: option.split)
  then have "sv_pools (admin_stop a p') = sv_pools p @ [(ad_pool_ro a, c)]"
    by (simp add: admin_stop_def close_redis_def close_pool_def a b f)
  with c(2) show ?thesis by blast
qed

lemma admin_leaves_pool_witness:
  "\<exists>a p'. admin_start (\<lambda>d. Inr ()) (Inl ConnectionError) (Inr ()) default_settings fresh_process = (Inr a, p') \<and> length (sv_pools (admin_stop a p')) = 1"
proof -
  obtain a p' where s: "admin_start (\<lambda>d. Inr ()) (Inl ConnectionError) (Inr ()) default_settings fresh_process = (Inr a, p')"
    by (simp add: admin_start_def create_asyncpg_pool_def create_asyncpg_pool_ro_def open_pool_def get_redis_def fresh_process_def default_settings_def)
  from admin_leaves_pool [OF s] show ?thesis using s by (auto simp: fresh_process_def)
qed

lemma chat_leaves_nothing:
  assumes "chat_start connect checkpointer has_store store s p = (Inr a, p')" and "list_all (\<lambda>(j, c). j < sv_next p) (sv_pools p)"
  shows "sv_pools (chat_stop a p') = sv_pools p \<and> sv_redis (chat_stop a p') = None \<and> ch_store a \<noteq> OpenStore"
proof -
  from assms(1) obtain p1 where
      1: "create_asyncpg_pool connect s p = (Inr (ch_pool a), p1)" and 2: "p' = snd (get_redis p1)" and 3: "agent_start checkpointer has_store store = Inr (ch_store a)"
    by (auto simp: chat_start_def split: prod.splits sum.splits)
  have f: "filter (\<lambda>(j, _). j \<noteq> sv_next p) (sv_pools p) = sv_pools p"
    using assms(2) by (auto simp: list_all_iff filter_id_conv)
  have "sv_pools p' = sv_pools p1" unfolding 2 by (simp add: get_redis_def split: option.split)
  moreover have "ch_store a \<noteq> OpenStore" using 3 by (auto simp: agent_start_def split: sum.splits if_splits)
  ultimately show ?thesis using opened [OF 1 [unfolded create_asyncpg_pool_def]] f
    by (simp add: chat_stop_def close_redis_def close_pool_def)
qed

text \<open>A checkpointer that cannot be set up leaves the pool open.\<close>

lemma failed_chat_leaves_pool:
  "connect (se_database_url s) = Inr () \<Longrightarrow>
   length (sv_pools (snd (chat_start connect (Inl e) has_store store s p))) = Suc (length (sv_pools p))"
  by (simp add: chat_start_def create_asyncpg_pool_def open_pool_def get_redis_def agent_start_def split: option.split)

section \<open>The gateway's middleware\<close>

text \<open>
  The handler of the event \<open>startup\<close> attaches the middleware.  Two facts of the framework are arguments:
  whether it calls such handlers for an application that has a lifespan, and whether middleware may
  still be added then.
\<close>

datatype middleware = RateLimitMiddleware | TenantAuthMiddleware

definition add_middleware :: "middleware \<Rightarrow> middleware list \<Rightarrow> middleware list" where \<comment> \<open>the last one added is outermost\<close>
  "add_middleware m ms = m # ms"

definition configure_middleware :: "middleware list \<Rightarrow> middleware list" where
  "configure_middleware ms = add_middleware TenantAuthMiddleware (add_middleware RateLimitMiddleware ms)"

definition gateway_serve ::
  "bool \<Rightarrow> bool \<Rightarrow> (string \<Rightarrow> exn + unit) \<Rightarrow> settings \<Rightarrow> process \<Rightarrow> (exn + middleware list) \<times> process" where
  "gateway_serve calls_handlers may_add connect s p =
     (case gateway_start connect s p of
        (Inl e, p1) \<Rightarrow> (Inl e, p1)
      | (Inr a, p1) \<Rightarrow>
          (if \<not> calls_handlers then Inr [] else if \<not> may_add then Inl RuntimeError else Inr (configure_middleware []), p1))"

definition gateway_routes :: "string list" where "gateway_routes = [''/health'']"

text \<open>The requests are authenticated only by a framework that both calls the handler and lets it add.\<close>

lemma gateway_unguarded:
  "fst (gateway_serve calls may_add connect s p) = Inr ms \<Longrightarrow> TenantAuthMiddleware \<in> set ms \<longleftrightarrow> calls \<and> may_add"
  by (auto simp: gateway_serve_def configure_middleware_def add_middleware_def split: prod.splits sum.splits if_splits)

section \<open>The vector collection\<close>

datatype field_type = VARCHAR nat | FLOAT_VECTOR int | SPARSE_FLOAT_VECTOR | INT64

record field_schema =
  fd_name :: string
  fd_type :: field_type
  fd_primary :: bool
  fd_partition_key :: bool
  fd_analyzer :: "string option"

record vector_index =
  vx_field :: string
  vx_type :: string
  vx_metric :: string
  vx_params :: "(string \<times> int) list"

record collection =
  co_fields :: "field_schema list"
  co_bm25 :: "string \<times> string"      \<comment> \<open>the function's input and output\<close>
  co_indexes :: "vector_index list"
  co_partitions :: nat

type_synonym milvus = "(string \<times> collection) list"

definition plain_field :: "string \<Rightarrow> field_type \<Rightarrow> field_schema" where
  "plain_field name ty = \<lparr>fd_name = name, fd_type = ty, fd_primary = False, fd_partition_key = False, fd_analyzer = None\<rparr>"

definition COLLECTION_NAME :: string where "COLLECTION_NAME = ''knowledge_chunks''"

definition knowledge_collection :: "int \<Rightarrow> collection" where
  "knowledge_collection width =
     \<lparr>co_fields =
        [(plain_field ''id'' (VARCHAR 64))\<lparr>fd_primary := True\<rparr>, (plain_field ''tenant_id'' (VARCHAR 64))\<lparr>fd_partition_key := True\<rparr>,
         plain_field ''doc_id'' (VARCHAR 64), (plain_field ''chunk_text'' (VARCHAR 4096))\<lparr>fd_analyzer := Some ''chinese''\<rparr>,
         plain_field ''dense_vector'' (FLOAT_VECTOR width), plain_field ''sparse_vector'' SPARSE_FLOAT_VECTOR, plain_field ''created_at'' INT64],
      co_bm25 = (''chunk_text'', ''sparse_vector''),
      co_indexes =
        [\<lparr>vx_field = ''dense_vector'', vx_type = ''HNSW'', vx_metric = ''COSINE'', vx_params = [(''M'', 16), (''efConstruction'', 200)]\<rparr>,
         \<lparr>vx_field = ''sparse_vector'', vx_type = ''SPARSE_INVERTED_INDEX'', vx_metric = ''BM25'', vx_params = []\<rparr>],
      co_partitions = 64\<rparr>"

text \<open>What the server does with a collection of a name it has is an argument, \<open>again\<close>.\<close>

definition create_collection :: "(collection \<Rightarrow> milvus \<Rightarrow> exn + milvus) \<Rightarrow> string \<Rightarrow> collection \<Rightarrow> milvus \<Rightarrow> exn + milvus" where
  "create_collection again name c mv = (if map_of mv name \<noteq> None then again c mv else Inr (mv @ [(name, c)]))"

definition create_knowledge_chunks_collection :: "(collection \<Rightarrow> milvus \<Rightarrow> exn + milvus) \<Rightarrow> settings \<Rightarrow> milvus \<Rightarrow> exn + milvus" where
  "create_knowledge_chunks_collection again s mv = create_collection again COLLECTION_NAME (knowledge_collection (se_embedding_dim s)) mv"

text \<open>The script reads the dimension itself: the variable's number, \<open>None\<close> without the variable.\<close>

definition init_collection :: "(collection \<Rightarrow> milvus \<Rightarrow> exn + milvus) \<Rightarrow> (exn + int) option \<Rightarrow> milvus \<Rightarrow> exn + milvus" where
  "init_collection again width mv =
     (if map_of mv COLLECTION_NAME \<noteq> None then Inr mv
      else (case (case width of None \<Rightarrow> Inr 4096 | Some d \<Rightarrow> d) of
              Inl e \<Rightarrow> Inl e
            | Inr d \<Rightarrow> create_collection again COLLECTION_NAME (knowledge_collection d) mv))"

text \<open>The script may be run again; and it makes the collection that the service would make for the same dimension.\<close>

lemma init_collection_idempotent:
  assumes "init_collection again width mv = Inr mv'"
  shows "init_collection again' width' mv' = Inr mv'"
proof -
  have "map_of mv' COLLECTION_NAME \<noteq> None"
    using assms by (auto simp: init_collection_def create_collection_def map_add_def split: if_splits option.splits sum.splits)
  then show ?thesis by (simp add: init_collection_def)
qed

lemma one_schema:
  "map_of mv COLLECTION_NAME = None \<Longrightarrow>
   init_collection again (Some (Inr (se_embedding_dim s))) mv = create_knowledge_chunks_collection again s mv"
  by (simp add: init_collection_def create_knowledge_chunks_collection_def)

section \<open>Plug-ins from files\<close>

definition data_at :: "string \<Rightarrow> webhook \<Rightarrow> exn + webhook" where \<comment> \<open>\<open>data[key]\<close>\<close>
  "data_at k v = (case v of PDict d \<Rightarrow> (case map_of d k of None \<Rightarrow> Inl KeyError | Some x \<Rightarrow> Inr x) | _ \<Rightarrow> Inl TypeError)"

text \<open>The values of a manifest are taken as they are.\<close>

record loaded_manifest =
  lm_name :: webhook
  lm_version :: webhook
  lm_type :: webhook
  lm_description :: webhook
  lm_entry :: webhook
  lm_permissions :: webhook
  lm_author :: webhook

definition load_plugin_from_manifest :: "exn + webhook \<Rightarrow> exn + loaded_manifest" where
  "load_plugin_from_manifest file =
     bind file (\<lambda>data. bind (data_at ''name'' data) (\<lambda>n. bind (data_at ''version'' data) (\<lambda>v. bind (data_at ''type'' data) (\<lambda>t.
     bind (get ''description'' empty_text data) (\<lambda>d. bind (get ''entry'' (PText (ucs_of ''index.py'')) data) (\<lambda>e.
     bind (get ''permissions'' (PList []) data) (\<lambda>ps. bind (get ''author'' PNull data) (\<lambda>a.
       Inr \<lparr>lm_name = n, lm_version = v, lm_type = t, lm_description = d, lm_entry = e, lm_permissions = ps, lm_author = a\<rparr>))))))))"

text \<open>\<open>plugin_dir / entry\<close>: an absolute entry replaces the directory.\<close>

definition path_join :: "string \<Rightarrow> string \<Rightarrow> string" where
  "path_join dir entry = (if starts_with ''/'' entry then entry else dir @ ''/'' @ entry)"

definition load_plugin_module :: "(string \<Rightarrow> bool) \<Rightarrow> (string \<Rightarrow> exn + 'm) \<Rightarrow> string \<Rightarrow> string \<Rightarrow> exn + 'm" where
  "load_plugin_module is_file run dir entry =
     (let f = path_join dir entry in if \<not> is_file f then Inl OSError else run f)"

lemma manifest_needs_name: "map_of d ''name'' = None \<Longrightarrow> load_plugin_from_manifest (Inr (PDict d)) = Inl KeyError"
  by (simp add: load_plugin_from_manifest_def data_at_def)

text \<open>The code that is run is the file that the manifest names, wherever it is.\<close>

lemma entry_anywhere: "is_file (CHR ''/'' # f) \<Longrightarrow> load_plugin_module is_file run dir (CHR ''/'' # f) = run (CHR ''/'' # f)"
  by (simp add: load_plugin_module_def path_join_def starts_with_def Let_def)

section \<open>Feedback for Langfuse\<close>

definition get_langfuse_handler :: "exn + unit \<Rightarrow> settings \<Rightarrow> exn + bool" where \<comment> \<open>whether there is a client\<close>
  "get_langfuse_handler client s =
     (if se_langfuse_public_key s = [] \<or> se_langfuse_secret_key s = [] then Inr False
      else case client of Inr u \<Rightarrow> Inr True | Inl e \<Rightarrow> if e = ImportError then Inr False else Inl e)"

record feedback_event =
  fe_type :: string
  fe_prompt :: ucs
  fe_response :: ucs
  fe_metadata :: "(string \<times> string) list"

text \<open>
  The result, the metadata of the caller afterwards, and the task that was started.  A dictionary that
  is not empty is the caller's own.
\<close>

definition send_feedback_to_langfuse ::
  "exn + unit \<Rightarrow> settings \<Rightarrow> string \<Rightarrow> string \<Rightarrow> string \<Rightarrow> ucs \<Rightarrow> ucs \<Rightarrow> (string \<times> string) list option \<Rightarrow>
   (exn + unit) \<times> (string \<times> string) list option \<times> feedback_event option" where
  "send_feedback_to_langfuse client s thread_id message_id ty prompt response metadata =
     (if se_langfuse_public_key s = [] \<or> se_langfuse_secret_key s = [] then (Inr (), metadata, None)
      else
        let own = (metadata = None \<or> metadata = Some []);
            md = AList.update ''message_id'' message_id (AList.update ''thread_id'' thread_id (case metadata of None \<Rightarrow> [] | Some m \<Rightarrow> m));
            left = (if own then metadata else Some md)
        in case get_langfuse_handler client s of
             Inl e \<Rightarrow> (Inl e, left, None)
           | Inr False \<Rightarrow> (Inr (), left, None)
           | Inr True \<Rightarrow> (Inr (), left, Some \<lparr>fe_type = ty, fe_prompt = prompt, fe_response = response, fe_metadata = md\<rparr>))"

text \<open>The task: a trace, a span in it, its end; what raises ends it, without an error to anyone.\<close>

record langfuse_log =
  ll_traces :: "(string \<times> string) list list"
  ll_spans :: "feedback_event list"
  ll_ended :: nat

definition send_langfuse_feedback :: "exn + unit \<Rightarrow> exn + unit \<Rightarrow> exn + unit \<Rightarrow> feedback_event \<Rightarrow> langfuse_log \<Rightarrow> langfuse_log" where
  "send_langfuse_feedback trace sp finish e l =
     (case trace of Inl x \<Rightarrow> l
      | Inr u \<Rightarrow> (let l1 = l\<lparr>ll_traces := ll_traces l @ [fe_metadata e]\<rparr> in
          case sp of Inl x \<Rightarrow> l1
          | Inr u \<Rightarrow> (let l2 = l1\<lparr>ll_spans := ll_spans l1 @ [e]\<rparr> in
              case finish of Inl x \<Rightarrow> l2 | Inr u \<Rightarrow> l2\<lparr>ll_ended := ll_ended l2 + 1\<rparr>)))"

text \<open>The call raises only what the client's construction does, and it may change its caller's metadata.\<close>

lemma feedback_never_raises:
  "fst (send_feedback_to_langfuse client s th mid ty p r md) = Inl e \<Longrightarrow> client = Inl e \<and> e \<noteq> ImportError"
  by (auto simp: send_feedback_to_langfuse_def get_langfuse_handler_def Let_def split: if_splits sum.splits bool.splits)

lemma metadata_changed:
  "se_langfuse_public_key s \<noteq> [] \<Longrightarrow> se_langfuse_secret_key s \<noteq> [] \<Longrightarrow> m \<noteq> [] \<Longrightarrow>
   fst (snd (send_feedback_to_langfuse client s th mid ty p r (Some m))) = Some (AList.update ''message_id'' mid (AList.update ''thread_id'' th m))"
  by (auto simp: send_feedback_to_langfuse_def Let_def split: sum.split bool.split)

section \<open>The first token\<close>

definition TTFT_SLA :: "(string \<times> rat) list" where
  "TTFT_SLA = [(''text'', 500), (''rag'', 1200), (''multimodal'', 3000)]"

definition ttft_breach :: "rat \<Rightarrow> string \<Rightarrow> bool" where \<comment> \<open>whether the warning is logged\<close>
  "ttft_breach ms scenario \<longleftrightarrow> (case map_of TTFT_SLA scenario of None \<Rightarrow> 500 | Some t \<Rightarrow> t) * 2 < ms"

lemma ttft_monotone: "ttft_breach a scenario \<Longrightarrow> a \<le> b \<Longrightarrow> ttft_breach b scenario"
  by (simp add: ttft_breach_def)

end
