(* ===== verification/Reporting.thy ===== *)
theory Reporting
  imports PyStd Db
begin

text \<open>
  \<^verbatim>\<open>verify_all_imports.py\<close>, the report on the program's modules, and \<^verbatim>\<open>shared/logging.py\<close>.  Importing a
  module is a parameter: the type and the message of the exception it raises, if any.
\<close>

section \<open>The report\<close>

definition SHARED_MODULES :: "string list" where
  "SHARED_MODULES = [''shared.citation'', ''shared.query_rewriting'', ''shared.reasoning'', ''shared.prompt_template'',
    ''shared.prompt_factory'', ''shared.prompt_versioning'', ''shared.semantic_chunker'',
    ''shared.hybrid_search'', ''shared.reranker'', ''shared.context_optimizer'', ''shared.guardrails'',
    ''shared.pii_detector'', ''shared.action_policy'', ''shared.output_filter'',
    ''shared.context_compressor'', ''shared.retry'', ''shared.circuit_breaker'', ''shared.architecture_docs'',
    ''shared.webhook_service'', ''shared.sso_auth'', ''shared.channel_adapters'', ''shared.rbac'',
    ''shared.customer_success'', ''shared.api_marketplace'', ''shared.plugin_system'',
    ''shared.knowledge_gap'', ''shared.analytics'', ''shared.translation'', ''shared.billing'',
    ''shared.semantic_cache'', ''shared.redis_client'', ''shared.milvus_client'',
    ''shared.embedding_service'', ''shared.logging'', ''shared.metrics'', ''shared.memory_store'',
    ''shared.config'', ''shared.whisper_client'', ''shared.db'', ''shared.oss_client'']"

definition AGENT_MODULES :: "string list" where
  "AGENT_MODULES = [''chat_service.agent.state'', ''chat_service.agent.intent_recognition'',
    ''chat_service.agent.state_machine'', ''chat_service.agent.memory_manager'',
    ''chat_service.agent.semantic_memory'', ''chat_service.agent.episodic_memory'',
    ''chat_service.agent.tool_registry'', ''chat_service.agent.tool_executor'',
    ''chat_service.agent.mcp_client'', ''chat_service.agent.shared_context'',
    ''chat_service.agent.agent_message'', ''chat_service.agent.summarizer'',
    ''chat_service.agent.checkpointer'', ''chat_service.agent.graph'', ''chat_service.agent.nodes.router'',
    ''chat_service.agent.nodes.preprocess'', ''chat_service.agent.nodes.rag_engine'',
    ''chat_service.agent.nodes.llm_generate'', ''chat_service.agent.nodes.guardrails'',
    ''chat_service.agent.nodes.hitl_node'']"

definition SERVICE_MODULES :: "string list" where
  "SERVICE_MODULES = [''chat_service.services.experiment'', ''chat_service.services.feedback'',
    ''chat_service.services.evaluation'', ''chat_service.services.rollout'']"

definition ROUTE_MODULES :: "string list" where
  "ROUTE_MODULES = [''chat_service.routes.chat'', ''chat_service.routes.ws_chat'', ''chat_service.routes.experiment'',
    ''chat_service.routes.feedback'']"

type_synonym importer = "string \<Rightarrow> (string \<times> string) option"

definition test_import :: "importer \<Rightarrow> string \<Rightarrow> bool \<times> string" where
  "test_import imp m =
     (case imp m of None \<Rightarrow> (True, ''OK'') | Some (ty, msg) \<Rightarrow> (False, ty @ '': '' @ msg))"

definition ljust :: "nat \<Rightarrow> string \<Rightarrow> string" where \<comment> \<open>the format \<open>:<n\<close>\<close>
  "ljust n s = s @ replicate (n - length s) (CHR '' '')"

record report =
  rp_lines :: "string list"
  rp_passed :: nat
  rp_failed :: nat
  rp_failures :: "(string \<times> string) list"

definition report_module :: "importer \<Rightarrow> string \<Rightarrow> report \<Rightarrow> report" where
  "report_module imp m r =
     (let (success, message) = test_import imp m;
          r' = r\<lparr>rp_lines := rp_lines r @ [''['' @ (if success then ''PASS'' else ''FAIL'') @ ''] '' @ ljust 45 m @ '' '' @ message]\<rparr>
      in if success then r'\<lparr>rp_passed := rp_passed r + 1\<rparr>
         else r'\<lparr>rp_failed := rp_failed r + 1, rp_failures := rp_failures r @ [(m, message)]\<rparr>)"

definition all_modules :: "string list" where
  "all_modules = SHARED_MODULES @ AGENT_MODULES @ SERVICE_MODULES @ ROUTE_MODULES"

definition rule_line :: string where
  "rule_line = replicate 70 (CHR ''='')"

definition verification_main :: "importer \<Rightarrow> nat \<times> string list" where \<comment> \<open>the exit code and the lines printed\<close>
  "verification_main imp =
     (let r = fold (report_module imp) all_modules
            \<lparr>rp_lines = [rule_line, ''FINAL VERIFICATION REPORT'', rule_line], rp_passed = 0, rp_failed = 0, rp_failures = []\<rparr>;
          totals = [rule_line, ''Total: '' @ dec_digits (length all_modules) @ '', Passed: '' @ dec_digits (rp_passed r) @
            '', Failed: '' @ dec_digits (rp_failed r), rule_line, []]
      in if rp_failures r \<noteq> []
         then (1, rp_lines r @ totals @ [''FAILED MODULES:''] @
           map (\<lambda>(m, message). ''  - '' @ m @ '': '' @ message) (rp_failures r))
         else (0, rp_lines r @ totals @ [''ALL MODULES VERIFIED SUCCESSFULLY!'']))"

text \<open>The two counts are those of the modules that import and of those that do not, and the failures
  are listed in the order of the modules.\<close>

lemma report_fold:
  "fold (report_module imp) ms r = r\<lparr>
     rp_lines := rp_lines (fold (report_module imp) ms r),
     rp_passed := rp_passed r + length (filter (\<lambda>m. imp m = None) ms),
     rp_failed := rp_failed r + length (filter (\<lambda>m. imp m \<noteq> None) ms),
     rp_failures := rp_failures r @ map (\<lambda>m. (m, snd (test_import imp m))) (filter (\<lambda>m. imp m \<noteq> None) ms)\<rparr>"
proof (induction ms arbitrary: r)
  case (Cons m ms)
  show ?case
    by (simp only: fold_Cons comp_apply, subst Cons.IH)
      (auto simp: report_module_def test_import_def Let_def split: option.split)
qed simp

theorem exit_code_tells_imports:
  "fst (verification_main imp) = 0 \<longleftrightarrow> list_all (\<lambda>m. imp m = None) all_modules"
proof -
  let ?r = "fold (report_module imp) all_modules
    \<lparr>rp_lines = [rule_line, ''FINAL VERIFICATION REPORT'', rule_line], rp_passed = 0, rp_failed = 0, rp_failures = []\<rparr>"
  have f: "rp_failures ?r = map (\<lambda>m. (m, snd (test_import imp m))) (filter (\<lambda>m. imp m \<noteq> None) all_modules)"
    by (subst report_fold) simp
  have "fst (verification_main imp) = (if rp_failures ?r \<noteq> [] then 1 else 0)"
    by (simp add: verification_main_def Let_def)
  then show ?thesis unfolding f by (simp add: list_all_iff filter_empty_conv del: not_None_eq split_paired_Ex)
qed

lemma modules_once: "distinct all_modules"
  by code_simp

section \<open>Logging\<close>

text \<open>
  The levels that \<^verbatim>\<open>logging\<close> names; of its other attributes none is a level.  Context variables are a
  dictionary that every event carries.
\<close>

definition LEVELS :: "(string \<times> nat) list" where
  "LEVELS = [(''CRITICAL'', 50), (''FATAL'', 50), (''ERROR'', 40), (''WARNING'', 30), (''WARN'', 30), (''INFO'', 20),
     (''DEBUG'', 10), (''NOTSET'', 0)]"

record log_setup =
  lg_level :: "nat option"  \<comment> \<open>once configured\<close>
  lg_context :: "(string \<times> string) list"

definition setup_logging :: "string \<Rightarrow> string \<Rightarrow> log_setup \<Rightarrow> exn + log_setup" where
  "setup_logging level service_name g =
     (case map_of LEVELS level of
        None \<Rightarrow> Inl AttributeError
      | Some n \<Rightarrow> (let g' = g\<lparr>lg_level := Some n\<rparr> in
          Inr (if service_name \<noteq> [] then g'\<lparr>lg_context := AList.update ''service_name'' service_name (lg_context g')\<rparr> else g')))"

definition bind_request_context :: "string \<Rightarrow> string \<Rightarrow> string \<Rightarrow> log_setup \<Rightarrow> log_setup" where
  "bind_request_context tenant thread trace g =
     g\<lparr>lg_context := AList.update ''trace_id'' trace (AList.update ''thread_id'' thread (AList.update ''tenant_id'' tenant (lg_context g)))\<rparr>"

definition event_context :: "(string \<times> string) list \<Rightarrow> log_setup \<Rightarrow> (string \<times> string) list" where \<comment> \<open>\<open>merge_contextvars\<close>\<close>
  "event_context event g = fold (\<lambda>(k, v) d. AList.update k v d) event (lg_context g)"

text \<open>Binding some of the three again empties the others: a request that binds its trace alone is
  logged without a tenant.\<close>

lemma later_binding_forgets:
  "map_of (event_context [] (bind_request_context [] [] trace (bind_request_context tenant thread tr g))) ''tenant_id'' = Some []"
  by (simp add: event_context_def bind_request_context_def)

lemma service_kept:
  assumes "setup_logging level svc g = Inr g'" and "svc \<noteq> []"
  shows "map_of (event_context [] (bind_request_context a b c g')) ''service_name'' = Some svc"
  using assms by (auto simp: setup_logging_def bind_request_context_def event_context_def Let_def split: option.splits)

end
