(* ===== verification/Spec2Isabelle.thy ===== *)
theory Spec2Isabelle
  imports Hitl Feedback Experiment Billing Gateway Resilience Orchestrator TokenQueue Assistant Cache Rbac Sessions ChatApp AdminConfig Plugins Webhooks Health
    Toolbox Retrieval ContextFit Memory Reasoning Streaming Marketplace Success
    Template TemplateEngine Prompts Metrics Guard Channels Sso SemanticChunker Entities AgentMessage Clients Seeding Services Migrations Reporting
begin

text \<open>
  \<^bold>\<open>Cuckoo-Echo, a multi-tenant customer-service assistant: a verification library of its Python services.\<close>

  The program is a set of asynchronous services over PostgreSQL, Redis, Milvus and language models: an
  API gateway, a chat service that runs an agent graph, an admin service, a worker that indexes
  documents, and the modules they share.  All paths below are under \<^verbatim>\<open>src/\<close>.

  \<^bold>\<open>Parts and theories.\<close>
  \<^item> \<^verbatim>\<open>Prelude\<close>: tables as lists of rows (\<open>sql_update\<close>, \<open>sql_select\<close>, \<open>fetchrow\<close>), dictionaries as
    association lists, rounding, reachability (\<open>reach\<close>) and the contracts \<open>keyed_table\<close> and
    \<open>invariant_system\<close> that most components interpret.
  \<^item> \<^verbatim>\<open>PyStd\<close>, \<^verbatim>\<open>Digest\<close>: what the code uses of Python's standard library: \<open>str\<close> methods, regular
    expressions, UUIDs; MD5 and SHA-256 on 32-bit words.  \<^verbatim>\<open>Floats\<close>: the double next to a number.
  \<^item> \<^verbatim>\<open>Db\<close>: the exceptions, \<open>tenant_db_context\<close> and the keys of \<^verbatim>\<open>shared/db.py\<close>, row-level security.
  \<^item> \<^verbatim>\<open>Hitl\<close>: sessions of human agents, their escalation tasks and tickets, the poller and the socket
    registry (\<^verbatim>\<open>admin_service/routes/hitl.py\<close>).  Handlers under way are part of the state: \<open>hitl_step\<close>
    interleaves their reads, which lock no session, and their commits; \<open>solo_step\<close> are the steps in
    which no session has two handlers under way.
  \<^item> \<^verbatim>\<open>Feedback\<close>, \<^verbatim>\<open>Experiment\<close>, \<^verbatim>\<open>Billing\<close>: thumbs with their cached statistics, A/B experiments with
    traffic splitting and results, and usage, limits, plans and invoices (\<^verbatim>\<open>chat_service/services\<close>,
    \<^verbatim>\<open>chat_service/routes\<close>, \<^verbatim>\<open>shared/billing.py\<close>, \<^verbatim>\<open>admin_service/routes/billing.py\<close>).
  \<^item> \<^verbatim>\<open>Gateway\<close>: tenant authentication, rate limit and media formats of the API gateway, and the admin
    tokens (\<^verbatim>\<open>api_gateway/middleware\<close>, \<^verbatim>\<open>admin_service/middleware\<close>, \<^verbatim>\<open>admin_service/routes/auth.py\<close>).
  \<^item> \<^verbatim>\<open>Resilience\<close>: circuit breaker and retries (\<^verbatim>\<open>shared/circuit_breaker.py\<close>, \<^verbatim>\<open>shared/retry.py\<close>).
  \<^item> \<^verbatim>\<open>Orchestrator\<close>: agents, roles, task decomposition, delegation and workflows
    (\<^verbatim>\<open>chat_service/agent/orchestrator.py\<close>, \<^verbatim>\<open>role_registry.py\<close>).
  \<^item> The agent: \<^verbatim>\<open>AgentState\<close> (the graph's state and citations), \<^verbatim>\<open>LlmClient\<close> (requests to the models and
    reading their answers), \<^verbatim>\<open>Router\<close>, \<^verbatim>\<open>AgentNodes\<close> (preprocessing, tools), \<^verbatim>\<open>AgentAnswer\<close> (retrieval,
    semantic cache, generation, guardrails, hand-over) and \<^verbatim>\<open>AgentGraph\<close>, which composes the nodes as
    \<^verbatim>\<open>chat_service/agent/graph.py\<close> does and lets a thread take turn after turn.
  \<^item> The chat routes: \<^verbatim>\<open>ChatSse\<close> is \<^verbatim>\<open>chat_service/routes/chat.py\<close> and \<^verbatim>\<open>ws_chat.py\<close>, where limit, lock,
    agent, stream and billing meet, with a trace that orders the lock against the agent's nodes; \<^verbatim>\<open>TokenQueue\<close> is the process-wide attribute through which its
    requests stream, under interleaving.
  \<^item> The knowledge pipeline: \<^verbatim>\<open>Chunker\<close> (\<^verbatim>\<open>knowledge_pipeline/chunker.py\<close>), \<^verbatim>\<open>Knowledge\<close> (parser, worker
    and admin routes as one interleaved machine) and \<^verbatim>\<open>KnowledgeIndex\<close> (what it guarantees).
  \<^item> \<^verbatim>\<open>Assistant\<close>: the pipeline and the agent together.  \<^verbatim>\<open>Services\<close> and \<^verbatim>\<open>ChatApp\<close>: how the processes are
    put together, the pools, the clients, the start and the end of each service (\<^verbatim>\<open>main.py\<close> of the services,
    \<^verbatim>\<open>shared/db.py\<close>, \<^verbatim>\<open>redis_client.py\<close>, \<^verbatim>\<open>milvus_client.py\<close>), and a request of the chat from its door on.
  \<^item> Conversations and memory: \<^verbatim>\<open>Dialogue\<close> (intents, the conversation's states), \<^verbatim>\<open>Sessions\<close>
    (\<^verbatim>\<open>session_manager.py\<close>), \<^verbatim>\<open>Memory\<close> (\<^verbatim>\<open>memory_manager.py\<close>, \<^verbatim>\<open>semantic_memory.py\<close>, \<^verbatim>\<open>episodic_memory.py\<close>,
    \<^verbatim>\<open>shared/memory_store.py\<close>), \<^verbatim>\<open>ContextFit\<close> (context compression and optimization), \<^verbatim>\<open>Entities\<close> (entities,
    translation), \<^verbatim>\<open>AgentMessage\<close>, \<^verbatim>\<open>Streaming\<close> (\<^verbatim>\<open>streaming_optimizer.py\<close>).
  \<^item> Tools and retrieval: \<^verbatim>\<open>Toolbox\<close> (registry, executor, MCP client, gateway wrappers), \<^verbatim>\<open>Retrieval\<close>
    (reranking, hybrid search, query rewriting), \<^verbatim>\<open>Reasoning\<close> (\<^verbatim>\<open>shared/reasoning.py\<close>),
    \<^verbatim>\<open>SemanticChunker\<close> (\<^verbatim>\<open>shared/semantic_chunker.py\<close>), \<^verbatim>\<open>Terms\<close> (the words they share).
  \<^item> Prompts and safety: \<^verbatim>\<open>Regex\<close> (the module \<open>re\<close> as the code uses it), \<^verbatim>\<open>Template\<close>, \<^verbatim>\<open>TemplateEngine\<close>,
    \<^verbatim>\<open>Prompts\<close> (templates, factories, versions), \<^verbatim>\<open>Guard\<close> (guardrails, personal data, output filter, policy).
  \<^item> Administration: \<^verbatim>\<open>AdminConfig\<close>, \<^verbatim>\<open>Plugins\<close>, \<^verbatim>\<open>Metrics\<close> (admin metrics, analytics, knowledge gaps, evaluation
    and the quality gate), \<^verbatim>\<open>Health\<close> (health monitor, progressive rollout), \<^verbatim>\<open>Success\<close> (customer success).
  \<^item> Integration: \<^verbatim>\<open>Webhooks\<close>, \<^verbatim>\<open>Channels\<close>, \<^verbatim>\<open>Sso\<close>, \<^verbatim>\<open>Marketplace\<close>, \<^verbatim>\<open>Rbac\<close>, \<^verbatim>\<open>Cache\<close> (cache back ends, contexts shared by
    roles), \<^verbatim>\<open>Uuid\<close>, \<^verbatim>\<open>Clients\<close> (settings, object store, speech, embeddings).
  \<^item> Operation: \<^verbatim>\<open>Migrations\<close> (the revisions under \<^verbatim>\<open>migrations/alembic\<close> as statements over catalogue and rows),
    \<^verbatim>\<open>Seeding\<close> (\<^verbatim>\<open>scripts/seed.py\<close>, \<^verbatim>\<open>seed_tenant.py\<close>), \<^verbatim>\<open>Reporting\<close> (\<^verbatim>\<open>verify_all_imports.py\<close>, \<^verbatim>\<open>shared/logging.py\<close>).

  \<^bold>\<open>How state and operations correspond.\<close>  A table is a record field holding its rows in insertion
  order, with the constraints of the migrations checked by the statements that can violate them.  A
  handler is a function from the old state to a result and the new state; \<open>Inl\<close> is the exception it
  raises.  Redis keys, the in-process dictionaries and the sockets are fields of the same records.  Where
  two requests can interleave, the handler is split: the reads and commits of \<^verbatim>\<open>Hitl\<close>
  (\<open>take_check\<close>/\<open>take_write\<close>, \<open>end_check\<close>/\<open>end_write\<close>, \<open>poll_read\<close>/\<open>poll_write\<close>), the events of \<^verbatim>\<open>TokenQueue\<close>, the phases of the worker of \<^verbatim>\<open>Knowledge\<close>.  Row-level security is a
  flag of the database: the policies apply to a role unless it owns the tables.

  \<^bold>\<open>What the lemmas show.\<close>  Each component's theory proves its invariant over every reachable state
  (interpretations of \<open>invariant_system\<close>), then its properties as few steps over it.  The contracts are
  locales, each interpreted on the model's own operations: \<open>keyed_table\<close> for tables with a key;
  \<open>node_contract\<close>, a relation that every node of the agent keeps is kept by a turn; \<open>splitter\<close>, what a text
  splitter may not lose; \<open>doc_operation\<close>, what the routes leave of a document; \<open>cache_contract\<close>, which the
  Redis and the in-process cache both meet; \<open>channel_adapter\<close>, by which the four adapters read back what
  was delivered; \<open>redactor\<close>, which the agent's and the shared detection of personal data meet.  Scopes and
  service states are instances of \<open>linorder\<close>.  Errors of the code that the model exposes are theorems as
  well: which request fails, what is lost or leaked, which queue never drains.

  \<^bold>\<open>Bounds and fuel.\<close>  No fuel is used to cut a computation short.  Retries recurse on the attempts left,
  which the code bounds; the agent's graph recurses on the rank of its nodes and is total; the
  fixed-size loop of the splitter is a partial function whose termination is characterised exactly; the
  poller's and the worker's endless loops are folds over as many iterations as the statement names.

  \<^bold>\<open>Parameters.\<close>  Code that is not in the repository is an argument: the model calls of LiteLLM, Milvus
  searches, embeddings, docling, the reranker, the entailment model, speech recognition, the object
  store, the JWT codec and bcrypt, the XML parser, the evaluation library, the difference of texts, the
  Unicode classes of characters, \<open>repr\<close> of arbitrary values, the values of database defaults, what
  importing a module raises, the clocks, random numbers and new identifiers.  What is assumed of
  one stands in the theorem that needs it (\<open>searches\<close>, \<open>well_behaved\<close>).  LangGraph is taken as
  documented: a turn starts from the thread's stored state and every node's result is merged into it;
  so are Starlette (an application with a lifespan calls no start-up handler) and Alembic (the revisions
  in their order, a command in one transaction).

  \<^bold>\<open>Abstractions.\<close>  SQL numerics are exact rationals, and so are floats except where \<open>to_float\<close> rounds
  them (the shares of \<^verbatim>\<open>Feedback\<close> and \<^verbatim>\<open>Metrics\<close> and the thresholds of the quality gates); detail texts of errors, logs and traces
  are left out; MD5, SHA-256 and integers of fixed width are bit-exact.

  \<^bold>\<open>Not modelled.\<close>  The texts of \<^verbatim>\<open>shared/architecture_docs.py\<close>; \<^verbatim>\<open>scripts/manage_services.py\<close>, which is not a
  Python program; the empty package files; the instrumentation of metrics and traces; the offline mode
  of the migrations, and that the columns a statement names exist; the shell scripts, the front end, the
  deployment files, the documents and the tests.
\<close>

end
